(* ===== verification/Prelude.thy ===== *)
theory Prelude
  imports Main "HOL-Library.Word"
begin

text \<open>
  Shared vocabulary of the development: the machine integers of the Rust sources, the
  \<open>Result\<close> type and its \<open>?\<close> operator, the standard-library slice operations the code
  calls, and the generic list lemmas the component theories use.

  Conventions. A \<open>u8\<close>, \<open>u32\<close> or \<open>u64\<close> field is a word of that width. A \<open>usize\<close> that is
  a length or an index of a slice is a \<^typ>\<open>nat\<close>, with the 64-bit limit written out wherever the
  code checks it. A \<open>Range<usize>\<close> is a pair. A \<open>Result\<close> is a sum, \<open>Inl\<close> the error.
  Whether an allocation succeeds is a decision of the allocator, not of this code: every
  definition that reserves memory takes the allocator's answer as an argument.
\<close>

unbundle bit_operations_syntax

section \<open>Machine integers\<close>

type_synonym u8 = "8 word"
type_synonym u16 = "16 word"
type_synonym u32 = "32 word"
type_synonym i32 = "32 word"
type_synonym u64 = "64 word"
type_synonym usize = nat

definition usize_limit :: nat where
  "usize_limit = 2 ^ 64"

definition usize_checked_add :: "usize \<Rightarrow> usize \<Rightarrow> usize option" where
  "usize_checked_add a b = (if a + b < usize_limit then Some (a + b) else None)"

definition usize_saturating_add :: "usize \<Rightarrow> usize \<Rightarrow> usize" where
  "usize_saturating_add a b = min (a + b) (usize_limit - 1)"

definition checked_add :: "'a::len word \<Rightarrow> 'a word \<Rightarrow> 'a word option" where
  "checked_add a b = (if unat a + unat b < 2 ^ LENGTH('a) then Some (a + b) else None)"

definition checked_sub :: "'a::len word \<Rightarrow> 'a word \<Rightarrow> 'a word option" where
  "checked_sub a b = (if b \<le> a then Some (a - b) else None)"

definition checked_mul :: "'a::len word \<Rightarrow> 'a word \<Rightarrow> 'a word option" where
  "checked_mul a b = (if unat a * unat b < 2 ^ LENGTH('a) then Some (a * b) else None)"

definition is_multiple_of :: "'a::len word \<Rightarrow> 'a word \<Rightarrow> bool" where
  "is_multiple_of a b = (if b = 0 then a = 0 else a mod b = 0)"

text \<open>The word of little-endian bytes, and the bytes of a 32-bit word.\<close>

fun le_word :: "u8 list \<Rightarrow> 'a::len word" where
  "le_word [] = 0"
| "le_word (b # bs) = ucast b OR push_bit 8 (le_word bs)"

lemma bit_le_word:
  "bit (le_word bs :: 'a::len word) n \<longleftrightarrow>
     n < LENGTH('a) \<and> n div 8 < length bs \<and> bit (bs ! (n div 8)) (n mod 8)"
proof (induction bs arbitrary: n)
  case (Cons b bs)
  show ?case
  proof (cases "n < 8")
    case True
    then show ?thesis by (auto simp: bit_simps dest: bit_imp_le_length)
  next
    case False
    then obtain m where n: "n = 8 + m" using le_Suc_ex by (metis not_less)
    have "\<not> bit b n" using False by (auto dest: bit_imp_le_length)
    moreover have "n div 8 = Suc (m div 8)" "n mod 8 = m mod 8" "n - 8 = m" using n by auto
    ultimately show ?thesis
      using Cons.IH [of m] False n by (auto simp: bit_simps)
  qed
qed simp

definition u32_to_le_bytes :: "u32 \<Rightarrow> u8 list" where
  "u32_to_le_bytes w = [ucast w, ucast (drop_bit 8 w), ucast (drop_bit 16 w), ucast (drop_bit 24 w)]"

definition u32_from_le_bytes :: "u8 \<Rightarrow> u8 \<Rightarrow> u8 \<Rightarrow> u8 \<Rightarrow> u32" where
  "u32_from_le_bytes a b c d = le_word [a, b, c, d]"

lemma u32_to_from_le_bytes [simp]: "u32_to_le_bytes (u32_from_le_bytes a b c d) = [a, b, c, d]"
  by (auto simp: u32_to_le_bytes_def u32_from_le_bytes_def bit_eq_iff bit_simps dest: bit_imp_le_length)

lemma u32_from_to_le_bytes:
  "u32_from_le_bytes (ucast w) (ucast (drop_bit 8 w)) (ucast (drop_bit 16 w)) (ucast (drop_bit 24 w)) = w"
  (is "?v = _")
proof (rule bit_word_eqI)
  fix n assume "n < LENGTH(32)"
  then consider "n < 8" | "8 \<le> n" "n < 16" | "16 \<le> n" "n < 24" | "24 \<le> n" "n < 32" by fastforce
  then show "bit ?v n \<longleftrightarrow> bit w n"
    by cases (simp add: u32_from_le_bytes_def bit_simps, (auto simp: u32_from_le_bytes_def bit_simps)+)
qed

lemma u32_bytes_cases:
  obtains a b c d where "w = u32_from_le_bytes a b c d"
  using u32_from_to_le_bytes [of w] by metis

text \<open>The bound of a word's value, at the widths the code uses.\<close>

lemma unat_bounds [simp]:
  "unat (x8 :: u8) < 256" "unat (x16 :: u16) < 65536"
  "unat (x32 :: u32) < 4294967296" "unat (x64 :: u64) < 18446744073709551616"
  using unsigned_less [of x8, where ?'a = nat] unsigned_less [of x16, where ?'a = nat]
    unsigned_less [of x32, where ?'a = nat] unsigned_less [of x64, where ?'a = nat]
  by simp_all

lemma usize_checked_add_Some:
  "usize_checked_add a b = Some c \<longleftrightarrow> c = a + b \<and> a + b < usize_limit"
  by (auto simp: usize_checked_add_def)

lemma usize_checked_add_None:
  "usize_checked_add a b = None \<longleftrightarrow> usize_limit \<le> a + b"
  by (auto simp: usize_checked_add_def)

lemma checked_add_Some:
  "checked_add a b = Some c \<longleftrightarrow> c = a + b \<and> unat c = unat a + unat b"
  by (auto simp: checked_add_def unat_add_lem)

lemma checked_mul_Some:
  "checked_mul a b = Some c \<longleftrightarrow> c = a * b \<and> unat c = unat a * unat b"
  by (auto simp: checked_mul_def unat_mult_lem)

lemma checked_sub_Some:
  "checked_sub a b = Some c \<longleftrightarrow> b \<le> a \<and> c = a - b"
  by (auto simp: checked_sub_def)

section \<open>Results and the question-mark operator\<close>

fun and_then :: "'e + 'a \<Rightarrow> ('a \<Rightarrow> 'e + 'b) \<Rightarrow> 'e + 'b" where
  "and_then (Inl e) k = Inl e"
| "and_then (Inr x) k = k x"

definition ok_or :: "'a option \<Rightarrow> 'e \<Rightarrow> 'e + 'a" where
  "ok_or m e = (case m of None \<Rightarrow> Inl e | Some x \<Rightarrow> Inr x)"

definition ensure :: "bool \<Rightarrow> 'e \<Rightarrow> 'e + unit" where
  "ensure b e = (if b then Inr () else Inl e)"

definition reject_if :: "bool \<Rightarrow> 'e \<Rightarrow> 'e + unit" where
  "reject_if b e = (if b then Inl e else Inr ())"

definition is_ok :: "'e + 'a \<Rightarrow> bool" where
  "is_ok r = (case r of Inl _ \<Rightarrow> False | Inr _ \<Rightarrow> True)"

lemma and_then_Inr_iff: "and_then m k = Inr y \<longleftrightarrow> (\<exists>x. m = Inr x \<and> k x = Inr y)"
  by (cases m) auto

lemma and_then_Inl_iff:
  "and_then m k = Inl e \<longleftrightarrow> m = Inl e \<or> (\<exists>x. m = Inr x \<and> k x = Inl e)"
  by (cases m) auto

lemma ok_or_simps [simp]: "ok_or None e = Inl e" "ok_or (Some x) e = Inr x"
  by (simp_all add: ok_or_def)

lemma ok_or_Inr_iff [simp]: "ok_or m e = Inr x \<longleftrightarrow> m = Some x"
  by (cases m) auto

lemma ok_or_Inl_iff [simp]: "ok_or m e = Inl e' \<longleftrightarrow> m = None \<and> e' = e"
  by (cases m) auto

lemma ensure_simps [simp]: "ensure True e = Inr ()" "ensure False e = Inl e"
  by (simp_all add: ensure_def)

lemma ensure_Inr_iff [simp]: "ensure b e = Inr u \<longleftrightarrow> b"
  by (simp add: ensure_def)

lemma ensure_Inl_iff [simp]: "ensure b e = Inl e' \<longleftrightarrow> \<not> b \<and> e' = e"
  by (auto simp: ensure_def)

lemma reject_if_simps [simp]: "reject_if True e = Inl e" "reject_if False e = Inr ()"
  by (simp_all add: reject_if_def)

lemma reject_if_Inr_iff [simp]: "reject_if b e = Inr u \<longleftrightarrow> \<not> b"
  by (simp add: reject_if_def)

lemma reject_if_Inl_iff [simp]: "reject_if b e = Inl e' \<longleftrightarrow> b \<and> e' = e"
  by (auto simp: reject_if_def)

lemma is_ok_simps [simp]: "is_ok (Inl e) = False" "is_ok (Inr x) = True"
  by (simp_all add: is_ok_def)

lemmas result_simps = and_then_Inr_iff and_then_Inl_iff

text \<open>
  A method on \<open>&mut self\<close> returns its result and the state it leaves, also when it fails; \<open>then_do\<close>
  is its question mark.
\<close>

definition then_do :: "('e + 'a) \<times> 's \<Rightarrow> ('a \<Rightarrow> 's \<Rightarrow> ('e + 'b) \<times> 's) \<Rightarrow> ('e + 'b) \<times> 's" where
  "then_do m k = (case m of (Inl e, s) \<Rightarrow> (Inl e, s) | (Inr x, s) \<Rightarrow> k x s)"

lemma then_do_simps [simp]:
  "then_do (Inl e, s) k = (Inl e, s)" "then_do (Inr x, s) k = k x s"
  by (simp_all add: then_do_def)

lemma then_do_Inr: "then_do m k = (Inr y, s') \<longleftrightarrow> (\<exists>x s. m = (Inr x, s) \<and> k x s = (Inr y, s'))"
  by (cases m; cases "fst m") auto

lemma then_do_Inl:
  "then_do m k = (Inl e, s') \<longleftrightarrow> m = (Inl e, s') \<or> (\<exists>x s. m = (Inr x, s) \<and> k x s = (Inl e, s'))"
  by (cases m; cases "fst m") auto

text \<open>A loop that checks each element in turn and stops at the first error.\<close>

fun for_each :: "('a \<Rightarrow> 'e + unit) \<Rightarrow> 'a list \<Rightarrow> 'e + unit" where
  "for_each f [] = Inr ()"
| "for_each f (x # xs) = and_then (f x) (\<lambda>_. for_each f xs)"

lemma for_each_Inr: "for_each f xs = Inr u \<longleftrightarrow> (\<forall>x \<in> set xs. f x = Inr ())"
  by (induction xs) (auto simp: and_then_Inr_iff)

lemma option_eqI: "(\<And>x. m = Some x \<longleftrightarrow> n = Some x) \<Longrightarrow> m = n"
  by (cases m; cases n) auto

section \<open>Slices\<close>

text \<open>
  \<open>slice.get(i)\<close>, and \<open>slice.partition_point(p)\<close>: the length of the prefix on which \<open>p\<close> holds.
  The standard library computes it by binary search and promises this value for a slice that
  \<open>p\<close> partitions; the theories that call it prove that it does.
\<close>

definition get :: "'a list \<Rightarrow> nat \<Rightarrow> 'a option" where
  "get xs i = (if i < length xs then Some (xs ! i) else None)"

definition partition_point :: "('a \<Rightarrow> bool) \<Rightarrow> 'a list \<Rightarrow> nat" where
  "partition_point p xs = length (takeWhile p xs)"

definition partitioned :: "('a \<Rightarrow> bool) \<Rightarrow> 'a list \<Rightarrow> bool" where
  "partitioned p xs \<longleftrightarrow> (\<forall>x \<in> set (dropWhile p xs). \<not> p x)"

text \<open>\<open>slice.copy_within(src..src_end, dest)\<close>, with its bounds met.\<close>

definition copy_within :: "'a list \<Rightarrow> nat \<Rightarrow> nat \<Rightarrow> nat \<Rightarrow> 'a list" where
  "copy_within xs src src_end dest =
     take dest xs @ take (src_end - src) (drop src xs) @ drop (dest + (src_end - src)) xs"

text \<open>\<open>dst[at..at + src.len()].copy_from_slice(src)\<close>, with its bounds met.\<close>

definition overwrite_at :: "'a list \<Rightarrow> nat \<Rightarrow> 'a list \<Rightarrow> 'a list" where
  "overwrite_at dst at src = take at dst @ src @ drop (at + length src) dst"

definition sub_slice :: "'a list \<Rightarrow> nat \<Rightarrow> nat \<Rightarrow> 'a list" where
  "sub_slice xs from to = take (to - from) (drop from xs)"

text \<open>\<open>vec.drain(a..b)\<close> and \<open>vec.insert(i, x)\<close>, with their bounds met.\<close>

definition vec_drain :: "'a list \<Rightarrow> nat \<Rightarrow> nat \<Rightarrow> 'a list" where
  "vec_drain xs a b = take a xs @ drop b xs"

definition vec_insert :: "'a list \<Rightarrow> nat \<Rightarrow> 'a \<Rightarrow> 'a list" where
  "vec_insert xs i x = take i xs @ x # drop i xs"

lemma get_Some: "get xs i = Some x \<longleftrightarrow> i < length xs \<and> x = xs ! i"
  by (auto simp: get_def)

lemma get_None: "get xs i = None \<longleftrightarrow> length xs \<le> i"
  by (auto simp: get_def)

lemma partition_point_le [simp]: "partition_point p xs \<le> length xs"
  by (simp add: partition_point_def length_takeWhile_le)

lemma take_partition_point [simp]: "take (partition_point p xs) xs = takeWhile p xs"
  by (simp add: partition_point_def flip: takeWhile_eq_take)

lemma drop_partition_point [simp]: "drop (partition_point p xs) xs = dropWhile p xs"
  by (simp add: partition_point_def flip: dropWhile_eq_drop)

lemma partitioned_Nil [simp]: "partitioned p []"
  by (simp add: partitioned_def)

lemma partitioned_Cons:
  "partitioned p (x # xs) \<longleftrightarrow> (if p x then partitioned p xs else \<forall>y \<in> set xs. \<not> p y)"
  by (auto simp: partitioned_def)

lemma partitioned_if_sorted_wrt:
  assumes "sorted_wrt R xs"
    and "\<And>x y. x \<in> set xs \<Longrightarrow> y \<in> set xs \<Longrightarrow> R x y \<Longrightarrow> p y \<Longrightarrow> p x"
  shows "partitioned p xs"
  using assms
proof (induction xs)
  case (Cons x xs)
  then have "partitioned p xs" and "\<forall>y \<in> set xs. p y \<longrightarrow> p x"
    by auto
  then show ?case by (auto simp: partitioned_Cons)
qed simp

lemma takeWhile_eq_filter_if_partitioned:
  "partitioned p xs \<Longrightarrow> takeWhile p xs = filter p xs"
  by (induction xs) (simp_all add: partitioned_Cons split: if_splits)

lemma dropWhile_eq_filter_if_partitioned:
  "partitioned p xs \<Longrightarrow> dropWhile p xs = filter (\<lambda>x. \<not> p x) xs"
proof (induction xs)
  case (Cons x xs)
  show ?case
  proof (cases "p x")
    case True
    with Cons show ?thesis by (simp add: partitioned_Cons)
  next
    case False
    with Cons.prems have "filter (\<lambda>y. \<not> p y) xs = xs"
      by (intro filter_True) (simp add: partitioned_Cons)
    with False show ?thesis by simp
  qed
qed simp

lemma length_overwrite_at [simp]:
  "at + length src \<le> length dst \<Longrightarrow> length (overwrite_at dst at src) = length dst"
  by (simp add: overwrite_at_def)

lemma nth_overwrite_at:
  assumes "at + length src \<le> length dst" and "i < length dst"
  shows "overwrite_at dst at src ! i =
    (if at \<le> i \<and> i < at + length src then src ! (i - at) else dst ! i)"
  using assms by (auto simp: overwrite_at_def nth_append min_def)

lemma length_sub_slice [simp]: "length (sub_slice xs a b) = min (b - a) (length xs - a)"
  by (auto simp: sub_slice_def)

lemma nth_sub_slice: "i < b - a \<Longrightarrow> a + i < length xs \<Longrightarrow> sub_slice xs a b ! i = xs ! (a + i)"
  by (simp add: sub_slice_def)

lemma sub_slice_append:
  assumes "a \<le> b" and "b \<le> c"
  shows "sub_slice xs a b @ sub_slice xs b c = sub_slice xs a c"
proof -
  have "take (c - a) (drop a xs) = take (b - a) (drop a xs) @ take (c - b) (drop b xs)"
    using assms take_add [of "b - a" "c - b" "drop a xs"] by (simp add: drop_drop)
  then show ?thesis by (simp add: sub_slice_def)
qed

end
