(* ===== verification/Range_Index.thy ===== *)
theory Range_Index
  imports Prelude
begin

text \<open>
  \<^verbatim>\<open>crates/sgfx-core/src/backend/support/ranges.rs\<close>: the disjoint last-write-wins index over the
  byte ranges of pending uploads.

  The model keeps the segment vector as a list and performs \<open>insert\<close> the way the code does,
  with its resize, its move of the tail and its final stores. The abstract view of an index is
  the map \<open>owner\<close> from a byte to the write that last covered it. The locale \<open>byte_store\<close> states
  what any such index promises; the interpretation \<open>ri\<close> discharges it for \<open>insert\<close>.
\<close>

section \<open>Ranges\<close>

type_synonym range = "nat \<times> nat"

definition range_is_empty :: "range \<Rightarrow> bool" where
  "range_is_empty r \<longleftrightarrow> \<not> fst r < snd r"

definition in_range :: "nat \<Rightarrow> range \<Rightarrow> bool" where
  "in_range b r \<longleftrightarrow> fst r \<le> b \<and> b < snd r"

definition sorted_ranges :: "('a \<Rightarrow> range) \<Rightarrow> 'a list \<Rightarrow> bool" where
  "sorted_ranges bounds xs \<longleftrightarrow>
     sorted_wrt (\<lambda>x y. snd (bounds x) \<le> fst (bounds y)) xs \<and>
     (\<forall>x \<in> set xs. fst (bounds x) < snd (bounds x))"

text \<open>Searching both boundaries, as \<open>intersecting\<close> does.\<close>

definition intersecting :: "'a list \<Rightarrow> range \<Rightarrow> ('a \<Rightarrow> range) \<Rightarrow> 'a list" where
  "intersecting items r bounds =
     (if range_is_empty r then take 0 items
      else
        let first = partition_point (\<lambda>item. snd (bounds item) \<le> fst r) items;
            remaining = drop first items;
            count = partition_point (\<lambda>item. fst (bounds item) < snd r) remaining
        in take count remaining)"

lemma sorted_ranges_Nil [simp]: "sorted_ranges bounds []"
  by (simp add: sorted_ranges_def)

lemma sorted_ranges_Cons:
  "sorted_ranges bounds (x # xs) \<longleftrightarrow>
     fst (bounds x) < snd (bounds x) \<and> (\<forall>y \<in> set xs. snd (bounds x) \<le> fst (bounds y)) \<and>
     sorted_ranges bounds xs"
  by (auto simp: sorted_ranges_def)

lemma sorted_ranges_append:
  "sorted_ranges bounds (xs @ ys) \<longleftrightarrow>
     sorted_ranges bounds xs \<and> sorted_ranges bounds ys \<and>
     (\<forall>x \<in> set xs. \<forall>y \<in> set ys. snd (bounds x) \<le> fst (bounds y))"
  by (auto simp: sorted_ranges_def sorted_wrt_append)

text \<open>Both predicates that the code searches with do partition a sorted slice.\<close>

lemma partitioned_by_end:
  "sorted_ranges bounds xs \<Longrightarrow> partitioned (\<lambda>x. snd (bounds x) \<le> s) xs"
  by (induction xs) (fastforce simp: partitioned_Cons sorted_ranges_Cons sorted_ranges_def)+

lemma partitioned_by_start:
  "sorted_ranges bounds xs \<Longrightarrow> partitioned (\<lambda>x. fst (bounds x) < e) xs"
  by (induction xs) (fastforce simp: partitioned_Cons sorted_ranges_Cons)+

lemma sorted_ranges_dropWhile:
  "sorted_ranges bounds xs \<Longrightarrow> sorted_ranges bounds (dropWhile p xs)"
  by (metis sorted_ranges_append takeWhile_dropWhile_id)

lemma intersecting_eq_filter:
  assumes "sorted_ranges bounds xs" and "fst r < snd r"
  shows "intersecting xs r bounds =
    filter (\<lambda>x. fst r < snd (bounds x) \<and> fst (bounds x) < snd r) xs"
proof -
  let ?rest = "dropWhile (\<lambda>x. snd (bounds x) \<le> fst r) xs"
  have "intersecting xs r bounds = takeWhile (\<lambda>x. fst (bounds x) < snd r) ?rest"
    using assms(2) by (simp add: intersecting_def range_is_empty_def Let_def)
  also have "\<dots> = filter (\<lambda>x. fst (bounds x) < snd r) ?rest"
    using assms(1)
    by (intro takeWhile_eq_filter_if_partitioned partitioned_by_start sorted_ranges_dropWhile)
  also have "?rest = filter (\<lambda>x. \<not> snd (bounds x) \<le> fst r) xs"
    using assms(1) by (intro dropWhile_eq_filter_if_partitioned partitioned_by_end)
  finally show ?thesis by (simp add: not_le conj_commute)
qed

section \<open>The index\<close>

record segment =
  seg_start :: usize
  seg_end :: usize
  seg_write :: usize

datatype try_reserve_error = TryReserveError

type_synonym range_index = "segment list"

definition seg_bounds :: "segment \<Rightarrow> range" where
  "seg_bounds s = (seg_start s, seg_end s)"

lemma seg_bounds_simps [simp]:
  "fst (seg_bounds s) = seg_start s" "snd (seg_bounds s) = seg_end s"
  by (simp_all add: seg_bounds_def)

definition range_query :: "range_index \<Rightarrow> range \<Rightarrow> segment list" where
  "range_query segments r = intersecting segments r seg_bounds"

text \<open>
  The stores of \<open>insert\<close> after its reservation: grow, move the tail, shrink, then write the
  trimmed head, the new segment and the trimmed tail.
\<close>

definition store_segments ::
    "range_index \<Rightarrow> nat \<Rightarrow> nat \<Rightarrow> segment option \<Rightarrow> segment \<Rightarrow> segment option \<Rightarrow> range_index"
where
  "store_segments segments first last_hit prefix segment suffix =
     (let added = 1 + (if prefix \<noteq> None then 1 else 0) + (if suffix \<noteq> None then 1 else 0);
          removed = last_hit - first;
          old_len = length segments;
          new_len = old_len - removed + added;
          resized = (if new_len > old_len
                     then segments @ replicate (new_len - old_len) segment else segments);
          moved = copy_within resized last_hit old_len (first + added);
          truncated = take new_len moved;
          with_prefix = (case prefix of Some p \<Rightarrow> truncated[first := p] | None \<Rightarrow> truncated);
          at = (if prefix \<noteq> None then first + 1 else first);
          with_segment = with_prefix[at := segment]
      in case suffix of Some q \<Rightarrow> with_segment[at + 1 := q] | None \<Rightarrow> with_segment)"

text \<open>
  \<open>alloc n\<close> is the allocator's answer to \<open>try_reserve(n)\<close>. The result is paired with the index
  the call leaves behind.
\<close>

definition range_insert ::
    "(nat \<Rightarrow> bool) \<Rightarrow> range_index \<Rightarrow> range \<Rightarrow> usize \<Rightarrow> (try_reserve_error + unit) \<times> range_index"
where
  "range_insert alloc segments r write =
     (if range_is_empty r then (Inr (), segments)
      else
        let first = partition_point (\<lambda>s. seg_end s \<le> fst r) segments;
            last_hit = first + partition_point (\<lambda>s. seg_start s < snd r) (drop first segments);
            prefix =
              (case get segments first of
                 Some s \<Rightarrow> if seg_start s < fst r then Some (s\<lparr>seg_end := fst r\<rparr>) else None
               | None \<Rightarrow> None);
            suffix =
              (if 0 < last_hit \<and> last_hit > first
               then case get segments (last_hit - 1) of
                      Some s \<Rightarrow> if seg_end s > snd r then Some (s\<lparr>seg_start := snd r\<rparr>) else None
                    | None \<Rightarrow> None
               else None);
            added = 1 + (if prefix \<noteq> None then 1 else 0) + (if suffix \<noteq> None then 1 else 0);
            removed = last_hit - first
        in if \<not> alloc (added - removed) then (Inl TryReserveError, segments)
           else (Inr (), store_segments segments first last_hit prefix
                  \<lparr>seg_start = fst r, seg_end = snd r, seg_write = write\<rparr> suffix))"

section \<open>The stores compute a splice\<close>

definition opt_list :: "'a option \<Rightarrow> 'a list" where
  "opt_list m = (case m of None \<Rightarrow> [] | Some x \<Rightarrow> [x])"

lemma opt_list_simps [simp]:
  "opt_list None = []" "opt_list (Some x) = [x]" "length (opt_list m) = (if m \<noteq> None then 1 else 0)"
  by (simp_all add: opt_list_def split: option.splits)

lemma set_opt_list [simp]: "x \<in> set (opt_list m) \<longleftrightarrow> m = Some x"
  by (cases m) auto

lemma length_one: "length w = Suc 0 \<longleftrightarrow> (\<exists>x. w = [x])"
  by (auto simp: length_Suc_conv)

lemma length_two: "length w = Suc (Suc 0) \<longleftrightarrow> (\<exists>x y. w = [x, y])"
  by (auto simp: length_Suc_conv)

lemma length_three: "length w = Suc (Suc (Suc 0)) \<longleftrightarrow> (\<exists>x y z. w = [x, y, z])"
  by (auto simp: length_Suc_conv)

lemma move_tail:
  assumes len: "length a + k + length c \<le> length res"
    and tail: "take (length c) (drop (length a + length b) res) = c"
    and head: "take (length a) res = a"
  obtains w where "length w = k"
    and "take (length a + k + length c)
           (copy_within res (length a + length b) (length a + length b + length c) (length a + k))
         = a @ w @ c"
proof
  let ?w = "take k (drop (length a) res)"
  show "length ?w = k"
    using len by simp
  have "take (length a + k) res = a @ ?w"
    using head by (simp add: take_add)
  then have "copy_within res (length a + length b) (length a + length b + length c) (length a + k)
      = (a @ ?w @ c) @ drop (length a + k + length c) res"
    using tail by (simp add: copy_within_def)
  moreover have "length (a @ ?w @ c) = length a + k + length c"
    using len by simp
  ultimately show "take (length a + k + length c)
      (copy_within res (length a + length b) (length a + length b + length c) (length a + k))
      = a @ ?w @ c"
    by (metis append_eq_conv_conj)
qed

lemma store_segments_eq:
  "store_segments (a @ b @ c) (length a) (length a + length b) p seg q =
     a @ opt_list p @ [seg] @ opt_list q @ c"
proof -
  define k where "k = 1 + (if p \<noteq> None then 1 else 0) + (if q \<noteq> None then 1 else (0::nat))"
  define old where "old = length (a @ b @ c)"
  define n where "n = old - length b + k"
  define res where
    "res = (if n > old then (a @ b @ c) @ replicate (n - old) seg else a @ b @ c)"
  have n: "n = length a + k + length c"
    by (simp add: n_def old_def)
  have "length a + k + length c \<le> length res"
    using n by (auto simp: res_def old_def)
  moreover have "take (length c) (drop (length a + length b) res) = c"
    and "take (length a) res = a"
    by (auto simp: res_def)
  ultimately obtain w where w: "length w = k"
    and moved: "take n (copy_within res (length a + length b) old (length a + k)) = a @ w @ c"
    unfolding n by (rule move_tail [of a k c res b]) (simp_all add: old_def add.assoc)
  have "store_segments (a @ b @ c) (length a) (length a + length b) p seg q =
    (let v = a @ w @ c;
         v1 = (case p of Some x \<Rightarrow> v[length a := x] | None \<Rightarrow> v);
         at = (if p \<noteq> None then length a + 1 else length a);
         v2 = v1[at := seg]
     in case q of Some x \<Rightarrow> v2[at + 1 := x] | None \<Rightarrow> v2)"
    unfolding store_segments_def
    by (simp only: Let_def add_diff_cancel_left' flip: k_def old_def n_def res_def moved)
  also have "\<dots> = a @ opt_list p @ [seg] @ opt_list q @ c"
    using w unfolding k_def
    by (cases p; cases q)
      (auto simp: length_one length_two length_three list_update_append numeral_2_eq_2 Let_def)
  finally show ?thesis .
qed


definition below :: "range_index \<Rightarrow> range \<Rightarrow> segment list" where
  "below segments r = takeWhile (\<lambda>s. seg_end s \<le> fst r) segments"

definition hit :: "range_index \<Rightarrow> range \<Rightarrow> segment list" where
  "hit segments r =
     takeWhile (\<lambda>s. seg_start s < snd r) (dropWhile (\<lambda>s. seg_end s \<le> fst r) segments)"

definition beyond :: "range_index \<Rightarrow> range \<Rightarrow> segment list" where
  "beyond segments r =
     dropWhile (\<lambda>s. seg_start s < snd r) (dropWhile (\<lambda>s. seg_end s \<le> fst r) segments)"

definition cut_prefix :: "segment list \<Rightarrow> nat \<Rightarrow> segment option" where
  "cut_prefix h s = (if h = [] then None
     else if seg_start (hd h) < s then Some ((hd h)\<lparr>seg_end := s\<rparr>) else None)"

definition cut_suffix :: "segment list \<Rightarrow> nat \<Rightarrow> segment option" where
  "cut_suffix h e = (if h = [] then None
     else if seg_end (last h) > e then Some ((last h)\<lparr>seg_start := e\<rparr>) else None)"

lemma below_hit_beyond: "below segments r @ hit segments r @ beyond segments r = segments"
  by (simp add: below_def hit_def beyond_def)

lemma beyond_starts_after: "beyond segments r = x # xs \<Longrightarrow> \<not> seg_start x < snd r"
  unfolding beyond_def by (metis dropWhile_eq_Cons_conv)

text \<open>
  The whole update in one equation: the segments that meet the range are replaced by the trimmed
  head, the new segment and the trimmed tail.
\<close>

definition insert_result :: "range_index \<Rightarrow> range \<Rightarrow> usize \<Rightarrow> range_index" where
  "insert_result segments r write =
     below segments r @ opt_list (cut_prefix (hit segments r) (fst r)) @
     [\<lparr>seg_start = fst r, seg_end = snd r, seg_write = write\<rparr>] @
     opt_list (cut_suffix (hit segments r) (snd r)) @ beyond segments r"

definition insert_growth :: "range_index \<Rightarrow> range \<Rightarrow> nat" where
  "insert_growth segments r =
     1 + length (opt_list (cut_prefix (hit segments r) (fst r))) +
     length (opt_list (cut_suffix (hit segments r) (snd r))) - length (hit segments r)"

lemma get_last_of_middle:
  assumes "h \<noteq> []"
  shows "get (a @ h @ c) (length a + length h - 1) = Some (last h)"
proof -
  obtain h' x where "h = h' @ [x]"
    using assms by (metis rev_exhaust)
  then show ?thesis by (simp add: get_def nth_append)
qed

lemma range_insert_eq:
  assumes r: "fst r < snd r"
  shows "range_insert alloc segments r write =
    (if alloc (insert_growth segments r) then (Inr (), insert_result segments r write)
     else (Inl TryReserveError, segments))"
proof -
  let ?A = "below segments r" and ?h = "hit segments r" and ?C = "beyond segments r"
  have seg: "segments = ?A @ ?h @ ?C"
    by (simp add: below_hit_beyond)
  have rest: "drop (length ?A) segments = ?h @ ?C"
    by (subst seg) simp
  have first: "partition_point (\<lambda>s. seg_end s \<le> fst r) segments = length ?A"
    by (simp add: below_def partition_point_def)
  have "takeWhile (\<lambda>s. seg_start s < snd r) (?h @ ?C) = ?h"
    by (simp add: hit_def beyond_def)
  then have found: "partition_point (\<lambda>s. seg_start s < snd r) (drop (length ?A) segments) = length ?h"
    by (simp add: rest partition_point_def)
  have prefix: "(case get segments (length ?A) of
        Some s \<Rightarrow> if seg_start s < fst r then Some (s\<lparr>seg_end := fst r\<rparr>) else None
      | None \<Rightarrow> None) = cut_prefix ?h (fst r)"
  proof (cases ?h)
    case Nil
    show ?thesis
    proof (cases ?C)
      case Nil
      with \<open>?h = []\<close> have "segments = ?A" using seg by simp
      then have "get segments (length ?A) = None" by (metis get_None order_refl)
      with \<open>?h = []\<close> show ?thesis by (simp add: cut_prefix_def)
    next
      case (Cons c cs)
      then have "get segments (length ?A) = Some c"
        using \<open>?h = []\<close> seg by (metis append_Nil get_Some length_append length_Cons
          less_add_same_cancel1 nth_append_length zero_less_Suc)
      with Cons beyond_starts_after [OF Cons] r \<open>?h = []\<close> show ?thesis
        by (simp add: cut_prefix_def)
    qed
  next
    case (Cons x xs)
    then have "get segments (length ?A) = Some x"
      using seg by (metis append_Cons get_Some length_append length_Cons
          less_add_same_cancel1 nth_append_length zero_less_Suc)
    with Cons show ?thesis by (simp add: cut_prefix_def)
  qed
  have suffix: "(if 0 < length ?A + length ?h \<and> length ?A + length ?h > length ?A
      then case get segments (length ?A + length ?h - 1) of
             Some s \<Rightarrow> if seg_end s > snd r then Some (s\<lparr>seg_start := snd r\<rparr>) else None
           | None \<Rightarrow> None
      else None) = cut_suffix ?h (snd r)"
  proof (cases "?h = []")
    case False
    then have "get segments (length ?A + length ?h - 1) = Some (last ?h)"
      using get_last_of_middle [of ?h ?A ?C] by (simp only: below_hit_beyond not_False_eq_True)
    with False show ?thesis by (simp add: cut_suffix_def)
  qed (simp add: cut_suffix_def)
  have store: "store_segments segments (length ?A) (length ?A + length ?h) p x q =
      ?A @ opt_list p @ [x] @ opt_list q @ ?C" for p x q
    by (subst seg) (rule store_segments_eq)
  show ?thesis
    unfolding range_insert_def Let_def first found prefix suffix store insert_result_def
      insert_growth_def
    using r by (simp add: range_is_empty_def)
qed

lemma range_insert_empty:
  "\<not> fst r < snd r \<Longrightarrow> range_insert alloc segments r write = (Inr (), segments)"
  by (simp add: range_insert_def range_is_empty_def)

section \<open>Disjointness and ownership\<close>

definition ri_inv :: "range_index \<Rightarrow> bool" where
  "ri_inv = sorted_ranges seg_bounds"

text \<open>The abstract value: the write that owns a byte.\<close>

definition owner :: "range_index \<Rightarrow> nat \<Rightarrow> usize option" where
  "owner segments b = map_option seg_write (find (\<lambda>s. in_range b (seg_bounds s)) segments)"

lemma owner_Nil [simp]: "owner [] b = None"
  by (simp add: owner_def)

lemma owner_Cons:
  "owner (s # segments) b =
     (if in_range b (seg_bounds s) then Some (seg_write s) else owner segments b)"
  by (simp add: owner_def)

lemma owner_append:
  "owner (xs @ ys) b = (case owner xs b of Some w \<Rightarrow> Some w | None \<Rightarrow> owner ys b)"
  by (induction xs) (simp_all add: owner_Cons)

lemma owner_None: "owner segments b = None \<longleftrightarrow> (\<forall>s \<in> set segments. \<not> in_range b (seg_bounds s))"
  by (induction segments) (auto simp: owner_Cons)

lemma ri_inv_append:
  "ri_inv (xs @ ys) \<longleftrightarrow>
     ri_inv xs \<and> ri_inv ys \<and> (\<forall>x \<in> set xs. \<forall>y \<in> set ys. seg_end x \<le> seg_start y)"
  by (simp add: ri_inv_def sorted_ranges_append)

lemma ri_inv_Cons:
  "ri_inv (x # xs) \<longleftrightarrow>
     seg_start x < seg_end x \<and> (\<forall>y \<in> set xs. seg_end x \<le> seg_start y) \<and> ri_inv xs"
  by (simp add: ri_inv_def sorted_ranges_Cons)

lemma ri_inv_Nil [simp]: "ri_inv []"
  by (simp add: ri_inv_def)

lemma ri_inv_opt_list:
  "ri_inv (opt_list m) \<longleftrightarrow> (\<forall>x \<in> set (opt_list m). seg_start x < seg_end x)"
  by (cases m) (simp_all add: ri_inv_Cons)

lemma below_bounds: "s \<in> set (below segments r) \<Longrightarrow> seg_end s \<le> fst r"
  unfolding below_def by (drule set_takeWhileD) simp

lemma ri_inv_parts:
  assumes "ri_inv segments"
  shows "ri_inv (below segments r @ hit segments r @ beyond segments r)"
  using assms by (simp only: below_hit_beyond)

lemma beyond_bounds:
  assumes "ri_inv segments" and "s \<in> set (beyond segments r)"
  shows "snd r \<le> seg_start s"
proof -
  have "partitioned (\<lambda>x. seg_start x < snd r) (dropWhile (\<lambda>x. seg_end x \<le> fst r) segments)"
    using partitioned_by_start [OF sorted_ranges_dropWhile [OF assms(1) [unfolded ri_inv_def]]]
    by simp
  with assms(2) show ?thesis
    unfolding partitioned_def beyond_def by (meson not_le)
qed

lemma hit_bounds:
  assumes "ri_inv segments" and "s \<in> set (hit segments r)"
  shows "seg_start s < snd r" and "fst r < seg_end s"
proof -
  show "seg_start s < snd r"
    using assms(2) unfolding hit_def by (drule_tac set_takeWhileD) simp
  have "partitioned (\<lambda>x. seg_end x \<le> fst r) segments"
    using partitioned_by_end [OF assms(1) [unfolded ri_inv_def]] by simp
  moreover have "s \<in> set (dropWhile (\<lambda>x. seg_end x \<le> fst r) segments)"
    using assms(2) unfolding hit_def by (drule_tac set_takeWhileD) simp
  ultimately show "fst r < seg_end s"
    unfolding partitioned_def by (meson not_le)
qed

text \<open>What the trimmed pieces of the segments that were hit look like.\<close>

lemma cut_prefix_Some:
  "cut_prefix h s = Some p \<longleftrightarrow> (\<exists>x xs. h = x # xs \<and> seg_start x < s \<and> p = x\<lparr>seg_end := s\<rparr>)"
  by (cases h) (auto simp: cut_prefix_def)

lemma cut_suffix_Some:
  "cut_suffix h e = Some q \<longleftrightarrow> (\<exists>xs x. h = xs @ [x] \<and> e < seg_end x \<and> q = x\<lparr>seg_start := e\<rparr>)"
  by (cases h rule: rev_cases) (auto simp: cut_suffix_def)

lemma insert_result_inv:
  assumes inv: "ri_inv segments" and r: "fst r < snd r"
  shows "ri_inv (insert_result segments r write)"
proof -
  let ?A = "below segments r" and ?h = "hit segments r" and ?C = "beyond segments r"
  let ?p = "opt_list (cut_prefix ?h (fst r))" and ?q = "opt_list (cut_suffix ?h (snd r))"
  have parts: "ri_inv (?A @ ?h @ ?C)"
    by (rule ri_inv_parts [OF inv])
  have p: "\<forall>x \<in> set ?p. seg_start x < seg_end x \<and> seg_end x = fst r \<and>
      (\<forall>y \<in> set ?A. seg_end y \<le> seg_start x)"
    using parts by (auto simp: cut_prefix_Some ri_inv_append)
  have q: "\<forall>x \<in> set ?q. seg_start x < seg_end x \<and> seg_start x = snd r \<and>
      (\<forall>y \<in> set ?C. seg_end x \<le> seg_start y)"
    using parts by (auto simp: cut_suffix_Some ri_inv_append)
  have "ri_inv ?p" and "ri_inv ?q"
    using p q unfolding ri_inv_opt_list by blast+
  moreover have "\<forall>x \<in> set ?A. \<forall>y \<in> set ?C. seg_end x \<le> seg_start y"
    using below_bounds [of _ segments r] beyond_bounds [OF inv, of _ r] r by fastforce
  moreover have "ri_inv ?A" and "ri_inv ?C"
    using parts by (simp_all add: ri_inv_append)
  ultimately show ?thesis
    using p q r below_bounds [of _ segments r] beyond_bounds [OF inv, of _ r]
    unfolding insert_result_def by (fastforce simp: ri_inv_append ri_inv_Cons)
qed

lemma owner_cut_prefix:
  assumes "ri_inv h" and "\<forall>s \<in> set h. f < seg_end s" and "b < f"
  shows "owner (opt_list (cut_prefix h f)) b = owner h b"
proof (cases h)
  case (Cons x xs)
  with assms have "owner xs b = None"
    by (fastforce simp: owner_None in_range_def ri_inv_Cons)
  with Cons assms show ?thesis
    by (auto simp: cut_prefix_def owner_Cons in_range_def)
qed (simp add: cut_prefix_def)

lemma owner_cut_suffix:
  assumes "ri_inv h" and "\<forall>s \<in> set h. seg_start s < e" and "e \<le> b"
  shows "owner (opt_list (cut_suffix h e)) b = owner h b"
proof (cases h rule: rev_cases)
  case (snoc xs x)
  with assms have "owner xs b = None"
    by (fastforce simp: owner_None in_range_def ri_inv_append)
  with snoc assms show ?thesis
    by (auto simp: cut_suffix_def owner_append owner_Cons in_range_def)
qed (simp add: cut_suffix_def)

lemma owner_cut_prefix_beyond: "f \<le> b \<Longrightarrow> owner (opt_list (cut_prefix h f)) b = None"
  by (auto simp: owner_None cut_prefix_Some in_range_def)

lemma owner_cut_suffix_below: "b < e \<Longrightarrow> owner (opt_list (cut_suffix h e)) b = None"
  by (auto simp: owner_None cut_suffix_Some in_range_def)

lemma owner_insert_result:
  assumes inv: "ri_inv segments" and r: "fst r < snd r"
  shows "owner (insert_result segments r write) b =
    (if in_range b r then Some write else owner segments b)"
proof -
  let ?A = "below segments r" and ?h = "hit segments r" and ?C = "beyond segments r"
  have h: "ri_inv ?h"
    using ri_inv_parts [OF inv, of r] by (simp add: ri_inv_append)
  have split: "owner segments b = owner (?A @ ?h @ ?C) b"
    by (simp only: below_hit_beyond)
  consider (low) "b < fst r" | (mid) "in_range b r" | (high) "snd r \<le> b"
    by (fastforce simp: in_range_def)
  then show ?thesis
  proof cases
    case low
    then have "owner ?C b = None"
      using beyond_bounds [OF inv, of _ r] r by (fastforce simp: owner_None in_range_def)
    with low r show ?thesis
      using owner_cut_prefix [OF h, of "fst r" b] hit_bounds [OF inv, of _ r]
      by (simp add: split insert_result_def owner_append owner_Cons in_range_def
          owner_cut_suffix_below split: option.splits)
  next
    case mid
    then have "owner ?A b = None"
      using below_bounds [of _ segments r] by (fastforce simp: owner_None in_range_def)
    with mid show ?thesis
      by (simp add: insert_result_def owner_append owner_Cons in_range_def owner_cut_prefix_beyond)
  next
    case high
    then have "owner ?A b = None"
      using below_bounds [of _ segments r] r by (fastforce simp: owner_None in_range_def)
    with high r show ?thesis
      using owner_cut_suffix [OF h, of "snd r" b] hit_bounds [OF inv, of _ r]
      by (simp add: split insert_result_def owner_append owner_Cons in_range_def
          owner_cut_prefix_beyond split: option.splits)
  qed
qed

section \<open>Queries\<close>

lemma range_query_eq:
  assumes "ri_inv segments" and "fst r < snd r"
  shows "range_query segments r =
    filter (\<lambda>s. fst r < seg_end s \<and> seg_start s < snd r) segments"
  using intersecting_eq_filter [OF assms(1) [unfolded ri_inv_def] assms(2)]
  by (simp add: range_query_def)

lemma range_query_empty: "\<not> fst r < snd r \<Longrightarrow> range_query segments r = []"
  by (simp add: range_query_def intersecting_def range_is_empty_def)

lemma find_filter: "find p xs = get (filter p xs) 0"
  by (induction xs) (auto simp: get_def)

lemma query_one_byte:
  assumes "ri_inv segments"
  shows "map_option seg_write (get (range_query segments (b, Suc b)) 0) = owner segments b"
proof -
  have "(\<lambda>s. b < seg_end s \<and> seg_start s < Suc b) = (\<lambda>s. in_range b (seg_bounds s))"
    by (auto simp: in_range_def)
  with range_query_eq [OF assms, of "(b, Suc b)"] show ?thesis
    by (simp add: owner_def find_filter)
qed

section \<open>The interface: a store of byte owners\<close>

text \<open>
  What a planner relies on: a successful \<open>put\<close> makes its write the holder of exactly the bytes
  of its range, and a failed one changes nothing. A sequence of writes is replayed in order; each
  write comes with the allocator's answers during its call.
\<close>

type_synonym 'w write_op = "(nat \<Rightarrow> bool) \<times> range \<times> 'w"

fun replay ::
    "((nat \<Rightarrow> bool) \<Rightarrow> 's \<Rightarrow> range \<Rightarrow> 'w \<Rightarrow> ('e + unit) \<times> 's) \<Rightarrow> 's \<Rightarrow> 'w write_op list \<Rightarrow>
     ('e + unit) \<times> 's"
where
  "replay put s [] = (Inr (), s)"
| "replay put s ((alloc, r, w) # ops) =
     (case put alloc s r w of
        (Inl e, s') \<Rightarrow> (Inl e, s')
      | (Inr _, s') \<Rightarrow> replay put s' ops)"

fun last_writer :: "'w write_op list \<Rightarrow> nat \<Rightarrow> 'w option" where
  "last_writer [] b = None"
| "last_writer ((alloc, r, w) # ops) b =
     (case last_writer ops b of
        Some w' \<Rightarrow> Some w'
      | None \<Rightarrow> if in_range b r then Some w else None)"

locale byte_store =
  fixes empty_store :: 's
    and put :: "(nat \<Rightarrow> bool) \<Rightarrow> 's \<Rightarrow> range \<Rightarrow> 'w \<Rightarrow> ('e + unit) \<times> 's"
    and holder :: "'s \<Rightarrow> nat \<Rightarrow> 'w option"
    and valid :: "'s \<Rightarrow> bool"
  assumes valid_empty: "valid empty_store"
    and holder_empty: "holder empty_store b = None"
    and put_valid: "valid s \<Longrightarrow> put alloc s r w = (Inr u, s') \<Longrightarrow> valid s'"
    and put_holder: "valid s \<Longrightarrow> put alloc s r w = (Inr u, s') \<Longrightarrow>
      holder s' b = (if in_range b r then Some w else holder s b)"
    and put_error: "put alloc s r w = (Inl e, s') \<Longrightarrow> s' = s"
begin

lemma replay_valid: "valid s \<Longrightarrow> replay put s ops = (res, s') \<Longrightarrow> valid s'"
proof (induction ops arbitrary: s)
  case (Cons op ops)
  obtain alloc r w where op: "op = (alloc, r, w)" by (cases op)
  obtain res1 s1 where step: "put alloc s r w = (res1, s1)" by (cases "put alloc s r w")
  show ?case
  proof (cases res1)
    case (Inl e)
    with step have "s1 = s" by (simp add: put_error)
    with Inl Cons.prems op step show ?thesis by simp
  next
    case (Inr u)
    with step Cons.prems(1) have "valid s1" by (simp add: put_valid)
    with Inr Cons op step show ?thesis by simp
  qed
qed simp

lemma replay_holder:
  "valid s \<Longrightarrow> replay put s ops = (Inr u, s') \<Longrightarrow>
   holder s' b = (case last_writer ops b of Some w \<Rightarrow> Some w | None \<Rightarrow> holder s b)"
proof (induction ops arbitrary: s)
  case (Cons op ops)
  obtain alloc r w where op: "op = (alloc, r, w)" by (cases op)
  obtain res1 s1 where step: "put alloc s r w = (res1, s1)" by (cases "put alloc s r w")
  with Cons.prems(2) op obtain u1 where res1: "res1 = Inr u1" by (cases res1) auto
  with step Cons.prems(1) have "valid s1" by (simp add: put_valid)
  moreover have "holder s1 b = (if in_range b r then Some w else holder s b)"
    using step res1 Cons.prems(1) by (simp add: put_holder)
  ultimately show ?case
    using Cons.IH [of s1] Cons.prems(2) op step res1 by (simp split: option.splits)
qed simp

lemma replay_from_empty:
  "replay put empty_store ops = (Inr u, s') \<Longrightarrow> holder s' b = last_writer ops b"
  using replay_holder [OF valid_empty, of ops u s' b]
  by (simp add: holder_empty split: option.splits)

end

interpretation ri: byte_store "[]" range_insert owner ri_inv
proof (standard, goal_cases)
  case (3 s alloc r w u s')
  then show ?case
    by (cases "fst r < snd r")
      (auto simp: range_insert_eq range_insert_empty insert_result_inv split: if_splits)
next
  case (4 s alloc r w u s' b)
  then show ?case
    by (cases "fst r < snd r")
      (auto simp: range_insert_eq range_insert_empty owner_insert_result in_range_def
        split: if_splits)
next
  case (5 alloc s r w e s')
  then show ?case
    by (cases "fst r < snd r")
      (auto simp: range_insert_eq range_insert_empty split: if_splits)
qed simp_all

text \<open>At most two slots are ever reserved: an insert splits at most one segment.\<close>

lemma insert_growth_le: "insert_growth segments r \<le> 2"
proof (cases "hit segments r")
  case (Cons x xs)
  then show ?thesis by (auto simp: insert_growth_def)
qed (simp add: insert_growth_def cut_prefix_def cut_suffix_def)

lemma range_insert_succeeds:
  "\<forall>n \<le> 2. alloc n \<Longrightarrow> fst (range_insert alloc segments r w) = Inr ()"
  using insert_growth_le [of segments r]
  by (cases "fst r < snd r") (simp_all add: range_insert_eq range_insert_empty)

lemma replay_succeeds:
  "\<forall>(alloc, _, _) \<in> set ops. \<forall>n \<le> 2. alloc n \<Longrightarrow> fst (replay range_insert s ops) = Inr ()"
proof (induction ops arbitrary: s)
  case (Cons op ops)
  obtain alloc r w where op: "op = (alloc, r, w)" by (cases op)
  then have "fst (range_insert alloc s r w) = Inr ()"
    using Cons.prems by (intro range_insert_succeeds) simp
  then show ?case
    using Cons op by (cases "range_insert alloc s r w") simp
qed simp

section \<open>Properties\<close>

text \<open>
  C1. Last write wins. After any sequence of inserts that the allocator served, the segments are
  sorted, nonempty and disjoint, every byte is owned by the last write that covered it, and a
  one-byte query returns that owner.
\<close>

theorem inserts_last_write_wins:
  assumes "replay range_insert [] ops = (Inr (), segments)"
  shows "ri_inv segments \<and>
    (\<forall>b. owner segments b = last_writer ops b \<and>
         map_option seg_write (get (range_query segments (b, Suc b)) 0) = last_writer ops b)"
  using ri.replay_valid [OF ri.valid_empty assms] ri.replay_from_empty [OF assms]
  by (simp add: query_one_byte)

theorem inserts_last_write_wins_witness:
  "\<exists>segments. replay range_insert []
     [(\<lambda>_. True, (0, 8), 7), (\<lambda>_. True, (2, 4), 9)] = (Inr (), segments) \<and>
   owner segments 3 = Some 9 \<and> owner segments 5 = Some 7"
proof -
  let ?ops = "[(\<lambda>_. True, (0, 8), 7), (\<lambda>_. True, (2, 4), 9)] :: usize write_op list"
  obtain s where "replay range_insert [] ?ops = (Inr (), s)"
    using replay_succeeds [of ?ops "[]"] by (cases "replay range_insert [] ?ops") auto
  from this inserts_last_write_wins [OF this] show ?thesis
    by (auto simp: in_range_def)
qed

text \<open>
  C2. An insert succeeds whenever the allocator can supply two segments, fails without touching
  the index otherwise, and never adds more than two segments.
\<close>

theorem insert_total_and_atomic:
  "((\<forall>n \<le> 2. alloc n) \<longrightarrow> fst (range_insert alloc segments r w) = Inr ()) \<and>
   (fst (range_insert alloc segments r w) = Inl TryReserveError \<longrightarrow>
      snd (range_insert alloc segments r w) = segments) \<and>
   length (snd (range_insert alloc segments r w)) \<le> length segments + 2"
proof (cases "fst r < snd r")
  case True
  have "length (insert_result segments r w) \<le> length segments + 2"
  proof -
    have "length segments = length (below segments r @ hit segments r @ beyond segments r)"
      by (simp only: below_hit_beyond)
    then show ?thesis
      by (cases "hit segments r") (auto simp: insert_result_def cut_prefix_def cut_suffix_def)
  qed
  with True show ?thesis
    using insert_growth_le [of segments r] by (auto simp: range_insert_eq)
qed (simp add: range_insert_empty)

theorem insert_total_and_atomic_witness:
  "fst (range_insert (\<lambda>n. n \<le> 2) [\<lparr>seg_start = 0, seg_end = 8, seg_write = 7\<rparr>] (2, 4) 9) = Inr ()"
  using insert_total_and_atomic
    [of "\<lambda>n. n \<le> 2" "[\<lparr>seg_start = 0, seg_end = 8, seg_write = 7\<rparr>]" "(2, 4)" 9]
  by simp

text \<open>
  A query visits exactly the segments that share a byte with the range, in order: the two
  binary searches find the intersecting subslice.
\<close>

theorem query_exact:
  assumes "ri_inv segments" and "fst r < snd r"
  shows "range_query segments r =
    filter (\<lambda>s. \<exists>b. in_range b r \<and> in_range b (seg_bounds s)) segments"
proof -
  have "(\<exists>b. in_range b r \<and> in_range b (seg_bounds s)) \<longleftrightarrow>
      fst r < seg_end s \<and> seg_start s < snd r" if "s \<in> set segments" for s
  proof -
    have "seg_start s < seg_end s"
      using assms(1) that by (auto simp: ri_inv_def sorted_ranges_def)
    with assms(2) show ?thesis
      by (auto simp: in_range_def intro!: exI [of _ "max (fst r) (seg_start s)"])
  qed
  then show ?thesis
    using range_query_eq [OF assms] by (simp cong: filter_cong)
qed

theorem query_exact_witness:
  "range_query [\<lparr>seg_start = 0, seg_end = 2, seg_write = 7\<rparr>, \<lparr>seg_start = 4, seg_end = 6, seg_write = 8\<rparr>]
     (1, 3) = [\<lparr>seg_start = 0, seg_end = 2, seg_write = 7\<rparr>] \<and>
   (\<exists>b. in_range b (1, 3) \<and> in_range b (0, 2))"
proof -
  let ?s = "[\<lparr>seg_start = 0, seg_end = 2, seg_write = 7\<rparr>, \<lparr>seg_start = 4, seg_end = 6, seg_write = 8\<rparr>]"
  have inv: "ri_inv ?s" by (simp add: ri_inv_Cons)
  have "\<exists>b. in_range b (1, 3) \<and> in_range b (0, 2)"
    by (rule exI [of _ 1]) (simp add: in_range_def)
  moreover have "\<not> (\<exists>b. in_range b (1, 3) \<and> in_range b (4, 6))"
    by (simp add: in_range_def)
  ultimately show ?thesis
    using query_exact [OF inv, of "(1, 3)"] by (simp add: seg_bounds_def)
qed

end
