(* ===== verification/Ir_Types.thy ===== *)
theory Ir_Types
  imports Prelude
begin

text \<open>
  \<^verbatim>\<open>crates/sgfx-core/src/ir/types.rs\<close>: the error type of the IR and its validated geometric
  values. Coordinates are 32-bit words, and the unchecked additions of the code are the wrapping
  \<open>+\<close>: the lemmas show that no rectangle built by the constructor makes one wrap. An \<open>f32\<close> is the
  word of its bits; only what the code asks of a float without rounding is modelled.
\<close>

section \<open>Errors\<close>

datatype error =
    InvalidValue
  | BindingLayoutMismatch
  | BindGroupNotSet
  | ResourceAccessConflict
  | MissingBarrier
  | InvalidResourceAccess
  | InvalidDescriptor
  | InvalidUsage
  | OutOfBounds
  | Overflow
  | ResourceTableMismatch
  | RenderPassNotActive
  | RenderPassActive
  | PipelineNotSet
  | VertexBufferNotSet
  | IndexBufferNotSet
  | UniformsNotSet
  | TextureBindingNotSet
  | PipelineTargetMismatch
  | AttachmentFeedback
  | ResourceLimitExceeded
  | CommandLimitExceeded
  | OutOfMemory
  | RenderPassStillActive

type_synonym 'a ir_result = "error + 'a"

section \<open>Floats by their bits\<close>

type_synonym f32 = u32

definition f32_is_finite :: "f32 \<Rightarrow> bool" where
  "f32_is_finite x \<longleftrightarrow> x AND 0x7f800000 \<noteq> 0x7f800000"

definition f32_is_nan :: "f32 \<Rightarrow> bool" where
  "f32_is_nan x \<longleftrightarrow> x AND 0x7f800000 = 0x7f800000 \<and> x AND 0x007fffff \<noteq> 0"

text \<open>Sign and magnitude order the non-NaN floats, and identify the two zeros.\<close>

definition f32_key :: "f32 \<Rightarrow> int" where
  "f32_key x = (if bit x 31 then - uint (x AND 0x7fffffff) else uint (x AND 0x7fffffff))"

definition f32_less :: "f32 \<Rightarrow> f32 \<Rightarrow> bool" where
  "f32_less x y \<longleftrightarrow> \<not> f32_is_nan x \<and> \<not> f32_is_nan y \<and> f32_key x < f32_key y"

definition f32_le :: "f32 \<Rightarrow> f32 \<Rightarrow> bool" where
  "f32_le x y \<longleftrightarrow> \<not> f32_is_nan x \<and> \<not> f32_is_nan y \<and> f32_key x \<le> f32_key y"

definition f32_zero :: f32 where "f32_zero = 0"

definition f32_one :: f32 where "f32_one = 0x3f800000"

definition f32_eq_zero :: "f32 \<Rightarrow> bool" where
  "f32_eq_zero x \<longleftrightarrow> \<not> f32_is_nan x \<and> f32_key x = 0"

text \<open>\<open>(0.0..=1.0).contains(&x)\<close>\<close>

definition f32_in_unit :: "f32 \<Rightarrow> bool" where
  "f32_in_unit x \<longleftrightarrow> f32_le f32_zero x \<and> f32_le x f32_one"

lemma f32_in_unit_examples:
  "f32_in_unit f32_zero" "f32_in_unit f32_one" "f32_in_unit 0x80000000"
  "\<not> f32_in_unit 0x3f800001" "\<not> f32_in_unit 0x7fc00000" "\<not> f32_in_unit 0xbf800000"
  by (simp_all add: f32_in_unit_def f32_le_def f32_is_nan_def f32_key_def f32_zero_def f32_one_def)

section \<open>Colors and transforms\<close>

record color =
  red :: f32
  green :: f32
  blue :: f32
  alpha :: f32

definition color_rgba :: "f32 \<Rightarrow> f32 \<Rightarrow> f32 \<Rightarrow> f32 \<Rightarrow> color ir_result" where
  "color_rgba r g b a =
     (if list_all f32_is_finite [r, g, b, a]
      then Inr \<lparr>red = r, green = g, blue = b, alpha = a\<rparr> else Inl InvalidValue)"

definition color_components :: "color \<Rightarrow> f32 list" where
  "color_components c = [red c, green c, blue c, alpha c]"

record transform =
  columns :: "f32 list"

definition transform_from_columns :: "f32 list \<Rightarrow> transform ir_result" where
  "transform_from_columns cs =
     (if list_all f32_is_finite cs then Inr \<lparr>columns = cs\<rparr> else Inl InvalidValue)"

definition transform_identity :: transform where
  "transform_identity = \<lparr>columns =
     [f32_one, 0, 0, 0, 0, f32_one, 0, 0, 0, 0, f32_one, 0, 0, 0, 0, f32_one]\<rparr>"

definition color_ok :: "color \<Rightarrow> bool" where
  "color_ok c \<longleftrightarrow> list_all f32_is_finite (color_components c)"

definition transform_ok :: "transform \<Rightarrow> bool" where
  "transform_ok t \<longleftrightarrow> list_all f32_is_finite (columns t)"

lemma color_rgba_ok: "color_rgba r g b a = Inr c \<Longrightarrow> color_ok c"
  by (auto simp: color_rgba_def color_ok_def color_components_def split: if_splits)

lemma transform_from_columns_ok: "transform_from_columns cs = Inr t \<Longrightarrow> transform_ok t"
  by (auto simp: transform_from_columns_def transform_ok_def split: if_splits)

lemma transform_identity_ok: "transform_ok transform_identity"
  by (simp add: transform_ok_def transform_identity_def f32_is_finite_def f32_one_def)

section \<open>Extents and rectangles\<close>

record extent2d =
  ext_width :: u32
  ext_height :: u32

definition extent2d_new :: "u32 \<Rightarrow> u32 \<Rightarrow> extent2d ir_result" where
  "extent2d_new width height =
     (if width = 0 \<or> height = 0 then Inl InvalidValue
      else Inr \<lparr>ext_width = width, ext_height = height\<rparr>)"

definition extent_ok :: "extent2d \<Rightarrow> bool" where
  "extent_ok e \<longleftrightarrow> ext_width e \<noteq> 0 \<and> ext_height e \<noteq> 0"

record pixel_rect =
  rect_x :: u32
  rect_y :: u32
  rect_width :: u32
  rect_height :: u32

definition pixel_rect_new :: "u32 \<Rightarrow> u32 \<Rightarrow> u32 \<Rightarrow> u32 \<Rightarrow> pixel_rect ir_result" where
  "pixel_rect_new x y width height =
     (if width = 0 \<or> height = 0 \<or> checked_add x width = None \<or> checked_add y height = None
      then Inl InvalidValue
      else Inr \<lparr>rect_x = x, rect_y = y, rect_width = width, rect_height = height\<rparr>)"

definition rect_is_within :: "pixel_rect \<Rightarrow> extent2d \<Rightarrow> bool" where
  "rect_is_within r e \<longleftrightarrow>
     rect_x r + rect_width r \<le> ext_width e \<and> rect_y r + rect_height r \<le> ext_height e"

definition rect_same_extent :: "pixel_rect \<Rightarrow> pixel_rect \<Rightarrow> bool" where
  "rect_same_extent r s \<longleftrightarrow> rect_width r = rect_width s \<and> rect_height r = rect_height s"

text \<open>The rectangle's pixels, and the invariant its constructor establishes.\<close>

definition pixels :: "pixel_rect \<Rightarrow> (nat \<times> nat) set" where
  "pixels r = {unat (rect_x r) ..< unat (rect_x r) + unat (rect_width r)} \<times>
              {unat (rect_y r) ..< unat (rect_y r) + unat (rect_height r)}"

definition extent_pixels :: "extent2d \<Rightarrow> (nat \<times> nat) set" where
  "extent_pixels e = {0 ..< unat (ext_width e)} \<times> {0 ..< unat (ext_height e)}"

definition rect_ok :: "pixel_rect \<Rightarrow> bool" where
  "rect_ok r \<longleftrightarrow> rect_width r \<noteq> 0 \<and> rect_height r \<noteq> 0 \<and>
     unat (rect_x r) + unat (rect_width r) < 2 ^ 32 \<and>
     unat (rect_y r) + unat (rect_height r) < 2 ^ 32"

lemma extent2d_new_iff:
  "extent2d_new w h = Inr e \<longleftrightarrow> w \<noteq> 0 \<and> h \<noteq> 0 \<and> e = \<lparr>ext_width = w, ext_height = h\<rparr>"
  by (auto simp: extent2d_new_def)

lemma extent2d_new_ok: "extent2d_new w h = Inr e \<Longrightarrow> extent_ok e"
  by (auto simp: extent2d_new_iff extent_ok_def)

lemma pixel_rect_new_ok: "pixel_rect_new x y w h = Inr r \<Longrightarrow> rect_ok r"
  by (auto simp: pixel_rect_new_def rect_ok_def checked_add_def split: if_splits)

lemma pixel_rect_new_complete:
  "rect_ok r \<Longrightarrow> pixel_rect_new (rect_x r) (rect_y r) (rect_width r) (rect_height r) = Inr r"
  by (simp add: pixel_rect_new_def rect_ok_def checked_add_def)

lemma rect_ok_no_wrap:
  assumes "rect_ok r"
  shows "unat (rect_x r + rect_width r) = unat (rect_x r) + unat (rect_width r)"
    and "unat (rect_y r + rect_height r) = unat (rect_y r) + unat (rect_height r)"
  using assms by (simp_all add: rect_ok_def unat_word_ariths)

lemma rect_ok_pos: "rect_ok r \<Longrightarrow> 0 < unat (rect_width r) \<and> 0 < unat (rect_height r)"
  by (simp add: rect_ok_def unat_gt_0)

lemma rect_is_within_pixels:
  assumes "rect_ok r"
  shows "rect_is_within r e \<longleftrightarrow> pixels r \<subseteq> extent_pixels e"
proof -
  have "rect_is_within r e \<longleftrightarrow>
      unat (rect_x r) + unat (rect_width r) \<le> unat (ext_width e) \<and>
      unat (rect_y r) + unat (rect_height r) \<le> unat (ext_height e)"
    using rect_ok_no_wrap [OF assms] by (simp add: rect_is_within_def word_le_nat_alt)
  also have "\<dots> \<longleftrightarrow> pixels r \<subseteq> extent_pixels e"
    using rect_ok_pos [OF assms]
    by (auto simp: pixels_def extent_pixels_def times_subset_iff)
  finally show ?thesis .
qed

end
