(* ===== verification/Buffer_Source.thy ===== *)
theory Buffer_Source
  imports Range_Index Ir_Types
begin

text \<open>
  \<^verbatim>\<open>crates/sgfx-core/src/backend/support/buffers.rs\<close>, the first half: reading a byte range of a
  buffer whose accepted shadow is overlaid by normalized pending writes. The specification
  \<open>source_byte\<close> says which byte a position holds; \<open>copy_range_eq\<close> shows that the overlays found by
  the two binary searches, copied one after another, produce exactly these bytes.
\<close>

record buffer_overlay =
  ov_range :: range
  ov_bytes :: "u8 list"

datatype buffer_source =
    Contiguous "u8 list"
  | Sparse "u8 list option" "buffer_overlay list" usize

fun source_len :: "buffer_source \<Rightarrow> usize" where
  "source_len (Contiguous bytes) = length bytes"
| "source_len (Sparse base overlays len) = len"

definition source_is_empty :: "buffer_source \<Rightarrow> bool" where
  "source_is_empty source \<longleftrightarrow> source_len source = 0"

definition copy_intersection :: "u8 list \<Rightarrow> usize \<Rightarrow> range \<Rightarrow> u8 list \<Rightarrow> u8 list" where
  "copy_intersection source source_start requested destination =
     (let first = max (fst requested) source_start;
          stop = min (snd requested) (usize_saturating_add source_start (length source))
      in if first \<ge> stop then destination
         else
           let destination_start = first - fst requested;
               source_offset = first - source_start;
               count = stop - first
           in overwrite_at destination destination_start
                (sub_slice source source_offset (source_offset + count)))"

definition copy_overlays :: "buffer_overlay list \<Rightarrow> range \<Rightarrow> u8 list \<Rightarrow> u8 list" where
  "copy_overlays overlays r destination =
     foldl (\<lambda>d ov. copy_intersection (ov_bytes ov) (fst (ov_range ov)) r d) destination overlays"

text \<open>The result is paired with the contents the call leaves in \<open>destination\<close>.\<close>

definition copy_range :: "buffer_source \<Rightarrow> range \<Rightarrow> u8 list \<Rightarrow> unit ir_result \<times> u8 list" where
  "copy_range source r destination =
     (if fst r > snd r \<or> snd r - fst r \<noteq> length destination \<or> snd r > source_len source
      then (Inl OutOfBounds, destination)
      else
        let zeroed = replicate (length destination) 0
        in case source of
             Contiguous bytes \<Rightarrow>
               if snd r \<le> length bytes then (Inr (), sub_slice bytes (fst r) (snd r))
               else (Inl OutOfBounds, zeroed)
           | Sparse base overlays len \<Rightarrow>
               let from_base = (case base of
                     Some b \<Rightarrow> copy_intersection b 0 r zeroed
                   | None \<Rightarrow> zeroed)
               in (Inr (), copy_overlays (intersecting overlays r ov_range) r from_base))"

definition direct_range :: "buffer_source \<Rightarrow> range \<Rightarrow> u8 list option" where
  "direct_range source r =
     (case source of
        Contiguous bytes \<Rightarrow>
          if fst r \<le> snd r \<and> snd r \<le> length bytes then Some (sub_slice bytes (fst r) (snd r)) else None
      | Sparse _ _ _ \<Rightarrow> None)"

section \<open>Specification\<close>

definition overlay_byte :: "buffer_overlay list \<Rightarrow> nat \<Rightarrow> u8 option" where
  "overlay_byte overlays i =
     map_option (\<lambda>ov. ov_bytes ov ! (i - fst (ov_range ov)))
       (find (\<lambda>ov. in_range i (ov_range ov)) overlays)"

fun source_byte :: "buffer_source \<Rightarrow> nat \<Rightarrow> u8" where
  "source_byte (Contiguous bytes) i = bytes ! i"
| "source_byte (Sparse base overlays len) i =
     (case overlay_byte overlays i of
        Some b \<Rightarrow> b
      | None \<Rightarrow>
          (case base of
             Some bs \<Rightarrow> if i < length bs then bs ! i else 0
           | None \<Rightarrow> 0))"

text \<open>What the callers of a sparse source provide.\<close>

definition overlays_ok :: "buffer_overlay list \<Rightarrow> bool" where
  "overlays_ok overlays \<longleftrightarrow> sorted_ranges ov_range overlays \<and>
     (\<forall>ov \<in> set overlays. length (ov_bytes ov) = snd (ov_range ov) - fst (ov_range ov) \<and>
        snd (ov_range ov) < usize_limit)"

fun source_ok :: "buffer_source \<Rightarrow> bool" where
  "source_ok (Contiguous bytes) \<longleftrightarrow> True"
| "source_ok (Sparse base overlays len) \<longleftrightarrow> overlays_ok overlays \<and>
     (case base of Some bs \<Rightarrow> length bs < usize_limit | None \<Rightarrow> True)"

section \<open>Correctness\<close>

text \<open>The bytes copied, in terms of a first position and an end that both operands contain.\<close>

lemma copy_intersection_cases:
  obtains (none) "copy_intersection src start r d = d"
      "max (fst r) start \<ge> min (snd r) (usize_saturating_add start (length src))"
  | (some) first stop where
      "copy_intersection src start r d =
         overwrite_at d (first - fst r) (sub_slice src (first - start) (first - start + (stop - first)))"
      "first = max (fst r) start" "stop = min (snd r) (usize_saturating_add start (length src))"
      "fst r \<le> first" "start \<le> first" "first < stop" "stop \<le> snd r" "stop \<le> start + length src"
proof (cases "max (fst r) start \<ge> min (snd r) (usize_saturating_add start (length src))")
  case True
  then show ?thesis by (intro none) (simp_all add: copy_intersection_def)
next
  case False
  let ?first = "max (fst r) start" and ?stop = "min (snd r) (usize_saturating_add start (length src))"
  have "copy_intersection src start r d =
      overwrite_at d (?first - fst r) (sub_slice src (?first - start) (?first - start + (?stop - ?first)))"
    using False unfolding copy_intersection_def Let_def by (rule if_not_P)
  moreover have "?stop \<le> start + length src"
    by (rule min.coboundedI2) (simp add: usize_saturating_add_def)
  moreover have "?first < ?stop" and "?stop \<le> snd r" and "fst r \<le> ?first" and "start \<le> ?first"
    using False by (simp_all only: not_le min.cobounded1 max.cobounded1 max.cobounded2)
  ultimately show ?thesis by (intro some [OF _ refl refl])
qed

lemma length_copied_piece:
  "start \<le> first \<Longrightarrow> first < stop \<Longrightarrow> stop \<le> start + length (src :: 'a list) \<Longrightarrow>
   length (sub_slice src (first - start) (first - start + (stop - first))) = stop - (first :: nat)"
  by simp

lemma length_copy_intersection:
  assumes "length d = snd r - fst r"
  shows "length (copy_intersection src start r d) = length d"
proof (cases rule: copy_intersection_cases [of src start r d])
  case (some first stop)
  have "first - fst r + (stop - first) \<le> length d"
    using some assms by linarith
  then show ?thesis
    unfolding some(1)
    by (intro length_overwrite_at) (simp only: length_copied_piece [OF some(5,6,8)])
qed simp

lemma nth_copy_intersection:
  assumes d: "length d = snd r - fst r" and i: "i < length d"
    and fits: "start + length src < usize_limit"
  shows "copy_intersection src start r d ! i =
    (if in_range (fst r + i) (start, start + length src) then src ! (fst r + i - start) else d ! i)"
proof -
  have sat: "usize_saturating_add start (length src) = start + length src"
    using fits by (simp add: usize_saturating_add_def)
  show ?thesis
  proof (cases rule: copy_intersection_cases [of src start r d])
    case none
    have "\<not> in_range (fst r + i) (start, start + length src)"
      using none(2) i d unfolding sat in_range_def
      by (simp add: min_def max_def split: if_splits; linarith)
    with none show ?thesis by simp
  next
    case (some first stop)
    let ?piece = "sub_slice src (first - start) (first - start + (stop - first))"
    note len = length_copied_piece [OF some(5,6,8)]
    have bound: "first - fst r + length ?piece \<le> length d"
      unfolding len using some d by linarith
    have iff: "in_range (fst r + i) (start, start + length src) \<longleftrightarrow>
        first - fst r \<le> i \<and> i < first - fst r + (stop - first)"
      using some(2,3,6) i d unfolding sat in_range_def
      by (simp add: min_def max_def split: if_splits; linarith)
    have "?piece ! (i - (first - fst r)) = src ! (fst r + i - start)"
      if at: "first - fst r \<le> i \<and> i < first - fst r + (stop - first)"
    proof -
      have "i - (first - fst r) < stop - first"
        and "first - start + (i - (first - fst r)) = fst r + i - start"
        and "fst r + i - start < length src"
        using at some by linarith+
      then show ?thesis
        by (subst nth_sub_slice) simp_all
    qed
    then show ?thesis
      unfolding some(1) iff nth_overwrite_at [OF bound i] len by simp
  qed
qed

lemma overlays_ok_Cons:
  "overlays_ok (ov # ovs) \<longleftrightarrow>
     fst (ov_range ov) < snd (ov_range ov) \<and>
     length (ov_bytes ov) = snd (ov_range ov) - fst (ov_range ov) \<and>
     snd (ov_range ov) < usize_limit \<and>
     (\<forall>o' \<in> set ovs. snd (ov_range ov) \<le> fst (ov_range o')) \<and> overlays_ok ovs"
  by (auto simp: overlays_ok_def sorted_ranges_Cons)

lemma overlay_byte_Cons:
  "overlay_byte (ov # ovs) i =
     (if in_range i (ov_range ov) then Some (ov_bytes ov ! (i - fst (ov_range ov)))
      else overlay_byte ovs i)"
  by (simp add: overlay_byte_def)

lemma overlay_byte_None:
  "overlay_byte ovs i = None \<longleftrightarrow> (\<forall>ov \<in> set ovs. \<not> in_range i (ov_range ov))"
  by (induction ovs) (auto simp: overlay_byte_Cons overlay_byte_def)

lemma copy_overlays_nth:
  assumes "overlays_ok ovs" and "length d = snd r - fst r" and "i < length d"
  shows "length (copy_overlays ovs r d) = length d \<and>
    copy_overlays ovs r d ! i =
      (case overlay_byte ovs (fst r + i) of Some b \<Rightarrow> b | None \<Rightarrow> d ! i)"
  using assms
proof (induction ovs arbitrary: d)
  case Nil
  then show ?case by (simp add: copy_overlays_def overlay_byte_def)
next
  case (Cons ov ovs)
  let ?d = "copy_intersection (ov_bytes ov) (fst (ov_range ov)) r d"
  have ov: "fst (ov_range ov) < snd (ov_range ov)"
      "length (ov_bytes ov) = snd (ov_range ov) - fst (ov_range ov)"
      "snd (ov_range ov) < usize_limit"
    and later: "\<forall>o' \<in> set ovs. snd (ov_range ov) \<le> fst (ov_range o')"
    and ovs: "overlays_ok ovs"
    using Cons.prems(1) by (simp_all add: overlays_ok_Cons)
  have len: "length ?d = length d"
    by (rule length_copy_intersection [OF Cons.prems(2)])
  have here: "?d ! i = (if in_range (fst r + i) (ov_range ov)
      then ov_bytes ov ! (fst r + i - fst (ov_range ov)) else d ! i)"
    using nth_copy_intersection [OF Cons.prems(2,3), of "fst (ov_range ov)" "ov_bytes ov"] ov
    by (simp add: in_range_def)
  have "in_range (fst r + i) (ov_range ov) \<Longrightarrow> overlay_byte ovs (fst r + i) = None"
    using later by (fastforce simp: overlay_byte_None in_range_def)
  moreover have "copy_overlays (ov # ovs) r d = copy_overlays ovs r ?d"
    by (simp add: copy_overlays_def)
  ultimately show ?case
    using Cons.IH [OF ovs, of ?d] Cons.prems(2,3) len here
    by (auto simp: overlay_byte_Cons split: option.splits)
qed

lemma overlays_ok_filter: "overlays_ok ovs \<Longrightarrow> overlays_ok (filter p ovs)"
  by (induction ovs) (auto simp: overlays_ok_Cons)

lemma overlay_byte_filter:
  "(\<And>ov. in_range i (ov_range ov) \<Longrightarrow> p ov) \<Longrightarrow>
   overlay_byte (filter p ovs) i = overlay_byte ovs i"
  by (induction ovs) (auto simp: overlay_byte_Cons overlay_byte_def)

lemma copy_overlays_empty_range:
  "fst r = snd r \<Longrightarrow> d = [] \<Longrightarrow> copy_overlays ovs r d = []"
proof (induction ovs)
  case (Cons ov ovs)
  have "length (copy_intersection (ov_bytes ov) (fst (ov_range ov)) r []) = 0"
    using Cons.prems by (subst length_copy_intersection) simp_all
  then have "copy_intersection (ov_bytes ov) (fst (ov_range ov)) r [] = []"
    by simp
  with Cons show ?case by (simp add: copy_overlays_def)
qed (simp add: copy_overlays_def)

lemma copy_range_eq:
  assumes ok: "source_ok source" and r: "fst r \<le> snd r" "snd r \<le> source_len source"
    and d: "length d = snd r - fst r"
  shows "copy_range source r d = (Inr (), map (source_byte source) [fst r ..< snd r])"
proof (cases source)
  case (Contiguous bytes)
  have "sub_slice bytes (fst r) (snd r) = map ((!) bytes) [fst r ..< snd r]"
    using r Contiguous by (intro nth_equalityI) (auto simp: nth_sub_slice)
  with Contiguous r d show ?thesis by (simp add: copy_range_def)
next
  case (Sparse base overlays len)
  define z where "z = replicate (length d) (0 :: u8)"
  define f where "f = (case base of Some b \<Rightarrow> copy_intersection b 0 r z | None \<Rightarrow> z)"
  let ?hit = "intersecting overlays r ov_range"
  have ovs: "overlays_ok overlays"
    and base: "\<And>b. base = Some b \<Longrightarrow> length b < usize_limit"
    using ok Sparse by auto
  have eq: "copy_range source r d = (Inr (), copy_overlays ?hit r f)"
    using r d Sparse unfolding copy_range_def f_def z_def Let_def by simp
  have z: "length z = snd r - fst r" using d by (simp add: z_def)
  have f: "length f = snd r - fst r"
    using length_copy_intersection [OF z] z by (simp add: f_def split: option.splits)
  have "copy_overlays ?hit r f = map (source_byte source) [fst r ..< snd r]"
  proof (cases "fst r < snd r")
    case True
    have hit: "?hit = filter (\<lambda>ov. fst r < snd (ov_range ov) \<and> fst (ov_range ov) < snd r) overlays"
      by (rule intersecting_eq_filter [OF _ True]) (use ovs in \<open>simp add: overlays_ok_def\<close>)
    have "overlays_ok ?hit"
      unfolding hit by (rule overlays_ok_filter [OF ovs])
    note copied = copy_overlays_nth [OF this f]
    show ?thesis
    proof (rule nth_equalityI)
      show "length (copy_overlays ?hit r f) = length (map (source_byte source) [fst r ..< snd r])"
        using copied [of 0] f True by simp
      fix i assume "i < length (copy_overlays ?hit r f)"
      then have i: "i < snd r - fst r" using copied [of 0] f True by simp
      have "overlay_byte ?hit (fst r + i) = overlay_byte overlays (fst r + i)"
        unfolding hit using i by (intro overlay_byte_filter) (auto simp: in_range_def)
      moreover have "f ! i = (case base of
          Some b \<Rightarrow> if fst r + i < length b then b ! (fst r + i) else 0 | None \<Rightarrow> 0)"
        using i z base nth_copy_intersection [OF z, of i 0]
        by (auto simp: f_def z_def in_range_def split: option.splits)
      ultimately show "copy_overlays ?hit r f ! i =
          map (source_byte source) [fst r ..< snd r] ! i"
        using copied [of i] f i Sparse by (simp split: option.split)
    qed
  next
    case False
    with r f show ?thesis by (simp add: copy_overlays_empty_range)
  qed
  with eq show ?thesis by simp
qed

lemma copy_range_rejects:
  "\<not> (fst r \<le> snd r \<and> snd r - fst r = length d \<and> snd r \<le> source_len source) \<Longrightarrow>
   copy_range source r d = (Inl OutOfBounds, d)"
  by (auto simp: copy_range_def)

lemma direct_range_agrees:
  assumes "direct_range source r = Some bytes"
  shows "bytes = map (source_byte source) [fst r ..< snd r]"
proof (cases source)
  case (Contiguous bs)
  with assms have "fst r \<le> snd r" "snd r \<le> length bs" "bytes = sub_slice bs (fst r) (snd r)"
    by (auto simp: direct_range_def split: if_splits)
  with Contiguous show ?thesis
    by (intro nth_equalityI) (auto simp: nth_sub_slice)
next
  case (Sparse base overlays len)
  with assms show ?thesis by (simp add: direct_range_def)
qed

section \<open>Properties\<close>

text \<open>
  C3. Copying a range of a source yields exactly the bytes of the range, each from the overlay
  that covers it, else from the base, else zero; a range that is reversed, of another length than
  the destination or past the end is refused and the destination keeps its contents.
\<close>

theorem copy_range_materializes:
  assumes "source_ok source"
  shows "copy_range source r d =
    (if fst r \<le> snd r \<and> snd r - fst r = length d \<and> snd r \<le> source_len source
     then (Inr (), map (source_byte source) [fst r ..< snd r])
     else (Inl OutOfBounds, d))"
proof (cases "fst r \<le> snd r \<and> snd r - fst r = length d \<and> snd r \<le> source_len source")
  case True
  with copy_range_eq [OF assms, of r d] show ?thesis by simp
next
  case False
  have "copy_range source r d = (Inl OutOfBounds, d)"
    by (rule copy_range_rejects) (use False in blast)
  with False show ?thesis by (simp only: if_False)
qed

theorem copy_range_materializes_witness:
  "copy_range (Sparse (Some [1, 2]) [\<lparr>ov_range = (1, 3), ov_bytes = [8, 9]\<rparr>] 5) (0, 4) [5, 5, 5, 5] =
     (Inr (), [1, 8, 9, 0])"
  using copy_range_materializes
    [of "Sparse (Some [1, 2]) [\<lparr>ov_range = (1, 3), ov_bytes = [8, 9]\<rparr>] 5" "(0, 4)" "[5, 5, 5, 5]"]
  by (simp add: overlays_ok_def sorted_ranges_def usize_limit_def overlay_byte_def in_range_def
      upt_rec)

end
