(* ===== verification/Buffer_Delta.thy ===== *)
theory Buffer_Delta
  imports Range_Index Ir_Types
begin

text \<open>
  \<^verbatim>\<open>crates/sgfx-core/src/backend/support/buffers.rs\<close>, the second half: the bounded list of aligned
  dirty intervals that a backend publishes between two revisions of a buffer.

  \<open>N\<close> and \<open>ALIGN\<close> are the code's constant parameters, written \<open>n\<close> and \<open>al\<close>; its assertion that
  \<open>ALIGN\<close> is a power of two is the hypothesis \<open>alignment al\<close>. An empty list is the code's marker
  for a full repair. The abstract view of an update is the set of bytes it declares dirty.
\<close>

section \<open>Alignment\<close>

text \<open>\<open>x & !(ALIGN - 1)\<close> at the width of \<open>usize\<close>.\<close>

definition mask_down :: "nat \<Rightarrow> usize \<Rightarrow> usize" where
  "mask_down al x = unat ((of_nat x :: u64) AND NOT (of_nat (al - 1)))"

definition alignment :: "nat \<Rightarrow> bool" where
  "alignment al \<longleftrightarrow> (\<exists>k < 64. al = 2 ^ k)"

definition aligned :: "nat \<Rightarrow> range \<Rightarrow> range option" where
  "aligned al r =
     (if fst r < snd r
      then case usize_checked_add (snd r) (al - 1) of
             None \<Rightarrow> None
           | Some e \<Rightarrow> Some (mask_down al (fst r), mask_down al e)
      else None)"

section \<open>Intervals\<close>

type_synonym intervals = "range list"

definition intervals_clone :: "(nat \<Rightarrow> bool) \<Rightarrow> nat \<Rightarrow> intervals \<Rightarrow> intervals" where
  "intervals_clone alloc n rs = (if rs \<noteq> [] \<and> alloc n then rs else [])"

definition intervals_new :: "(nat \<Rightarrow> bool) \<Rightarrow> nat \<Rightarrow> nat \<Rightarrow> range \<Rightarrow> intervals" where
  "intervals_new alloc n al r =
     (if alloc n then case aligned al r of Some q \<Rightarrow> [q] | None \<Rightarrow> [] else [])"

definition intervals_include :: "nat \<Rightarrow> nat \<Rightarrow> intervals \<Rightarrow> range \<Rightarrow> intervals" where
  "intervals_include n al rs r =
     (if rs = [] then []
      else case aligned al r of
        None \<Rightarrow> []
      | Some q \<Rightarrow>
          let first = partition_point (\<lambda>old. snd old < fst q) rs;
              last_hit = first + partition_point (\<lambda>old. fst old \<le> snd q) (drop first rs)
          in if first < last_hit
             then
               let merged = (min (fst q) (fst (rs ! first)), max (snd q) (snd (rs ! (last_hit - 1))))
               in vec_insert (vec_drain rs first last_hit) first merged
             else if length rs = n then []
             else vec_insert rs first q)"

section \<open>Updates\<close>

record buffer_update =
  previous_revision :: u64
  bu_range :: range
  bu_intervals :: "intervals option"

definition update_sparse :: "(nat \<Rightarrow> bool) \<Rightarrow> nat \<Rightarrow> nat \<Rightarrow> u64 \<Rightarrow> range \<Rightarrow> buffer_update" where
  "update_sparse alloc n al previous r =
     \<lparr>previous_revision = previous, bu_range = r, bu_intervals = Some (intervals_new alloc n al r)\<rparr>"

definition envelope :: "range \<Rightarrow> range \<Rightarrow> range" where
  "envelope r q = (min (fst r) (fst q), max (snd r) (snd q))"

definition include_range :: "nat \<Rightarrow> nat \<Rightarrow> buffer_update \<Rightarrow> range \<Rightarrow> buffer_update" where
  "include_range n al u r =
     u\<lparr>bu_range := envelope (bu_range u) r,
       bu_intervals := map_option (\<lambda>rs. intervals_include n al rs r) (bu_intervals u)\<rparr>"

definition merge_previous :: "nat \<Rightarrow> nat \<Rightarrow> buffer_update \<Rightarrow> buffer_update \<Rightarrow> buffer_update" where
  "merge_previous n al u previous =
     (let u1 = u\<lparr>previous_revision := previous_revision previous,
                 bu_range := envelope (bu_range u) (bu_range previous)\<rparr>
      in if bu_intervals previous = Some [] then u1\<lparr>bu_intervals := Some []\<rparr>
         else case bu_intervals u1 of
           Some rs \<Rightarrow>
             (case bu_intervals previous of
                Some earlier \<Rightarrow> u1\<lparr>bu_intervals := Some (foldl (intervals_include n al) rs earlier)\<rparr>
              | None \<Rightarrow> u1\<lparr>bu_intervals := Some (intervals_include n al rs (bu_range previous))\<rparr>)
         | None \<Rightarrow> u1)"

section \<open>Alignment rounds to multiples\<close>

lemma and_not_mask:
  fixes x :: u64
  assumes "k < 64"
  shows "unat (x AND NOT (mask k)) = unat x div 2 ^ k * 2 ^ k"
proof -
  have "x AND NOT (mask k) = push_bit k (drop_bit k x)"
    by (rule bit_word_eqI) (auto simp: bit_simps)
  moreover have "unat (push_bit k (drop_bit k x)) = take_bit 64 (push_bit k (drop_bit k (unat x)))"
    by (simp only: unsigned_push_bit_eq unat_drop_bit_eq) simp
  moreover have "unat x div 2 ^ k * 2 ^ k < 2 ^ 64"
    by (rule le_less_trans [OF div_times_less_eq_dividend]) simp
  ultimately show ?thesis
    by (simp only: push_bit_eq_mult drop_bit_eq_div take_bit_nat_eq_self)
qed

lemma mask_down_eq:
  assumes "alignment al" and "x < usize_limit"
  shows "mask_down al x = x div al * al"
proof -
  obtain k where k: "k < 64" "al = 2 ^ k" using assms(1) by (auto simp: alignment_def)
  have "(of_nat (al - 1) :: u64) = mask k"
    using k by (simp add: mask_eq_exp_minus_1 of_nat_diff)
  with k assms(2) show ?thesis
    by (simp add: mask_down_def and_not_mask unat_of_nat usize_limit_def)
qed

lemma alignment_pos: "alignment al \<Longrightarrow> 0 < al"
  by (auto simp: alignment_def)

lemma aligned_Some:
  assumes al: "alignment al" and q: "aligned al r = Some q"
  shows "al dvd fst q" "al dvd snd q" "fst q \<le> fst r" "snd r \<le> snd q" "fst q < snd q"
    and "fst r < fst q + al" and "snd q < snd r + al"
proof -
  have pos: "0 < al" by (rule alignment_pos [OF al])
  have r: "fst r < snd r" and lim: "snd r + (al - 1) < usize_limit"
    using q by (auto simp: aligned_def usize_checked_add_def split: if_splits option.splits)
  then have "aligned al r = Some (mask_down al (fst r), mask_down al (snd r + (al - 1)))"
    by (simp add: aligned_def usize_checked_add_def)
  then have q_eq: "q = (fst r div al * al, (snd r + (al - 1)) div al * al)"
    using q lim r by (simp add: mask_down_eq [OF al])
  have up: "snd r + (al - 1) = (snd r + (al - 1)) div al * al + (snd r + (al - 1)) mod al"
    by simp
  have "(snd r + (al - 1)) mod al < al" using pos by simp
  with up have ge: "snd r \<le> (snd r + (al - 1)) div al * al" by linarith
  have down: "fst r = fst r div al * al + fst r mod al" by simp
  have "fst r mod al < al" using pos by simp
  with down have lt: "fst r < fst r div al * al + al" by linarith
  show "al dvd fst q" "al dvd snd q" "fst q \<le> fst r" "snd r \<le> snd q"
    using q_eq ge by simp_all
  have "fst r div al * al < (snd r + (al - 1)) div al * al"
    using down r ge by linarith
  then show "fst q < snd q" using q_eq by (simp only: fst_conv snd_conv)
  show "fst r < fst q + al" using q_eq lt by simp
  show "snd q < snd r + al"
    using q_eq up pos by (metis Suc_pred' add_Suc_right le_add1 less_Suc_eq_le snd_conv)
qed

section \<open>The invariant of an interval list\<close>

text \<open>Sorted with gaps, aligned, nonempty members, and never more than the reserved capacity.\<close>

definition gap_sorted :: "intervals \<Rightarrow> bool" where
  "gap_sorted rs \<longleftrightarrow> sorted_wrt (\<lambda>x y. snd x < fst y) rs \<and> (\<forall>q \<in> set rs. fst q < snd q)"

definition iv_inv :: "nat \<Rightarrow> nat \<Rightarrow> intervals \<Rightarrow> bool" where
  "iv_inv n al rs \<longleftrightarrow> gap_sorted rs \<and> (\<forall>q \<in> set rs. al dvd fst q \<and> al dvd snd q) \<and>
     length rs \<le> n"

definition covered :: "intervals \<Rightarrow> nat \<Rightarrow> bool" where
  "covered rs b \<longleftrightarrow> (\<exists>q \<in> set rs. in_range b q)"

lemma covered_simps [simp]:
  "\<not> covered [] b" "covered (q # rs) b \<longleftrightarrow> in_range b q \<or> covered rs b"
  "covered (rs @ rs') b \<longleftrightarrow> covered rs b \<or> covered rs' b"
  by (auto simp: covered_def)

lemma gap_sorted_append:
  "gap_sorted (xs @ ys) \<longleftrightarrow> gap_sorted xs \<and> gap_sorted ys \<and>
     (\<forall>x \<in> set xs. \<forall>y \<in> set ys. snd x < fst y)"
  by (auto simp: gap_sorted_def sorted_wrt_append)

lemma gap_sorted_Cons:
  "gap_sorted (x # xs) \<longleftrightarrow> fst x < snd x \<and> (\<forall>y \<in> set xs. snd x < fst y) \<and> gap_sorted xs"
  by (auto simp: gap_sorted_def)

text \<open>The members below, touching and beyond the new interval.\<close>

definition iv_below :: "range \<Rightarrow> intervals \<Rightarrow> intervals" where
  "iv_below q rs = takeWhile (\<lambda>old. snd old < fst q) rs"

definition iv_touch :: "range \<Rightarrow> intervals \<Rightarrow> intervals" where
  "iv_touch q rs =
     takeWhile (\<lambda>old. fst old \<le> snd q) (dropWhile (\<lambda>old. snd old < fst q) rs)"

definition iv_beyond :: "range \<Rightarrow> intervals \<Rightarrow> intervals" where
  "iv_beyond q rs =
     dropWhile (\<lambda>old. fst old \<le> snd q) (dropWhile (\<lambda>old. snd old < fst q) rs)"

lemma iv_parts: "iv_below q rs @ iv_touch q rs @ iv_beyond q rs = rs"
  by (simp add: iv_below_def iv_touch_def iv_beyond_def)

definition iv_merge :: "range \<Rightarrow> intervals \<Rightarrow> range" where
  "iv_merge q h =
     (if h = [] then q else (min (fst q) (fst (hd h)), max (snd q) (snd (last h))))"

lemma intervals_include_eq:
  assumes "rs \<noteq> []" and "aligned al r = Some q"
  shows "intervals_include n al rs r =
    (if iv_touch q rs = [] \<and> length rs = n then []
     else iv_below q rs @ iv_merge q (iv_touch q rs) # iv_beyond q rs)"
proof -
  let ?A = "iv_below q rs" and ?h = "iv_touch q rs" and ?C = "iv_beyond q rs"
  have rs: "rs = ?A @ ?h @ ?C" by (simp only: iv_parts)
  have first: "partition_point (\<lambda>old. snd old < fst q) rs = length ?A"
    by (simp add: partition_point_def iv_below_def)
  have rest: "drop (length ?A) rs = ?h @ ?C" by (subst rs) simp
  have "takeWhile (\<lambda>old. fst old \<le> snd q) (?h @ ?C) = ?h"
    by (simp add: iv_touch_def iv_beyond_def)
  then have found: "partition_point (\<lambda>old. fst old \<le> snd q) (drop (length ?A) rs) = length ?h"
    by (simp add: rest partition_point_def)
  have drain: "vec_drain rs (length ?A) (length ?A + length ?h) = ?A @ ?C"
    by (subst rs) (simp add: vec_drain_def)
  have ins: "vec_insert (?A @ ?C) (length ?A) x = ?A @ x # ?C" for x
    by (simp add: vec_insert_def)
  have hd: "?h \<noteq> [] \<Longrightarrow> rs ! length ?A = hd ?h"
    by (subst rs) (simp add: nth_append hd_conv_nth)
  have last: "?h \<noteq> [] \<Longrightarrow> rs ! (length ?A + length ?h - 1) = last ?h"
    using get_last_of_middle [of ?h ?A ?C] by (simp add: iv_parts get_Some)
  have none: "?h = [] \<Longrightarrow> rs = ?A @ ?C"
    by (metis iv_parts append_Nil)
  show ?thesis
  proof (cases "?h = []")
    case True
    then have "vec_insert rs (length ?A) q = ?A @ q # ?C"
      using none ins by metis
    with True assms show ?thesis
      by (simp add: intervals_include_def first found Let_def iv_merge_def)
  next
    case False
    then have "intervals_include n al rs r =
      vec_insert (vec_drain rs (length ?A) (length ?A + length ?h)) (length ?A)
        (min (fst q) (fst (hd ?h)), max (snd q) (snd (last ?h)))"
      unfolding intervals_include_def using assms
      by (simp only: first found Let_def hd last option.case if_False length_greater_0_conv
          less_add_same_cancel1 not_False_eq_True if_True)
    then show ?thesis
      unfolding drain ins using False by (simp only: iv_merge_def if_False simp_thms)
  qed
qed

lemma iv_below_bounds: "x \<in> set (iv_below q rs) \<Longrightarrow> snd x < fst q"
  unfolding iv_below_def by (drule set_takeWhileD) simp

lemma iv_touch_bounds:
  assumes "gap_sorted rs" and "x \<in> set (iv_touch q rs)"
  shows "fst x \<le> snd q" and "fst q \<le> snd x"
proof -
  show "fst x \<le> snd q"
    using assms(2) unfolding iv_touch_def by (drule_tac set_takeWhileD) simp
  have "partitioned (\<lambda>old. snd old < fst q) rs"
    using assms(1) by (intro partitioned_if_sorted_wrt [of "\<lambda>x y. snd x < fst y"])
      (auto simp: gap_sorted_def intro: less_trans)
  moreover have "x \<in> set (dropWhile (\<lambda>old. snd old < fst q) rs)"
    using assms(2) unfolding iv_touch_def by (drule_tac set_takeWhileD) simp
  ultimately show "fst q \<le> snd x"
    unfolding partitioned_def by (meson not_le)
qed

lemma gap_sorted_dropWhile: "gap_sorted rs \<Longrightarrow> gap_sorted (dropWhile p rs)"
  by (metis gap_sorted_append takeWhile_dropWhile_id)

lemma iv_beyond_bounds:
  assumes "gap_sorted rs" and "x \<in> set (iv_beyond q rs)"
  shows "snd q < fst x"
proof -
  let ?rest = "dropWhile (\<lambda>old. snd old < fst q) rs"
  have "partitioned (\<lambda>old. fst old \<le> snd q) ?rest"
    using gap_sorted_dropWhile [OF assms(1), of "\<lambda>old. snd old < fst q"]
    by (intro partitioned_if_sorted_wrt [of "\<lambda>x y. snd x < fst y"])
      (fastforce simp: gap_sorted_def)+
  with assms(2) show ?thesis
    unfolding partitioned_def iv_beyond_def by (meson not_le)
qed

lemma gap_sorted_extremes:
  assumes "gap_sorted h" and "x \<in> set h"
  shows "fst (hd h) \<le> fst x" and "snd x \<le> snd (last h)"
proof -
  show "fst (hd h) \<le> fst x"
    using assms by (cases h) (fastforce simp: gap_sorted_Cons)+
  show "snd x \<le> snd (last h)"
    using assms by (cases h rule: rev_cases) (fastforce simp: gap_sorted_append gap_sorted_Cons)+
qed

lemma iv_merge_covers:
  assumes h: "gap_sorted h" and q: "fst q < snd q"
    and near: "\<And>x. x \<in> set h \<Longrightarrow> fst x \<le> snd q \<and> fst q \<le> snd x"
  shows "in_range b (iv_merge q h) \<longleftrightarrow> in_range b q \<or> covered h b"
proof (cases "h = []")
  case True
  then show ?thesis by (simp add: iv_merge_def)
next
  case False
  then have ends: "hd h \<in> set h" "last h \<in> set h" by simp_all
  have wide: "fst (iv_merge q h) \<le> fst x \<and> snd x \<le> snd (iv_merge q h)" if "x \<in> set h" for x
    using gap_sorted_extremes [OF h that] False
    by (auto simp: iv_merge_def min_le_iff_disj le_max_iff_disj)
  have "in_range b (hd h)" if "in_range b (iv_merge q h)" "b < fst q"
    using that False near [OF ends(1)] by (auto simp: iv_merge_def in_range_def min_def split: if_splits)
  moreover have "in_range b (last h)" if "in_range b (iv_merge q h)" "snd q \<le> b"
    using that False near [OF ends(2)] by (auto simp: iv_merge_def in_range_def max_def split: if_splits)
  ultimately have "in_range b (iv_merge q h) \<Longrightarrow> in_range b q \<or> covered h b"
    using ends by (auto simp: covered_def) (meson in_range_def not_le)
  moreover have "in_range b q \<Longrightarrow> in_range b (iv_merge q h)"
    using False by (auto simp: iv_merge_def in_range_def)
  moreover have "covered h b \<Longrightarrow> in_range b (iv_merge q h)"
    using wide by (fastforce simp: covered_def in_range_def)
  ultimately show ?thesis by blast
qed

lemma iv_merge_props:
  assumes h: "\<forall>x \<in> set h. al dvd fst x \<and> al dvd snd x"
    and q: "al dvd fst q" "al dvd snd q" "fst q < snd q"
  shows "al dvd fst (iv_merge q h)" "al dvd snd (iv_merge q h)"
    and "fst (iv_merge q h) < snd (iv_merge q h)"
  using assms by (auto simp: iv_merge_def min_def max_def)

lemma intervals_include_inv:
  assumes al: "alignment al" and inv: "iv_inv n al rs"
  shows "iv_inv n al (intervals_include n al rs r)"
proof (cases "rs = [] \<or> aligned al r = None")
  case True
  then show ?thesis by (auto simp: intervals_include_def iv_inv_def gap_sorted_def)
next
  case False
  then obtain q where q: "aligned al r = Some q" and ne: "rs \<noteq> []" by auto
  let ?A = "iv_below q rs" and ?h = "iv_touch q rs" and ?C = "iv_beyond q rs"
  let ?m = "iv_merge q ?h"
  note qs = aligned_Some [OF al q]
  have parts: "rs = ?A @ ?h @ ?C" by (simp only: iv_parts)
  have gs: "gap_sorted rs" and dv: "\<forall>x \<in> set rs. al dvd fst x \<and> al dvd snd x"
    and len: "length rs \<le> n"
    using inv by (auto simp: iv_inv_def)
  have "gap_sorted (?A @ ?h @ ?C)" using gs by (simp only: iv_parts)
  then have sorted: "gap_sorted ?A" "gap_sorted ?C"
    and AhC: "\<forall>x \<in> set ?A. \<forall>y \<in> set ?h. snd x < fst y" "\<forall>x \<in> set ?h. \<forall>y \<in> set ?C. snd x < fst y"
    by (auto simp: gap_sorted_append)
  have sub: "set ?A \<subseteq> set rs" "set ?h \<subseteq> set rs" "set ?C \<subseteq> set rs"
    using arg_cong [OF parts, of set] by auto
  have Am: "\<forall>x \<in> set ?A. snd x < fst ?m"
    using iv_below_bounds [of _ q rs] AhC(1) by (auto simp: iv_merge_def)
  have mC: "\<forall>y \<in> set ?C. snd ?m < fst y"
    using iv_beyond_bounds [OF gs, of _ q] AhC(2) by (auto simp: iv_merge_def)
  have m: "al dvd fst ?m" "al dvd snd ?m" "fst ?m < snd ?m"
    using iv_merge_props [of ?h al q] qs dv sub by blast+
  have AC: "\<forall>x \<in> set ?A. \<forall>y \<in> set ?C. snd x < fst y"
    using Am mC m(3) by (meson less_trans)
  have "gap_sorted (?A @ ?m # ?C)"
    using sorted Am mC m(3) AC by (auto simp: gap_sorted_append gap_sorted_Cons)
  moreover have "\<forall>x \<in> set (?A @ ?m # ?C). al dvd fst x \<and> al dvd snd x"
    using m dv sub by (auto simp: subset_iff)
  moreover have "length (?A @ ?m # ?C) \<le> n" if "\<not> (?h = [] \<and> length rs = n)"
  proof -
    have "length rs = length ?A + length ?h + length ?C"
      using arg_cong [OF parts, of length] by simp
    with that len show ?thesis by (cases ?h) auto
  qed
  moreover have "iv_inv n al []" by (simp add: iv_inv_def gap_sorted_def)
  ultimately show ?thesis
    unfolding intervals_include_eq [OF ne q] iv_inv_def by simp
qed

text \<open>Without overflow the list grows by exactly the bytes of the aligned range.\<close>

lemma intervals_include_covers:
  assumes al: "alignment al" and gs: "gap_sorted rs"
    and ok: "intervals_include n al rs r \<noteq> []"
  obtains q where "aligned al r = Some q"
    and "covered (intervals_include n al rs r) b \<longleftrightarrow> covered rs b \<or> in_range b q"
proof -
  from ok obtain q where q: "aligned al r = Some q" and ne: "rs \<noteq> []"
    by (auto simp: intervals_include_def split: if_splits option.splits)
  let ?A = "iv_below q rs" and ?h = "iv_touch q rs" and ?C = "iv_beyond q rs"
  have "gap_sorted (?A @ ?h @ ?C)" using gs by (simp only: iv_parts)
  then have h: "gap_sorted ?h" by (simp add: gap_sorted_append)
  have m: "in_range b (iv_merge q ?h) \<longleftrightarrow> in_range b q \<or> covered ?h b"
    using iv_merge_covers [OF h, of q b] aligned_Some(5) [OF al q] iv_touch_bounds [OF gs, of _ q]
    by blast
  have "intervals_include n al rs r = ?A @ iv_merge q ?h # ?C"
    using ok unfolding intervals_include_eq [OF ne q] by (simp split: if_splits)
  moreover have "covered rs b \<longleftrightarrow> covered (?A @ ?h @ ?C) b" by (simp only: iv_parts)
  ultimately have "covered (intervals_include n al rs r) b \<longleftrightarrow> covered rs b \<or> in_range b q"
    using m by auto
  with q show thesis by (rule that)
qed

lemma aligned_contains:
  "alignment al \<Longrightarrow> aligned al r = Some q \<Longrightarrow> in_range b r \<Longrightarrow> in_range b q"
  using aligned_Some(3,4) by (fastforce simp: in_range_def)

section \<open>The interface: a conservative tracker of written bytes\<close>

text \<open>
  A backend that repairs what a tracker declares dirty misses no write as long as every operation
  keeps \<open>tracks\<close>: the tracker accounts for every byte of the written set.
\<close>

locale dirty_tracker =
  fixes note_write :: "'s \<Rightarrow> range \<Rightarrow> 's"
    and tracks :: "'s \<Rightarrow> nat set \<Rightarrow> bool"
    and valid :: "'s \<Rightarrow> bool"
  assumes note_valid: "valid s \<Longrightarrow> valid (note_write s r)"
    and note_tracks: "valid s \<Longrightarrow> tracks s W \<Longrightarrow>
      tracks (note_write s r) (W \<union> {b. in_range b r})"
begin

lemma notes_valid: "valid s \<Longrightarrow> valid (foldl note_write s rs)"
  by (induction rs arbitrary: s) (simp_all add: note_valid)

lemma notes_track:
  "valid s \<Longrightarrow> tracks s W \<Longrightarrow>
   tracks (foldl note_write s rs) (W \<union> {b. \<exists>r \<in> set rs. in_range b r})"
proof (induction rs arbitrary: s W)
  case (Cons r rs)
  have "tracks (foldl note_write (note_write s r) rs)
      ((W \<union> {b. in_range b r}) \<union> {b. \<exists>r \<in> set rs. in_range b r})"
    using Cons.prems by (intro Cons.IH note_valid note_tracks)
  then show ?case by (simp add: Un_def disj_assoc)
qed simp

end

definition list_tracks :: "intervals \<Rightarrow> nat set \<Rightarrow> bool" where
  "list_tracks rs W \<longleftrightarrow> rs = [] \<or> (\<forall>b \<in> W. covered rs b)"

definition list_valid :: "nat \<Rightarrow> nat \<Rightarrow> intervals \<Rightarrow> bool" where
  "list_valid n al rs \<longleftrightarrow> alignment al \<and> iv_inv n al rs"

lemma list_include_tracks:
  assumes v: "list_valid n al rs" and W: "list_tracks rs W"
  shows "list_tracks (intervals_include n al rs r) (W \<union> {b. in_range b r})"
proof (cases "intervals_include n al rs r = []")
  case False
  then have ne: "rs \<noteq> []" by (auto simp: intervals_include_def)
  have al: "alignment al" and gs: "gap_sorted rs"
    using v by (auto simp: list_valid_def iv_inv_def)
  have "covered (intervals_include n al rs r) b" if b: "b \<in> W \<union> {b. in_range b r}" for b
  proof -
    obtain q where q: "aligned al r = Some q"
      and cov: "covered (intervals_include n al rs r) b \<longleftrightarrow> covered rs b \<or> in_range b q"
      by (rule intervals_include_covers [OF al gs False, of b])
    show ?thesis
      using b W ne aligned_contains [OF al q] unfolding cov by (auto simp: list_tracks_def)
  qed
  then show ?thesis by (simp add: list_tracks_def)
qed (simp add: list_tracks_def)

interpretation iv: dirty_tracker "intervals_include n al" list_tracks "list_valid n al" for n al
  by standard (simp_all add: list_include_tracks, simp add: list_valid_def intervals_include_inv)

definition update_tracks :: "buffer_update \<Rightarrow> nat set \<Rightarrow> bool" where
  "update_tracks u W \<longleftrightarrow> (\<forall>b \<in> W. in_range b (bu_range u)) \<and>
     (case bu_intervals u of None \<Rightarrow> True | Some rs \<Rightarrow> list_tracks rs W)"

definition update_valid :: "nat \<Rightarrow> nat \<Rightarrow> buffer_update \<Rightarrow> bool" where
  "update_valid n al u \<longleftrightarrow> alignment al \<and>
     (case bu_intervals u of None \<Rightarrow> True | Some rs \<Rightarrow> iv_inv n al rs)"

lemma in_envelope [intro]:
  "in_range b r \<Longrightarrow> in_range b (envelope r q)"
  "in_range b q \<Longrightarrow> in_range b (envelope r q)"
  by (auto simp: in_range_def envelope_def)

interpretation bu: dirty_tracker "include_range n al" update_tracks "update_valid n al" for n al
proof
  fix s r W
  assume v: "update_valid n al s"
  then show "update_valid n al (include_range n al s r)"
    using intervals_include_inv [of al n _ r]
    by (auto simp: update_valid_def include_range_def split: option.splits)
  assume "update_tracks s W"
  with v show "update_tracks (include_range n al s r) (W \<union> {b. in_range b r})"
    using list_include_tracks [of n al _ W r]
    by (auto simp: update_tracks_def include_range_def update_valid_def list_valid_def
        split: option.splits)
qed

lemma iv_inv_Nil [simp]: "iv_inv n al []"
  by (simp add: iv_inv_def gap_sorted_def)

lemma intervals_new_inv:
  assumes al: "alignment al" and n: "0 < n"
  shows "iv_inv n al (intervals_new alloc n al r)"
proof (cases "aligned al r")
  case (Some q)
  then have "iv_inv n al [q]"
    using aligned_Some [OF al] n by (simp add: iv_inv_def gap_sorted_def)
  with Some show ?thesis by (simp add: intervals_new_def)
qed (simp add: intervals_new_def)

lemma update_sparse_valid:
  "alignment al \<Longrightarrow> 0 < n \<Longrightarrow> update_valid n al (update_sparse alloc n al p r)"
  by (simp add: update_valid_def update_sparse_def intervals_new_inv)

lemma update_sparse_tracks:
  assumes "alignment al"
  shows "update_tracks (update_sparse alloc n al p r) {b. in_range b r}"
  using aligned_contains [OF assms, of r]
  by (auto simp: update_tracks_def update_sparse_def intervals_new_def list_tracks_def
      split: option.splits)

lemma merge_previous_valid:
  assumes "update_valid n al u" and "update_valid n al p"
  shows "update_valid n al (merge_previous n al u p)"
proof -
  have "iv_inv n al rs \<Longrightarrow> iv_inv n al (foldl (intervals_include n al) rs earlier)"
    for rs earlier
    using iv.notes_valid [of n al rs earlier] assms(1) by (simp add: list_valid_def update_valid_def)
  then show ?thesis
    using assms intervals_include_inv [of al n]
    by (auto simp: update_valid_def merge_previous_def Let_def split: option.splits)
qed

lemma merge_previous_tracks:
  assumes u: "update_valid n al u" "update_tracks u W" and p: "update_tracks p W'"
  shows "update_tracks (merge_previous n al u p) (W \<union> W')"
proof -
  let ?m = "merge_previous n al u p"
  have env: "bu_range ?m = envelope (bu_range u) (bu_range p)"
    by (simp add: merge_previous_def Let_def split: option.splits)
  have inside: "\<forall>b \<in> W \<union> W'. in_range b (bu_range ?m)"
    unfolding env using u(2) p by (auto simp: update_tracks_def)
  show ?thesis
  proof (cases "bu_intervals p = Some [] \<or> bu_intervals u = None")
    case True
    then have "bu_intervals ?m = Some [] \<or> bu_intervals ?m = None"
      by (auto simp: merge_previous_def Let_def)
    with inside show ?thesis by (auto simp: update_tracks_def list_tracks_def)
  next
    case False
    then obtain rs where rs: "bu_intervals u = Some rs" and np: "bu_intervals p \<noteq> Some []" by auto
    have v: "list_valid n al rs" and t: "list_tracks rs W"
      using u rs by (auto simp: update_valid_def list_valid_def update_tracks_def)
    have "list_tracks (the (bu_intervals ?m)) (W \<union> W')" and "bu_intervals ?m \<noteq> None"
    proof (atomize (full), cases "bu_intervals p")
      case None
      then have "bu_intervals ?m = Some (intervals_include n al rs (bu_range p))"
        using rs by (simp add: merge_previous_def Let_def)
      moreover have "W' \<subseteq> {b. in_range b (bu_range p)}"
        using p by (auto simp: update_tracks_def)
      ultimately show "list_tracks (the (bu_intervals ?m)) (W \<union> W') \<and> bu_intervals ?m \<noteq> None"
        using list_include_tracks [OF v t, of "bu_range p"] by (auto simp: list_tracks_def)
    next
      case (Some earlier)
      then have "bu_intervals ?m = Some (foldl (intervals_include n al) rs earlier)"
        using rs np by (simp add: merge_previous_def Let_def)
      moreover have "W' \<subseteq> {b. \<exists>r \<in> set earlier. in_range b r}"
        using p Some np by (auto simp: update_tracks_def list_tracks_def covered_def)
      ultimately show "list_tracks (the (bu_intervals ?m)) (W \<union> W') \<and> bu_intervals ?m \<noteq> None"
        using iv.notes_track [OF v t, of earlier] by (auto simp: list_tracks_def)
    qed
    with inside show ?thesis by (auto simp: update_tracks_def)
  qed
qed

definition in_hull :: "nat \<Rightarrow> range \<Rightarrow> nat \<Rightarrow> bool" where
  "in_hull al r b \<longleftrightarrow> (case aligned al r of None \<Rightarrow> False | Some q \<Rightarrow> in_range b q)"

lemma includes_cover_exactly:
  assumes al: "alignment al" and inv: "iv_inv n al rs"
    and ok: "foldl (intervals_include n al) rs ranges \<noteq> []"
  shows "covered (foldl (intervals_include n al) rs ranges) b \<longleftrightarrow>
    covered rs b \<or> (\<exists>r \<in> set ranges. in_hull al r b)"
  using ok
proof (induction ranges rule: rev_induct)
  case (snoc r ranges)
  let ?before = "foldl (intervals_include n al) rs ranges"
  have after: "intervals_include n al ?before r \<noteq> []" using snoc.prems by simp
  then have "?before \<noteq> []" by (auto simp: intervals_include_def)
  note before = snoc.IH [OF this]
  have "list_valid n al ?before"
    by (rule iv.notes_valid) (simp add: list_valid_def al inv)
  then have gs: "gap_sorted ?before" by (simp add: list_valid_def iv_inv_def)
  obtain q where "aligned al r = Some q"
    and "covered (intervals_include n al ?before r) b \<longleftrightarrow> covered ?before b \<or> in_range b q"
    by (rule intervals_include_covers [OF al gs after, of b])
  with before show ?case by (auto simp: in_hull_def)
qed simp

lemma include_range_intervals:
  "bu_intervals (foldl (include_range n al) u rs) =
     map_option (\<lambda>iv. foldl (intervals_include n al) iv rs) (bu_intervals u)"
  by (induction rs arbitrary: u) (simp_all add: include_range_def option.map_comp o_def option.map_ident)

section \<open>Properties\<close>

text \<open>
  C4. No write is lost. The delta that a plan accumulates from its writes and then merges with the
  delta of the preceding revisions accounts for every byte written in either, names the older
  base, and its interval list keeps the reserved capacity, the order, the gaps and the alignment.
\<close>

theorem delta_accounts_for_every_write:
  assumes al: "alignment al" and n: "0 < n"
    and u: "u = foldl (include_range n al) (update_sparse alloc n al base r) rs"
    and p: "p = foldl (include_range n al) (update_sparse alloc' n al base' r') rs'"
  shows "update_valid n al (merge_previous n al u p) \<and>
    previous_revision (merge_previous n al u p) = base' \<and>
    update_tracks (merge_previous n al u p)
      ({b. \<exists>q \<in> set (r # rs). in_range b q} \<union> {b. \<exists>q \<in> set (r' # rs'). in_range b q})"
proof -
  have folded: "update_valid n al (foldl (include_range n al) (update_sparse a n al v q) qs) \<and>
      update_tracks (foldl (include_range n al) (update_sparse a n al v q) qs)
        {b. \<exists>x \<in> set (q # qs). in_range b x} \<and>
      previous_revision (foldl (include_range n al) (update_sparse a n al v q) qs) = v"
    for a v q qs
  proof (intro conjI)
    let ?s = "update_sparse a n al v q"
    note valid = update_sparse_valid [OF al n, of a v q]
    show "update_valid n al (foldl (include_range n al) ?s qs)"
      by (rule bu.notes_valid [OF valid])
    show "update_tracks (foldl (include_range n al) ?s qs) {b. \<exists>x \<in> set (q # qs). in_range b x}"
      using bu.notes_track [OF valid update_sparse_tracks [OF al], of qs]
      by (simp add: Un_def)
    have "previous_revision (foldl (include_range n al) w qs) = previous_revision w" for w
      by (induction qs arbitrary: w) (simp_all add: include_range_def)
    then show "previous_revision (foldl (include_range n al) ?s qs) = v"
      by (simp add: update_sparse_def)
  qed
  have "previous_revision (merge_previous n al u p) = previous_revision p"
    by (simp add: merge_previous_def Let_def split: option.splits)
  then show ?thesis
    unfolding u p using folded [of alloc base r rs] folded [of alloc' base' r' rs']
    by (intro conjI merge_previous_valid merge_previous_tracks) simp_all
qed

theorem delta_accounts_for_every_write_witness:
  "update_tracks
     (merge_previous 2 4 (foldl (include_range 2 4) (update_sparse (\<lambda>_. True) 2 4 7 (5, 6)) [(8, 9)])
        (foldl (include_range 2 4) (update_sparse (\<lambda>_. True) 2 4 5 (40, 44)) []))
     ({b. \<exists>q \<in> set [(5, 6), (8, 9)]. in_range b q} \<union> {b. \<exists>q \<in> set [(40, 44)]. in_range b q})"
proof -
  have "alignment 4" unfolding alignment_def by (rule exI [of _ 2]) simp
  then show ?thesis
    using delta_accounts_for_every_write [OF _ _ refl refl, of 4 2 "\<lambda>_. True" 7 "(5, 6)" "[(8, 9)]"
        "\<lambda>_. True" 5 "(40, 44)" "[]"] by simp
qed

text \<open>
  C5. Without overflow nothing else is uploaded: the list covers exactly the bytes of the aligned
  hulls of the included ranges, and a hull exceeds its range by less than one alignment unit at
  either end. Once a list is empty it stays empty, so a full repair is never forgotten.
\<close>

theorem delta_covers_exactly_the_aligned_hulls:
  assumes al: "alignment al" and n: "0 < n"
    and iv: "bu_intervals (foldl (include_range n al) (update_sparse alloc n al base r) rs) = Some ivs"
  shows "(ivs \<noteq> [] \<longrightarrow> (\<forall>b. covered ivs b \<longleftrightarrow>
           (\<exists>w \<in> set (r # rs). in_hull al w b))) \<and>
    (\<forall>w q. aligned al w = Some q \<longrightarrow> fst q \<le> fst w \<and> fst w < fst q + al \<and>
       snd w \<le> snd q \<and> snd q < snd w + al) \<and>
    (ivs = [] \<longrightarrow> (\<forall>later. intervals_include n al ivs later = []))"
proof -
  let ?new = "intervals_new alloc n al r"
  have ivs: "ivs = foldl (intervals_include n al) ?new rs"
    using iv by (simp add: include_range_intervals update_sparse_def)
  have "covered ivs b \<longleftrightarrow> (\<exists>w \<in> set (r # rs). in_hull al w b)"
    if ne: "ivs \<noteq> []" for b
  proof -
    have "foldl (intervals_include n al) [] qs = []" for qs
      by (induction qs) (simp_all add: intervals_include_def)
    then have "?new \<noteq> []" using ne ivs by metis
    then obtain q where q: "aligned al r = Some q" "?new = [q]"
      by (auto simp: intervals_new_def split: if_splits option.splits)
    have "covered ivs b \<longleftrightarrow> covered ?new b \<or> (\<exists>w \<in> set rs. in_hull al w b)"
      unfolding ivs
      by (rule includes_cover_exactly [OF al intervals_new_inv [OF al n]]) (use ne ivs in simp)
    with q show ?thesis by (simp add: in_hull_def)
  qed
  moreover have "fst q \<le> fst w \<and> fst w < fst q + al \<and> snd w \<le> snd q \<and> snd q < snd w + al"
    if "aligned al w = Some q" for w q
    using aligned_Some [OF al that] by blast
  ultimately show ?thesis by (simp add: intervals_include_def)
qed

theorem delta_covers_exactly_the_aligned_hulls_witness:
  "aligned 4 (5, 6) = Some (4, 8) \<and> \<not> covered [(4, 8)] 8"
proof -
  have al: "alignment 4" unfolding alignment_def by (rule exI [of _ 2]) simp
  have q: "aligned 4 (5, 6) = Some (4, 8)"
    by (simp add: aligned_def usize_checked_add_def usize_limit_def mask_down_eq [OF al])
  have iv: "bu_intervals (foldl (include_range 2 4) (update_sparse (\<lambda>_. True) 2 4 7 (5, 6)) []) =
      Some [(4, 8)]"
    by (simp add: update_sparse_def intervals_new_def q)
  show ?thesis
    using delta_covers_exactly_the_aligned_hulls [OF al _ iv] q by (auto simp: in_range_def)
qed

end
