(* ===== verification/Buffer_Diff.thy ===== *)
theory Buffer_Diff
  imports Range_Index Ir_Types
begin

text \<open>
  \<^verbatim>\<open>crates/sgfx-core/src/backend/support/buffer_diff.rs\<close>: finding the changed bytes of a buffer
  write with 64-bit words and 4096-byte chunks. The specification is \<open>common_prefix_len\<close>, the
  length of the longest common prefix byte by byte; the word loops are shown equal to it.
\<close>

section \<open>Bytes and words\<close>

definition u64_from_le_bytes :: "u8 list \<Rightarrow> u64" where
  "u64_from_le_bytes bs = le_word bs"

text \<open>The native byte order is the target's; \<open>big\<close> says which it is.\<close>

definition u64_from_ne_bytes :: "bool \<Rightarrow> u8 list \<Rightarrow> u64" where
  "u64_from_ne_bytes big bs = le_word (if big then rev bs else bs)"

definition trailing_zeros :: "u64 \<Rightarrow> nat" where
  "trailing_zeros w = length (takeWhile (\<lambda>i. \<not> bit w i) [0..<64])"

definition leading_zeros :: "u64 \<Rightarrow> nat" where
  "leading_zeros w = length (takeWhile (\<lambda>i. \<not> bit w i) (rev [0..<64]))"

section \<open>Chunks\<close>

definition chunks_exact :: "nat \<Rightarrow> 'a list \<Rightarrow> 'a list list" where
  "chunks_exact n xs = map (\<lambda>i. sub_slice xs (i * n) (i * n + n)) [0 ..< length xs div n]"

definition chunks_remainder :: "nat \<Rightarrow> 'a list \<Rightarrow> 'a list" where
  "chunks_remainder n xs = drop (length xs div n * n) xs"

function chunks :: "nat \<Rightarrow> 'a list \<Rightarrow> 'a list list" where
  "chunks n xs = (if xs = [] \<or> n = 0 then [] else take n xs # chunks n (drop n xs))"
  by pat_completeness auto
termination by (relation "measure (length \<circ> snd)") (auto simp: length_greater_0_conv)

declare chunks.simps [simp del]

definition rchunks :: "nat \<Rightarrow> 'a list \<Rightarrow> 'a list list" where
  "rchunks n xs = map rev (chunks n (rev xs))"

section \<open>The comparison loops\<close>

definition equal_buffer_chunk :: "bool \<Rightarrow> u8 list \<Rightarrow> u8 list \<Rightarrow> bool" where
  "equal_buffer_chunk big old new =
     (if length old \<noteq> length new then False
      else
        let difference =
              foldl (\<lambda>difference (o', n'). difference OR
                       (u64_from_ne_bytes big o' XOR u64_from_ne_bytes big n')) 0
                (zip (chunks_exact 8 old) (chunks_exact 8 new))
        in difference = 0 \<and>
           list_all (\<lambda>(o', n'). o' = n') (zip (chunks_remainder 8 old) (chunks_remainder 8 new)))"

fun prefix_words :: "u8 list \<Rightarrow> u8 list \<Rightarrow> nat list \<Rightarrow> nat option" where
  "prefix_words old new [] = None"
| "prefix_words old new (i # is) =
     (let at = i * 8;
          delta = u64_from_le_bytes (sub_slice old at (at + 8)) XOR
                  u64_from_le_bytes (sub_slice new at (at + 8))
      in if delta \<noteq> 0 then Some (at + trailing_zeros delta div 8)
         else prefix_words old new is)"

definition common_prefix_len :: "'a list \<Rightarrow> 'a list \<Rightarrow> nat" where
  "common_prefix_len xs ys = length (takeWhile (\<lambda>(a, b). a = b) (zip xs ys))"

definition common_buffer_prefix :: "u8 list \<Rightarrow> u8 list \<Rightarrow> usize" where
  "common_buffer_prefix old new =
     (let n = min (length old) (length new);
          words = n div 8
      in case prefix_words old new [0 ..< words] of
           Some found \<Rightarrow> found
         | None \<Rightarrow>
             let at = words * 8
             in at + length (takeWhile (\<lambda>(a, b). a = b) (zip (sub_slice old at n) (sub_slice new at n))))"

function suffix_words :: "u8 list \<Rightarrow> u8 list \<Rightarrow> nat \<Rightarrow> nat + nat" where
  "suffix_words old new matched =
     (if matched + 8 \<le> min (length old) (length new)
      then
        let a = length old - matched - 8;
            b = length new - matched - 8;
            delta = u64_from_le_bytes (sub_slice old a (a + 8)) XOR
                    u64_from_le_bytes (sub_slice new b (b + 8))
        in if delta \<noteq> 0 then Inl (matched + leading_zeros delta div 8)
           else suffix_words old new (matched + 8)
      else Inr matched)"
  by pat_completeness auto
termination by (relation "measure (\<lambda>(old, new, matched). length old - matched)") auto

declare suffix_words.simps [simp del]

text \<open>\<open>Inl\<close> is the early return out of the word loop, \<open>Inr\<close> the count at its end.\<close>

definition common_buffer_suffix :: "u8 list \<Rightarrow> u8 list \<Rightarrow> usize" where
  "common_buffer_suffix old new =
     (case suffix_words old new 0 of
        Inl found \<Rightarrow> found
      | Inr matched \<Rightarrow>
          matched + length (takeWhile (\<lambda>(a, b). a = b)
            (zip (rev (take (length old - matched) old)) (rev (take (length new - matched) new)))))"

text \<open>The loop over paired chunks, with its break at the first difference.\<close>

fun scan_chunks ::
    "bool \<Rightarrow> (u8 list \<Rightarrow> u8 list \<Rightarrow> usize) \<Rightarrow> (u8 list \<times> u8 list) list \<Rightarrow> usize \<Rightarrow> usize"
where
  "scan_chunks big common [] acc = acc"
| "scan_chunks big common ((old, new) # rest) acc =
     (if \<not> equal_buffer_chunk big old new then acc + common old new
      else scan_chunks big common rest (acc + length old))"

definition changed_buffer_bytes ::
    "bool \<Rightarrow> u8 list option \<Rightarrow> usize \<Rightarrow> u8 list \<Rightarrow> range ir_result"
where
  "changed_buffer_bytes big previous start data =
     and_then (ok_or (usize_checked_add start (length data)) Overflow) (\<lambda>stop.
       case previous of
         None \<Rightarrow> Inr (0, stop)
       | Some prev \<Rightarrow>
           let old = (if start \<le> length prev then drop start prev else []);
               overlap = min (length old) (length data);
               prefix = scan_chunks big common_buffer_prefix
                 (zip (chunks 4096 (take overlap old)) (chunks 4096 (take overlap data))) 0;
               suffix = (if length data \<le> length old
                 then scan_chunks big common_buffer_suffix
                   (zip (rchunks 4096 (sub_slice old prefix (length data)))
                        (rchunks 4096 (drop prefix data))) 0
                 else 0)
           in Inr (min (start + prefix) (length prev), stop - suffix))"

section \<open>The longest common prefix\<close>

lemma common_prefix_len_simps [simp]:
  "common_prefix_len [] ys = 0" "common_prefix_len xs [] = 0"
  "common_prefix_len (x # xs) (y # ys) = (if x = y then Suc (common_prefix_len xs ys) else 0)"
  by (simp_all add: common_prefix_len_def)

lemma common_prefix_len_le:
  "common_prefix_len xs ys \<le> length xs" "common_prefix_len xs ys \<le> length ys"
  using length_takeWhile_le [of "\<lambda>(a, b). a = b" "zip xs ys"] by (auto simp: common_prefix_len_def)

lemma common_prefix_len_agrees:
  "i < common_prefix_len xs ys \<Longrightarrow> xs ! i = ys ! i"
proof (induction xs ys arbitrary: i rule: list_induct2')
  case (4 x xs y ys)
  then show ?case by (cases i) (auto split: if_splits)
qed auto

lemma common_prefix_len_differs:
  "common_prefix_len xs ys < length xs \<Longrightarrow> common_prefix_len xs ys < length ys \<Longrightarrow>
   xs ! common_prefix_len xs ys \<noteq> ys ! common_prefix_len xs ys"
  by (induction xs ys rule: list_induct2') auto

lemma common_prefix_len_unique:
  assumes "j < length xs" "j < length ys" "\<And>i. i < j \<Longrightarrow> xs ! i = ys ! i" "xs ! j \<noteq> ys ! j"
  shows "common_prefix_len xs ys = j"
  using assms common_prefix_len_agrees [of j xs ys] common_prefix_len_differs [of xs ys]
  by (metis linorder_neqE_nat order.strict_trans)

lemma common_prefix_len_self [simp]: "common_prefix_len xs xs = length xs"
  by (induction xs) auto

lemma common_prefix_len_append:
  "length a = length b \<Longrightarrow>
   common_prefix_len (a @ xs) (b @ ys) =
     (if a = b then length a + common_prefix_len xs ys else common_prefix_len a b)"
  by (induction a b rule: list_induct2) auto

lemma common_prefix_len_take:
  "common_prefix_len (take (min (length xs) (length ys)) xs) (take (min (length xs) (length ys)) ys) =
   common_prefix_len xs ys"
  by (induction xs ys rule: list_induct2') auto

section \<open>Words and their bytes\<close>

lemma le_word_inject:
  assumes "length a = 8" and "length b = 8"
  shows "(le_word a :: u64) = le_word b \<longleftrightarrow> a = b"
proof
  assume eq: "(le_word a :: u64) = le_word b"
  show "a = b"
  proof (rule nth_equalityI)
    fix i assume i: "i < length a"
    show "a ! i = b ! i"
    proof (rule bit_word_eqI)
      fix k assume "k < LENGTH(8)"
      then have "(8 * i + k) div 8 = i" "(8 * i + k) mod 8 = k" "8 * i + k < 64"
        using i assms by auto
      then show "bit (a ! i) k = bit (b ! i) k"
        using bit_le_word [of a "8 * i + k", where 'a = 64] bit_le_word [of b "8 * i + k", where 'a = 64]
          eq i assms by simp
    qed
  qed (use assms in simp)
qed simp

lemma takeWhile_upt_first:
  assumes "k < n" and "P k"
  shows "P (length (takeWhile (\<lambda>i. \<not> P i) [0..<n]))"
    and "length (takeWhile (\<lambda>i. \<not> P i) [0..<n]) \<le> k"
    and "i < length (takeWhile (\<lambda>i. \<not> P i) [0..<n]) \<Longrightarrow> \<not> P i"
proof -
  let ?t = "takeWhile (\<lambda>i. \<not> P i) [0..<n]"
  have le: "length ?t \<le> k"
  proof (rule ccontr)
    assume "\<not> length ?t \<le> k"
    then have "?t ! k \<in> set ?t" by (intro nth_mem) simp
    moreover have "?t ! k = k" using \<open>\<not> length ?t \<le> k\<close> assms(1) by (simp add: takeWhile_nth)
    ultimately show False using assms set_takeWhileD [of k "\<lambda>i. \<not> P i" "[0..<n]"] by simp
  qed
  then show "length ?t \<le> k" .
  have "length ?t < length [0..<n]" using le assms by simp
  from nth_length_takeWhile [OF this] show "P (length ?t)" using le assms by simp
  assume i: "i < length ?t"
  then have "?t ! i \<in> set ?t" by (intro nth_mem) simp
  moreover have "?t ! i = i" using i le assms(1) by (simp add: takeWhile_nth)
  ultimately show "\<not> P i" using set_takeWhileD [of i "\<lambda>i. \<not> P i" "[0..<n]"] by simp
qed

lemma trailing_zeros_first:
  assumes "w \<noteq> 0"
  shows "bit w (trailing_zeros w)" and "trailing_zeros w < 64"
    and "i < trailing_zeros w \<Longrightarrow> \<not> bit w i"
proof -
  have "\<exists>k < 64. bit w k"
  proof (rule ccontr)
    assume "\<not> (\<exists>k < 64. bit w k)"
    then have "w = 0" by (intro bit_word_eqI) auto
    with assms show False by simp
  qed
  then obtain k where k: "k < 64" "bit w k" by blast
  show "bit w (trailing_zeros w)" and "trailing_zeros w < 64"
    and "i < trailing_zeros w \<Longrightarrow> \<not> bit w i"
    unfolding trailing_zeros_def using takeWhile_upt_first [where P = "bit w", OF k] k(1) by auto
qed

lemma leading_zeros_last:
  assumes "w \<noteq> 0"
  shows "bit w (63 - leading_zeros w)" and "leading_zeros w < 64"
    and "i < leading_zeros w \<Longrightarrow> \<not> bit w (63 - i)"
proof -
  have "rev [0..<64] = map (\<lambda>i. 63 - i) [0..<64]"
    by (rule nth_equalityI) (auto simp: rev_nth)
  then have lz: "leading_zeros w = length (takeWhile (\<lambda>i. \<not> bit w (63 - i)) [0..<64])"
    by (simp add: leading_zeros_def takeWhile_map o_def)
  have k: "63 - trailing_zeros w < 64" "bit w (63 - (63 - trailing_zeros w))"
    using trailing_zeros_first [OF assms] by simp_all
  show "bit w (63 - leading_zeros w)" and "leading_zeros w < 64"
    and "i < leading_zeros w \<Longrightarrow> \<not> bit w (63 - i)"
    unfolding lz using takeWhile_upt_first [where P = "\<lambda>i. bit w (63 - i)", OF k] by auto
qed

lemma xor_eq_0: "(a :: 'a::len word) XOR b = 0 \<longleftrightarrow> a = b"
  by (auto simp: bit_eq_iff bit_simps dest: bit_imp_le_length)

text \<open>The first differing byte of two 8-byte blocks, found from the low end and from the high end.\<close>

lemma byte_differs:
  assumes "length a = 8" "length b = 8" "bit (le_word a XOR le_word b :: u64) n"
  shows "a ! (n div 8) \<noteq> b ! (n div 8)"
  using assms by (auto simp: bit_simps bit_le_word)

lemma bytes_agree:
  assumes len: "length a = 8" "length b = 8" and i: "i < 8"
    and eq: "\<And>k. k < 8 \<Longrightarrow> \<not> bit (le_word a XOR le_word b :: u64) (8 * i + k)"
  shows "a ! i = b ! i"
proof (rule bit_word_eqI)
  fix k assume "k < LENGTH(8)"
  then have k: "k < 8" "(8 * i + k) div 8 = i" "(8 * i + k) mod 8 = k" "8 * i + k < 64"
    using i by auto
  then show "bit (a ! i) k = bit (b ! i) k"
    using eq [OF k(1)] len i by (simp add: bit_simps bit_le_word)
qed

lemma block_prefix:
  assumes len: "length a = 8" "length b = 8" and ne: "a \<noteq> b"
  shows "trailing_zeros (le_word a XOR le_word b) div 8 = common_prefix_len a b"
proof -
  let ?w = "le_word a XOR le_word b :: u64"
  have "?w \<noteq> 0" using ne by (simp add: xor_eq_0 le_word_inject [OF len])
  note tz = trailing_zeros_first [OF this]
  have "common_prefix_len a b = trailing_zeros ?w div 8"
  proof (rule common_prefix_len_unique)
    show "a ! (trailing_zeros ?w div 8) \<noteq> b ! (trailing_zeros ?w div 8)"
      by (rule byte_differs [OF len tz(1)])
    fix i assume i: "i < trailing_zeros ?w div 8"
    show "a ! i = b ! i"
      using i tz(2) by (intro bytes_agree [OF len]) (auto intro!: tz(3))
  qed (use tz(2) len in auto)
  then show ?thesis ..
qed

lemma block_suffix:
  assumes len: "length a = 8" "length b = 8" and ne: "a \<noteq> b"
  shows "leading_zeros (le_word a XOR le_word b) div 8 = common_prefix_len (rev a) (rev b)"
proof -
  let ?w = "le_word a XOR le_word b :: u64" and ?t = "leading_zeros (le_word a XOR le_word b)"
  have "?w \<noteq> 0" using ne by (simp add: xor_eq_0 le_word_inject [OF len])
  note lz = leading_zeros_last [OF this]
  have "common_prefix_len (rev a) (rev b) = ?t div 8"
  proof (rule common_prefix_len_unique)
    have "(63 - ?t) div 8 = 7 - ?t div 8" using lz(2) by linarith
    then show "rev a ! (?t div 8) \<noteq> rev b ! (?t div 8)"
      using byte_differs [OF len lz(1)] lz(2) len by (simp add: rev_nth)
    fix i assume i: "i < ?t div 8"
    have "a ! (7 - i) = b ! (7 - i)"
    proof (rule bytes_agree [OF len])
      fix k :: nat assume k: "k < 8"
      have "8 * (7 - i) + k = 63 - (8 * i + (7 - k))" and "8 * i + (7 - k) < ?t"
        using i k lz(2) by linarith+
      then show "\<not> bit ?w (8 * (7 - i) + k)" using lz(3) by metis
    qed simp
    then show "rev a ! i = rev b ! i"
      using i lz(2) len by (simp add: rev_nth)
  qed (use lz(2) len in auto)
  then show ?thesis ..
qed

section \<open>The word loops find the common prefix and suffix\<close>

lemma common_prefix_len_block:
  assumes "8 \<le> length x" and "8 \<le> length y"
  shows "common_prefix_len x y =
    (if take 8 x = take 8 y then 8 + common_prefix_len (drop 8 x) (drop 8 y)
     else common_prefix_len (take 8 x) (take 8 y))"
  using common_prefix_len_append [of "take 8 x" "take 8 y" "drop 8 x" "drop 8 y"] assms
  by simp

lemma prefix_words_eq:
  assumes "8 * w \<le> length old" and "8 * w \<le> length new" and "i \<le> w"
  shows "(case prefix_words old new [i ..< w] of Some found \<Rightarrow> found
      | None \<Rightarrow> 8 * w + common_prefix_len (drop (8 * w) old) (drop (8 * w) new)) =
    8 * i + common_prefix_len (drop (8 * i) old) (drop (8 * i) new)"
  using assms(3)
proof (induction "w - i" arbitrary: i)
  case (Suc k)
  then have i: "i < w" by simp
  let ?o = "drop (8 * i) old" and ?n = "drop (8 * i) new"
  have len: "8 \<le> length ?o" "8 \<le> length ?n" using assms(1,2) i by simp_all
  have blocks: "sub_slice old (i * 8) (i * 8 + 8) = take 8 ?o"
    "sub_slice new (i * 8) (i * 8 + 8) = take 8 ?n"
    by (simp_all add: sub_slice_def mult.commute)
  have len8: "length (take 8 ?o) = 8" "length (take 8 ?n) = 8" using len by simp_all
  have unfold: "prefix_words old new [i ..< w] =
      (if take 8 ?o \<noteq> take 8 ?n
       then Some (i * 8 + common_prefix_len (take 8 ?o) (take 8 ?n))
       else prefix_words old new [Suc i ..< w])"
    using i block_prefix [OF len8]
    by (simp add: upt_conv_Cons blocks u64_from_le_bytes_def Let_def xor_eq_0 le_word_inject [OF len8])
  show ?case
  proof (cases "take 8 ?o = take 8 ?n")
    case True
    then show ?thesis
      using Suc.hyps(1) [of "Suc i"] Suc.hyps(2) i common_prefix_len_block [OF len]
      unfolding unfold by (simp add: add.commute)
  next
    case False
    then show ?thesis
      using common_prefix_len_block [OF len] unfolding unfold by simp
  qed
qed simp

lemma common_buffer_prefix_eq: "common_buffer_prefix old new = common_prefix_len old new"
proof -
  let ?n = "min (length old) (length new)"
  let ?w = "?n div 8"
  have w: "8 * ?w \<le> length old" "8 * ?w \<le> length new" by linarith+
  have "common_prefix_len (sub_slice old (?w * 8) ?n) (sub_slice new (?w * 8) ?n) =
      common_prefix_len (drop (8 * ?w) old) (drop (8 * ?w) new)"
    using common_prefix_len_take [of "drop (8 * ?w) old" "drop (8 * ?w) new"]
    by (simp add: sub_slice_def min_diff mult.commute)
  then have "common_buffer_prefix old new =
      (case prefix_words old new [0 ..< ?w] of Some found \<Rightarrow> found
       | None \<Rightarrow> 8 * ?w + common_prefix_len (drop (8 * ?w) old) (drop (8 * ?w) new))"
    unfolding common_buffer_prefix_def Let_def
    by (simp add: mult.commute common_prefix_len_def split: option.split)
  with prefix_words_eq [OF w, of 0] show ?thesis by simp
qed

lemma rev_sub_slice:
  assumes "m + k \<le> length xs"
  shows "rev (sub_slice xs (length xs - m - k) (length xs - m - k + k)) = take k (drop m (rev xs))"
proof (rule nth_equalityI)
  fix i assume "i < length (rev (sub_slice xs (length xs - m - k) (length xs - m - k + k)))"
  then have i: "i < k" using assms by simp
  then have idx: "length xs - m - k + (k - Suc i) = length xs - Suc (m + i)"
    using assms by linarith
  show "rev (sub_slice xs (length xs - m - k) (length xs - m - k + k)) ! i =
      take k (drop m (rev xs)) ! i"
    using i assms idx by (simp add: rev_nth nth_sub_slice)
qed (use assms in simp)

lemma suffix_words_eq:
  "m \<le> min (length old) (length new) \<Longrightarrow>
   (case suffix_words old new m of Inl found \<Rightarrow> found
    | Inr k \<Rightarrow> k + common_prefix_len (drop k (rev old)) (drop k (rev new))) =
   m + common_prefix_len (drop m (rev old)) (drop m (rev new))"
proof (induction old new m rule: suffix_words.induct)
  case (1 old new m)
  let ?o = "drop m (rev old)" and ?n = "drop m (rev new)"
  show ?case
  proof (cases "m + 8 \<le> min (length old) (length new)")
    case False
    then show ?thesis by (subst suffix_words.simps) (simp only: if_False sum.case)
  next
    case True
    let ?a = "sub_slice old (length old - m - 8) (length old - m - 8 + 8)"
    let ?b = "sub_slice new (length new - m - 8) (length new - m - 8 + 8)"
    have len: "length ?a = 8" "length ?b = 8" using True by simp_all
    have revs: "rev ?a = take 8 ?o" "rev ?b = take 8 ?n"
      using True by (simp_all only: rev_sub_slice min.bounded_iff)
    have "m + 8 \<le> length old" "m + 8 \<le> length new" using True by simp_all
    then have long: "8 \<le> length ?o" "8 \<le> length ?n" by (simp_all add: le_diff_conv2)
    have unfold: "suffix_words old new m =
        (if ?a \<noteq> ?b then Inl (m + common_prefix_len (take 8 ?o) (take 8 ?n))
         else suffix_words old new (m + 8))"
      using True block_suffix [OF len]
      by (subst suffix_words.simps)
        (simp only: if_True Let_def u64_from_le_bytes_def xor_eq_0 le_word_inject [OF len] revs
          split: if_splits, simp)
    show ?thesis
    proof (cases "?a = ?b")
      case eq: True
      have "m + 8 \<le> min (length old) (length new) \<Longrightarrow>
          (case suffix_words old new (m + 8) of Inl found \<Rightarrow> found
           | Inr k \<Rightarrow> k + common_prefix_len (drop k (rev old)) (drop k (rev new))) =
          m + 8 + common_prefix_len (drop (m + 8) (rev old)) (drop (m + 8) (rev new))"
        using "1.IH" [OF True refl refl refl] eq by (simp add: xor_eq_0)
      moreover have "take 8 ?o = take 8 ?n" using eq revs by simp
      ultimately show ?thesis
        using common_prefix_len_block [OF long] True eq unfolding unfold by (simp add: add.commute)
    next
      case False
      then have "take 8 ?o \<noteq> take 8 ?n" using revs by (metis rev_rev_ident)
      with False show ?thesis
        using common_prefix_len_block [OF long] unfolding unfold by simp
    qed
  qed
qed

lemma common_buffer_suffix_eq:
  "common_buffer_suffix old new = common_prefix_len (rev old) (rev new)"
proof -
  have "rev (take (length xs - k) xs) = drop k (rev xs)" if "k \<le> length xs" for xs :: "u8 list" and k
    using that by (simp add: rev_take)
  moreover have "suffix_words old new m = Inr k \<Longrightarrow> m \<le> min (length old) (length new) \<Longrightarrow>
      k \<le> min (length old) (length new)" for m k
    by (induction old new m rule: suffix_words.induct)
      (subst (asm) (2) suffix_words.simps, auto simp: Let_def split: if_splits)
  ultimately show ?thesis
    using suffix_words_eq [of 0 old new]
    by (auto simp: common_buffer_suffix_def common_prefix_len_def split: sum.splits)
qed

section \<open>Chunk equality\<close>

lemma concat_chunks:
  "k * n \<le> length xs \<Longrightarrow> concat (map (\<lambda>i. sub_slice xs (i * n) (i * n + n)) [0 ..< k]) = take (k * n) xs"
proof (induction k)
  case (Suc k)
  then have "take (k * n) xs @ sub_slice xs (k * n) (k * n + n) = take (k * n + n) xs"
    by (simp add: sub_slice_def take_add)
  with Suc show ?case by (simp add: add.commute)
qed simp

lemma chunks_exact_concat: "concat (chunks_exact n xs) @ chunks_remainder n xs = xs"
  by (simp add: chunks_exact_def chunks_remainder_def concat_chunks)

lemma fold_difference:
  "foldl (\<lambda>d (o', n'). d OR (f o' XOR f n')) acc zs = (0 :: u64) \<longleftrightarrow>
     acc = 0 \<and> (\<forall>(o', n') \<in> set zs. f o' = f n')"
  by (induction zs arbitrary: acc) (auto simp: or_eq_0_iff xor_eq_0)

lemma zip_all_eq:
  "length xs = length ys \<Longrightarrow> (\<forall>(x, y) \<in> set (zip xs ys). x = y) \<longleftrightarrow> xs = ys"
  by (induction xs ys rule: list_induct2) auto

lemma equal_buffer_chunk_eq: "equal_buffer_chunk big old new \<longleftrightarrow> old = new"
proof (cases "length old = length new")
  case True
  let ?zs = "zip (chunks_exact 8 old) (chunks_exact 8 new)"
  have "u64_from_ne_bytes big o' = u64_from_ne_bytes big n' \<longleftrightarrow> o' = n'"
    if "(o', n') \<in> set ?zs" for o' n'
  proof -
    have "length c = 8" if "c \<in> set (chunks_exact 8 xs)" for c and xs :: "u8 list"
      using that by (auto simp: chunks_exact_def)
    with that have "length o' = 8" "length n' = 8"
      by (meson set_zip_leftD set_zip_rightD)+
    then show ?thesis by (simp add: u64_from_ne_bytes_def le_word_inject)
  qed
  then have words: "(\<forall>(o', n') \<in> set ?zs. u64_from_ne_bytes big o' = u64_from_ne_bytes big n') \<longleftrightarrow>
      (\<forall>(o', n') \<in> set ?zs. o' = n')" by fastforce
  have len: "length (chunks_exact 8 old) = length (chunks_exact 8 new)"
    "length (chunks_remainder 8 old) = length (chunks_remainder 8 new)"
    using True by (simp_all add: chunks_exact_def chunks_remainder_def)
  have "equal_buffer_chunk big old new \<longleftrightarrow>
      chunks_exact 8 old = chunks_exact 8 new \<and> chunks_remainder 8 old = chunks_remainder 8 new"
    unfolding equal_buffer_chunk_def Let_def fold_difference words list_all_iff
    using True len by (simp add: zip_all_eq)
  also have "\<dots> \<longleftrightarrow> old = new" using chunks_exact_concat [of 8] by metis
  finally show ?thesis .
qed (auto simp: equal_buffer_chunk_def)

section \<open>The chunk loops\<close>

lemma scan_chunks_eq:
  assumes common: "\<And>a b. common (f a) (f b) = common_prefix_len a b"
    and f: "inj f" "\<And>a. length (f a) = length a"
  shows "length xs = length ys \<Longrightarrow> 0 < k \<Longrightarrow>
    scan_chunks big common (zip (map f (chunks k xs)) (map f (chunks k ys))) acc =
      acc + common_prefix_len xs ys"
proof (induction k xs arbitrary: ys acc rule: chunks.induct)
  case (1 k xs)
  show ?case
  proof (cases "xs = []")
    case True
    with 1 show ?thesis by (simp add: chunks.simps [of k "[]"])
  next
    case False
    then have ys: "ys \<noteq> []" and k: "k \<noteq> 0" using 1 by auto
    have len: "length (take k xs) = length (take k ys)" "length (drop k xs) = length (drop k ys)"
      using "1.prems" by simp_all
    have split: "common_prefix_len xs ys =
        (if take k xs = take k ys then length (take k xs) + common_prefix_len (drop k xs) (drop k ys)
         else common_prefix_len (take k xs) (take k ys))"
      using common_prefix_len_append [OF len(1), of "drop k xs" "drop k ys"] by simp
    have "f (take k xs) = f (take k ys) \<longleftrightarrow> take k xs = take k ys"
      using f(1) by (auto dest: injD)
    then show ?thesis
      using "1.IH" [OF _ len(2) "1.prems"(2), of "acc + length (take k xs)"] False ys k split f(2) common
        "1.prems"(1)
      by (simp add: chunks.simps [of k xs] chunks.simps [of k ys] equal_buffer_chunk_eq)
  qed
qed

lemma prefix_scan:
  assumes "length xs = length ys" and "0 < k"
  shows "scan_chunks big common_buffer_prefix (zip (chunks k xs) (chunks k ys)) acc =
    acc + common_prefix_len xs ys"
  using scan_chunks_eq [of common_buffer_prefix "\<lambda>x. x", OF _ _ _ assms, of big acc]
  by (simp add: common_buffer_prefix_eq inj_def)

lemma suffix_scan:
  assumes "length xs = length ys" and "0 < k"
  shows "scan_chunks big common_buffer_suffix (zip (rchunks k xs) (rchunks k ys)) acc =
    acc + common_prefix_len (rev xs) (rev ys)"
  using scan_chunks_eq [of common_buffer_suffix rev "rev xs" "rev ys" k big acc] assms
  by (simp add: common_buffer_suffix_eq rchunks_def)

section \<open>The range in terms of the two common lengths\<close>

definition old_part :: "u8 list \<Rightarrow> usize \<Rightarrow> u8 list" where
  "old_part prev start = (if start \<le> length prev then drop start prev else [])"

definition same_head :: "u8 list \<Rightarrow> usize \<Rightarrow> u8 list \<Rightarrow> nat" where
  "same_head prev start data = common_prefix_len (old_part prev start) data"

definition same_tail :: "u8 list \<Rightarrow> usize \<Rightarrow> u8 list \<Rightarrow> nat" where
  "same_tail prev start data =
     (if length data \<le> length (old_part prev start)
      then common_prefix_len
        (rev (drop (same_head prev start data) (take (length data) (old_part prev start))))
        (rev (drop (same_head prev start data) data))
      else 0)"

lemma changed_buffer_bytes_eq:
  assumes fits: "start + length data < usize_limit"
  shows "changed_buffer_bytes big (Some prev) start data =
    Inr (min (start + same_head prev start data) (length prev),
         start + length data - same_tail prev start data)"
proof -
  let ?old = "old_part prev start" and ?p = "same_head prev start data"
    and ?s = "same_tail prev start data"
  let ?n = "min (length ?old) (length data)"
  have prefix: "scan_chunks big common_buffer_prefix
      (zip (chunks 4096 (take ?n ?old)) (chunks 4096 (take ?n data))) 0 = ?p"
    using prefix_scan [of "take ?n ?old" "take ?n data" 4096 big 0] common_prefix_len_take [of ?old data]
    by (simp add: same_head_def)
  have "scan_chunks big common_buffer_suffix
      (zip (rchunks 4096 (sub_slice ?old ?p (length data))) (rchunks 4096 (drop ?p data))) 0 = ?s"
    if "length data \<le> length ?old"
    using that suffix_scan [of "drop ?p (take (length data) ?old)" "drop ?p data" 4096 big 0]
    by (simp add: sub_slice_def drop_take same_tail_def)
  then have suffix: "(if length data \<le> length ?old
      then scan_chunks big common_buffer_suffix
        (zip (rchunks 4096 (sub_slice ?old ?p (length data))) (rchunks 4096 (drop ?p data))) 0
      else 0) = ?s"
    by (simp add: same_tail_def)
  show ?thesis
    unfolding changed_buffer_bytes_def using fits
    by (simp only: usize_checked_add_def if_True ok_or_simps and_then.simps option.case Let_def
        prefix suffix flip: old_part_def)
qed

lemma suffix_agrees:
  assumes len: "length xs = length ys"
  defines "s \<equiv> common_prefix_len (rev xs) (rev ys)"
  shows "s \<le> length xs"
    and "length xs - s \<le> i \<Longrightarrow> i < length xs \<Longrightarrow> xs ! i = ys ! i"
    and "s < length xs \<Longrightarrow> xs ! (length xs - Suc s) \<noteq> ys ! (length xs - Suc s)"
proof -
  show "s \<le> length xs" using common_prefix_len_le(1) [of "rev xs" "rev ys"] by (simp add: s_def)
  assume i: "length xs - s \<le> i" "i < length xs"
  then have "length xs - Suc i < s" by linarith
  from common_prefix_len_agrees [OF this [unfolded s_def]] show "xs ! i = ys ! i"
    using i len by (simp add: rev_nth)
next
  assume "s < length xs"
  then show "xs ! (length xs - Suc s) \<noteq> ys ! (length xs - Suc s)"
    using common_prefix_len_differs [of "rev xs" "rev ys"] len by (simp add: rev_nth flip: s_def)
qed

lemma old_part_nth: "i < length (old_part prev start) \<Longrightarrow> old_part prev start ! i = prev ! (start + i)"
  by (simp add: old_part_def split: if_splits)

lemma old_part_length:
  "i < length (old_part prev start) \<longleftrightarrow> start + i < length prev"
  by (auto simp: old_part_def)

lemma same_head_le:
  "same_head prev start data \<le> length (old_part prev start)"
  "same_head prev start data \<le> length data"
  unfolding same_head_def by (rule common_prefix_len_le)+

lemma same_head_nth:
  assumes "k < same_head prev start data"
  shows "start + k < length prev" and "prev ! (start + k) = data ! k"
proof -
  have k: "k < length (old_part prev start)" using assms same_head_le(1) by (rule less_le_trans)
  then show "start + k < length prev" by (simp add: old_part_length)
  show "prev ! (start + k) = data ! k"
    using common_prefix_len_agrees [OF assms [unfolded same_head_def]] old_part_nth [OF k] by simp
qed

lemma same_tail_le: "same_tail prev start data \<le> length data - same_head prev start data"
  using suffix_agrees(1) [of "drop (same_head prev start data) (take (length data) (old_part prev start))"
      "drop (same_head prev start data) data"]
  by (simp add: same_tail_def)

lemma same_tail_nth:
  assumes "length data - same_tail prev start data \<le> k" "k < length data"
    "same_head prev start data \<le> k"
  shows "start + k < length prev \<and> prev ! (start + k) = data ! k"
proof (cases "length data \<le> length (old_part prev start)")
  case True
  let ?p = "same_head prev start data"
  have "drop ?p (take (length data) (old_part prev start)) ! (k - ?p) = drop ?p data ! (k - ?p)"
    using True assms suffix_agrees(2) [of "drop ?p (take (length data) (old_part prev start))"
        "drop ?p data" "k - ?p"]
    by (simp add: same_tail_def)
  then have "old_part prev start ! k = data ! k" and "k < length (old_part prev start)"
    using True assms by simp_all
  then show ?thesis by (simp add: old_part_nth old_part_length)
next
  case False
  with assms show ?thesis by (simp add: same_tail_def)
qed

lemma same_tail_differs:
  assumes long: "length data \<le> length (old_part prev start)"
    and s: "same_tail prev start data < length data - same_head prev start data"
  shows "prev ! (start + (length data - Suc (same_tail prev start data))) \<noteq>
    data ! (length data - Suc (same_tail prev start data))"
proof -
  let ?p = "same_head prev start data" and ?s = "same_tail prev start data"
  let ?x = "drop ?p (take (length data) (old_part prev start))" and ?y = "drop ?p data"
  have len: "length ?x = length ?y" and s_eq: "?s = common_prefix_len (rev ?x) (rev ?y)"
    using long by (simp_all add: same_tail_def)
  have "?x ! (length ?x - Suc ?s) \<noteq> ?y ! (length ?x - Suc ?s)"
    unfolding s_eq using suffix_agrees(3) [OF len] s len by (simp flip: s_eq)
  moreover have "?p + (length data - ?p - Suc ?s) = length data - Suc ?s" using s by linarith
  ultimately have "old_part prev start ! (length data - Suc ?s) \<noteq> data ! (length data - Suc ?s)"
    using long s by simp
  then show ?thesis using long s by (simp add: old_part_nth)
qed

text \<open>The contents of a buffer after a write that may extend it.\<close>

definition written :: "u8 list \<Rightarrow> usize \<Rightarrow> u8 list \<Rightarrow> u8 list" where
  "written prev start data =
     overwrite_at (prev @ replicate (start + length data - length prev) 0) start data"

lemma nth_written:
  "i < max (length prev) (start + length data) \<Longrightarrow>
   written prev start data ! i =
     (if start \<le> i \<and> i < start + length data then data ! (i - start)
      else if i < length prev then prev ! i else 0)"
  unfolding written_def by (subst nth_overwrite_at) (auto simp: nth_append)

lemma nth_written_data: "k < length data \<Longrightarrow> written prev start data ! (start + k) = data ! k"
  by (simp add: nth_written)

lemma length_written [simp]:
  "length (written prev start data) = max (length prev) (start + length data)"
  unfolding written_def by (subst length_overwrite_at) auto

lemma unchanged_outside:
  assumes i: "i < length (written prev start data)"
    and out: "\<not> in_range i (min (start + same_head prev start data) (length prev),
                start + length data - same_tail prev start data)"
  shows "i < length prev \<and> written prev start data ! i = prev ! i"
proof (cases "start \<le> i \<and> i < start + length data")
  case True
  then have k: "i = start + (i - start)" "i - start < length data" by auto
  have w: "written prev start data ! i = data ! (i - start)"
    using i True by (subst nth_written) auto
  have "i - start < same_head prev start data \<or>
      same_head prev start data \<le> i - start \<and> length data - same_tail prev start data \<le> i - start"
    using out True by (auto simp: in_range_def)
  then have "start + (i - start) < length prev \<and> prev ! (start + (i - start)) = data ! (i - start)"
    using same_head_nth same_tail_nth [OF _ k(2)] by blast
  with w True show ?thesis by simp
next
  case False
  have "i < length prev \<or> start + length data - same_tail prev start data \<le> i"
    using out by (auto simp: in_range_def)
  moreover have "same_tail prev start data = 0 \<or> start + length data \<le> length prev"
    by (auto simp: same_tail_def old_part_def)
  ultimately have "i < length prev" using False i by auto
  with False i show ?thesis by (subst nth_written) auto
qed

lemma changed_at_both_ends:
  assumes lt: "min (start + same_head prev start data) (length prev) <
      start + length data - same_tail prev start data"
    and inside: "start + length data - same_tail prev start data \<le> length prev"
  shows "written prev start data ! min (start + same_head prev start data) (length prev) \<noteq>
      prev ! min (start + same_head prev start data) (length prev)"
    and "written prev start data ! (start + length data - same_tail prev start data - 1) \<noteq>
      prev ! (start + length data - same_tail prev start data - 1)"
proof -
  let ?p = "same_head prev start data" and ?s = "same_tail prev start data"
  have p: "start + ?p < length prev" and room: "?s < length data - ?p"
    using lt inside by linarith+
  have long: "length data \<le> length (old_part prev start)"
  proof (rule ccontr)
    assume "\<not> ?thesis"
    then have "?s = 0" by (simp add: same_tail_def)
    with \<open>\<not> ?thesis\<close> inside p show False by (simp add: old_part_def split: if_splits)
  qed
  have "old_part prev start ! ?p \<noteq> data ! ?p"
    using common_prefix_len_differs [of "old_part prev start" data] p room
    by (simp add: old_part_length flip: same_head_def)
  then have "prev ! (start + ?p) \<noteq> data ! ?p"
    using p by (simp add: old_part_nth old_part_length)
  then show "written prev start data ! min (start + ?p) (length prev) \<noteq>
      prev ! min (start + ?p) (length prev)"
    using p room by (simp add: nth_written_data min_absorb1)
  have last: "start + length data - ?s - 1 = start + (length data - Suc ?s)" using room by linarith
  show "written prev start data ! (start + length data - ?s - 1) \<noteq>
      prev ! (start + length data - ?s - 1)"
    unfolding last using same_tail_differs [OF long room] room
    by (subst nth_written_data) simp_all
qed

section \<open>Properties\<close>

text \<open>
  C6. The changed range is complete and tight. Outside it the written buffer equals the previous
  one byte for byte, and when it lies inside the previous buffer both of its end bytes differ, so
  it cannot be narrowed. The only error is an end past the address space.
\<close>

theorem changed_range_complete_and_tight:
  "(case changed_buffer_bytes big (Some prev) start data of
      Inl e \<Rightarrow> e = Overflow \<and> usize_limit \<le> start + length data
    | Inr r \<Rightarrow>
        (\<forall>i < length (written prev start data). \<not> in_range i r \<longrightarrow>
            i < length prev \<and> written prev start data ! i = prev ! i) \<and>
        (fst r < snd r \<and> snd r \<le> length prev \<longrightarrow>
            written prev start data ! fst r \<noteq> prev ! fst r \<and>
            written prev start data ! (snd r - 1) \<noteq> prev ! (snd r - 1)))"
proof (cases "start + length data < usize_limit")
  case False
  then show ?thesis by (simp add: changed_buffer_bytes_def usize_checked_add_def not_less)
next
  case True
  show ?thesis
    unfolding changed_buffer_bytes_eq [OF True] sum.case fst_conv snd_conv
    using unchanged_outside changed_at_both_ends by blast
qed

text \<open>The word-sized examples of the module's tests, on which the theorem is not vacuous.\<close>

theorem changed_range_complete_and_tight_witness:
  "changed_buffer_bytes False (Some [1, 2, 3, 4]) 1 [2, 9, 4] = Inr (2, 3) \<and>
   written [1, 2, 3, 4] 1 [2, 9, 4] ! 2 \<noteq> [1, 2, 3, 4] ! 2"
proof -
  have r: "changed_buffer_bytes False (Some [1, 2, 3, 4]) 1 [2, 9, 4] = Inr (2, 3)"
    by (simp add: changed_buffer_bytes_eq usize_limit_def same_head_def same_tail_def old_part_def)
  with changed_range_complete_and_tight 
    [where big = False and prev = "[1, 2, 3, 4]" and start = 1 and data = "[2, 9, 4]"]
  show ?thesis by simp
qed

end
