(* ===== verification/Packet_Stream.thy ===== *)
theory Packet_Stream
  imports Prelude
begin

text \<open>
  \<^verbatim>\<open>crates/sgfx-core/src/backend/support/packets.rs\<close>: batching encoded commands into native chunks
  and giving each chunk its own vertex staging arena.

  The constant parameters \<open>MAX_STREAM_BYTES\<close> and \<open>UPLOAD_ARENA_COUNT\<close> are the arguments \<open>max_stream\<close>
  and \<open>arenas\<close>. The allocator answers per reservation. The abstract view of a stream is the
  sequence of bytes it has accepted, \<open>emitted\<close>.
\<close>

section \<open>State and operations\<close>

datatype packet_error = PacketTooLarge | PacketOutOfMemory

record chunk =
  chunk_bytes :: "u8 list"
  chunk_arena :: "usize option"

record packets =
  pk_chunks :: "chunk list"
  pk_current :: chunk
  pk_upload_offset :: u32
  pk_bytes :: usize
  pk_limit :: usize

datatype packet_site = ReserveBytes usize | ReserveChunk

type_synonym packet_alloc = "packet_site \<Rightarrow> bool"

definition empty_chunk :: chunk where
  "empty_chunk = \<lparr>chunk_bytes = [], chunk_arena = None\<rparr>"

definition packets_new :: "usize \<Rightarrow> packets" where
  "packets_new limit =
     \<lparr>pk_chunks = [], pk_current = empty_chunk, pk_upload_offset = 0, pk_bytes = 0, pk_limit = limit\<rparr>"

definition finish_chunk :: "packet_alloc \<Rightarrow> packets \<Rightarrow> (packet_error + unit) \<times> packets" where
  "finish_chunk alloc p =
     (if \<not> alloc ReserveChunk then (Inl PacketOutOfMemory, p)
      else (Inr (), p\<lparr>pk_chunks := pk_chunks p @ [pk_current p], pk_current := empty_chunk,
                      pk_upload_offset := 0\<rparr>))"

definition packets_prepare ::
    "packet_alloc \<Rightarrow> packets \<Rightarrow> usize \<Rightarrow> (packet_error + unit) \<times> packets"
where
  "packets_prepare alloc p maximum =
     (if maximum > pk_limit p then (Inl PacketTooLarge, p)
      else if usize_saturating_add (length (chunk_bytes (pk_current p))) maximum > pk_limit p
           then finish_chunk alloc p
           else (Inr (), p))"

definition upload_range ::
    "nat \<Rightarrow> packets \<Rightarrow> u32 \<Rightarrow> (packet_error + usize \<times> u32) \<times> packets"
where
  "upload_range arenas p len =
     (let start = pk_upload_offset p
      in case checked_add start len of
           None \<Rightarrow> (Inl PacketTooLarge, p)
         | Some stop \<Rightarrow>
             if unat stop \<le> pk_limit p
             then let arena = length (pk_chunks p) mod arenas
                  in (Inr (arena, start),
                      p\<lparr>pk_current := (pk_current p)\<lparr>chunk_arena := Some arena\<rparr>,
                        pk_upload_offset := stop\<rparr>)
             else (Inl PacketTooLarge, p))"

definition prepare_append ::
    "packet_alloc \<Rightarrow> nat \<Rightarrow> packets \<Rightarrow> usize \<Rightarrow> (packet_error + usize) \<times> packets"
where
  "prepare_append alloc max_stream p len =
     (case usize_checked_add (pk_bytes p) len of
        None \<Rightarrow> (Inl PacketTooLarge, p)
      | Some bytes \<Rightarrow>
          if bytes \<le> max_stream
          then then_do (packets_prepare alloc p len) (\<lambda>_ p'. (Inr bytes, p'))
          else (Inl PacketTooLarge, p))"

definition packets_append ::
    "packet_alloc \<Rightarrow> nat \<Rightarrow> packets \<Rightarrow> u8 list \<Rightarrow> (packet_error + unit) \<times> packets"
where
  "packets_append alloc max_stream p commands =
     then_do (prepare_append alloc max_stream p (length commands)) (\<lambda>bytes p'.
       if \<not> alloc (ReserveBytes (length commands)) then (Inl PacketOutOfMemory, p')
       else (Inr (), p'\<lparr>pk_current := (pk_current p')\<lparr>chunk_bytes :=
                           chunk_bytes (pk_current p') @ commands\<rparr>,
                        pk_bytes := bytes\<rparr>))"

text \<open>The second component of the state is the caller's buffer, taken when a chunk starts.\<close>

definition append_owned ::
    "packet_alloc \<Rightarrow> nat \<Rightarrow> packets \<Rightarrow> u8 list \<Rightarrow> (packet_error + unit) \<times> packets \<times> u8 list"
where
  "append_owned alloc max_stream p commands =
     (case prepare_append alloc max_stream p (length commands) of
        (Inl e, p') \<Rightarrow> (Inl e, p', commands)
      | (Inr bytes, p') \<Rightarrow>
          if chunk_bytes (pk_current p') = []
          then (Inr (), p'\<lparr>pk_current := (pk_current p')\<lparr>chunk_bytes := commands\<rparr>,
                          pk_bytes := bytes\<rparr>, [])
          else case packets_append alloc max_stream p' commands of
                 (res, p'') \<Rightarrow> (res, p'', commands))"

definition packets_finish :: "packet_alloc \<Rightarrow> packets \<Rightarrow> packet_error + chunk list" where
  "packets_finish alloc p =
     (if chunk_bytes (pk_current p) \<noteq> [] \<or> pk_chunks p = []
      then case finish_chunk alloc p of
             (Inl e, _) \<Rightarrow> Inl e
           | (Inr _, p') \<Rightarrow> Inr (pk_chunks p')
      else Inr (pk_chunks p))"

section \<open>The invariant of a stream\<close>

definition emitted :: "packets \<Rightarrow> u8 list" where
  "emitted p = concat (map chunk_bytes (pk_chunks p)) @ chunk_bytes (pk_current p)"

definition pk_inv :: "nat \<Rightarrow> nat \<Rightarrow> packets \<Rightarrow> bool" where
  "pk_inv max_stream arenas p \<longleftrightarrow>
     pk_limit p < usize_limit - 1 \<and>
     pk_bytes p = length (emitted p) \<and> pk_bytes p \<le> max_stream \<and>
     length (chunk_bytes (pk_current p)) \<le> pk_limit p \<and>
     (\<forall>c \<in> set (pk_chunks p). chunk_bytes c \<noteq> [] \<and> length (chunk_bytes c) \<le> pk_limit p) \<and>
     unat (pk_upload_offset p) \<le> pk_limit p \<and>
     (\<forall>a. chunk_arena (pk_current p) = Some a \<longrightarrow> a = length (pk_chunks p) mod arenas) \<and>
     (\<forall>i < length (pk_chunks p). \<forall>a. chunk_arena (pk_chunks p ! i) = Some a \<longrightarrow> a = i mod arenas)"

lemmas packet_defs =
  finish_chunk_def packets_prepare_def upload_range_def prepare_append_def packets_append_def
  append_owned_def empty_chunk_def

lemma packets_new_inv: "limit < usize_limit - 1 \<Longrightarrow> pk_inv max_stream arenas (packets_new limit)"
  by (simp add: pk_inv_def packets_new_def empty_chunk_def emitted_def)

text \<open>What each step may do to the chunks, in the cases the callers distinguish.\<close>

lemma saturating_gt:
  "limit < usize_limit - 1 \<Longrightarrow> limit < usize_saturating_add a b \<longleftrightarrow> limit < a + b"
  by (auto simp: usize_saturating_add_def)

definition rotated :: "packets \<Rightarrow> packets" where
  "rotated p = p\<lparr>pk_chunks := pk_chunks p @ [pk_current p], pk_current := empty_chunk,
                 pk_upload_offset := 0\<rparr>"

lemma rotated_simps [simp]:
  "pk_chunks (rotated p) = pk_chunks p @ [pk_current p]" "pk_current (rotated p) = empty_chunk"
  "pk_upload_offset (rotated p) = 0" "pk_bytes (rotated p) = pk_bytes p"
  "pk_limit (rotated p) = pk_limit p" "emitted (rotated p) = emitted p"
  by (simp_all add: rotated_def emitted_def empty_chunk_def)

lemma empty_chunk_simps [simp]: "chunk_bytes empty_chunk = []" "chunk_arena empty_chunk = None"
  by (simp_all add: empty_chunk_def)

lemma finish_chunk_eq:
  "finish_chunk alloc p =
     (if alloc ReserveChunk then (Inr (), rotated p) else (Inl PacketOutOfMemory, p))"
  by (simp add: finish_chunk_def rotated_def)

lemma rotated_inv:
  "pk_inv max_stream arenas p \<Longrightarrow> chunk_bytes (pk_current p) \<noteq> [] \<Longrightarrow>
   pk_inv max_stream arenas (rotated p)"
  by (auto simp: pk_inv_def nth_append less_Suc_eq)

text \<open>\<open>prepare\<close> keeps the stream or rotates a nonempty chunk, and then there is room.\<close>

lemma packets_prepare_cases:
  assumes inv: "pk_inv max_stream arenas p" and prep: "packets_prepare alloc p len = (res, p')"
  shows "(res = Inr () \<longrightarrow> length (chunk_bytes (pk_current p')) + len \<le> pk_limit p') \<and>
    (p' = p \<or> p' = rotated p \<and> chunk_bytes (pk_current p) \<noteq> [])"
proof -
  have "chunk_bytes (pk_current p) \<noteq> []" if "length (chunk_bytes (pk_current p)) + len > pk_limit p"
    "len \<le> pk_limit p"
    using that by auto
  then show ?thesis
    using prep inv [unfolded pk_inv_def, THEN conjunct1]
    by (auto simp: packets_prepare_def finish_chunk_eq saturating_gt not_less split: if_splits)
qed

lemma prepare_append_cases:
  assumes inv: "pk_inv max_stream arenas p"
    and step: "prepare_append alloc max_stream p len = (res, p')"
  shows "(p' = p \<or> p' = rotated p \<and> chunk_bytes (pk_current p) \<noteq> []) \<and>
    (\<forall>bytes. res = Inr bytes \<longrightarrow> bytes = pk_bytes p + len \<and> bytes \<le> max_stream \<and>
       length (chunk_bytes (pk_current p')) + len \<le> pk_limit p')"
proof (cases "usize_checked_add (pk_bytes p) len")
  case (Some bytes)
  obtain r q where q: "packets_prepare alloc p len = (r, q)" by fastforce
  from packets_prepare_cases [OF inv this] show ?thesis
    using step Some q
    by (cases r) (auto simp: prepare_append_def usize_checked_add_Some split: if_splits)
qed (use step in \<open>auto simp: prepare_append_def\<close>)

lemma after_prepare_append:
  assumes inv: "pk_inv max_stream arenas p"
    and step: "prepare_append alloc max_stream p len = (res, p')"
  shows "pk_inv max_stream arenas p'" and "emitted p' = emitted p" and "pk_bytes p' = pk_bytes p"
  using prepare_append_cases [OF inv step] inv rotated_inv [OF inv] by auto

definition extended :: "packets \<Rightarrow> u8 list \<Rightarrow> usize \<Rightarrow> packets" where
  "extended p commands bytes =
     p\<lparr>pk_current := (pk_current p)\<lparr>chunk_bytes := chunk_bytes (pk_current p) @ commands\<rparr>,
       pk_bytes := bytes\<rparr>"

lemma emitted_extended [simp]: "emitted (extended p commands bytes) = emitted p @ commands"
  by (simp add: extended_def emitted_def)

lemma extended_ends: "\<exists>before. chunk_bytes (pk_current (extended p commands bytes)) = before @ commands"
  by (simp add: extended_def)

lemma extended_inv:
  "pk_inv max_stream arenas p \<Longrightarrow> bytes = pk_bytes p + length commands \<Longrightarrow> bytes \<le> max_stream \<Longrightarrow>
   length (chunk_bytes (pk_current p)) + length commands \<le> pk_limit p \<Longrightarrow>
   pk_inv max_stream arenas (extended p commands bytes)"
  by (auto simp: pk_inv_def extended_def emitted_def)

lemma packets_append_cases:
  assumes inv: "pk_inv max_stream arenas p"
    and step: "packets_append alloc max_stream p commands = (res, p')"
  shows "pk_inv max_stream arenas p' \<and>
    (case res of Inl e \<Rightarrow> emitted p' = emitted p
     | Inr _ \<Rightarrow> emitted p' = emitted p @ commands \<and>
         (\<exists>before. chunk_bytes (pk_current p') = before @ commands))"
proof -
  obtain r q where q: "prepare_append alloc max_stream p (length commands) = (r, q)" by fastforce
  note q_cases = prepare_append_cases [OF inv q] and after = after_prepare_append [OF inv q]
  show ?thesis
  proof (cases r)
    case (Inl e)
    with step q after show ?thesis by (auto simp: packets_append_def)
  next
    case (Inr bytes)
    then have ext: "pk_inv max_stream arenas (extended q commands bytes)"
      using q_cases after by (intro extended_inv) auto
    show ?thesis
    proof (cases "alloc (ReserveBytes (length commands))")
      case True
      then have "res = Inr () \<and> p' = extended q commands bytes"
        using step q Inr by (simp add: packets_append_def extended_def)
      with ext after extended_ends [of q] show ?thesis by auto
    next
      case False
      then show ?thesis using step q Inr after by (auto simp: packets_append_def)
    qed
  qed
qed

lemma append_owned_cases:
  assumes inv: "pk_inv max_stream arenas p"
    and step: "append_owned alloc max_stream p commands = (res, p', rest)"
  shows "pk_inv max_stream arenas p' \<and>
    (case res of Inl e \<Rightarrow> emitted p' = emitted p \<and> rest = commands
     | Inr _ \<Rightarrow> emitted p' = emitted p @ commands \<and>
         (\<exists>before. chunk_bytes (pk_current p') = before @ commands))"
proof -
  obtain r q where q: "prepare_append alloc max_stream p (length commands) = (r, q)" by fastforce
  note q_cases = prepare_append_cases [OF inv q] and after = after_prepare_append [OF inv q]
  show ?thesis
  proof (cases r)
    case (Inl e)
    with step q after show ?thesis by (auto simp: append_owned_def)
  next
    case (Inr bytes)
    show ?thesis
    proof (cases "chunk_bytes (pk_current q) = []")
      case True
      then have p': "res = Inr ()" "p' = extended q commands bytes"
        using step q Inr by (simp_all add: append_owned_def extended_def)
      moreover have "pk_inv max_stream arenas (extended q commands bytes)"
        using q_cases after Inr by (intro extended_inv) auto
      ultimately show ?thesis
        using after extended_ends [of q] by auto
    next
      case False
      obtain r' q' where q': "packets_append alloc max_stream q commands = (r', q')" by fastforce
      then have "res = r' \<and> p' = q' \<and> rest = commands"
        using step q Inr False by (simp add: append_owned_def)
      with packets_append_cases [OF after(1) q'] after show ?thesis by (simp split: sum.splits)
    qed
  qed
qed

lemma packets_prepare_keeps:
  assumes "pk_inv max_stream arenas p" and "packets_prepare alloc p len = (res, p')"
  shows "pk_inv max_stream arenas p' \<and> emitted p' = emitted p"
  using packets_prepare_cases [OF assms] rotated_inv [OF assms(1)] assms(1) by auto

lemma upload_range_keeps:
  assumes "pk_inv max_stream arenas p" and "upload_range arenas p len = (res, p')"
  shows "pk_inv max_stream arenas p' \<and> emitted p' = emitted p"
  using assms
  by (auto simp: upload_range_def Let_def pk_inv_def emitted_def split: option.splits if_splits)

section \<open>The interface: a sink of encoded packets\<close>

text \<open>
  The encoder relies on a sink that appends the whole packet or nothing. Every attempt comes with
  what the environment answers during it.
\<close>

fun run_puts ::
    "('env \<Rightarrow> 's \<Rightarrow> 'b list \<Rightarrow> ('e + unit) \<times> 's) \<Rightarrow> 's \<Rightarrow> ('env \<times> 'b list) list \<Rightarrow> 'b list \<times> 's"
where
  "run_puts put s [] = ([], s)"
| "run_puts put s ((env, c) # rest) =
     (case put env s c of
        (Inl _, s') \<Rightarrow> run_puts put s' rest
      | (Inr _, s') \<Rightarrow> (c @ fst (run_puts put s' rest), snd (run_puts put s' rest)))"

locale packet_sink =
  fixes put :: "'env \<Rightarrow> 's \<Rightarrow> 'b list \<Rightarrow> ('e + unit) \<times> 's"
    and contents :: "'s \<Rightarrow> 'b list"
    and valid :: "'s \<Rightarrow> bool"
  assumes put_valid: "valid s \<Longrightarrow> put env s c = (res, s') \<Longrightarrow> valid s'"
    and put_whole: "valid s \<Longrightarrow> put env s c = (Inr u, s') \<Longrightarrow> contents s' = contents s @ c"
    and put_nothing: "valid s \<Longrightarrow> put env s c = (Inl e, s') \<Longrightarrow> contents s' = contents s"
begin

lemma puts_accept:
  "valid s \<Longrightarrow> valid (snd (run_puts put s ops)) \<and>
     contents (snd (run_puts put s ops)) = contents s @ fst (run_puts put s ops)"
proof (induction ops arbitrary: s)
  case (Cons op ops)
  obtain env c where op: "op = (env, c)" by (cases op)
  obtain res s' where step: "put env s c = (res, s')" by (cases "put env s c")
  have "valid s'" using Cons.prems step by (rule put_valid)
  then show ?case
    using Cons.IH [of s'] put_whole [OF Cons.prems, of env c _ s']
      put_nothing [OF Cons.prems, of env c _ s'] op step
    by (cases res) auto
qed simp

end

interpretation ap: packet_sink
    "\<lambda>alloc p c. packets_append alloc max_stream p c" emitted "pk_inv max_stream arenas"
  for max_stream arenas
  by standard (auto dest: packets_append_cases)

definition put_owned ::
    "nat \<Rightarrow> packet_alloc \<Rightarrow> packets \<Rightarrow> u8 list \<Rightarrow> (packet_error + unit) \<times> packets"
where
  "put_owned max_stream alloc p c =
     (case append_owned alloc max_stream p c of (res, p', _) \<Rightarrow> (res, p'))"

interpretation ao: packet_sink "put_owned max_stream" emitted "pk_inv max_stream arenas"
  for max_stream arenas
  by standard (auto simp: put_owned_def dest: append_owned_cases split: prod.splits)

section \<open>Histories of a stream\<close>

datatype packet_op =
    Prepare usize
  | Upload u32
  | Append "u8 list"
  | AppendOwned "u8 list"

text \<open>An upload is recorded as its chunk, its arena, its start and its length.\<close>

record packet_log =
  log_bytes :: "u8 list"
  log_uploads :: "(nat \<times> nat \<times> nat \<times> nat) list"

fun packet_step ::
    "nat \<Rightarrow> nat \<Rightarrow> packet_alloc \<times> packet_op \<Rightarrow> packets \<times> packet_log \<Rightarrow> packets \<times> packet_log"
where
  "packet_step max_stream arenas (alloc, Prepare n) (p, l) = (snd (packets_prepare alloc p n), l)"
| "packet_step max_stream arenas (alloc, Upload n) (p, l) =
     (case upload_range arenas p n of
        (Inl _, p') \<Rightarrow> (p', l)
      | (Inr (arena, start), p') \<Rightarrow>
          (p', l\<lparr>log_uploads := log_uploads l @ [(length (pk_chunks p'), arena, unat start, unat n)]\<rparr>))"
| "packet_step max_stream arenas (alloc, Append c) (p, l) =
     (case packets_append alloc max_stream p c of
        (Inl _, p') \<Rightarrow> (p', l) | (Inr _, p') \<Rightarrow> (p', l\<lparr>log_bytes := log_bytes l @ c\<rparr>))"
| "packet_step max_stream arenas (alloc, AppendOwned c) (p, l) =
     (case append_owned alloc max_stream p c of
        (Inl _, p', _) \<Rightarrow> (p', l) | (Inr _, p', _) \<Rightarrow> (p', l\<lparr>log_bytes := log_bytes l @ c\<rparr>))"

definition packet_run ::
    "nat \<Rightarrow> nat \<Rightarrow> usize \<Rightarrow> (packet_alloc \<times> packet_op) list \<Rightarrow> packets \<times> packet_log"
where
  "packet_run max_stream arenas limit ops =
     foldl (\<lambda>s op. packet_step max_stream arenas op s)
       (packets_new limit, \<lparr>log_bytes = [], log_uploads = []\<rparr>) ops"

definition disjoint_uploads :: "(nat \<times> nat \<times> nat \<times> nat) \<Rightarrow> (nat \<times> nat \<times> nat \<times> nat) \<Rightarrow> bool" where
  "disjoint_uploads u v \<longleftrightarrow>
     (case (u, v) of ((c, a, s, n), (c', a', s', n')) \<Rightarrow> c < c' \<or> c = c' \<and> a = a' \<and> s + n \<le> s')"

definition log_inv :: "nat \<Rightarrow> packets \<Rightarrow> packet_log \<Rightarrow> bool" where
  "log_inv arenas p l \<longleftrightarrow> log_bytes l = emitted p \<and>
     sorted_wrt disjoint_uploads (log_uploads l) \<and>
     (\<forall>(c, a, s, n) \<in> set (log_uploads l). a = c mod arenas \<and> s + n \<le> pk_limit p \<and>
        (c < length (pk_chunks p) \<or> c = length (pk_chunks p) \<and> s + n \<le> unat (pk_upload_offset p)))"

lemma log_inv_rotated:
  "log_inv arenas p l \<Longrightarrow> log_inv arenas (rotated p) l"
  by (fastforce simp: log_inv_def)

lemma log_inv_extended:
  "log_inv arenas p l \<Longrightarrow>
   log_inv arenas (extended p c bytes) (l\<lparr>log_bytes := log_bytes l @ c\<rparr>)"
  by (simp add: log_inv_def) (simp add: extended_def)

lemma packets_append_log:
  assumes inv: "pk_inv max_stream arenas p" and l: "log_inv arenas p l"
    and step: "packets_append alloc max_stream p c = (res, p')"
  shows "log_inv arenas p' (case res of Inl _ \<Rightarrow> l | Inr _ \<Rightarrow> l\<lparr>log_bytes := log_bytes l @ c\<rparr>)"
proof -
  obtain r q where q: "prepare_append alloc max_stream p (length c) = (r, q)" by fastforce
  have lq: "log_inv arenas q l"
    using prepare_append_cases [OF inv q] l log_inv_rotated [of arenas p l] by auto
  show ?thesis
  proof (cases r)
    case (Inl e)
    then show ?thesis using q step lq by (auto simp: packets_append_def)
  next
    case (Inr bytes)
    show ?thesis
    proof (cases "alloc (ReserveBytes (length c))")
      case True
      then have "res = Inr () \<and> p' = extended q c bytes"
        using step q Inr by (simp add: packets_append_def extended_def)
      with log_inv_extended [OF lq, of c bytes] show ?thesis by simp
    next
      case False
      then show ?thesis using q step Inr lq by (auto simp: packets_append_def)
    qed
  qed
qed

lemma append_owned_log:
  assumes inv: "pk_inv max_stream arenas p" and l: "log_inv arenas p l"
    and step: "append_owned alloc max_stream p c = (res, p', rest)"
  shows "log_inv arenas p' (case res of Inl _ \<Rightarrow> l | Inr _ \<Rightarrow> l\<lparr>log_bytes := log_bytes l @ c\<rparr>)"
proof -
  obtain r q where q: "prepare_append alloc max_stream p (length c) = (r, q)" by fastforce
  have lq: "log_inv arenas q l" and vq: "pk_inv max_stream arenas q"
    using prepare_append_cases [OF inv q] l log_inv_rotated [of arenas p l]
      after_prepare_append(1) [OF inv q] by auto
  show ?thesis
  proof (cases r)
    case (Inl e)
    with q step lq show ?thesis by (auto simp: append_owned_def)
  next
    case (Inr bytes)
    show ?thesis
    proof (cases "chunk_bytes (pk_current q) = []")
      case True
      then have "res = Inr () \<and> p' = extended q c bytes"
        using step q Inr by (simp add: append_owned_def extended_def)
      with log_inv_extended [OF lq, of c] show ?thesis by simp
    next
      case False
      obtain r' q' where q': "packets_append alloc max_stream q c = (r', q')" by fastforce
      then have "res = r' \<and> p' = q'"
        using step q Inr False by (simp add: append_owned_def)
      with packets_append_log [OF vq lq q'] show ?thesis by simp
    qed
  qed
qed

lemma upload_range_log:
  assumes l: "log_inv arenas p l" and step: "upload_range arenas p n = (res, p')"
  shows "log_inv arenas p' (case res of Inl _ \<Rightarrow> l | Inr (arena, start) \<Rightarrow>
    l\<lparr>log_uploads := log_uploads l @ [(length (pk_chunks p'), arena, unat start, unat n)]\<rparr>)"
proof (cases "\<exists>stop. checked_add (pk_upload_offset p) n = Some stop \<and> unat stop \<le> pk_limit p")
  case False
  then have "res = Inl PacketTooLarge \<and> p' = p"
    using step by (auto simp: upload_range_def Let_def split: option.splits if_splits)
  with l show ?thesis by simp
next
  case True
  let ?stop = "pk_upload_offset p + n"
  have stop: "checked_add (pk_upload_offset p) n = Some ?stop" "unat ?stop \<le> pk_limit p"
    and sum: "unat ?stop = unat (pk_upload_offset p) + unat n"
    using True by (auto simp: checked_add_Some)
  have p': "p' = p\<lparr>pk_current := (pk_current p)\<lparr>chunk_arena := Some (length (pk_chunks p) mod arenas)\<rparr>,
      pk_upload_offset := ?stop\<rparr>"
    and res: "res = Inr (length (pk_chunks p) mod arenas, pk_upload_offset p)"
    using step stop by (simp_all add: upload_range_def Let_def)
  have "\<forall>x \<in> set (log_uploads l).
      disjoint_uploads x (length (pk_chunks p), length (pk_chunks p) mod arenas,
        unat (pk_upload_offset p), unat n)"
    using l by (fastforce simp: log_inv_def disjoint_uploads_def)
  then show ?thesis
    using l stop(2) unfolding p' res log_inv_def
    by (auto simp: sorted_wrt_append emitted_def sum)
qed

lemma packet_step_inv:
  assumes "pk_inv max_stream arenas p" and "log_inv arenas p l"
    and "packet_step max_stream arenas op (p, l) = (p', l')"
  shows "pk_inv max_stream arenas p' \<and> log_inv arenas p' l'"
proof -
  obtain alloc k where op: "op = (alloc, k)" by (cases op)
  show ?thesis
  proof (cases k)
    case (Prepare n)
    obtain r q where q: "packets_prepare alloc p n = (r, q)" by fastforce
    with assms op Prepare show ?thesis
      using packets_prepare_keeps [OF assms(1) q] packets_prepare_cases [OF assms(1) q] log_inv_rotated
      by auto
  next
    case (Upload n)
    obtain r q where q: "upload_range arenas p n = (r, q)" by fastforce
    with assms op Upload show ?thesis
      using upload_range_keeps [OF assms(1) q] upload_range_log [OF assms(2) q]
      by (auto split: sum.splits)
  next
    case (Append c)
    obtain r q where q: "packets_append alloc max_stream p c = (r, q)" by fastforce
    with assms op Append show ?thesis
      using packets_append_cases [OF assms(1) q] packets_append_log [OF assms(1,2) q]
      by (auto split: sum.splits)
  next
    case (AppendOwned c)
    obtain r q rest where q: "append_owned alloc max_stream p c = (r, q, rest)" by (cases "append_owned alloc max_stream p c")
    with assms op AppendOwned show ?thesis
      using append_owned_cases [OF assms(1) q] append_owned_log [OF assms(1,2) q]
      by (auto split: sum.splits)
  qed
qed

lemma packet_run_inv:
  assumes "limit < usize_limit - 1" and "packet_run max_stream arenas limit ops = (p, l)"
  shows "pk_inv max_stream arenas p \<and> log_inv arenas p l"
  using assms(2) unfolding packet_run_def
proof (induction ops arbitrary: p l rule: rev_induct)
  case Nil
  then show ?case
    using packets_new_inv [OF assms(1)]
    by (auto simp: log_inv_def emitted_def packets_new_def)
next
  case (snoc op ops)
  obtain p1 l1 where before: "foldl (\<lambda>s op. packet_step max_stream arenas op s)
       (packets_new limit, \<lparr>log_bytes = [], log_uploads = []\<rparr>) ops = (p1, l1)"
    by fastforce
  then have "packet_step max_stream arenas op (p1, l1) = (p, l)"
    using snoc.prems by simp
  with snoc.IH [OF before] show ?case
    by (blast dest: packet_step_inv)
qed

lemma packets_prepare_room:
  "length (chunk_bytes (pk_current p)) + len \<le> pk_limit p \<Longrightarrow>
   packets_prepare alloc p len = (Inr (), p)"
  by (auto simp: packets_prepare_def usize_saturating_add_def)

lemma packets_append_room:
  assumes "length (chunk_bytes (pk_current p)) + length c \<le> pk_limit p"
    and "packets_append alloc max_stream p c = (Inr (), p')"
  shows "pk_chunks p' = pk_chunks p \<and> chunk_arena (pk_current p') = chunk_arena (pk_current p) \<and>
    chunk_bytes (pk_current p') = chunk_bytes (pk_current p) @ c"
  using assms
  by (auto simp: packets_append_def prepare_append_def packets_prepare_room
      split: option.splits if_splits)

section \<open>Properties\<close>

text \<open>
  C7. Whatever sequence of prepares, uploads and appends a stream sees, the finished chunks are a
  split of exactly the accepted bytes in order, within the stream budget, each chunk within the
  chunk limit and staged in the arena of its position; the staging ranges handed out within one
  chunk are disjoint and within the limit.
\<close>

theorem packet_history:
  assumes limit: "limit < usize_limit - 1"
    and run: "packet_run max_stream arenas limit ops = (p, l)"
    and fin: "packets_finish alloc p = Inr chunks"
  shows "concat (map chunk_bytes chunks) = log_bytes l \<and> length (log_bytes l) \<le> max_stream \<and>
    (\<forall>c \<in> set chunks. length (chunk_bytes c) \<le> pk_limit p) \<and>
    (\<forall>i < length chunks. \<forall>a. chunk_arena (chunks ! i) = Some a \<longrightarrow> a = i mod arenas) \<and>
    sorted_wrt disjoint_uploads (log_uploads l) \<and>
    (\<forall>(c, a, s, n) \<in> set (log_uploads l). a = c mod arenas \<and> s + n \<le> pk_limit p)"
proof -
  have inv: "pk_inv max_stream arenas p" and log: "log_inv arenas p l"
    using packet_run_inv [OF limit run] by simp_all
  have chunks: "chunks = pk_chunks p \<and> chunk_bytes (pk_current p) = [] \<or>
      chunks = pk_chunks p @ [pk_current p]"
    using fin by (auto simp: packets_finish_def finish_chunk_eq split: if_splits)
  have "concat (map chunk_bytes chunks) = emitted p"
    using chunks by (auto simp: emitted_def)
  moreover have "\<forall>c \<in> set chunks. length (chunk_bytes c) \<le> pk_limit p"
    using chunks inv by (auto simp: pk_inv_def)
  moreover have "\<forall>i < length chunks. \<forall>a. chunk_arena (chunks ! i) = Some a \<longrightarrow> a = i mod arenas"
    using chunks inv by (auto simp: pk_inv_def nth_append less_Suc_eq)
  ultimately show ?thesis
    using inv log by (auto simp: pk_inv_def log_inv_def)
qed

theorem packet_history_witness:
  "\<exists>p l chunks. packet_run 16 4 4 [(\<lambda>_. True, Append [1, 2, 3]), (\<lambda>_. True, AppendOwned [4, 5])] = (p, l) \<and>
     packets_finish (\<lambda>_. True) p = Inr chunks \<and> map chunk_bytes chunks = [[1, 2, 3], [4, 5]] \<and>
     concat (map chunk_bytes chunks) = log_bytes l"
proof -
  let ?ops = "[(\<lambda>_. True, Append [1, 2, 3]), (\<lambda>_. True, AppendOwned [4, 5])] :: (packet_alloc \<times> packet_op) list"
  obtain p l where run: "packet_run 16 4 4 ?ops = (p, l)" by fastforce
  then have "pk_chunks p = [\<lparr>chunk_bytes = [1, 2, 3], chunk_arena = None\<rparr>]"
    and "chunk_bytes (pk_current p) = [4, 5]"
    by (auto simp: packet_run_def packets_new_def packet_defs usize_checked_add_def
        usize_saturating_add_def usize_limit_def)
  then obtain chunks where fin: "packets_finish (\<lambda>_. True) p = Inr chunks"
    and bytes: "map chunk_bytes chunks = [[1, 2, 3], [4, 5]]"
    by (auto simp: packets_finish_def finish_chunk_def)
  have "concat (map chunk_bytes chunks) = log_bytes l"
    using packet_history [OF _ run fin] by (simp add: usize_limit_def)
  with run fin bytes show ?thesis
    by (intro exI [of _ p] exI [of _ l] exI [of _ chunks] conjI)
qed

text \<open>
  C8. After a successful \<open>prepare\<close> the next packet of at most that size cannot rotate the chunk, so
  the arena and offset its uploads chose belong to the chunk its commands end up in.
\<close>

theorem prepared_packet_keeps_its_arena:
  assumes inv: "pk_inv max_stream arenas p"
    and prep: "packets_prepare alloc p maximum = (Inr (), p1)"
    and up: "upload_range arenas p1 n = (Inr (arena, start), p2)"
    and app: "packets_append alloc' max_stream p2 commands = (Inr (), p3)"
    and size: "length commands \<le> maximum"
  shows "pk_chunks p3 = pk_chunks p1 \<and> arena = length (pk_chunks p3) mod arenas \<and>
    chunk_arena (pk_current p3) = Some arena \<and>
    chunk_bytes (pk_current p3) = chunk_bytes (pk_current p1) @ commands \<and>
    start = pk_upload_offset p1 \<and> unat start + unat n \<le> pk_limit p"
proof -
  have room: "length (chunk_bytes (pk_current p1)) + maximum \<le> pk_limit p1"
    and lim: "pk_limit p1 = pk_limit p"
    using packets_prepare_cases [OF inv prep] by auto
  have p2: "pk_chunks p2 = pk_chunks p1" "chunk_bytes (pk_current p2) = chunk_bytes (pk_current p1)"
      "chunk_arena (pk_current p2) = Some arena" "pk_limit p2 = pk_limit p1"
      "arena = length (pk_chunks p1) mod arenas" "start = pk_upload_offset p1"
      "unat start + unat n \<le> pk_limit p1"
    using up by (auto simp: upload_range_def Let_def checked_add_Some split: option.splits if_splits)
  have "length (chunk_bytes (pk_current p2)) + length commands \<le> pk_limit p2"
    using room size p2 by simp
  from packets_append_room [OF this app] show ?thesis
    using p2 lim by simp
qed

theorem prepared_packet_keeps_its_arena_witness:
  "\<exists>p3. packets_append (\<lambda>_. True) 16
      (snd (upload_range 4 (snd (packets_prepare (\<lambda>_. True) (packets_new 4) 3)) 2)) [1, 2] = (Inr (), p3) \<and>
    chunk_arena (pk_current p3) = Some 0"
proof -
  let ?p = "packets_new 4"
  let ?p2 = "?p\<lparr>pk_current := \<lparr>chunk_bytes = [], chunk_arena = Some 0\<rparr>, pk_upload_offset := 2\<rparr>"
  have inv: "pk_inv 16 4 ?p"
    by (rule packets_new_inv) (simp add: usize_limit_def)
  have prep: "packets_prepare (\<lambda>_. True) ?p 3 = (Inr (), ?p)"
    by (rule packets_prepare_room) (simp add: packets_new_def empty_chunk_def)
  have up: "upload_range 4 ?p 2 = (Inr (0, 0), ?p2)"
    by (simp add: upload_range_def packets_new_def checked_add_def empty_chunk_def)
  obtain p3 where app: "packets_append (\<lambda>_. True) 16 ?p2 [1, 2] = (Inr (), p3)"
    by (simp add: packets_append_def prepare_append_def usize_checked_add_def usize_limit_def
        packets_new_def packets_prepare_def usize_saturating_add_def)
  from prepared_packet_keeps_its_arena [OF inv prep up app] app prep up
  show ?thesis by simp
qed

end
