(* ===== verification/Job_Scheduler.thy ===== *)
theory Job_Scheduler
  imports Prelude
begin

text \<open>
  \<^verbatim>\<open>crates/sgfx-core/src/backend/support/scheduler.rs\<close>: bounded admission of jobs and their ordered
  dispatch to a transport.

  The \<open>Transport\<close> trait is not code of this module: it is a record of functions over an unknown
  world, the argument of every operation that calls it. To speak about the calls that were made,
  the theorems run the scheduler over \<open>recorded T\<close>, which behaves as \<open>T\<close>, tags every receipt with
  the number of the submission it stands for and keeps a trace.
\<close>

section \<open>Data\<close>

record limits =
  lim_submissions :: usize
  lim_pending_bytes :: usize
  lim_stream_bytes :: usize
  lim_in_flight :: usize

definition limits_valid :: "limits \<Rightarrow> bool" where
  "limits_valid l \<longleftrightarrow> lim_submissions l > 0 \<and> lim_pending_bytes l > 0 \<and>
     lim_stream_bytes l > 0 \<and> lim_in_flight l > 0"

datatype 'e dispatch_error = DispatchBusy | DispatchFailed 'e

datatype 'e admission_error = Busy | TooLarge | AdmissionOutOfMemory | Failed 'e

record ('w, 'c, 'o, 'r, 's, 'e) transport =
  t_size :: "'c \<Rightarrow> usize"
  t_ready :: "'w \<Rightarrow> 'c \<Rightarrow> ('e + bool) \<times> 'w"
  t_submit :: "'w \<Rightarrow> 'o \<Rightarrow> 'c \<Rightarrow> ('e dispatch_error + 'r) \<times> 'w"
  t_poll :: "'w \<Rightarrow> 'r \<Rightarrow> ('e + bool) \<times> 'w"
  t_complete :: "'w \<Rightarrow> 's \<Rightarrow> 'e + unit \<Rightarrow> 'w"

record ('c, 'o, 'r, 's) job =
  job_chunks :: "'c list"
  job_owner :: 'o
  job_signal :: 's
  job_next :: usize
  job_receipts :: "'r list"
  job_bytes :: usize

record ('c, 'o, 'r, 's, 'e) scheduler =
  sch_jobs :: "('c, 'o, 'r, 's) job list"
  sch_bytes :: usize
  sch_failure :: "'e option"
  sch_limits :: limits

datatype scheduler_site = ReserveReceipts usize | ReserveJobs usize

type_synonym scheduler_alloc = "scheduler_site \<Rightarrow> bool"

section \<open>Admission\<close>

fun sum_sizes :: "('c \<Rightarrow> usize) \<Rightarrow> 'c list \<Rightarrow> usize \<Rightarrow> usize option" where
  "sum_sizes sz [] acc = Some acc"
| "sum_sizes sz (c # cs) acc =
     (case usize_checked_add acc (sz c) of None \<Rightarrow> None | Some n \<Rightarrow> sum_sizes sz cs n)"

definition job_prepare ::
    "('c \<Rightarrow> usize) \<Rightarrow> scheduler_alloc \<Rightarrow> 'c list \<Rightarrow> 'o \<Rightarrow> 's \<Rightarrow> limits \<Rightarrow>
     'e admission_error + ('c, 'o, 'r, 's) job"
where
  "job_prepare sz alloc chunks owner signal limits =
     (case sum_sizes sz chunks 0 of
        None \<Rightarrow> Inl TooLarge
      | Some bytes \<Rightarrow>
          if bytes \<le> lim_stream_bytes limits
          then if alloc (ReserveReceipts (min (length chunks) (lim_in_flight limits)))
               then Inr \<lparr>job_chunks = chunks, job_owner = owner, job_signal = signal, job_next = 0,
                         job_receipts = [], job_bytes = bytes\<rparr>
               else Inl AdmissionOutOfMemory
          else Inl TooLarge)"

definition scheduler_new :: "limits \<Rightarrow> ('c, 'o, 'r, 's, 'e) scheduler" where
  "scheduler_new limits =
     \<lparr>sch_jobs = [], sch_bytes = 0, sch_failure = None, sch_limits = limits\<rparr>"

definition receipts :: "('c, 'o, 'r, 's) job list \<Rightarrow> 'r list" where
  "receipts jobs = concat (map job_receipts jobs)"

definition last_signal :: "('c, 'o, 'r, 's, 'e) scheduler \<Rightarrow> 's option" where
  "last_signal s = (if sch_jobs s = [] then None else Some (job_signal (last (sch_jobs s))))"

definition reserve_admission ::
    "scheduler_alloc \<Rightarrow> ('c, 'o, 'r, 's, 'e) scheduler \<Rightarrow> 'e admission_error + unit"
where
  "reserve_admission alloc s =
     (if alloc (ReserveJobs (lim_submissions (sch_limits s))) then Inr () else Inl AdmissionOutOfMemory)"

definition enqueue_prepared ::
    "scheduler_alloc \<Rightarrow> ('c, 'o, 'r, 's, 'e) scheduler \<Rightarrow> ('c, 'o, 'r, 's) job \<Rightarrow>
     ('e admission_error + unit) \<times> ('c, 'o, 'r, 's, 'e) scheduler"
where
  "enqueue_prepared alloc s job =
     (case sch_failure s of
        Some e \<Rightarrow> (Inl (Failed e), s)
      | None \<Rightarrow>
          let bytes = job_bytes job; limits = sch_limits s
          in if bytes > lim_stream_bytes limits then (Inl TooLarge, s)
             else if length (sch_jobs s) \<ge> lim_submissions limits \<or>
                     (sch_jobs s \<noteq> [] \<and>
                      (bytes > lim_pending_bytes limits \<or>
                       usize_saturating_add (sch_bytes s) bytes > lim_pending_bytes limits))
             then (Inl Busy, s)
             else if \<not> alloc (ReserveReceipts (min (length (job_chunks job)) (lim_in_flight limits)))
             then (Inl AdmissionOutOfMemory, s)
             else if \<not> alloc (ReserveJobs 1) then (Inl AdmissionOutOfMemory, s)
             else (Inr (), s\<lparr>sch_jobs := sch_jobs s @ [job], sch_bytes := sch_bytes s + bytes\<rparr>))"

definition enqueue ::
    "('c \<Rightarrow> usize) \<Rightarrow> scheduler_alloc \<Rightarrow> ('c, 'o, 'r, 's, 'e) scheduler \<Rightarrow> 'c list \<Rightarrow> 'o \<Rightarrow> 's \<Rightarrow>
     ('e admission_error + unit) \<times> ('c, 'o, 'r, 's, 'e) scheduler"
where
  "enqueue sz alloc s chunks owner signal =
     (case job_prepare sz alloc chunks owner signal (sch_limits s) of
        Inl e \<Rightarrow> (Inl e, s)
      | Inr job \<Rightarrow> enqueue_prepared alloc s job)"

section \<open>Failure and progress\<close>

definition fail ::
    "('w, 'c, 'o, 'r, 's, 'e) transport \<Rightarrow> 'w \<Rightarrow> ('c, 'o, 'r, 's, 'e) scheduler \<Rightarrow> 'e \<Rightarrow>
     'w \<times> ('c, 'o, 'r, 's, 'e) scheduler"
where
  "fail T w s e =
     (foldl (\<lambda>w job. t_complete T w (job_signal job) (Inl e)) w (sch_jobs s),
      s\<lparr>sch_failure := Some e, sch_jobs := [], sch_bytes := 0\<rparr>)"

definition remove_at :: "nat \<Rightarrow> 'a list \<Rightarrow> 'a list" where
  "remove_at i xs = take i xs @ drop (Suc i) xs"

function poll_receipts ::
    "('w, 'c, 'o, 'r, 's, 'e) transport \<Rightarrow> 'w \<Rightarrow> 'r list \<Rightarrow> nat \<Rightarrow> bool \<Rightarrow> ('e + bool) \<times> 'w \<times> 'r list"
where
  "poll_receipts T w rs index progressed =
     (case get rs index of
        None \<Rightarrow> (Inr progressed, w, rs)
      | Some r \<Rightarrow>
          (case t_poll T w r of
             (Inr finished, w') \<Rightarrow>
               if finished then poll_receipts T w' (remove_at index rs) index True
               else poll_receipts T w' rs (index + 1) progressed
           | (Inl e, w') \<Rightarrow> (Inl e, w', rs)))"
  by pat_completeness auto
termination
  by (relation "measure (\<lambda>(T, w, rs, index, progressed). length rs - index)")
    (auto simp: get_Some remove_at_def)

declare poll_receipts.simps [simp del]

fun poll_jobs ::
    "('w, 'c, 'o, 'r, 's, 'e) transport \<Rightarrow> 'w \<Rightarrow> ('c, 'o, 'r, 's) job list \<Rightarrow> bool \<Rightarrow>
     ('e + bool) \<times> 'w \<times> ('c, 'o, 'r, 's) job list"
where
  "poll_jobs T w [] progressed = (Inr progressed, w, [])"
| "poll_jobs T w (job # jobs) progressed =
     (case poll_receipts T w (job_receipts job) 0 progressed of
        (Inl e, w', rs) \<Rightarrow> (Inl e, w', job\<lparr>job_receipts := rs\<rparr> # jobs)
      | (Inr p, w', rs) \<Rightarrow>
          (case poll_jobs T w' jobs p of
             (res, w'', jobs') \<Rightarrow> (res, w'', job\<lparr>job_receipts := rs\<rparr> # jobs')))"

fun retire_jobs ::
    "('w, 'c, 'o, 'r, 's, 'e) transport \<Rightarrow> 'w \<Rightarrow> ('c, 'o, 'r, 's) job list \<Rightarrow> usize \<Rightarrow> bool \<Rightarrow>
     'w \<times> ('c, 'o, 'r, 's) job list \<times> usize \<times> bool"
where
  "retire_jobs T w [] bytes progressed = (w, [], bytes, progressed)"
| "retire_jobs T w (job # jobs) bytes progressed =
     (if job_next job = length (job_chunks job) \<and> job_receipts job = []
      then retire_jobs T (t_complete T w (job_signal job) (Inr ())) jobs (bytes - job_bytes job) True
      else (w, job # jobs, bytes, progressed))"

text \<open>How the dispatch of one job ends: its chunks are exhausted, the function returns, or it fails.\<close>

datatype 'e flow = Proceed | Return | Fail 'e

function dispatch_job ::
    "('w, 'c, 'o, 'r, 's, 'e) transport \<Rightarrow> usize \<Rightarrow> 'w \<Rightarrow> ('c, 'o, 'r, 's) job \<Rightarrow> nat \<Rightarrow> bool \<Rightarrow>
     'e flow \<times> 'w \<times> ('c, 'o, 'r, 's) job \<times> nat \<times> bool"
where
  "dispatch_job T limit w job in_flight progressed =
     (case get (job_chunks job) (job_next job) of
        None \<Rightarrow> (Proceed, w, job, in_flight, progressed)
      | Some chunk \<Rightarrow>
          if in_flight \<ge> limit then (Return, w, job, in_flight, progressed)
          else
            (case t_ready T w chunk of
               (Inl e, w') \<Rightarrow> (Fail e, w', job, in_flight, progressed)
             | (Inr False, w') \<Rightarrow> (Return, w', job, in_flight, progressed)
             | (Inr True, w') \<Rightarrow>
                 (case t_submit T w' (job_owner job) chunk of
                    (Inr receipt, w'') \<Rightarrow>
                      dispatch_job T limit w''
                        (job\<lparr>job_receipts := job_receipts job @ [receipt], job_next := job_next job + 1\<rparr>)
                        (in_flight + 1) True
                  | (Inl DispatchBusy, w'') \<Rightarrow> (Return, w'', job, in_flight, progressed)
                  | (Inl (DispatchFailed e), w'') \<Rightarrow> (Fail e, w'', job, in_flight, progressed))))"
  by pat_completeness auto
termination
  by (relation "measure (\<lambda>(T, limit, w, job, in_flight, progressed).
        length (job_chunks job) - job_next job)") (auto simp: get_Some)

declare dispatch_job.simps [simp del]

fun dispatch_jobs ::
    "('w, 'c, 'o, 'r, 's, 'e) transport \<Rightarrow> usize \<Rightarrow> 'w \<Rightarrow> ('c, 'o, 'r, 's) job list \<Rightarrow> nat \<Rightarrow> bool \<Rightarrow>
     'e flow \<times> 'w \<times> ('c, 'o, 'r, 's) job list \<times> bool"
where
  "dispatch_jobs T limit w [] in_flight progressed = (Proceed, w, [], progressed)"
| "dispatch_jobs T limit w (job # jobs) in_flight progressed =
     (case dispatch_job T limit w job in_flight progressed of
        (Proceed, w', job', in_flight', p') \<Rightarrow>
          (case dispatch_jobs T limit w' jobs in_flight' p' of
             (flow, w'', jobs', p'') \<Rightarrow> (flow, w'', job' # jobs', p''))
      | (flow, w', job', in_flight', p') \<Rightarrow> (flow, w', job' # jobs, p'))"

definition advance ::
    "('w, 'c, 'o, 'r, 's, 'e) transport \<Rightarrow> 'w \<Rightarrow> ('c, 'o, 'r, 's, 'e) scheduler \<Rightarrow>
     bool \<times> 'w \<times> ('c, 'o, 'r, 's, 'e) scheduler"
where
  "advance T w s =
     (case poll_jobs T w (sch_jobs s) False of
        (Inl e, w1, jobs1) \<Rightarrow> (True, fail T w1 (s\<lparr>sch_jobs := jobs1\<rparr>) e)
      | (Inr p1, w1, jobs1) \<Rightarrow>
          (case retire_jobs T w1 jobs1 (sch_bytes s) p1 of
             (w2, jobs2, bytes2, p2) \<Rightarrow>
               let s2 = s\<lparr>sch_jobs := jobs2, sch_bytes := bytes2\<rparr>
               in case dispatch_jobs T (lim_in_flight (sch_limits s)) w2 jobs2
                         (length (receipts jobs2)) p2 of
                    (Fail e, w3, jobs3, p3) \<Rightarrow> (True, fail T w3 (s2\<lparr>sch_jobs := jobs3\<rparr>) e)
                  | (_, w3, jobs3, p3) \<Rightarrow> (p3, w3, s2\<lparr>sch_jobs := jobs3\<rparr>)))"

section \<open>A transport that keeps a trace\<close>

record ('w, 'c, 'o, 's, 'e) trace =
  tr_world :: 'w
  tr_submitted :: "('o \<times> 'c) list"
  tr_retired :: "nat set"
  tr_completed :: "('s \<times> ('e + unit) \<times> nat set) list"

definition recorded ::
    "('w, 'c, 'o, 'r, 's, 'e) transport \<Rightarrow>
     (('w, 'c, 'o, 's, 'e) trace, 'c, 'o, nat \<times> 'r, 's, 'e) transport"
where
  "recorded T =
     \<lparr>t_size = t_size T,
      t_ready = (\<lambda>tr c. case t_ready T (tr_world tr) c of (x, w) \<Rightarrow> (x, tr\<lparr>tr_world := w\<rparr>)),
      t_submit = (\<lambda>tr owner c. case t_submit T (tr_world tr) owner c of
          (Inr r, w) \<Rightarrow> (Inr (length (tr_submitted tr), r),
             tr\<lparr>tr_world := w, tr_submitted := tr_submitted tr @ [(owner, c)]\<rparr>)
        | (Inl e, w) \<Rightarrow> (Inl e, tr\<lparr>tr_world := w\<rparr>)),
      t_poll = (\<lambda>tr r. case t_poll T (tr_world tr) (snd r) of
          (Inr True, w) \<Rightarrow> (Inr True,
             tr\<lparr>tr_world := w, tr_retired := insert (fst r) (tr_retired tr)\<rparr>)
        | (x, w) \<Rightarrow> (x, tr\<lparr>tr_world := w\<rparr>)),
      t_complete = (\<lambda>tr s x. tr\<lparr>tr_world := t_complete T (tr_world tr) s x,
          tr_completed := tr_completed tr @ [(s, x, tr_retired tr)]\<rparr>)\<rparr>"

lemma recorded_ready:
  "t_ready (recorded T) tr c = (x, tr') \<Longrightarrow>
   tr_submitted tr' = tr_submitted tr \<and> tr_retired tr' = tr_retired tr \<and>
   tr_completed tr' = tr_completed tr"
  by (auto simp: recorded_def split: prod.splits)

lemma recorded_submit:
  "t_submit (recorded T) tr owner c = (x, tr') \<Longrightarrow>
   tr_retired tr' = tr_retired tr \<and> tr_completed tr' = tr_completed tr \<and>
   (case x of Inl e \<Rightarrow> tr_submitted tr' = tr_submitted tr
    | Inr r \<Rightarrow> fst r = length (tr_submitted tr) \<and> tr_submitted tr' = tr_submitted tr @ [(owner, c)])"
  by (auto simp: recorded_def split: prod.splits sum.splits)

lemma recorded_poll:
  "t_poll (recorded T) tr r = (x, tr') \<Longrightarrow>
   tr_submitted tr' = tr_submitted tr \<and> tr_completed tr' = tr_completed tr \<and>
   tr_retired tr' = (if x = Inr True then insert (fst r) (tr_retired tr) else tr_retired tr)"
  by (auto simp: recorded_def split: prod.splits sum.splits bool.splits)

lemma recorded_complete [simp]:
  "tr_submitted (t_complete (recorded T) tr s x) = tr_submitted tr"
  "tr_retired (t_complete (recorded T) tr s x) = tr_retired tr"
  "tr_completed (t_complete (recorded T) tr s x) = tr_completed tr @ [(s, x, tr_retired tr)]"
  by (simp_all add: recorded_def)

section \<open>The invariant of the queue\<close>

text \<open>What a job has handed to the transport, and the tags of its outstanding receipts.\<close>

definition job_submitted :: "('c, 'o, 'r, 's) job \<Rightarrow> ('o \<times> 'c) list" where
  "job_submitted j = map (Pair (job_owner j)) (take (job_next j) (job_chunks j))"

definition job_ident :: "('c, 'o, 'r, 's) job \<Rightarrow> 'c list \<times> 'o \<times> 's" where
  "job_ident j = (job_chunks j, job_owner j, job_signal j)"

definition tags :: "('c, 'o, nat \<times> 'r, 's) job \<Rightarrow> nat set" where
  "tags j = fst ` set (job_receipts j)"

fun in_order :: "('c, 'o, 'r, 's) job list \<Rightarrow> bool" where
  "in_order [] \<longleftrightarrow> True"
| "in_order (j # js) \<longleftrightarrow> job_next j \<le> length (job_chunks j) \<and>
     (job_next j < length (job_chunks j) \<longrightarrow> (\<forall>k \<in> set js. job_next k = 0)) \<and> in_order js"

text \<open>The submissions from \<open>first\<close> on belong to the jobs in order; each is retired or outstanding.\<close>

fun accounted :: "nat set \<Rightarrow> nat \<Rightarrow> ('c, 'o, nat \<times> 'r, 's) job list \<Rightarrow> bool" where
  "accounted R first [] \<longleftrightarrow> True"
| "accounted R first (j # js) \<longleftrightarrow>
     tags j \<subseteq> {first ..< first + job_next j} \<and> {first ..< first + job_next j} \<subseteq> R \<union> tags j \<and>
     accounted R (first + job_next j) js"

lemma accounted_mono: "accounted R first js \<Longrightarrow> R \<subseteq> R' \<Longrightarrow> accounted R' first js"
  by (induction js arbitrary: first) auto

text \<open>Two job lists that differ only in the receipts that were retired in between.\<close>

definition same_job :: "('c, 'o, 'r, 's) job \<Rightarrow> ('c, 'o, 'r, 's) job \<Rightarrow> bool" where
  "same_job j j' \<longleftrightarrow> job_ident j' = job_ident j \<and> job_next j' = job_next j \<and>
     job_bytes j' = job_bytes j"

lemma poll_receipts_trace:
  assumes "poll_receipts (recorded T) tr rs i p = (res, tr', rs')"
  shows "tr_submitted tr' = tr_submitted tr \<and> tr_completed tr' = tr_completed tr \<and>
    tr_retired tr \<subseteq> tr_retired tr' \<and> fst ` set rs \<subseteq> tr_retired tr' \<union> fst ` set rs' \<and>
    set rs' \<subseteq> set rs \<and> length rs' \<le> length rs \<and> (res = Inr False \<longrightarrow> rs' = rs \<and> \<not> p)"
  using assms
proof (induction "recorded T" tr rs i p arbitrary: res tr' rs' rule: poll_receipts.induct)
  case (1 tr rs i p)
  show ?case
  proof (cases "get rs i")
    case None
    with "1.prems" show ?thesis by (auto simp: poll_receipts.simps [of _ tr rs i p])
  next
    case (Some r)
    obtain x w where x: "t_poll (recorded T) tr r = (x, w)" by fastforce
    note poll = recorded_poll [OF x]
    have r: "r \<in> set rs" "i < length rs" "rs ! i = r" using Some by (auto simp: get_Some)
    show ?thesis
    proof (cases x)
      case (Inl e)
      with "1.prems" Some x poll show ?thesis by (auto simp: poll_receipts.simps [of _ tr rs i p])
    next
      case (Inr finished)
      show ?thesis
      proof (cases "finished")
        case True
        have rec: "poll_receipts (recorded T) w (remove_at i rs) i True = (res, tr', rs')"
          using "1.prems" Some x Inr True by (simp add: poll_receipts.simps [of _ tr rs i p])
        have split: "rs = take i rs @ r # drop (Suc i) rs" using r id_take_nth_drop by metis
        have "set rs = insert r (set (remove_at i rs))" "length (remove_at i rs) \<le> length rs"
          by (subst split) (auto simp: remove_at_def)
        then show ?thesis
          using "1.hyps"(1) [OF Some x [symmetric] Inr True rec] poll Inr True by auto
      next
        case False
        have rec: "poll_receipts (recorded T) w rs (i + 1) p = (res, tr', rs')"
          using "1.prems" Some x Inr False by (simp add: poll_receipts.simps [of _ tr rs i p])
        show ?thesis
          using "1.hyps"(2) [OF Some x [symmetric] Inr False rec] poll Inr False by auto
      qed
    qed
  qed
qed

lemma poll_jobs_trace:
  "poll_jobs (recorded T) tr js p = (res, tr', js') \<Longrightarrow>
   tr_submitted tr' = tr_submitted tr \<and> tr_completed tr' = tr_completed tr \<and>
   tr_retired tr \<subseteq> tr_retired tr' \<and> list_all2 same_job js js' \<and>
   (accounted (tr_retired tr) first js \<longrightarrow> accounted (tr_retired tr') first js') \<and>
   length (receipts js') \<le> length (receipts js) \<and> (res = Inr False \<longrightarrow> js' = js \<and> \<not> p)"
proof (induction js arbitrary: tr p res tr' js' first)
  case Nil
  then show ?case by (auto simp: receipts_def)
next
  case (Cons j js)
  obtain x w rs where x: "poll_receipts (recorded T) tr (job_receipts j) 0 p = (x, w, rs)"
    by (metis prod_cases3)
  note poll = poll_receipts_trace [OF x]
  let ?j = "j\<lparr>job_receipts := rs\<rparr>"
  have same: "same_job j ?j" "job_next ?j = job_next j"
    by (simp_all add: same_job_def job_ident_def)
  have tags: "tags ?j \<subseteq> tags j" "tags j \<subseteq> tr_retired w \<union> tags ?j"
    using poll by (auto simp: tags_def)
  have refl: "list_all2 same_job js js" by (simp add: list.rel_refl same_job_def)
  show ?case
  proof (cases x)
    case (Inl e)
    then have eqs: "res = Inl e" "tr' = w" "js' = ?j # js" using Cons.prems x by auto
    have "accounted (tr_retired w) first' js" if "accounted (tr_retired tr) first' js" for first'
      using accounted_mono [OF that] poll by blast
    with eqs poll same tags refl show ?thesis
      by (auto simp: receipts_def)
  next
    case (Inr q)
    obtain y w2 js2 where y: "poll_jobs (recorded T) w js q = (y, w2, js2)" by (metis prod_cases3)
    then have eqs: "res = y" "tr' = w2" "js' = ?j # js2" using Cons.prems x Inr by auto
    note ih = Cons.IH [OF y]
    have grow: "tr_retired tr \<subseteq> tr_retired w" "tr_retired w \<subseteq> tr_retired w2"
      using poll ih by blast+
    have "accounted (tr_retired w2) first js'" if acc: "accounted (tr_retired tr) first (j # js)"
    proof -
      have "accounted (tr_retired w) (first + job_next j) js"
        by (rule accounted_mono [OF _ grow(1)]) (use acc in simp)
      then have "accounted (tr_retired w2) (first + job_next j) js2" using ih by blast
      moreover have "{first ..< first + job_next j} \<subseteq> tr_retired w2 \<union> tags ?j"
        using acc tags grow unfolding accounted.simps by blast
      moreover have "tags ?j \<subseteq> {first ..< first + job_next j}"
        using acc tags(1) unfolding accounted.simps by blast
      ultimately show ?thesis unfolding eqs by simp
    qed
    moreover have "js' = j # js \<and> \<not> p" if "res = Inr False"
      using that ih [of first] poll eqs Inr by auto
    moreover have "list_all2 same_job (j # js) js'" and "length (receipts js') \<le> length (receipts (j # js))"
      using ih [of first] poll same eqs by (simp_all add: receipts_def)
    ultimately show ?thesis
      using ih [of first] poll grow eqs by auto
  qed
qed

text \<open>What two such lists share.\<close>

definition submitted_of :: "('c, 'o, 'r, 's) job list \<Rightarrow> ('o \<times> 'c) list" where
  "submitted_of js = concat (map job_submitted js)"

definition total_bytes :: "('c, 'o, 'r, 's) job list \<Rightarrow> nat" where
  "total_bytes js = sum_list (map job_bytes js)"

lemma submitted_of_simps [simp]:
  "submitted_of [] = []" "submitted_of (j # js) = job_submitted j @ submitted_of js"
  "submitted_of (js @ js') = submitted_of js @ submitted_of js'"
  by (simp_all add: submitted_of_def)

lemma total_bytes_simps [simp]:
  "total_bytes [] = 0" "total_bytes (j # js) = job_bytes j + total_bytes js"
  by (simp_all add: total_bytes_def)

lemma receipts_simps [simp]:
  "receipts [] = []" "receipts (j # js) = job_receipts j @ receipts js"
  by (simp_all add: receipts_def)

lemma same_jobs:
  assumes "list_all2 same_job js js'"
  shows "submitted_of js' = submitted_of js \<and> map job_ident js' = map job_ident js \<and>
    map job_bytes js' = map job_bytes js \<and> in_order js' = in_order js \<and>
    map job_next js' = map job_next js"
  using assms
proof (induction rule: list_all2_induct)
  case (Cons j js j' js')
  then have "\<forall>n. (\<forall>k \<in> set js'. job_next k = n) = (\<forall>k \<in> set js. job_next k = n)"
    by (metis (no_types, lifting) list.set_map image_iff)
  with Cons show ?case
    by (auto simp: same_job_def job_ident_def job_submitted_def)
qed simp

lemma retire_jobs_trace:
  assumes "retire_jobs (recorded T) tr js bytes p = (tr', js', bytes', p')"
    and "accounted (tr_retired tr) first js" and "{..< first} \<subseteq> tr_retired tr"
    and "total_bytes js \<le> bytes"
  shows "\<exists>front. map job_ident js = map job_ident front @ map job_ident js' \<and>
    js = front @ js' \<and> (\<forall>j \<in> set front. job_next j = length (job_chunks j)) \<and>
    tr_submitted tr' = tr_submitted tr \<and> tr_retired tr' = tr_retired tr \<and>
    tr_completed tr' = tr_completed tr @ map (\<lambda>j. (job_signal j, Inr (), tr_retired tr)) front \<and>
    bytes' = bytes - total_bytes front \<and>
    accounted (tr_retired tr) (first + length (submitted_of front)) js' \<and>
    {..< first + length (submitted_of front)} \<subseteq> tr_retired tr \<and>
    (\<not> p' \<longrightarrow> front = [] \<and> \<not> p \<and> tr' = tr)"
  using assms
proof (induction js arbitrary: tr bytes p first)
  case Nil
  then show ?case by simp
next
  case (Cons j js)
  show ?case
  proof (cases "job_next j = length (job_chunks j) \<and> job_receipts j = []")
    case False
    then show ?thesis using Cons.prems by (intro exI [of _ "[]"]) auto
  next
    case True
    let ?w = "t_complete (recorded T) tr (job_signal j) (Inr ())"
    have step: "retire_jobs (recorded T) ?w js (bytes - job_bytes j) True = (tr', js', bytes', p')"
      using Cons.prems(1) True by simp
    have len: "length (job_submitted j) = job_next j"
      using True by (simp add: job_submitted_def)
    have acc: "accounted (tr_retired ?w) (first + job_next j) js"
      using Cons.prems(2) by simp
    have "{first ..< first + job_next j} \<subseteq> tr_retired tr"
      using Cons.prems(2) True by (simp add: tags_def)
    then have low: "{..< first + job_next j} \<subseteq> tr_retired ?w"
      using Cons.prems(3) by (auto simp: subset_iff) (metis not_less)
    have bytes: "total_bytes js \<le> bytes - job_bytes j" using Cons.prems(4) by simp
    obtain front where f: "js = front @ js'" "\<forall>j \<in> set front. job_next j = length (job_chunks j)"
      "tr_submitted tr' = tr_submitted tr" "tr_retired tr' = tr_retired tr"
      "tr_completed tr' = tr_completed tr @ (job_signal j, Inr (), tr_retired tr) #
         map (\<lambda>j. (job_signal j, Inr (), tr_retired tr)) front"
      "bytes' = bytes - job_bytes j - total_bytes front"
      "accounted (tr_retired tr) (first + job_next j + length (submitted_of front)) js'"
      "{..< first + job_next j + length (submitted_of front)} \<subseteq> tr_retired tr" "p'"
      using Cons.IH [OF step acc low bytes] by auto
    show ?thesis
      by (rule exI [of _ "j # front"]) (use f True len in \<open>simp add: add.assoc\<close>)
  qed
qed

text \<open>Dispatching one job extends the trace by its next chunks and tags their receipts.\<close>

definition job_accounted :: "nat set \<Rightarrow> nat \<Rightarrow> ('c, 'o, nat \<times> 'r, 's) job \<Rightarrow> bool" where
  "job_accounted R first j \<longleftrightarrow>
     tags j \<subseteq> {first ..< first + job_next j} \<and> {first ..< first + job_next j} \<subseteq> R \<union> tags j \<and>
     job_next j \<le> length (job_chunks j)"

definition submitted_job ::
    "('c, 'o, nat \<times> 'r, 's) job \<Rightarrow> nat \<times> 'r \<Rightarrow> ('c, 'o, nat \<times> 'r, 's) job"
where
  "submitted_job j r = j\<lparr>job_receipts := job_receipts j @ [r], job_next := job_next j + 1\<rparr>"

lemma job_submitted_step:
  "get (job_chunks j) (job_next j) = Some c \<Longrightarrow>
   job_submitted (submitted_job j r) = job_submitted j @ [(job_owner j, c)]"
  by (auto simp: submitted_job_def job_submitted_def get_Some take_Suc_conv_app_nth)

lemma job_accounted_step:
  "get (job_chunks j) (job_next j) = Some c \<Longrightarrow> fst r = first + job_next j \<Longrightarrow>
   job_accounted R first j \<Longrightarrow> job_accounted R first (submitted_job j r)"
  by (auto simp: submitted_job_def job_accounted_def tags_def get_Some less_Suc_eq)

lemma submitted_job_simps [simp]:
  "job_ident (submitted_job j r) = job_ident j" "job_bytes (submitted_job j r) = job_bytes j"
  "job_next (submitted_job j r) = Suc (job_next j)"
  "job_receipts (submitted_job j r) = job_receipts j @ [r]"
  "job_owner (submitted_job j r) = job_owner j"
  by (simp_all add: submitted_job_def job_ident_def)

lemma length_job_submitted:
  "job_accounted R first j \<Longrightarrow> length (job_submitted j) = job_next j"
  by (simp add: job_submitted_def job_accounted_def)

lemma dispatch_job_trace:
  assumes "dispatch_job (recorded T) limit tr j n p = (flow, tr', j', n', p')"
    and "job_accounted (tr_retired tr) first j"
    and "tr_submitted tr = before @ job_submitted j" and "length before = first"
  shows "job_ident j' = job_ident j \<and> job_bytes j' = job_bytes j \<and> job_next j \<le> job_next j' \<and>
    tr_retired tr' = tr_retired tr \<and> tr_completed tr' = tr_completed tr \<and>
    tr_submitted tr' = before @ job_submitted j' \<and>
    job_accounted (tr_retired tr) first j' \<and>
    (flow = Proceed \<longrightarrow> job_next j' = length (job_chunks j')) \<and>
    n' + length (job_receipts j) = n + length (job_receipts j') \<and> (n \<le> limit \<longrightarrow> n' \<le> limit) \<and>
    (\<not> p' \<longrightarrow> j' = j \<and> \<not> p)"
  using assms
proof (induction "recorded T" limit tr j n p arbitrary: flow tr' j' n' p' rule: dispatch_job.induct)
  case (1 limit tr j n p)
  note unfold = dispatch_job.simps [of "recorded T" limit tr j n p]
  show ?case
  proof (cases "get (job_chunks j) (job_next j)")
    case None
    with "1.prems" show ?thesis by (auto simp: unfold job_accounted_def get_None)
  next
    case (Some c)
    show ?thesis
    proof (cases "limit \<le> n")
      case True
      with "1.prems" Some show ?thesis by (auto simp: unfold)
    next
      case False
      obtain x w where x: "t_ready (recorded T) tr c = (x, w)" by fastforce
      note ready = recorded_ready [OF x]
      show ?thesis
      proof (cases "x = Inr True")
        case not_ready: False
        with "1.prems" Some False x ready show ?thesis
          by (auto simp: unfold split: sum.splits bool.splits)
      next
        case True
        obtain y w2 where y: "t_submit (recorded T) w (job_owner j) c = (y, w2)" by fastforce
        note submit = recorded_submit [OF y]
        show ?thesis
        proof (cases y)
          case (Inl e)
          with "1.prems" Some False x ready True y submit show ?thesis
            by (auto simp: unfold split: dispatch_error.splits)
        next
          case (Inr r)
          let ?j = "submitted_job j r"
          have rec: "dispatch_job (recorded T) limit w2 ?j (n + 1) True = (flow, tr', j', n', p')"
            using "1.prems"(1) Some False x True y Inr by (simp add: unfold submitted_job_def)
          have r: "fst r = first + job_next j"
            using submit ready Inr "1.prems"(3,4) length_job_submitted [OF "1.prems"(2)] by simp
          have acc: "job_accounted (tr_retired w2) first ?j"
            using job_accounted_step [OF Some r "1.prems"(2)] submit ready by simp
          have sub: "tr_submitted w2 = before @ job_submitted ?j"
            using submit ready Inr "1.prems"(3) job_submitted_step [OF Some, of r] by simp
          note ih = "1.hyps" [OF Some False x [symmetric] True refl y [symmetric] Inr,
              folded submitted_job_def, OF rec acc sub "1.prems"(4)]
          then show ?thesis using submit ready False by auto
        qed
      qed
    qed
  qed
qed

lemma untouched_submitted: "\<forall>k \<in> set js. job_next k = 0 \<Longrightarrow> submitted_of js = []"
  by (simp add: submitted_of_def job_submitted_def)

lemma untouched_accounted:
  "\<forall>k \<in> set js. job_next k = 0 \<Longrightarrow> accounted R a js \<Longrightarrow> accounted R b js"
  by (induction js) auto

lemma dispatch_jobs_trace:
  assumes "dispatch_jobs (recorded T) limit tr js n p = (flow, tr', js', p')"
    and "accounted (tr_retired tr) first js" and "in_order js"
    and "tr_submitted tr = before @ submitted_of js" and "length before = first"
  shows "map job_ident js' = map job_ident js \<and> map job_bytes js' = map job_bytes js \<and>
    tr_retired tr' = tr_retired tr \<and> tr_completed tr' = tr_completed tr \<and>
    tr_submitted tr' = before @ submitted_of js' \<and> accounted (tr_retired tr) first js' \<and>
    in_order js' \<and> (n \<le> limit \<longrightarrow> n + length (receipts js') \<le> limit + length (receipts js)) \<and>
    (\<not> p' \<longrightarrow> js' = js \<and> \<not> p)"
  using assms
proof (induction js arbitrary: tr n p flow tr' js' p' first before)
  case Nil
  then show ?case by simp
next
  case (Cons j js)
  obtain f w j1 n1 p1 where d: "dispatch_job (recorded T) limit tr j n p = (f, w, j1, n1, p1)"
    by (metis prod_cases5)
  have acc: "job_accounted (tr_retired tr) first j" and rest: "accounted (tr_retired tr) (first + job_next j) js"
    and ord: "in_order js"
    using Cons.prems(2,3) by (auto simp: job_accounted_def)
  have stop: "f \<noteq> Proceed \<Longrightarrow> flow = f \<and> tr' = w \<and> js' = j1 # js \<and> p' = p1"
    using Cons.prems(1) d by (cases f) auto
  obtain g w2 js2 p2 where go: "dispatch_jobs (recorded T) limit w js n1 p1 = (g, w2, js2, p2)"
    by (metis prod_cases4)
  have next_js: "f = Proceed \<Longrightarrow> flow = g \<and> tr' = w2 \<and> js' = j1 # js2 \<and> p' = p2"
    using Cons.prems(1) d go by auto
  show ?case
  proof (cases "job_next j = length (job_chunks j)")
    case True
    then have same: "f = Proceed" "w = tr" "j1 = j" "n1 = n" "p1 = p"
      using d by (auto simp: dispatch_job.simps get_def)
    have "tr_submitted w = (before @ job_submitted j) @ submitted_of js"
      and "length (before @ job_submitted j) = first + job_next j"
      using Cons.prems(4,5) same length_job_submitted [OF acc] by simp_all
    from Cons.IH [OF go, unfolded same, OF rest ord this [unfolded same]]
    show ?thesis using next_js same acc True Cons.prems(2) by auto
  next
    case False
    then have zero: "\<forall>k \<in> set js. job_next k = 0"
      using Cons.prems(3) acc by (auto simp: job_accounted_def)
    note none = untouched_submitted [OF zero] untouched_accounted [OF zero]
    have "tr_submitted tr = before @ job_submitted j"
      using Cons.prems(4) none(1) by simp
    note one = dispatch_job_trace [OF d acc this Cons.prems(5)]
    have acc1: "job_accounted (tr_retired tr) first j1" using one by blast
    have ident: "length (job_chunks j1) = length (job_chunks j)" using one by (simp add: job_ident_def)
    show ?thesis
    proof (cases "f = Proceed")
      case stopped: False
      have "accounted (tr_retired tr) first (j1 # js)"
        using acc1 none(2) [OF rest] by (simp add: job_accounted_def)
      then show ?thesis
        using stop [OF stopped] one zero ord none(1) acc1 by (auto simp: job_accounted_def)
    next
      case True
      have r: "tr_retired w = tr_retired tr" and c: "tr_completed w = tr_completed tr" using one by auto
      have sub: "tr_submitted w = (before @ job_submitted j1) @ submitted_of js"
        and len: "length (before @ job_submitted j1) = first + job_next j1"
        using one none(1) Cons.prems(5) length_job_submitted [OF acc1] by simp_all
      have acc2: "accounted (tr_retired w) (first + job_next j1) js"
        unfolding r by (rule none(2) [OF rest])
      note ih = Cons.IH [OF go acc2 ord sub len]
      show ?thesis using next_js [OF True] ih one True acc1 r c by (auto simp: job_accounted_def)
    qed
  qed
qed

section \<open>Runs of the scheduler\<close>

text \<open>
  Everything that can happen to a scheduler: an admission, prepared under some limits, by any
  caller; a step of the queue worker; a failure reported from outside; a change of the world.
\<close>

datatype ('w, 'c, 'o, 's, 'e) sched_op =
    Enqueue limits scheduler_alloc "'c list" 'o 's
  | Advance
  | FailWith 'e
  | Outside "'w \<Rightarrow> 'w"

text \<open>The third component lists the admitted jobs, in order.\<close>

fun sched_step ::
    "('w, 'c, 'o, 'r, 's, 'e) transport \<Rightarrow> ('w, 'c, 'o, 's, 'e) sched_op \<Rightarrow>
     ('c, 'o, nat \<times> 'r, 's, 'e) scheduler \<times> ('w, 'c, 'o, 's, 'e) trace \<times> ('c list \<times> 'o \<times> 's) list \<Rightarrow>
     ('c, 'o, nat \<times> 'r, 's, 'e) scheduler \<times> ('w, 'c, 'o, 's, 'e) trace \<times> ('c list \<times> 'o \<times> 's) list"
where
  "sched_step T (Enqueue limits alloc chunks owner signal) (s, tr, adm) =
     (case (job_prepare (t_size T) alloc chunks owner signal limits
              :: 'e admission_error + ('c, 'o, nat \<times> 'r, 's) job) of
        Inl e \<Rightarrow> (s, tr, adm)
      | Inr job \<Rightarrow>
          (case enqueue_prepared alloc s job of
             (Inl e, s') \<Rightarrow> (s', tr, adm)
           | (Inr _, s') \<Rightarrow> (s', tr, adm @ [(chunks, owner, signal)])))"
| "sched_step T Advance (s, tr, adm) =
     (case advance (recorded T) tr s of (_, tr', s') \<Rightarrow> (s', tr', adm))"
| "sched_step T (FailWith e) (s, tr, adm) =
     (case fail (recorded T) tr s e of (tr', s') \<Rightarrow> (s', tr', adm))"
| "sched_step T (Outside f) (s, tr, adm) = (s, tr\<lparr>tr_world := f (tr_world tr)\<rparr>, adm)"

definition sched_start ::
    "limits \<Rightarrow> 'w \<Rightarrow> ('c, 'o, nat \<times> 'r, 's, 'e) scheduler \<times> ('w, 'c, 'o, 's, 'e) trace \<times>
       ('c list \<times> 'o \<times> 's) list"
where
  "sched_start limits w =
     (scheduler_new limits,
      \<lparr>tr_world = w, tr_submitted = [], tr_retired = {}, tr_completed = []\<rparr>, [])"

text \<open>All chunks of a list of admitted jobs, with their owners, in order.\<close>

definition all_chunks :: "('c list \<times> 'o \<times> 's) list \<Rightarrow> ('o \<times> 'c) list" where
  "all_chunks adm = concat (map (\<lambda>(chunks, owner, _). map (Pair owner) chunks) adm)"

definition signals :: "('c list \<times> 'o \<times> 's) list \<Rightarrow> 's list" where
  "signals adm = map (\<lambda>(_, _, s). s) adm"

section \<open>The invariant of a run\<close>

text \<open>A successful completion was signalled after every chunk up to its job had been retired.\<close>

definition completions_justified ::
    "('c list \<times> 'o \<times> 's) list \<Rightarrow> ('s \<times> ('e + unit) \<times> nat set) list \<Rightarrow> bool"
where
  "completions_justified adm completed \<longleftrightarrow>
     (\<forall>i < length completed. fst (snd (completed ! i)) = Inr () \<longrightarrow>
        {..< length (all_chunks (take (Suc i) adm))} \<subseteq> snd (snd (completed ! i)))"

definition live_inv ::
    "('c, 'o, nat \<times> 'r, 's) job list \<Rightarrow> ('w, 'c, 'o, 's, 'e) trace \<Rightarrow>
     ('c list \<times> 'o \<times> 's) list \<Rightarrow> bool"
where
  "live_inv jobs tr adm \<longleftrightarrow>
     (\<exists>front. adm = front @ map job_ident jobs \<and>
        tr_submitted tr = all_chunks front @ submitted_of jobs \<and>
        map fst (tr_completed tr) = signals front \<and>
        (\<forall>c \<in> set (tr_completed tr). fst (snd c) = Inr ()) \<and>
        accounted (tr_retired tr) (length (all_chunks front)) jobs \<and>
        {..< length (all_chunks front)} \<subseteq> tr_retired tr) \<and>
     completions_justified adm (tr_completed tr) \<and> in_order jobs"

definition dead_inv ::
    "('w, 'c, 'o, 's, 'e) trace \<Rightarrow> ('c list \<times> 'o \<times> 's) list \<Rightarrow> bool"
where
  "dead_inv tr adm \<longleftrightarrow>
     (\<exists>k. tr_submitted tr = take k (all_chunks adm)) \<and>
     map fst (tr_completed tr) = signals adm \<and>
     completions_justified adm (tr_completed tr)"

lemma all_chunks_append [simp]: "all_chunks (xs @ ys) = all_chunks xs @ all_chunks ys"
  by (simp add: all_chunks_def)

lemma all_chunks_ident [simp]:
  "all_chunks [] = []"
  "all_chunks (job_ident j # adm) = map (Pair (job_owner j)) (job_chunks j) @ all_chunks adm"
  by (simp_all add: all_chunks_def job_ident_def)

lemma signals_simps [simp]:
  "signals [] = []" "signals (xs @ ys) = signals xs @ signals ys"
  "signals (job_ident j # adm) = job_signal j # signals adm" "length (signals adm) = length adm"
  by (simp_all add: signals_def job_ident_def)

lemma submitted_prefix:
  "in_order jobs \<Longrightarrow> \<exists>k. submitted_of jobs = take k (all_chunks (map job_ident jobs))"
proof (induction jobs)
  case (Cons j js)
  then obtain k where k: "submitted_of js = take k (all_chunks (map job_ident js))" by auto
  let ?all = "map (Pair (job_owner j)) (job_chunks j)"
  show ?case
  proof (cases "job_next j = length (job_chunks j)")
    case True
    then have "submitted_of (j # js) = take (length ?all + k) (all_chunks (map job_ident (j # js)))"
      using k by (simp add: job_submitted_def)
    then show ?thesis by blast
  next
    case False
    then have "submitted_of js = []" using Cons.prems untouched_submitted [of js] by auto
    then have "submitted_of (j # js) = take (job_next j) (all_chunks (map job_ident (j # js)))"
      using Cons.prems by (simp add: job_submitted_def take_map)
    then show ?thesis by blast
  qed
qed simp

lemma live_submitted_prefix:
  assumes "live_inv jobs tr adm"
  shows "\<exists>k. tr_submitted tr = take k (all_chunks adm)"
proof -
  obtain front where f: "adm = front @ map job_ident jobs"
      "tr_submitted tr = all_chunks front @ submitted_of jobs"
    and "in_order jobs"
    using assms by (auto simp: live_inv_def)
  then obtain k where "submitted_of jobs = take k (all_chunks (map job_ident jobs))"
    using submitted_prefix by blast
  with f have "tr_submitted tr = take (length (all_chunks front) + k) (all_chunks adm)"
    by simp
  then show ?thesis by blast
qed

lemma live_poll:
  assumes "live_inv js tr adm" and "poll_jobs (recorded T) tr js p = (res, tr', js')"
  shows "live_inv js' tr' adm"
proof -
  obtain front where f: "adm = front @ map job_ident js"
      "tr_submitted tr = all_chunks front @ submitted_of js"
      "map fst (tr_completed tr) = signals front" "\<forall>c \<in> set (tr_completed tr). fst (snd c) = Inr ()"
      "accounted (tr_retired tr) (length (all_chunks front)) js"
      "{..< length (all_chunks front)} \<subseteq> tr_retired tr"
    and rest: "completions_justified adm (tr_completed tr)" "in_order js"
    using assms(1) by (auto simp: live_inv_def)
  note poll = poll_jobs_trace [OF assms(2), of "length (all_chunks front)"]
  then have same: "list_all2 same_job js js'" by blast
  show ?thesis
    unfolding live_inv_def
    using f rest poll same_jobs [OF same] by (auto intro!: exI [of _ front])
qed

lemma completions_justified_append:
  assumes "completions_justified adm c" and "length c + length d \<le> length adm"
    and "\<And>i. i < length d \<Longrightarrow> fst (snd (d ! i)) = Inr () \<Longrightarrow>
      {..< length (all_chunks (take (Suc (length c + i)) adm))} \<subseteq> snd (snd (d ! i))"
  shows "completions_justified adm (c @ d)"
  unfolding completions_justified_def
proof (intro allI impI)
  fix i assume i: "i < length (c @ d)" and ok: "fst (snd ((c @ d) ! i)) = Inr ()"
  show "{..< length (all_chunks (take (Suc i) adm))} \<subseteq> snd (snd ((c @ d) ! i))"
  proof (cases "i < length c")
    case True
    with assms(1) ok show ?thesis by (simp add: completions_justified_def nth_append)
  next
    case False
    then obtain k where k: "i = length c + k" by (metis le_Suc_ex not_less)
    with i ok assms(3) [of k] show ?thesis by simp
  qed
qed

lemma all_chunks_take_le:
  "length (all_chunks (take n adm)) \<le> length (all_chunks adm)"
  by (metis all_chunks_append append_take_drop_id le_add1 length_append)

lemma submitted_of_finished:
  "\<forall>j \<in> set js. job_next j = length (job_chunks j) \<Longrightarrow>
   submitted_of js = all_chunks (map job_ident js)"
  by (induction js) (simp_all add: job_submitted_def)

lemma live_retire:
  fixes tr :: "('w, 'c, 'o, 's, 'e) trace"
  assumes live: "live_inv js tr adm"
    and step: "retire_jobs (recorded T) tr js bytes p = (tr', js', bytes', p')"
    and bytes: "total_bytes js \<le> bytes"
  shows "live_inv js' tr' adm \<and> (\<exists>gone. js = gone @ js' \<and> bytes' = bytes - total_bytes gone) \<and>
    (\<not> p' \<longrightarrow> js' = js \<and> \<not> p)"
proof -
  obtain front where f: "adm = front @ map job_ident js"
      "tr_submitted tr = all_chunks front @ submitted_of js"
      "map fst (tr_completed tr) = signals front" "\<forall>c \<in> set (tr_completed tr). fst (snd c) = Inr ()"
      "accounted (tr_retired tr) (length (all_chunks front)) js"
      "{..< length (all_chunks front)} \<subseteq> tr_retired tr"
    and just: "completions_justified adm (tr_completed tr)" and ord: "in_order js"
    using live by (auto simp: live_inv_def)
  obtain gone where g: "js = gone @ js'" "\<forall>j \<in> set gone. job_next j = length (job_chunks j)"
      "tr_submitted tr' = tr_submitted tr" "tr_retired tr' = tr_retired tr"
      "tr_completed tr' = tr_completed tr @ map (\<lambda>j. (job_signal j, Inr (), tr_retired tr)) gone"
      "bytes' = bytes - total_bytes gone"
      "accounted (tr_retired tr) (length (all_chunks front) + length (submitted_of gone)) js'"
      "{..< length (all_chunks front) + length (submitted_of gone)} \<subseteq> tr_retired tr"
      "\<not> p' \<longrightarrow> gone = [] \<and> \<not> p"
    using retire_jobs_trace [OF step f(5,6) bytes] by auto
  let ?front = "front @ map job_ident gone"
  have all: "all_chunks ?front = all_chunks front @ submitted_of gone"
    using submitted_of_finished [OF g(2)] by simp
  have adm: "adm = ?front @ map job_ident js'" using f(1) g(1) by simp
  have lens: "length (tr_completed tr) = length front"
    using f(3) by (metis length_map signals_simps(4))
  have "completions_justified adm (tr_completed tr')"
    unfolding g(5)
  proof (rule completions_justified_append [OF just])
    show "length (tr_completed tr) + length (map (\<lambda>j. (job_signal j, Inr (), tr_retired tr)) gone)
        \<le> length adm"
      using adm lens by simp
    fix i assume i: "i < length (map (\<lambda>j. (job_signal j, Inr () :: 'e + unit, tr_retired tr)) gone)"
    have "take (Suc (length (tr_completed tr) + i)) adm = take (Suc (length (tr_completed tr) + i)) ?front"
      using adm lens i by simp
    then have "length (all_chunks (take (Suc (length (tr_completed tr) + i)) adm)) \<le>
        length (all_chunks ?front)"
      by (metis all_chunks_take_le)
    then have "{..< length (all_chunks (take (Suc (length (tr_completed tr) + i)) adm))} \<subseteq> tr_retired tr"
      using g(8) all by auto
    with i show "{..< length (all_chunks (take (Suc (length (tr_completed tr) + i)) adm))} \<subseteq>
        snd (snd (map (\<lambda>j. (job_signal j, Inr () :: 'e + unit, tr_retired tr)) gone ! i))"
      by simp
  qed
  moreover have "in_order js'"
    using ord g(1) by (induction gone arbitrary: js) auto
  moreover have "map fst (tr_completed tr') = signals ?front"
    using f(3) g(5) by (simp add: signals_def job_ident_def comp_def)
  ultimately have "live_inv js' tr' adm"
    unfolding live_inv_def using adm all f g by (intro conjI exI [of _ ?front]) auto
  with g show ?thesis by auto
qed

lemma live_dispatch:
  assumes live: "live_inv js tr adm"
    and step: "dispatch_jobs (recorded T) limit tr js n p = (flow, tr', js', p')"
  shows "live_inv js' tr' adm"
proof -
  obtain front where f: "adm = front @ map job_ident js"
      "tr_submitted tr = all_chunks front @ submitted_of js"
      "map fst (tr_completed tr) = signals front" "\<forall>c \<in> set (tr_completed tr). fst (snd c) = Inr ()"
      "accounted (tr_retired tr) (length (all_chunks front)) js"
      "{..< length (all_chunks front)} \<subseteq> tr_retired tr"
    and rest: "completions_justified adm (tr_completed tr)" "in_order js"
    using live by (auto simp: live_inv_def)
  note d = dispatch_jobs_trace [OF step f(5) rest(2) f(2) refl]
  show ?thesis
    unfolding live_inv_def using f rest d by (auto intro!: exI [of _ front])
qed

lemma complete_all:
  "tr_submitted (foldl (\<lambda>w job. t_complete (recorded T) w (job_signal job) (Inl e)) tr js) = tr_submitted tr \<and>
   tr_completed (foldl (\<lambda>w job. t_complete (recorded T) w (job_signal job) (Inl e)) tr js) =
     tr_completed tr @ map (\<lambda>j. (job_signal j, Inl e, tr_retired tr)) js"
  by (induction js arbitrary: tr) simp_all

lemma fail_trace:
  assumes "fail (recorded T) tr s e = (tr', s')"
  shows "tr_submitted tr' = tr_submitted tr"
    and "tr_completed tr' = tr_completed tr @ map (\<lambda>j. (job_signal j, Inl e, tr_retired tr)) (sch_jobs s)"
    and "s' = s\<lparr>sch_failure := Some e, sch_jobs := [], sch_bytes := 0\<rparr>"
  using assms complete_all [of T e tr "sch_jobs s"] by (auto simp: fail_def)

lemma live_fail:
  assumes live: "live_inv (sch_jobs s) tr adm" and step: "fail (recorded T) tr s e = (tr', s')"
  shows "dead_inv tr' adm"
proof -
  obtain front where f: "adm = front @ map job_ident (sch_jobs s)"
      "map fst (tr_completed tr) = signals front"
    and just: "completions_justified adm (tr_completed tr)"
    using live by (auto simp: live_inv_def)
  have lens: "length (tr_completed tr) = length front"
    using f(2) by (metis length_map signals_simps(4))
  have "completions_justified adm (tr_completed tr')"
    unfolding fail_trace(2) [OF step]
    by (rule completions_justified_append [OF just]) (use f lens in simp_all)
  moreover have "map fst (tr_completed tr') = signals adm"
    using f by (simp add: fail_trace(2) [OF step] signals_def job_ident_def comp_def)
  ultimately show ?thesis
    using live_submitted_prefix [OF live] by (simp add: dead_inv_def fail_trace(1) [OF step])
qed

lemma dead_fail:
  "dead_inv tr adm \<Longrightarrow> sch_jobs s = [] \<Longrightarrow> fail (recorded T) tr s e = (tr', s') \<Longrightarrow> dead_inv tr' adm"
  using fail_trace [of T tr s e tr' s'] by (simp add: dead_inv_def)

lemma live_enqueue:
  assumes live: "live_inv js tr adm" and new: "job_next job = 0" "job_receipts job = []"
  shows "live_inv (js @ [job]) tr (adm @ [job_ident job])"
proof -
  obtain front where f: "adm = front @ map job_ident js"
      "tr_submitted tr = all_chunks front @ submitted_of js"
      "map fst (tr_completed tr) = signals front" "\<forall>c \<in> set (tr_completed tr). fst (snd c) = Inr ()"
      "accounted (tr_retired tr) (length (all_chunks front)) js"
      "{..< length (all_chunks front)} \<subseteq> tr_retired tr"
    and just: "completions_justified adm (tr_completed tr)" and ord: "in_order js"
    using live by (auto simp: live_inv_def)
  have "accounted R first js \<Longrightarrow> accounted R first (js @ [job])" for R first
    using new by (induction js arbitrary: first) (auto simp: tags_def)
  moreover have "in_order (js @ [job])"
    using ord new by (induction js) auto
  moreover have "completions_justified (adm @ [job_ident job]) (tr_completed tr)"
  proof -
    have "length (tr_completed tr) \<le> length adm"
      using f(1,3) by (metis length_append length_map le_add1 signals_simps(4))
    with just show ?thesis by (simp add: completions_justified_def)
  qed
  moreover have "submitted_of (js @ [job]) = submitted_of js"
    using new by (simp add: job_submitted_def)
  ultimately show ?thesis
    unfolding live_inv_def using f by (intro conjI exI [of _ front]) auto
qed

text \<open>The budgets.\<close>

definition job_sized :: "('c \<Rightarrow> usize) \<Rightarrow> usize \<Rightarrow> ('c, 'o, 'r, 's) job \<Rightarrow> bool" where
  "job_sized sz limit j \<longleftrightarrow> job_bytes j = sum_list (map sz (job_chunks j)) \<and> job_bytes j \<le> limit"

definition budget_inv ::
    "('c \<Rightarrow> usize) \<Rightarrow> ('c, 'o, 'r, 's, 'e) scheduler \<Rightarrow> bool"
where
  "budget_inv sz s \<longleftrightarrow>
     sch_bytes s = total_bytes (sch_jobs s) \<and>
     length (sch_jobs s) \<le> lim_submissions (sch_limits s) \<and>
     length (receipts (sch_jobs s)) \<le> lim_in_flight (sch_limits s) \<and>
     (\<forall>j \<in> set (sch_jobs s). job_sized sz (lim_stream_bytes (sch_limits s)) j) \<and>
     (lim_pending_bytes (sch_limits s) < usize_limit - 1 \<longrightarrow> length (sch_jobs s) > 1 \<longrightarrow>
        sch_bytes s \<le> lim_pending_bytes (sch_limits s))"

lemma sum_sizes_Some: "sum_sizes sz cs acc = Some n \<Longrightarrow> n = acc + sum_list (map sz cs)"
proof (induction cs arbitrary: acc)
  case (Cons c cs)
  then have "sum_sizes sz cs (acc + sz c) = Some n"
    by (simp add: usize_checked_add_def split: if_splits)
  from Cons.IH [OF this] show ?case by simp
qed simp

lemma job_prepare_new:
  assumes "job_prepare sz alloc chunks owner signal limits = Inr job"
  shows "job_ident job = (chunks, owner, signal)" "job_next job = 0" "job_receipts job = []"
    and "job_bytes job = sum_list (map sz chunks)" "job_chunks job = chunks"
  using assms by (auto simp: job_prepare_def job_ident_def split: option.splits if_splits
      dest: sum_sizes_Some)

lemma total_bytes_append [simp]: "total_bytes (xs @ ys) = total_bytes xs + total_bytes ys"
  by (simp add: total_bytes_def)

lemma receipts_append [simp]: "receipts (xs @ ys) = receipts xs @ receipts ys"
  by (simp add: receipts_def)

lemma enqueue_prepared_ok:
  assumes "enqueue_prepared alloc s job = (Inr u, s')"
  shows "sch_failure s = None" "s' = s\<lparr>sch_jobs := sch_jobs s @ [job], sch_bytes := sch_bytes s + job_bytes job\<rparr>"
    and "job_bytes job \<le> lim_stream_bytes (sch_limits s)"
    and "length (sch_jobs s) < lim_submissions (sch_limits s)"
    and "sch_jobs s \<noteq> [] \<Longrightarrow>
      usize_saturating_add (sch_bytes s) (job_bytes job) \<le> lim_pending_bytes (sch_limits s)"
  using assms by (auto simp: enqueue_prepared_def Let_def split: option.splits if_splits)

lemma enqueue_prepared_err:
  "enqueue_prepared alloc s job = (Inl e, s') \<Longrightarrow> s' = s"
  by (auto simp: enqueue_prepared_def Let_def split: option.splits if_splits)

lemma budget_enqueue:
  assumes inv: "budget_inv sz s" and ok: "enqueue_prepared alloc s job = (Inr u, s')"
    and job: "job_receipts job = []" "job_bytes job = sum_list (map sz (job_chunks job))"
  shows "budget_inv sz s'"
proof -
  note e = enqueue_prepared_ok [OF ok]
  have "sch_bytes s + job_bytes job \<le> lim_pending_bytes (sch_limits s)"
    if "lim_pending_bytes (sch_limits s) < usize_limit - 1" "sch_jobs s \<noteq> []"
    using e(5) [OF that(2)] that(1) by (auto simp: usize_saturating_add_def)
  moreover have "job_sized sz (lim_stream_bytes (sch_limits s)) job"
    using e(3) job(2) by (simp add: job_sized_def)
  ultimately show ?thesis
    using inv e(2,4) job(1) by (auto simp: budget_inv_def)
qed

lemma budget_same:
  assumes inv: "budget_inv sz s" and ident: "map job_ident js = map job_ident (sch_jobs s)"
    and bytes: "map job_bytes js = map job_bytes (sch_jobs s)"
    and rcpts: "length (receipts js) \<le> lim_in_flight (sch_limits s)"
  shows "budget_inv sz (s\<lparr>sch_jobs := js\<rparr>)"
proof -
  have len: "length js = length (sch_jobs s)" using bytes by (metis length_map)
  have total: "total_bytes js = total_bytes (sch_jobs s)" using bytes by (simp add: total_bytes_def)
  have "job_sized sz (lim_stream_bytes (sch_limits s)) (js ! i)" if i: "i < length js" for i
  proof -
    have "job_ident (js ! i) = job_ident (sch_jobs s ! i)" "job_bytes (js ! i) = job_bytes (sch_jobs s ! i)"
      using ident bytes i len by (metis nth_map)+
    moreover have "job_sized sz (lim_stream_bytes (sch_limits s)) (sch_jobs s ! i)"
      using inv i len by (simp add: budget_inv_def)
    ultimately show ?thesis by (simp add: job_sized_def job_ident_def)
  qed
  then have "\<forall>j \<in> set js. job_sized sz (lim_stream_bytes (sch_limits s)) j"
    by (simp add: all_set_conv_all_nth)
  with len total show ?thesis using inv rcpts by (auto simp: budget_inv_def)
qed

lemma budget_retired:
  assumes inv: "budget_inv sz s" and gone: "sch_jobs s = gone @ js"
  shows "budget_inv sz (s\<lparr>sch_jobs := js, sch_bytes := sch_bytes s - total_bytes gone\<rparr>)"
  using inv gone by (auto simp: budget_inv_def)

definition run_inv ::
    "('c \<Rightarrow> usize) \<Rightarrow> ('c, 'o, nat \<times> 'r, 's, 'e) scheduler \<Rightarrow> ('w, 'c, 'o, 's, 'e) trace \<Rightarrow>
     ('c list \<times> 'o \<times> 's) list \<Rightarrow> bool"
where
  "run_inv sz s tr adm \<longleftrightarrow> budget_inv sz s \<and>
     (case sch_failure s of
        None \<Rightarrow> live_inv (sch_jobs s) tr adm
      | Some e \<Rightarrow> sch_jobs s = [] \<and> dead_inv tr adm)"

lemma budget_failed: "budget_inv sz (s\<lparr>sch_failure := f, sch_jobs := [], sch_bytes := 0\<rparr>)"
  by (simp add: budget_inv_def)

lemma fail_inv:
  assumes "live_inv (sch_jobs s) tr adm" and "fail (recorded T) tr s e = (tr', s')"
  shows "run_inv sz s' tr' adm"
  using live_fail [OF assms] fail_trace(3) [OF assms(2)] budget_failed
  by (simp add: run_inv_def)

lemma advance_idle:
  "sch_jobs s = [] \<Longrightarrow> advance T w s = (False, w, s)"
  by (simp add: advance_def)

text \<open>One step of the worker, in three stages.\<close>

lemma advance_inv:
  assumes inv: "run_inv sz s tr adm" and step: "advance (recorded T) tr s = (res, tr', s')"
  shows "run_inv sz s' tr' adm \<and> (\<not> res \<longrightarrow> s' = s)"
proof (cases "sch_failure s")
  case (Some e)
  with inv have "sch_jobs s = []" by (simp add: run_inv_def)
  from advance_idle [OF this, of "recorded T" tr] step inv show ?thesis by simp
next
  case None
  have budget: "budget_inv sz s" and live: "live_inv (sch_jobs s) tr adm"
    using inv None by (simp_all add: run_inv_def)
  obtain r1 w1 js1 where p1: "poll_jobs (recorded T) tr (sch_jobs s) False = (r1, w1, js1)"
    by (metis prod_cases3)
  note poll = poll_jobs_trace [OF p1, of 0] and live1 = live_poll [OF live p1]
  then have same: "list_all2 same_job (sch_jobs s) js1" by blast
  note same1 = same_jobs [OF same]
  let ?s1 = "s\<lparr>sch_jobs := js1\<rparr>"
  have budget1: "budget_inv sz ?s1"
    by (rule budget_same [OF budget]) (use same1 poll budget in \<open>auto simp: budget_inv_def\<close>)
  show ?thesis
  proof (cases r1)
    case (Inl e)
    then have "res" and "fail (recorded T) w1 ?s1 e = (tr', s')"
      using step p1 by (auto simp: advance_def)
    then show ?thesis using fail_inv [of ?s1 w1 adm T e tr' s' sz] live1 by simp
  next
    case (Inr q)
    obtain w2 js2 b2 p2 where p2: "retire_jobs (recorded T) w1 js1 (sch_bytes s) q = (w2, js2, b2, p2)"
      by (metis prod_cases4)
    have "total_bytes js1 \<le> sch_bytes s" using budget1 by (simp add: budget_inv_def)
    note retire = live_retire [OF live1 p2 this]
    then obtain gone where gone: "js1 = gone @ js2" "b2 = sch_bytes s - total_bytes gone" by blast
    let ?s2 = "s\<lparr>sch_jobs := js2, sch_bytes := b2\<rparr>"
    have budget2: "budget_inv sz ?s2"
      using budget_retired [OF budget1, of gone js2] gone by simp
    obtain flow w3 js3 p3 where p3: "dispatch_jobs (recorded T) (lim_in_flight (sch_limits s)) w2 js2
        (length (receipts js2)) p2 = (flow, w3, js3, p3)" by (metis prod_cases4)
    have live2: "live_inv js2 w2 adm" using retire by blast
    note live3 = live_dispatch [OF live2 p3]
    have d: "map job_ident js3 = map job_ident js2 \<and> map job_bytes js3 = map job_bytes js2 \<and>
        length (receipts js3) \<le> lim_in_flight (sch_limits s) \<and> (\<not> p3 \<longrightarrow> js3 = js2 \<and> \<not> p2)"
    proof -
      obtain front where "adm = front @ map job_ident js2"
        "tr_submitted w2 = all_chunks front @ submitted_of js2"
        "accounted (tr_retired w2) (length (all_chunks front)) js2" "in_order js2"
        using live2 by (auto simp: live_inv_def)
      from dispatch_jobs_trace [OF p3 this(3,4,2) refl] budget2
      show ?thesis by (auto simp: budget_inv_def)
    qed
    have budget3: "budget_inv sz (?s2\<lparr>sch_jobs := js3\<rparr>)"
      by (rule budget_same [OF budget2]) (use d in simp_all)
    show ?thesis
    proof (cases "\<exists>e. flow = Fail e")
      case True
      then obtain e where "res" and "fail (recorded T) w3 (?s2\<lparr>sch_jobs := js3\<rparr>) e = (tr', s')"
        using step p1 p2 p3 Inr by (auto simp: advance_def Let_def)
      then show ?thesis using fail_inv [of "?s2\<lparr>sch_jobs := js3\<rparr>" w3 adm T e tr' s' sz] live3 by simp
    next
      case False
      then have out: "res = p3" "tr' = w3" "s' = ?s2\<lparr>sch_jobs := js3\<rparr>"
        using step p1 p2 p3 Inr by (cases flow; auto simp: advance_def Let_def)+
      have "s' = s" if "\<not> res"
      proof -
        have "js3 = js2 \<and> \<not> p2" using d that out by simp
        moreover have "js2 = js1 \<and> \<not> q" using retire calculation by blast
        moreover have "js1 = sch_jobs s" using poll Inr calculation by auto
        moreover have "gone = []" using gone calculation by simp
        ultimately show ?thesis using out gone by simp
      qed
      then show ?thesis
        using budget3 live3 None out by (simp add: run_inv_def)
    qed
  qed
qed

lemma sched_step_inv:
  fixes T :: "('w, 'c, 'o, 'r, 's, 'e) transport"
  assumes inv: "run_inv (t_size T) s tr adm" and step: "sched_step T op (s, tr, adm) = (s', tr', adm')"
  shows "run_inv (t_size T) s' tr' adm'"
proof (cases op)
  case (Enqueue limits alloc chunks owner signal)
  show ?thesis
  proof (cases "job_prepare (t_size T) alloc chunks owner signal limits
      :: 'e admission_error + ('c, 'o, nat \<times> 'r, 's) job")
    case (Inl e)
    then show ?thesis using inv step Enqueue by simp
  next
    case (Inr job)
    note new = job_prepare_new [OF Inr]
    obtain r s1 where e: "enqueue_prepared alloc s job = (r, s1)" by fastforce
    show ?thesis
    proof (cases r)
      case (Inl x)
      with enqueue_prepared_err e have "s1 = s" by fast
      then show ?thesis using inv step Enqueue Inr e Inl by simp
    next
      case ok: (Inr u)
      note e' = e [unfolded ok]
      have out: "s' = s1" "tr' = tr" "adm' = adm @ [job_ident job]"
        using step Enqueue Inr e' new(1) by auto
      have "budget_inv (t_size T) s1"
        by (rule budget_enqueue [OF _ e']) (use inv new in \<open>simp_all add: run_inv_def\<close>)
      moreover have "live_inv (sch_jobs s @ [job]) tr (adm @ [job_ident job])"
        by (rule live_enqueue) (use inv new enqueue_prepared_ok(1) [OF e'] in \<open>simp_all add: run_inv_def\<close>)
      ultimately show ?thesis
        using enqueue_prepared_ok(1,2) [OF e'] out by (simp add: run_inv_def)
    qed
  qed
next
  case Advance
  obtain r w s1 where a: "advance (recorded T) tr s = (r, w, s1)" by (metis prod_cases3)
  with advance_inv [OF inv a] step Advance show ?thesis by simp
next
  case (FailWith e)
  obtain w s1 where f: "fail (recorded T) tr s e = (w, s1)" by fastforce
  then have out: "s' = s1" "tr' = w" "adm' = adm" using step FailWith by simp_all
  show ?thesis
  proof (cases "sch_failure s")
    case None
    with inv have "live_inv (sch_jobs s) tr adm" by (simp add: run_inv_def)
    from fail_inv [OF this f] out show ?thesis by simp
  next
    case (Some x)
    with inv have "sch_jobs s = []" "dead_inv tr adm" by (simp_all add: run_inv_def)
    with dead_fail [of tr adm s T e w s1] f fail_trace(3) [OF f] out budget_failed
    show ?thesis by (simp add: run_inv_def)
  qed
next
  case (Outside f)
  then show ?thesis using inv step
    by (auto simp: run_inv_def live_inv_def dead_inv_def split: option.splits)
qed

lemma sched_run_inv:
  "foldl (\<lambda>x op. sched_step T op x) (sched_start limits w) ops = (s, tr, adm) \<Longrightarrow>
   run_inv (t_size T) s tr adm"
proof (induction ops arbitrary: s tr adm rule: rev_induct)
  case Nil
  then show ?case
    by (auto simp: sched_start_def scheduler_new_def run_inv_def budget_inv_def live_inv_def
        completions_justified_def)
next
  case (snoc op ops)
  obtain s1 tr1 adm1 where before:
    "foldl (\<lambda>x op. sched_step T op x) (sched_start limits w) ops = (s1, tr1, adm1)"
    by (metis prod_cases3)
  then have "sched_step T op (s1, tr1, adm1) = (s, tr, adm)" using snoc.prems by simp
  with snoc.IH [OF before] show ?case by (blast dest: sched_step_inv)
qed

lemma sched_step_limits: "sch_limits (fst (sched_step T op (s, tr, adm))) = sch_limits s"
  by (cases op) (auto simp: enqueue_prepared_def fail_def advance_def Let_def
      split: sum.splits option.splits prod.splits flow.splits)

section \<open>A willing transport is used to capacity\<close>

definition willing :: "('w, 'c, 'o, 'r, 's, 'e) transport \<Rightarrow> bool" where
  "willing T \<longleftrightarrow> (\<forall>w c. fst (t_ready T w c) = Inr True) \<and>
     (\<forall>w owner c. \<exists>r. fst (t_submit T w owner c) = Inr r) \<and>
     (\<forall>w r. \<exists>b. fst (t_poll T w r) = Inr b)"

lemma dispatch_job_willing:
  assumes "willing T" and "dispatch_job T limit w j n p = (flow, w', j', n', p')"
    and "job_next j \<le> length (job_chunks j)"
  shows "(flow = Proceed \<and> job_next j' = length (job_chunks j') \<or> flow = Return \<and> limit \<le> n') \<and>
    n' + length (job_receipts j) = n + length (job_receipts j')"
  using assms
proof (induction T limit w j n p arbitrary: flow w' j' n' p' rule: dispatch_job.induct)
  case (1 T limit w j n p)
  note unfold = dispatch_job.simps [of T limit w j n p]
  show ?case
  proof (cases "get (job_chunks j) (job_next j)")
    case None
    with "1.prems" show ?thesis by (auto simp: unfold get_None)
  next
    case (Some c)
    show ?thesis
    proof (cases "limit \<le> n")
      case True
      with "1.prems" Some show ?thesis by (auto simp: unfold)
    next
      case False
      obtain w1 where x: "t_ready T w c = (Inr True, w1)"
        using "1.prems"(1) unfolding willing_def by (metis prod.collapse)
      obtain r w2 where y: "t_submit T w1 (job_owner j) c = (Inr r, w2)"
        using "1.prems"(1) unfolding willing_def by (metis prod.collapse)
      let ?j = "j\<lparr>job_receipts := job_receipts j @ [r], job_next := job_next j + 1\<rparr>"
      have rec: "dispatch_job T limit w2 ?j (n + 1) True = (flow, w', j', n', p')"
        using "1.prems"(2) Some False x y by (simp add: unfold)
      have le: "job_next ?j \<le> length (job_chunks ?j)" using Some by (simp add: get_Some)
      show ?thesis
        using "1.IH" [OF Some False x [symmetric] refl refl y [symmetric] refl "1.prems"(1) rec le]
        by auto
    qed
  qed
qed

lemma dispatch_jobs_willing:
  "willing T \<Longrightarrow> dispatch_jobs T limit w js n p = (flow, w', js', p') \<Longrightarrow>
   \<forall>j \<in> set js. job_next j \<le> length (job_chunks j) \<Longrightarrow>
   flow = Proceed \<and> (\<forall>j \<in> set js'. job_next j = length (job_chunks j)) \<or>
   flow = Return \<and> limit + length (receipts js) \<le> n + length (receipts js')"
proof (induction js arbitrary: w n p flow w' js' p')
  case (Cons j js)
  obtain f w1 j1 n1 p1 where d: "dispatch_job T limit w j n p = (f, w1, j1, n1, p1)"
    by (metis prod_cases5)
  have one: "(f = Proceed \<and> job_next j1 = length (job_chunks j1) \<or> f = Return \<and> limit \<le> n1) \<and>
      n1 + length (job_receipts j) = n + length (job_receipts j1)"
    by (rule dispatch_job_willing [OF Cons.prems(1) d]) (use Cons.prems(3) in simp)
  show ?case
  proof (cases f)
    case Proceed
    obtain g w2 js2 p2 where go: "dispatch_jobs T limit w1 js n1 p1 = (g, w2, js2, p2)"
      by (metis prod_cases4)
    have "flow = g \<and> js' = j1 # js2" using Cons.prems(2) d go Proceed by simp
    with Cons.IH [OF Cons.prems(1) go] Cons.prems(3) one Proceed show ?thesis by auto
  next
    case Return
    with Cons.prems(2) d one show ?thesis by auto
  next
    case (Fail e)
    with one show ?thesis by simp
  qed
qed simp

lemma poll_receipts_willing:
  "willing T \<Longrightarrow> \<exists>b. fst (poll_receipts T w rs i p) = Inr b"
proof (induction T w rs i p rule: poll_receipts.induct)
  case (1 T w rs i p)
  show ?case
  proof (cases "get rs i")
    case None
    then show ?thesis by (simp add: poll_receipts.simps [of T w rs i p])
  next
    case (Some r)
    obtain b w1 where x: "t_poll T w r = (Inr b, w1)"
      using "1.prems" unfolding willing_def by (metis prod.collapse)
    show ?thesis
      using "1.IH"(1) [OF Some x [symmetric] refl _ "1.prems"]
        "1.IH"(2) [OF Some x [symmetric] refl _ "1.prems"]
      by (cases b) (simp_all add: poll_receipts.simps [of T w rs i p] Some x)
  qed
qed

lemma poll_jobs_willing:
  assumes "willing T"
  shows "\<exists>b. fst (poll_jobs T w js p) = Inr b"
proof (induction js arbitrary: w p)
  case (Cons j js)
  obtain b w1 rs where x: "poll_receipts T w (job_receipts j) 0 p = (Inr b, w1, rs)"
    using poll_receipts_willing [OF assms] by (metis prod.collapse)
  obtain res w2 js2 where y: "poll_jobs T w1 js b = (res, w2, js2)" by (metis prod_cases3)
  with Cons.IH [of w1 b] x show ?case by simp
qed simp

lemma willing_recorded: "willing T \<Longrightarrow> willing (recorded T)"
  unfolding willing_def recorded_def
  by (auto split: prod.splits sum.splits bool.splits) (metis fst_conv sum.distinct(1))+

lemma sched_run_limits:
  "foldl (\<lambda>x op. sched_step T op x) (sched_start limits w) ops = (s, tr, adm) \<Longrightarrow> sch_limits s = limits"
proof (induction ops arbitrary: s tr adm rule: rev_induct)
  case Nil
  then show ?case by (auto simp: sched_start_def scheduler_new_def)
next
  case (snoc op ops)
  obtain s1 tr1 adm1 where before:
    "foldl (\<lambda>x op. sched_step T op x) (sched_start limits w) ops = (s1, tr1, adm1)"
    by (metis prod_cases3)
  then have "sched_step T op (s1, tr1, adm1) = (s, tr, adm)" using snoc.prems by simp
  with snoc.IH [OF before] show ?case using sched_step_limits [of T op s1 tr1 adm1] by simp
qed

section \<open>Properties\<close>

text \<open>A transport that accepts and finishes everything at once, for the examples.\<close>

definition instant_transport :: "(unit, nat, unit, unit, nat, nat) transport" where
  "instant_transport =
     \<lparr>t_size = (\<lambda>c. c), t_ready = (\<lambda>w c. (Inr True, w)), t_submit = (\<lambda>w owner c. (Inr (), w)),
      t_poll = (\<lambda>w r. (Inr True, w)), t_complete = (\<lambda>w s x. w)\<rparr>"

definition small_limits :: limits where
  "small_limits = \<lparr>lim_submissions = 2, lim_pending_bytes = 10, lim_stream_bytes = 10, lim_in_flight = 1\<rparr>"

definition small_run where
  "small_run = foldl (\<lambda>x op. sched_step instant_transport op x) (sched_start small_limits ())
     [Enqueue small_limits (\<lambda>_. True) [3, 4] () 7, Enqueue small_limits (\<lambda>_. True) [2] () 8, Advance]"

lemmas small_run_simps =
  small_run_def instant_transport_def small_limits_def sched_start_def scheduler_new_def
  job_prepare_def enqueue_prepared_def usize_checked_add_def usize_saturating_add_def
  usize_limit_def advance_def recorded_def poll_receipts.simps dispatch_job.simps get_def

lemma small_run_eq:
  "small_run =
     (\<lparr>sch_jobs = [\<lparr>job_chunks = [3, 4], job_owner = (), job_signal = 7, job_next = 1,
                    job_receipts = [(0, ())], job_bytes = 7\<rparr>,
                   \<lparr>job_chunks = [2], job_owner = (), job_signal = 8, job_next = 0,
                    job_receipts = [], job_bytes = 2\<rparr>],
       sch_bytes = 9, sch_failure = None, sch_limits = small_limits\<rparr>,
      \<lparr>tr_world = (), tr_submitted = [((), 3)], tr_retired = {}, tr_completed = []\<rparr>,
      [([3, 4], (), 7), ([2], (), 8)])"
  by (simp add: small_run_simps)

text \<open>
  C9. Dispatch and completion keep the admission order. Whatever the transport answers and
  whatever else happens, the chunks accepted so far are a prefix of the chunks of all admitted
  jobs in order, so none is replayed, skipped or overtaken; the completions are a prefix of the
  jobs; success is only ever reported once every chunk up to the job's last has been retired; and
  after a failure every admitted job has been completed exactly once.
\<close>

theorem jobs_run_in_order:
  assumes "foldl (\<lambda>x op. sched_step T op x) (sched_start limits w) ops = (s, tr, adm)"
  shows "(\<exists>k. tr_submitted tr = take k (all_chunks adm)) \<and>
    (\<exists>m. map fst (tr_completed tr) = take m (signals adm)) \<and>
    completions_justified adm (tr_completed tr) \<and>
    (case sch_failure s of
       None \<Rightarrow> \<forall>c \<in> set (tr_completed tr). fst (snd c) = Inr ()
     | Some e \<Rightarrow> sch_jobs s = [] \<and> map fst (tr_completed tr) = signals adm)"
proof -
  have inv: "run_inv (t_size T) s tr adm" by (rule sched_run_inv [OF assms])
  show ?thesis
  proof (cases "sch_failure s")
    case None
    then have live: "live_inv (sch_jobs s) tr adm" using inv by (simp add: run_inv_def)
    then obtain front where f: "adm = front @ map job_ident (sch_jobs s)"
        "map fst (tr_completed tr) = signals front"
      and ok: "\<forall>c \<in> set (tr_completed tr). fst (snd c) = Inr ()"
        "completions_justified adm (tr_completed tr)"
      by (auto simp: live_inv_def)
    have "map fst (tr_completed tr) = take (length front) (signals adm)"
      using f by simp
    then have "\<exists>m. map fst (tr_completed tr) = take m (signals adm)" by blast
    with live_submitted_prefix [OF live] ok None show ?thesis by simp
  next
    case (Some e)
    then have "dead_inv tr adm" "sch_jobs s = []" using inv by (simp_all add: run_inv_def)
    moreover have "\<exists>m. signals adm = take m (signals adm)"
      by (rule exI [of _ "length adm"]) simp
    ultimately show ?thesis using Some by (simp add: dead_inv_def)
  qed
qed

theorem jobs_run_in_order_witness:
  "\<exists>k. [((), 3)] = take k (all_chunks [([3, 4], (), 7 :: nat), ([2 :: nat], (), 8)])"
  using jobs_run_in_order [OF small_run_eq [unfolded small_run_def]] by simp

text \<open>
  C10. The budgets of the scheduler. At every moment the admitted jobs, the native submissions in
  flight and the bytes of each stream are within their limits, and the byte counter is the sum of the
  sizes of the chunks that are still queued. The pending bytes are within their limit whenever more
  than one job is queued, for every limit below the largest \<open>usize\<close>, at which the saturating sum of
  the code stops: an empty queue admits one job of any size within the stream limit, so a job that is
  alone may exceed it.
\<close>

theorem scheduler_budgets:
  assumes "foldl (\<lambda>x op. sched_step T op x) (sched_start limits w) ops = (s, tr, adm)"
  shows "length (sch_jobs s) \<le> lim_submissions limits \<and>
    length (receipts (sch_jobs s)) \<le> lim_in_flight limits \<and>
    sch_bytes s = sum_list (map (t_size T) (concat (map job_chunks (sch_jobs s)))) \<and>
    (\<forall>j \<in> set (sch_jobs s). sum_list (map (t_size T) (job_chunks j)) \<le> lim_stream_bytes limits) \<and>
    (lim_pending_bytes limits < usize_limit - 1 \<longrightarrow> length (sch_jobs s) > 1 \<longrightarrow>
       sch_bytes s \<le> lim_pending_bytes limits)"
proof -
  have inv: "budget_inv (t_size T) s" and lim: "sch_limits s = limits"
    using sched_run_inv [OF assms] sched_run_limits [OF assms] by (simp_all add: run_inv_def)
  then have sized: "\<forall>j \<in> set (sch_jobs s). job_sized (t_size T) (lim_stream_bytes limits) j"
    by (simp add: budget_inv_def)
  have "total_bytes js = sum_list (map (t_size T) (concat (map job_chunks js)))"
    if "\<forall>j \<in> set js. job_sized (t_size T) (lim_stream_bytes limits) j" for js
    using that
  proof (induction js)
    case (Cons j js)
    then have "job_bytes j = sum_list (map (t_size T) (job_chunks j))" by (simp add: job_sized_def)
    with Cons show ?case by simp
  qed simp
  note total = this [OF sized]
  have "\<forall>j \<in> set (sch_jobs s). sum_list (map (t_size T) (job_chunks j)) \<le> lim_stream_bytes limits"
    using sized by (auto simp: job_sized_def)
  then show ?thesis
    using inv unfolding lim budget_inv_def total by blast
qed

theorem scheduler_budgets_witness:
  "length (receipts (sch_jobs (fst small_run))) \<le> 1 \<and> sch_bytes (fst small_run) = 3 + 4 + 2"
  using scheduler_budgets [OF small_run_eq [unfolded small_run_def]]
  by (simp add: small_run_eq small_limits_def)

text \<open>
  C11. A step of the worker makes progress when it can: if the transport is willing, one \<open>advance\<close>
  leaves either every chunk dispatched or the in-flight budget used up, and never fails the
  queue; and an \<open>advance\<close> that reports no progress has changed nothing.
\<close>

theorem advance_uses_capacity:
  assumes T: "willing T"
    and run: "foldl (\<lambda>x op. sched_step T op x) (sched_start limits w) ops = (s, tr, adm)"
    and alive: "sch_failure s = None"
    and step: "advance (recorded T) tr s = (res, tr', s')"
  shows "sch_failure s' = None \<and>
    ((\<forall>j \<in> set (sch_jobs s'). job_next j = length (job_chunks j)) \<or>
     length (receipts (sch_jobs s')) = lim_in_flight limits) \<and>
    (\<not> res \<longrightarrow> s' = s)"
proof -
  have inv: "run_inv (t_size T) s tr adm" and lim: "sch_limits s = limits"
    using sched_run_inv [OF run] sched_run_limits [OF run] by simp_all
  note after = advance_inv [OF inv step]
  obtain b w1 js1 where p1: "poll_jobs (recorded T) tr (sch_jobs s) False = (Inr b, w1, js1)"
    using poll_jobs_willing [OF willing_recorded [OF T]] by (metis prod.collapse)
  obtain w2 js2 b2 p2 where p2: "retire_jobs (recorded T) w1 js1 (sch_bytes s) b = (w2, js2, b2, p2)"
    by (metis prod_cases4)
  obtain flow w3 js3 p3 where p3: "dispatch_jobs (recorded T) (lim_in_flight limits) w2 js2
      (length (receipts js2)) p2 = (flow, w3, js3, p3)" by (metis prod_cases4)
  have live: "live_inv (sch_jobs s) tr adm" using inv alive by (simp add: run_inv_def)
  have bytes: "total_bytes js1 \<le> sch_bytes s"
  proof -
    have "list_all2 same_job (sch_jobs s) js1" using poll_jobs_trace [OF p1] by blast
    then have "total_bytes js1 = total_bytes (sch_jobs s)"
      using same_jobs by (metis total_bytes_def)
    then show ?thesis using inv by (simp add: run_inv_def budget_inv_def)
  qed
  have "live_inv js2 w2 adm"
    using live_retire [OF live_poll [OF live p1] p2 bytes] by blast
  then have "in_order js2" by (simp add: live_inv_def)
  then have "\<forall>j \<in> set js2. job_next j \<le> length (job_chunks j)" by (induction js2) auto
  note d = dispatch_jobs_willing [OF willing_recorded [OF T] p3 this]
  then have out: "s' = s\<lparr>sch_bytes := b2, sch_jobs := js3\<rparr>"
    using step p1 p2 p3 lim by (auto simp: advance_def Let_def)
  then have "length (receipts js3) \<le> lim_in_flight limits"
    using after lim by (simp add: run_inv_def budget_inv_def)
  then show ?thesis using d out alive after by auto
qed

theorem advance_uses_capacity_witness:
  "sch_failure (snd (snd (advance (recorded instant_transport) (fst (snd small_run)) (fst small_run)))) = None"
proof -
  have willing: "willing instant_transport"
    by (auto simp: willing_def instant_transport_def)
  obtain res tr' s' where a: "advance (recorded instant_transport) (fst (snd small_run)) (fst small_run)
      = (res, tr', s')" by (metis prod_cases3)
  show ?thesis
    using advance_uses_capacity [OF willing small_run_eq [unfolded small_run_def] _ a [unfolded small_run_eq fst_conv snd_conv]]
    unfolding a by simp
qed

end
