(* ===== verification/Resource_Desc.thy ===== *)
theory Resource_Desc
  imports Ir_Types
begin

text \<open>
  The resource descriptors of \<^verbatim>\<open>crates/sgfx-core/src/ir/resource.rs\<close> (formats, usages, textures,
  buffers, samplers, uploads), the texture views of \<^verbatim>\<open>texture_view.rs\<close> and the color write mask of
  \<^verbatim>\<open>render_target.rs\<close>. Getters are the record selectors. The invariant \<open>texture_ok\<close> states what
  the constructor and every builder establish, whatever their order.
\<close>

section \<open>Formats\<close>

datatype texture_format =
    Bgra8Unorm
  | Bgra8UnormSrgb
  | Rgba8Unorm
  | Rgba8UnormSrgb
  | R8Unorm
  | Rg8Unorm
  | Nv12
  | Depth32Float
  | Rgba16Float
  | Rgba32Float

definition blit_compatible :: "texture_format \<Rightarrow> texture_format \<Rightarrow> bool" where
  "blit_compatible a b \<longleftrightarrow>
     (a \<in> {Rgba8Unorm, Bgra8Unorm} \<and> b \<in> {Rgba8Unorm, Bgra8Unorm}) \<or>
     (a = Rgba16Float \<and> b = Rgba16Float) \<or>
     (a = Rgba32Float \<and> b = Rgba32Float) \<or>
     (a = R8Unorm \<and> b = R8Unorm) \<or>
     (a = Rg8Unorm \<and> b = Rg8Unorm) \<or>
     (a \<in> {R8Unorm, Rg8Unorm} \<and> b \<in> {Rgba8Unorm, Bgra8Unorm})"

fun bytes_per_pixel :: "texture_format \<Rightarrow> u32 option" where
  "bytes_per_pixel Bgra8Unorm = Some 4"
| "bytes_per_pixel Rgba8Unorm = Some 4"
| "bytes_per_pixel Bgra8UnormSrgb = Some 4"
| "bytes_per_pixel Rgba8UnormSrgb = Some 4"
| "bytes_per_pixel Depth32Float = Some 4"
| "bytes_per_pixel Rgba16Float = Some 8"
| "bytes_per_pixel Rgba32Float = Some 16"
| "bytes_per_pixel R8Unorm = Some 1"
| "bytes_per_pixel Rg8Unorm = Some 2"
| "bytes_per_pixel Nv12 = None"

definition view_compatible :: "texture_format \<Rightarrow> texture_format \<Rightarrow> bool" where
  "view_compatible a b \<longleftrightarrow>
     (a \<in> {Bgra8Unorm, Bgra8UnormSrgb} \<and> b \<in> {Bgra8Unorm, Bgra8UnormSrgb}) \<or>
     (a \<in> {Rgba8Unorm, Rgba8UnormSrgb} \<and> b \<in> {Rgba8Unorm, Rgba8UnormSrgb}) \<or>
     (a = Rgba16Float \<and> b = Rgba16Float) \<or>
     (a = Rgba32Float \<and> b = Rgba32Float) \<or>
     (a = R8Unorm \<and> b = R8Unorm) \<or>
     (a = Rg8Unorm \<and> b = Rg8Unorm) \<or>
     (a = Depth32Float \<and> b = Depth32Float)"

text \<open>A view reinterprets texels of one size.\<close>

lemma view_compatible_bytes: "view_compatible a b \<Longrightarrow> bytes_per_pixel a = bytes_per_pixel b"
  by (auto simp: view_compatible_def)

lemma view_compatible_symp: "view_compatible a b = view_compatible b a"
  by (auto simp: view_compatible_def)

section \<open>Usage sets\<close>

text \<open>Texture and buffer usages are bit sets in one byte; both types share these operations.\<close>

type_synonym usage = u8

definition usage_contains :: "usage \<Rightarrow> usage \<Rightarrow> bool" where
  "usage_contains u other \<longleftrightarrow> u AND other = other"

definition usage_union :: "usage \<Rightarrow> usage \<Rightarrow> usage" where
  "usage_union u other = u OR other"

abbreviation "TEX_SAMPLED \<equiv> (0x01 :: usage)"
abbreviation "TEX_RENDER_ATTACHMENT \<equiv> (0x02 :: usage)"
abbreviation "TEX_COPY_SRC \<equiv> (0x04 :: usage)"
abbreviation "TEX_COPY_DST \<equiv> (0x08 :: usage)"
abbreviation "TEX_PRESENT \<equiv> (0x10 :: usage)"
abbreviation "TEX_STORAGE \<equiv> (0x20 :: usage)"

abbreviation "BUF_VERTEX \<equiv> (0x01 :: usage)"
abbreviation "BUF_INDEX \<equiv> (0x02 :: usage)"
abbreviation "BUF_COPY_SRC \<equiv> (0x04 :: usage)"
abbreviation "BUF_COPY_DST \<equiv> (0x08 :: usage)"
abbreviation "BUF_UNIFORM \<equiv> (0x10 :: usage)"
abbreviation "BUF_STORAGE \<equiv> (0x20 :: usage)"

lemma usage_contains_bits: "usage_contains u v \<longleftrightarrow> (\<forall>n. bit v n \<longrightarrow> bit u n)"
proof -
  have "bit v n \<Longrightarrow> n < 8" for n
    using bit_imp_le_length [of v n] by simp
  then show ?thesis by (auto simp: usage_contains_def bit_eq_iff bit_simps)
qed

lemma usage_contains_union:
  "usage_contains (usage_union u v) w \<longleftrightarrow> (\<forall>n. bit w n \<longrightarrow> bit u n \<or> bit v n)"
  by (simp add: usage_contains_bits usage_union_def bit_simps)

lemma usage_union_contains [simp]:
  "usage_contains (usage_union u v) u" "usage_contains (usage_union u v) v"
  by (simp_all add: usage_contains_bits usage_union_def bit_simps)

section \<open>Textures\<close>

datatype ycbcr_matrix = Bt601 | Bt709
datatype ycbcr_range = RangeLimited | RangeFull
datatype chroma_location = Cosited | Midpoint

record ycbcr_conversion =
  yc_matrix :: ycbcr_matrix
  yc_range :: ycbcr_range
  yc_chroma_x :: chroma_location
  yc_chroma_y :: chroma_location

record texture_desc =
  tex_format :: texture_format
  tex_extent :: extent2d
  tex_usage :: usage
  tex_mips :: u32
  tex_layers :: u32
  tex_cube :: bool
  tex_1d :: bool

definition texture_desc_new :: "texture_format \<Rightarrow> extent2d \<Rightarrow> usage \<Rightarrow> texture_desc ir_result" where
  "texture_desc_new format extent usage =
     (if (format = Nv12 \<and> usage \<noteq> TEX_SAMPLED) \<or>
         usage = 0 \<or>
         (usage_contains usage TEX_STORAGE \<and> format \<noteq> Rgba8Unorm) \<or>
         (format = Depth32Float \<and>
          usage AND NOT (TEX_RENDER_ATTACHMENT OR TEX_SAMPLED OR TEX_COPY_SRC OR TEX_COPY_DST) \<noteq> 0)
      then Inl InvalidDescriptor
      else Inr \<lparr>tex_format = format, tex_extent = extent, tex_usage = usage, tex_mips = 1,
                tex_layers = 1, tex_cube = False, tex_1d = False\<rparr>)"

text \<open>\<open>u32::ilog2\<close> of a nonzero value.\<close>

fun ilog2 :: "nat \<Rightarrow> nat" where
  "ilog2 n = (if n < 2 then 0 else Suc (ilog2 (n div 2)))"

declare ilog2.simps [simp del]

definition tex_max_mips :: "extent2d \<Rightarrow> u32" where
  "tex_max_mips e = of_nat (ilog2 (unat (max (ext_width e) (ext_height e)))) + 1"

definition with_mip_level_count :: "texture_desc \<Rightarrow> u32 \<Rightarrow> texture_desc ir_result" where
  "with_mip_level_count t count =
     (if count = 0 \<or> count > tex_max_mips (tex_extent t) \<or>
         (count > 1 \<and> (tex_format t \<in> {Depth32Float, Nv12} \<or> usage_contains (tex_usage t) TEX_PRESENT))
      then Inl InvalidDescriptor
      else Inr (t\<lparr>tex_mips := count\<rparr>))"

definition with_array_layer_count :: "texture_desc \<Rightarrow> u32 \<Rightarrow> texture_desc ir_result" where
  "with_array_layer_count t count =
     (if count = 0 \<or> count > 2048 \<or>
         (count \<noteq> 1 \<and> (usage_contains (tex_usage t) TEX_PRESENT \<or> tex_format t = Nv12)) \<or>
         (tex_cube t \<and> count < 6)
      then Inl InvalidDescriptor
      else Inr (t\<lparr>tex_layers := count\<rparr>))"

definition with_cube_compatible :: "texture_desc \<Rightarrow> bool \<Rightarrow> texture_desc ir_result" where
  "with_cube_compatible t compatible =
     (if compatible \<and> (tex_1d t \<or> tex_layers t < 6 \<or>
                       ext_width (tex_extent t) \<noteq> ext_height (tex_extent t))
      then Inl InvalidDescriptor
      else Inr (t\<lparr>tex_cube := compatible\<rparr>))"

definition with_dimension_1d :: "texture_desc \<Rightarrow> bool \<Rightarrow> texture_desc ir_result" where
  "with_dimension_1d t one_d =
     (if one_d \<and> (ext_height (tex_extent t) \<noteq> 1 \<or> tex_cube t \<or> tex_format t = Nv12 \<or>
                  usage_contains (tex_usage t) TEX_PRESENT)
      then Inl InvalidDescriptor
      else Inr (t\<lparr>tex_1d := one_d\<rparr>))"

definition mip_extent :: "texture_desc \<Rightarrow> u32 \<Rightarrow> extent2d ir_result" where
  "mip_extent t level =
     (if level \<ge> tex_mips t then Inl OutOfBounds
      else extent2d_new (max (drop_bit (unat level) (ext_width (tex_extent t))) 1)
                        (max (drop_bit (unat level) (ext_height (tex_extent t))) 1))"

text \<open>\<open>u32::div_ceil(2)\<close>\<close>

definition half_up :: "u32 \<Rightarrow> u32" where
  "half_up x = (if x mod 2 = 0 then x div 2 else x div 2 + 1)"

definition level_bytes :: "texture_format \<Rightarrow> extent2d \<Rightarrow> u64 ir_result" where
  "level_bytes format e =
     and_then (ok_or (checked_mul (ucast (ext_width e)) (ucast (ext_height e))) Overflow) (\<lambda>pixels.
     if format = Nv12
     then
       and_then (ok_or (Option.bind
           (checked_mul (ucast (half_up (ext_width e))) (ucast (half_up (ext_height e))))
           (\<lambda>v. checked_mul v 2)) Overflow) (\<lambda>chroma.
       ok_or (checked_add pixels chroma) Overflow)
     else
       and_then (ok_or (bytes_per_pixel format) InvalidDescriptor) (\<lambda>bpp.
       ok_or (checked_mul pixels (ucast bpp)) Overflow))"

fun sum_levels :: "texture_desc \<Rightarrow> nat list \<Rightarrow> u64 \<Rightarrow> u64 ir_result" where
  "sum_levels t [] acc = Inr acc"
| "sum_levels t (level # levels) acc =
     and_then (mip_extent t (of_nat level)) (\<lambda>e.
     and_then (level_bytes (tex_format t) e) (\<lambda>bytes.
     and_then (ok_or (checked_add acc bytes) Overflow) (\<lambda>acc'.
     sum_levels t levels acc')))"

definition tex_byte_size :: "texture_desc \<Rightarrow> u64 ir_result" where
  "tex_byte_size t =
     and_then (sum_levels t [0 ..< unat (tex_mips t)] 0) (\<lambda>total.
     ok_or (checked_mul total (ucast (tex_layers t))) Overflow)"

section \<open>Buffers, samplers and uploads\<close>

record buffer_desc =
  buf_size :: u64
  buf_usage :: usage

definition buffer_desc_new :: "u64 \<Rightarrow> usage \<Rightarrow> buffer_desc ir_result" where
  "buffer_desc_new len usage =
     (if len = 0 \<or> usage = 0 then Inl InvalidDescriptor
      else Inr \<lparr>buf_size = len, buf_usage = usage\<rparr>)"

datatype filter_mode = Nearest | Linear

datatype address_mode = ClampToEdge | Repeat | MirrorRepeat | ClampToBorder

datatype compare_function =
    Never | Less | Equal | LessEqual | Greater | NotEqual | GreaterEqual | Always

record sampler_desc =
  smp_min_filter :: filter_mode
  smp_mag_filter :: filter_mode
  smp_address_u :: address_mode
  smp_address_v :: address_mode
  smp_mip_filter :: filter_mode
  smp_min_lod_bits :: u32
  smp_max_lod_bits :: u32
  smp_compare :: "compare_function option"
  smp_anisotropy :: u8

definition sampler_desc_new ::
    "filter_mode \<Rightarrow> filter_mode \<Rightarrow> address_mode \<Rightarrow> address_mode \<Rightarrow> sampler_desc"
where
  "sampler_desc_new min_filter mag_filter address_u address_v =
     \<lparr>smp_min_filter = min_filter, smp_mag_filter = mag_filter, smp_address_u = address_u,
      smp_address_v = address_v, smp_mip_filter = Nearest, smp_min_lod_bits = 0,
      smp_max_lod_bits = 0, smp_compare = None, smp_anisotropy = 1\<rparr>"

definition with_mip_filter :: "sampler_desc \<Rightarrow> filter_mode \<Rightarrow> f32 \<Rightarrow> f32 \<Rightarrow> sampler_desc ir_result" where
  "with_mip_filter s mode min_lod max_lod =
     (if \<not> f32_is_finite min_lod \<or> \<not> f32_is_finite max_lod \<or> f32_less max_lod min_lod
      then Inl InvalidValue
      else Inr (s\<lparr>smp_mip_filter := mode,
                  smp_min_lod_bits := (if f32_eq_zero min_lod then 0 else min_lod),
                  smp_max_lod_bits := (if f32_eq_zero max_lod then 0 else max_lod)\<rparr>))"

definition with_anisotropy :: "sampler_desc \<Rightarrow> u8 \<Rightarrow> sampler_desc ir_result" where
  "with_anisotropy s maximum =
     (if \<not> (1 \<le> maximum \<and> maximum \<le> 16) then Inl InvalidValue
      else Inr (s\<lparr>smp_anisotropy := maximum\<rparr>))"

definition with_compare :: "sampler_desc \<Rightarrow> compare_function option \<Rightarrow> sampler_desc" where
  "with_compare s compare = s\<lparr>smp_compare := compare\<rparr>"

record texture_write =
  tw_destination :: pixel_rect
  tw_bytes_per_row :: u32
  tw_data :: "u8 list"
  tw_mip :: u32
  tw_layer :: u32

definition texture_write_new :: "pixel_rect \<Rightarrow> u32 \<Rightarrow> u8 list \<Rightarrow> texture_write ir_result" where
  "texture_write_new destination bytes_per_row data =
     (if bytes_per_row = 0 then Inl InvalidValue
      else Inr \<lparr>tw_destination = destination, tw_bytes_per_row = bytes_per_row, tw_data = data,
                tw_mip = 0, tw_layer = 0\<rparr>)"

definition with_mip_level :: "texture_write \<Rightarrow> u32 \<Rightarrow> texture_write" where
  "with_mip_level w level = w\<lparr>tw_mip := level\<rparr>"

definition with_array_layer :: "texture_write \<Rightarrow> u32 \<Rightarrow> texture_write" where
  "with_array_layer w layer = w\<lparr>tw_layer := layer\<rparr>"

section \<open>Views\<close>

datatype view_dimension = D1 | D1Array | D2 | D2Array | Cube

record view_desc =
  view_format :: texture_format
  view_dim :: view_dimension
  view_base_mip :: u32
  view_mips :: u32
  view_base_layer :: u32
  view_layers :: u32

definition view_validate :: "view_desc \<Rightarrow> texture_desc \<Rightarrow> unit ir_result" where
  "view_validate v t =
     (if \<not> view_compatible (tex_format t) (view_format v) \<or>
         tex_1d t \<noteq> (view_dim v \<in> {D1, D1Array})
      then Inl InvalidDescriptor
      else if view_mips v = 0 \<or> view_layers v = 0 \<or>
              (case checked_add (view_base_mip v) (view_mips v) of
                 None \<Rightarrow> True | Some stop \<Rightarrow> stop > tex_mips t) \<or>
              (case checked_add (view_base_layer v) (view_layers v) of
                 None \<Rightarrow> True | Some stop \<Rightarrow> stop > tex_layers t)
      then Inl OutOfBounds
      else if view_dim v \<in> {D1, D2} \<and> view_layers v \<noteq> 1 then Inl InvalidDescriptor
      else if view_dim v = Cube \<and>
              (view_layers v \<noteq> 6 \<or> ext_width (tex_extent t) \<noteq> ext_height (tex_extent t))
      then Inl InvalidDescriptor
      else Inr ())"

definition view_desc_new ::
    "texture_desc \<Rightarrow> texture_format \<Rightarrow> view_dimension \<Rightarrow> u32 \<Rightarrow> u32 \<Rightarrow> u32 \<Rightarrow> u32 \<Rightarrow> view_desc ir_result"
where
  "view_desc_new t format dim base_mip mips base_layer layers =
     (let view = \<lparr>view_format = format, view_dim = dim, view_base_mip = base_mip, view_mips = mips,
                  view_base_layer = base_layer, view_layers = layers\<rparr>
      in and_then (view_validate view t) (\<lambda>_. Inr view))"

section \<open>Color write masks\<close>

type_synonym write_mask = u8

definition write_mask_from_bits :: "u8 \<Rightarrow> write_mask ir_result" where
  "write_mask_from_bits bits = (if bits AND NOT 15 \<noteq> 0 then Inl InvalidValue else Inr bits)"

section \<open>What a texture descriptor guarantees\<close>

definition texture_ok :: "texture_desc \<Rightarrow> bool" where
  "texture_ok t \<longleftrightarrow>
     extent_ok (tex_extent t) \<and> tex_usage t \<noteq> 0 \<and>
     1 \<le> tex_mips t \<and> tex_mips t \<le> tex_max_mips (tex_extent t) \<and>
     1 \<le> tex_layers t \<and> tex_layers t \<le> 2048 \<and>
     (tex_cube t \<longrightarrow> 6 \<le> tex_layers t \<and> \<not> tex_1d t \<and>
        ext_width (tex_extent t) = ext_height (tex_extent t)) \<and>
     (tex_1d t \<longrightarrow> ext_height (tex_extent t) = 1) \<and>
     (tex_format t = Nv12 \<longrightarrow> tex_usage t = TEX_SAMPLED \<and> tex_layers t = 1 \<and> \<not> tex_1d t) \<and>
     (tex_format t \<in> {Nv12, Depth32Float} \<longrightarrow> tex_mips t = 1) \<and>
     (usage_contains (tex_usage t) TEX_PRESENT \<longrightarrow>
        tex_mips t = 1 \<and> tex_layers t = 1 \<and> \<not> tex_1d t) \<and>
     (usage_contains (tex_usage t) TEX_STORAGE \<longrightarrow> tex_format t = Rgba8Unorm) \<and>
     (tex_format t = Depth32Float \<longrightarrow> \<not> usage_contains (tex_usage t) TEX_PRESENT)"

lemma ilog2_bounds: "0 < n \<Longrightarrow> 2 ^ ilog2 n \<le> n \<and> n < 2 ^ Suc (ilog2 n)"
proof (induction n rule: ilog2.induct)
  case (1 n)
  show ?case
  proof (cases "n < 2")
    case True
    with 1 have "n = 1" by simp
    then show ?thesis by (simp add: ilog2.simps)
  next
    case False
    then have "2 ^ ilog2 (n div 2) \<le> n div 2 \<and> n div 2 < 2 ^ Suc (ilog2 (n div 2))"
      using "1.IH" by simp
    with False show ?thesis by (subst (1 2) ilog2.simps) auto
  qed
qed

lemma ilog2_less: "0 < n \<Longrightarrow> n < 2 ^ k \<Longrightarrow> ilog2 n < k"
  using ilog2_bounds [of n] by (meson le_less_trans less_imp_le power_less_imp_less_exp
      numeral_less_iff one_less_numeral_iff semiring_norm(76))

lemma tex_max_mips_unat:
  assumes "extent_ok e"
  shows "unat (tex_max_mips e) = Suc (ilog2 (max (unat (ext_width e)) (unat (ext_height e))))"
    and "unat (tex_max_mips e) \<le> 32"
proof -
  let ?m = "max (unat (ext_width e)) (unat (ext_height e))"
  have m: "unat (max (ext_width e) (ext_height e)) = ?m"
    by (simp add: max_def word_le_nat_alt)
  have "0 < ?m" using assms by (simp add: extent_ok_def unat_gt_0 max_def)
  moreover have "?m < 2 ^ 32" by simp
  ultimately have lt: "ilog2 ?m < 32" by (rule ilog2_less)
  have "unat (of_nat (ilog2 ?m) :: u32) = ilog2 ?m"
    using lt by (simp add: unat_of_nat)
  then show "unat (tex_max_mips e) = Suc (ilog2 ?m)"
    using lt by (simp add: tex_max_mips_def m unat_word_ariths)
  with lt show "unat (tex_max_mips e) \<le> 32" by simp
qed

lemma tex_max_mips_pos: "extent_ok e \<Longrightarrow> 1 \<le> tex_max_mips e"
  using tex_max_mips_unat(1) [of e] by (simp add: word_le_nat_alt)

section \<open>Every construction keeps the guarantees\<close>

lemma texture_desc_new_ok:
  assumes "extent_ok e" and "texture_desc_new format e usage = Inr t"
  shows "texture_ok t"
proof -
  have t: "t = \<lparr>tex_format = format, tex_extent = e, tex_usage = usage, tex_mips = 1, tex_layers = 1,
      tex_cube = False, tex_1d = False\<rparr>"
    and nv12: "format = Nv12 \<longrightarrow> usage = TEX_SAMPLED" and ne: "usage \<noteq> 0"
    and storage: "usage_contains usage TEX_STORAGE \<longrightarrow> format = Rgba8Unorm"
    and depth: "format = Depth32Float \<longrightarrow> usage AND NOT 0x0F = 0"
    using assms(2) by (auto simp: texture_desc_new_def split: if_splits)
  have "\<not> usage_contains usage TEX_PRESENT" if "format = Depth32Float"
  proof
    assume "usage_contains usage TEX_PRESENT"
    then have "usage AND 0x10 = 0x10" by (simp add: usage_contains_def)
    then have "(usage AND NOT 0x0F) AND 0x10 = 0x10"
      by (simp add: and.assoc and.left_commute [of _ usage] and.commute)
    with depth that show False by simp
  qed
  then show ?thesis
    unfolding t texture_ok_def using assms(1) nv12 ne storage tex_max_mips_pos [OF assms(1)]
    by (simp add: usage_contains_def)
qed

lemma with_mip_level_count_ok:
  assumes "texture_ok t" and "with_mip_level_count t n = Inr t'"
  shows "texture_ok t'"
proof -
  have t': "t' = t\<lparr>tex_mips := n\<rparr>" and n: "n \<noteq> 0" "n \<le> tex_max_mips (tex_extent t)"
    and one: "n > 1 \<longrightarrow> tex_format t \<notin> {Depth32Float, Nv12} \<and> \<not> usage_contains (tex_usage t) TEX_PRESENT"
    using assms(2) by (auto simp: with_mip_level_count_def not_less split: if_splits)
  have "1 \<le> n" using n(1) by (simp add: word_le_nat_alt unat_gt_0 Suc_le_eq)
  moreover have "\<not> n > 1 \<Longrightarrow> n = 1" using calculation by simp
  ultimately show ?thesis
    using assms(1) n one unfolding t' texture_ok_def by auto
qed

lemma with_array_layer_count_ok:
  assumes "texture_ok t" and "with_array_layer_count t n = Inr t'"
  shows "texture_ok t'"
proof -
  have t': "t' = t\<lparr>tex_layers := n\<rparr>" and n: "n \<noteq> 0" "n \<le> 2048"
    and one: "n \<noteq> 1 \<longrightarrow> tex_format t \<noteq> Nv12 \<and> \<not> usage_contains (tex_usage t) TEX_PRESENT"
    and cube: "tex_cube t \<longrightarrow> 6 \<le> n"
    using assms(2) by (auto simp: with_array_layer_count_def not_less split: if_splits)
  have "1 \<le> n" using n(1) by (simp add: word_le_nat_alt unat_gt_0 Suc_le_eq)
  then show ?thesis
    using assms(1) n one cube unfolding t' texture_ok_def by auto
qed

lemma with_cube_compatible_ok:
  assumes "texture_ok t" and "with_cube_compatible t b = Inr t'"
  shows "texture_ok t'"
proof -
  have t': "t' = t\<lparr>tex_cube := b\<rparr>"
    and cube: "b \<longrightarrow> \<not> tex_1d t \<and> 6 \<le> tex_layers t \<and> ext_width (tex_extent t) = ext_height (tex_extent t)"
    using assms(2) unfolding with_cube_compatible_def not_less [symmetric] by (simp_all split: if_splits)
  have sel: "tex_format t' = tex_format t" "tex_extent t' = tex_extent t" "tex_usage t' = tex_usage t" "tex_mips t' = tex_mips t" "tex_layers t' = tex_layers t" "tex_cube t' = b" "tex_1d t' = tex_1d t"
    by (simp_all add: t')
  show ?thesis
    using assms(1) cube unfolding texture_ok_def sel by blast
qed

lemma with_dimension_1d_ok:
  assumes "texture_ok t" and "with_dimension_1d t b = Inr t'"
  shows "texture_ok t'"
proof -
  have t': "t' = t\<lparr>tex_1d := b\<rparr>"
    and one: "b \<longrightarrow> ext_height (tex_extent t) = 1 \<and> \<not> tex_cube t \<and> tex_format t \<noteq> Nv12 \<and>
      \<not> usage_contains (tex_usage t) TEX_PRESENT"
    using assms(2) unfolding with_dimension_1d_def by (simp_all split: if_splits)
  have sel: "tex_format t' = tex_format t" "tex_extent t' = tex_extent t" "tex_usage t' = tex_usage t" "tex_mips t' = tex_mips t" "tex_layers t' = tex_layers t" "tex_cube t' = tex_cube t" "tex_1d t' = b"
    by (simp_all add: t')
  show ?thesis
    using assms(1) one unfolding texture_ok_def sel by blast
qed

section \<open>Mip chains\<close>

lemma unat_max: "unat (max a b :: 'a::len word) = max (unat a) (unat b)"
  by (simp add: max_def word_le_nat_alt)

lemma mip_extent_eq:
  assumes t: "texture_ok t" and level: "level < tex_mips t"
  obtains e where "mip_extent t level = Inr e" and "extent_ok e"
    and "unat (ext_width e) = max (unat (ext_width (tex_extent t)) div 2 ^ unat level) 1"
    and "unat (ext_height e) = max (unat (ext_height (tex_extent t)) div 2 ^ unat level) 1"
proof -
  let ?dim = "\<lambda>x. max (drop_bit (unat level) x) (1 :: u32)"
  have pos: "?dim x \<noteq> 0" for x
    by (auto simp: max_def)
  have dim: "unat (drop_bit (unat level) x) = unat x div 2 ^ unat level" for x :: u32
    by (subst unat_drop_bit_eq) (rule drop_bit_eq_div)
  have val: "unat (?dim x) = max (unat x div 2 ^ unat level) 1" for x :: u32
    unfolding dim [symmetric] unat_max by simp
  have "mip_extent t level = Inr \<lparr>ext_width = ?dim (ext_width (tex_extent t)),
      ext_height = ?dim (ext_height (tex_extent t))\<rparr>"
    using level pos by (simp add: mip_extent_def extent2d_new_iff not_le)
  then show thesis
    by (rule that) (simp_all add: val pos extent_ok_def)
qed

section \<open>Byte sizes\<close>

definition level_size :: "texture_format \<Rightarrow> nat \<Rightarrow> nat \<Rightarrow> nat" where
  "level_size format w h =
     (case bytes_per_pixel format of
        Some bpp \<Rightarrow> w * h * unat bpp
      | None \<Rightarrow> w * h + (w + 1) div 2 * ((h + 1) div 2) * 2)"

definition texture_size :: "texture_desc \<Rightarrow> nat" where
  "texture_size t = unat (tex_layers t) *
     sum_list (map (\<lambda>l. level_size (tex_format t)
         (max (unat (ext_width (tex_extent t)) div 2 ^ l) 1)
         (max (unat (ext_height (tex_extent t)) div 2 ^ l) 1)) [0 ..< unat (tex_mips t)])"

text \<open>A checked result: the exact value when it fits 64 bits.\<close>

definition exactly :: "nat \<Rightarrow> u64 ir_result" where
  "exactly n = (if n < 2 ^ 64 then Inr (of_nat n) else Inl Overflow)"

lemma exactly_mul: "ok_or (checked_mul a b) Overflow = exactly (unat a * unat (b :: u64))"
  by (simp add: exactly_def checked_mul_def)

lemma exactly_add: "ok_or (checked_add a b) Overflow = exactly (unat a + unat (b :: u64))"
  by (simp add: exactly_def checked_add_def)

lemma exactly_then:
  assumes "\<And>x. unat x = n \<Longrightarrow> k x = exactly m" and "n \<le> m"
  shows "and_then (exactly n) k = exactly m"
proof (cases "n < 2 ^ 64")
  case True
  then have "unat (of_nat n :: u64) = n" by (simp add: unat_of_nat)
  with True assms(1) show ?thesis by (simp add: exactly_def)
next
  case False
  with assms(2) show ?thesis by (simp add: exactly_def)
qed

lemma unat_ucast_u64 [simp]: "unat (ucast (x :: u32) :: u64) = unat x"
proof -
  have "unat x < 2 ^ 64" by (rule less_trans [OF unat_bounds(3)]) simp
  then show ?thesis by (simp add: unsigned_ucast_eq take_bit_nat_eq_self)
qed

lemma unat_half_up: "unat (half_up x) = (unat x + 1) div 2"
proof -
  have d: "unat (x div 2) = unat x div 2" and m: "unat (x mod 2) = unat x mod 2"
    by (simp_all add: unat_div_distrib unat_mod_distrib)
  have even_x: "x mod 2 = 0 \<longleftrightarrow> unat x mod 2 = 0"
    using m by (metis unat_0 unat_eq_zero)
  have "unat x div 2 < 2147483648" by (rule less_mult_imp_div_less) simp
  then have "unat (x div 2 + 1) = unat x div 2 + 1"
    by (simp add: unat_word_ariths d)
  then show ?thesis
    using d even_x by (auto simp: half_up_def) presburger+
qed

lemma level_bytes_eq:
  "level_bytes format e = exactly (level_size format (unat (ext_width e)) (unat (ext_height e)))"
proof (cases "format = Nv12")
  case True
  let ?w = "unat (ext_width e)" and ?h = "unat (ext_height e)"
  let ?c = "(?w + 1) div 2 * ((?h + 1) div 2)"
  have "ok_or (Option.bind (checked_mul (ucast (half_up (ext_width e))) (ucast (half_up (ext_height e))))
      (\<lambda>v. checked_mul v (2 :: u64))) Overflow =
    and_then (ok_or (checked_mul (ucast (half_up (ext_width e))) (ucast (half_up (ext_height e))) ) Overflow)
      (\<lambda>v. ok_or (checked_mul v (2 :: u64)) Overflow)"
    by (cases "checked_mul (ucast (half_up (ext_width e)) :: u64) (ucast (half_up (ext_height e)))") simp_all
  also have "\<dots> = exactly (?c * 2)"
    unfolding exactly_mul unat_ucast_u64 unat_half_up by (rule exactly_then) simp_all
  finally have chroma: "ok_or (Option.bind (checked_mul (ucast (half_up (ext_width e))) (ucast (half_up (ext_height e))))
      (\<lambda>v. checked_mul v (2 :: u64))) Overflow = exactly (?c * 2)" .
  show ?thesis
    unfolding level_bytes_def chroma exactly_mul exactly_add unat_ucast_u64 using True
    by (simp add: level_size_def) (intro exactly_then; simp)
next
  case False
  then obtain bpp where bpp: "bytes_per_pixel format = Some bpp" by (cases format) simp_all
  then have "unat bpp \<ge> 1" by (cases format) auto
  then show ?thesis
    unfolding level_bytes_def exactly_mul exactly_add unat_ucast_u64 using False bpp
    by (simp add: level_size_def) (intro exactly_then; simp)
qed

lemma exactly_then_next:
  assumes "\<And>x. unat x = n \<Longrightarrow> k x = exactly (n + m)"
  shows "and_then (exactly n) k = exactly (n + m)"
  using assms by (intro exactly_then) simp_all

lemma sum_levels_eq:
  assumes t: "texture_ok t"
  shows "\<forall>l \<in> set levels. l < unat (tex_mips t) \<Longrightarrow>
    sum_levels t levels acc = exactly (unat acc +
      sum_list (map (\<lambda>l. level_size (tex_format t)
         (max (unat (ext_width (tex_extent t)) div 2 ^ l) 1)
         (max (unat (ext_height (tex_extent t)) div 2 ^ l) 1)) levels))"
proof (induction levels arbitrary: acc)
  case Nil
  have "unat acc < 2 ^ 64" by simp
  then show ?case by (simp add: exactly_def)
next
  case (Cons l levels)
  have "l < unat (tex_mips t)" using Cons.prems by simp
  moreover have "unat (tex_mips t) \<le> 32"
    using t tex_max_mips_unat(2) [of "tex_extent t"] by (auto simp: texture_ok_def word_le_nat_alt)
  ultimately have l: "unat (of_nat l :: u32) = l" and lt: "(of_nat l :: u32) < tex_mips t"
    by (simp_all add: unat_of_nat word_less_nat_alt)
  obtain e where e: "mip_extent t (of_nat l) = Inr e"
    "unat (ext_width e) = max (unat (ext_width (tex_extent t)) div 2 ^ l) 1"
    "unat (ext_height e) = max (unat (ext_height (tex_extent t)) div 2 ^ l) 1"
    using mip_extent_eq [OF t lt] unfolding l by metis
  let ?n = "level_size (tex_format t)
         (max (unat (ext_width (tex_extent t)) div 2 ^ l) 1)
         (max (unat (ext_height (tex_extent t)) div 2 ^ l) 1)"
  let ?rest = "sum_list (map (\<lambda>l. level_size (tex_format t)
         (max (unat (ext_width (tex_extent t)) div 2 ^ l) 1)
         (max (unat (ext_height (tex_extent t)) div 2 ^ l) 1)) levels)"
  have "sum_levels t (l # levels) acc =
      and_then (exactly ?n) (\<lambda>bytes. and_then (exactly (unat acc + unat bytes)) (sum_levels t levels))"
    by (simp add: e level_bytes_eq exactly_add)
  also have "\<dots> = exactly (?n + (unat acc + ?rest))"
  proof (rule exactly_then_next)
    fix x :: u64 assume x: "unat x = ?n"
    have "and_then (exactly (unat acc + unat x)) (sum_levels t levels) =
        exactly (unat acc + unat x + ?rest)"
      by (rule exactly_then_next) (use Cons in simp)
    with x show "and_then (exactly (unat acc + unat x)) (sum_levels t levels) =
        exactly (?n + (unat acc + ?rest))"
      by (simp add: ac_simps)
  qed
  finally show ?case by (simp add: ac_simps)
qed

lemma tex_byte_size_eq:
  assumes t: "texture_ok t"
  shows "tex_byte_size t = exactly (texture_size t)"
proof -
  have layers: "1 \<le> unat (tex_layers t)"
    using t by (simp add: texture_ok_def word_le_nat_alt)
  show ?thesis
    unfolding tex_byte_size_def texture_size_def
    by (subst sum_levels_eq [OF t], simp)
      (rule exactly_then, simp_all add: exactly_mul mult.commute, use layers in simp)
qed

section \<open>Views select existing subresources\<close>

definition view_ok :: "view_desc \<Rightarrow> texture_desc \<Rightarrow> bool" where
  "view_ok v t \<longleftrightarrow>
     view_compatible (tex_format t) (view_format v) \<and>
     (tex_1d t \<longleftrightarrow> view_dim v \<in> {D1, D1Array}) \<and>
     view_mips v \<noteq> 0 \<and> view_layers v \<noteq> 0 \<and>
     unat (view_base_mip v) + unat (view_mips v) \<le> unat (tex_mips t) \<and>
     unat (view_base_layer v) + unat (view_layers v) \<le> unat (tex_layers t) \<and>
     (view_dim v \<in> {D1, D2} \<longrightarrow> view_layers v = 1) \<and>
     (view_dim v = Cube \<longrightarrow> view_layers v = 6 \<and>
        ext_width (tex_extent t) = ext_height (tex_extent t))"

lemma checked_end_le:
  "(case checked_add a b of None \<Rightarrow> True | Some stop \<Rightarrow> stop > limit) \<longleftrightarrow>
     \<not> unat a + unat b \<le> unat (limit :: u32)"
proof (cases "unat a + unat b < 2 ^ 32")
  case True
  then show ?thesis by (simp add: checked_add_def word_less_nat_alt unat_word_ariths not_le)
next
  case False
  moreover have "unat limit < 2 ^ 32" by simp
  ultimately have "unat limit < unat a + unat b" by linarith
  with False show ?thesis by (simp add: checked_add_def)
qed

lemma view_validate_iff: "view_validate v t = Inr u \<longleftrightarrow> view_ok v t"
  by (simp add: view_validate_def view_ok_def checked_end_le) blast

section \<open>Properties\<close>

datatype texture_builder = SetMips u32 | SetLayers u32 | SetCube bool | Set1d bool

fun build_texture :: "texture_desc \<Rightarrow> texture_builder list \<Rightarrow> texture_desc ir_result" where
  "build_texture t [] = Inr t"
| "build_texture t (SetMips n # bs) = and_then (with_mip_level_count t n) (\<lambda>t'. build_texture t' bs)"
| "build_texture t (SetLayers n # bs) = and_then (with_array_layer_count t n) (\<lambda>t'. build_texture t' bs)"
| "build_texture t (SetCube b # bs) = and_then (with_cube_compatible t b) (\<lambda>t'. build_texture t' bs)"
| "build_texture t (Set1d b # bs) = and_then (with_dimension_1d t b) (\<lambda>t'. build_texture t' bs)"

text \<open>
  C12. No order of builders reaches an ill-formed texture: whatever follows the constructor, the
  mip count fits the extent, layers are bounded, cubes are square with at least six layers and not
  one-dimensional, multi-plane and presentable images keep one level and one layer, storage is
  RGBA8 only and depth is never presented.
\<close>

theorem texture_builders_keep_guarantees:
  assumes "extent_ok e" and "and_then (texture_desc_new format e usage) (\<lambda>t. build_texture t bs) = Inr t'"
  shows "texture_ok t'"
proof -
  obtain t where t: "texture_desc_new format e usage = Inr t" and b: "build_texture t bs = Inr t'"
    using assms(2) by (auto simp: and_then_Inr_iff)
  have "texture_ok t" by (rule texture_desc_new_ok [OF assms(1) t])
  then show ?thesis using b
  proof (induction t bs rule: build_texture.induct)
    case (2 t n bs)
    then show ?case by (auto simp: and_then_Inr_iff dest: with_mip_level_count_ok)
  next
    case (3 t n bs)
    then show ?case by (auto simp: and_then_Inr_iff dest: with_array_layer_count_ok)
  next
    case (4 t b bs)
    then show ?case by (auto simp: and_then_Inr_iff dest: with_cube_compatible_ok)
  next
    case (5 t b bs)
    then show ?case by (auto simp: and_then_Inr_iff dest: with_dimension_1d_ok)
  qed simp
qed

theorem texture_builders_keep_guarantees_witness:
  "texture_ok \<lparr>tex_format = Rgba8Unorm, tex_extent = \<lparr>ext_width = 8, ext_height = 8\<rparr>,
     tex_usage = TEX_SAMPLED, tex_mips = 4, tex_layers = 6, tex_cube = True, tex_1d = False\<rparr>"
proof -
  have e: "extent_ok \<lparr>ext_width = 8, ext_height = 8\<rparr>" by (simp add: extent_ok_def)
  show ?thesis
    by (rule texture_builders_keep_guarantees [OF e, of Rgba8Unorm TEX_SAMPLED
          "[SetMips 4, SetLayers 6, SetCube True]"])
      (simp add: texture_desc_new_def with_mip_level_count_def with_array_layer_count_def
        with_cube_compatible_def tex_max_mips_def ilog2.simps usage_contains_def)
qed

text \<open>
  C13. The byte size is exact. It is the sum over the declared levels, each halved from the base
  and clamped to one texel, times the layers, two-plane formats with their subsampled chroma
  included; the code returns it whenever it fits 64 bits and reports an overflow otherwise.
\<close>

theorem texture_byte_size_exact:
  assumes "texture_ok t"
  shows "tex_byte_size t =
    (if texture_size t < 2 ^ 64 then Inr (of_nat (texture_size t)) else Inl Overflow)"
  using tex_byte_size_eq [OF assms] by (simp add: exactly_def)

theorem texture_byte_size_exact_witness:
  "tex_byte_size \<lparr>tex_format = Rgba8Unorm, tex_extent = \<lparr>ext_width = 5, ext_height = 3\<rparr>,
     tex_usage = TEX_SAMPLED, tex_mips = 3, tex_layers = 2, tex_cube = False, tex_1d = False\<rparr> =
   Inr (2 * 4 * (5 * 3 + 2 * 1 + 1 * 1))"
proof -
  let ?t = "\<lparr>tex_format = Rgba8Unorm, tex_extent = \<lparr>ext_width = 5, ext_height = 3\<rparr>,
     tex_usage = TEX_SAMPLED, tex_mips = 3, tex_layers = 2, tex_cube = False, tex_1d = False\<rparr>"
  have "texture_ok ?t"
    by (simp add: texture_ok_def extent_ok_def tex_max_mips_def ilog2.simps usage_contains_def)
  from texture_byte_size_exact [OF this] show ?thesis
    by (simp add: texture_size_def level_size_def upt_rec)
qed

text \<open>
  A view exists exactly when it selects subresources of the texture: construction succeeds iff
  the format reinterprets texels of the same class, the dimension agrees, and every selected mip
  level and layer is one the texture has, without wrapping.
\<close>

theorem view_selects_existing_subresources:
  "view_desc_new t format dim base_mip mips base_layer layers = Inr v \<longleftrightarrow>
     v = \<lparr>view_format = format, view_dim = dim, view_base_mip = base_mip, view_mips = mips,
          view_base_layer = base_layer, view_layers = layers\<rparr> \<and>
     view_compatible (tex_format t) format \<and> (tex_1d t \<longleftrightarrow> dim \<in> {D1, D1Array}) \<and>
     {unat base_mip ..< unat base_mip + unat mips} \<subseteq> {..< unat (tex_mips t)} \<and> mips \<noteq> 0 \<and>
     {unat base_layer ..< unat base_layer + unat layers} \<subseteq> {..< unat (tex_layers t)} \<and> layers \<noteq> 0 \<and>
     (dim \<in> {D1, D2} \<longrightarrow> layers = 1) \<and>
     (dim = Cube \<longrightarrow> layers = 6 \<and> ext_width (tex_extent t) = ext_height (tex_extent t))"
proof -
  have sub: "x \<noteq> 0 \<Longrightarrow> {unat b ..< unat b + unat x} \<subseteq> {..< n} \<longleftrightarrow> unat b + unat x \<le> n" for b x :: u32 and n
  proof -
    assume "x \<noteq> 0"
    then have "0 < unat x" by (simp add: unat_gt_0)
    then show ?thesis by (auto simp: subset_iff) (metis Suc_leI add_Suc_right add_diff_cancel_left'
          diff_Suc_less le_add1 less_imp_Suc_add less_add_same_cancel1 not_less)
  qed
  show ?thesis
    unfolding view_desc_new_def Let_def and_then_Inr_iff view_validate_iff view_ok_def
    using sub [of mips] sub [of layers] by auto
qed

theorem view_selects_existing_subresources_witness:
  "\<exists>v. view_desc_new \<lparr>tex_format = Rgba8Unorm, tex_extent = \<lparr>ext_width = 8, ext_height = 8\<rparr>,
     tex_usage = TEX_SAMPLED, tex_mips = 4, tex_layers = 6, tex_cube = True, tex_1d = False\<rparr>
     Rgba8UnormSrgb Cube 1 2 0 6 = Inr v"
  unfolding view_selects_existing_subresources
  by (auto simp: view_compatible_def)

end
