(* ===== verification/Pipeline_Desc.thy ===== *)
theory Pipeline_Desc
  imports Resource_Desc
begin

text \<open>
  \<^verbatim>\<open>crates/sgfx-core/src/ir/pipeline.rs\<close>: vertex layouts, topologies, blend, raster and depth state
  and the fixed-function render pipeline, with the color target of \<^verbatim>\<open>render_target.rs\<close>. The lemmas
  characterise what each validating constructor accepts.
\<close>

section \<open>Depth state\<close>

record depth_state =
  ds_format :: texture_format
  ds_compare :: compare_function
  ds_write :: bool

section \<open>Vertex layouts\<close>

abbreviation "MAX_VERTEX_ATTRIBUTES \<equiv> (16 :: nat)"
abbreviation "MAX_VERTEX_BUFFERS \<equiv> (8 :: nat)"

datatype vertex_format =
    Sint32 | Uint32 | Float16x2 | Float16x4 | Sint16x4 | Snorm10_10_10_2
  | Float32x2 | Float32x3 | Float32x4 | Unorm8x4 | Uint16x2 | Float32 | Snorm8x4 | Sint16x2
  | Uint32x2 | Uint32x3 | Uint32x4 | Sint32x2 | Sint32x3 | Sint32x4

definition vertex_byte_size :: "vertex_format \<Rightarrow> u32" where
  "vertex_byte_size f =
     (if f \<in> {Float32x2, Uint32x2, Sint32x2} then 8
      else if f \<in> {Float32x3, Uint32x3, Sint32x3} then 12
      else if f \<in> {Float32x4, Uint32x4, Sint32x4} then 16
      else if f \<in> {Float32, Unorm8x4, Sint32, Uint32, Float16x2, Snorm10_10_10_2, Uint16x2,
                   Snorm8x4, Sint16x2} then 4
      else 8)"

record vertex_attribute =
  va_location :: u32
  va_format :: vertex_format
  va_offset :: u32

datatype step_mode = StepVertex | StepInstance

record vertex_layout =
  vl_stride :: u32
  vl_attributes :: "vertex_attribute list"
  vl_step :: step_mode
  vl_divisor :: u32

definition attribute_rejected :: "u32 \<Rightarrow> vertex_attribute list \<Rightarrow> nat \<Rightarrow> bool" where
  "attribute_rejected stride attributes i =
     (let a = attributes ! i
      in (case checked_add (va_offset a) (vertex_byte_size (va_format a)) of
            None \<Rightarrow> True | Some stop \<Rightarrow> stop > stride) \<or>
         list_ex (\<lambda>other. va_location other = va_location a) (take i attributes))"

definition vertex_layout_new :: "u32 \<Rightarrow> vertex_attribute list \<Rightarrow> vertex_layout ir_result" where
  "vertex_layout_new stride attributes =
     (if stride = 0 \<or> attributes = [] \<or> length attributes > MAX_VERTEX_ATTRIBUTES
      then Inl InvalidDescriptor
      else if list_ex (attribute_rejected stride attributes) [0 ..< length attributes]
      then Inl InvalidDescriptor
      else Inr \<lparr>vl_stride = stride, vl_attributes = attributes, vl_step = StepVertex, vl_divisor = 1\<rparr>)"

definition with_step_mode :: "vertex_layout \<Rightarrow> step_mode \<Rightarrow> vertex_layout" where
  "with_step_mode l step =
     (let l' = l\<lparr>vl_step := step\<rparr> in if step = StepVertex then l'\<lparr>vl_divisor := 1\<rparr> else l')"

definition with_instance_divisor :: "vertex_layout \<Rightarrow> u32 \<Rightarrow> vertex_layout ir_result" where
  "with_instance_divisor l divisor =
     (if divisor = 0 \<or> (vl_step l = StepVertex \<and> divisor \<noteq> 1) then Inl InvalidDescriptor
      else Inr (l\<lparr>vl_divisor := divisor\<rparr>))"

section \<open>Topologies and index formats\<close>

datatype topology = TriangleList | TriangleStrip | TriangleFan | LineList | LineStrip | PointList

fun accepts_count :: "topology \<Rightarrow> u32 \<Rightarrow> bool" where
  "accepts_count TriangleList count \<longleftrightarrow> count \<noteq> 0 \<and> is_multiple_of count 3"
| "accepts_count TriangleStrip count \<longleftrightarrow> count \<ge> 3"
| "accepts_count TriangleFan count \<longleftrightarrow> count \<ge> 3"
| "accepts_count LineList count \<longleftrightarrow> count \<noteq> 0 \<and> is_multiple_of count 2"
| "accepts_count LineStrip count \<longleftrightarrow> count \<ge> 2"
| "accepts_count PointList count \<longleftrightarrow> count \<noteq> 0"

datatype index_format = Uint16 | IndexUint32

fun index_byte_size :: "index_format \<Rightarrow> u64" where
  "index_byte_size Uint16 = 2"
| "index_byte_size IndexUint32 = 4"

section \<open>Fragment, blend and raster state\<close>

datatype sample_mode = Rgba | RgbIgnoreAlpha | AlphaMask

datatype fragment_program =
    Solid
  | VertexColor
  | Texture sample_mode
  | TextureVertexColor sample_mode

record draw_uniforms =
  du_transform :: transform
  du_color :: color

datatype blend_factor =
    BlendZero | BlendOne | SourceAlpha | OneMinusSourceAlpha | DestinationAlpha
  | OneMinusDestinationAlpha | SourceColor | OneMinusSourceColor | DestinationColor
  | OneMinusDestinationColor

datatype blend_op = BlendAdd | BlendSubtract | BlendReverseSubtract | BlendMin | BlendMax

record blend_component =
  bc_source :: blend_factor
  bc_destination :: blend_factor
  bc_operation :: blend_op

record blend_state =
  bs_color :: blend_component
  bs_alpha :: blend_component

definition blend_component_new :: "blend_factor \<Rightarrow> blend_factor \<Rightarrow> blend_op \<Rightarrow> blend_component" where
  "blend_component_new s d op = \<lparr>bc_source = s, bc_destination = d, bc_operation = op\<rparr>"

definition blend_replace :: blend_state where
  "blend_replace =
     \<lparr>bs_color = blend_component_new BlendOne BlendZero BlendAdd,
      bs_alpha = blend_component_new BlendOne BlendZero BlendAdd\<rparr>"

definition blend_source_over :: blend_state where
  "blend_source_over =
     \<lparr>bs_color = blend_component_new SourceAlpha OneMinusSourceAlpha BlendAdd,
      bs_alpha = blend_component_new BlendOne OneMinusSourceAlpha BlendAdd\<rparr>"

definition blend_destination_in :: blend_state where
  "blend_destination_in =
     \<lparr>bs_color = blend_component_new BlendZero SourceAlpha BlendAdd,
      bs_alpha = blend_component_new BlendZero SourceAlpha BlendAdd\<rparr>"

datatype cull_mode = CullNone | CullFront | CullBack

datatype front_face = Clockwise | CounterClockwise

record raster_state =
  rs_bias_constant :: u32
  rs_bias_slope :: u32
  rs_cull :: cull_mode
  rs_front :: front_face

definition raster_state_new :: "cull_mode \<Rightarrow> front_face \<Rightarrow> raster_state" where
  "raster_state_new cull front =
     \<lparr>rs_bias_constant = 0, rs_bias_slope = 0, rs_cull = cull, rs_front = front\<rparr>"

definition with_depth_bias :: "raster_state \<Rightarrow> f32 \<Rightarrow> f32 \<Rightarrow> raster_state ir_result" where
  "with_depth_bias r constant slope =
     (if \<not> f32_is_finite constant \<or> \<not> f32_is_finite slope then Inl InvalidValue
      else Inr (r\<lparr>rs_bias_constant := (if f32_eq_zero constant then 0 else constant),
                  rs_bias_slope := (if f32_eq_zero slope then 0 else slope)\<rparr>))"

record color_target =
  ct_format :: texture_format
  ct_blend :: blend_state
  ct_mask :: write_mask

definition color_target_new :: "texture_format \<Rightarrow> blend_state \<Rightarrow> write_mask \<Rightarrow> color_target ir_result" where
  "color_target_new format blend write =
     (if format = Depth32Float then Inl InvalidDescriptor
      else Inr \<lparr>ct_format = format, ct_blend = blend, ct_mask = write\<rparr>)"

section \<open>Render pipelines\<close>

record render_pipeline =
  rp_target_format :: texture_format
  rp_topology :: topology
  rp_vertex :: vertex_layout
  rp_fragment :: fragment_program
  rp_blend :: blend_state
  rp_raster :: raster_state
  rp_depth :: "depth_state option"

text \<open>The format of the first attribute at a location.\<close>

definition location_format :: "vertex_layout \<Rightarrow> u32 \<Rightarrow> vertex_format option" where
  "location_format l loc =
     map_option va_format (find (\<lambda>a. va_location a = loc) (vl_attributes l))"

definition color_attribute :: "vertex_format option \<Rightarrow> bool" where
  "color_attribute f \<longleftrightarrow> f \<in> {Some Float32x3, Some Float32x4, Some Unorm8x4}"

fun fragment_attributes_valid :: "fragment_program \<Rightarrow> vertex_format option \<Rightarrow> vertex_format option \<Rightarrow> bool" where
  "fragment_attributes_valid Solid one two \<longleftrightarrow> True"
| "fragment_attributes_valid VertexColor one two \<longleftrightarrow> color_attribute one"
| "fragment_attributes_valid (Texture mode) one two \<longleftrightarrow> one = Some Float32x2"
| "fragment_attributes_valid (TextureVertexColor mode) one two \<longleftrightarrow>
     color_attribute one \<and> two = Some Float32x2"

definition render_pipeline_new ::
    "texture_format \<Rightarrow> topology \<Rightarrow> vertex_layout \<Rightarrow> fragment_program \<Rightarrow> blend_state \<Rightarrow> raster_state \<Rightarrow>
     render_pipeline ir_result"
where
  "render_pipeline_new target topo layout fragment blend raster =
     (if target = Depth32Float \<or> vl_step layout \<noteq> StepVertex then Inl InvalidDescriptor
      else if location_format layout 0 \<notin> {Some Float32x2, Some Float32x3, Some Float32x4}
      then Inl InvalidDescriptor
      else if \<not> fragment_attributes_valid fragment (location_format layout 1) (location_format layout 2)
      then Inl InvalidDescriptor
      else Inr \<lparr>rp_target_format = target, rp_topology = topo, rp_vertex = layout,
                rp_fragment = fragment, rp_blend = blend, rp_raster = raster, rp_depth = None\<rparr>)"

definition with_depth_state :: "render_pipeline \<Rightarrow> depth_state \<Rightarrow> render_pipeline ir_result" where
  "with_depth_state p depth =
     (if ds_format depth \<noteq> Depth32Float then Inl InvalidDescriptor
      else Inr (p\<lparr>rp_depth := Some depth\<rparr>))"

definition with_raster_state :: "render_pipeline \<Rightarrow> raster_state \<Rightarrow> render_pipeline" where
  "with_raster_state p raster = p\<lparr>rp_raster := raster\<rparr>"

section \<open>What a layout guarantees\<close>

definition layout_ok :: "vertex_layout \<Rightarrow> bool" where
  "layout_ok l \<longleftrightarrow> vl_stride l \<noteq> 0 \<and> vl_attributes l \<noteq> [] \<and>
     length (vl_attributes l) \<le> MAX_VERTEX_ATTRIBUTES \<and>
     distinct (map va_location (vl_attributes l)) \<and>
     (\<forall>a \<in> set (vl_attributes l).
        unat (va_offset a) + unat (vertex_byte_size (va_format a)) \<le> unat (vl_stride l)) \<and>
     vl_divisor l \<noteq> 0 \<and> (vl_step l = StepVertex \<longrightarrow> vl_divisor l = 1)"

lemma distinct_prefixes:
  "distinct (map f xs) \<longleftrightarrow> (\<forall>i < length xs. \<forall>y \<in> set (take i xs). f y \<noteq> f (xs ! i))"
proof (induction xs rule: rev_induct)
  case (snoc x xs)
  have "(\<forall>i < Suc (length xs). \<forall>y \<in> set (take i (xs @ [x])). f y \<noteq> f ((xs @ [x]) ! i)) \<longleftrightarrow>
      (\<forall>i < length xs. \<forall>y \<in> set (take i xs). f y \<noteq> f (xs ! i)) \<and> (\<forall>y \<in> set xs. f y \<noteq> f x)"
    by (auto simp: All_less_Suc nth_append)
  moreover have "(\<forall>y \<in> set xs. f y \<noteq> f x) \<longleftrightarrow> f x \<notin> f ` set xs"
    by (metis imageE image_eqI)
  ultimately show ?case using snoc by simp
qed simp

lemma layout_new_iff:
  "vertex_layout_new stride attributes = Inr l \<longleftrightarrow>
     l = \<lparr>vl_stride = stride, vl_attributes = attributes, vl_step = StepVertex, vl_divisor = 1\<rparr> \<and>
     layout_ok l"
proof -
  have "\<not> list_ex (attribute_rejected stride attributes) [0 ..< length attributes] \<longleftrightarrow>
      (\<forall>i < length attributes.
         unat (va_offset (attributes ! i)) + unat (vertex_byte_size (va_format (attributes ! i))) \<le> unat stride \<and>
         (\<forall>y \<in> set (take i attributes). va_location y \<noteq> va_location (attributes ! i)))"
    by (auto simp: list_ex_iff attribute_rejected_def checked_end_le Let_def)
  also have "\<dots> \<longleftrightarrow> (\<forall>a \<in> set attributes. unat (va_offset a) + unat (vertex_byte_size (va_format a)) \<le> unat stride) \<and>
      distinct (map va_location attributes)"
    unfolding distinct_prefixes all_set_conv_all_nth by blast
  finally show ?thesis
    by (auto simp: vertex_layout_new_def layout_ok_def not_less split: if_splits)
qed

lemma with_step_mode_ok: "layout_ok l \<Longrightarrow> layout_ok (with_step_mode l step)"
  by (cases step) (auto simp: with_step_mode_def layout_ok_def)

lemma with_instance_divisor_ok:
  "layout_ok l \<Longrightarrow> with_instance_divisor l d = Inr l' \<Longrightarrow> layout_ok l'"
  by (auto simp: with_instance_divisor_def layout_ok_def split: if_splits)

section \<open>Primitives\<close>

text \<open>How many primitives a draw of \<open>n\<close> vertices assembles, and how many vertices it leaves over.\<close>

fun primitives :: "topology \<Rightarrow> nat \<Rightarrow> nat" where
  "primitives TriangleList n = n div 3"
| "primitives TriangleStrip n = n - 2"
| "primitives TriangleFan n = n - 2"
| "primitives LineList n = n div 2"
| "primitives LineStrip n = n - 1"
| "primitives PointList n = n"

fun leftover :: "topology \<Rightarrow> nat \<Rightarrow> nat" where
  "leftover TriangleList n = n mod 3"
| "leftover LineList n = n mod 2"
| "leftover _ n = 0"

lemma is_multiple_of_unat:
  "b \<noteq> 0 \<Longrightarrow> is_multiple_of a b \<longleftrightarrow> unat a mod unat b = 0"
  by (simp add: is_multiple_of_def unat_mod_distrib flip: unat_eq_zero)

lemma word_ge_iff: "(b :: 'a::len word) \<le> a \<longleftrightarrow> unat b \<le> unat a"
  by (simp add: word_le_nat_alt)

section \<open>Properties\<close>

text \<open>
  C14. The vertex-layout constructor accepts exactly the strides and attribute lists whose layout
  is well formed (1 to 16 attributes, pairwise distinct locations, every attribute inside the
  stride as natural numbers, with no wrap-around). Changing the step mode, and setting a divisor
  the code accepts, keep the layout well formed: the divisor is never 0, and is 1 for a
  per-vertex layout.
\<close>

theorem vertex_layouts_well_formed:
  "(is_ok (vertex_layout_new stride attributes) \<longleftrightarrow>
      layout_ok \<lparr>vl_stride = stride, vl_attributes = attributes, vl_step = StepVertex, vl_divisor = 1\<rparr>) \<and>
   (vertex_layout_new stride attributes = Inr l \<longrightarrow>
      layout_ok (with_step_mode l step) \<and>
      (with_instance_divisor (with_step_mode l step) d = Inr l' \<longrightarrow>
         layout_ok l' \<and> layout_ok (with_step_mode l' step')))"
proof (cases "vertex_layout_new stride attributes")
  case (Inl e)
  then show ?thesis using layout_new_iff [of stride attributes] by auto
next
  case (Inr k)
  then have "k = \<lparr>vl_stride = stride, vl_attributes = attributes, vl_step = StepVertex, vl_divisor = 1\<rparr> \<and>
      layout_ok k"
    by (rule layout_new_iff [THEN iffD1])
  moreover have "layout_ok (with_step_mode k step)" if "layout_ok k"
    using that by (rule with_step_mode_ok)
  moreover have "layout_ok l' \<and> layout_ok (with_step_mode l' step')"
    if "layout_ok k" and "with_instance_divisor (with_step_mode k step) d = Inr l'"
    using with_instance_divisor_ok [OF with_step_mode_ok [OF that(1)] that(2)] with_step_mode_ok by simp
  ultimately show ?thesis using Inr by auto
qed

theorem vertex_layouts_well_formed_witness:
  "layout_ok
     \<lparr>vl_stride = 20, vl_attributes = [\<lparr>va_location = 0, va_format = Float32x3, va_offset = 0\<rparr>,
        \<lparr>va_location = 1, va_format = Float32x2, va_offset = 12\<rparr>], vl_step = StepInstance, vl_divisor = 4\<rparr>"
  using vertex_layouts_well_formed [where stride = 20 and
        attributes = "[\<lparr>va_location = 0, va_format = Float32x3, va_offset = 0\<rparr>,
          \<lparr>va_location = 1, va_format = Float32x2, va_offset = 12\<rparr>]" and step = StepInstance and d = 4]
  by (simp add: vertex_layout_new_def attribute_rejected_def checked_add_def vertex_byte_size_def
      with_step_mode_def with_instance_divisor_def)

text \<open>
  \<open>accepts_count\<close> admits a draw of \<open>count\<close> vertices exactly when the topology assembles at
  least one primitive from them and leaves no vertex over.
\<close>

theorem accepts_count_iff_whole_primitives:
  fixes count :: u32
  shows "accepts_count topo count \<longleftrightarrow>
    primitives topo (unat count) \<ge> 1 \<and> leftover topo (unat count) = 0"
proof (cases topo)
  case TriangleList
  then show ?thesis by (auto simp: is_multiple_of_unat unat_eq_zero [symmetric] simp del: unat_eq_zero)
next
  case LineList
  then show ?thesis by (auto simp: is_multiple_of_unat unat_eq_zero [symmetric] simp del: unat_eq_zero)
qed (auto simp: word_ge_iff unat_eq_zero [symmetric] simp del: unat_eq_zero)

end
