(* ===== verification/Shader.thy ===== *)
theory Shader
  imports Ir_Types
begin

text \<open>
  \<^verbatim>\<open>crates/sgfx-core/src/ir/shader.rs\<close>: stage sets and the structural check of shader modules. A
  \<open>String\<close> is the list of its UTF-8 bytes. The lemmas show that the SPIR-V reader accepts exactly
  the framings of instructions whose entry points are canonical encodings.
\<close>

section \<open>Stages\<close>

abbreviation "MAX_SPIRV_WORDS \<equiv> (1048576 :: nat)"
abbreviation "MAX_WGSL_BYTES \<equiv> (4194304 :: nat)"

datatype shader_stage = Vertex | Fragment | Compute

type_synonym shader_stages = u8

abbreviation "STAGE_VERTEX \<equiv> (1 :: shader_stages)"
abbreviation "STAGE_FRAGMENT \<equiv> (2 :: shader_stages)"
abbreviation "STAGE_COMPUTE \<equiv> (4 :: shader_stages)"

definition stages_contain :: "shader_stages \<Rightarrow> shader_stages \<Rightarrow> bool" where
  "stages_contain s other \<longleftrightarrow> s AND other = other"

definition stages_union :: "shader_stages \<Rightarrow> shader_stages \<Rightarrow> shader_stages" where
  "stages_union s other = s OR other"

fun stages_from :: "shader_stage \<Rightarrow> shader_stages" where
  "stages_from Vertex = STAGE_VERTEX"
| "stages_from Fragment = STAGE_FRAGMENT"
| "stages_from Compute = STAGE_COMPUTE"

section \<open>UTF-8\<close>

text \<open>
  What \<open>String::from_utf8\<close> accepts: the well-formed byte sequences of the Unicode standard, with
  no surrogate and no overlong form.
\<close>

definition utf8_tail :: "u8 \<Rightarrow> bool" where
  "utf8_tail b \<longleftrightarrow> 0x80 \<le> b \<and> b \<le> 0xbf"

definition utf8_second :: "u8 \<Rightarrow> u8 \<Rightarrow> bool" where
  "utf8_second a b \<longleftrightarrow>
     (if a = 0xe0 then 0xa0 \<le> b \<and> b \<le> 0xbf
      else if a = 0xed then 0x80 \<le> b \<and> b \<le> 0x9f
      else if a = 0xf0 then 0x90 \<le> b \<and> b \<le> 0xbf
      else if a = 0xf4 then 0x80 \<le> b \<and> b \<le> 0x8f
      else utf8_tail b)"

definition utf8_width :: "u8 \<Rightarrow> nat" where
  "utf8_width a =
     (if a \<le> 0x7f then 1 else if 0xc2 \<le> a \<and> a \<le> 0xdf then 2
      else if 0xe0 \<le> a \<and> a \<le> 0xef then 3 else if 0xf0 \<le> a \<and> a \<le> 0xf4 then 4 else 0)"

function utf8_valid :: "u8 list \<Rightarrow> bool" where
  "utf8_valid [] \<longleftrightarrow> True"
| "utf8_valid (a # bs) \<longleftrightarrow>
     (let w = utf8_width a
      in w \<noteq> 0 \<and> w - 1 \<le> length bs \<and> (w = 1 \<or> utf8_second a (bs ! 0)) \<and>
         (w = 1 \<or> list_all utf8_tail (take (w - 2) (drop 1 bs))) \<and> utf8_valid (drop (w - 1) bs))"
  by pat_completeness auto
termination by (relation "measure length") auto

text \<open>\<open>trim().is_empty()\<close>: only characters with the \<open>White_Space\<close> property.\<close>

fun blank :: "u8 list \<Rightarrow> bool" where
  "blank [] \<longleftrightarrow> True"
| "blank (a # bs) \<longleftrightarrow>
     (if (0x09 \<le> a \<and> a \<le> 0x0d) \<or> a = 0x20 then blank bs
      else case bs of
        [] \<Rightarrow> False
      | b # cs \<Rightarrow>
          if a = 0xc2 \<and> (b = 0x85 \<or> b = 0xa0) then blank cs
          else case cs of
            [] \<Rightarrow> False
          | c # ds \<Rightarrow>
              ((a = 0xe1 \<and> b = 0x9a \<and> c = 0x80) \<or>
               (a = 0xe2 \<and> b = 0x80 \<and>
                 (0x80 \<le> c \<and> c \<le> 0x8a \<or> c = 0xa8 \<or> c = 0xa9 \<or> c = 0xaf)) \<or>
               (a = 0xe2 \<and> b = 0x81 \<and> c = 0x9f) \<or> (a = 0xe3 \<and> b = 0x80 \<and> c = 0x80)) \<and>
              blank ds)"

section \<open>Entry points\<close>

datatype shader_source = SpirV "u32 list" | Wgsl "u8 list"

record declared_entry_point =
  ep_stage :: shader_stage
  ep_name :: "u8 list"

record shader_module_desc =
  sm_source :: shader_source
  sm_entry_points :: "declared_entry_point list"

text \<open>One word of the name: the bytes up to a NUL with the padding behind it, or all four.\<close>

fun name_word :: "u8 list \<Rightarrow> u8 list \<Rightarrow> u8 list + (u8 list \<times> u8 list)" where
  "name_word acc [] = Inl acc"
| "name_word acc (b # bs) = (if b = 0 then Inr (acc, bs) else name_word (acc @ [b]) bs)"

fun entry_name :: "u32 \<Rightarrow> u32 list \<Rightarrow> u8 list \<Rightarrow> u8 list ir_result" where
  "entry_name bound [] acc = Inl InvalidDescriptor"
| "entry_name bound (w # ws) acc =
     (case name_word acc (u32_to_le_bytes w) of
        Inl acc' \<Rightarrow> entry_name bound ws acc'
      | Inr (name, padding) \<Rightarrow>
          if name = [] \<or> list_ex (\<lambda>p. p \<noteq> 0) padding \<or> list_ex (\<lambda>i. i = 0 \<or> i \<ge> bound) ws
          then Inl InvalidDescriptor
          else if utf8_valid name then Inr name else Inl InvalidDescriptor)"

definition parse_stage :: "u32 \<Rightarrow> shader_stage ir_result" where
  "parse_stage m =
     (if m = 0 then Inr Vertex else if m = 4 then Inr Fragment else if m = 5 then Inr Compute
      else Inl InvalidDescriptor)"

definition parse_entry_point :: "bool \<Rightarrow> u32 list \<Rightarrow> u32 \<Rightarrow> declared_entry_point ir_result" where
  "parse_entry_point reserved instruction bound =
     (if length instruction < 4 \<or> instruction ! 2 = 0 \<or> instruction ! 2 \<ge> bound
      then Inl InvalidDescriptor
      else and_then (parse_stage (instruction ! 1)) (\<lambda>stage.
        and_then (ensure reserved OutOfMemory) (\<lambda>_.
        and_then (entry_name bound (drop 3 instruction) []) (\<lambda>name.
          Inr \<lparr>ep_stage = stage, ep_name = name\<rparr>))))"

section \<open>Modules\<close>

text \<open>
  The instruction loop of \<open>spirv\<close>. \<open>reserved\<close> gives the allocator's answers at an offset: for the
  bytes of the name, and for the entry in the list.
\<close>

function scan_instructions ::
    "(nat \<Rightarrow> bool \<times> bool) \<Rightarrow> u32 list \<Rightarrow> u32 \<Rightarrow> nat \<Rightarrow> declared_entry_point list \<Rightarrow>
     declared_entry_point list ir_result"
where
  "scan_instructions reserved words bound offset entries =
     (if offset < length words then
        let word_count = unat (drop_bit 16 (words ! offset))
        in if word_count = 0 \<or> word_count > length words - offset then Inl InvalidDescriptor
           else if words ! offset AND 0xffff = 15 then
             (case parse_entry_point (fst (reserved offset))
                     (sub_slice words offset (offset + word_count)) bound of
                Inl e \<Rightarrow> Inl e
              | Inr entry \<Rightarrow>
                  if snd (reserved offset)
                  then scan_instructions reserved words bound (offset + word_count) (entries @ [entry])
                  else Inl OutOfMemory)
           else scan_instructions reserved words bound (offset + word_count) entries
      else Inr entries)"
  by pat_completeness auto
termination
  by (relation "measure (\<lambda>(reserved, words, bound, offset, entries). length words - offset)") auto

declare scan_instructions.simps [simp del]

definition spirv_header_rejected :: "u32 list \<Rightarrow> bool" where
  "spirv_header_rejected words \<longleftrightarrow>
     length words < 5 \<or> words ! 0 \<noteq> 0x07230203 \<or> words ! 1 AND 0xff0000ff \<noteq> 0 \<or>
     drop_bit 16 (words ! 1) \<noteq> 1 \<or> drop_bit 8 (words ! 1) AND 0xff > 6 \<or>
     words ! 3 = 0 \<or> words ! 3 > 0x003fffff \<or> words ! 4 \<noteq> 0"

definition spirv :: "(nat \<Rightarrow> bool \<times> bool) \<Rightarrow> u32 list \<Rightarrow> shader_module_desc ir_result" where
  "spirv reserved words =
     (if length words > MAX_SPIRV_WORDS then Inl ResourceLimitExceeded
      else if spirv_header_rejected words then Inl InvalidDescriptor
      else and_then (scan_instructions reserved words (words ! 3) 5 [])
             (\<lambda>entries. Inr \<lparr>sm_source = SpirV words, sm_entry_points = entries\<rparr>))"

definition wgsl :: "u8 list \<Rightarrow> shader_module_desc ir_result" where
  "wgsl source =
     (if length source > MAX_WGSL_BYTES then Inl ResourceLimitExceeded
      else if blank source \<or> 0 \<in> set source then Inl InvalidDescriptor
      else Inr \<lparr>sm_source = Wgsl source, sm_entry_points = []\<rparr>)"

definition has_entry_point :: "shader_module_desc \<Rightarrow> shader_stage \<Rightarrow> u8 list \<Rightarrow> bool" where
  "has_entry_point m stage name =
     (case sm_source m of
        SpirV _ \<Rightarrow> list_ex (\<lambda>e. ep_stage e = stage \<and> ep_name e = name) (sm_entry_points m)
      | Wgsl _ \<Rightarrow> name \<noteq> [] \<and> 0 \<notin> set name)"

section \<open>The canonical encoding of an entry point\<close>

fun name_words :: "u8 list \<Rightarrow> u32 list" where
  "name_words [] = [u32_from_le_bytes 0 0 0 0]"
| "name_words [a] = [u32_from_le_bytes a 0 0 0]"
| "name_words [a, b] = [u32_from_le_bytes a b 0 0]"
| "name_words [a, b, c] = [u32_from_le_bytes a b c 0]"
| "name_words (a # b # c # d # bs) = u32_from_le_bytes a b c d # name_words bs"

fun stage_word :: "shader_stage \<Rightarrow> u32" where
  "stage_word Vertex = 0"
| "stage_word Fragment = 4"
| "stage_word Compute = 5"

definition id_below :: "u32 \<Rightarrow> u32 \<Rightarrow> bool" where
  "id_below bound i \<longleftrightarrow> i \<noteq> 0 \<and> i < bound"

definition entry_words :: "u32 \<Rightarrow> u32 \<Rightarrow> declared_entry_point \<Rightarrow> u32 list \<Rightarrow> u32 list" where
  "entry_words op target e ids = op # stage_word (ep_stage e) # target # name_words (ep_name e) @ ids"

definition name_ok :: "u8 list \<Rightarrow> bool" where
  "name_ok name \<longleftrightarrow> name \<noteq> [] \<and> 0 \<notin> set name \<and> utf8_valid name"

text \<open>An instruction declares an entry point when it is an encoding of it with identities in range.\<close>

definition declares :: "u32 \<Rightarrow> u32 list \<Rightarrow> declared_entry_point \<Rightarrow> bool" where
  "declares bound i e \<longleftrightarrow> name_ok (ep_name e) \<and>
     (\<exists>op target ids. i = entry_words op target e ids \<and> id_below bound target \<and> list_all (id_below bound) ids)"

lemma parse_stage_Inr: "parse_stage m = Inr s \<longleftrightarrow> m = stage_word s"
  by (cases s) (auto simp: parse_stage_def)

lemma bad_ids: "list_ex (\<lambda>i. i = 0 \<or> i \<ge> bound) ws \<longleftrightarrow> \<not> list_all (id_below bound) ws"
  by (auto simp: list_ex_iff list_all_iff id_below_def not_less)

lemma entry_name_encoded:
  assumes "0 \<notin> set rest" and "acc @ rest \<noteq> []" and "utf8_valid (acc @ rest)" and "list_all (id_below bound) ids"
  shows "entry_name bound (name_words rest @ ids) acc = Inr (acc @ rest)"
  using assms
proof (induction rest arbitrary: acc rule: name_words.induct)
  case (5 a b c d bs)
  then show ?case using "5.IH" [of "acc @ [a, b, c, d]"] by simp
qed (auto simp: bad_ids)

lemma entry_name_decoded:
  "entry_name bound ws acc = Inr name \<Longrightarrow>
     \<exists>rest ids. ws = name_words rest @ ids \<and> name = acc @ rest \<and> 0 \<notin> set rest \<and> name \<noteq> [] \<and>
       utf8_valid name \<and> list_all (id_below bound) ids"
proof (induction ws arbitrary: acc)
  case (Cons w ws)
  obtain a b c d where w: "w = u32_from_le_bytes a b c d" by (rule u32_bytes_cases)
  show ?case
  proof (cases "0 \<in> {a, b, c, d}")
    case True
    then consider "a = 0" | "a \<noteq> 0" "b = 0" | "a \<noteq> 0" "b \<noteq> 0" "c = 0"
      | "a \<noteq> 0" "b \<noteq> 0" "c \<noteq> 0" "d = 0" by auto
    then show ?thesis
    proof cases
      case 1
      with Cons.prems w show ?thesis
        by (intro exI [of _ "[]"] exI [of _ ws]) (auto simp: bad_ids split: if_splits)
    next
      case 2
      with Cons.prems w show ?thesis
        by (intro exI [of _ "[a]"] exI [of _ ws]) (auto simp: bad_ids split: if_splits)
    next
      case 3
      with Cons.prems w show ?thesis
        by (intro exI [of _ "[a, b]"] exI [of _ ws]) (auto simp: bad_ids split: if_splits)
    next
      case 4
      with Cons.prems w show ?thesis
        by (intro exI [of _ "[a, b, c]"] exI [of _ ws]) (auto simp: bad_ids split: if_splits)
    qed
  next
    case False
    with Cons.prems w have "entry_name bound ws (acc @ [a, b, c, d]) = Inr name" by auto
    from Cons.IH [OF this] obtain rest ids where "ws = name_words rest @ ids"
      and "name = acc @ [a, b, c, d] @ rest" and "0 \<notin> set rest" and "name \<noteq> []"
      and "utf8_valid name" and "list_all (id_below bound) ids"
      by auto
    with False w show ?thesis
      by (intro exI [of _ "a # b # c # d # rest"] exI [of _ ids]) auto
  qed
qed simp

lemma name_words_nonempty: "name_words bs \<noteq> []"
  by (cases bs rule: name_words.cases) auto

lemma parse_entry_point_Inr: "parse_entry_point True i bound = Inr e \<longleftrightarrow> declares bound i e"
proof
  assume parsed: "parse_entry_point True i bound = Inr e"
  then have len: "length i \<ge> 4" and target: "id_below bound (i ! 2)"
    and stage: "i ! 1 = stage_word (ep_stage e)" and name: "entry_name bound (drop 3 i) [] = Inr (ep_name e)"
    by (auto simp: parse_entry_point_def id_below_def result_simps parse_stage_Inr not_less not_le
        split: if_splits)
  from entry_name_decoded [OF name] obtain ids where ids: "drop 3 i = name_words (ep_name e) @ ids"
    and ok: "name_ok (ep_name e)" "list_all (id_below bound) ids"
    by (auto simp: name_ok_def)
  have "i = i ! 0 # i ! 1 # i ! 2 # drop 3 i"
    using len by (cases i; cases "tl i"; cases "tl (tl i)") (auto simp: numeral_3_eq_3)
  then have "i = entry_words (i ! 0) (i ! 2) e ids"
    using stage ids by (simp add: entry_words_def)
  with ok target show "declares bound i e" unfolding declares_def by blast
next
  assume "declares bound i e"
  then obtain op target ids where i: "i = entry_words op target e ids" and "id_below bound target"
    and "list_all (id_below bound) ids" and "name_ok (ep_name e)"
    by (auto simp: declares_def)
  moreover have "entry_name bound (name_words (ep_name e) @ ids) [] = Inr (ep_name e)"
    using calculation entry_name_encoded [of "ep_name e" "[]"] by (simp add: name_ok_def)
  ultimately show "parse_entry_point True i bound = Inr e"
    using name_words_nonempty [of "ep_name e"]
    by (cases "name_words (ep_name e)")
      (auto simp: parse_entry_point_def entry_words_def id_below_def result_simps parse_stage_Inr not_le)
qed

section \<open>Framing\<close>

definition framed :: "u32 list \<Rightarrow> bool" where
  "framed i \<longleftrightarrow> i \<noteq> [] \<and> unat (drop_bit 16 (hd i)) = length i"

definition is_entry :: "u32 list \<Rightarrow> bool" where
  "is_entry i \<longleftrightarrow> hd i AND 0xffff = 15"

abbreviation granted :: "nat \<Rightarrow> bool \<times> bool" where
  "granted \<equiv> \<lambda>_. (True, True)"

definition reads_as :: "u32 \<Rightarrow> u32 list list \<Rightarrow> declared_entry_point list \<Rightarrow> bool" where
  "reads_as bound instrs es \<longleftrightarrow> list_all framed instrs \<and> list_all2 (declares bound) (filter is_entry instrs) es"

lemma reads_as_Nil: "reads_as bound [] es \<longleftrightarrow> es = []"
  by (auto simp: reads_as_def)

lemma reads_as_Cons:
  "reads_as bound (i # instrs) es \<longleftrightarrow> framed i \<and>
     (if is_entry i then \<exists>e es'. es = e # es' \<and> declares bound i e \<and> reads_as bound instrs es'
      else reads_as bound instrs es)"
  by (auto simp: reads_as_def list_all2_Cons1)

definition head_count :: "u32 list \<Rightarrow> nat" where
  "head_count xs = unat (drop_bit 16 (hd xs))"

text \<open>A nonempty word list splits into framed instructions in one way: the first header decides.\<close>

lemma frame_split:
  assumes xs: "xs \<noteq> []"
  shows "xs = concat instrs \<and> reads_as bound instrs es \<longleftrightarrow>
    head_count xs \<noteq> 0 \<and> head_count xs \<le> length xs \<and>
    (\<exists>rest. instrs = take (head_count xs) xs # rest \<and> drop (head_count xs) xs = concat rest \<and>
       reads_as bound (take (head_count xs) xs # rest) es)"
proof
  assume both: "xs = concat instrs \<and> reads_as bound instrs es"
  with xs obtain i rest where i: "instrs = i # rest" by (cases instrs) auto
  with both have "framed i" by (simp add: reads_as_Cons)
  with both i have "head_count xs = length i" and "length i \<noteq> 0" by (auto simp: framed_def head_count_def)
  with both i show "head_count xs \<noteq> 0 \<and> head_count xs \<le> length xs \<and>
      (\<exists>rest. instrs = take (head_count xs) xs # rest \<and> drop (head_count xs) xs = concat rest \<and>
         reads_as bound (take (head_count xs) xs # rest) es)" by simp
qed (metis append_take_drop_id concat.simps(2))

lemma framed_take:
  assumes "head_count xs \<noteq> 0" and "head_count xs \<le> length xs"
  shows "framed (take (head_count xs) xs)" and "is_entry (take (head_count xs) xs) \<longleftrightarrow> hd xs AND 0xffff = 15"
  using assms by (auto simp: framed_def is_entry_def min_def simp flip: head_count_def)

lemma sub_slice_drop: "sub_slice xs offset (offset + n) = take n (drop offset xs)"
  by (simp add: sub_slice_def)

lemma scan_step:
  assumes "offset < length words"
  shows "scan_instructions granted words bound offset entries =
    (let xs = drop offset words; n = head_count xs
     in if n = 0 \<or> n > length xs then Inl InvalidDescriptor
        else if hd xs AND 0xffff = 15 then
          (case parse_entry_point True (take n xs) bound of
             Inl e \<Rightarrow> Inl e
           | Inr entry \<Rightarrow> scan_instructions granted words bound (offset + n) (entries @ [entry]))
        else scan_instructions granted words bound (offset + n) entries)"
  using assms
  by (simp add: scan_instructions.simps [of granted words bound offset] Let_def sub_slice_drop
      head_count_def hd_drop_conv_nth cong: sum.case_cong)

lemma scan_reads:
  assumes "offset \<le> length words"
  shows "scan_instructions granted words bound offset entries = Inr out \<longleftrightarrow>
    (\<exists>instrs es. drop offset words = concat instrs \<and> reads_as bound instrs es \<and> out = entries @ es)"
  using assms
proof (induction "length words - offset" arbitrary: offset entries rule: less_induct)
  case less
  let ?xs = "drop offset words"
  let ?n = "head_count ?xs"
  show ?case
  proof (cases "offset < length words")
    case False
    then have "?xs = []" and "scan_instructions granted words bound offset entries = Inr entries"
      by (simp_all add: scan_instructions.simps [of granted words bound offset])
    moreover have "[] = concat instrs \<and> reads_as bound instrs es \<longleftrightarrow> instrs = [] \<and> es = []" for instrs es
      by (cases instrs) (auto simp: reads_as_Nil reads_as_Cons framed_def)
    ultimately show ?thesis by (auto simp only: conj_assoc [symmetric] append_Nil2)
  next
    case True
    then have xs: "?xs \<noteq> []" by simp
    have unread: "drop (offset + ?n) words = drop ?n ?xs" by (simp add: add.commute)
    show ?thesis
    proof (cases "?n = 0 \<or> ?n > length ?xs")
      case bad: True
      then show ?thesis
        unfolding scan_step [OF True] conj_assoc [symmetric] frame_split [OF xs] Let_def by auto
    next
      case False
      then have n: "?n \<noteq> 0" "?n \<le> length ?xs" by auto
      have IH: "scan_instructions granted words bound (offset + ?n) entries' = Inr out \<longleftrightarrow>
          (\<exists>instrs es. drop ?n ?xs = concat instrs \<and> reads_as bound instrs es \<and> out = entries' @ es)"
        for entries'
        using less.hyps [of "offset + ?n" entries'] n True unfolding unread by simp
      have "(\<exists>instrs es. (?xs = concat instrs \<and> reads_as bound instrs es) \<and> out = entries @ es) \<longleftrightarrow>
          (\<exists>rest es. drop ?n ?xs = concat rest \<and> reads_as bound (take ?n ?xs # rest) es \<and> out = entries @ es)"
        unfolding frame_split [OF xs] using n by blast
      moreover have "scan_instructions granted words bound offset entries = Inr out \<longleftrightarrow>
          (\<exists>rest es. drop ?n ?xs = concat rest \<and> reads_as bound (take ?n ?xs # rest) es \<and> out = entries @ es)"
      proof (cases "hd ?xs AND 0xffff = 15")
        case entry: True
        have "scan_instructions granted words bound offset entries = Inr out \<longleftrightarrow>
            (\<exists>e. declares bound (take ?n ?xs) e \<and>
               scan_instructions granted words bound (offset + ?n) (entries @ [e]) = Inr out)"
          using False entry unfolding scan_step [OF True] Let_def
          by (auto simp: parse_entry_point_Inr [symmetric] split: sum.splits)
        then show ?thesis
          unfolding IH reads_as_Cons using framed_take [OF n] entry by auto
      next
        case plain: False
        then show ?thesis
          using False framed_take [OF n] unfolding scan_step [OF True] Let_def reads_as_Cons by (simp add: IH)
      qed
      ultimately show ?thesis by (simp only: conj_assoc)
    qed
  qed
qed

text \<open>An allocator that refuses only ever turns the answer into \<open>OutOfMemory\<close>.\<close>

lemma parse_entry_point_alloc:
  "parse_entry_point reserved i bound = parse_entry_point True i bound \<or>
   parse_entry_point reserved i bound = Inl OutOfMemory"
  by (cases reserved; cases "parse_stage (i ! 1)") (auto simp: parse_entry_point_def)

lemma scan_alloc:
  "scan_instructions reserved words bound offset entries = scan_instructions granted words bound offset entries \<or>
   scan_instructions reserved words bound offset entries = Inl OutOfMemory"
proof (induction "length words - offset" arbitrary: offset entries rule: less_induct)
  case less
  let ?n = "unat (drop_bit 16 (words ! offset))"
  let ?i = "sub_slice words offset (offset + ?n)"
  show ?case
  proof (cases "offset < length words \<and> ?n \<noteq> 0 \<and> ?n \<le> length words - offset")
    case False
    then show ?thesis
      by (auto simp: scan_instructions.simps [of _ words bound offset] Let_def)
  next
    case True
    then have IH: "scan_instructions reserved words bound (offset + ?n) es =
          scan_instructions granted words bound (offset + ?n) es \<or>
        scan_instructions reserved words bound (offset + ?n) es = Inl OutOfMemory" for es
      by (intro less) auto
    show ?thesis
    proof (cases "parse_entry_point True ?i bound")
      case (Inl e)
      with True show ?thesis
        using parse_entry_point_alloc [of "fst (reserved offset)" ?i bound] IH [of entries]
        by (auto simp: scan_instructions.simps [of _ words bound offset] Let_def)
    next
      case (Inr x)
      with True show ?thesis
        using parse_entry_point_alloc [of "fst (reserved offset)" ?i bound] IH [of entries]
          IH [of "entries @ [x]"]
        by (auto simp: scan_instructions.simps [of _ words bound offset] Let_def split: if_splits)
    qed
  qed
qed

lemma spirv_granted:
  "spirv granted words = Inr m \<longleftrightarrow> length words \<le> MAX_SPIRV_WORDS \<and> \<not> spirv_header_rejected words \<and>
     sm_source m = SpirV words \<and>
     (\<exists>instrs. drop 5 words = concat instrs \<and> reads_as (words ! 3) instrs (sm_entry_points m))"
proof (cases "length words > MAX_SPIRV_WORDS \<or> spirv_header_rejected words")
  case True
  then show ?thesis by (auto simp: spirv_def)
next
  case False
  then have "5 \<le> length words" by (simp add: spirv_header_rejected_def)
  note scan = scan_reads [OF this, of "words ! 3" "[]" "sm_entry_points m"]
  have "spirv granted words = Inr m \<longleftrightarrow> sm_source m = SpirV words \<and>
      scan_instructions granted words (words ! 3) 5 [] = Inr (sm_entry_points m)"
    using False by (cases m) (auto simp: spirv_def result_simps)
  with False show ?thesis unfolding scan by auto
qed

lemma framing_unique:
  "concat is = concat js \<Longrightarrow> list_all framed is \<Longrightarrow> list_all framed js \<Longrightarrow> is = js"
proof (induction "is" arbitrary: js)
  case Nil
  then show ?case by (cases js) (auto simp: framed_def)
next
  case (Cons i "is")
  then obtain j js' where js: "js = j # js'" by (cases js) (auto simp: framed_def)
  with Cons.prems have ne: "i \<noteq> []" "j \<noteq> []" and "hd i = hd j"
    by (auto simp: framed_def) (metis hd_append2)
  with Cons.prems js have "length i = length j" by (simp add: framed_def)
  with Cons.prems js have "i = j" and "concat is = concat js'" by simp_all
  with Cons js show ?case by simp
qed

lemma list_all2_image:
  assumes "list_all2 P xs ys" and "\<And>x y z. P x y \<Longrightarrow> P x z \<Longrightarrow> y = z"
  shows "y \<in> set ys \<longleftrightarrow> (\<exists>x \<in> set xs. P x y)"
  using assms(1) by (induction rule: list_all2_induct) (auto dest: assms(2))

section \<open>Properties\<close>

text \<open>
  C16. Whatever the allocator answers, \<open>spirv\<close> gives back only modules whose words split, behind an
  accepted header, into instructions of the lengths they state, and whose entry-point list is the
  list of the canonical \<open>OpEntryPoint\<close> encodings among them, in order; and when memory suffices it
  accepts every such module.
\<close>

theorem spirv_accepts_exactly_the_framings:
  "(\<exists>reserved. spirv reserved words = Inr m) \<longleftrightarrow>
     length words \<le> MAX_SPIRV_WORDS \<and> \<not> spirv_header_rejected words \<and> sm_source m = SpirV words \<and>
     (\<exists>instrs. drop 5 words = concat instrs \<and> reads_as (words ! 3) instrs (sm_entry_points m))"
proof -
  have "spirv granted words = Inr m" if "spirv reserved words = Inr m" for reserved
    using that scan_alloc [of reserved words "words ! 3" 5 "[]"]
    by (auto simp: spirv_def result_simps split: if_splits)
  then have "(\<exists>reserved. spirv reserved words = Inr m) \<longleftrightarrow> spirv granted words = Inr m" by blast
  then show ?thesis unfolding spirv_granted .
qed

text \<open>
  The entry points a pipeline may select from an accepted SPIR-V module are exactly those the
  instruction stream declares: a stage and name are found iff some instruction of the stream is an
  \<open>OpEntryPoint\<close> encoding them.
\<close>

theorem selectable_entry_points:
  assumes "spirv reserved words = Inr m" and "drop 5 words = concat instrs" and "list_all framed instrs"
  shows "has_entry_point m stage name \<longleftrightarrow>
    (\<exists>i \<in> set instrs. is_entry i \<and> declares (words ! 3) i \<lparr>ep_stage = stage, ep_name = name\<rparr>)"
proof -
  obtain is' where src: "sm_source m = SpirV words" and "drop 5 words = concat is'"
    and reads: "reads_as (words ! 3) is' (sm_entry_points m)"
    using assms(1) spirv_granted [of words m] scan_alloc [of reserved words "words ! 3" 5 "[]"]
    by (auto simp: spirv_def result_simps split: if_splits)
  with assms have "is' = instrs" by (intro framing_unique) (auto simp: reads_as_def)
  with reads have all: "list_all2 (declares (words ! 3)) (filter is_entry instrs) (sm_entry_points m)"
    by (simp add: reads_as_def)
  have pair: "e = \<lparr>ep_stage = stage, ep_name = name\<rparr> \<longleftrightarrow> ep_stage e = stage \<and> ep_name e = name" for e
    by (cases e) auto
  have unique: "declares bound i e \<Longrightarrow> declares bound i e' \<Longrightarrow> e = e'" for bound i e e'
    by (simp flip: parse_entry_point_Inr)
  have "has_entry_point m stage name \<longleftrightarrow> \<lparr>ep_stage = stage, ep_name = name\<rparr> \<in> set (sm_entry_points m)"
    by (simp add: has_entry_point_def src list_ex_iff flip: pair)
  also have "\<dots> \<longleftrightarrow> (\<exists>i \<in> set (filter is_entry instrs). declares (words ! 3) i \<lparr>ep_stage = stage, ep_name = name\<rparr>)"
    by (rule list_all2_image [OF all unique])
  finally show ?thesis by auto
qed

theorem selectable_entry_points_witness:
  "\<not> has_entry_point \<lparr>sm_source = SpirV [0x07230203, 0x00010300, 0, 8, 0, 0x0005000f, 5, 4, 0x6e69616d, 0],
       sm_entry_points = [\<lparr>ep_stage = Compute, ep_name = [0x6d, 0x61, 0x69, 0x6e]\<rparr>]\<rparr> Vertex [0x6d]"
proof -
  let ?words = "[0x07230203, 0x00010300, 0, 8, 0, 0x0005000f, 5, 4, 0x6e69616d, 0] :: u32 list"
  let ?m = "\<lparr>sm_source = SpirV ?words, sm_entry_points = [\<lparr>ep_stage = Compute, ep_name = [0x6d, 0x61, 0x69, 0x6e]\<rparr>]\<rparr>"
  have "spirv granted ?words = Inr ?m"
    by (simp add: spirv_def spirv_header_rejected_def scan_instructions.simps parse_entry_point_def
        parse_stage_def sub_slice_def u32_to_le_bytes_def utf8_width_def)
  then have "has_entry_point ?m Vertex [0x6d] \<longleftrightarrow>
      (\<exists>i \<in> set [drop 5 ?words]. is_entry i \<and> declares (?words ! 3) i \<lparr>ep_stage = Vertex, ep_name = [0x6d]\<rparr>)"
    by (rule selectable_entry_points) (simp_all add: framed_def)
  then show ?thesis by (simp add: has_entry_point_def)
qed

end
