(* ===== verification/Slot_Table.thy ===== *)
theory Slot_Table
  imports Ir_Types
begin

text \<open>
  The generational slots of \<^verbatim>\<open>crates/sgfx-core/src/ir/resource.rs\<close>: every category of the
  resource table keeps a vector of slots with a free list threaded through the released ones, and
  hands out identities \<open>(owner, index, generation)\<close>. The contract of such a store is the locale
  \<open>id_store\<close>; it is interpreted on the slots at the end of this theory.

  Texture, buffer, shader, bind-group and pipeline identities are structs of the same three fields
  and share the record \<open>res_id\<close>. A reference \<open>TextureRef\<close> points to its table where the
  identity names it, and is modelled by the identity: comparing the pointer is comparing the
  table's number, which the process hands out once.
\<close>

section \<open>Slots\<close>

record res_id =
  id_owner :: usize
  id_index :: usize
  id_generation :: u64

record 'd slot =
  slot_desc :: "'d option"
  slot_generation :: u64
  slot_next :: "usize option"

record 'd slots =
  sl_slots :: "'d slot list"
  sl_free :: "usize option"

definition slots_new :: "'d slots" where
  "slots_new = \<lparr>sl_slots = [], sl_free = None\<rparr>"

text \<open>
  \<open>define_program_slot\<close>, and the same body in \<open>define_texture\<close>, \<open>define_buffer\<close> and
  \<open>define_bind_group\<close>: reuse the head of the free list, or push a slot if the category has room.
\<close>

definition slots_define ::
    "nat \<Rightarrow> bool \<Rightarrow> 'd \<Rightarrow> 'd slots \<Rightarrow> (usize \<times> u64) ir_result \<times> 'd slots"
where
  "slots_define maximum reserved desc t =
     (case sl_free t of
        Some index \<Rightarrow>
          (let slot = sl_slots t ! index
           in (Inr (index, slot_generation slot),
               t\<lparr>sl_slots := (sl_slots t)[index := slot\<lparr>slot_desc := Some desc, slot_next := None\<rparr>],
                 sl_free := slot_next slot\<rparr>))
      | None \<Rightarrow>
          if length (sl_slots t) \<ge> maximum then (Inl ResourceLimitExceeded, t)
          else if \<not> reserved then (Inl OutOfMemory, t)
          else (Inr (length (sl_slots t), 0),
                t\<lparr>sl_slots := sl_slots t @ [\<lparr>slot_desc = Some desc, slot_generation = 0, slot_next = None\<rparr>]\<rparr>))"

text \<open>\<open>release_program_slot\<close>: retire the generation of a slot and put it on the free list.\<close>

definition slots_release :: "usize \<Rightarrow> 'd slots \<Rightarrow> unit ir_result \<times> 'd slots" where
  "slots_release index t =
     (let slot = sl_slots t ! index
      in case checked_add (slot_generation slot) 1 of
           None \<Rightarrow> (Inl ResourceLimitExceeded, t)
         | Some next \<Rightarrow>
             (Inr (),
              t\<lparr>sl_slots := (sl_slots t)[index :=
                  \<lparr>slot_desc = None, slot_generation = next, slot_next = sl_free t\<rparr>],
                sl_free := Some index\<rparr>))"

text \<open>\<open>validate_program_id\<close>: an identity resolves in its own table while its generation lives.\<close>

definition slots_validate :: "usize \<Rightarrow> 'd slots \<Rightarrow> res_id \<Rightarrow> res_id ir_result" where
  "slots_validate owner t i =
     (if id_owner i \<noteq> owner then Inl ResourceTableMismatch
      else case get (sl_slots t) (id_index i) of
             None \<Rightarrow> Inl InvalidDescriptor
           | Some slot \<Rightarrow>
               if slot_generation slot \<noteq> id_generation i \<or> slot_desc slot = None
               then Inl InvalidDescriptor else Inr i)"

text \<open>The descriptor a reference reads: \<open>texture\<close>, \<open>buffer\<close>, \<open>shader_module\<close> and their like.\<close>

definition slots_read :: "usize \<Rightarrow> 'd slots \<Rightarrow> res_id \<Rightarrow> 'd ir_result" where
  "slots_read owner t r =
     (if id_owner r \<noteq> owner then Inl ResourceTableMismatch
      else case get (sl_slots t) (id_index r) of
             None \<Rightarrow> Inl InvalidDescriptor
           | Some slot \<Rightarrow>
               if slot_generation slot \<noteq> id_generation r then Inl InvalidDescriptor
               else ok_or (slot_desc slot) InvalidDescriptor)"

text \<open>A category of a table, with its number: the define and release of one kind of resource.\<close>

definition store_define ::
    "usize \<Rightarrow> nat \<Rightarrow> bool \<Rightarrow> 'd \<Rightarrow> 'd slots \<Rightarrow> res_id ir_result \<times> 'd slots"
where
  "store_define owner maximum reserved desc t =
     then_do (slots_define maximum reserved desc t)
       (\<lambda>(index, generation) t'.
          (Inr \<lparr>id_owner = owner, id_index = index, id_generation = generation\<rparr>, t'))"

definition store_release :: "usize \<Rightarrow> res_id \<Rightarrow> 'd slots \<Rightarrow> unit ir_result \<times> 'd slots" where
  "store_release owner i t =
     (case slots_validate owner t i of
        Inl e \<Rightarrow> (Inl e, t)
      | Inr _ \<Rightarrow> slots_release (id_index i) t)"

section \<open>The contract of a store of identities\<close>

datatype ('k, 'd) store_action = DoDefine bool 'd | DoRelease 'k

datatype ('k, 'd) store_event = Issued 'k 'd | Retired 'k

type_synonym ('k, 'd, 's) define_fn = "bool \<Rightarrow> 'd \<Rightarrow> 's \<Rightarrow> 'k ir_result \<times> 's"
type_synonym ('k, 's) release_fn = "'k \<Rightarrow> 's \<Rightarrow> unit ir_result \<times> 's"

fun store_step ::
    "('k, 'd, 's) define_fn \<Rightarrow> ('k, 's) release_fn \<Rightarrow> ('k, 'd) store_action \<Rightarrow> 's \<Rightarrow>
     ('k, 'd) store_event list \<times> 's"
where
  "store_step def rel (DoDefine reserved d) s =
     (case def reserved d s of (Inl e, s') \<Rightarrow> ([], s') | (Inr k, s') \<Rightarrow> ([Issued k d], s'))"
| "store_step def rel (DoRelease k) s =
     (case rel k s of (Inl e, s') \<Rightarrow> ([], s') | (Inr _, s') \<Rightarrow> ([Retired k], s'))"

fun store_run ::
    "('k, 'd, 's) define_fn \<Rightarrow> ('k, 's) release_fn \<Rightarrow> ('k, 'd) store_action list \<Rightarrow>
     ('k, 'd) store_event list \<times> 's \<Rightarrow> ('k, 'd) store_event list \<times> 's"
where
  "store_run def rel [] (log, s) = (log, s)"
| "store_run def rel (op # ops) (log, s) =
     (let (ev, s') = store_step def rel op s in store_run def rel ops (log @ ev, s'))"

definition issued_keys :: "('k, 'd) store_event list \<Rightarrow> 'k list" where
  "issued_keys log = concat (map (\<lambda>e. case e of Issued k d \<Rightarrow> [k] | Retired _ \<Rightarrow> []) log)"

lemma issued_keys_simps [simp]:
  "issued_keys [] = []" "issued_keys (xs @ ys) = issued_keys xs @ issued_keys ys"
  "issued_keys (Issued k d # xs) = k # issued_keys xs" "issued_keys (Retired k # xs) = issued_keys xs"
  by (simp_all add: issued_keys_def)

lemma issued_keys_set: "set (issued_keys log) = {k. \<exists>d. Issued k d \<in> set log}"
proof (induction log)
  case (Cons e log)
  then show ?case by (cases e) auto
qed simp

locale id_store =
  fixes lookup :: "'s \<Rightarrow> 'k \<Rightarrow> 'd option"
    and issued :: "'s \<Rightarrow> 'k set"
    and inv :: "'s \<Rightarrow> bool"
    and def :: "bool \<Rightarrow> 'd \<Rightarrow> 's \<Rightarrow> (error + 'k) \<times> 's"
    and rel :: "'k \<Rightarrow> 's \<Rightarrow> (error + unit) \<times> 's"
    and start :: 's
  assumes start_inv: "inv start"
    and start_issued: "issued start = {}"
    and lookup_issued: "inv s \<Longrightarrow> lookup s k = Some d \<Longrightarrow> k \<in> issued s"
    and define_inv: "inv s \<Longrightarrow> def reserved d s = (r, s') \<Longrightarrow> inv s'"
    and define_ok: "inv s \<Longrightarrow> def reserved d s = (Inr k, s') \<Longrightarrow>
      k \<notin> issued s \<and> issued s' = insert k (issued s) \<and> lookup s' = (lookup s)(k \<mapsto> d)"
    and define_error: "inv s \<Longrightarrow> def reserved d s = (Inl e, s') \<Longrightarrow> s' = s"
    and release_inv: "inv s \<Longrightarrow> rel k s = (u, s') \<Longrightarrow> inv s'"
    and release_ok: "inv s \<Longrightarrow> rel k s = (Inr (), s') \<Longrightarrow>
      lookup s k \<noteq> None \<and> issued s' = issued s \<and> lookup s' = (lookup s)(k := None)"
    and release_error: "inv s \<Longrightarrow> rel k s = (Inl e, s') \<Longrightarrow> s' = s"
begin

definition log_ok :: "('k, 'd) store_event list \<times> 's \<Rightarrow> bool" where
  "log_ok p \<longleftrightarrow> inv (snd p) \<and> distinct (issued_keys (fst p)) \<and>
     issued (snd p) = set (issued_keys (fst p)) \<and>
     (\<forall>k. Retired k \<in> set (fst p) \<longrightarrow> k \<in> issued (snd p)) \<and>
     (\<forall>k d. lookup (snd p) k = Some d \<longleftrightarrow> Issued k d \<in> set (fst p) \<and> Retired k \<notin> set (fst p))"

lemma log_ok_start: "log_ok ([], start)"
proof -
  have "lookup start k = None" for k
    using lookup_issued [OF start_inv] start_issued by (cases "lookup start k") auto
  then show ?thesis by (simp add: log_ok_def start_inv start_issued)
qed

lemma log_ok_define:
  assumes ok: "log_ok (log, s)" and step: "def reserved d s = (Inr k, s')"
  shows "log_ok (log @ [Issued k d], s')"
proof -
  have inv: "inv s" using ok by (simp add: log_ok_def)
  note new = define_ok [OF inv step]
  have fresh: "k \<notin> set (issued_keys log)" and unretired: "Retired k \<notin> set log"
    and never: "Issued k d' \<notin> set log" for d'
    using ok new by (auto simp: log_ok_def issued_keys_set)
  have "lookup s' j = Some e \<longleftrightarrow> Issued j e \<in> set (log @ [Issued k d]) \<and>
      Retired j \<notin> set (log @ [Issued k d])" for j e
    using ok new unretired never by (auto simp: log_ok_def)
  moreover have "inv s'" by (rule define_inv [OF inv step])
  ultimately show ?thesis
    using ok new fresh by (auto simp: log_ok_def)
qed

lemma log_ok_release:
  assumes ok: "log_ok (log, s)" and step: "rel k s = (Inr (), s')"
  shows "log_ok (log @ [Retired k], s')"
proof -
  have inv: "inv s" using ok by (simp add: log_ok_def)
  note gone = release_ok [OF inv step]
  have "k \<in> issued s" using gone lookup_issued [OF inv] by auto
  moreover have "lookup s' j = Some e \<longleftrightarrow> Issued j e \<in> set (log @ [Retired k]) \<and>
      Retired j \<notin> set (log @ [Retired k])" for j e
    using ok gone by (auto simp: log_ok_def)
  moreover have "inv s'" by (rule release_inv [OF inv step])
  ultimately show ?thesis
    using ok gone by (auto simp: log_ok_def)
qed

lemma log_ok_step:
  assumes "log_ok (log, s)" and "store_step def rel op s = (ev, s')"
  shows "log_ok (log @ ev, s')"
proof -
  have inv: "inv s" using assms(1) by (simp add: log_ok_def)
  show ?thesis
  proof (cases op)
    case (DoDefine reserved d)
    then show ?thesis
      using assms by (cases "def reserved d s"; cases "fst (def reserved d s)")
        (auto dest: define_error [OF inv] log_ok_define [OF assms(1)])
  next
    case (DoRelease k)
    then show ?thesis
      using assms by (cases "rel k s"; cases "fst (rel k s)")
        (auto dest: release_error [OF inv] log_ok_release [OF assms(1)])
  qed
qed

lemma log_ok_run: "log_ok p \<Longrightarrow> log_ok (store_run def rel ops p)"
proof (induction ops arbitrary: p)
  case Nil
  then show ?case by (cases p) simp
next
  case (Cons op ops)
  obtain log s where p: "p = (log, s)" by (cases p)
  obtain ev s' where "store_step def rel op s = (ev, s')" by (cases "store_step def rel op s")
  with Cons p show ?case using log_ok_step by simp
qed

lemma history:
  assumes "store_run def rel ops ([], start) = (log, s)"
  shows "distinct (issued_keys log)"
    and "lookup s k = Some d \<longleftrightarrow> Issued k d \<in> set log \<and> Retired k \<notin> set log"
    and "inv s"
  using log_ok_run [OF log_ok_start, of ops] assms by (simp_all add: log_ok_def)

end

section \<open>The slots meet the contract\<close>

text \<open>
  The free list is a chain through the vacant slots: from its head, \<open>slot_next\<close> visits every slot
  without a descriptor exactly once.
\<close>

fun linked :: "'d slot list \<Rightarrow> usize option \<Rightarrow> usize list \<Rightarrow> bool" where
  "linked ss head [] \<longleftrightarrow> head = None"
| "linked ss head (i # is) \<longleftrightarrow> head = Some i \<and> i < length ss \<and> slot_desc (ss ! i) = None \<and>
     linked ss (slot_next (ss ! i)) is"

definition slots_ok :: "nat \<Rightarrow> 'd slots \<Rightarrow> bool" where
  "slots_ok maximum t \<longleftrightarrow> length (sl_slots t) \<le> maximum \<and>
     (\<exists>ch. linked (sl_slots t) (sl_free t) ch \<and> distinct ch \<and>
        (\<forall>i < length (sl_slots t). slot_desc (sl_slots t ! i) = None \<longrightarrow> i \<in> set ch))"

lemma slots_okI:
  assumes "length (sl_slots t) \<le> maximum" and "linked (sl_slots t) (sl_free t) ch" and "distinct ch"
    and "\<And>i. i < length (sl_slots t) \<Longrightarrow> slot_desc (sl_slots t ! i) = None \<Longrightarrow> i \<in> set ch"
  shows "slots_ok maximum t"
  using assms unfolding slots_ok_def by blast

lemma slots_okE:
  assumes "slots_ok maximum t"
  obtains ch where "length (sl_slots t) \<le> maximum" and "linked (sl_slots t) (sl_free t) ch"
    and "distinct ch"
    and "\<And>i. i < length (sl_slots t) \<Longrightarrow> slot_desc (sl_slots t ! i) = None \<Longrightarrow> i \<in> set ch"
  using assms unfolding slots_ok_def by blast

lemma linked_vacant: "linked ss head ch \<Longrightarrow> i \<in> set ch \<Longrightarrow> i < length ss \<and> slot_desc (ss ! i) = None"
  by (induction ss head ch rule: linked.induct) auto

lemma linked_update: "j \<notin> set ch \<Longrightarrow> linked (ss[j := x]) head ch \<longleftrightarrow> linked ss head ch"
  by (induction ss head ch rule: linked.induct) auto

lemma linked_append: "linked ss head ch \<Longrightarrow> linked (ss @ extra) head ch"
  by (induction ss head ch rule: linked.induct) (auto simp: nth_append)

lemma linked_Some: "linked ss (Some i) ch \<longleftrightarrow> (\<exists>rest. ch = i # rest \<and> i < length ss \<and>
    slot_desc (ss ! i) = None \<and> linked ss (slot_next (ss ! i)) rest)"
  by (cases ch) auto

lemma slots_new_ok: "slots_ok maximum slots_new"
  by (rule slots_okI [where ch = "[]"]) (simp_all add: slots_new_def)

lemma free_in_bounds:
  "slots_ok maximum t \<Longrightarrow> sl_free t = Some i \<Longrightarrow> i < length (sl_slots t) \<and> slot_desc (sl_slots t ! i) = None"
  by (elim slots_okE) (auto simp: linked_Some)

lemma slots_define_ok:
  assumes ok: "slots_ok maximum t" and step: "slots_define maximum reserved d t = (r, t')"
  shows "slots_ok maximum t'"
proof -
  obtain ch where len: "length (sl_slots t) \<le> maximum" and chain: "linked (sl_slots t) (sl_free t) ch"
    and dist: "distinct ch"
    and all: "\<forall>i < length (sl_slots t). slot_desc (sl_slots t ! i) = None \<longrightarrow> i \<in> set ch"
    using ok unfolding slots_ok_def by blast
  show ?thesis
  proof (cases "sl_free t")
    case None
    with chain have "ch = []" by (cases ch) auto
    with None len all step ok show ?thesis
      by (auto simp: slots_define_def nth_append less_Suc_eq intro!: slots_okI [where ch = "[]"]
          split: if_splits)
  next
    case (Some i)
    with chain obtain rest where ch: "ch = i # rest" and i: "i < length (sl_slots t)"
      and rest: "linked (sl_slots t) (slot_next (sl_slots t ! i)) rest"
      by (auto simp: linked_Some)
    have "i \<notin> set rest" using dist ch by simp
    with Some len rest dist ch all i step show ?thesis
      by (auto simp: slots_define_def Let_def linked_update nth_list_update
          intro!: slots_okI [where ch = rest] split: if_splits)
  qed
qed

lemma slots_release_ok:
  assumes ok: "slots_ok maximum t" and live: "i < length (sl_slots t)" "slot_desc (sl_slots t ! i) \<noteq> None"
    and step: "slots_release i t = (r, t')"
  shows "slots_ok maximum t'"
proof -
  obtain ch where len: "length (sl_slots t) \<le> maximum" and chain: "linked (sl_slots t) (sl_free t) ch"
    and dist: "distinct ch"
    and all: "\<forall>i < length (sl_slots t). slot_desc (sl_slots t ! i) = None \<longrightarrow> i \<in> set ch"
    using ok unfolding slots_ok_def by blast
  have "i \<notin> set ch" using linked_vacant [OF chain] live by auto
  with ok len chain dist all live step show ?thesis
    by (auto simp: slots_release_def Let_def linked_update nth_list_update
        intro!: slots_okI [where ch = "i # ch"] split: option.splits if_splits)
qed

text \<open>What an identity resolves to, and which identities a category has ever handed out.\<close>

definition store_lookup :: "usize \<Rightarrow> 'd slots \<Rightarrow> res_id \<Rightarrow> 'd option" where
  "store_lookup owner t k = (case slots_read owner t k of Inl e \<Rightarrow> None | Inr d \<Rightarrow> Some d)"

definition store_issued :: "usize \<Rightarrow> 'd slots \<Rightarrow> res_id set" where
  "store_issued owner t = {k. id_owner k = owner \<and> id_index k < length (sl_slots t) \<and>
     (id_generation k < slot_generation (sl_slots t ! id_index k) \<or>
      id_generation k = slot_generation (sl_slots t ! id_index k) \<and>
      slot_desc (sl_slots t ! id_index k) \<noteq> None)}"

lemma store_lookup_Some:
  "store_lookup owner t k = Some d \<longleftrightarrow> id_owner k = owner \<and> id_index k < length (sl_slots t) \<and>
     slot_generation (sl_slots t ! id_index k) = id_generation k \<and>
     slot_desc (sl_slots t ! id_index k) = Some d"
  by (auto simp: store_lookup_def slots_read_def get_def ok_or_def split: option.splits)

lemma slots_read_Inr: "slots_read owner t k = Inr d \<longleftrightarrow> store_lookup owner t k = Some d"
  by (auto simp: store_lookup_def split: sum.splits)

lemma slots_validate_Inr:
  "slots_validate owner t k = Inr r \<longleftrightarrow> r = k \<and> (\<exists>d. store_lookup owner t k = Some d)"
  by (auto simp: store_lookup_Some slots_validate_def get_def split: option.splits)

lemma store_lookup_issued: "store_lookup owner t k = Some d \<Longrightarrow> k \<in> store_issued owner t"
  by (simp add: store_lookup_Some store_issued_def)

lemma store_define_Inr:
  assumes ok: "slots_ok maximum t" and step: "store_define owner maximum reserved d t = (Inr k, t')"
  shows "k \<notin> store_issued owner t \<and> store_issued owner t' = insert k (store_issued owner t) \<and>
    store_lookup owner t' = (store_lookup owner t)(k \<mapsto> d)"
proof (cases "sl_free t")
  case None
  with step have k: "k = \<lparr>id_owner = owner, id_index = length (sl_slots t), id_generation = 0\<rparr>"
    and t': "t' = t\<lparr>sl_slots := sl_slots t @ [\<lparr>slot_desc = Some d, slot_generation = 0, slot_next = None\<rparr>]\<rparr>"
    by (auto simp: store_define_def slots_define_def split: if_splits)
  have "store_lookup owner t' j = ((store_lookup owner t)(k \<mapsto> d)) j" for j
    by (rule option_eqI; cases j) (auto simp: k t' store_lookup_Some nth_append less_Suc_eq)
  moreover have "j \<in> store_issued owner t' \<longleftrightarrow> j = k \<or> j \<in> store_issued owner t" for j
    by (cases j) (auto simp: k t' store_issued_def nth_append less_Suc_eq)
  ultimately show ?thesis by (auto simp: k store_issued_def)
next
  case (Some i)
  then have i: "i < length (sl_slots t)" "slot_desc (sl_slots t ! i) = None"
    using free_in_bounds [OF ok] by auto
  from Some step have
    k: "k = \<lparr>id_owner = owner, id_index = i, id_generation = slot_generation (sl_slots t ! i)\<rparr>"
    and t': "t' = t\<lparr>sl_slots := (sl_slots t)[i := (sl_slots t ! i)\<lparr>slot_desc := Some d, slot_next := None\<rparr>],
                    sl_free := slot_next (sl_slots t ! i)\<rparr>"
    by (auto simp: store_define_def slots_define_def Let_def split: if_splits)
  have "store_lookup owner t' j = ((store_lookup owner t)(k \<mapsto> d)) j" for j
    using i by (intro option_eqI; cases j) (auto simp: k t' store_lookup_Some nth_list_update)
  moreover have "j \<in> store_issued owner t' \<longleftrightarrow> j = k \<or> j \<in> store_issued owner t" for j
    using i by (cases j) (auto simp: k t' store_issued_def nth_list_update)
  ultimately show ?thesis using i by (auto simp: k store_issued_def)
qed

lemma store_release_Inr:
  assumes ok: "slots_ok maximum t" and step: "store_release owner k t = (Inr u, t')"
  shows "store_lookup owner t k \<noteq> None \<and> store_issued owner t' = store_issued owner t \<and>
    store_lookup owner t' = (store_lookup owner t)(k := None)"
proof -
  obtain d where live: "store_lookup owner t k = Some d"
    using step slots_validate_Inr [of owner t k] by (auto simp: store_release_def split: sum.splits)
  then have i: "id_index k < length (sl_slots t)"
    and gen: "slot_generation (sl_slots t ! id_index k) = id_generation k"
    and d: "slot_desc (sl_slots t ! id_index k) = Some d" and own: "id_owner k = owner"
    by (simp_all add: store_lookup_Some)
  have up: "unat (id_generation k + 1) = Suc (unat (id_generation k))" and
    t': "t' = t\<lparr>sl_slots := (sl_slots t)[id_index k :=
           \<lparr>slot_desc = None, slot_generation = id_generation k + 1, slot_next = sl_free t\<rparr>],
         sl_free := Some (id_index k)\<rparr>"
    using step gen
    by (auto simp: store_release_def slots_release_def Let_def checked_add_Some
        split: sum.splits option.splits)
  have "store_lookup owner t' j = ((store_lookup owner t)(k := None)) j" for j
    using i gen d up own by (intro option_eqI; cases j; cases k) (auto simp: word_unat_eq_iff t' store_lookup_Some nth_list_update)
  moreover have "x < id_generation k + 1 \<longleftrightarrow> x < id_generation k \<or> x = id_generation k" for x
    using up by (auto simp: word_less_nat_alt word_unat_eq_iff less_Suc_eq)
  then have "j \<in> store_issued owner t' \<longleftrightarrow> j \<in> store_issued owner t" for j
    using i gen d own by (cases j; cases k) (auto simp: t' store_issued_def nth_list_update)
  ultimately show ?thesis using live by auto
qed

lemma store_define_inv:
  "slots_ok maximum t \<Longrightarrow> store_define owner maximum reserved d t = (r, t') \<Longrightarrow> slots_ok maximum t'"
  using slots_define_ok [of maximum t reserved d]
  by (cases "slots_define maximum reserved d t"; cases "fst (slots_define maximum reserved d t)")
    (auto simp: store_define_def)

lemma store_define_error: "store_define owner maximum reserved d t = (Inl e, t') \<Longrightarrow> t' = t"
  by (auto simp: store_define_def slots_define_def Let_def split: option.splits if_splits)

lemma store_release_error: "store_release owner k t = (Inl e, t') \<Longrightarrow> t' = t"
  by (auto simp: store_release_def slots_release_def Let_def split: sum.splits option.splits)

lemma store_release_inv:
  assumes "slots_ok maximum t" and "store_release owner k t = (r, t')"
  shows "slots_ok maximum t'"
proof (cases "slots_validate owner t k")
  case (Inl e)
  with assms show ?thesis by (simp add: store_release_def)
next
  case (Inr x)
  then obtain d where "store_lookup owner t k = Some d" by (auto simp: slots_validate_Inr)
  with Inr assms show ?thesis
    by (auto simp: store_release_def store_lookup_Some elim!: slots_release_ok [rotated 3])
qed

interpretation slot: id_store "store_lookup owner" "store_issued owner" "slots_ok maximum"
    "store_define owner maximum" "store_release owner" slots_new for owner maximum
  by unfold_locales
    (rule slots_new_ok, simp add: store_issued_def slots_new_def, erule store_lookup_issued,
     erule (1) store_define_inv, erule (1) store_define_Inr, erule store_define_error,
     erule (1) store_release_inv, erule (1) store_release_Inr, erule store_release_error)

lemma no_leak:
  assumes ok: "slots_ok maximum t" and free: "sl_free t = None" and i: "i < length (sl_slots t)"
  shows "slot_desc (sl_slots t ! i) \<noteq> None"
proof -
  obtain ch where "linked (sl_slots t) (sl_free t) ch"
    and all: "\<forall>i < length (sl_slots t). slot_desc (sl_slots t ! i) = None \<longrightarrow> i \<in> set ch"
    using ok unfolding slots_ok_def by blast
  with free have "ch = []" by (cases ch) auto
  with all i show ?thesis by auto
qed

definition live_slots :: "'d slots \<Rightarrow> nat" where
  "live_slots t = length (filter (\<lambda>s. slot_desc s \<noteq> None) (sl_slots t))"

section \<open>Properties\<close>

text \<open>
  C15. Identities are never recycled. After any sequence of definitions and releases, whatever the
  allocator answers, no identity was issued twice, and an identity resolves exactly when it was
  issued and not retired since, to the descriptor it was issued for; slots stay bounded.
\<close>

theorem identities_never_recycled:
  assumes "store_run (store_define owner maximum) (store_release owner) ops ([], slots_new) = (log, t)"
  shows "distinct (issued_keys log) \<and> length (sl_slots t) \<le> maximum \<and>
    (slots_read owner t k = Inr d \<longleftrightarrow> Issued k d \<in> set log \<and> Retired k \<notin> set log)"
  using slot.history [OF assms] by (auto simp: slots_read_Inr slots_ok_def)

theorem identities_never_recycled_witness:
  "slots_read 7 (snd (store_run (store_define 7 2) (store_release 7)
      [DoDefine True ''a'', DoRelease \<lparr>id_owner = 7, id_index = 0, id_generation = 0\<rparr>, DoDefine False ''b'']
      ([], slots_new))) \<lparr>id_owner = 7, id_index = 0, id_generation = 1\<rparr> = Inr ''b''"
proof -
  let ?log = "[Issued \<lparr>id_owner = 7, id_index = 0, id_generation = 0\<rparr> ''a'',
      Retired \<lparr>id_owner = 7, id_index = 0, id_generation = 0\<rparr>,
      Issued \<lparr>id_owner = 7, id_index = 0, id_generation = 1\<rparr> ''b'']"
  obtain log t where run: "store_run (store_define 7 2) (store_release 7)
      [DoDefine True ''a'', DoRelease \<lparr>id_owner = 7, id_index = 0, id_generation = 0\<rparr>, DoDefine False ''b'']
      ([], slots_new) = (log, t)" by fastforce
  then have "log = ?log"
    by (simp add: store_define_def slots_define_def slots_new_def store_release_def slots_validate_def
        slots_release_def get_def checked_add_def)
  with identities_never_recycled [OF run, of "\<lparr>id_owner = 7, id_index = 0, id_generation = 1\<rparr>" "''b''"] run
  show ?thesis by simp
qed

text \<open>
  No slot is lost. While fewer resources are live than the category holds and memory can be
  reserved, a definition succeeds, however many definitions and releases went before.
\<close>

theorem define_succeeds_below_the_limit:
  assumes "slots_ok maximum t" and "live_slots t < maximum" and "reserved"
  shows "is_ok (fst (store_define owner maximum reserved d t))"
proof (cases "sl_free t")
  case None
  have "live_slots t = length (sl_slots t)"
    unfolding live_slots_def using no_leak [OF assms(1) None]
    by (intro arg_cong [where f = length] filter_True) (auto simp: in_set_conv_nth)
  with None assms show ?thesis by (simp add: store_define_def slots_define_def)
qed (simp add: store_define_def slots_define_def Let_def)

theorem define_succeeds_below_the_limit_witness:
  "is_ok (fst (store_define 0 1 True (5 :: nat) slots_new))"
  by (rule define_succeeds_below_the_limit) (simp_all add: slots_new_ok, simp add: live_slots_def slots_new_def)

end
