(* ===== verification/Binding_Desc.thy ===== *)
theory Binding_Desc
  imports Pipeline_Desc Shader Slot_Table "HOL-Library.Product_Lexorder" "HOL-Library.Multiset"
begin

text \<open>
  The descriptors of \<^verbatim>\<open>crates/sgfx-core/src/ir/programmable.rs\<close> that need no resource table:
  push-constant ranges, binding layouts, pipeline layouts, programmable pipelines and the access
  scopes of barriers. The unstable sorts of the code are \<open>sort_key\<close>: where two elements have equal
  keys the code rejects the list or the elements are equal, so the order among them is not seen.
\<close>

abbreviation "MAX_BIND_GROUPS \<equiv> (4 :: nat)"
abbreviation "MAX_BINDINGS_PER_GROUP \<equiv> (32 :: nat)"
abbreviation "MAX_PUSH_CONSTANT_BYTES \<equiv> (128 :: u32)"
abbreviation "MAX_COLOR_ATTACHMENTS \<equiv> (8 :: nat)"

type_synonym texture_id = res_id
type_synonym buffer_id = res_id
type_synonym shader_module_id = res_id

text \<open>Samplers and fixed-function pipelines are never released: their identities have no generation.\<close>

record plain_id =
  pid_owner :: usize
  pid_index :: usize

section \<open>Push constants\<close>

record push_constant_range =
  pc_stages :: shader_stages
  pc_offset :: u32
  pc_size :: u32

definition push_constant_range_new :: "shader_stages \<Rightarrow> u32 \<Rightarrow> u32 \<Rightarrow> push_constant_range ir_result" where
  "push_constant_range_new stages offset sz =
     (if stages = 0 \<or> sz = 0 \<or> \<not> is_multiple_of offset 4 \<or> \<not> is_multiple_of sz 4
      then Inl InvalidDescriptor
      else case checked_add offset sz of
             None \<Rightarrow> Inl Overflow
           | Some stop \<Rightarrow>
               if stop > MAX_PUSH_CONSTANT_BYTES then Inl OutOfBounds
               else Inr \<lparr>pc_stages = stages, pc_offset = offset, pc_size = sz\<rparr>)"

section \<open>Shader entry points and binding layouts\<close>

record shader_entry_point =
  se_module :: shader_module_id
  se_stage :: shader_stage
  se_entry_point :: "u8 list"

datatype storage_texture_access = WriteOnly

datatype binding_type =
    UniformBuffer
  | StorageBuffer (read_only: bool)
  | SampledTexture
  | SampledTextureView view_dimension bool
  | SamplerBinding
  | ComparisonSampler
  | StorageTexture texture_format storage_texture_access

record layout_entry =
  le_binding :: u32
  le_visibility :: shader_stages
  le_ty :: binding_type

type_synonym bind_group_layout = "layout_entry list"

definition layout_entry_rejected :: "layout_entry list \<Rightarrow> nat \<Rightarrow> bool" where
  "layout_entry_rejected entries i =
     (let e = entries ! i
      in le_binding e \<ge> 32 \<or> le_visibility e = 0 \<or>
         (i > 0 \<and> le_binding (entries ! (i - 1)) = le_binding e) \<or>
         (case le_ty e of StorageTexture f _ \<Rightarrow> f \<noteq> Rgba8Unorm | _ \<Rightarrow> False))"

definition bind_group_layout_new :: "layout_entry list \<Rightarrow> bind_group_layout ir_result" where
  "bind_group_layout_new entries =
     (if length entries > MAX_BINDINGS_PER_GROUP then Inl InvalidDescriptor
      else let sorted = sort_key le_binding entries
           in if list_ex (layout_entry_rejected sorted) [0 ..< length sorted] then Inl InvalidDescriptor
              else Inr sorted)"

section \<open>Pipeline layouts\<close>

record pipeline_layout =
  pl_bind_groups :: "bind_group_layout list"
  pl_push_constants :: "push_constant_range list"

definition pipeline_layout_new :: "bind_group_layout list \<Rightarrow> pipeline_layout ir_result" where
  "pipeline_layout_new groups =
     (if length groups > MAX_BIND_GROUPS then Inl InvalidDescriptor
      else Inr \<lparr>pl_bind_groups = groups, pl_push_constants = []\<rparr>)"

abbreviation "all_stages \<equiv> [STAGE_VERTEX, STAGE_FRAGMENT, STAGE_COMPUTE]"

fun stages_disjoint :: "shader_stages \<Rightarrow> push_constant_range list \<Rightarrow> bool" where
  "stages_disjoint used [] \<longleftrightarrow> True"
| "stages_disjoint used (r # rs) \<longleftrightarrow>
     (if list_ex (\<lambda>s. stages_contain (pc_stages r) s \<and> stages_contain used s) all_stages then False
      else stages_disjoint (stages_union used (pc_stages r)) rs)"

definition with_push_constant_ranges ::
    "pipeline_layout \<Rightarrow> push_constant_range list \<Rightarrow> pipeline_layout ir_result"
where
  "with_push_constant_ranges l ranges =
     (if length ranges > 3 then Inl InvalidDescriptor
      else if \<not> stages_disjoint 0 ranges then Inl InvalidDescriptor
      else Inr (l\<lparr>pl_push_constants :=
                    sort_key (\<lambda>r. (pc_offset r, pc_size r, pc_stages r)) ranges\<rparr>))"

definition validate_push_constants ::
    "pipeline_layout \<Rightarrow> shader_stages \<Rightarrow> u32 \<Rightarrow> u8 list \<Rightarrow> unit ir_result"
where
  "validate_push_constants l stages offset data =
     (if stages = 0 \<or> data = [] \<or> \<not> is_multiple_of offset 4 \<or> length data mod 4 \<noteq> 0
      then Inl InvalidValue
      else if length data \<ge> 2 ^ 32 then Inl Overflow
      else case checked_add offset (of_nat (length data)) of
        None \<Rightarrow> Inl Overflow
      | Some stop \<Rightarrow>
          if stop > MAX_PUSH_CONSTANT_BYTES then Inl OutOfBounds
          else if list_ex (\<lambda>s. stages_contain stages s \<and>
                    \<not> list_ex (\<lambda>r. stages_contain (pc_stages r) s \<and> offset \<ge> pc_offset r \<and>
                                   stop \<le> pc_offset r + pc_size r) (pl_push_constants l)) all_stages
          then Inl BindingLayoutMismatch
          else if list_ex (\<lambda>r. offset < pc_offset r + pc_size r \<and> pc_offset r < stop \<and>
                               \<not> stages_contain stages (pc_stages r)) (pl_push_constants l)
          then Inl BindingLayoutMismatch
          else Inr ())"

section \<open>Bound resources\<close>

datatype binding_resource =
    BufferBinding buffer_id u64 u64
  | TextureBinding texture_id
  | TextureViewBinding texture_id view_desc
  | SamplerResource plain_id

record bind_group_entry =
  be_binding :: u32
  be_resource :: binding_resource

record bind_group_desc =
  bg_layout :: bind_group_layout
  bg_entries :: "bind_group_entry list"

fun resource_alias :: "binding_resource \<Rightarrow> binding_resource \<Rightarrow> bool" where
  "resource_alias (BufferBinding a _ _) (BufferBinding b _ _) \<longleftrightarrow> a = b"
| "resource_alias (TextureBinding a) (TextureBinding b) \<longleftrightarrow> a = b"
| "resource_alias (TextureBinding a) (TextureViewBinding b _) \<longleftrightarrow> a = b"
| "resource_alias (TextureViewBinding a _) (TextureBinding b) \<longleftrightarrow> a = b"
| "resource_alias (TextureViewBinding a _) (TextureViewBinding b _) \<longleftrightarrow> a = b"
| "resource_alias _ _ \<longleftrightarrow> False"

definition binding_writes :: "binding_type \<Rightarrow> bool" where
  "binding_writes ty \<longleftrightarrow> (case ty of StorageBuffer ro \<Rightarrow> \<not> ro | StorageTexture _ _ \<Rightarrow> True | _ \<Rightarrow> False)"

section \<open>Programmable pipelines\<close>

record compute_pipeline =
  cp_shader :: shader_entry_point
  cp_layout :: pipeline_layout

definition compute_pipeline_new :: "shader_entry_point \<Rightarrow> pipeline_layout \<Rightarrow> compute_pipeline ir_result" where
  "compute_pipeline_new shader layout =
     (if se_stage shader \<noteq> Compute then Inl InvalidDescriptor
      else Inr \<lparr>cp_shader = shader, cp_layout = layout\<rparr>)"

record programmable_pipeline =
  pp_vertex :: shader_entry_point
  pp_fragment :: shader_entry_point
  pp_layout :: pipeline_layout
  pp_target_format :: texture_format
  pp_vertex_buffers :: "vertex_layout list"
  pp_topology :: topology
  pp_blend :: blend_state
  pp_raster :: raster_state
  pp_depth :: "depth_state option"
  pp_write_mask :: write_mask
  pp_additional :: "color_target list"

definition programmable_pipeline_new ::
    "shader_entry_point \<Rightarrow> shader_entry_point \<Rightarrow> pipeline_layout \<Rightarrow> texture_format \<Rightarrow>
     vertex_layout option \<Rightarrow> topology \<Rightarrow> blend_state \<Rightarrow> raster_state \<Rightarrow> programmable_pipeline ir_result"
where
  "programmable_pipeline_new vertex fragment layout target buffer topo blend raster =
     (if se_stage vertex \<noteq> Vertex \<or> se_stage fragment \<noteq> Fragment \<or> target = Depth32Float
      then Inl InvalidDescriptor
      else Inr \<lparr>pp_vertex = vertex, pp_fragment = fragment, pp_layout = layout, pp_target_format = target,
                pp_vertex_buffers = (case buffer of None \<Rightarrow> [] | Some b \<Rightarrow> [b]), pp_topology = topo,
                pp_blend = blend, pp_raster = raster, pp_depth = None, pp_write_mask = 15,
                pp_additional = []\<rparr>)"

definition with_color_targets ::
    "programmable_pipeline \<Rightarrow> color_target list \<Rightarrow> programmable_pipeline ir_result"
where
  "with_color_targets p targets =
     (if targets = [] \<or> length targets > MAX_COLOR_ATTACHMENTS then Inl InvalidDescriptor
      else Inr (p\<lparr>pp_target_format := ct_format (targets ! 0), pp_blend := ct_blend (targets ! 0),
                  pp_write_mask := ct_mask (targets ! 0), pp_additional := drop 1 targets\<rparr>))"

text \<open>The reconstruction of the first target may fail, which the code answers with a panic.\<close>

definition color_targets :: "programmable_pipeline \<Rightarrow> color_target list option" where
  "color_targets p =
     (case color_target_new (pp_target_format p) (pp_blend p) (pp_write_mask p) of
        Inl e \<Rightarrow> None
      | Inr t \<Rightarrow> Some (t # pp_additional p))"

fun collect_locations :: "u32 list \<Rightarrow> vertex_attribute list \<Rightarrow> u32 list ir_result" where
  "collect_locations seen [] = Inr seen"
| "collect_locations seen (a # as) =
     (if va_location a \<ge> 16 \<or> va_location a \<in> set seen then Inl InvalidDescriptor
      else collect_locations (seen @ [va_location a]) as)"

definition with_vertex_buffers ::
    "programmable_pipeline \<Rightarrow> vertex_layout list \<Rightarrow> programmable_pipeline ir_result"
where
  "with_vertex_buffers p buffers =
     (if length buffers > MAX_VERTEX_BUFFERS then Inl ResourceLimitExceeded
      else and_then (collect_locations [] (concat (map vl_attributes buffers)))
             (\<lambda>_. Inr (p\<lparr>pp_vertex_buffers := buffers\<rparr>)))"

definition pp_with_depth_state :: "programmable_pipeline \<Rightarrow> depth_state \<Rightarrow> programmable_pipeline ir_result" where
  "pp_with_depth_state p depth =
     (if ds_format depth \<noteq> Depth32Float then Inl InvalidDescriptor else Inr (p\<lparr>pp_depth := Some depth\<rparr>))"

definition pp_with_raster_state :: "programmable_pipeline \<Rightarrow> raster_state \<Rightarrow> programmable_pipeline" where
  "pp_with_raster_state p raster = p\<lparr>pp_raster := raster\<rparr>"

section \<open>Access scopes\<close>

datatype buffer_access =
    BufCopyDestination | BufCopySource | BufVertex | BufIndex | BufUniform | BufStorageRead
  | BufStorageReadWrite

fun buffer_access_usage :: "buffer_access \<Rightarrow> usage" where
  "buffer_access_usage BufCopyDestination = BUF_COPY_DST"
| "buffer_access_usage BufCopySource = BUF_COPY_SRC"
| "buffer_access_usage BufVertex = BUF_VERTEX"
| "buffer_access_usage BufIndex = BUF_INDEX"
| "buffer_access_usage BufUniform = BUF_UNIFORM"
| "buffer_access_usage BufStorageRead = BUF_STORAGE"
| "buffer_access_usage BufStorageReadWrite = BUF_STORAGE"

datatype texture_access =
    TexCopyDestination | TexCopySource | TexSampled | TexRenderAttachment | TexStorageWrite

fun texture_access_usage :: "texture_access \<Rightarrow> usage" where
  "texture_access_usage TexCopyDestination = TEX_COPY_DST"
| "texture_access_usage TexCopySource = TEX_COPY_SRC"
| "texture_access_usage TexSampled = TEX_SAMPLED"
| "texture_access_usage TexRenderAttachment = TEX_RENDER_ATTACHMENT"
| "texture_access_usage TexStorageWrite = TEX_STORAGE"

datatype resource_barrier =
    GlobalBarrier
  | BufferBarrier buffer_id buffer_access buffer_access
  | TextureBarrier texture_id texture_access texture_access
  | TextureMipBarrier texture_id u32 texture_access texture_access

section \<open>Canonical binding layouts\<close>

definition layout_entry_ok :: "layout_entry \<Rightarrow> bool" where
  "layout_entry_ok e \<longleftrightarrow> le_binding e < 32 \<and> le_visibility e \<noteq> 0 \<and>
     (case le_ty e of StorageTexture f _ \<Rightarrow> f = Rgba8Unorm | _ \<Rightarrow> True)"

definition layout_canonical :: "bind_group_layout \<Rightarrow> bool" where
  "layout_canonical l \<longleftrightarrow> sorted_wrt (<) (map le_binding l) \<and> list_all layout_entry_ok l"

lemma all_adjacent: "(\<forall>i < n. 0 < i \<longrightarrow> Q (i - 1) i) \<longleftrightarrow> (\<forall>i. Suc i < n \<longrightarrow> Q i (Suc i))"
proof
  assume "\<forall>i. Suc i < n \<longrightarrow> Q i (Suc i)"
  then have "Q (i - 1) i" if "i < n" "0 < i" for i
    using that by (cases i) simp_all
  then show "\<forall>i < n. 0 < i \<longrightarrow> Q (i - 1) i" by blast
qed auto

lemma no_rejection:
  "\<not> list_ex (layout_entry_rejected l) [0 ..< length l] \<longleftrightarrow>
     list_all layout_entry_ok l \<and>
     (\<forall>i. Suc i < length l \<longrightarrow> le_binding (l ! i) \<noteq> le_binding (l ! Suc i))"
proof -
  have "layout_entry_rejected l i \<longleftrightarrow>
      \<not> layout_entry_ok (l ! i) \<or> i > 0 \<and> le_binding (l ! (i - 1)) = le_binding (l ! i)" for i
    by (auto simp: layout_entry_rejected_def layout_entry_ok_def Let_def not_le split: binding_type.split)
  then have "\<not> list_ex (layout_entry_rejected l) [0 ..< length l] \<longleftrightarrow>
      (\<forall>i < length l. layout_entry_ok (l ! i)) \<and>
      (\<forall>i < length l. 0 < i \<longrightarrow> le_binding (l ! (i - 1)) \<noteq> le_binding (l ! i))"
    unfolding list_ex_iff set_upt by (meson atLeastLessThan_iff le0)
  then show ?thesis
    unfolding all_adjacent [of "length l" "\<lambda>j i. le_binding (l ! j) \<noteq> le_binding (l ! i)"] list_all_length .
qed

lemma sorted_strict:
  fixes xs :: "'a::linorder list"
  assumes "sorted xs" and "\<And>i. Suc i < length xs \<Longrightarrow> xs ! i \<noteq> xs ! Suc i"
  shows "sorted_wrt (<) xs"
proof -
  have "xs ! i < xs ! Suc i" if "Suc i < length xs" for i
    using assms(2) [OF that] sorted_nth_mono [OF assms(1), of i "Suc i"] that by (simp add: order_less_le)
  then show ?thesis by (simp add: sorted_wrt_iff_nth_Suc_transp)
qed

lemma canonical_iff:
  assumes "sorted (map le_binding l)"
  shows "\<not> list_ex (layout_entry_rejected l) [0 ..< length l] \<longleftrightarrow> layout_canonical l"
  unfolding no_rejection layout_canonical_def
  using sorted_strict [OF assms] sorted_wrt_nth_less [of "(<)" "map le_binding l" i "Suc i" for i] by fastforce

lemma bounded_distinct_length:
  assumes "distinct (xs :: u32 list)" and "\<forall>x \<in> set xs. x < of_nat n" and "n < 2 ^ 32"
  shows "length xs \<le> n"
proof -
  have "unat ` set xs \<subseteq> {..< n}"
    using assms(2,3) by (auto simp: word_less_nat_alt unat_of_nat)
  then have "card (unat ` set xs) \<le> n"
    using card_mono [of "{..< n}"] by simp
  moreover have "card (unat ` set xs) = length xs"
    using assms(1) by (subst card_image) (auto simp: distinct_card inj_on_def word_unat_eq_iff)
  ultimately show ?thesis by simp
qed

lemma canonical_length: "layout_canonical l \<Longrightarrow> length l \<le> 32"
  using bounded_distinct_length [of "map le_binding l" 32]
  by (auto simp: layout_canonical_def list_all_iff layout_entry_ok_def strict_sorted_iff)

section \<open>Stage sets as sets of stages\<close>

definition stages_valid :: "shader_stages \<Rightarrow> bool" where
  "stages_valid s \<longleftrightarrow> s AND 7 = s"

lemma stages_contain_bits: "stages_contain a b \<longleftrightarrow> (\<forall>n. bit b n \<longrightarrow> bit a n)"
proof
  assume "stages_contain a b"
  then show "\<forall>n. bit b n \<longrightarrow> bit a n" unfolding stages_contain_def by (metis bit_and_iff)
next
  assume "\<forall>n. bit b n \<longrightarrow> bit a n"
  then show "stages_contain a b" unfolding stages_contain_def by (intro bit_word_eqI) (auto simp: bit_and_iff)
qed

lemma stage_bits:
  "stages_contain a STAGE_VERTEX \<longleftrightarrow> bit a 0" "stages_contain a STAGE_FRAGMENT \<longleftrightarrow> bit a 1"
  "stages_contain a STAGE_COMPUTE \<longleftrightarrow> bit a 2"
proof -
  have "bit (2 :: u8) n \<longleftrightarrow> n = 1" and "bit (4 :: u8) n \<longleftrightarrow> n = 2" and "bit (1 :: u8) n \<longleftrightarrow> n = 0" for n
    using bit_exp_iff [of 1 n, where ?'a = "8 word"] bit_exp_iff [of 2 n, where ?'a = "8 word"]
    by (auto simp: bit_1_iff)
  then show "stages_contain a STAGE_VERTEX \<longleftrightarrow> bit a 0" "stages_contain a STAGE_FRAGMENT \<longleftrightarrow> bit a 1"
    "stages_contain a STAGE_COMPUTE \<longleftrightarrow> bit a 2" by (simp_all add: stages_contain_bits)
qed

lemma valid_bits:
  assumes "stages_valid b" and "bit b n"
  shows "n = 0 \<or> n = 1 \<or> n = 2"
proof -
  have "(7 :: u8) = 2 ^ 3 - 1" by simp
  moreover have "bit (b AND 7) n" using assms by (simp add: stages_valid_def)
  ultimately have "n < 3" by (simp only: bit_and_iff bit_mask_iff flip: mask_eq_exp_minus_1)
  then show ?thesis by auto
qed

lemma stages_contain_iff:
  assumes "stages_valid b"
  shows "stages_contain a b \<longleftrightarrow> (\<forall>s \<in> set all_stages. stages_contain b s \<longrightarrow> stages_contain a s)"
proof -
  have "(\<forall>s \<in> set all_stages. stages_contain b s \<longrightarrow> stages_contain a s) \<longleftrightarrow>
      (bit b 0 \<longrightarrow> bit a 0) \<and> (bit b 1 \<longrightarrow> bit a 1) \<and> (bit b 2 \<longrightarrow> bit a 2)"
    by (simp add: stage_bits)
  then show ?thesis unfolding stages_contain_bits using valid_bits [OF assms] by blast
qed

lemma some_stage:
  assumes "stages_valid b" and "b \<noteq> 0"
  shows "\<exists>s \<in> set all_stages. stages_contain b s"
proof -
  obtain n where "bit b n" using assms(2) by (metis bit_eqI bit_0_eq bot_apply bot_bool_def)
  then have "bit b 0 \<or> bit b 1 \<or> bit b 2" using valid_bits [OF assms(1)] by auto
  then show ?thesis by (simp add: stage_bits)
qed

lemma union_contain: "s \<in> set all_stages \<Longrightarrow> stages_contain (stages_union a b) s \<longleftrightarrow>
    stages_contain a s \<or> stages_contain b s"
  by (auto simp: stages_union_def stage_bits bit_or_iff)

section \<open>Declared push-constant bytes\<close>

definition range_ok :: "push_constant_range \<Rightarrow> bool" where
  "range_ok r \<longleftrightarrow> pc_stages r \<noteq> 0 \<and> stages_valid (pc_stages r) \<and> pc_size r \<noteq> 0 \<and>
     unat (pc_offset r) + unat (pc_size r) \<le> 128"

definition one_range_per_stage :: "push_constant_range list \<Rightarrow> bool" where
  "one_range_per_stage rs \<longleftrightarrow> (\<forall>s \<in> set all_stages. \<forall>r \<in> set rs. \<forall>r' \<in> set rs.
     stages_contain (pc_stages r) s \<longrightarrow> stages_contain (pc_stages r') s \<longrightarrow> r = r')"

definition push_layout_ok :: "pipeline_layout \<Rightarrow> bool" where
  "push_layout_ok l \<longleftrightarrow> list_all range_ok (pl_push_constants l) \<and> one_range_per_stage (pl_push_constants l)"

text \<open>Byte \<open>k\<close> of the push constants is declared for stage \<open>s\<close>.\<close>

definition declared :: "pipeline_layout \<Rightarrow> shader_stages \<Rightarrow> nat \<Rightarrow> bool" where
  "declared l s k \<longleftrightarrow> (\<exists>r \<in> set (pl_push_constants l). stages_contain (pc_stages r) s \<and>
     unat (pc_offset r) \<le> k \<and> k < unat (pc_offset r) + unat (pc_size r))"

lemma range_new_ok:
  "push_constant_range_new stages offset sz = Inr r \<Longrightarrow> stages_valid stages \<Longrightarrow> range_ok r"
  by (auto simp: push_constant_range_new_def range_ok_def checked_add_Some word_less_nat_alt not_less
      split: if_splits option.splits)

lemma stages_disjoint_spec:
  "stages_disjoint used rs \<Longrightarrow>
     (\<forall>s \<in> set all_stages. \<forall>r \<in> set rs. stages_contain used s \<longrightarrow> \<not> stages_contain (pc_stages r) s) \<and>
     one_range_per_stage rs"
proof (induction rs arbitrary: used)
  case Nil
  then show ?case by (simp add: one_range_per_stage_def)
next
  case (Cons r rs)
  then have first: "\<forall>s \<in> set all_stages. \<not> (stages_contain (pc_stages r) s \<and> stages_contain used s)"
    and rest: "stages_disjoint (stages_union used (pc_stages r)) rs"
    by (simp_all split: if_splits)
  note IH = Cons.IH [OF rest]
  have apart: "\<not> stages_contain (pc_stages r') s" if "s \<in> set all_stages" "r' \<in> set rs"
    "stages_contain used s \<or> stages_contain (pc_stages r) s" for s r'
    using IH that union_contain [OF that(1)] by blast
  have member: "x \<in> set (r # rs) \<longleftrightarrow> x = r \<or> x \<in> set rs" for x by simp
  have "\<not> stages_contain (pc_stages x) s" if "s \<in> set all_stages" "x \<in> set (r # rs)" "stages_contain used s" for s x
    using that first apart unfolding member by metis
  moreover have "x = y" if "s \<in> set all_stages" "x \<in> set (r # rs)" "y \<in> set (r # rs)"
    "stages_contain (pc_stages x) s" "stages_contain (pc_stages y) s" for s x y
    using that IH apart unfolding one_range_per_stage_def member by metis
  ultimately show ?case unfolding one_range_per_stage_def by metis
qed

lemma push_ranges_ok:
  assumes "with_push_constant_ranges l rs = Inr l'" and "list_all range_ok rs"
  shows "push_layout_ok l'"
  using assms stages_disjoint_spec [of 0 rs]
  by (auto simp: with_push_constant_ranges_def push_layout_ok_def one_range_per_stage_def list_all_iff
      split: if_splits)

lemma range_end: "range_ok r \<Longrightarrow> unat (pc_offset r + pc_size r) = unat (pc_offset r) + unat (pc_size r)"
  by (simp add: range_ok_def unat_add_lem [symmetric])

definition update_matches :: "pipeline_layout \<Rightarrow> shader_stages \<Rightarrow> nat \<Rightarrow> nat \<Rightarrow> bool" where
  "update_matches l stages start stop \<longleftrightarrow>
     (\<forall>s \<in> set all_stages. \<forall>k. start \<le> k \<and> k < stop \<longrightarrow> (declared l s k \<longleftrightarrow> stages_contain stages s))"

lemma update_complete:
  assumes ok: "push_layout_ok l" and s: "s \<in> set all_stages" and ne: "start < stop"
  shows "(\<forall>k. start \<le> k \<and> k < stop \<longrightarrow> declared l s k) \<longleftrightarrow>
    (\<exists>r \<in> set (pl_push_constants l). stages_contain (pc_stages r) s \<and> unat (pc_offset r) \<le> start \<and>
       stop \<le> unat (pc_offset r) + unat (pc_size r))"
proof
  assume all: "\<forall>k. start \<le> k \<and> k < stop \<longrightarrow> declared l s k"
  with ne have "declared l s start" and "declared l s (stop - 1)" by auto
  then obtain r r' where r: "r \<in> set (pl_push_constants l)" "stages_contain (pc_stages r) s"
    "unat (pc_offset r) \<le> start" and r': "r' \<in> set (pl_push_constants l)" "stages_contain (pc_stages r') s"
    "stop - 1 < unat (pc_offset r') + unat (pc_size r')"
    unfolding declared_def by blast
  then have "r = r'" using ok s unfolding push_layout_ok_def one_range_per_stage_def by blast
  with r r' ne show "\<exists>r \<in> set (pl_push_constants l). stages_contain (pc_stages r) s \<and>
      unat (pc_offset r) \<le> start \<and> stop \<le> unat (pc_offset r) + unat (pc_size r)" by (intro bexI [of _ r]) auto
qed (force simp: declared_def)

lemma update_exclusive:
  assumes ok: "push_layout_ok l" and ne: "start < stop"
  shows "(\<forall>s \<in> set all_stages. \<forall>k. start \<le> k \<and> k < stop \<longrightarrow> declared l s k \<longrightarrow> stages_contain stages s) \<longleftrightarrow>
    (\<forall>r \<in> set (pl_push_constants l). start < unat (pc_offset r) + unat (pc_size r) \<longrightarrow>
       unat (pc_offset r) < stop \<longrightarrow> stages_contain stages (pc_stages r))"
proof (intro iffI ballI impI)
  fix r assume all: "\<forall>s \<in> set all_stages. \<forall>k. start \<le> k \<and> k < stop \<longrightarrow> declared l s k \<longrightarrow> stages_contain stages s"
    and r: "r \<in> set (pl_push_constants l)" "start < unat (pc_offset r) + unat (pc_size r)" "unat (pc_offset r) < stop"
  have range: "range_ok r" using ok r(1) by (simp add: push_layout_ok_def list_all_iff)
  let ?k = "max start (unat (pc_offset r))"
  have "start \<le> ?k \<and> ?k < stop" and "unat (pc_offset r) \<le> ?k \<and> ?k < unat (pc_offset r) + unat (pc_size r)"
    using r ne range by (auto simp: range_ok_def unat_gt_0)
  then have "stages_contain stages s" if "s \<in> set all_stages" "stages_contain (pc_stages r) s" for s
    using all that r(1) unfolding declared_def by blast
  then show "stages_contain stages (pc_stages r)"
    using stages_contain_iff range by (simp only: range_ok_def) blast
next
  assume all: "\<forall>r \<in> set (pl_push_constants l). start < unat (pc_offset r) + unat (pc_size r) \<longrightarrow>
       unat (pc_offset r) < stop \<longrightarrow> stages_contain stages (pc_stages r)"
  show "\<forall>k. start \<le> k \<and> k < stop \<longrightarrow> declared l s k \<longrightarrow> stages_contain stages s" for s
  proof (intro allI impI)
    fix k assume k: "start \<le> k \<and> k < stop" and "declared l s k"
    then obtain r where "r \<in> set (pl_push_constants l)" "stages_contain (pc_stages r) s"
      "unat (pc_offset r) \<le> k" "k < unat (pc_offset r) + unat (pc_size r)"
      unfolding declared_def by blast
    with all k have "stages_contain stages (pc_stages r)" and "stages_contain (pc_stages r) s" by fastforce+
    then show "stages_contain stages s" by (simp add: stages_contain_bits)
  qed
qed

lemma four_dvd: "is_multiple_of (x :: u32) 4 \<longleftrightarrow> 4 dvd unat x"
  by (simp add: is_multiple_of_unat dvd_eq_mod_eq_0)

lemma validate_push_bounds:
  assumes "validate_push_constants l stages offset data = Inr ()"
  shows "stages \<noteq> 0 \<and> data \<noteq> [] \<and> 4 dvd unat offset \<and> 4 dvd length data \<and> unat offset + length data \<le> 128"
proof -
  let ?stop = "checked_add offset (of_nat (length data))"
  have "\<not> (stages = 0 \<or> data = [] \<or> \<not> is_multiple_of offset 4 \<or> length data mod 4 \<noteq> 0)"
    and len: "\<not> length data \<ge> 2 ^ 32"
    using assms unfolding validate_push_constants_def by (metis sum.distinct(1))+
  then have "stages \<noteq> 0 \<and> data \<noteq> [] \<and> 4 dvd unat offset \<and> 4 dvd length data"
    by (simp only: four_dvd de_Morgan_disj not_not dvd_eq_mod_eq_0) simp
  moreover obtain stop where stop: "?stop = Some stop" and "\<not> stop > 128"
    using assms unfolding validate_push_constants_def
    by (cases ?stop) (simp_all split: if_splits)
  moreover have "unat stop = unat offset + length data"
    using stop len by (auto simp: checked_add_Some unat_of_nat)
  ultimately show ?thesis by (simp add: word_less_nat_alt)
qed

lemma validate_push_spec:
  assumes ok: "push_layout_ok l"
  shows "validate_push_constants l stages offset data = Inr () \<longleftrightarrow>
    stages \<noteq> 0 \<and> data \<noteq> [] \<and> 4 dvd unat offset \<and> 4 dvd length data \<and> unat offset + length data \<le> 128 \<and>
    update_matches l stages (unat offset) (unat offset + length data)"
proof (cases "stages \<noteq> 0 \<and> data \<noteq> [] \<and> 4 dvd unat offset \<and> 4 dvd length data \<and> unat offset + length data \<le> 128")
  case False
  then show ?thesis using validate_push_bounds by auto
next
  case True
  then have ne: "unat offset < unat offset + length data" and len: "length data \<le> 128" by auto
  define stop where "stop = offset + of_nat (length data)"
  have stop: "unat stop = unat offset + length data"
    using True len by (simp add: stop_def unat_word_ariths unat_of_nat)
  then have add: "checked_add offset (of_nat (length data)) = Some stop"
    using True len by (simp add: checked_add_Some stop_def unat_of_nat)
  have ranges: "unat (pc_offset r + pc_size r) = unat (pc_offset r) + unat (pc_size r)"
    if "r \<in> set (pl_push_constants l)" for r
    using ok that by (simp add: push_layout_ok_def list_all_iff range_end)
  have "validate_push_constants l stages offset data = Inr () \<longleftrightarrow>
      (\<forall>s \<in> set all_stages. stages_contain stages s \<longrightarrow>
         (\<exists>r \<in> set (pl_push_constants l). stages_contain (pc_stages r) s \<and> unat (pc_offset r) \<le> unat offset \<and>
            unat stop \<le> unat (pc_offset r) + unat (pc_size r))) \<and>
      (\<forall>r \<in> set (pl_push_constants l). unat offset < unat (pc_offset r) + unat (pc_size r) \<longrightarrow>
         unat (pc_offset r) < unat stop \<longrightarrow> stages_contain stages (pc_stages r))"
    using True len add stop
    by (simp add: validate_push_constants_def four_dvd dvd_eq_mod_eq_0 word_le_nat_alt word_less_nat_alt
        list_ex_iff ranges not_less cong: conj_cong del: list.set)
      (unfold not_less [symmetric], blast)
  also have "\<dots> \<longleftrightarrow> update_matches l stages (unat offset) (unat stop)"
    unfolding update_exclusive [OF ok ne, folded stop, symmetric] update_matches_def
    using update_complete [OF ok _ ne, folded stop] by blast
  finally show ?thesis using True stop by simp
qed

section \<open>What a programmable pipeline guarantees\<close>

definition pp_ok :: "programmable_pipeline \<Rightarrow> bool" where
  "pp_ok p \<longleftrightarrow> se_stage (pp_vertex p) = Vertex \<and> se_stage (pp_fragment p) = Fragment \<and>
     pp_target_format p \<noteq> Depth32Float \<and> list_all (\<lambda>c. ct_format c \<noteq> Depth32Float) (pp_additional p) \<and>
     length (pp_additional p) < MAX_COLOR_ATTACHMENTS \<and>
     length (pp_vertex_buffers p) \<le> MAX_VERTEX_BUFFERS \<and>
     distinct (map va_location (concat (map vl_attributes (pp_vertex_buffers p)))) \<and>
     length (concat (map vl_attributes (pp_vertex_buffers p))) \<le> MAX_VERTEX_ATTRIBUTES \<and>
     (\<forall>d. pp_depth p = Some d \<longrightarrow> ds_format d = Depth32Float)"

datatype pipeline_builder =
    SetTargets "color_target list"
  | SetBuffers "vertex_layout list"
  | SetDepth depth_state
  | SetRaster raster_state

fun build_pipeline :: "programmable_pipeline \<Rightarrow> pipeline_builder list \<Rightarrow> programmable_pipeline ir_result" where
  "build_pipeline p [] = Inr p"
| "build_pipeline p (SetTargets ts # bs) = and_then (with_color_targets p ts) (\<lambda>p. build_pipeline p bs)"
| "build_pipeline p (SetBuffers ls # bs) = and_then (with_vertex_buffers p ls) (\<lambda>p. build_pipeline p bs)"
| "build_pipeline p (SetDepth d # bs) = and_then (pp_with_depth_state p d) (\<lambda>p. build_pipeline p bs)"
| "build_pipeline p (SetRaster r # bs) = build_pipeline (pp_with_raster_state p r) bs"

text \<open>The arguments come out of their own constructors: a color target is never a depth format.\<close>

fun builder_ok :: "pipeline_builder \<Rightarrow> bool" where
  "builder_ok (SetTargets ts) \<longleftrightarrow> list_all (\<lambda>c. ct_format c \<noteq> Depth32Float) ts"
| "builder_ok _ \<longleftrightarrow> True"

lemma color_target_new_ok: "color_target_new f b w = Inr c \<Longrightarrow> ct_format c \<noteq> Depth32Float"
  by (auto simp: color_target_new_def split: if_splits)

lemma collect_locations_Inr:
  "collect_locations seen as = Inr out \<Longrightarrow> distinct seen \<Longrightarrow> \<forall>x \<in> set seen. x < 16 \<Longrightarrow>
     out = seen @ map va_location as \<and> distinct (seen @ map va_location as) \<and>
     (\<forall>x \<in> set (seen @ map va_location as). x < 16)"
proof (induction seen "as" rule: collect_locations.induct)
  case (2 seen a "as")
  then have fresh: "\<not> (va_location a \<ge> 16 \<or> va_location a \<in> set seen)"
    and rest: "collect_locations (seen @ [va_location a]) as = Inr out"
    by (simp_all split: if_splits)
  from fresh "2.prems" have "distinct (seen @ [va_location a])" and "\<forall>x \<in> set (seen @ [va_location a]). x < 16"
    by auto
  from "2.IH" [OF fresh rest this] show ?case by simp
qed simp

lemma with_vertex_buffers_ok:
  assumes "with_vertex_buffers p ls = Inr p'" and "pp_ok p"
  shows "pp_ok p'"
proof -
  let ?as = "concat (map vl_attributes ls)"
  from assms(1) obtain out where "collect_locations [] ?as = Inr out"
    and p': "p' = p\<lparr>pp_vertex_buffers := ls\<rparr>" and "length ls \<le> 8"
    by (auto simp: with_vertex_buffers_def result_simps split: if_splits)
  with collect_locations_Inr [of "[]" ?as out] have "distinct (map va_location ?as)"
    and "\<forall>x \<in> set (map va_location ?as). x < of_nat 16" by auto
  then have "length ?as \<le> 16"
    using bounded_distinct_length [of "map va_location ?as" 16] by simp
  with assms(2) p' \<open>distinct (map va_location ?as)\<close> \<open>length ls \<le> 8\<close> show ?thesis by (simp add: pp_ok_def)
qed

lemma with_color_targets_ok:
  assumes "with_color_targets p ts = Inr p'" and "pp_ok p" and "list_all (\<lambda>c. ct_format c \<noteq> Depth32Float) ts"
  shows "pp_ok p'"
proof -
  obtain t ts' where ts: "ts = t # ts'" and "length ts' < 8"
    and p': "p' = p\<lparr>pp_target_format := ct_format t, pp_blend := ct_blend t,
                   pp_write_mask := ct_mask t, pp_additional := ts'\<rparr>"
    using assms(1) by (cases ts) (simp_all add: with_color_targets_def split: if_splits)
  with assms(2,3) show ?thesis unfolding pp_ok_def p' by simp
qed

lemma with_depth_state_ok:
  assumes "pp_with_depth_state p d = Inr p'" and "pp_ok p"
  shows "pp_ok p'"
proof -
  have "p' = p\<lparr>pp_depth := Some d\<rparr>" and "ds_format d = Depth32Float"
    using assms(1) by (simp_all add: pp_with_depth_state_def split: if_splits)
  with assms(2) show ?thesis unfolding pp_ok_def by simp
qed

lemma with_raster_state_ok: "pp_ok p \<Longrightarrow> pp_ok (pp_with_raster_state p r)"
  unfolding pp_ok_def pp_with_raster_state_def by simp

lemma build_pipeline_ok:
  "build_pipeline p bs = Inr p' \<Longrightarrow> pp_ok p \<Longrightarrow> list_all builder_ok bs \<Longrightarrow> pp_ok p'"
  by (induction p bs rule: build_pipeline.induct)
    (auto simp: result_simps dest: with_color_targets_ok with_vertex_buffers_ok with_depth_state_ok
      with_raster_state_ok)

lemma pipeline_new_ok:
  assumes "programmable_pipeline_new v f l target buffer topo blend raster = Inr p"
    and "\<And>b. buffer = Some b \<Longrightarrow> layout_ok b"
  shows "pp_ok p"
  using assms by (cases buffer) (auto simp: programmable_pipeline_new_def pp_ok_def layout_ok_def split: if_splits)

lemma color_targets_Some: "pp_ok p \<Longrightarrow> \<exists>ts. color_targets p = Some ts \<and> ts \<noteq> [] \<and>
    length ts \<le> MAX_COLOR_ATTACHMENTS \<and> list_all (\<lambda>c. ct_format c \<noteq> Depth32Float) ts"
  by (simp add: color_targets_def color_target_new_def pp_ok_def)

section \<open>Properties\<close>

text \<open>
  Binding layouts are canonical. The constructor yields the one list that orders the given
  entries strictly by binding number, and succeeds exactly when the numbers are distinct and below
  32, every entry is visible to some stage and storage textures are RGBA8: the order in which a
  caller lists the entries never matters.
\<close>

theorem binding_layouts_canonical:
  "bind_group_layout_new entries = Inr l \<longleftrightarrow> mset l = mset entries \<and> layout_canonical l"
proof -
  let ?s = "sort_key le_binding entries"
  have new: "bind_group_layout_new entries = Inr l \<longleftrightarrow> length entries \<le> 32 \<and> layout_canonical ?s \<and> l = ?s"
    unfolding bind_group_layout_new_def canonical_iff [OF sorted_sort_key, symmetric] Let_def by auto
  have "l = ?s" if "mset l = mset entries" and "layout_canonical l"
    using that by (intro sort_key_inj_key_eq [symmetric])
      (auto simp: layout_canonical_def strict_sorted_iff distinct_map dest: mset_eq_setD)
  moreover have "length entries = length ?s" by simp
  ultimately show ?thesis unfolding new using canonical_length [of ?s] by auto
qed

text \<open>
  C17. \<open>validate_push_constants\<close> accepts exactly the updates whose stages are, at each byte of an
  aligned nonempty range within 128 bytes, the stages the layout declares that byte for.
\<close>

theorem push_constant_updates_match_declaration:
  assumes "list_all range_ok ranges" and "with_push_constant_ranges l ranges = Inr l'"
  shows "validate_push_constants l' stages offset data = Inr () \<longleftrightarrow>
    stages \<noteq> 0 \<and> data \<noteq> [] \<and> 4 dvd unat offset \<and> 4 dvd length data \<and> unat offset + length data \<le> 128 \<and>
    (\<forall>s \<in> set all_stages. \<forall>k. unat offset \<le> k \<and> k < unat offset + length data \<longrightarrow>
       (declared l' s k \<longleftrightarrow> stages_contain stages s))"
  using validate_push_spec [OF push_ranges_ok [OF assms(2,1)]] unfolding update_matches_def .

theorem push_constant_updates_match_declaration_witness:
  "validate_push_constants
     \<lparr>pl_bind_groups = [], pl_push_constants = [\<lparr>pc_stages = 3, pc_offset = 0, pc_size = 64\<rparr>]\<rparr>
     1 16 [1, 2, 3, 4] \<noteq> Inr ()"
proof -
  let ?r = "\<lparr>pc_stages = 3, pc_offset = 0, pc_size = 64\<rparr> :: push_constant_range"
  let ?l = "\<lparr>pl_bind_groups = [], pl_push_constants = [?r]\<rparr>"
  have "list_all range_ok [?r]" by (simp add: range_ok_def stages_valid_def)
  moreover have "with_push_constant_ranges \<lparr>pl_bind_groups = [], pl_push_constants = []\<rparr> [?r] = Inr ?l"
    by (simp add: with_push_constant_ranges_def stages_contain_def)
  moreover have "declared ?l 2 16 \<and> \<not> stages_contain 1 (2 :: shader_stages)"
    by (simp add: declared_def stages_contain_def)
  ultimately show ?thesis
    using push_constant_updates_match_declaration [of "[?r]" _ ?l 1 16 "[1, 2, 3, 4]"] by fastforce
qed

text \<open>
  C18. Whatever builders follow the constructor of a programmable pipeline, its stages agree with its
  entry points, no color target has a depth format, the vertex inputs of all slots together have at
  most 16 attributes with distinct locations, and the list of its one to eight color targets can
  always be rebuilt: the \<open>expect\<close> in \<open>color_targets\<close> is never reached.
\<close>

theorem programmable_pipelines_well_formed:
  assumes "programmable_pipeline_new v f l target buffer topo blend raster = Inr p"
    and "\<And>b. buffer = Some b \<Longrightarrow> layout_ok b"
    and "list_all builder_ok bs" and "build_pipeline p bs = Inr p'"
  shows "pp_ok p' \<and> (\<exists>ts. color_targets p' = Some ts \<and> ts \<noteq> [] \<and> length ts \<le> MAX_COLOR_ATTACHMENTS \<and>
    list_all (\<lambda>c. ct_format c \<noteq> Depth32Float) ts)"
proof -
  have "pp_ok p'" by (rule build_pipeline_ok [OF assms(4) pipeline_new_ok [OF assms(1,2)] assms(3)])
  with color_targets_Some show ?thesis by blast
qed

theorem programmable_pipelines_well_formed_witness:
  "let m = \<lparr>id_owner = 1, id_index = 0, id_generation = 0\<rparr>;
       d = \<lparr>ds_format = Depth32Float, ds_compare = Less, ds_write = True\<rparr>
   in pp_ok \<lparr>pp_vertex = \<lparr>se_module = m, se_stage = Vertex, se_entry_point = [0x76]\<rparr>,
     pp_fragment = \<lparr>se_module = m, se_stage = Fragment, se_entry_point = [0x66]\<rparr>,
     pp_layout = \<lparr>pl_bind_groups = [], pl_push_constants = []\<rparr>, pp_target_format = Rgba8Unorm,
     pp_vertex_buffers = [], pp_topology = TriangleList, pp_blend = blend_replace,
     pp_raster = raster_state_new CullNone Clockwise, pp_depth = Some d, pp_write_mask = 15,
     pp_additional = []\<rparr>"
proof -
  let ?m = "\<lparr>id_owner = 1, id_index = 0, id_generation = 0\<rparr> :: res_id"
  let ?d = "\<lparr>ds_format = Depth32Float, ds_compare = Less, ds_write = True\<rparr>"
  show ?thesis
    using programmable_pipelines_well_formed
      [of "\<lparr>se_module = ?m, se_stage = Vertex, se_entry_point = [0x76]\<rparr>"
        "\<lparr>se_module = ?m, se_stage = Fragment, se_entry_point = [0x66]\<rparr>"
        "\<lparr>pl_bind_groups = [], pl_push_constants = []\<rparr>" Rgba8Unorm None TriangleList blend_replace
        "raster_state_new CullNone Clockwise" _ "[SetDepth ?d]"]
    by (simp add: programmable_pipeline_new_def pp_with_depth_state_def)
qed

end
