(* ===== verification/Resource_Table.thy ===== *)
theory Resource_Table
  imports Binding_Desc
begin

text \<open>
  The \<open>ResourceTable\<close> of \<^verbatim>\<open>crates/sgfx-core/src/ir/resource.rs\<close>: eight bounded categories, resolution
  of identities, and the definitions and releases that tie pipelines to their shader modules, with
  the validation of bind groups (\<^verbatim>\<open>programmable.rs\<close>) that reads it. The exchange of a table through
  the ABI (\<open>backend-abi\<close>) is the subject of \<open>Abi_Tables\<close>.

  \<open>table_ok\<close> is the invariant every operation keeps: all categories are bounded and a live
  pipeline's shader modules are live.
\<close>

section \<open>The table and its references\<close>

abbreviation "MAX_TEXTURES \<equiv> (8192 :: nat)"
abbreviation "MAX_BUFFERS \<equiv> (4096 :: nat)"
abbreviation "MAX_SAMPLERS \<equiv> (256 :: nat)"
abbreviation "MAX_RENDER_PIPELINES \<equiv> (256 :: nat)"
abbreviation "MAX_SHADER_MODULES \<equiv> (1024 :: nat)"
abbreviation "MAX_PROGRAMMABLE_RENDER_PIPELINES \<equiv> (512 :: nat)"
abbreviation "MAX_COMPUTE_PIPELINES \<equiv> (256 :: nat)"
abbreviation "MAX_BIND_GROUP_DEFINITIONS \<equiv> (32768 :: nat)"

type_synonym bind_group_id = res_id
type_synonym compute_pipeline_id = res_id
type_synonym programmable_pipeline_id = res_id

record resource_table =
  rt_id :: usize
  rt_textures :: "texture_desc slots"
  rt_buffers :: "buffer_desc slots"
  rt_samplers :: "sampler_desc list"
  rt_pipelines :: "render_pipeline list"
  rt_shaders :: "shader_module_desc slots"
  rt_bind_groups :: "bind_group_desc slots"
  rt_compute :: "compute_pipeline slots"
  rt_programmable :: "programmable_pipeline slots"

definition table_new :: "usize \<Rightarrow> resource_table" where
  "table_new number = \<lparr>rt_id = number, rt_textures = slots_new, rt_buffers = slots_new, rt_samplers = [],
     rt_pipelines = [], rt_shaders = slots_new, rt_bind_groups = slots_new, rt_compute = slots_new,
     rt_programmable = slots_new\<rparr>"

definition texture_ref :: "resource_table \<Rightarrow> texture_id \<Rightarrow> texture_id ir_result" where
  "texture_ref t i = slots_validate (rt_id t) (rt_textures t) i"

definition buffer_ref :: "resource_table \<Rightarrow> buffer_id \<Rightarrow> buffer_id ir_result" where
  "buffer_ref t i = slots_validate (rt_id t) (rt_buffers t) i"

definition shader_module_ref :: "resource_table \<Rightarrow> shader_module_id \<Rightarrow> shader_module_id ir_result" where
  "shader_module_ref t i = slots_validate (rt_id t) (rt_shaders t) i"

definition bind_group_ref :: "resource_table \<Rightarrow> bind_group_id \<Rightarrow> bind_group_id ir_result" where
  "bind_group_ref t i = slots_validate (rt_id t) (rt_bind_groups t) i"

definition compute_pipeline_ref :: "resource_table \<Rightarrow> compute_pipeline_id \<Rightarrow> compute_pipeline_id ir_result" where
  "compute_pipeline_ref t i = slots_validate (rt_id t) (rt_compute t) i"

definition programmable_pipeline_ref ::
    "resource_table \<Rightarrow> programmable_pipeline_id \<Rightarrow> programmable_pipeline_id ir_result"
where
  "programmable_pipeline_ref t i = slots_validate (rt_id t) (rt_programmable t) i"

definition validate_plain :: "usize \<Rightarrow> 'a list \<Rightarrow> plain_id \<Rightarrow> plain_id ir_result" where
  "validate_plain owner items i =
     (if pid_owner i \<noteq> owner then Inl ResourceTableMismatch
      else if get items (pid_index i) = None then Inl InvalidDescriptor else Inr i)"

definition sampler_ref :: "resource_table \<Rightarrow> plain_id \<Rightarrow> plain_id ir_result" where
  "sampler_ref t i = validate_plain (rt_id t) (rt_samplers t) i"

definition render_pipeline_ref :: "resource_table \<Rightarrow> plain_id \<Rightarrow> plain_id ir_result" where
  "render_pipeline_ref t i = validate_plain (rt_id t) (rt_pipelines t) i"

text \<open>What a reference reads.\<close>

definition table_texture :: "resource_table \<Rightarrow> texture_id \<Rightarrow> texture_desc ir_result" where
  "table_texture t r = slots_read (rt_id t) (rt_textures t) r"

definition table_buffer :: "resource_table \<Rightarrow> buffer_id \<Rightarrow> buffer_desc ir_result" where
  "table_buffer t r = slots_read (rt_id t) (rt_buffers t) r"

definition table_shader_module :: "resource_table \<Rightarrow> shader_module_id \<Rightarrow> shader_module_desc ir_result" where
  "table_shader_module t r = slots_read (rt_id t) (rt_shaders t) r"

definition table_bind_group :: "resource_table \<Rightarrow> bind_group_id \<Rightarrow> bind_group_desc ir_result" where
  "table_bind_group t r = slots_read (rt_id t) (rt_bind_groups t) r"

definition table_compute_pipeline :: "resource_table \<Rightarrow> compute_pipeline_id \<Rightarrow> compute_pipeline ir_result" where
  "table_compute_pipeline t r = slots_read (rt_id t) (rt_compute t) r"

definition table_programmable_pipeline ::
    "resource_table \<Rightarrow> programmable_pipeline_id \<Rightarrow> programmable_pipeline ir_result"
where
  "table_programmable_pipeline t r = slots_read (rt_id t) (rt_programmable t) r"

definition read_plain :: "usize \<Rightarrow> 'a list \<Rightarrow> plain_id \<Rightarrow> 'a ir_result" where
  "read_plain owner items r =
     (if pid_owner r \<noteq> owner then Inl ResourceTableMismatch else ok_or (get items (pid_index r)) InvalidDescriptor)"

definition table_sampler :: "resource_table \<Rightarrow> plain_id \<Rightarrow> sampler_desc ir_result" where
  "table_sampler t r = read_plain (rt_id t) (rt_samplers t) r"

definition with_pipeline :: "resource_table \<Rightarrow> plain_id \<Rightarrow> render_pipeline ir_result" where
  "with_pipeline t r = read_plain (rt_id t) (rt_pipelines t) r"

definition same_texture :: "resource_table \<Rightarrow> texture_id \<Rightarrow> texture_id \<Rightarrow> bool ir_result" where
  "same_texture t left right =
     and_then (table_texture t left) (\<lambda>_. and_then (table_texture t right) (\<lambda>_.
       Inr (id_index left = id_index right \<and> id_generation left = id_generation right)))"

definition shader_entry_point_new ::
    "resource_table \<Rightarrow> shader_module_id \<Rightarrow> shader_stage \<Rightarrow> u8 list \<Rightarrow> shader_entry_point ir_result"
where
  "shader_entry_point_new t module stage name =
     and_then (table_shader_module t module) (\<lambda>desc.
       if \<not> has_entry_point desc stage name then Inl InvalidDescriptor
       else Inr \<lparr>se_module = module, se_stage = stage, se_entry_point = name\<rparr>)"

section \<open>Bind groups\<close>

definition buffer_binding_validate ::
    "resource_table \<Rightarrow> buffer_id \<Rightarrow> u64 \<Rightarrow> u64 \<Rightarrow> binding_type \<Rightarrow> unit ir_result"
where
  "buffer_binding_validate t buffer offset sz ty =
     and_then (buffer_ref t buffer) (\<lambda>r. and_then (table_buffer t r) (\<lambda>desc.
       let required = (if ty = UniformBuffer then BUF_UNIFORM else BUF_STORAGE);
           alignment = (if ty = UniformBuffer then 16 else 4)
       in if \<not> usage_contains (buf_usage desc) required then Inl InvalidUsage
          else if sz = 0 \<or> \<not> is_multiple_of offset alignment \<or> \<not> is_multiple_of sz 4 then Inl InvalidValue
          else case checked_add offset sz of
                 None \<Rightarrow> Inl Overflow
               | Some stop \<Rightarrow> if stop > buf_size desc then Inl OutOfBounds else Inr ()))"

fun resource_validate :: "resource_table \<Rightarrow> binding_resource \<Rightarrow> binding_type \<Rightarrow> unit ir_result" where
  "resource_validate t (BufferBinding buffer offset sz) UniformBuffer =
     buffer_binding_validate t buffer offset sz UniformBuffer"
| "resource_validate t (BufferBinding buffer offset sz) (StorageBuffer ro) =
     buffer_binding_validate t buffer offset sz (StorageBuffer ro)"
| "resource_validate t (TextureBinding texture) SampledTexture =
     and_then (texture_ref t texture) (\<lambda>r. and_then (table_texture t r) (\<lambda>desc.
       if \<not> usage_contains (tex_usage desc) TEX_SAMPLED then Inl InvalidUsage
       else if tex_format desc = Depth32Float \<or> tex_layers desc \<noteq> 1 then Inl InvalidDescriptor
       else Inr ()))"
| "resource_validate t (TextureViewBinding texture view) (SampledTextureView dim depth) =
     and_then (texture_ref t texture) (\<lambda>r. and_then (table_texture t r) (\<lambda>desc.
     and_then (view_validate view desc) (\<lambda>_.
       if \<not> usage_contains (tex_usage desc) TEX_SAMPLED then Inl InvalidUsage
       else if view_dim view \<noteq> dim \<or> (depth \<and> view_format view \<noteq> Depth32Float)
       then Inl BindingLayoutMismatch else Inr ())))"
| "resource_validate t (TextureBinding texture) (StorageTexture format access) =
     and_then (texture_ref t texture) (\<lambda>r. and_then (table_texture t r) (\<lambda>desc.
       if \<not> usage_contains (tex_usage desc) TEX_STORAGE then Inl InvalidUsage
       else if tex_format desc \<noteq> format \<or> tex_layers desc \<noteq> 1 \<or> tex_mips desc \<noteq> 1
       then Inl BindingLayoutMismatch else Inr ()))"
| "resource_validate t (TextureViewBinding texture view) (StorageTexture format access) =
     and_then (texture_ref t texture) (\<lambda>r. and_then (table_texture t r) (\<lambda>desc.
     and_then (view_validate view desc) (\<lambda>_.
       if \<not> usage_contains (tex_usage desc) TEX_STORAGE then Inl InvalidUsage
       else if view_format view \<noteq> format \<or> view_dim view \<noteq> D2 \<or> view_mips view \<noteq> 1 \<or> view_layers view \<noteq> 1
       then Inl BindingLayoutMismatch else Inr ())))"
| "resource_validate t (SamplerResource sampler) SamplerBinding =
     and_then (sampler_ref t sampler) (\<lambda>r. and_then (table_sampler t r) (\<lambda>desc.
       if smp_compare desc \<noteq> None then Inl BindingLayoutMismatch else Inr ()))"
| "resource_validate t (SamplerResource sampler) ComparisonSampler =
     and_then (sampler_ref t sampler) (\<lambda>r. and_then (table_sampler t r) (\<lambda>desc.
       if smp_compare desc = None then Inl BindingLayoutMismatch else Inr ()))"
| "resource_validate t _ _ = Inl BindingLayoutMismatch"

fun entries_validate :: "resource_table \<Rightarrow> (bind_group_entry \<times> layout_entry) list \<Rightarrow> unit ir_result" where
  "entries_validate t [] = Inr ()"
| "entries_validate t ((entry, layout) # rest) =
     (if be_binding entry \<noteq> le_binding layout then Inl BindingLayoutMismatch
      else and_then (resource_validate t (be_resource entry) (le_ty layout)) (\<lambda>_. entries_validate t rest))"

definition writable_alias :: "bind_group_desc \<Rightarrow> bool" where
  "writable_alias d \<longleftrightarrow>
     list_ex (\<lambda>i. list_ex (\<lambda>j.
         resource_alias (be_resource (bg_entries d ! i)) (be_resource (bg_entries d ! j)) \<and>
         (binding_writes (le_ty (bg_layout d ! i)) \<or> binding_writes (le_ty (bg_layout d ! j))))
       [0 ..< i]) [0 ..< length (bg_entries d)]"

definition bind_group_validate :: "resource_table \<Rightarrow> bind_group_desc \<Rightarrow> unit ir_result" where
  "bind_group_validate t d =
     (if length (bg_entries d) \<noteq> length (bg_layout d) then Inl BindingLayoutMismatch
      else and_then (entries_validate t (zip (bg_entries d) (bg_layout d))) (\<lambda>_.
             if writable_alias d then Inl ResourceAccessConflict else Inr ()))"

definition bind_group_new ::
    "resource_table \<Rightarrow> bind_group_layout \<Rightarrow> bind_group_entry list \<Rightarrow> bind_group_desc ir_result"
where
  "bind_group_new t layout entries =
     (let result = \<lparr>bg_layout = layout, bg_entries = sort_key be_binding entries\<rparr>
      in and_then (bind_group_validate t result) (\<lambda>_. Inr result))"

section \<open>Definitions and releases\<close>

text \<open>Storing back a category after one of its operations.\<close>

definition in_category ::
    "('r ir_result \<times> 'c) \<Rightarrow> ('c \<Rightarrow> resource_table) \<Rightarrow> 'r ir_result \<times> resource_table"
where
  "in_category p put = (fst p, put (snd p))"

definition define_texture :: "bool \<Rightarrow> texture_desc \<Rightarrow> resource_table \<Rightarrow> texture_id ir_result \<times> resource_table" where
  "define_texture reserved d t =
     in_category (store_define (rt_id t) MAX_TEXTURES reserved d (rt_textures t)) (\<lambda>c. t\<lparr>rt_textures := c\<rparr>)"

definition release_texture :: "texture_id \<Rightarrow> resource_table \<Rightarrow> unit ir_result \<times> resource_table" where
  "release_texture i t =
     in_category (store_release (rt_id t) i (rt_textures t)) (\<lambda>c. t\<lparr>rt_textures := c\<rparr>)"

definition define_buffer :: "bool \<Rightarrow> buffer_desc \<Rightarrow> resource_table \<Rightarrow> buffer_id ir_result \<times> resource_table" where
  "define_buffer reserved d t =
     in_category (store_define (rt_id t) MAX_BUFFERS reserved d (rt_buffers t)) (\<lambda>c. t\<lparr>rt_buffers := c\<rparr>)"

definition release_buffer :: "buffer_id \<Rightarrow> resource_table \<Rightarrow> unit ir_result \<times> resource_table" where
  "release_buffer i t = in_category (store_release (rt_id t) i (rt_buffers t)) (\<lambda>c. t\<lparr>rt_buffers := c\<rparr>)"

text \<open>\<open>push\<close>: the categories without release only grow.\<close>

definition plain_push :: "usize \<Rightarrow> nat \<Rightarrow> bool \<Rightarrow> 'd \<Rightarrow> 'd list \<Rightarrow> plain_id ir_result \<times> 'd list" where
  "plain_push owner maximum reserved d items =
     (if length items \<ge> maximum then (Inl ResourceLimitExceeded, items)
      else if \<not> reserved then (Inl OutOfMemory, items)
      else (Inr \<lparr>pid_owner = owner, pid_index = length items\<rparr>, items @ [d]))"

definition define_sampler :: "bool \<Rightarrow> sampler_desc \<Rightarrow> resource_table \<Rightarrow> plain_id ir_result \<times> resource_table" where
  "define_sampler reserved d t =
     in_category (plain_push (rt_id t) MAX_SAMPLERS reserved d (rt_samplers t)) (\<lambda>c. t\<lparr>rt_samplers := c\<rparr>)"

definition define_render_pipeline ::
    "bool \<Rightarrow> render_pipeline \<Rightarrow> resource_table \<Rightarrow> plain_id ir_result \<times> resource_table"
where
  "define_render_pipeline reserved d t =
     in_category (plain_push (rt_id t) MAX_RENDER_PIPELINES reserved d (rt_pipelines t)) (\<lambda>c. t\<lparr>rt_pipelines := c\<rparr>)"

definition define_shader_module ::
    "bool \<Rightarrow> shader_module_desc \<Rightarrow> resource_table \<Rightarrow> shader_module_id ir_result \<times> resource_table"
where
  "define_shader_module reserved d t =
     in_category (store_define (rt_id t) MAX_SHADER_MODULES reserved d (rt_shaders t)) (\<lambda>c. t\<lparr>rt_shaders := c\<rparr>)"

definition define_bind_group ::
    "bool \<Rightarrow> bind_group_desc \<Rightarrow> resource_table \<Rightarrow> bind_group_id ir_result \<times> resource_table"
where
  "define_bind_group reserved d t =
     then_do (bind_group_validate t d, t) (\<lambda>_ t.
       in_category (store_define (rt_id t) MAX_BIND_GROUP_DEFINITIONS reserved d (rt_bind_groups t))
         (\<lambda>c. t\<lparr>rt_bind_groups := c\<rparr>))"

definition release_bind_group :: "bind_group_id \<Rightarrow> resource_table \<Rightarrow> unit ir_result \<times> resource_table" where
  "release_bind_group i t =
     in_category (store_release (rt_id t) i (rt_bind_groups t)) (\<lambda>c. t\<lparr>rt_bind_groups := c\<rparr>)"

definition define_compute_pipeline ::
    "bool \<Rightarrow> compute_pipeline \<Rightarrow> resource_table \<Rightarrow> compute_pipeline_id ir_result \<times> resource_table"
where
  "define_compute_pipeline reserved d t =
     then_do (shader_module_ref t (se_module (cp_shader d)), t) (\<lambda>_ t.
       in_category (store_define (rt_id t) MAX_COMPUTE_PIPELINES reserved d (rt_compute t))
         (\<lambda>c. t\<lparr>rt_compute := c\<rparr>))"

definition release_compute_pipeline :: "compute_pipeline_id \<Rightarrow> resource_table \<Rightarrow> unit ir_result \<times> resource_table" where
  "release_compute_pipeline i t =
     in_category (store_release (rt_id t) i (rt_compute t)) (\<lambda>c. t\<lparr>rt_compute := c\<rparr>)"

definition define_programmable_pipeline ::
    "bool \<Rightarrow> programmable_pipeline \<Rightarrow> resource_table \<Rightarrow> programmable_pipeline_id ir_result \<times> resource_table"
where
  "define_programmable_pipeline reserved d t =
     then_do (shader_module_ref t (se_module (pp_vertex d)), t) (\<lambda>_ t.
     then_do (shader_module_ref t (se_module (pp_fragment d)), t) (\<lambda>_ t.
       in_category (store_define (rt_id t) MAX_PROGRAMMABLE_RENDER_PIPELINES reserved d (rt_programmable t))
         (\<lambda>c. t\<lparr>rt_programmable := c\<rparr>)))"

definition release_programmable_pipeline ::
    "programmable_pipeline_id \<Rightarrow> resource_table \<Rightarrow> unit ir_result \<times> resource_table"
where
  "release_programmable_pipeline i t =
     in_category (store_release (rt_id t) i (rt_programmable t)) (\<lambda>c. t\<lparr>rt_programmable := c\<rparr>)"

definition module_referenced :: "resource_table \<Rightarrow> shader_module_id \<Rightarrow> bool" where
  "module_referenced t i \<longleftrightarrow>
     list_ex (\<lambda>s. case slot_desc s of None \<Rightarrow> False | Some p \<Rightarrow> se_module (cp_shader p) = i)
       (sl_slots (rt_compute t)) \<or>
     list_ex (\<lambda>s. case slot_desc s of None \<Rightarrow> False
                  | Some p \<Rightarrow> se_module (pp_vertex p) = i \<or> se_module (pp_fragment p) = i)
       (sl_slots (rt_programmable t))"

definition release_shader_module :: "shader_module_id \<Rightarrow> resource_table \<Rightarrow> unit ir_result \<times> resource_table" where
  "release_shader_module i t =
     then_do (shader_module_ref t i, t) (\<lambda>_ t.
       if module_referenced t i then (Inl InvalidDescriptor, t)
       else in_category (slots_release (id_index i) (rt_shaders t)) (\<lambda>c. t\<lparr>rt_shaders := c\<rparr>))"

section \<open>What live means\<close>

abbreviation live_texture :: "resource_table \<Rightarrow> texture_id \<Rightarrow> texture_desc option" where
  "live_texture t \<equiv> store_lookup (rt_id t) (rt_textures t)"

abbreviation live_buffer :: "resource_table \<Rightarrow> buffer_id \<Rightarrow> buffer_desc option" where
  "live_buffer t \<equiv> store_lookup (rt_id t) (rt_buffers t)"

abbreviation live_shader :: "resource_table \<Rightarrow> shader_module_id \<Rightarrow> shader_module_desc option" where
  "live_shader t \<equiv> store_lookup (rt_id t) (rt_shaders t)"

abbreviation live_bind_group :: "resource_table \<Rightarrow> bind_group_id \<Rightarrow> bind_group_desc option" where
  "live_bind_group t \<equiv> store_lookup (rt_id t) (rt_bind_groups t)"

abbreviation live_compute :: "resource_table \<Rightarrow> compute_pipeline_id \<Rightarrow> compute_pipeline option" where
  "live_compute t \<equiv> store_lookup (rt_id t) (rt_compute t)"

abbreviation live_programmable :: "resource_table \<Rightarrow> programmable_pipeline_id \<Rightarrow> programmable_pipeline option" where
  "live_programmable t \<equiv> store_lookup (rt_id t) (rt_programmable t)"

definition live_sampler :: "resource_table \<Rightarrow> plain_id \<Rightarrow> sampler_desc option" where
  "live_sampler t i = (if pid_owner i = rt_id t then get (rt_samplers t) (pid_index i) else None)"

lemma ref_iff:
  "texture_ref t i = Inr r \<longleftrightarrow> r = i \<and> (\<exists>d. live_texture t i = Some d)"
  "buffer_ref t i = Inr r \<longleftrightarrow> r = i \<and> (\<exists>d. live_buffer t i = Some d)"
  "shader_module_ref t i = Inr r \<longleftrightarrow> r = i \<and> (\<exists>d. live_shader t i = Some d)"
  "sampler_ref t p = Inr q \<longleftrightarrow> q = p \<and> (\<exists>d. live_sampler t p = Some d)"
  by (auto simp: texture_ref_def buffer_ref_def shader_module_ref_def slots_validate_Inr
      sampler_ref_def validate_plain_def live_sampler_def)

lemma table_iff:
  "table_texture t i = Inr td \<longleftrightarrow> live_texture t i = Some td"
  "table_buffer t i = Inr bd \<longleftrightarrow> live_buffer t i = Some bd"
  "table_shader_module t i = Inr sd \<longleftrightarrow> live_shader t i = Some sd"
  "table_bind_group t i = Inr gd \<longleftrightarrow> live_bind_group t i = Some gd"
  "table_compute_pipeline t i = Inr cd \<longleftrightarrow> live_compute t i = Some cd"
  "table_programmable_pipeline t i = Inr pd \<longleftrightarrow> live_programmable t i = Some pd"
  "table_sampler t p = Inr md \<longleftrightarrow> live_sampler t p = Some md"
  by (simp_all add: table_texture_def table_buffer_def table_shader_module_def table_bind_group_def
      table_compute_pipeline_def table_programmable_pipeline_def slots_read_Inr table_sampler_def
      read_plain_def live_sampler_def)

section \<open>What a valid bind group is\<close>

definition buffer_fits :: "resource_table \<Rightarrow> buffer_id \<Rightarrow> u64 \<Rightarrow> u64 \<Rightarrow> usage \<Rightarrow> nat \<Rightarrow> bool" where
  "buffer_fits t b offset sz required alignment \<longleftrightarrow> (\<exists>d. live_buffer t b = Some d \<and>
     usage_contains (buf_usage d) required \<and> sz \<noteq> 0 \<and> alignment dvd unat offset \<and> 4 dvd unat sz \<and>
     unat offset + unat sz \<le> unat (buf_size d))"

fun resource_fits :: "resource_table \<Rightarrow> binding_resource \<Rightarrow> binding_type \<Rightarrow> bool" where
  "resource_fits t (BufferBinding b offset sz) UniformBuffer \<longleftrightarrow> buffer_fits t b offset sz BUF_UNIFORM 16"
| "resource_fits t (BufferBinding b offset sz) (StorageBuffer ro) \<longleftrightarrow> buffer_fits t b offset sz BUF_STORAGE 4"
| "resource_fits t (TextureBinding x) SampledTexture \<longleftrightarrow> (\<exists>d. live_texture t x = Some d \<and>
     usage_contains (tex_usage d) TEX_SAMPLED \<and> tex_format d \<noteq> Depth32Float \<and> tex_layers d = 1)"
| "resource_fits t (TextureViewBinding x v) (SampledTextureView dim depth) \<longleftrightarrow>
     (\<exists>d. live_texture t x = Some d \<and> view_ok v d \<and> usage_contains (tex_usage d) TEX_SAMPLED \<and>
        view_dim v = dim \<and> (depth \<longrightarrow> view_format v = Depth32Float))"
| "resource_fits t (TextureBinding x) (StorageTexture format access) \<longleftrightarrow> (\<exists>d. live_texture t x = Some d \<and>
     usage_contains (tex_usage d) TEX_STORAGE \<and> tex_format d = format \<and> tex_layers d = 1 \<and> tex_mips d = 1)"
| "resource_fits t (TextureViewBinding x v) (StorageTexture format access) \<longleftrightarrow>
     (\<exists>d. live_texture t x = Some d \<and> view_ok v d \<and> usage_contains (tex_usage d) TEX_STORAGE \<and>
        view_format v = format \<and> view_dim v = D2 \<and> view_mips v = 1 \<and> view_layers v = 1)"
| "resource_fits t (SamplerResource s) SamplerBinding \<longleftrightarrow>
     (\<exists>d. live_sampler t s = Some d \<and> smp_compare d = None)"
| "resource_fits t (SamplerResource s) ComparisonSampler \<longleftrightarrow>
     (\<exists>d. live_sampler t s = Some d \<and> smp_compare d \<noteq> None)"
| "resource_fits t _ _ \<longleftrightarrow> False"

text \<open>Two different entries never reach one resource when either may write it.\<close>

definition alias_free :: "bind_group_desc \<Rightarrow> bool" where
  "alias_free d \<longleftrightarrow> (\<forall>i < length (bg_entries d). \<forall>j < length (bg_entries d). i \<noteq> j \<longrightarrow>
     resource_alias (be_resource (bg_entries d ! i)) (be_resource (bg_entries d ! j)) \<longrightarrow>
     \<not> binding_writes (le_ty (bg_layout d ! i)))"

definition bind_group_ok :: "resource_table \<Rightarrow> bind_group_desc \<Rightarrow> bool" where
  "bind_group_ok t d \<longleftrightarrow> map be_binding (bg_entries d) = map le_binding (bg_layout d) \<and>
     (\<forall>i < length (bg_entries d). resource_fits t (be_resource (bg_entries d ! i)) (le_ty (bg_layout d ! i))) \<and>
     alias_free d"

lemma multiple_16: "is_multiple_of (x :: u64) 16 \<longleftrightarrow> 16 dvd unat x"
  by (simp add: is_multiple_of_unat dvd_eq_mod_eq_0)

lemma multiple_4: "is_multiple_of (x :: u64) 4 \<longleftrightarrow> 4 dvd unat x"
  by (simp add: is_multiple_of_unat dvd_eq_mod_eq_0)

lemma range_fits:
  fixes a b limit :: u64
  shows "(case checked_add a b of None \<Rightarrow> Inl Overflow | Some stop \<Rightarrow> if stop > limit then Inl OutOfBounds else Inr ())
      = (Inr () :: unit ir_result) \<longleftrightarrow> unat a + unat b \<le> unat limit"
proof (cases "unat a + unat b < 2 ^ 64")
  case True
  then have "unat (a + b) = unat a + unat b" by (simp add: unat_word_ariths)
  with True show ?thesis by (simp add: checked_add_def word_less_nat_alt)
next
  case False
  have "unat limit < 2 ^ 64" using unat_bounds(4) [of limit] by simp
  with False have "\<not> unat a + unat b \<le> unat limit" by linarith
  with False show ?thesis by (simp add: checked_add_def)
qed

lemma buffer_binding_fits:
  "buffer_binding_validate t b offset sz ty = Inr () \<longleftrightarrow>
     (if ty = UniformBuffer then buffer_fits t b offset sz BUF_UNIFORM 16 else buffer_fits t b offset sz BUF_STORAGE 4)"
proof (cases "live_buffer t b")
  case None
  then show ?thesis
    by (auto simp: buffer_binding_validate_def buffer_fits_def result_simps ref_iff table_iff)
next
  case (Some d)
  then have "buffer_ref t b = Inr b" and "table_buffer t b = Inr d" by (simp_all add: ref_iff table_iff)
  with Some show ?thesis
    by (simp add: buffer_binding_validate_def buffer_fits_def Let_def multiple_16 multiple_4 range_fits)
qed

lemma resource_validate_iff: "resource_validate t r ty = Inr () \<longleftrightarrow> resource_fits t r ty"
  by (cases "(t, r, ty)" rule: resource_validate.cases)
    (auto simp: buffer_binding_fits result_simps ref_iff table_iff view_validate_iff)

lemma entries_validate_iff:
  "length es = length ls \<Longrightarrow> entries_validate t (zip es ls) = Inr () \<longleftrightarrow>
     map be_binding es = map le_binding ls \<and>
     (\<forall>i < length es. resource_fits t (be_resource (es ! i)) (le_ty (ls ! i)))"
proof (induction es ls rule: list_induct2)
  case (Cons e es l ls)
  then show ?case
    by (auto simp: result_simps resource_validate_iff All_less_Suc2)
qed simp

lemma resource_alias_sym: "resource_alias r s = resource_alias s r"
  by (cases "(r, s)" rule: resource_alias.cases) auto

lemma pairs_below:
  assumes sym: "\<And>i j :: nat. P i j = P j i"
  shows "(\<forall>i < n. \<forall>j < i. P i j \<longrightarrow> \<not> W i \<and> \<not> W j) \<longleftrightarrow> (\<forall>i < n. \<forall>j < n. i \<noteq> j \<longrightarrow> P i j \<longrightarrow> \<not> W i)"
proof (intro iffI allI impI)
  fix i j assume all: "\<forall>i < n. \<forall>j < i. P i j \<longrightarrow> \<not> W i \<and> \<not> W j" and "i < n" "j < n" "i \<noteq> j" "P i j"
  then show "\<not> W i" using sym [of i j] by (cases "j < i") auto
next
  fix i j assume "\<forall>i < n. \<forall>j < n. i \<noteq> j \<longrightarrow> P i j \<longrightarrow> \<not> W i" and "i < n" "j < i" "P i j"
  moreover have "j < n" and "i \<noteq> j" and "P j i" using calculation sym by auto
  ultimately show "\<not> W i \<and> \<not> W j" by blast
qed

lemma writable_alias_iff: "\<not> writable_alias d \<longleftrightarrow> alias_free d"
proof -
  have "\<not> writable_alias d \<longleftrightarrow> (\<forall>i < length (bg_entries d). \<forall>j < i.
      resource_alias (be_resource (bg_entries d ! i)) (be_resource (bg_entries d ! j)) \<longrightarrow>
      \<not> binding_writes (le_ty (bg_layout d ! i)) \<and> \<not> binding_writes (le_ty (bg_layout d ! j)))"
    by (auto simp: writable_alias_def list_ex_iff)
  also have "\<dots> \<longleftrightarrow> alias_free d"
    unfolding alias_free_def by (rule pairs_below) (rule resource_alias_sym)
  finally show ?thesis .
qed

lemma bind_group_validate_iff: "bind_group_validate t d = Inr () \<longleftrightarrow> bind_group_ok t d"
proof (cases "length (bg_entries d) = length (bg_layout d)")
  case True
  then show ?thesis
    by (auto simp: bind_group_validate_def bind_group_ok_def result_simps entries_validate_iff
        writable_alias_iff [symmetric])
next
  case False
  then have "map be_binding (bg_entries d) \<noteq> map le_binding (bg_layout d)"
    by (metis length_map)
  with False show ?thesis by (simp add: bind_group_validate_def bind_group_ok_def)
qed

section \<open>The invariant of the table\<close>

definition pipelines_ok :: "resource_table \<Rightarrow> bool" where
  "pipelines_ok t \<longleftrightarrow>
     (\<forall>i p. live_compute t i = Some p \<longrightarrow> live_shader t (se_module (cp_shader p)) \<noteq> None) \<and>
     (\<forall>i p. live_programmable t i = Some p \<longrightarrow>
        live_shader t (se_module (pp_vertex p)) \<noteq> None \<and> live_shader t (se_module (pp_fragment p)) \<noteq> None)"

definition bounds_ok :: "resource_table \<Rightarrow> bool" where
  "bounds_ok t \<longleftrightarrow> slots_ok MAX_TEXTURES (rt_textures t) \<and> slots_ok MAX_BUFFERS (rt_buffers t) \<and>
     length (rt_samplers t) \<le> MAX_SAMPLERS \<and> length (rt_pipelines t) \<le> MAX_RENDER_PIPELINES \<and>
     slots_ok MAX_SHADER_MODULES (rt_shaders t) \<and> slots_ok MAX_BIND_GROUP_DEFINITIONS (rt_bind_groups t) \<and>
     slots_ok MAX_COMPUTE_PIPELINES (rt_compute t) \<and>
     slots_ok MAX_PROGRAMMABLE_RENDER_PIPELINES (rt_programmable t)"

definition table_ok :: "resource_table \<Rightarrow> bool" where
  "table_ok t \<longleftrightarrow> bounds_ok t \<and> pipelines_ok t"

datatype table_op =
    DefineTexture bool texture_desc
  | ReleaseTexture texture_id
  | DefineBuffer bool buffer_desc
  | ReleaseBuffer buffer_id
  | DefineSampler bool sampler_desc
  | DefineRenderPipeline bool render_pipeline
  | DefineShader bool shader_module_desc
  | ReleaseShader shader_module_id
  | DefineBindGroup bool bind_group_desc
  | ReleaseBindGroup bind_group_id
  | DefineCompute bool compute_pipeline
  | ReleaseCompute compute_pipeline_id
  | DefineProgrammable bool programmable_pipeline
  | ReleaseProgrammable programmable_pipeline_id

fun table_step :: "table_op \<Rightarrow> resource_table \<Rightarrow> resource_table" where
  "table_step (DefineTexture m d) t = snd (define_texture m d t)"
| "table_step (ReleaseTexture i) t = snd (release_texture i t)"
| "table_step (DefineBuffer m d) t = snd (define_buffer m d t)"
| "table_step (ReleaseBuffer i) t = snd (release_buffer i t)"
| "table_step (DefineSampler m d) t = snd (define_sampler m d t)"
| "table_step (DefineRenderPipeline m d) t = snd (define_render_pipeline m d t)"
| "table_step (DefineShader m d) t = snd (define_shader_module m d t)"
| "table_step (ReleaseShader i) t = snd (release_shader_module i t)"
| "table_step (DefineBindGroup m d) t = snd (define_bind_group m d t)"
| "table_step (ReleaseBindGroup i) t = snd (release_bind_group i t)"
| "table_step (DefineCompute m d) t = snd (define_compute_pipeline m d t)"
| "table_step (ReleaseCompute i) t = snd (release_compute_pipeline i t)"
| "table_step (DefineProgrammable m d) t = snd (define_programmable_pipeline m d t)"
| "table_step (ReleaseProgrammable i) t = snd (release_programmable_pipeline i t)"

definition table_run :: "usize \<Rightarrow> table_op list \<Rightarrow> resource_table" where
  "table_run number ops = fold table_step ops (table_new number)"

lemma in_category_simps [simp]:
  "fst (in_category p put) = fst p" "snd (in_category p put) = put (snd p)"
  by (simp_all add: in_category_def)

text \<open>A define keeps every identity that resolves, a release takes away at most one.\<close>

lemma define_keeps:
  assumes "slots_ok maximum c"
  shows "slots_ok maximum (snd (store_define owner maximum m d c))"
    and "store_lookup owner c i = Some e \<Longrightarrow>
      store_lookup owner (snd (store_define owner maximum m d c)) i = Some e"
    and "store_lookup owner (snd (store_define owner maximum m d c)) i = Some e \<Longrightarrow>
      e = d \<or> store_lookup owner c i = Some e"
proof -
  obtain r c' where step: "store_define owner maximum m d c = (r, c')" by fastforce
  show "slots_ok maximum (snd (store_define owner maximum m d c))"
    using slot.define_inv [OF assms step] step by simp
  have lookup: "r = Inl x \<Longrightarrow> c' = c" "r = Inr k \<Longrightarrow> k \<notin> store_issued owner c \<and>
      store_lookup owner c' = (store_lookup owner c)(k \<mapsto> d)" for x k
    using slot.define_error [OF assms, of owner m d] slot.define_ok [OF assms, of owner m d] step by auto
  show "store_lookup owner c i = Some e \<Longrightarrow>
      store_lookup owner (snd (store_define owner maximum m d c)) i = Some e"
    using lookup step store_lookup_issued [of owner c i e] by (cases r) auto
  show "store_lookup owner (snd (store_define owner maximum m d c)) i = Some e \<Longrightarrow>
      e = d \<or> store_lookup owner c i = Some e"
    using lookup step by (cases r) (auto split: if_splits)
qed

lemma release_keeps:
  assumes "slots_ok maximum c"
  shows "slots_ok maximum (snd (store_release owner k c))"
    and "store_lookup owner (snd (store_release owner k c)) i = Some e \<Longrightarrow> store_lookup owner c i = Some e"
    and "i \<noteq> k \<Longrightarrow> store_lookup owner (snd (store_release owner k c)) i = store_lookup owner c i"
proof -
  obtain r c' where step: "store_release owner k c = (r, c')" by fastforce
  show "slots_ok maximum (snd (store_release owner k c))"
    using slot.release_inv [OF assms step] step by simp
  have lookup: "r = Inl x \<Longrightarrow> c' = c" "r = Inr () \<Longrightarrow>
      store_lookup owner c' = (store_lookup owner c)(k := None)" for x
    using slot.release_error [OF assms, of owner k] slot.release_ok [OF assms, of owner k] step by auto
  show "store_lookup owner (snd (store_release owner k c)) i = Some e \<Longrightarrow> store_lookup owner c i = Some e"
    and "i \<noteq> k \<Longrightarrow> store_lookup owner (snd (store_release owner k c)) i = store_lookup owner c i"
    using lookup step by (cases r; auto split: if_splits)+
qed

lemma plain_push_length:
  "length items \<le> maximum \<Longrightarrow> length (snd (plain_push owner maximum m d items)) \<le> maximum"
  by (simp add: plain_push_def)

lemma table_new_ok: "table_ok (table_new number)"
  by (simp add: table_ok_def bounds_ok_def pipelines_ok_def table_new_def slots_new_ok)
    (simp add: store_lookup_Some slots_new_def)

lemma not_referenced:
  assumes "\<not> module_referenced t i"
  shows "live_compute t k = Some p \<Longrightarrow> se_module (cp_shader p) \<noteq> i"
    and "live_programmable t k = Some q \<Longrightarrow> se_module (pp_vertex q) \<noteq> i \<and> se_module (pp_fragment q) \<noteq> i"
proof -
  have "live_compute t k = Some p \<Longrightarrow> \<exists>s \<in> set (sl_slots (rt_compute t)). slot_desc s = Some p"
    and "live_programmable t k = Some q \<Longrightarrow> \<exists>s \<in> set (sl_slots (rt_programmable t)). slot_desc s = Some q"
    by (auto simp: store_lookup_Some)
  with assms show "live_compute t k = Some p \<Longrightarrow> se_module (cp_shader p) \<noteq> i"
    and "live_programmable t k = Some q \<Longrightarrow> se_module (pp_vertex q) \<noteq> i \<and> se_module (pp_fragment q) \<noteq> i"
    by (auto simp: module_referenced_def list_ex_iff split: option.splits)
qed

lemma release_shader_module_eq:
  "release_shader_module i t =
     (if live_shader t i \<noteq> None \<and> module_referenced t i then (Inl InvalidDescriptor, t)
      else in_category (store_release (rt_id t) i (rt_shaders t)) (\<lambda>c. t\<lparr>rt_shaders := c\<rparr>))"
proof (cases "shader_module_ref t i")
  case (Inl e)
  then have "live_shader t i = None"
    using ref_iff(3) [of t i i] by (cases "live_shader t i") auto
  with Inl show ?thesis
    by (simp add: release_shader_module_def store_release_def in_category_def shader_module_ref_def)
next
  case (Inr r)
  then have "live_shader t i \<noteq> None" by (auto simp: ref_iff)
  with Inr show ?thesis
    by (simp add: release_shader_module_def store_release_def in_category_def shader_module_ref_def)
qed

lemma bounds_ok_step: "bounds_ok t \<Longrightarrow> bounds_ok (table_step op t)"
proof (cases op)
  case (DefineBindGroup m d)
  assume "bounds_ok t"
  with DefineBindGroup show ?thesis
    by (cases "bind_group_validate t d") (simp_all add: bounds_ok_def define_bind_group_def define_keeps(1))
next
  case (DefineCompute m d)
  assume "bounds_ok t"
  with DefineCompute show ?thesis
    by (cases "shader_module_ref t (se_module (cp_shader d))")
      (simp_all add: bounds_ok_def define_compute_pipeline_def define_keeps(1))
next
  case (DefineProgrammable m d)
  assume "bounds_ok t"
  with DefineProgrammable show ?thesis
    by (cases "shader_module_ref t (se_module (pp_vertex d))";
        cases "shader_module_ref t (se_module (pp_fragment d))")
      (simp_all add: bounds_ok_def define_programmable_pipeline_def define_keeps(1))
qed (simp_all add: bounds_ok_def define_texture_def release_texture_def define_buffer_def release_buffer_def
      define_sampler_def define_render_pipeline_def define_shader_module_def release_shader_module_eq
      release_bind_group_def release_compute_pipeline_def release_programmable_pipeline_def
      define_keeps(1) release_keeps(1) plain_push_length)

lemma pipelines_ok_congI:
  assumes "pipelines_ok t" and "rt_id t' = rt_id t"
    and "\<And>i. live_shader t i \<noteq> None \<Longrightarrow> live_shader t' i \<noteq> None"
    and "\<And>i p. live_compute t' i = Some p \<Longrightarrow> live_compute t i = Some p \<or> live_shader t (se_module (cp_shader p)) \<noteq> None"
    and "\<And>i p. live_programmable t' i = Some p \<Longrightarrow> live_programmable t i = Some p \<or>
      live_shader t (se_module (pp_vertex p)) \<noteq> None \<and> live_shader t (se_module (pp_fragment p)) \<noteq> None"
  shows "pipelines_ok t'"
  using assms unfolding pipelines_ok_def by blast

lemma release_shader_pipelines:
  assumes "bounds_ok t" and "pipelines_ok t"
  shows "pipelines_ok (snd (release_shader_module i t))"
proof (cases "live_shader t i \<noteq> None \<and> module_referenced t i")
  case True
  with assms show ?thesis by (simp add: release_shader_module_eq)
next
  case False
  have bound: "slots_ok MAX_SHADER_MODULES (rt_shaders t)" using assms(1) by (simp add: bounds_ok_def)
  have kept: "store_lookup (rt_id t) (snd (store_release (rt_id t) i (rt_shaders t))) k = live_shader t k" if "k \<noteq> i" for k
    by (rule release_keeps(3) [OF bound that])
  have compute: "se_module (cp_shader p) \<noteq> i" if "live_compute t k = Some p" for k p
    using False not_referenced(1) [OF _ that] assms(2) that unfolding pipelines_ok_def by blast
  have render: "se_module (pp_vertex p) \<noteq> i \<and> se_module (pp_fragment p) \<noteq> i" if "live_programmable t k = Some p" for k p
    using False not_referenced(2) [OF _ that] assms(2) that unfolding pipelines_ok_def by blast
  have "snd (release_shader_module i t) = t\<lparr>rt_shaders := snd (store_release (rt_id t) i (rt_shaders t))\<rparr>"
    using False by (auto simp: release_shader_module_eq)
  then show ?thesis
    using assms(2) compute render kept unfolding pipelines_ok_def by simp
qed

lemma pipelines_ok_step:
  assumes "bounds_ok t" and ok: "pipelines_ok t"
  shows "pipelines_ok (table_step op t)"
proof (cases op)
  case (DefineShader m d)
  have "slots_ok MAX_SHADER_MODULES (rt_shaders t)" using assms(1) by (simp add: bounds_ok_def)
  from DefineShader define_keeps(2) [OF this] show ?thesis
    by (intro pipelines_ok_congI [OF ok]) (auto simp: define_shader_module_def)
next
  case (ReleaseShader i)
  with release_shader_pipelines [OF assms] show ?thesis by simp
next
  case (DefineBindGroup m d)
  with ok show ?thesis
    by (cases "bind_group_validate t d") (simp_all add: define_bind_group_def pipelines_ok_def)
next
  case (DefineCompute m d)
  have "slots_ok MAX_COMPUTE_PIPELINES (rt_compute t)" using assms(1) by (simp add: bounds_ok_def)
  note new = define_keeps(3) [OF this]
  show ?thesis
  proof (cases "shader_module_ref t (se_module (cp_shader d))")
    case (Inl e)
    with DefineCompute ok show ?thesis by (simp add: define_compute_pipeline_def)
  next
    case (Inr r)
    then have "live_shader t (se_module (cp_shader d)) \<noteq> None" by (auto simp: ref_iff)
    with DefineCompute Inr show ?thesis
      by (intro pipelines_ok_congI [OF ok]) (auto simp: define_compute_pipeline_def dest: new)
  qed
next
  case (ReleaseCompute i)
  have "slots_ok MAX_COMPUTE_PIPELINES (rt_compute t)" using assms(1) by (simp add: bounds_ok_def)
  from ReleaseCompute release_keeps(2) [OF this] show ?thesis
    by (intro pipelines_ok_congI [OF ok]) (auto simp: release_compute_pipeline_def)
next
  case (DefineProgrammable m d)
  have "slots_ok MAX_PROGRAMMABLE_RENDER_PIPELINES (rt_programmable t)" using assms(1) by (simp add: bounds_ok_def)
  note new = define_keeps(3) [OF this]
  show ?thesis
  proof (cases "shader_module_ref t (se_module (pp_vertex d))")
    case (Inl e)
    with DefineProgrammable ok show ?thesis by (simp add: define_programmable_pipeline_def)
  next
    case v: (Inr r)
    then have vertex: "live_shader t (se_module (pp_vertex d)) \<noteq> None" by (auto simp: ref_iff)
    show ?thesis
    proof (cases "shader_module_ref t (se_module (pp_fragment d))")
      case (Inl e)
      with v DefineProgrammable ok show ?thesis by (simp add: define_programmable_pipeline_def)
    next
      case (Inr r')
      then have "live_shader t (se_module (pp_fragment d)) \<noteq> None" by (auto simp: ref_iff)
      with vertex v Inr DefineProgrammable show ?thesis
        by (intro pipelines_ok_congI [OF ok]) (auto simp: define_programmable_pipeline_def dest: new)
    qed
  qed
next
  case (ReleaseProgrammable i)
  have "slots_ok MAX_PROGRAMMABLE_RENDER_PIPELINES (rt_programmable t)" using assms(1) by (simp add: bounds_ok_def)
  from ReleaseProgrammable release_keeps(2) [OF this] show ?thesis
    by (intro pipelines_ok_congI [OF ok]) (auto simp: release_programmable_pipeline_def)
qed (use ok in \<open>simp_all add: pipelines_ok_def define_texture_def release_texture_def define_buffer_def
      release_buffer_def define_sampler_def define_render_pipeline_def release_bind_group_def\<close>)

lemma table_run_ok: "table_ok (table_run number ops)"
proof -
  have "table_ok t \<Longrightarrow> table_ok (fold table_step ops t)" for t
    by (induction ops arbitrary: t) (auto simp: table_ok_def bounds_ok_step pipelines_ok_step)
  then show ?thesis unfolding table_run_def by (simp add: table_new_ok)
qed

section \<open>Properties\<close>

text \<open>
  C19. Pipelines never dangle. After any sequence of definitions and releases, whatever succeeded or
  failed, every category is within its limit and the shader modules of every compute or render
  pipeline that still resolves resolve too, because a shader is not released before its pipelines.
\<close>

theorem pipelines_never_dangle:
  "bounds_ok (table_run number ops) \<and>
   (table_compute_pipeline (table_run number ops) i = Inr p \<longrightarrow>
      is_ok (table_shader_module (table_run number ops) (se_module (cp_shader p)))) \<and>
   (table_programmable_pipeline (table_run number ops) j = Inr q \<longrightarrow>
      is_ok (table_shader_module (table_run number ops) (se_module (pp_vertex q))) \<and>
      is_ok (table_shader_module (table_run number ops) (se_module (pp_fragment q))))"
proof -
  have ok: "is_ok (table_shader_module t k) \<longleftrightarrow> live_shader t k \<noteq> None" for t k
    using table_iff(3) [of t k] by (cases "table_shader_module t k") auto
  show ?thesis
    using table_run_ok [of number ops] unfolding ok table_iff table_ok_def pipelines_ok_def by blast
qed

theorem pipelines_never_dangle_witness:
  "let i = \<lparr>id_owner = 1, id_index = 0, id_generation = 0\<rparr>;
       p = \<lparr>cp_shader = \<lparr>se_module = i, se_stage = Compute, se_entry_point = [0x6d]\<rparr>,
            cp_layout = \<lparr>pl_bind_groups = [], pl_push_constants = []\<rparr>\<rparr>;
       t = table_run 1 [DefineShader True \<lparr>sm_source = Wgsl [0x66], sm_entry_points = []\<rparr>,
             DefineCompute True p, ReleaseShader i]
   in is_ok (table_shader_module t i)"
proof -
  let ?i = "\<lparr>id_owner = 1, id_index = 0, id_generation = 0\<rparr> :: res_id"
  let ?p = "\<lparr>cp_shader = \<lparr>se_module = ?i, se_stage = Compute, se_entry_point = [0x6d]\<rparr>,
            cp_layout = \<lparr>pl_bind_groups = [], pl_push_constants = []\<rparr>\<rparr>"
  let ?ops = "[DefineShader True \<lparr>sm_source = Wgsl [0x66], sm_entry_points = []\<rparr>,
             DefineCompute True ?p, ReleaseShader ?i]"
  have "table_compute_pipeline (table_run 1 ?ops) ?i = Inr ?p"
    by (simp add: table_run_def table_new_def define_shader_module_def store_define_def slots_define_def
        slots_new_def define_compute_pipeline_def shader_module_ref_def slots_validate_def get_def
        release_shader_module_def module_referenced_def table_compute_pipeline_def slots_read_def)
  with pipelines_never_dangle [of 1 ?ops ?i ?p] show ?thesis by simp
qed


end
