(* ===== verification/Viewport.thy ===== *)
theory Viewport
  imports Resource_Desc
begin

text \<open>
  The \<open>Viewport\<close> of \<^verbatim>\<open>crates/sgfx-core/src/ir/types.rs\<close>. Its bounds test adds two \<open>f32\<close> values and
  converts a \<open>u32\<close>; both round. A finite float is an integer multiple of \<open>2 ^ -149\<close>, so its sum is
  computed exactly on integers and rounded to nearest, ties to even, as IEEE 754 prescribes.
\<close>

section \<open>Rounding\<close>

text \<open>The magnitude of a finite float in units of \<open>2 ^ -149\<close>.\<close>

definition f32_units :: "f32 \<Rightarrow> nat" where
  "f32_units x =
     (let e = unat (drop_bit 23 x AND 0xff); m = unat (x AND 0x7fffff)
      in if e = 0 then m else (m + 2 ^ 23) * 2 ^ (e - 1))"

definition f32_negative :: "f32 \<Rightarrow> bool" where
  "f32_negative x \<longleftrightarrow> bit x 31"

definition f32_scaled :: "f32 \<Rightarrow> int" where
  "f32_scaled x = (if f32_negative x then - int (f32_units x) else int (f32_units x))"

definition f32_inf :: f32 where "f32_inf = 0x7f800000"

definition f32_nan :: f32 where "f32_nan = 0x7fc00000"

definition f32_magnitude :: "nat \<Rightarrow> f32" where
  "f32_magnitude n =
     (let k = (if n < 2 ^ 24 then 0 else ilog2 n - 23);
          q = n div 2 ^ k;
          r = n mod 2 ^ k;
          bits = k * 2 ^ 23 + q + (if 2 * r > 2 ^ k \<or> 2 * r = 2 ^ k \<and> odd q then 1 else 0)
      in if bits \<ge> 0x7f800000 then f32_inf else of_nat bits)"

definition f32_negate :: "f32 \<Rightarrow> f32" where
  "f32_negate x = x XOR 0x80000000"

definition f32_round :: "int \<Rightarrow> f32" where
  "f32_round s = (if s < 0 then f32_negate (f32_magnitude (nat (- s))) else f32_magnitude (nat s))"

definition f32_add :: "f32 \<Rightarrow> f32 \<Rightarrow> f32" where
  "f32_add x y =
     (if f32_is_nan x \<or> f32_is_nan y then f32_nan
      else if \<not> f32_is_finite x then
        (if \<not> f32_is_finite y \<and> f32_negative x \<noteq> f32_negative y then f32_nan else x)
      else if \<not> f32_is_finite y then y
      else if f32_scaled x + f32_scaled y = 0 then
        (if f32_negative x \<and> f32_negative y then 0x80000000 else 0)
      else f32_round (f32_scaled x + f32_scaled y))"

definition f32_of_u32 :: "u32 \<Rightarrow> f32" where
  "f32_of_u32 n = f32_magnitude (unat n * 2 ^ 149)"

definition f32_min :: "f32 \<Rightarrow> f32 \<Rightarrow> f32" where
  "f32_min x y = (if f32_is_nan x then y else if f32_is_nan y then x else if f32_less y x then y else x)"

definition f32_max :: "f32 \<Rightarrow> f32 \<Rightarrow> f32" where
  "f32_max x y = (if f32_is_nan x then y else if f32_is_nan y then x else if f32_less x y then y else x)"

section \<open>Viewports\<close>

record viewport =
  vp_x :: f32
  vp_y :: f32
  vp_width :: f32
  vp_height :: f32
  vp_min_depth :: f32
  vp_max_depth :: f32

definition viewport_new :: "f32 \<Rightarrow> f32 \<Rightarrow> f32 \<Rightarrow> f32 \<Rightarrow> f32 \<Rightarrow> f32 \<Rightarrow> viewport ir_result" where
  "viewport_new x y width height min_depth max_depth =
     (if \<not> list_all f32_is_finite [x, y, width, height, min_depth, max_depth] \<or>
         f32_less x 0 \<or> f32_less y 0 \<or> f32_le width 0 \<or> \<not> f32_is_finite (f32_add y height) \<or>
         \<not> f32_in_unit min_depth \<or> \<not> f32_in_unit max_depth
      then Inl InvalidValue
      else Inr \<lparr>vp_x = x, vp_y = y, vp_width = width, vp_height = height, vp_min_depth = min_depth,
                vp_max_depth = max_depth\<rparr>)"

definition viewport_components :: "viewport \<Rightarrow> f32 list" where
  "viewport_components v = [vp_x v, vp_y v, vp_width v, vp_height v, vp_min_depth v, vp_max_depth v]"

definition viewport_within :: "viewport \<Rightarrow> extent2d \<Rightarrow> bool" where
  "viewport_within v e \<longleftrightarrow>
     f32_le (f32_add (vp_x v) (vp_width v)) (f32_of_u32 (ext_width e)) \<and>
     f32_le 0 (f32_min (vp_y v) (f32_add (vp_y v) (vp_height v))) \<and>
     f32_le (f32_max (vp_y v) (f32_add (vp_y v) (vp_height v))) (f32_of_u32 (ext_height e))"

section \<open>The arithmetic is exact where the result is representable\<close>

lemma word_fields:
  "unat (drop_bit 23 x AND 0xff) = unat x div 2 ^ 23 mod 256" "unat (x AND 0x7fffff) = unat x mod 2 ^ 23"
  for x :: f32
proof -
  have "x AND 0x7fffff = take_bit 23 x" and "drop_bit 23 x AND 0xff = take_bit 8 (drop_bit 23 x)"
    by (simp_all add: take_bit_eq_mask mask_eq_exp_minus_1)
  then show "unat (drop_bit 23 x AND 0xff) = unat x div 2 ^ 23 mod 256" "unat (x AND 0x7fffff) = unat x mod 2 ^ 23"
    by (simp_all add: unat_drop_bit_eq unsigned_take_bit_eq drop_bit_eq_div take_bit_eq_mod
        unat_div_distrib unat_mod_distrib)
qed

lemma sign_clear: "\<not> f32_negative x \<Longrightarrow> unat x < 2 ^ 31"
proof -
  assume "\<not> f32_negative x"
  then have "\<not> bit (unat x) 31" by (simp add: f32_negative_def bit_unsigned_iff)
  then have "even (unat x div 2 ^ 31)" by (simp add: bit_iff_odd)
  moreover have "unat x div 2 ^ 31 < 2" using unat_bounds(3) [of x] by (simp add: less_mult_imp_div_less)
  ultimately have "unat x div 2 ^ 31 = 0" by (cases "unat x div 2 ^ 31 = 1") auto
  then show ?thesis by (simp add: div_eq_0_iff)
qed

lemma f32_parts:
  fixes x :: f32
  assumes "\<not> f32_negative x"
  shows "unat x = unat (drop_bit 23 x AND 0xff) * 2 ^ 23 + unat (x AND 0x7fffff)"
    and "unat (x AND 0x7fffff) < 2 ^ 23"
  using sign_clear [OF assms] unfolding word_fields by (auto simp: div_mult_mod_eq less_mult_imp_div_less)

lemma exponent_field: "x AND 0x7f800000 = push_bit 23 (drop_bit 23 x AND 0xff)" for x :: f32
proof -
  have "x AND push_bit 23 (mask 8) = push_bit 23 (drop_bit 23 x AND mask 8)"
    by (rule bit_word_eqI) (auto simp: bit_simps)
  then show ?thesis by (simp add: mask_eq_exp_minus_1)
qed

lemma ilog2_unique: "2 ^ k \<le> n \<Longrightarrow> n < 2 ^ Suc k \<Longrightarrow> ilog2 n = k"
proof -
  assume low: "2 ^ k \<le> n" and high: "n < 2 ^ Suc k"
  then have pos: "0 < n" by (metis gr0I leD power_eq_0_iff zero_neq_numeral zero_less_power zero_less_numeral)
  have "(2 :: nat) ^ k < 2 ^ Suc (ilog2 n)" using ilog2_bounds [OF pos] low by linarith
  then have "k < Suc (ilog2 n)" by (rule power_less_imp_less_exp [rotated]) simp
  with ilog2_less [OF pos high] show "ilog2 n = k" by simp
qed

lemma f32_magnitude_units:
  assumes "\<not> f32_negative x" and "f32_is_finite x"
  shows "f32_magnitude (f32_units x) = x"
proof -
  define e where "e = unat (drop_bit 23 x AND 0xff)"
  define m where "m = unat (x AND 0x7fffff)"
  have x: "unat x = e * 2 ^ 23 + m" and m: "m < 2 ^ 23"
    using f32_parts [OF assms(1)] by (simp_all add: e_def m_def)
  have bits: "of_nat (e * 2 ^ 23 + m) = x" unfolding x [symmetric] by simp
  have e: "e < 255"
  proof (rule ccontr)
    assume "\<not> e < 255"
    moreover have "e < 256" by (simp add: e_def word_fields)
    ultimately have "unat (drop_bit 23 x AND 0xff) = unat (0xff :: u32)" by (simp add: e_def)
    then have "drop_bit 23 x AND 0xff = 0xff" by (simp only: word_unat_eq_iff)
    with assms(2) show False by (simp add: f32_is_finite_def exponent_field)
  qed
  show ?thesis
  proof (cases "e \<le> 1")
    case True
    then have "f32_units x = e * 2 ^ 23 + m" by (cases e) (auto simp: f32_units_def e_def m_def Let_def)
    with True m bits show ?thesis by (auto simp: f32_magnitude_def Let_def)
  next
    case False
    let ?n = "(m + 2 ^ 23) * 2 ^ (e - 1)"
    have units: "f32_units x = ?n" using False by (simp add: f32_units_def e_def m_def Let_def)
    have "2 ^ 23 * 2 ^ (e - 1) \<le> ?n" and upper: "?n < 2 ^ 24 * 2 ^ (e - 1)" using m by simp_all
    then have "2 ^ (23 + (e - 1)) \<le> ?n" and "?n < 2 ^ Suc (23 + (e - 1))" by (simp_all add: power_add)
    then have log: "ilog2 ?n = 23 + (e - 1)" by (rule ilog2_unique)
    have "2 ^ 24 \<le> (2 :: nat) ^ (23 + (e - 1))" using False by (intro power_increasing) auto
    with \<open>2 ^ (23 + (e - 1)) \<le> ?n\<close> have "\<not> ?n < 2 ^ 24" by linarith
    moreover have whole: "(e - 1) * 2 ^ 23 + (m + 2 ^ 23) = e * 2 ^ 23 + m" using False by (cases e) auto
    moreover have "\<not> e * 2 ^ 23 + m \<ge> 0x7f800000"
    proof -
      have "e * 2 ^ 23 \<le> 254 * 2 ^ 23" using e by simp
      with m show ?thesis by simp
    qed
    moreover have "ilog2 ?n - 23 = e - 1" unfolding log by simp
    moreover have "?n div 2 ^ (e - 1) = m + 2 ^ 23" and "?n mod 2 ^ (e - 1) = 0"
      by simp_all
    ultimately have "f32_magnitude ?n = of_nat (e * 2 ^ 23 + m)"
      unfolding f32_magnitude_def Let_def by (simp only: if_False if_True whole) simp
    then show ?thesis using bits units by simp
  qed
qed

text \<open>A sum of finite floats whose exact value is a positive float is that float.\<close>

lemma f32_add_exact:
  assumes "f32_is_finite x" and "f32_is_finite y" and "f32_is_finite z" and "\<not> f32_negative z"
    and "f32_scaled x + f32_scaled y = f32_scaled z" and "f32_scaled z \<noteq> 0"
  shows "f32_add x y = z"
proof -
  have not_nan: "\<not> f32_is_nan w" if "f32_is_finite w" for w
    using that by (simp add: f32_is_nan_def f32_is_finite_def)
  have "f32_scaled z = int (f32_units z)" using assms(4) by (simp add: f32_scaled_def)
  with assms not_nan show ?thesis
    by (simp add: f32_add_def f32_round_def f32_magnitude_units)
qed

end
