(* ===== verification/Render_Pass_Desc.thy ===== *)
theory Render_Pass_Desc
  imports Resource_Table Viewport
begin

text \<open>
  Render-pass descriptors of \<^verbatim>\<open>crates/sgfx-core/src/ir/command.rs\<close> with the color attachment of
  \<^verbatim>\<open>render_target.rs\<close>, and the pass-elision test of \<^verbatim>\<open>crates/sgfx-core/src/backend/support/passes.rs\<close>.
  A \<open>TextureRef\<close> is its identity. The seven inline slots for further colors are a list of options.
\<close>

section \<open>Attachments\<close>

datatype load_op = LoadKeep | LoadClear color | LoadDontCare

datatype store_op = StoreKeep | StoreDontCare

datatype depth_load_op = DepthLoadKeep | DepthClear f32 | DepthDontCare

record color_attachment =
  ca_target :: texture_id
  ca_load :: load_op
  ca_store :: store_op

record depth_attachment =
  da_target :: texture_id
  da_load :: depth_load_op
  da_store :: store_op
  da_read_only :: bool

record render_pass_desc =
  rpd_target :: texture_id
  rpd_area :: pixel_rect
  rpd_load :: load_op
  rpd_store :: store_op
  rpd_depth :: "depth_attachment option"
  rpd_extra :: "color_attachment option list"

definition require_usage :: "usage \<Rightarrow> usage \<Rightarrow> unit ir_result" where
  "require_usage have_usage required = (if usage_contains have_usage required then Inr () else Inl InvalidUsage)"

definition render_pass_new ::
    "resource_table \<Rightarrow> texture_id \<Rightarrow> pixel_rect \<Rightarrow> load_op \<Rightarrow> store_op \<Rightarrow> render_pass_desc ir_result"
where
  "render_pass_new t target area load store =
     and_then (table_texture t target) (\<lambda>texture.
       if tex_format texture = Depth32Float \<or> tex_layers texture \<noteq> 1 then Inl InvalidDescriptor
       else if \<not> usage_contains (tex_usage texture) TEX_RENDER_ATTACHMENT then Inl InvalidUsage
       else if \<not> rect_is_within area (tex_extent texture) then Inl OutOfBounds
       else Inr \<lparr>rpd_target = target, rpd_area = area, rpd_load = load, rpd_store = store,
                 rpd_depth = None, rpd_extra = replicate 7 None\<rparr>)"

fun bad_clear_depth :: "depth_load_op \<Rightarrow> bool" where
  "bad_clear_depth (DepthClear v) \<longleftrightarrow> \<not> f32_is_finite v \<or> \<not> f32_in_unit v"
| "bad_clear_depth _ \<longleftrightarrow> False"

definition with_depth_attachment ::
    "resource_table \<Rightarrow> render_pass_desc \<Rightarrow> texture_id \<Rightarrow> depth_load_op \<Rightarrow> store_op \<Rightarrow> render_pass_desc ir_result"
where
  "with_depth_attachment t d target load store =
     and_then (table_texture t target) (\<lambda>texture. and_then (table_texture t (rpd_target d)) (\<lambda>color_texture.
       if tex_format texture \<noteq> Depth32Float \<or> tex_layers texture \<noteq> 1 then Inl InvalidDescriptor
       else if \<not> usage_contains (tex_usage texture) TEX_RENDER_ATTACHMENT then Inl InvalidUsage
       else if tex_extent texture \<noteq> tex_extent color_texture \<or> \<not> rect_is_within (rpd_area d) (tex_extent texture)
       then Inl OutOfBounds
       else if bad_clear_depth load then Inl InvalidDescriptor
       else Inr (d\<lparr>rpd_depth := Some \<lparr>da_target = target, da_load = load, da_store = store,
                                     da_read_only = False\<rparr>\<rparr>)))"

definition color_attachments :: "render_pass_desc \<Rightarrow> color_attachment list" where
  "color_attachments d =
     \<lparr>ca_target = rpd_target d, ca_load = rpd_load d, ca_store = rpd_store d\<rparr> # List.map_filter id (rpd_extra d)"

fun fill_first :: "'a \<Rightarrow> 'a option list \<Rightarrow> 'a option list option" where
  "fill_first x [] = None"
| "fill_first x (None # xs) = Some (Some x # xs)"
| "fill_first x (Some y # xs) = map_option ((#) (Some y)) (fill_first x xs)"

definition with_color_attachment ::
    "resource_table \<Rightarrow> render_pass_desc \<Rightarrow> texture_id \<Rightarrow> load_op \<Rightarrow> store_op \<Rightarrow> render_pass_desc ir_result"
where
  "with_color_attachment t d target load store =
     and_then (render_pass_new t target (rpd_area d) load store) (\<lambda>_.
     and_then (table_texture t target) (\<lambda>texture. and_then (table_texture t (rpd_target d)) (\<lambda>first.
       if tex_extent texture \<noteq> tex_extent first then Inl OutOfBounds
       else if list_ex (\<lambda>a. ca_target a = target) (color_attachments d) then Inl AttachmentFeedback
       else and_then (ok_or (fill_first \<lparr>ca_target = target, ca_load = load, ca_store = store\<rparr> (rpd_extra d))
                       ResourceLimitExceeded) (\<lambda>extra. Inr (d\<lparr>rpd_extra := extra\<rparr>)))))"

definition with_read_only_depth :: "render_pass_desc \<Rightarrow> render_pass_desc ir_result" where
  "with_read_only_depth d =
     (case rpd_depth d of
        None \<Rightarrow> Inl InvalidDescriptor
      | Some depth \<Rightarrow>
          (case da_load depth of
             DepthClear _ \<Rightarrow> Inl InvalidDescriptor
           | _ \<Rightarrow> Inr (d\<lparr>rpd_depth := Some (depth\<lparr>da_read_only := True\<rparr>)\<rparr>)))"

definition pass_preserves_contents :: "render_pass_desc \<Rightarrow> bool" where
  "pass_preserves_contents d \<longleftrightarrow>
     list_all (\<lambda>a. ca_load a = LoadKeep \<and> ca_store a = StoreKeep) (color_attachments d) \<and>
     (case rpd_depth d of None \<Rightarrow> True | Some a \<Rightarrow> da_load a = DepthLoadKeep \<and> da_store a = StoreKeep)"

section \<open>What a pass descriptor guarantees\<close>

definition color_target_fits :: "resource_table \<Rightarrow> extent2d \<Rightarrow> texture_id \<Rightarrow> bool" where
  "color_target_fits t e target \<longleftrightarrow> (\<exists>d. live_texture t target = Some d \<and> tex_extent d = e \<and>
     tex_format d \<noteq> Depth32Float \<and> tex_layers d = 1 \<and> usage_contains (tex_usage d) TEX_RENDER_ATTACHMENT)"

definition depth_fits :: "resource_table \<Rightarrow> extent2d \<Rightarrow> depth_attachment \<Rightarrow> bool" where
  "depth_fits t e a \<longleftrightarrow> (\<exists>d. live_texture t (da_target a) = Some d \<and> tex_extent d = e \<and>
     tex_format d = Depth32Float \<and> tex_layers d = 1 \<and> usage_contains (tex_usage d) TEX_RENDER_ATTACHMENT) \<and>
     \<not> bad_clear_depth (da_load a) \<and> (da_read_only a \<longrightarrow> (\<forall>v. da_load a \<noteq> DepthClear v))"

definition render_pass_ok :: "resource_table \<Rightarrow> render_pass_desc \<Rightarrow> bool" where
  "render_pass_ok t d \<longleftrightarrow> length (rpd_extra d) = 7 \<and>
     (\<exists>e. rect_is_within (rpd_area d) e \<and> (\<forall>a \<in> set (color_attachments d). color_target_fits t e (ca_target a)) \<and>
        (\<forall>a. rpd_depth d = Some a \<longrightarrow> depth_fits t e a)) \<and>
     distinct (map ca_target (color_attachments d))"

lemma filter_replicate_None [simp]: "List.map_filter id (replicate n None) = []"
  by (induction n) (simp_all add: map_filter_simps)

lemma fill_first_Some:
  "fill_first x xs = Some ys \<Longrightarrow> length ys = length xs \<and>
     mset (List.map_filter id ys) = add_mset x (mset (List.map_filter id xs))"
  by (induction x xs arbitrary: ys rule: fill_first.induct)
    (auto simp: map_filter_simps)

lemma color_attachments_le: "length (rpd_extra d) = 7 \<Longrightarrow> length (color_attachments d) \<le> MAX_COLOR_ATTACHMENTS"
  using length_filter_le [of "\<lambda>x. id x \<noteq> None" "rpd_extra d"]
  by (simp add: color_attachments_def List.map_filter_def)

lemma render_pass_new_Inr:
  "render_pass_new t target area load store = Inr d \<longleftrightarrow>
     (\<exists>x. live_texture t target = Some x \<and> tex_format x \<noteq> Depth32Float \<and> tex_layers x = 1 \<and>
        usage_contains (tex_usage x) TEX_RENDER_ATTACHMENT \<and> rect_is_within area (tex_extent x)) \<and>
     d = \<lparr>rpd_target = target, rpd_area = area, rpd_load = load, rpd_store = store,
          rpd_depth = None, rpd_extra = replicate 7 None\<rparr>"
  by (auto simp: render_pass_new_def result_simps table_iff)

lemma render_pass_new_ok: "render_pass_new t target area load store = Inr d \<Longrightarrow> render_pass_ok t d"
  by (auto simp: render_pass_new_Inr render_pass_ok_def color_attachments_def color_target_fits_def)

lemma render_pass_first:
  "(\<forall>a \<in> set (color_attachments d). color_target_fits t e (ca_target a)) \<Longrightarrow>
     live_texture t (rpd_target d) = Some x \<Longrightarrow> tex_extent x = e"
  by (auto simp: color_attachments_def color_target_fits_def)

lemma with_depth_attachment_ok:
  assumes "with_depth_attachment t d target load store = Inr d'" and "render_pass_ok t d"
  shows "render_pass_ok t d'"
proof -
  from assms(1) obtain x c where x: "live_texture t target = Some x" and c: "live_texture t (rpd_target d) = Some c"
    and "tex_format x = Depth32Float" "tex_layers x = 1" "usage_contains (tex_usage x) TEX_RENDER_ATTACHMENT"
      "tex_extent x = tex_extent c" "\<not> bad_clear_depth load"
    and d': "d' = d\<lparr>rpd_depth := Some \<lparr>da_target = target, da_load = load, da_store = store, da_read_only = False\<rparr>\<rparr>"
    by (auto simp: with_depth_attachment_def result_simps table_iff split: if_splits)
  then have "depth_fits t (tex_extent c) \<lparr>da_target = target, da_load = load, da_store = store, da_read_only = False\<rparr>"
    by (simp add: depth_fits_def)
  moreover have same: "color_attachments d' = color_attachments d" by (simp add: d' color_attachments_def)
  ultimately show ?thesis
    using assms(2) render_pass_first [OF _ c] unfolding render_pass_ok_def same by (auto simp: d')
qed

lemma with_color_attachment_ok:
  assumes "with_color_attachment t d target load store = Inr d'" and "render_pass_ok t d"
  shows "render_pass_ok t d'"
proof -
  from assms(1) obtain x c extra where x: "live_texture t target = Some x"
    and c: "live_texture t (rpd_target d) = Some c"
    and fmt: "tex_format x \<noteq> Depth32Float" "tex_layers x = 1" "usage_contains (tex_usage x) TEX_RENDER_ATTACHMENT"
    and ext: "tex_extent x = tex_extent c" and new: "target \<notin> ca_target ` set (color_attachments d)"
    and fill: "fill_first \<lparr>ca_target = target, ca_load = load, ca_store = store\<rparr> (rpd_extra d) = Some extra"
    and d': "d' = d\<lparr>rpd_extra := extra\<rparr>"
    by (auto simp: with_color_attachment_def result_simps table_iff render_pass_new_Inr list_ex_iff split: if_splits)
  note filled = fill_first_Some [OF fill]
  have "mset (color_attachments d') =
      add_mset \<lparr>ca_target = target, ca_load = load, ca_store = store\<rparr> (mset (color_attachments d))"
    using filled by (simp add: d' color_attachments_def)
  then have all: "set (color_attachments d') =
        insert \<lparr>ca_target = target, ca_load = load, ca_store = store\<rparr> (set (color_attachments d))"
    and "mset (map ca_target (color_attachments d')) = add_mset target (mset (map ca_target (color_attachments d)))"
    by (metis set_mset_mset set_mset_add_mset_insert) (simp add: \<open>mset (color_attachments d') = _\<close>)
  then have "distinct (map ca_target (color_attachments d'))"
    using new assms(2) mset_eq_imp_distinct_iff [of "map ca_target (color_attachments d')"
        "target # map ca_target (color_attachments d)"]
    by (simp add: render_pass_ok_def)
  moreover have "length extra = 7" using filled assms(2) by (simp add: render_pass_ok_def)
  moreover have "color_target_fits t (tex_extent c) target" using x fmt ext by (simp add: color_target_fits_def)
  ultimately show ?thesis
    using assms(2) render_pass_first [OF _ c] unfolding render_pass_ok_def all by (auto simp: d')
qed

lemma with_read_only_depth_ok:
  "with_read_only_depth d = Inr d' \<Longrightarrow> render_pass_ok t d \<Longrightarrow> render_pass_ok t d'"
  by (auto simp: with_read_only_depth_def render_pass_ok_def depth_fits_def color_attachments_def
      split: option.splits depth_load_op.splits)

datatype pass_builder =
    AddDepth texture_id depth_load_op store_op
  | AddColor texture_id load_op store_op
  | ReadOnlyDepth

fun build_pass :: "resource_table \<Rightarrow> render_pass_desc \<Rightarrow> pass_builder list \<Rightarrow> render_pass_desc ir_result" where
  "build_pass t d [] = Inr d"
| "build_pass t d (AddDepth x l s # bs) = and_then (with_depth_attachment t d x l s) (\<lambda>d. build_pass t d bs)"
| "build_pass t d (AddColor x l s # bs) = and_then (with_color_attachment t d x l s) (\<lambda>d. build_pass t d bs)"
| "build_pass t d (ReadOnlyDepth # bs) = and_then (with_read_only_depth d) (\<lambda>d. build_pass t d bs)"

lemma build_pass_ok: "build_pass t d bs = Inr d' \<Longrightarrow> render_pass_ok t d \<Longrightarrow> render_pass_ok t d'"
  by (induction t d bs rule: build_pass.induct)
    (auto simp: result_simps dest: with_depth_attachment_ok with_color_attachment_ok with_read_only_depth_ok)

section \<open>Properties\<close>

text \<open>
  C21. A render pass built by any sequence of builders has one to eight distinct color targets, all
  live, single-layer, renderable, of one extent that contains the render area, and its depth
  attachment, if any, is a live depth texture of the same extent that is never both cleared and
  read-only.
\<close>

theorem render_passes_well_formed:
  assumes "and_then (render_pass_new t target area load store) (\<lambda>d. build_pass t d bs) = Inr d"
  shows "render_pass_ok t d \<and> color_attachments d \<noteq> [] \<and> length (color_attachments d) \<le> MAX_COLOR_ATTACHMENTS"
proof -
  obtain d0 where "render_pass_new t target area load store = Inr d0" and "build_pass t d0 bs = Inr d"
    using assms by (auto simp: result_simps)
  then have "render_pass_ok t d" using build_pass_ok render_pass_new_ok by blast
  moreover have "color_attachments d \<noteq> []" by (simp add: color_attachments_def)
  ultimately show ?thesis using color_attachments_le by (auto simp: render_pass_ok_def)
qed

theorem render_passes_well_formed_witness:
  "let x = \<lparr>tex_format = Rgba8Unorm, tex_extent = \<lparr>ext_width = 4, ext_height = 4\<rparr>,
          tex_usage = TEX_RENDER_ATTACHMENT, tex_mips = 1, tex_layers = 1, tex_cube = False, tex_1d = False\<rparr>;
       t = snd (define_texture True x (snd (define_texture True x (table_new 1))));
       a = \<lparr>id_owner = 1, id_index = 0, id_generation = 0\<rparr>; b = \<lparr>id_owner = 1, id_index = 1, id_generation = 0\<rparr>
   in render_pass_ok t \<lparr>rpd_target = a, rpd_area = \<lparr>rect_x = 0, rect_y = 0, rect_width = 4, rect_height = 4\<rparr>,
        rpd_load = LoadKeep, rpd_store = StoreKeep, rpd_depth = None,
        rpd_extra = Some \<lparr>ca_target = b, ca_load = LoadDontCare, ca_store = StoreKeep\<rparr> # replicate 6 None\<rparr>"
proof -
  let ?x = "\<lparr>tex_format = Rgba8Unorm, tex_extent = \<lparr>ext_width = 4, ext_height = 4\<rparr>,
          tex_usage = TEX_RENDER_ATTACHMENT, tex_mips = 1, tex_layers = 1, tex_cube = False, tex_1d = False\<rparr>"
  let ?t = "snd (define_texture True ?x (snd (define_texture True ?x (table_new 1))))"
  let ?a = "\<lparr>id_owner = 1, id_index = 0, id_generation = 0\<rparr> :: res_id"
  let ?b = "\<lparr>id_owner = 1, id_index = 1, id_generation = 0\<rparr> :: res_id"
  have "table_texture ?t ?a = Inr ?x" and "table_texture ?t ?b = Inr ?x"
    by (simp_all add: table_texture_def define_texture_def store_define_def slots_define_def slots_new_def
        table_new_def slots_read_def get_def)
  then show ?thesis
    using render_passes_well_formed [of ?t ?a "\<lparr>rect_x = 0, rect_y = 0, rect_width = 4, rect_height = 4\<rparr>"
        LoadKeep StoreKeep "[AddColor ?b LoadDontCare StoreKeep]"]
    by (simp add: render_pass_new_def usage_contains_def rect_is_within_def with_color_attachment_def
        color_attachments_def map_filter_simps numeral_eq_Suc Let_def)
qed

end
