(* ===== verification/Command_Encoder.thy ===== *)
theory Command_Encoder
  imports Render_Pass_Desc
begin

text \<open>
  The \<open>CommandEncoder\<close> of \<^verbatim>\<open>crates/sgfx-core/src/ir/command.rs\<close> and
  \<^verbatim>\<open>command/programmable_commands.rs\<close>: its recorded commands, the pending shader writes and announced
  accesses that track dependencies, transfers, barriers and the check of bound resources.

  A method on \<open>&mut self\<close> takes the encoder and returns its result with the encoder it leaves.
  \<open>mem\<close> answers each reservation. The table is read through \<open>&ResourceTable\<close> and is an argument.
  \<open>CommandStorage\<close> is the vector of commands here; the storage in ABI words (\<open>backend-abi\<close>) is
  the subject of \<open>Abi_Commands\<close>.
\<close>

section \<open>Commands\<close>

abbreviation "MAX_COMMANDS \<equiv> (65536 :: nat)"

datatype command =
    BlitTexture texture_id u32 texture_id u32 pixel_rect pixel_rect filter_mode "bool \<times> bool"
  | CopyBufferToBuffer buffer_id u64 buffer_id u64 u64
  | SetProgrammablePipeline programmable_pipeline_id
  | SetBindGroup u32 bind_group_id
  | BeginComputePass
  | EndComputePass
  | SetComputePipeline compute_pipeline_id
  | Dispatch u32 u32 u32
  | ResourceBarrier resource_barrier
  | WriteBuffer buffer_id u64 "u8 list"
  | WriteTexture texture_id texture_write
  | CopyTextureToTexture texture_id pixel_rect texture_id pixel_rect
  | BeginRenderPass render_pass_desc
  | EndRenderPass
  | SetPipeline plain_id
  | SetVertexBuffer buffer_id u64
  | SetVertexBufferSlot u32 buffer_id u64
  | SetIndexBuffer buffer_id u64 index_format
  | SetTexture texture_id
  | SetSampler plain_id
  | SetUniforms draw_uniforms
  | SetDrawIndex u32
  | SetScissor "pixel_rect option"
  | SetViewport viewport
  | SetPushConstants shader_stages u32 "u8 list"
  | Draw u32 u32
  | DrawInstanced u32 u32 u32 u32
  | DrawIndexedInstanced u32 u32 i32 u32 u32
  | DrawIndexed u32 u32 i32

section \<open>Dependencies\<close>

datatype pending_write =
    PwBuffer buffer_id
  | PwTexture texture_id
  | PwTextureMip texture_id u32

fun pw_aliases :: "pending_write \<Rightarrow> pending_write \<Rightarrow> bool" where
  "pw_aliases (PwBuffer a) (PwBuffer b) \<longleftrightarrow> a = b"
| "pw_aliases (PwTexture a) (PwTexture b) \<longleftrightarrow> a = b"
| "pw_aliases (PwTexture a) (PwTextureMip b _) \<longleftrightarrow> a = b"
| "pw_aliases (PwTextureMip a _) (PwTexture b) \<longleftrightarrow> a = b"
| "pw_aliases (PwTextureMip a _) (PwTextureMip b _) \<longleftrightarrow> a = b"
| "pw_aliases _ _ \<longleftrightarrow> False"

datatype announced_access =
    AnnBuffer buffer_id buffer_access
  | AnnTexture texture_id u32 texture_access

fun announced_resource :: "announced_access \<Rightarrow> pending_write" where
  "announced_resource (AnnBuffer b _) = PwBuffer b"
| "announced_resource (AnnTexture x _ _) = PwTexture x"

record group_accesses =
  ga_writes :: "pending_write list"
  ga_used :: "pending_write list"

datatype encoder_site =
    SiteCommand | SiteAnnouncement | SiteAnnounced | SiteUse nat | SitePending | SiteUsed
  | SitePendingWrites | SiteUsedResources

type_synonym encoder_alloc = "encoder_site \<Rightarrow> bool"

definition reserve :: "encoder_alloc \<Rightarrow> encoder_site \<Rightarrow> unit ir_result" where
  "reserve mem site = (if mem site then Inr () else Inl OutOfMemory)"

record encoder =
  en_commands :: "command list"
  en_count :: nat
  en_validation_only :: bool
  en_pass_open :: bool
  en_pending :: "pending_write list"
  en_announced :: "announced_access list"

definition encoder_new :: encoder where
  "encoder_new = \<lparr>en_commands = [], en_count = 0, en_validation_only = False, en_pass_open = False,
     en_pending = [], en_announced = []\<rparr>"

definition for_validation :: encoder where
  "for_validation = encoder_new\<lparr>en_validation_only := True\<rparr>"

definition ensure_outside_pass :: "encoder \<Rightarrow> unit ir_result" where
  "ensure_outside_pass e = (if en_pass_open e then Inl RenderPassActive else Inr ())"

definition check_buffer_access :: "encoder \<Rightarrow> buffer_id \<Rightarrow> buffer_access \<Rightarrow> unit ir_result" where
  "check_buffer_access e buffer access =
     (if PwBuffer buffer \<in> set (en_pending e) then Inl MissingBarrier
      else if list_ex (\<lambda>a. case a of AnnBuffer i expected \<Rightarrow> i = buffer \<and> expected \<noteq> access | _ \<Rightarrow> False)
                (en_announced e)
      then Inl InvalidResourceAccess else Inr ())"

definition mip_pending :: "encoder \<Rightarrow> texture_id \<Rightarrow> u32 \<Rightarrow> bool" where
  "mip_pending e texture mip \<longleftrightarrow> PwTextureMip texture mip \<in> set (en_pending e) \<or>
     (mip = 0 \<and> PwTexture texture \<in> set (en_pending e))"

definition mip_announced_otherwise :: "encoder \<Rightarrow> texture_id \<Rightarrow> u32 \<Rightarrow> texture_access \<Rightarrow> bool" where
  "mip_announced_otherwise e texture mip access \<longleftrightarrow>
     list_ex (\<lambda>a. case a of AnnTexture i level expected \<Rightarrow> i = texture \<and> level = mip \<and> expected \<noteq> access
                  | _ \<Rightarrow> False) (en_announced e)"

definition check_texture_mip_access ::
    "resource_table \<Rightarrow> encoder \<Rightarrow> texture_id \<Rightarrow> u32 \<Rightarrow> texture_access \<Rightarrow> unit ir_result"
where
  "check_texture_mip_access t e texture mip access =
     and_then (table_texture t texture) (\<lambda>desc. and_then (mip_extent desc mip) (\<lambda>_.
       if mip_pending e texture mip then Inl MissingBarrier
       else if mip_announced_otherwise e texture mip access then Inl InvalidResourceAccess
       else Inr ()))"

definition mips_from :: "u32 \<Rightarrow> u32 \<Rightarrow> u32 list" where
  "mips_from first stop = map of_nat [unat first ..< unat stop]"

definition check_texture_access ::
    "resource_table \<Rightarrow> encoder \<Rightarrow> texture_id \<Rightarrow> texture_access \<Rightarrow> unit ir_result"
where
  "check_texture_access t e texture access =
     and_then (table_texture t texture) (\<lambda>desc.
       for_each (\<lambda>mip. check_texture_mip_access t e texture mip access) (mips_from 0 (tex_mips desc)))"

definition consume_access :: "pending_write \<Rightarrow> encoder \<Rightarrow> encoder" where
  "consume_access resource e = e\<lparr>en_announced := filter (\<lambda>a.
     case resource of
       PwTextureMip i mip \<Rightarrow> \<not> (case a of AnnTexture other level _ \<Rightarrow> other = i \<and> level = mip | _ \<Rightarrow> False)
     | _ \<Rightarrow> announced_resource a \<noteq> resource) (en_announced e)\<rparr>"

text \<open>The announcements a command uses up when it is recorded.\<close>

fun consumed_by :: "command \<Rightarrow> pending_write list" where
  "consumed_by (WriteBuffer buffer _ _) = [PwBuffer buffer]"
| "consumed_by (WriteTexture texture _) = [PwTexture texture]"
| "consumed_by (CopyBufferToBuffer source _ destination _ _) = [PwBuffer source, PwBuffer destination]"
| "consumed_by (CopyTextureToTexture source _ destination _) = [PwTexture source, PwTexture destination]"
| "consumed_by (BeginRenderPass d) =
     map (\<lambda>a. PwTexture (ca_target a)) (color_attachments d) @
     (case rpd_depth d of None \<Rightarrow> [] | Some a \<Rightarrow> [PwTexture (da_target a)])"
| "consumed_by _ = []"

definition enc_push :: "encoder_alloc \<Rightarrow> command \<Rightarrow> encoder \<Rightarrow> unit ir_result \<times> encoder" where
  "enc_push mem c e =
     (let reserved_end_slot = (if en_pass_open e then 1 else 0)
      in if en_count e \<ge> MAX_COMMANDS - reserved_end_slot then (Inl CommandLimitExceeded, e)
         else if \<not> en_validation_only e \<and> \<not> mem SiteCommand then (Inl OutOfMemory, e)
         else let e' = fold consume_access (consumed_by c) e
              in (Inr (), e'\<lparr>en_count := en_count e' + 1,
                             en_commands := if en_validation_only e' then en_commands e'
                                            else en_commands e' @ [c]\<rparr>))"

definition reserve_pass_begin :: "encoder \<Rightarrow> unit ir_result" where
  "reserve_pass_begin e = (if en_count e > MAX_COMMANDS - 2 then Inl CommandLimitExceeded else Inr ())"

definition push_pass_end :: "encoder_alloc \<Rightarrow> command \<Rightarrow> encoder \<Rightarrow> unit ir_result \<times> encoder" where
  "push_pass_end mem c e =
     (if en_count e \<ge> MAX_COMMANDS then (Inl CommandLimitExceeded, e)
      else if \<not> en_validation_only e \<and> \<not> mem SiteCommand then (Inl OutOfMemory, e)
      else (Inr (), e\<lparr>en_commands := if en_validation_only e then en_commands e else en_commands e @ [c],
                      en_count := en_count e + 1\<rparr>))"

definition validate_byte_range :: "u64 \<Rightarrow> u64 \<Rightarrow> u64 \<Rightarrow> unit ir_result" where
  "validate_byte_range offset len limit =
     (case checked_add offset len of
        Some stop \<Rightarrow> if stop \<le> limit then Inr () else Inl OutOfBounds
      | None \<Rightarrow> Inl Overflow)"

definition rectangles_overlap :: "pixel_rect \<Rightarrow> pixel_rect \<Rightarrow> bool" where
  "rectangles_overlap l r \<longleftrightarrow>
     rect_x l < rect_x r + rect_width r \<and> rect_x r < rect_x l + rect_width l \<and>
     rect_y l < rect_y r + rect_height r \<and> rect_y r < rect_y l + rect_height l"

definition finish :: "encoder \<Rightarrow> command list ir_result" where
  "finish e = (if en_pass_open e then Inl RenderPassStillActive else Inr (en_commands e))"

section \<open>Transfers\<close>

text \<open>Checks first, then the command.\<close>

definition checked_push :: "unit ir_result \<Rightarrow> encoder_alloc \<Rightarrow> command \<Rightarrow> encoder \<Rightarrow> unit ir_result \<times> encoder" where
  "checked_push checks mem c e = then_do (checks, e) (\<lambda>_ e. enc_push mem c e)"

definition write_buffer_checks :: "resource_table \<Rightarrow> buffer_id \<Rightarrow> u64 \<Rightarrow> u8 list \<Rightarrow> encoder \<Rightarrow> unit ir_result" where
  "write_buffer_checks t buffer offset data e =
     and_then (ensure_outside_pass e) (\<lambda>_. and_then (table_buffer t buffer) (\<lambda>desc.
     and_then (require_usage (buf_usage desc) BUF_COPY_DST) (\<lambda>_.
     and_then (reject_if (data = []) InvalidValue) (\<lambda>_.
     and_then (reject_if (length data \<ge> 2 ^ 64) Overflow) (\<lambda>_.
     and_then (validate_byte_range offset (of_nat (length data)) (buf_size desc)) (\<lambda>_.
       check_buffer_access e buffer BufCopyDestination))))))"

definition write_buffer ::
    "resource_table \<Rightarrow> encoder_alloc \<Rightarrow> buffer_id \<Rightarrow> u64 \<Rightarrow> u8 list \<Rightarrow> encoder \<Rightarrow> unit ir_result \<times> encoder"
where
  "write_buffer t mem buffer offset data e =
     checked_push (write_buffer_checks t buffer offset data e) mem (WriteBuffer buffer offset data) e"

definition write_texture_checks :: "resource_table \<Rightarrow> texture_id \<Rightarrow> texture_write \<Rightarrow> encoder \<Rightarrow> unit ir_result" where
  "write_texture_checks t texture w e =
     and_then (ensure_outside_pass e) (\<lambda>_. and_then (table_texture t texture) (\<lambda>desc.
     and_then (require_usage (tex_usage desc) TEX_COPY_DST) (\<lambda>_.
     and_then (reject_if (tw_layer w \<ge> tex_layers desc) OutOfBounds) (\<lambda>_.
     and_then (mip_extent desc (tw_mip w)) (\<lambda>extent.
     and_then (reject_if (\<not> rect_is_within (tw_destination w) extent) OutOfBounds) (\<lambda>_.
     and_then (ok_or (bytes_per_pixel (tex_format desc)) InvalidDescriptor) (\<lambda>bpp.
     and_then (ok_or (checked_mul (rect_width (tw_destination w)) bpp) Overflow) (\<lambda>tight.
     and_then (reject_if (tw_bytes_per_row w < tight) InvalidValue) (\<lambda>_.
     and_then (ok_or (Option.bind (checked_mul (ucast (tw_bytes_per_row w) :: u64)
                        (ucast (rect_height (tw_destination w) - 1)))
                        (\<lambda>v. checked_add v (ucast tight))) Overflow) (\<lambda>required.
     and_then (reject_if (length (tw_data w) \<ge> 2 ^ 64) Overflow) (\<lambda>_.
     and_then (reject_if ((of_nat (length (tw_data w)) :: u64) < required) OutOfBounds) (\<lambda>_.
       check_texture_mip_access t e texture (tw_mip w) TexCopyDestination))))))))))))"

definition write_texture ::
    "resource_table \<Rightarrow> encoder_alloc \<Rightarrow> texture_id \<Rightarrow> texture_write \<Rightarrow> encoder \<Rightarrow> unit ir_result \<times> encoder"
where
  "write_texture t mem texture w e =
     checked_push (write_texture_checks t texture w e) mem (WriteTexture texture w) e"

definition blit_checks ::
    "resource_table \<Rightarrow> texture_id \<Rightarrow> u32 \<Rightarrow> pixel_rect \<Rightarrow> texture_id \<Rightarrow> u32 \<Rightarrow> pixel_rect \<Rightarrow> encoder \<Rightarrow> unit ir_result"
where
  "blit_checks t source source_mip source_rect destination destination_mip destination_rect e =
     and_then (ensure_outside_pass e) (\<lambda>_. and_then (table_texture t source) (\<lambda>src.
     and_then (table_texture t destination) (\<lambda>dst.
     and_then (require_usage (tex_usage src) TEX_COPY_SRC) (\<lambda>_.
     and_then (require_usage (tex_usage dst) TEX_COPY_DST) (\<lambda>_.
     and_then (mip_extent src source_mip) (\<lambda>src_extent.
     and_then (reject_if (\<not> rect_is_within source_rect src_extent) OutOfBounds) (\<lambda>_.
     and_then (mip_extent dst destination_mip) (\<lambda>dst_extent.
     and_then (reject_if (\<not> rect_is_within destination_rect dst_extent) OutOfBounds) (\<lambda>_.
     and_then (reject_if (\<not> blit_compatible (tex_format src) (tex_format dst) \<or> tex_layers src \<noteq> 1 \<or>
                 tex_layers dst \<noteq> 1 \<or> tex_format src \<notin> {Rgba8Unorm, Bgra8Unorm, R8Unorm, Rg8Unorm})
                 InvalidDescriptor) (\<lambda>_.
     and_then (same_texture t source destination) (\<lambda>same.
     and_then (reject_if (same \<and> source_mip = destination_mip) ResourceAccessConflict) (\<lambda>_.
     and_then (check_texture_mip_access t e source source_mip TexCopySource) (\<lambda>_.
       check_texture_mip_access t e destination destination_mip TexCopyDestination)))))))))))))"

definition blit_texture_region_flipped ::
    "resource_table \<Rightarrow> encoder_alloc \<Rightarrow> texture_id \<Rightarrow> u32 \<Rightarrow> pixel_rect \<Rightarrow> texture_id \<Rightarrow> u32 \<Rightarrow> pixel_rect \<Rightarrow>
     filter_mode \<Rightarrow> bool \<times> bool \<Rightarrow> encoder \<Rightarrow> unit ir_result \<times> encoder"
where
  "blit_texture_region_flipped t mem source source_mip source_rect destination destination_mip
       destination_rect smoothing flips e =
     checked_push (blit_checks t source source_mip source_rect destination destination_mip destination_rect e)
       mem (BlitTexture source source_mip destination destination_mip source_rect destination_rect smoothing flips) e"

definition blit_texture_region ::
    "resource_table \<Rightarrow> encoder_alloc \<Rightarrow> texture_id \<Rightarrow> u32 \<Rightarrow> pixel_rect \<Rightarrow> texture_id \<Rightarrow> u32 \<Rightarrow> pixel_rect \<Rightarrow>
     filter_mode \<Rightarrow> encoder \<Rightarrow> unit ir_result \<times> encoder"
where
  "blit_texture_region t mem source source_mip source_rect destination destination_mip destination_rect smoothing e =
     blit_texture_region_flipped t mem source source_mip source_rect destination destination_mip
       destination_rect smoothing (False, False) e"

definition blit_whole :: "resource_table \<Rightarrow> texture_id \<Rightarrow> u32 \<Rightarrow> extent2d ir_result" where
  "blit_whole t texture mip = and_then (table_texture t texture) (\<lambda>desc. mip_extent desc mip)"

definition blit_texture ::
    "resource_table \<Rightarrow> encoder_alloc \<Rightarrow> texture_id \<Rightarrow> u32 \<Rightarrow> texture_id \<Rightarrow> u32 \<Rightarrow> filter_mode \<Rightarrow> encoder \<Rightarrow>
     unit ir_result \<times> encoder"
where
  "blit_texture t mem source source_mip destination destination_mip smoothing e =
     then_do (and_then (blit_whole t source source_mip) (\<lambda>src.
        and_then (blit_whole t destination destination_mip) (\<lambda>dst.
        and_then (pixel_rect_new 0 0 (ext_width src) (ext_height src)) (\<lambda>source_rect.
        and_then (pixel_rect_new 0 0 (ext_width dst) (ext_height dst)) (\<lambda>destination_rect.
          Inr (source_rect, destination_rect))))), e)
       (\<lambda>(source_rect, destination_rect) e.
          blit_texture_region t mem source source_mip source_rect destination destination_mip
            destination_rect smoothing e)"

definition copy_texture_checks ::
    "resource_table \<Rightarrow> texture_id \<Rightarrow> pixel_rect \<Rightarrow> texture_id \<Rightarrow> pixel_rect \<Rightarrow> encoder \<Rightarrow> unit ir_result"
where
  "copy_texture_checks t source source_rect destination destination_rect e =
     and_then (ensure_outside_pass e) (\<lambda>_. and_then (table_texture t source) (\<lambda>src.
     and_then (table_texture t destination) (\<lambda>dst.
     and_then (require_usage (tex_usage src) TEX_COPY_SRC) (\<lambda>_.
     and_then (require_usage (tex_usage dst) TEX_COPY_DST) (\<lambda>_.
     and_then (reject_if (tex_format src \<noteq> tex_format dst \<or> tex_layers src \<noteq> 1 \<or> tex_layers dst \<noteq> 1 \<or>
                 \<not> rect_same_extent source_rect destination_rect) InvalidDescriptor) (\<lambda>_.
     and_then (reject_if (\<not> rect_is_within source_rect (tex_extent src) \<or>
                 \<not> rect_is_within destination_rect (tex_extent dst)) OutOfBounds) (\<lambda>_.
     and_then (same_texture t source destination) (\<lambda>same.
     and_then (reject_if (same \<and> rectangles_overlap source_rect destination_rect) InvalidValue) (\<lambda>_.
     and_then (check_texture_mip_access t e source 0 TexCopySource) (\<lambda>_.
       check_texture_mip_access t e destination 0 TexCopyDestination))))))))))"

definition copy_texture_to_texture ::
    "resource_table \<Rightarrow> encoder_alloc \<Rightarrow> texture_id \<Rightarrow> pixel_rect \<Rightarrow> texture_id \<Rightarrow> pixel_rect \<Rightarrow> encoder \<Rightarrow>
     unit ir_result \<times> encoder"
where
  "copy_texture_to_texture t mem source source_rect destination destination_rect e =
     checked_push (copy_texture_checks t source source_rect destination destination_rect e)
       mem (CopyTextureToTexture source source_rect destination destination_rect) e"

text \<open>
  \<open>BufferRef\<close> compares the table and the index, not the generation; both references were just
  resolved, so their generations agree when their indices do.
\<close>

definition buffer_ref_eq :: "buffer_id \<Rightarrow> buffer_id \<Rightarrow> bool" where
  "buffer_ref_eq a b \<longleftrightarrow> id_owner a = id_owner b \<and> id_index a = id_index b"

definition copy_buffer_checks ::
    "resource_table \<Rightarrow> buffer_id \<Rightarrow> u64 \<Rightarrow> buffer_id \<Rightarrow> u64 \<Rightarrow> u64 \<Rightarrow> encoder \<Rightarrow> unit ir_result"
where
  "copy_buffer_checks t source source_offset destination destination_offset sz e =
     and_then (ensure_outside_pass e) (\<lambda>_. and_then (table_buffer t source) (\<lambda>src.
     and_then (table_buffer t destination) (\<lambda>dst.
     and_then (require_usage (buf_usage src) BUF_COPY_SRC) (\<lambda>_.
     and_then (require_usage (buf_usage dst) BUF_COPY_DST) (\<lambda>_.
     and_then (reject_if (sz = 0 \<or> \<not> is_multiple_of source_offset 4 \<or> \<not> is_multiple_of destination_offset 4 \<or>
                 \<not> is_multiple_of sz 4) InvalidValue) (\<lambda>_.
     and_then (validate_byte_range source_offset sz (buf_size src)) (\<lambda>_.
     and_then (validate_byte_range destination_offset sz (buf_size dst)) (\<lambda>_.
     and_then (reject_if (buffer_ref_eq source destination) ResourceAccessConflict) (\<lambda>_.
     and_then (check_buffer_access e source BufCopySource) (\<lambda>_.
       check_buffer_access e destination BufCopyDestination))))))))))"

definition copy_buffer_to_buffer ::
    "resource_table \<Rightarrow> encoder_alloc \<Rightarrow> buffer_id \<Rightarrow> u64 \<Rightarrow> buffer_id \<Rightarrow> u64 \<Rightarrow> u64 \<Rightarrow> encoder \<Rightarrow>
     unit ir_result \<times> encoder"
where
  "copy_buffer_to_buffer t mem source source_offset destination destination_offset sz e =
     checked_push (copy_buffer_checks t source source_offset destination destination_offset sz e)
       mem (CopyBufferToBuffer source source_offset destination destination_offset sz) e"

section \<open>Barriers\<close>

definition validate_texture_transition ::
    "resource_table \<Rightarrow> encoder \<Rightarrow> texture_id \<Rightarrow> u32 \<Rightarrow> texture_access \<Rightarrow> texture_access \<Rightarrow> unit ir_result"
where
  "validate_texture_transition t e texture mip before after =
     and_then (table_texture t texture) (\<lambda>desc. and_then (mip_extent desc mip) (\<lambda>_.
     and_then (require_usage (tex_usage desc) (texture_access_usage before)) (\<lambda>_.
     and_then (require_usage (tex_usage desc) (texture_access_usage after)) (\<lambda>_.
     and_then (reject_if (mip_pending e texture mip \<and> before \<noteq> TexStorageWrite) InvalidResourceAccess) (\<lambda>_.
       reject_if (mip_announced_otherwise e texture mip before) InvalidResourceAccess)))))"

text \<open>The accesses a barrier other than the global one announces.\<close>

fun barrier_announces ::
    "resource_table \<Rightarrow> encoder_alloc \<Rightarrow> encoder \<Rightarrow> resource_barrier \<Rightarrow> announced_access list ir_result"
where
  "barrier_announces t mem e GlobalBarrier = Inr []"
| "barrier_announces t mem e (BufferBarrier buffer before after) =
     and_then (table_buffer t buffer) (\<lambda>desc.
     and_then (require_usage (buf_usage desc) (buffer_access_usage before)) (\<lambda>_.
     and_then (require_usage (buf_usage desc) (buffer_access_usage after)) (\<lambda>_.
     and_then (reject_if (PwBuffer buffer \<in> set (en_pending e) \<and> before \<noteq> BufStorageReadWrite)
                 InvalidResourceAccess) (\<lambda>_.
     and_then (reject_if (list_ex (\<lambda>a. case a of AnnBuffer i access \<Rightarrow> i = buffer \<and> access \<noteq> before
                                       | _ \<Rightarrow> False) (en_announced e)) InvalidResourceAccess) (\<lambda>_.
     and_then (reserve mem SiteAnnouncement) (\<lambda>_. Inr [AnnBuffer buffer after]))))))"
| "barrier_announces t mem e (TextureBarrier texture before after) =
     and_then (table_texture t texture) (\<lambda>desc.
     and_then (reserve mem SiteAnnouncement) (\<lambda>_.
     and_then (for_each (\<lambda>mip. validate_texture_transition t e texture mip before after)
                 (mips_from 0 (tex_mips desc))) (\<lambda>_.
       Inr (map (\<lambda>mip. AnnTexture texture mip after) (mips_from 0 (tex_mips desc))))))"
| "barrier_announces t mem e (TextureMipBarrier texture mip before after) =
     and_then (validate_texture_transition t e texture mip before after) (\<lambda>_.
     and_then (reserve mem SiteAnnouncement) (\<lambda>_. Inr [AnnTexture texture mip after]))"

fun settle :: "announced_access \<Rightarrow> encoder \<Rightarrow> encoder" where
  "settle (AnnBuffer buffer access) e =
     (let e1 = consume_access (PwBuffer buffer)
                 (e\<lparr>en_pending := filter (\<lambda>p. p \<noteq> PwBuffer buffer) (en_pending e)\<rparr>)
      in e1\<lparr>en_announced := en_announced e1 @ [AnnBuffer buffer access]\<rparr>)"
| "settle (AnnTexture texture mip access) e =
     (let p1 = (if mip = 0 then filter (\<lambda>p. p \<noteq> PwTexture texture) (en_pending e) else en_pending e);
          p2 = filter (\<lambda>p. p \<noteq> PwTextureMip texture mip) p1
      in e\<lparr>en_pending := p2,
           en_announced := filter (\<lambda>a. \<not> (case a of AnnTexture other other_mip _ \<Rightarrow>
                              other = texture \<and> other_mip = mip | _ \<Rightarrow> False)) (en_announced e)
                            @ [AnnTexture texture mip access]\<rparr>)"

definition enc_resource_barrier ::
    "resource_table \<Rightarrow> encoder_alloc \<Rightarrow> resource_barrier \<Rightarrow> encoder \<Rightarrow> unit ir_result \<times> encoder"
where
  "enc_resource_barrier t mem barrier e =
     then_do (ensure_outside_pass e, e) (\<lambda>_ e.
       if barrier = GlobalBarrier then
         then_do (enc_push mem (ResourceBarrier barrier) e) (\<lambda>_ e.
           (Inr (), e\<lparr>en_pending := [], en_announced := []\<rparr>))
       else
         then_do (and_then (barrier_announces t mem e barrier) (\<lambda>announced.
                    and_then (reserve mem SiteAnnounced) (\<lambda>_. Inr announced)), e) (\<lambda>announced e.
         then_do (enc_push mem (ResourceBarrier barrier) e) (\<lambda>_ e.
           (Inr (), fold settle announced e))))"

section \<open>Bound resources\<close>

fun buffer_binding_access :: "binding_type \<Rightarrow> buffer_access" where
  "buffer_binding_access UniformBuffer = BufUniform"
| "buffer_binding_access (StorageBuffer ro) = (if ro then BufStorageRead else BufStorageReadWrite)"
| "buffer_binding_access _ = BufStorageReadWrite"

definition view_mip_range :: "view_desc \<Rightarrow> u32 list" where
  "view_mip_range v = mips_from (view_base_mip v) (view_base_mip v + view_mips v)"

type_synonym vertex_bindings = "(buffer_id \<times> u64) option list"

fun binding_check ::
    "resource_table \<Rightarrow> encoder \<Rightarrow> texture_id list \<Rightarrow> vertex_bindings \<Rightarrow> buffer_id option \<Rightarrow>
     binding_resource \<Rightarrow> binding_type \<Rightarrow> unit ir_result"
where
  "binding_check t e attachments vertices index (BufferBinding buffer _ _) ty =
     and_then (buffer_ref t buffer) (\<lambda>reference.
     and_then (check_buffer_access e reference (buffer_binding_access ty)) (\<lambda>_.
       reject_if (binding_writes ty \<and>
           (list_ex (\<lambda>v. case v of None \<Rightarrow> False | Some (b, _) \<Rightarrow> buffer_ref_eq b reference) vertices \<or>
            (case index of None \<Rightarrow> False | Some b \<Rightarrow> buffer_ref_eq b reference)))
         ResourceAccessConflict))"
| "binding_check t e attachments vertices index (TextureViewBinding texture view) ty =
     and_then (texture_ref t texture) (\<lambda>reference.
     and_then (for_each (\<lambda>mip. check_texture_mip_access t e reference mip
                          (if binding_writes ty then TexStorageWrite else TexSampled)) (view_mip_range view)) (\<lambda>_.
       reject_if (reference \<in> set attachments) AttachmentFeedback))"
| "binding_check t e attachments vertices index (TextureBinding texture) ty =
     and_then (texture_ref t texture) (\<lambda>reference.
     and_then (check_texture_access t e reference
                 (if binding_writes ty then TexStorageWrite else TexSampled)) (\<lambda>_.
       reject_if (reference \<in> set attachments) AttachmentFeedback))"
| "binding_check t e attachments vertices index (SamplerResource _) ty = Inr ()"

type_synonym resource_use = "binding_resource \<times> bool"

fun check_bindings ::
    "resource_table \<Rightarrow> encoder_alloc \<Rightarrow> encoder \<Rightarrow> texture_id list \<Rightarrow> vertex_bindings \<Rightarrow> buffer_id option \<Rightarrow>
     (bind_group_entry \<times> layout_entry) list \<Rightarrow> resource_use list \<Rightarrow> resource_use list ir_result"
where
  "check_bindings t mem e attachments vertices index [] uses = Inr uses"
| "check_bindings t mem e attachments vertices index ((entry, layout) # rest) uses =
     (let resource = be_resource entry; writes = binding_writes (le_ty layout)
      in and_then (binding_check t e attachments vertices index resource (le_ty layout)) (\<lambda>_.
         and_then (reject_if (list_ex (\<lambda>(other, other_writes). resource_alias resource other \<and>
                     (writes \<or> other_writes)) uses) ResourceAccessConflict) (\<lambda>_.
         and_then (reserve mem (SiteUse (length uses))) (\<lambda>_.
           check_bindings t mem e attachments vertices index rest (uses @ [(resource, writes)])))))"

fun check_groups ::
    "resource_table \<Rightarrow> encoder_alloc \<Rightarrow> encoder \<Rightarrow> texture_id list \<Rightarrow> vertex_bindings \<Rightarrow> buffer_id option \<Rightarrow>
     (bind_group_layout \<times> bind_group_id option) list \<Rightarrow> resource_use list \<Rightarrow> resource_use list ir_result"
where
  "check_groups t mem e attachments vertices index [] uses = Inr uses"
| "check_groups t mem e attachments vertices index ((expected, slot) # rest) uses =
     (if expected = [] \<and> slot = None then check_groups t mem e attachments vertices index rest uses
      else and_then (ok_or slot BindGroupNotSet) (\<lambda>group_ref.
           and_then (table_bind_group t group_ref) (\<lambda>grp.
           and_then (reject_if (bg_layout grp \<noteq> expected) BindingLayoutMismatch) (\<lambda>_.
           and_then (check_bindings t mem e attachments vertices index (zip (bg_entries grp) expected) uses) (\<lambda>uses'.
             check_groups t mem e attachments vertices index rest uses')))))"

fun resource_keys :: "binding_resource \<Rightarrow> pending_write list" where
  "resource_keys (BufferBinding buffer _ _) = [PwBuffer buffer]"
| "resource_keys (TextureViewBinding texture view) = map (PwTextureMip texture) (view_mip_range view)"
| "resource_keys (TextureBinding texture) = [PwTexture texture]"
| "resource_keys (SamplerResource _) = []"

definition vertex_keys :: "vertex_bindings \<Rightarrow> pending_write list" where
  "vertex_keys vertices = map (\<lambda>(b, _). PwBuffer b) (List.map_filter id vertices)"

definition index_keys :: "buffer_id option \<Rightarrow> pending_write list" where
  "index_keys index = (case index of None \<Rightarrow> [] | Some b \<Rightarrow> [PwBuffer b])"

definition validate_groups ::
    "resource_table \<Rightarrow> encoder_alloc \<Rightarrow> encoder \<Rightarrow> pipeline_layout \<Rightarrow> bind_group_id option list \<Rightarrow>
     texture_id list \<Rightarrow> vertex_bindings \<Rightarrow> buffer_id option \<Rightarrow> group_accesses ir_result"
where
  "validate_groups t mem e layout groups attachments vertices index =
     and_then (check_groups t mem e attachments vertices index (zip (pl_bind_groups layout) groups) []) (\<lambda>uses.
     and_then (reserve mem SitePending) (\<lambda>_. and_then (reserve mem SiteUsed) (\<lambda>_.
       Inr \<lparr>ga_writes = concat (map (\<lambda>(r, w). if w then resource_keys r else []) uses),
            ga_used = concat (map (\<lambda>(r, w). resource_keys r) uses) @ vertex_keys vertices @ index_keys index\<rparr>)))"

definition record_with_writes ::
    "encoder_alloc \<Rightarrow> command \<Rightarrow> group_accesses \<Rightarrow> encoder \<Rightarrow> unit ir_result \<times> encoder"
where
  "record_with_writes mem c accesses e =
     then_do (reserve mem SitePendingWrites, e) (\<lambda>_ e. then_do (enc_push mem c e) (\<lambda>_ e.
       let e' = fold consume_access (ga_used accesses) e
       in (Inr (), e'\<lparr>en_pending := en_pending e' @ ga_writes accesses\<rparr>)))"

end
