(* ===== verification/Pass_Encoders.thy ===== *)
theory Pass_Encoders
  imports Command_Encoder
begin

text \<open>
  The compute and render pass encoders of \<^verbatim>\<open>crates/sgfx-core/src/ir/command.rs\<close> and
  \<^verbatim>\<open>command/programmable_commands.rs\<close>. A pass encoder mutably borrows its command encoder: a method
  takes both and returns its result with both as it leaves them. The fixed arrays of a pass
  (eight color targets, eight vertex buffers, four bind groups) are lists of options.
\<close>

section \<open>State\<close>

record compute_pass =
  cps_pipeline :: "compute_pipeline_id option"
  cps_groups :: "bind_group_id option list"

record render_pass =
  rps_target :: texture_id
  rps_target_format :: texture_format
  rps_color_targets :: "texture_id option list"
  rps_color_formats :: "texture_format option list"
  rps_depth_read_only :: bool
  rps_depth_format :: "texture_format option"
  rps_area :: pixel_rect
  rps_pipeline :: "plain_id option"
  rps_programmable :: "programmable_pipeline_id option"
  rps_groups :: "bind_group_id option list"
  rps_depth_target :: "texture_id option"
  rps_used :: "pending_write list"
  rps_vertex_buffers :: vertex_bindings
  rps_index :: "(buffer_id \<times> u64 \<times> index_format) option"
  rps_texture :: "texture_id option"
  rps_sampler :: "plain_id option"
  rps_uniforms :: "draw_uniforms option"
  rps_scissor :: "pixel_rect option option"
  rps_viewport :: "viewport option"

type_synonym 'p pass_result = "unit ir_result \<times> encoder \<times> 'p"

text \<open>Push a command and, when it is recorded, change the pass.\<close>

definition push_in_pass :: "encoder_alloc \<Rightarrow> command \<Rightarrow> ('p \<Rightarrow> 'p) \<Rightarrow> encoder \<times> 'p \<Rightarrow> 'p pass_result" where
  "push_in_pass mem c update s =
     (case enc_push mem c (fst s) of
        (Inl x, e) \<Rightarrow> (Inl x, e, snd s)
      | (Inr _, e) \<Rightarrow> (Inr (), e, update (snd s)))"

section \<open>Beginning and ending passes\<close>

definition begin_compute_pass ::
    "encoder_alloc \<Rightarrow> encoder \<Rightarrow> compute_pass ir_result \<times> encoder"
where
  "begin_compute_pass mem e =
     then_do (ensure_outside_pass e, e) (\<lambda>_ e. then_do (reserve_pass_begin e, e) (\<lambda>_ e.
     then_do (enc_push mem BeginComputePass e) (\<lambda>_ e.
       (Inr \<lparr>cps_pipeline = None, cps_groups = replicate MAX_BIND_GROUPS None\<rparr>, e\<lparr>en_pass_open := True\<rparr>))))"

definition end_pass :: "encoder_alloc \<Rightarrow> command \<Rightarrow> encoder \<Rightarrow> unit ir_result \<times> encoder" where
  "end_pass mem c e = then_do (push_pass_end mem c e) (\<lambda>_ e. (Inr (), e\<lparr>en_pass_open := False\<rparr>))"

fun color_formats_of ::
    "resource_table \<Rightarrow> encoder \<Rightarrow> color_attachment list \<Rightarrow> texture_format list ir_result"
where
  "color_formats_of t e [] = Inr []"
| "color_formats_of t e (a # as) =
     and_then (check_texture_mip_access t e (ca_target a) 0 TexRenderAttachment) (\<lambda>_.
     and_then (table_texture t (ca_target a)) (\<lambda>desc.
     and_then (color_formats_of t e as) (\<lambda>rest. Inr (tex_format desc # rest))))"

definition pad :: "nat \<Rightarrow> 'a list \<Rightarrow> 'a option list" where
  "pad n xs = map Some xs @ replicate (n - length xs) None"

definition begin_render_checks ::
    "resource_table \<Rightarrow> render_pass_desc \<Rightarrow> encoder \<Rightarrow>
     (texture_format \<times> texture_format option \<times> texture_format list) ir_result"
where
  "begin_render_checks t d e =
     and_then (ensure_outside_pass e) (\<lambda>_. and_then (table_texture t (rpd_target d)) (\<lambda>target.
     and_then (require_usage (tex_usage target) TEX_RENDER_ATTACHMENT) (\<lambda>_.
     and_then (reject_if (\<not> rect_is_within (rpd_area d) (tex_extent target)) OutOfBounds) (\<lambda>_.
     and_then (case rpd_depth d of
                 None \<Rightarrow> Inr None
               | Some a \<Rightarrow> and_then (table_texture t (da_target a)) (\<lambda>x. Inr (Some (tex_format x)))) (\<lambda>depth_format.
     and_then (color_formats_of t e (color_attachments d)) (\<lambda>formats.
     and_then (case rpd_depth d of
                 None \<Rightarrow> Inr ()
               | Some a \<Rightarrow> check_texture_mip_access t e (da_target a) 0
                             (if da_read_only a then TexSampled else TexRenderAttachment)) (\<lambda>_.
     and_then (reserve_pass_begin e) (\<lambda>_.
       Inr (tex_format target, depth_format, formats)))))))))"

definition begin_render_pass ::
    "resource_table \<Rightarrow> encoder_alloc \<Rightarrow> render_pass_desc \<Rightarrow> encoder \<Rightarrow> render_pass ir_result \<times> encoder"
where
  "begin_render_pass t mem d e =
     then_do (begin_render_checks t d e, e) (\<lambda>(target_format, depth_format, formats) e.
     then_do (enc_push mem (BeginRenderPass d) e) (\<lambda>_ e.
       (Inr \<lparr>rps_target = rpd_target d, rps_target_format = target_format,
             rps_color_targets = pad MAX_COLOR_ATTACHMENTS (map ca_target (color_attachments d)),
             rps_color_formats = pad MAX_COLOR_ATTACHMENTS formats,
             rps_depth_read_only = (case rpd_depth d of None \<Rightarrow> False | Some a \<Rightarrow> da_read_only a),
             rps_depth_format = depth_format, rps_area = rpd_area d, rps_pipeline = None,
             rps_programmable = None, rps_groups = replicate MAX_BIND_GROUPS None,
             rps_depth_target = map_option da_target (rpd_depth d), rps_used = [],
             rps_vertex_buffers = replicate MAX_VERTEX_BUFFERS None, rps_index = None, rps_texture = None,
             rps_sampler = None, rps_uniforms = None, rps_scissor = None, rps_viewport = None\<rparr>,
        e\<lparr>en_pass_open := True\<rparr>)))"

section \<open>The compute pass\<close>

text \<open>A setter that fails leaves all as it was, and one that repeats the bound state records nothing.\<close>

definition setter ::
    "unit ir_result \<Rightarrow> bool \<Rightarrow> encoder_alloc \<Rightarrow> command \<Rightarrow> ('p \<Rightarrow> 'p) \<Rightarrow> encoder \<times> 'p \<Rightarrow> 'p pass_result"
where
  "setter checks bound mem c update s =
     (case checks of
        Inl x \<Rightarrow> (Inl x, s)
      | Inr _ \<Rightarrow> if bound then (Inr (), s) else push_in_pass mem c update s)"

definition done_unit :: "'a ir_result \<Rightarrow> unit ir_result" where
  "done_unit r = and_then r (\<lambda>_. Inr ())"

definition compute_set_push_constants ::
    "resource_table \<Rightarrow> encoder_alloc \<Rightarrow> shader_stages \<Rightarrow> u32 \<Rightarrow> u8 list \<Rightarrow> encoder \<times> compute_pass \<Rightarrow>
     compute_pass pass_result"
where
  "compute_set_push_constants t mem stages offset data s =
     setter (and_then (ok_or (cps_pipeline (snd s)) PipelineNotSet) (\<lambda>p.
             and_then (table_compute_pipeline t p) (\<lambda>desc.
               validate_push_constants (cp_layout desc) stages offset data)))
       False mem (SetPushConstants stages offset data) id s"

definition compute_set_pipeline ::
    "resource_table \<Rightarrow> encoder_alloc \<Rightarrow> compute_pipeline_id \<Rightarrow> encoder \<times> compute_pass \<Rightarrow> compute_pass pass_result"
where
  "compute_set_pipeline t mem pipeline s =
     setter (done_unit (table_compute_pipeline t pipeline)) (cps_pipeline (snd s) = Some pipeline)
       mem (SetComputePipeline pipeline) (\<lambda>p. p\<lparr>cps_pipeline := Some pipeline\<rparr>) s"

definition compute_set_bind_group ::
    "resource_table \<Rightarrow> encoder_alloc \<Rightarrow> u32 \<Rightarrow> bind_group_id \<Rightarrow> encoder \<times> compute_pass \<Rightarrow> compute_pass pass_result"
where
  "compute_set_bind_group t mem index grp s =
     setter (and_then (reject_if (unat index \<ge> MAX_BIND_GROUPS) OutOfBounds) (\<lambda>_.
               done_unit (table_bind_group t grp)))
       (cps_groups (snd s) ! unat index = Some grp)
       mem (SetBindGroup index grp) (\<lambda>p. p\<lparr>cps_groups := (cps_groups p)[unat index := Some grp]\<rparr>) s"

definition dispatch ::
    "resource_table \<Rightarrow> encoder_alloc \<Rightarrow> u32 \<Rightarrow> u32 \<Rightarrow> u32 \<Rightarrow> encoder \<times> compute_pass \<Rightarrow> compute_pass pass_result"
where
  "dispatch t mem x y z s =
     (case and_then (reject_if (list_ex (\<lambda>n. n = 0 \<or> n > 65535) [x, y, z]) InvalidValue) (\<lambda>_.
           and_then (ok_or (cps_pipeline (snd s)) PipelineNotSet) (\<lambda>p.
           and_then (table_compute_pipeline t p) (\<lambda>desc.
             validate_groups t mem (fst s) (cp_layout desc) (cps_groups (snd s)) [] [] None))) of
        Inl err \<Rightarrow> (Inl err, s)
      | Inr accesses \<Rightarrow>
          (let (r, e) = record_with_writes mem (Dispatch x y z) accesses (fst s) in (r, e, snd s)))"

section \<open>Binding state of a render pass\<close>

definition depth_writes :: "depth_state option \<Rightarrow> bool" where
  "depth_writes d \<longleftrightarrow> (case d of None \<Rightarrow> False | Some x \<Rightarrow> ds_write x)"

definition depth_format_differs :: "depth_state option \<Rightarrow> texture_format option \<Rightarrow> bool" where
  "depth_format_differs d f \<longleftrightarrow> (case d of None \<Rightarrow> False | Some x \<Rightarrow> Some (ds_format x) \<noteq> f)"

definition set_pipeline ::
    "resource_table \<Rightarrow> encoder_alloc \<Rightarrow> plain_id \<Rightarrow> encoder \<times> render_pass \<Rightarrow> render_pass pass_result"
where
  "set_pipeline t mem pipeline s =
     setter (and_then (with_pipeline t pipeline) (\<lambda>desc.
               reject_if (rps_color_targets (snd s) ! 1 \<noteq> None \<or>
                   (rps_depth_read_only (snd s) \<and> depth_writes (rp_depth desc)) \<or>
                   rp_target_format desc \<noteq> rps_target_format (snd s) \<or>
                   depth_format_differs (rp_depth desc) (rps_depth_format (snd s))) PipelineTargetMismatch))
       (rps_pipeline (snd s) = Some pipeline) mem (SetPipeline pipeline)
       (\<lambda>p. p\<lparr>rps_pipeline := Some pipeline, rps_programmable := None\<rparr>) s"

definition set_programmable_pipeline ::
    "resource_table \<Rightarrow> encoder_alloc \<Rightarrow> programmable_pipeline_id \<Rightarrow> encoder \<times> render_pass \<Rightarrow> render_pass pass_result"
where
  "set_programmable_pipeline t mem pipeline s =
     setter (and_then (table_programmable_pipeline t pipeline) (\<lambda>desc.
               reject_if (map_option (map ct_format) (color_targets desc) \<noteq>
                            Some (List.map_filter id (rps_color_formats (snd s))) \<or>
                   (rps_depth_read_only (snd s) \<and> depth_writes (pp_depth desc)) \<or>
                   depth_format_differs (pp_depth desc) (rps_depth_format (snd s))) PipelineTargetMismatch))
       (rps_programmable (snd s) = Some pipeline) mem (SetProgrammablePipeline pipeline)
       (\<lambda>p. p\<lparr>rps_programmable := Some pipeline, rps_pipeline := None\<rparr>) s"

definition render_set_bind_group ::
    "resource_table \<Rightarrow> encoder_alloc \<Rightarrow> u32 \<Rightarrow> bind_group_id \<Rightarrow> encoder \<times> render_pass \<Rightarrow> render_pass pass_result"
where
  "render_set_bind_group t mem index grp s =
     setter (and_then (reject_if (unat index \<ge> MAX_BIND_GROUPS) OutOfBounds) (\<lambda>_.
               done_unit (table_bind_group t grp)))
       (rps_groups (snd s) ! unat index = Some grp)
       mem (SetBindGroup index grp) (\<lambda>p. p\<lparr>rps_groups := (rps_groups p)[unat index := Some grp]\<rparr>) s"

definition render_set_push_constants ::
    "resource_table \<Rightarrow> encoder_alloc \<Rightarrow> shader_stages \<Rightarrow> u32 \<Rightarrow> u8 list \<Rightarrow> encoder \<times> render_pass \<Rightarrow>
     render_pass pass_result"
where
  "render_set_push_constants t mem stages offset data s =
     setter (and_then (ok_or (rps_programmable (snd s)) PipelineNotSet) (\<lambda>p.
             and_then (table_programmable_pipeline t p) (\<lambda>desc.
               validate_push_constants (pp_layout desc) stages offset data)))
       False mem (SetPushConstants stages offset data) id s"

definition vertex_buffer_checks :: "resource_table \<Rightarrow> buffer_id \<Rightarrow> u64 \<Rightarrow> unit ir_result" where
  "vertex_buffer_checks t buffer offset =
     and_then (table_buffer t buffer) (\<lambda>desc.
     and_then (require_usage (buf_usage desc) BUF_VERTEX) (\<lambda>_.
       reject_if (offset > buf_size desc) OutOfBounds))"

definition set_vertex_buffer ::
    "resource_table \<Rightarrow> encoder_alloc \<Rightarrow> buffer_id \<Rightarrow> u64 \<Rightarrow> encoder \<times> render_pass \<Rightarrow> render_pass pass_result"
where
  "set_vertex_buffer t mem buffer offset s =
     setter (vertex_buffer_checks t buffer offset) (rps_vertex_buffers (snd s) ! 0 = Some (buffer, offset))
       mem (SetVertexBuffer buffer offset)
       (\<lambda>p. p\<lparr>rps_vertex_buffers := (rps_vertex_buffers p)[0 := Some (buffer, offset)]\<rparr>) s"

definition set_vertex_buffer_slot ::
    "resource_table \<Rightarrow> encoder_alloc \<Rightarrow> u32 \<Rightarrow> buffer_id \<Rightarrow> u64 \<Rightarrow> encoder \<times> render_pass \<Rightarrow> render_pass pass_result"
where
  "set_vertex_buffer_slot t mem slot buffer offset s =
     (if unat slot \<ge> MAX_VERTEX_BUFFERS then (Inl OutOfBounds, s)
      else if slot = 0 then set_vertex_buffer t mem buffer offset s
      else setter (vertex_buffer_checks t buffer offset)
             (rps_vertex_buffers (snd s) ! unat slot = Some (buffer, offset))
             mem (SetVertexBufferSlot slot buffer offset)
             (\<lambda>p. p\<lparr>rps_vertex_buffers := (rps_vertex_buffers p)[unat slot := Some (buffer, offset)]\<rparr>) s)"

definition set_index_buffer ::
    "resource_table \<Rightarrow> encoder_alloc \<Rightarrow> buffer_id \<Rightarrow> u64 \<Rightarrow> index_format \<Rightarrow> encoder \<times> render_pass \<Rightarrow>
     render_pass pass_result"
where
  "set_index_buffer t mem buffer offset format s =
     setter (and_then (table_buffer t buffer) (\<lambda>desc.
             and_then (require_usage (buf_usage desc) BUF_INDEX) (\<lambda>_.
             and_then (reject_if (offset > buf_size desc) OutOfBounds) (\<lambda>_.
               reject_if (\<not> is_multiple_of offset (index_byte_size format)) InvalidValue))))
       (rps_index (snd s) = Some (buffer, offset, format)) mem (SetIndexBuffer buffer offset format)
       (\<lambda>p. p\<lparr>rps_index := Some (buffer, offset, format)\<rparr>) s"

definition set_texture ::
    "resource_table \<Rightarrow> encoder_alloc \<Rightarrow> texture_id \<Rightarrow> encoder \<times> render_pass \<Rightarrow> render_pass pass_result"
where
  "set_texture t mem texture s =
     setter (and_then (table_texture t texture) (\<lambda>desc.
             and_then (require_usage (tex_usage desc) TEX_SAMPLED) (\<lambda>_.
             and_then (reject_if (tex_layers desc \<noteq> 1 \<or> tex_format desc = Depth32Float) BindingLayoutMismatch) (\<lambda>_.
             and_then (same_texture t texture (rps_target (snd s))) (\<lambda>same.
               reject_if same AttachmentFeedback)))))
       (rps_texture (snd s) = Some texture) mem (SetTexture texture) (\<lambda>p. p\<lparr>rps_texture := Some texture\<rparr>) s"

definition set_sampler ::
    "resource_table \<Rightarrow> encoder_alloc \<Rightarrow> plain_id \<Rightarrow> encoder \<times> render_pass \<Rightarrow> render_pass pass_result"
where
  "set_sampler t mem sampler s =
     setter (and_then (table_sampler t sampler) (\<lambda>desc.
               reject_if (smp_compare desc \<noteq> None) BindingLayoutMismatch))
       (rps_sampler (snd s) = Some sampler) mem (SetSampler sampler) (\<lambda>p. p\<lparr>rps_sampler := Some sampler\<rparr>) s"

definition set_draw_index :: "encoder_alloc \<Rightarrow> u32 \<Rightarrow> encoder \<times> render_pass \<Rightarrow> render_pass pass_result" where
  "set_draw_index mem index s = setter (Inr ()) False mem (SetDrawIndex index) id s"

text \<open>Uniforms and viewports are compared by their bits, which is equality of the model's floats.\<close>

definition set_uniforms :: "encoder_alloc \<Rightarrow> draw_uniforms \<Rightarrow> encoder \<times> render_pass \<Rightarrow> render_pass pass_result" where
  "set_uniforms mem uniforms s =
     setter (Inr ())
       (case rps_uniforms (snd s) of None \<Rightarrow> False | Some current \<Rightarrow>
          columns (du_transform current) = columns (du_transform uniforms) \<and>
          color_components (du_color current) = color_components (du_color uniforms))
       mem (SetUniforms uniforms) (\<lambda>p. p\<lparr>rps_uniforms := Some uniforms\<rparr>) s"

definition scissor_outside :: "pixel_rect \<Rightarrow> pixel_rect \<Rightarrow> bool" where
  "scissor_outside sc area \<longleftrightarrow> rect_x sc < rect_x area \<or> rect_y sc < rect_y area \<or>
     rect_x sc + rect_width sc > rect_x area + rect_width area \<or>
     rect_y sc + rect_height sc > rect_y area + rect_height area"

definition set_scissor ::
    "encoder_alloc \<Rightarrow> pixel_rect option \<Rightarrow> encoder \<times> render_pass \<Rightarrow> render_pass pass_result"
where
  "set_scissor mem scissor s =
     setter (reject_if (case scissor of None \<Rightarrow> False | Some sc \<Rightarrow> scissor_outside sc (rps_area (snd s))) OutOfBounds)
       (rps_scissor (snd s) = Some scissor) mem (SetScissor scissor) (\<lambda>p. p\<lparr>rps_scissor := Some scissor\<rparr>) s"

definition set_viewport ::
    "resource_table \<Rightarrow> encoder_alloc \<Rightarrow> viewport \<Rightarrow> encoder \<times> render_pass \<Rightarrow> render_pass pass_result"
where
  "set_viewport t mem v s =
     setter (and_then (table_texture t (rps_target (snd s))) (\<lambda>desc.
               reject_if (\<not> viewport_within v (tex_extent desc)) OutOfBounds))
       (case rps_viewport (snd s) of None \<Rightarrow> False
        | Some current \<Rightarrow> viewport_components current = viewport_components v)
       mem (SetViewport v) (\<lambda>p. p\<lparr>rps_viewport := Some v\<rparr>) s"

section \<open>Fixed-function draws\<close>

fun program_samples :: "fragment_program \<Rightarrow> bool" where
  "program_samples (Texture _) \<longleftrightarrow> True"
| "program_samples (TextureVertexColor _) \<longleftrightarrow> True"
| "program_samples _ \<longleftrightarrow> False"

definition active_sampled_texture :: "resource_table \<Rightarrow> render_pass \<Rightarrow> texture_id option ir_result" where
  "active_sampled_texture t p =
     and_then (ok_or (rps_pipeline p) PipelineNotSet) (\<lambda>pipeline. and_then (with_pipeline t pipeline) (\<lambda>desc.
       Inr (if program_samples (rp_fragment desc) then rps_texture p else None)))"

definition validate_draw :: "resource_table \<Rightarrow> encoder \<Rightarrow> render_pass \<Rightarrow> u32 \<Rightarrow> unit ir_result" where
  "validate_draw t e p vertices =
     and_then (ok_or (rps_pipeline p) PipelineNotSet) (\<lambda>pipeline. and_then (with_pipeline t pipeline) (\<lambda>desc.
     and_then (reject_if (\<not> accepts_count (rp_topology desc) vertices) InvalidValue) (\<lambda>_.
     and_then (ok_or (rps_uniforms p) UniformsNotSet) (\<lambda>_.
     and_then (active_sampled_texture t p) (\<lambda>sampled.
     and_then (case sampled of None \<Rightarrow> Inr () | Some x \<Rightarrow> check_texture_access t e x TexSampled) (\<lambda>_.
       reject_if (program_samples (rp_fragment desc) \<and> (rps_texture p = None \<or> rps_sampler p = None))
         TextureBindingNotSet))))))"

definition sampled_keys :: "texture_id option \<Rightarrow> pending_write list" where
  "sampled_keys x = (case x of None \<Rightarrow> [] | Some i \<Rightarrow> [PwTexture i])"

text \<open>Record a fixed-function draw that uses the given resources.\<close>

definition record_fixed ::
    "encoder_alloc \<Rightarrow> command \<Rightarrow> pending_write list \<Rightarrow> encoder \<times> render_pass \<Rightarrow> render_pass pass_result"
where
  "record_fixed mem c used s =
     (case enc_push mem c (fst s) of
        (Inl x, e) \<Rightarrow> (Inl x, e, snd s)
      | (Inr _, e) \<Rightarrow> (Inr (), fold consume_access used e, (snd s)\<lparr>rps_used := rps_used (snd s) @ used\<rparr>))"

definition draw_fixed_checks ::
    "resource_table \<Rightarrow> encoder_alloc \<Rightarrow> u32 \<Rightarrow> u32 \<Rightarrow> encoder \<times> render_pass \<Rightarrow> pending_write list ir_result"
where
  "draw_fixed_checks t mem vertex_count first_vertex s =
     and_then (validate_draw t (fst s) (snd s) vertex_count) (\<lambda>_.
     and_then (active_sampled_texture t (snd s)) (\<lambda>sampled.
     and_then (ok_or (rps_pipeline (snd s)) PipelineNotSet) (\<lambda>pipeline.
     and_then (with_pipeline t pipeline) (\<lambda>desc.
     and_then (ok_or (rps_vertex_buffers (snd s) ! 0) VertexBufferNotSet) (\<lambda>(buffer, offset).
     and_then (table_buffer t buffer) (\<lambda>bdesc.
     and_then (check_buffer_access (fst s) buffer BufVertex) (\<lambda>_.
     let stride = ucast (vl_stride (rp_vertex desc)) :: u64 in
     and_then (reject_if (offset mod stride \<noteq> 0) InvalidValue) (\<lambda>_.
     and_then (ok_or (checked_add (ucast first_vertex :: u64) (ucast vertex_count)) Overflow) (\<lambda>vertices.
     and_then (ok_or (checked_mul vertices stride) Overflow) (\<lambda>bytes.
     and_then (validate_byte_range offset bytes (buf_size bdesc)) (\<lambda>_.
     and_then (reserve mem SiteUsedResources) (\<lambda>_.
       Inr (PwBuffer buffer # sampled_keys sampled)))))))))))))"

definition draw_fixed ::
    "resource_table \<Rightarrow> encoder_alloc \<Rightarrow> u32 \<Rightarrow> u32 \<Rightarrow> encoder \<times> render_pass \<Rightarrow> render_pass pass_result"
where
  "draw_fixed t mem vertex_count first_vertex s =
     (case draw_fixed_checks t mem vertex_count first_vertex s of
        Inl x \<Rightarrow> (Inl x, s)
      | Inr used \<Rightarrow> record_fixed mem (Draw vertex_count first_vertex) used s)"

definition draw_indexed_fixed_checks ::
    "resource_table \<Rightarrow> encoder_alloc \<Rightarrow> u32 \<Rightarrow> u32 \<Rightarrow> encoder \<times> render_pass \<Rightarrow> pending_write list ir_result"
where
  "draw_indexed_fixed_checks t mem index_count first_index s =
     and_then (validate_draw t (fst s) (snd s) index_count) (\<lambda>_.
     and_then (active_sampled_texture t (snd s)) (\<lambda>sampled.
     and_then (ok_or (rps_pipeline (snd s)) PipelineNotSet) (\<lambda>pipeline.
     and_then (with_pipeline t pipeline) (\<lambda>desc.
     let stride = ucast (vl_stride (rp_vertex desc)) :: u64 in
     and_then (ok_or (rps_vertex_buffers (snd s) ! 0) VertexBufferNotSet) (\<lambda>(vbuffer, voffset).
     and_then (table_buffer t vbuffer) (\<lambda>vdesc.
     and_then (check_buffer_access (fst s) vbuffer BufVertex) (\<lambda>_.
     and_then (reject_if (voffset mod stride \<noteq> 0) InvalidValue) (\<lambda>_.
     and_then (validate_byte_range voffset stride (buf_size vdesc)) (\<lambda>_.
     and_then (ok_or (rps_index (snd s)) IndexBufferNotSet) (\<lambda>(buffer, offset, format).
     and_then (table_buffer t buffer) (\<lambda>bdesc.
     and_then (check_buffer_access (fst s) buffer BufIndex) (\<lambda>_.
     and_then (ok_or (checked_add (ucast first_index :: u64) (ucast index_count)) Overflow) (\<lambda>indices.
     and_then (ok_or (checked_mul indices (index_byte_size format)) Overflow) (\<lambda>bytes.
     and_then (validate_byte_range offset bytes (buf_size bdesc)) (\<lambda>_.
     and_then (reserve mem SiteUsedResources) (\<lambda>_.
       Inr (PwBuffer buffer # PwBuffer vbuffer # sampled_keys sampled)))))))))))))))))"

definition draw_indexed_fixed ::
    "resource_table \<Rightarrow> encoder_alloc \<Rightarrow> u32 \<Rightarrow> u32 \<Rightarrow> i32 \<Rightarrow> encoder \<times> render_pass \<Rightarrow> render_pass pass_result"
where
  "draw_indexed_fixed t mem index_count first_index base_vertex s =
     (case draw_indexed_fixed_checks t mem index_count first_index s of
        Inl x \<Rightarrow> (Inl x, s)
      | Inr used \<Rightarrow> record_fixed mem (DrawIndexed index_count first_index base_vertex) used s)"

section \<open>Programmable draws\<close>

definition programmable_writes ::
    "resource_table \<Rightarrow> encoder_alloc \<Rightarrow> programmable_pipeline \<Rightarrow> bool \<Rightarrow> encoder \<times> render_pass \<Rightarrow>
     group_accesses ir_result"
where
  "programmable_writes t mem desc indexed s =
     (let p = snd s;
          attachments = List.map_filter id (rps_color_targets p) @
            (case rps_depth_target p of None \<Rightarrow> [] | Some d \<Rightarrow> if rps_depth_read_only p then [] else [d])
      in validate_groups t mem (fst s) (pp_layout desc) (rps_groups p) attachments
           (take (length (pp_vertex_buffers desc)) (rps_vertex_buffers p))
           (if indexed then map_option fst (rps_index p) else None))"

definition validate_cumulative_accesses ::
    "encoder_alloc \<Rightarrow> group_accesses \<Rightarrow> render_pass \<Rightarrow> unit ir_result"
where
  "validate_cumulative_accesses mem accesses p =
     and_then (reject_if (list_ex (\<lambda>w. list_ex (pw_aliases w) (rps_used p)) (ga_writes accesses))
                 ResourceAccessConflict) (\<lambda>_. reserve mem SiteUsedResources)"

definition validate_programmable_count ::
    "resource_table \<Rightarrow> render_pass \<Rightarrow> u32 \<Rightarrow> programmable_pipeline ir_result"
where
  "validate_programmable_count t p vertices =
     and_then (ok_or (rps_programmable p) PipelineNotSet) (\<lambda>i.
     and_then (table_programmable_pipeline t i) (\<lambda>desc.
       if \<not> accepts_count (pp_topology desc) vertices then Inl InvalidValue else Inr desc))"

definition attribute_end :: "vertex_layout \<Rightarrow> u64" where
  "attribute_end l =
     (let ends = map (\<lambda>a. ucast (va_offset a) + ucast (vertex_byte_size (va_format a)) :: u64) (vl_attributes l)
      in if ends = [] then 0 else fold max (tl ends) (hd ends))"

definition instance_last :: "vertex_layout \<Rightarrow> u32 \<Rightarrow> u32 \<Rightarrow> u32 ir_result" where
  "instance_last l first_instance instances =
     ok_or (checked_add first_instance ((instances - 1) div vl_divisor l)) Overflow"

text \<open>One slot of vertex input; \<open>last_vertex\<close> is 0 for indexed draws, whose indices are opaque here.\<close>

definition vertex_slot_check ::
    "resource_table \<Rightarrow> encoder \<times> render_pass \<Rightarrow> u32 \<Rightarrow> u32 \<Rightarrow> u32 \<Rightarrow> nat \<times> vertex_layout \<Rightarrow> unit ir_result"
where
  "vertex_slot_check t s last_vertex first_instance instances sl =
     (case sl of (slot, layout) \<Rightarrow>
     and_then (ok_or (rps_vertex_buffers (snd s) ! slot) VertexBufferNotSet) (\<lambda>(buffer, offset).
     and_then (table_buffer t buffer) (\<lambda>bdesc.
     and_then (check_buffer_access (fst s) buffer BufVertex) (\<lambda>_.
     and_then (reject_if (\<not> is_multiple_of offset 4) InvalidValue) (\<lambda>_.
     and_then (if vl_step layout = StepVertex then Inr last_vertex
               else instance_last layout first_instance instances) (\<lambda>last.
     and_then (ok_or (Option.bind (checked_mul (ucast last :: u64) (ucast (vl_stride layout)))
                        (\<lambda>start. checked_add start (attribute_end layout))) Overflow) (\<lambda>bytes.
       validate_byte_range offset bytes (buf_size bdesc))))))))"

definition record_programmable ::
    "encoder_alloc \<Rightarrow> command \<Rightarrow> group_accesses \<Rightarrow> encoder \<times> render_pass \<Rightarrow> render_pass pass_result"
where
  "record_programmable mem c accesses s =
     (case record_with_writes mem c accesses (fst s) of
        (Inl x, e) \<Rightarrow> (Inl x, e, snd s)
      | (Inr _, e) \<Rightarrow> (Inr (), e, (snd s)\<lparr>rps_used := rps_used (snd s) @ ga_used accesses\<rparr>))"

definition draw_programmable_checks ::
    "resource_table \<Rightarrow> encoder_alloc \<Rightarrow> u32 \<Rightarrow> u32 \<Rightarrow> u32 \<Rightarrow> u32 \<Rightarrow> encoder \<times> render_pass \<Rightarrow> group_accesses ir_result"
where
  "draw_programmable_checks t mem vertices first instances first_instance s =
     and_then (reject_if (instances = 0) InvalidValue) (\<lambda>_.
     and_then (ok_or (checked_add first_instance instances) Overflow) (\<lambda>_.
     and_then (validate_programmable_count t (snd s) vertices) (\<lambda>desc.
     and_then (ok_or (Option.bind (checked_add first vertices) (\<lambda>stop. checked_sub stop 1)) Overflow) (\<lambda>last_vertex.
     and_then (for_each (vertex_slot_check t s last_vertex first_instance instances)
                 (enumerate 0 (pp_vertex_buffers desc))) (\<lambda>_.
     and_then (programmable_writes t mem desc False s) (\<lambda>accesses.
     and_then (validate_cumulative_accesses mem accesses (snd s)) (\<lambda>_. Inr accesses)))))))"

definition draw_programmable ::
    "resource_table \<Rightarrow> encoder_alloc \<Rightarrow> u32 \<Rightarrow> u32 \<Rightarrow> u32 \<Rightarrow> u32 \<Rightarrow> encoder \<times> render_pass \<Rightarrow> render_pass pass_result"
where
  "draw_programmable t mem vertices first instances first_instance s =
     (case draw_programmable_checks t mem vertices first instances first_instance s of
        Inl x \<Rightarrow> (Inl x, s)
      | Inr accesses \<Rightarrow>
          record_programmable mem (if instances = 1 \<and> first_instance = 0 then Draw vertices first
                                   else DrawInstanced vertices first instances first_instance) accesses s)"

definition draw_indexed_programmable_checks ::
    "resource_table \<Rightarrow> encoder_alloc \<Rightarrow> u32 \<Rightarrow> u32 \<Rightarrow> u32 \<Rightarrow> u32 \<Rightarrow> encoder \<times> render_pass \<Rightarrow> group_accesses ir_result"
where
  "draw_indexed_programmable_checks t mem vertices first instances first_instance s =
     and_then (reject_if (instances = 0) InvalidValue) (\<lambda>_.
     and_then (ok_or (checked_add first_instance instances) Overflow) (\<lambda>_.
     and_then (validate_programmable_count t (snd s) vertices) (\<lambda>desc.
     and_then (ok_or (checked_add first vertices) Overflow) (\<lambda>_.
     and_then (for_each (vertex_slot_check t s 0 first_instance instances)
                 (enumerate 0 (pp_vertex_buffers desc))) (\<lambda>_.
     and_then (ok_or (rps_index (snd s)) IndexBufferNotSet) (\<lambda>(buffer, offset, format).
     and_then (table_buffer t buffer) (\<lambda>bdesc.
     and_then (check_buffer_access (fst s) buffer BufIndex) (\<lambda>_.
     and_then (ok_or (checked_mul (ucast first + ucast vertices :: u64) (index_byte_size format)) Overflow) (\<lambda>bytes.
     and_then (validate_byte_range offset bytes (buf_size bdesc)) (\<lambda>_.
     and_then (programmable_writes t mem desc True s) (\<lambda>accesses.
     and_then (validate_cumulative_accesses mem accesses (snd s)) (\<lambda>_. Inr accesses))))))))))))"

definition draw_indexed_programmable ::
    "resource_table \<Rightarrow> encoder_alloc \<Rightarrow> u32 \<Rightarrow> u32 \<Rightarrow> i32 \<Rightarrow> u32 \<Rightarrow> u32 \<Rightarrow> encoder \<times> render_pass \<Rightarrow>
     render_pass pass_result"
where
  "draw_indexed_programmable t mem vertices first base_vertex instances first_instance s =
     (case draw_indexed_programmable_checks t mem vertices first instances first_instance s of
        Inl x \<Rightarrow> (Inl x, s)
      | Inr accesses \<Rightarrow>
          record_programmable mem (if instances = 1 \<and> first_instance = 0 then DrawIndexed vertices first base_vertex
                                   else DrawIndexedInstanced vertices first base_vertex instances first_instance)
            accesses s)"

section \<open>Draw entry points\<close>

definition draw_instanced ::
    "resource_table \<Rightarrow> encoder_alloc \<Rightarrow> u32 \<Rightarrow> u32 \<Rightarrow> u32 \<Rightarrow> u32 \<Rightarrow> encoder \<times> render_pass \<Rightarrow> render_pass pass_result"
where
  "draw_instanced t mem vertices first instances first_instance s =
     draw_programmable t mem vertices first instances first_instance s"

definition draw_indexed_instanced ::
    "resource_table \<Rightarrow> encoder_alloc \<Rightarrow> u32 \<Rightarrow> u32 \<Rightarrow> i32 \<Rightarrow> u32 \<Rightarrow> u32 \<Rightarrow> encoder \<times> render_pass \<Rightarrow>
     render_pass pass_result"
where
  "draw_indexed_instanced t mem indices first base_vertex instances first_instance s =
     draw_indexed_programmable t mem indices first base_vertex instances first_instance s"

definition draw ::
    "resource_table \<Rightarrow> encoder_alloc \<Rightarrow> u32 \<Rightarrow> u32 \<Rightarrow> encoder \<times> render_pass \<Rightarrow> render_pass pass_result"
where
  "draw t mem vertex_count first_vertex s =
     (if rps_programmable (snd s) \<noteq> None then draw_programmable t mem vertex_count first_vertex 1 0 s
      else draw_fixed t mem vertex_count first_vertex s)"

definition draw_indexed ::
    "resource_table \<Rightarrow> encoder_alloc \<Rightarrow> u32 \<Rightarrow> u32 \<Rightarrow> i32 \<Rightarrow> encoder \<times> render_pass \<Rightarrow> render_pass pass_result"
where
  "draw_indexed t mem index_count first_index base_vertex s =
     (if rps_programmable (snd s) \<noteq> None
      then draw_indexed_programmable t mem index_count first_index base_vertex 1 0 s
      else draw_indexed_fixed t mem index_count first_index base_vertex s)"

end
