(* ===== verification/Command_Stream.thy ===== *)
theory Command_Stream
  imports Pass_Encoders
begin

text \<open>
  What a recorded command stream means to a backend that replays it: which pass is open, what is
  bound, and which subresources hold shader writes that no barrier has published. This is a
  specification. It reads commands only and shares no state with the encoders, which keep their own
  copy of it; \<^verbatim>\<open>Encoder_Machine\<close> proves that they agree.
\<close>

section \<open>Replay state\<close>

datatype subresource = SubBuffer buffer_id | SubMip texture_id u32

datatype stream_pass = Outside | InComputePass | InRenderPass render_pass_desc

datatype bound_pipeline =
    NoPipeline
  | FixedPipeline plain_id
  | ProgrammablePipeline programmable_pipeline_id
  | ComputePipeline compute_pipeline_id

record stream =
  st_pass :: stream_pass
  st_pipeline :: bound_pipeline
  st_groups :: "bind_group_id option list"
  st_vertex :: vertex_bindings
  st_index :: "(buffer_id \<times> u64 \<times> index_format) option"
  st_texture :: "texture_id option"
  st_dirty :: "subresource list"
  st_used :: "subresource list"

definition stream_start :: stream where
  "stream_start = \<lparr>st_pass = Outside, st_pipeline = NoPipeline, st_groups = [], st_vertex = [], st_index = None,
     st_texture = None, st_dirty = [], st_used = []\<rparr>"

text \<open>The state a pass starts in.\<close>

definition enter :: "stream_pass \<Rightarrow> stream \<Rightarrow> stream" where
  "enter p s = s\<lparr>st_pass := p, st_pipeline := NoPipeline, st_groups := replicate MAX_BIND_GROUPS None,
     st_vertex := replicate MAX_VERTEX_BUFFERS None, st_index := None, st_texture := None, st_used := []\<rparr>"

section \<open>What a draw or dispatch reaches\<close>

definition whole_texture :: "resource_table \<Rightarrow> texture_id \<Rightarrow> subresource list" where
  "whole_texture t x = (case live_texture t x of None \<Rightarrow> [] | Some d \<Rightarrow> map (SubMip x) (mips_from 0 (tex_mips d)))"

fun resource_reach :: "resource_table \<Rightarrow> binding_resource \<Rightarrow> subresource list" where
  "resource_reach t (BufferBinding b _ _) = [SubBuffer b]"
| "resource_reach t (TextureViewBinding x view) = map (SubMip x) (view_mip_range view)"
| "resource_reach t (TextureBinding x) = whole_texture t x"
| "resource_reach t (SamplerResource _) = []"

text \<open>The resources the bound groups give to a layout, and whether the shader may write each.\<close>

definition group_uses :: "resource_table \<Rightarrow> bind_group_id option \<Rightarrow> resource_use list" where
  "group_uses t slot = (case Option.bind slot (live_bind_group t) of
     None \<Rightarrow> []
   | Some d \<Rightarrow> map (\<lambda>(e, l). (be_resource e, binding_writes (le_ty l))) (zip (bg_entries d) (bg_layout d)))"

definition bound_uses :: "resource_table \<Rightarrow> pipeline_layout \<Rightarrow> bind_group_id option list \<Rightarrow> resource_use list" where
  "bound_uses t layout groups = concat (map (\<lambda>(_, slot). group_uses t slot) (zip (pl_bind_groups layout) groups))"

definition groups_match :: "resource_table \<Rightarrow> pipeline_layout \<Rightarrow> bind_group_id option list \<Rightarrow> bool" where
  "groups_match t layout groups \<longleftrightarrow> list_all (\<lambda>(expected, slot).
     (case Option.bind slot (live_bind_group t) of None \<Rightarrow> expected = [] \<and> slot = None
      | Some d \<Rightarrow> bg_layout d = expected)) (zip (pl_bind_groups layout) groups)"

definition pass_attachments :: "stream \<Rightarrow> subresource list" where
  "pass_attachments s = (case st_pass s of
     InRenderPass d \<Rightarrow> map (\<lambda>a. SubMip (ca_target a) 0) (color_attachments d) @
       (case rpd_depth d of None \<Rightarrow> [] | Some a \<Rightarrow> if da_read_only a then [] else [SubMip (da_target a) 0])
   | _ \<Rightarrow> [])"

definition index_reach :: "bool \<Rightarrow> stream \<Rightarrow> subresource list" where
  "index_reach indexed s = (if indexed then (case st_index s of None \<Rightarrow> [] | Some (b, _) \<Rightarrow> [SubBuffer b]) else [])"

definition vertex_reach :: "vertex_bindings \<Rightarrow> subresource list" where
  "vertex_reach slots = map (\<lambda>(b, _). SubBuffer b) (List.map_filter id slots)"

text \<open>The bindings of the current pipeline and the fixed inputs beside them.\<close>

definition draw_uses :: "resource_table \<Rightarrow> stream \<Rightarrow> resource_use list" where
  "draw_uses t s = (case st_pipeline s of
     ProgrammablePipeline i \<Rightarrow> (case live_programmable t i of
        None \<Rightarrow> [] | Some p \<Rightarrow> bound_uses t (pp_layout p) (st_groups s))
   | ComputePipeline i \<Rightarrow> (case live_compute t i of
        None \<Rightarrow> [] | Some p \<Rightarrow> bound_uses t (cp_layout p) (st_groups s))
   | _ \<Rightarrow> [])"

definition sampled_reach :: "resource_table \<Rightarrow> render_pipeline \<Rightarrow> stream \<Rightarrow> subresource list" where
  "sampled_reach t p s = (case st_texture s of
     None \<Rightarrow> [] | Some x \<Rightarrow> if program_samples (rp_fragment p) then whole_texture t x else [])"

definition draw_inputs :: "resource_table \<Rightarrow> bool \<Rightarrow> stream \<Rightarrow> subresource list" where
  "draw_inputs t indexed s = (case st_pipeline s of
     ProgrammablePipeline i \<Rightarrow> (case live_programmable t i of
        None \<Rightarrow> [] | Some p \<Rightarrow> vertex_reach (take (length (pp_vertex_buffers p)) (st_vertex s)) @ index_reach indexed s)
   | FixedPipeline i \<Rightarrow> (case with_pipeline t i of
        Inl _ \<Rightarrow> [] | Inr p \<Rightarrow> vertex_reach (take 1 (st_vertex s)) @ index_reach indexed s @ sampled_reach t p s)
   | _ \<Rightarrow> [])"

definition uses_reach :: "resource_table \<Rightarrow> resource_use list \<Rightarrow> subresource list" where
  "uses_reach t uses = concat (map (\<lambda>(r, _). resource_reach t r) uses)"

text \<open>A storage texture bound without a view has one level, which is what its shader writes.\<close>

fun resource_written :: "binding_resource \<Rightarrow> subresource list" where
  "resource_written (BufferBinding b _ _) = [SubBuffer b]"
| "resource_written (TextureViewBinding x view) = map (SubMip x) (view_mip_range view)"
| "resource_written (TextureBinding x) = [SubMip x 0]"
| "resource_written (SamplerResource _) = []"

definition written_reach :: "resource_use list \<Rightarrow> subresource list" where
  "written_reach uses = concat (map (\<lambda>(r, w). if w then resource_written r else []) uses)"

datatype work = NotWork | DispatchWork | DrawWork bool u32 u32 u32 u32

fun work_of :: "command \<Rightarrow> work" where
  "work_of (Dispatch _ _ _) = DispatchWork"
| "work_of (Draw n first) = DrawWork False n first 1 0"
| "work_of (DrawInstanced n first instances first_instance) = DrawWork False n first instances first_instance"
| "work_of (DrawIndexed n first _) = DrawWork True n first 1 0"
| "work_of (DrawIndexedInstanced n first _ instances first_instance) = DrawWork True n first instances first_instance"
| "work_of _ = NotWork"

section \<open>Replaying a command\<close>

fun settles :: "resource_table \<Rightarrow> resource_barrier \<Rightarrow> subresource \<Rightarrow> bool" where
  "settles t GlobalBarrier sub \<longleftrightarrow> True"
| "settles t (BufferBarrier b _ _) sub \<longleftrightarrow> sub = SubBuffer b"
| "settles t (TextureBarrier x _ _) sub \<longleftrightarrow> sub \<in> set (whole_texture t x)"
| "settles t (TextureMipBarrier x mip _ _) sub \<longleftrightarrow> sub = SubMip x mip"

fun advance_binding :: "command \<Rightarrow> stream \<Rightarrow> stream" where
  "advance_binding BeginComputePass s = enter InComputePass s"
| "advance_binding (BeginRenderPass d) s = enter (InRenderPass d) s"
| "advance_binding EndComputePass s = s\<lparr>st_pass := Outside\<rparr>"
| "advance_binding EndRenderPass s = s\<lparr>st_pass := Outside\<rparr>"
| "advance_binding (SetPipeline i) s = s\<lparr>st_pipeline := FixedPipeline i\<rparr>"
| "advance_binding (SetProgrammablePipeline i) s = s\<lparr>st_pipeline := ProgrammablePipeline i\<rparr>"
| "advance_binding (SetComputePipeline i) s = s\<lparr>st_pipeline := ComputePipeline i\<rparr>"
| "advance_binding (SetBindGroup i g) s = s\<lparr>st_groups := (st_groups s)[unat i := Some g]\<rparr>"
| "advance_binding (SetVertexBuffer b offset) s = s\<lparr>st_vertex := (st_vertex s)[0 := Some (b, offset)]\<rparr>"
| "advance_binding (SetVertexBufferSlot i b offset) s = s\<lparr>st_vertex := (st_vertex s)[unat i := Some (b, offset)]\<rparr>"
| "advance_binding (SetIndexBuffer b offset f) s = s\<lparr>st_index := Some (b, offset, f)\<rparr>"
| "advance_binding (SetTexture x) s = s\<lparr>st_texture := Some x\<rparr>"
| "advance_binding _ s = s"

definition stream_step :: "resource_table \<Rightarrow> command \<Rightarrow> stream \<Rightarrow> stream" where
  "stream_step t c s = (case c of
     ResourceBarrier b \<Rightarrow> s\<lparr>st_dirty := filter (\<lambda>sub. \<not> settles t b sub) (st_dirty s)\<rparr>
   | _ \<Rightarrow> (case work_of c of
       NotWork \<Rightarrow> advance_binding c s
     | DispatchWork \<Rightarrow> s\<lparr>st_dirty := st_dirty s @ written_reach (draw_uses t s)\<rparr>
     | DrawWork indexed _ _ _ _ \<Rightarrow>
         s\<lparr>st_dirty := st_dirty s @ written_reach (draw_uses t s),
           st_used := st_used s @ uses_reach t (draw_uses t s) @ draw_inputs t indexed s\<rparr>))"

definition replay_stream :: "resource_table \<Rightarrow> command list \<Rightarrow> stream" where
  "replay_stream t cs = fold (stream_step t) cs stream_start"

text \<open>A condition holds before every command of a stream.\<close>

fun holds_along :: "resource_table \<Rightarrow> (stream \<Rightarrow> command \<Rightarrow> bool) \<Rightarrow> stream \<Rightarrow> command list \<Rightarrow> bool" where
  "holds_along t P s [] \<longleftrightarrow> True"
| "holds_along t P s (c # cs) \<longleftrightarrow> P s c \<and> holds_along t P (stream_step t c s) cs"

section \<open>What replay may rely on\<close>

text \<open>Transfers, barriers and pass begins stand outside passes, the others in their kind of pass.\<close>

fun well_placed :: "stream \<Rightarrow> command \<Rightarrow> bool" where
  "well_placed s EndComputePass \<longleftrightarrow> st_pass s = InComputePass"
| "well_placed s (SetComputePipeline _) \<longleftrightarrow> st_pass s = InComputePass"
| "well_placed s (Dispatch _ _ _) \<longleftrightarrow> st_pass s = InComputePass"
| "well_placed s (SetBindGroup _ _) \<longleftrightarrow> st_pass s \<noteq> Outside"
| "well_placed s (SetPushConstants _ _ _) \<longleftrightarrow> st_pass s \<noteq> Outside \<and> st_pipeline s \<noteq> NoPipeline"
| "well_placed s (BlitTexture _ _ _ _ _ _ _ _) \<longleftrightarrow> st_pass s = Outside"
| "well_placed s (CopyBufferToBuffer _ _ _ _ _) \<longleftrightarrow> st_pass s = Outside"
| "well_placed s (CopyTextureToTexture _ _ _ _) \<longleftrightarrow> st_pass s = Outside"
| "well_placed s (WriteBuffer _ _ _) \<longleftrightarrow> st_pass s = Outside"
| "well_placed s (WriteTexture _ _) \<longleftrightarrow> st_pass s = Outside"
| "well_placed s (ResourceBarrier _) \<longleftrightarrow> st_pass s = Outside"
| "well_placed s BeginComputePass \<longleftrightarrow> st_pass s = Outside"
| "well_placed s (BeginRenderPass _) \<longleftrightarrow> st_pass s = Outside"
| "well_placed s _ \<longleftrightarrow> (\<exists>d. st_pass s = InRenderPass d)"

text \<open>Every subresource a command reads or writes.\<close>

fun transfer_reach :: "command \<Rightarrow> subresource list" where
  "transfer_reach (BlitTexture x xm y ym _ _ _ _) = [SubMip x xm, SubMip y ym]"
| "transfer_reach (CopyBufferToBuffer x _ y _ _) = [SubBuffer x, SubBuffer y]"
| "transfer_reach (CopyTextureToTexture x _ y _) = [SubMip x 0, SubMip y 0]"
| "transfer_reach (WriteBuffer b _ _) = [SubBuffer b]"
| "transfer_reach (WriteTexture x w) = [SubMip x (tw_mip w)]"
| "transfer_reach (BeginRenderPass d) = map (\<lambda>a. SubMip (ca_target a) 0) (color_attachments d) @
     (case rpd_depth d of None \<Rightarrow> [] | Some a \<Rightarrow> [SubMip (da_target a) 0])"
| "transfer_reach _ = []"

definition command_reach :: "resource_table \<Rightarrow> stream \<Rightarrow> command \<Rightarrow> subresource list" where
  "command_reach t s c = (case work_of c of
     NotWork \<Rightarrow> transfer_reach c
   | DispatchWork \<Rightarrow> uses_reach t (draw_uses t s)
   | DrawWork indexed _ _ _ _ \<Rightarrow> uses_reach t (draw_uses t s) @ draw_inputs t indexed s @ pass_attachments s)"

text \<open>Two bindings of one command reach a common resource only to read it.\<close>

definition exclusive_writes :: "resource_use list \<Rightarrow> bool" where
  "exclusive_writes uses \<longleftrightarrow> (\<forall>i < length uses. \<forall>j < length uses. i \<noteq> j \<longrightarrow>
     resource_alias (fst (uses ! i)) (fst (uses ! j)) \<longrightarrow> \<not> snd (uses ! i))"

text \<open>
  No command reaches a subresource with an unpublished write, a barrier that covers one names the
  write it publishes, and what a draw writes is neither an input of it, nor an attachment, nor
  something an earlier draw of its pass reached.
\<close>

fun barrier_names_write :: "resource_table \<Rightarrow> stream \<Rightarrow> command \<Rightarrow> bool" where
  "barrier_names_write t s (ResourceBarrier (BufferBarrier b before _)) \<longleftrightarrow>
     SubBuffer b \<in> set (st_dirty s) \<longrightarrow> before = BufStorageReadWrite"
| "barrier_names_write t s (ResourceBarrier (TextureBarrier x before _)) \<longleftrightarrow>
     set (whole_texture t x) \<inter> set (st_dirty s) \<noteq> {} \<longrightarrow> before = TexStorageWrite"
| "barrier_names_write t s (ResourceBarrier (TextureMipBarrier x mip before _)) \<longleftrightarrow>
     SubMip x mip \<in> set (st_dirty s) \<longrightarrow> before = TexStorageWrite"
| "barrier_names_write t s _ \<longleftrightarrow> True"

definition work_isolated :: "resource_table \<Rightarrow> stream \<Rightarrow> command \<Rightarrow> bool" where
  "work_isolated t s c = (case work_of c of
     NotWork \<Rightarrow> True
   | DispatchWork \<Rightarrow> exclusive_writes (draw_uses t s)
   | DrawWork indexed _ _ _ _ \<Rightarrow> exclusive_writes (draw_uses t s) \<and>
       set (written_reach (draw_uses t s)) \<inter>
         (set (draw_inputs t indexed s) \<union> set (pass_attachments s) \<union> set (st_used s)) = {})"

definition race_free :: "resource_table \<Rightarrow> stream \<Rightarrow> command \<Rightarrow> bool" where
  "race_free t s c \<longleftrightarrow> set (command_reach t s c) \<inter> set (st_dirty s) = {} \<and>
     barrier_names_write t s c \<and> work_isolated t s c"

section \<open>Bounds of every access\<close>

definition buffer_holds :: "resource_table \<Rightarrow> buffer_id \<Rightarrow> u64 \<Rightarrow> nat \<Rightarrow> bool" where
  "buffer_holds t b offset n \<longleftrightarrow> (case live_buffer t b of None \<Rightarrow> False
     | Some d \<Rightarrow> unat offset + n \<le> unat (buf_size d))"

definition rect_holds :: "resource_table \<Rightarrow> texture_id \<Rightarrow> u32 \<Rightarrow> pixel_rect \<Rightarrow> bool" where
  "rect_holds t x mip r \<longleftrightarrow> (case live_texture t x of None \<Rightarrow> False
     | Some d \<Rightarrow> (case mip_extent d mip of Inl _ \<Rightarrow> False | Inr e \<Rightarrow> rect_is_within r e))"

definition write_source_holds :: "resource_table \<Rightarrow> texture_id \<Rightarrow> texture_write \<Rightarrow> bool" where
  "write_source_holds t x w \<longleftrightarrow> (case live_texture t x of None \<Rightarrow> False
     | Some d \<Rightarrow> tw_layer w < tex_layers d \<and> (case bytes_per_pixel (tex_format d) of None \<Rightarrow> False
        | Some bpp \<Rightarrow> unat (tw_bytes_per_row w) * (unat (rect_height (tw_destination w)) - 1) +
                        unat (rect_width (tw_destination w)) * unat bpp \<le> length (tw_data w)))"

text \<open>The element of slot \<open>l\<close> read for vertex \<open>v\<close> of instance \<open>i\<close>.\<close>

definition element_of :: "vertex_layout \<Rightarrow> u32 \<Rightarrow> nat \<Rightarrow> nat \<Rightarrow> nat" where
  "element_of l first_instance v i =
     (if vl_step l = StepVertex then v else unat first_instance + i div unat (vl_divisor l))"

definition slot_holds :: "resource_table \<Rightarrow> (buffer_id \<times> u64) option \<Rightarrow> vertex_layout \<Rightarrow> nat \<Rightarrow> bool" where
  "slot_holds t slot l k \<longleftrightarrow> (case slot of None \<Rightarrow> False
     | Some (b, offset) \<Rightarrow> \<forall>a \<in> set (vl_attributes l).
         buffer_holds t b offset
           (k * unat (vl_stride l) + unat (va_offset a) + unat (vertex_byte_size (va_format a))))"

text \<open>
  The vertices a draw names itself; an indexed draw names none, its vertices come from index data
  that only the backend reads.
\<close>

definition named_vertices :: "bool \<Rightarrow> u32 \<Rightarrow> u32 \<Rightarrow> nat list" where
  "named_vertices indexed n first = (if indexed then [0] else [unat first ..< unat first + unat n])"

definition indices_hold :: "resource_table \<Rightarrow> bool \<Rightarrow> u32 \<Rightarrow> u32 \<Rightarrow> stream \<Rightarrow> bool" where
  "indices_hold t indexed n first s \<longleftrightarrow> (indexed \<longrightarrow> (case st_index s of None \<Rightarrow> False
     | Some (b, offset, f) \<Rightarrow> buffer_holds t b offset ((unat first + unat n) * unat (index_byte_size f))))"

definition draw_in_bounds :: "resource_table \<Rightarrow> bool \<Rightarrow> u32 \<Rightarrow> u32 \<Rightarrow> u32 \<Rightarrow> u32 \<Rightarrow> stream \<Rightarrow> bool" where
  "draw_in_bounds t indexed n first instances first_instance s \<longleftrightarrow>
     indices_hold t indexed n first s \<and>
     (case st_pipeline s of
        FixedPipeline i \<Rightarrow> (case with_pipeline t i of
            Inl _ \<Rightarrow> False
          | Inr p \<Rightarrow> accepts_count (rp_topology p) n \<and>
              (case st_vertex s ! 0 of None \<Rightarrow> False
               | Some (b, offset) \<Rightarrow> list_all (\<lambda>v. buffer_holds t b offset ((v + 1) * unat (vl_stride (rp_vertex p))))
                                     (named_vertices indexed n first)))
      | ProgrammablePipeline i \<Rightarrow> (case live_programmable t i of
            None \<Rightarrow> False
          | Some p \<Rightarrow> accepts_count (pp_topology p) n \<and> groups_match t (pp_layout p) (st_groups s) \<and>
              (\<forall>k < length (pp_vertex_buffers p). \<forall>v \<in> set (named_vertices indexed n first).
                 \<forall>j < unat instances.
                   slot_holds t (st_vertex s ! k) (pp_vertex_buffers p ! k)
                     (element_of (pp_vertex_buffers p ! k) first_instance v j)))
      | _ \<Rightarrow> False)"

fun in_bounds :: "resource_table \<Rightarrow> stream \<Rightarrow> command \<Rightarrow> bool" where
  "in_bounds t s (WriteBuffer b offset data) \<longleftrightarrow> buffer_holds t b offset (length data)"
| "in_bounds t s (CopyBufferToBuffer x xo y yo n) \<longleftrightarrow>
     buffer_holds t x xo (unat n) \<and> buffer_holds t y yo (unat n) \<and> x \<noteq> y"
| "in_bounds t s (WriteTexture x w) \<longleftrightarrow> rect_holds t x (tw_mip w) (tw_destination w) \<and> write_source_holds t x w"
| "in_bounds t s (BlitTexture x xm y ym xr yr _ _) \<longleftrightarrow>
     rect_holds t x xm xr \<and> rect_holds t y ym yr \<and> (x, xm) \<noteq> (y, ym)"
| "in_bounds t s (CopyTextureToTexture x xr y yr) \<longleftrightarrow>
     rect_holds t x 0 xr \<and> rect_holds t y 0 yr \<and> (x = y \<longrightarrow> \<not> rectangles_overlap xr yr)"
| "in_bounds t s (BeginRenderPass d) \<longleftrightarrow> rect_holds t (rpd_target d) 0 (rpd_area d)"
| "in_bounds t s (Dispatch x y z) \<longleftrightarrow> list_all (\<lambda>n. 0 < n \<and> n \<le> 65535) [x, y, z] \<and>
     (case st_pipeline s of
        ComputePipeline i \<Rightarrow> (case live_compute t i of None \<Rightarrow> False
          | Some p \<Rightarrow> groups_match t (cp_layout p) (st_groups s))
      | _ \<Rightarrow> False)"
| "in_bounds t s (Draw n first) \<longleftrightarrow> draw_in_bounds t False n first 1 0 s"
| "in_bounds t s (DrawInstanced n first instances first_instance) \<longleftrightarrow>
     draw_in_bounds t False n first instances first_instance s"
| "in_bounds t s (DrawIndexed n first _) \<longleftrightarrow> draw_in_bounds t True n first 1 0 s"
| "in_bounds t s (DrawIndexedInstanced n first _ instances first_instance) \<longleftrightarrow>
     draw_in_bounds t True n first instances first_instance s"
| "in_bounds t s _ \<longleftrightarrow> True"

section \<open>Appending to a stream\<close>

lemma replay_snoc [simp]: "replay_stream t (cs @ [c]) = stream_step t c (replay_stream t cs)"
  by (simp add: replay_stream_def)

lemma replay_Nil [simp]: "replay_stream t [] = stream_start"
  by (simp add: replay_stream_def)

lemma holds_along_snoc:
  "holds_along t P s (cs @ [c]) \<longleftrightarrow> holds_along t P s cs \<and> P (fold (stream_step t) cs s) c"
  by (induction cs arbitrary: s) auto

lemma holds_along_mono: "holds_along t P s cs \<Longrightarrow> (\<And>s c. P s c \<Longrightarrow> Q s c) \<Longrightarrow> holds_along t Q s cs"
  by (induction cs arbitrary: s) auto

lemma work_of_simps [simp]:
  "stream_step t (ResourceBarrier b) s = s\<lparr>st_dirty := filter (\<lambda>sub. \<not> settles t b sub) (st_dirty s)\<rparr>"
  by (simp add: stream_step_def)

end
