(* ===== verification/Encoder_Machine.thy ===== *)
theory Encoder_Machine
  imports Command_Stream
begin

text \<open>
  The encoders of \<^verbatim>\<open>crates/sgfx-core/src/ir/command.rs\<close> as one machine. Its state is a command
  encoder and the pass encoder that borrows it, if any; a step is one call, with the memory the call
  finds. While a pass encoder is alive its borrow keeps every method of the command encoder out of
  reach, which is why each rule fixes the kind of pass. A pass encoder may be dropped without
  \<open>end\<close>; the command encoder then stays inside the pass.
\<close>

section \<open>Steps\<close>

datatype open_pass = NoPass | InCompute compute_pass | InRender render_pass

type_synonym machine = "encoder \<times> open_pass"

definition opened :: "('a \<Rightarrow> open_pass) \<Rightarrow> 'a ir_result \<times> encoder \<Rightarrow> unit ir_result \<times> machine" where
  "opened wrap x = (case x of (Inl y, e) \<Rightarrow> (Inl y, e, NoPass) | (Inr p, e) \<Rightarrow> (Inr (), e, wrap p))"

definition closed :: "unit ir_result \<times> encoder \<Rightarrow> unit ir_result \<times> machine" where
  "closed x = (fst x, snd x, NoPass)"

definition within :: "('p \<Rightarrow> open_pass) \<Rightarrow> 'p pass_result \<Rightarrow> unit ir_result \<times> machine" where
  "within wrap x = (fst x, fst (snd x), wrap (snd (snd x)))"

text \<open>The methods of the command encoder.\<close>

datatype encoder_call =
    CallWriteBuffer buffer_id u64 "u8 list"
  | CallWriteTexture texture_id texture_write
  | CallBlitTexture texture_id u32 texture_id u32 filter_mode
  | CallBlitRegion texture_id u32 pixel_rect texture_id u32 pixel_rect filter_mode
  | CallBlitFlipped texture_id u32 pixel_rect texture_id u32 pixel_rect filter_mode "bool \<times> bool"
  | CallCopyTexture texture_id pixel_rect texture_id pixel_rect
  | CallCopyBuffer buffer_id u64 buffer_id u64 u64
  | CallBarrier resource_barrier
  | CallBeginCompute
  | CallBeginRender render_pass_desc

fun on_encoder :: "resource_table \<Rightarrow> encoder_alloc \<Rightarrow> encoder_call \<Rightarrow> encoder \<Rightarrow> unit ir_result \<times> machine" where
  "on_encoder t mem (CallWriteBuffer b offset data) e = closed (write_buffer t mem b offset data e)"
| "on_encoder t mem (CallWriteTexture x w) e = closed (write_texture t mem x w e)"
| "on_encoder t mem (CallBlitTexture x xm y ym f) e = closed (blit_texture t mem x xm y ym f e)"
| "on_encoder t mem (CallBlitRegion x xm xr y ym yr f) e = closed (blit_texture_region t mem x xm xr y ym yr f e)"
| "on_encoder t mem (CallBlitFlipped x xm xr y ym yr f flips) e =
     closed (blit_texture_region_flipped t mem x xm xr y ym yr f flips e)"
| "on_encoder t mem (CallCopyTexture x xr y yr) e = closed (copy_texture_to_texture t mem x xr y yr e)"
| "on_encoder t mem (CallCopyBuffer b bo c co n) e = closed (copy_buffer_to_buffer t mem b bo c co n e)"
| "on_encoder t mem (CallBarrier barrier) e = closed (enc_resource_barrier t mem barrier e)"
| "on_encoder t mem CallBeginCompute e = opened InCompute (begin_compute_pass mem e)"
| "on_encoder t mem (CallBeginRender d) e = opened InRender (begin_render_pass t mem d e)"

text \<open>The methods of a compute pass.\<close>

datatype compute_call =
    CallComputePushConstants shader_stages u32 "u8 list"
  | CallComputePipeline compute_pipeline_id
  | CallComputeGroup u32 bind_group_id
  | CallDispatch u32 u32 u32
  | CallEndCompute

fun on_compute ::
    "resource_table \<Rightarrow> encoder_alloc \<Rightarrow> compute_call \<Rightarrow> encoder \<times> compute_pass \<Rightarrow> unit ir_result \<times> machine"
where
  "on_compute t mem (CallComputePushConstants stages offset data) s =
     within InCompute (compute_set_push_constants t mem stages offset data s)"
| "on_compute t mem (CallComputePipeline i) s = within InCompute (compute_set_pipeline t mem i s)"
| "on_compute t mem (CallComputeGroup n g) s = within InCompute (compute_set_bind_group t mem n g s)"
| "on_compute t mem (CallDispatch x y z) s = within InCompute (dispatch t mem x y z s)"
| "on_compute t mem CallEndCompute s = closed (end_pass mem EndComputePass (fst s))"

text \<open>The methods of a render pass.\<close>

datatype render_call =
    CallPipeline plain_id
  | CallProgrammablePipeline programmable_pipeline_id
  | CallGroup u32 bind_group_id
  | CallPushConstants shader_stages u32 "u8 list"
  | CallVertexBuffer buffer_id u64
  | CallVertexSlot u32 buffer_id u64
  | CallIndexBuffer buffer_id u64 index_format
  | CallTexture texture_id
  | CallSampler plain_id
  | CallDrawIndex u32
  | CallUniforms draw_uniforms
  | CallScissor "pixel_rect option"
  | CallViewport viewport
  | CallDraw u32 u32
  | CallDrawIndexed u32 u32 i32
  | CallDrawInstanced u32 u32 u32 u32
  | CallDrawIndexedInstanced u32 u32 i32 u32 u32
  | CallEndRender

fun on_render ::
    "resource_table \<Rightarrow> encoder_alloc \<Rightarrow> render_call \<Rightarrow> encoder \<times> render_pass \<Rightarrow> unit ir_result \<times> machine"
where
  "on_render t mem (CallPipeline i) s = within InRender (set_pipeline t mem i s)"
| "on_render t mem (CallProgrammablePipeline i) s = within InRender (set_programmable_pipeline t mem i s)"
| "on_render t mem (CallGroup n g) s = within InRender (render_set_bind_group t mem n g s)"
| "on_render t mem (CallPushConstants stages offset data) s =
     within InRender (render_set_push_constants t mem stages offset data s)"
| "on_render t mem (CallVertexBuffer b offset) s = within InRender (set_vertex_buffer t mem b offset s)"
| "on_render t mem (CallVertexSlot n b offset) s = within InRender (set_vertex_buffer_slot t mem n b offset s)"
| "on_render t mem (CallIndexBuffer b offset f) s = within InRender (set_index_buffer t mem b offset f s)"
| "on_render t mem (CallTexture x) s = within InRender (set_texture t mem x s)"
| "on_render t mem (CallSampler i) s = within InRender (set_sampler t mem i s)"
| "on_render t mem (CallDrawIndex n) s = within InRender (set_draw_index mem n s)"
| "on_render t mem (CallUniforms u) s = within InRender (set_uniforms mem u s)"
| "on_render t mem (CallScissor sc) s = within InRender (set_scissor mem sc s)"
| "on_render t mem (CallViewport v) s = within InRender (set_viewport t mem v s)"
| "on_render t mem (CallDraw n first) s = within InRender (draw t mem n first s)"
| "on_render t mem (CallDrawIndexed n first base) s = within InRender (draw_indexed t mem n first base s)"
| "on_render t mem (CallDrawInstanced n first instances start) s =
     within InRender (draw_instanced t mem n first instances start s)"
| "on_render t mem (CallDrawIndexedInstanced n first base instances start) s =
     within InRender (draw_indexed_instanced t mem n first base instances start s)"
| "on_render t mem CallEndRender s = closed (end_pass mem EndRenderPass (fst s))"

inductive enc_step :: "resource_table \<Rightarrow> encoder_alloc \<Rightarrow> machine \<Rightarrow> unit ir_result \<times> machine \<Rightarrow> bool"
  for t :: resource_table and mem :: encoder_alloc
where
  Encoder_Call: "enc_step t mem (e, NoPass) (on_encoder t mem c e)"
| Compute_Call: "enc_step t mem (e, InCompute p) (on_compute t mem k (e, p))"
| Render_Call: "enc_step t mem (e, InRender q) (on_render t mem r (e, q))"
| Abandon: "enc_step t mem (e, p) (Inr (), e, NoPass)"

inductive_cases enc_stepE: "enc_step t mem (e, p) (r, e', p')"

inductive_simps enc_step_simps: "enc_step t mem (e, p) x"

lemma enc_step_iff:
  "enc_step t mem (e, p) (r, e', q) \<longleftrightarrow>
     (case p of NoPass \<Rightarrow> \<exists>c. on_encoder t mem c e = (r, e', q)
      | InCompute k \<Rightarrow> \<exists>c. on_compute t mem c (e, k) = (r, e', q)
      | InRender k \<Rightarrow> \<exists>c. on_render t mem c (e, k) = (r, e', q)) \<or> (r, e', q) = (Inr (), e, NoPass)"
  unfolding enc_step_simps by (cases p) (auto, metis+)

text \<open>The machines a client of one encoder can reach, each call finding the memory it finds.\<close>

inductive enc_reach :: "resource_table \<Rightarrow> encoder \<Rightarrow> machine \<Rightarrow> bool" for t :: resource_table and e :: encoder where
  Start: "enc_reach t e (e, NoPass)"
| Call: "enc_reach t e m \<Longrightarrow> enc_step t mem m (r, m') \<Longrightarrow> enc_reach t e m'"

section \<open>What one call does to the encoder\<close>

lemma closed_eq: "(r, e, p) = closed x \<longleftrightarrow> x = (r, e) \<and> p = NoPass"
  by (cases x) (auto simp: closed_def)

lemma within_eq: "(r, e, p) = within wrap x \<longleftrightarrow> (\<exists>q. x = (r, e, q) \<and> p = wrap q)"
  by (cases x) (auto simp: within_def)

lemma opened_eq:
  "(Inl y, e, p) = opened wrap x \<longleftrightarrow> x = (Inl y, e) \<and> p = NoPass"
  "(Inr u, e, p) = opened wrap x \<longleftrightarrow> (\<exists>q. x = (Inr q, e) \<and> p = wrap q)"
  by (cases x; auto simp: opened_def split: sum.splits)+

lemmas call_eqs = closed_eq within_eq opened_eq

lemma call_results:
  "closed x = (r, e, p) \<longleftrightarrow> x = (r, e) \<and> p = NoPass"
  "within wrap y = (r, e, p) \<longleftrightarrow> (\<exists>q. y = (r, e, q) \<and> p = wrap q)"
  "opened wrap' z = (Inl err, e, p) \<longleftrightarrow> z = (Inl err, e) \<and> p = NoPass"
  "opened wrap' z = (Inr u, e, p) \<longleftrightarrow> (\<exists>q. z = (Inr q, e) \<and> p = wrap' q)"
  using call_eqs by metis+

lemma enc_push_Inr:
  "enc_push mem c e = (Inr u, e') \<longleftrightarrow>
     en_count e < MAX_COMMANDS - (if en_pass_open e then 1 else 0) \<and> (en_validation_only e \<or> mem SiteCommand) \<and>
     (let e1 = fold consume_access (consumed_by c) e
      in e' = e1\<lparr>en_count := en_count e1 + 1,
                en_commands := if en_validation_only e1 then en_commands e1 else en_commands e1 @ [c]\<rparr>)"
  by (auto simp: enc_push_def Let_def not_le split: if_splits)

lemma enc_push_Inl: "enc_push mem c e = (Inl x, e') \<Longrightarrow> e' = e"
  by (auto simp: enc_push_def Let_def split: if_splits)

lemma consume_fields [simp]:
  "en_commands (consume_access r e) = en_commands e" "en_count (consume_access r e) = en_count e"
  "en_validation_only (consume_access r e) = en_validation_only e"
  "en_pass_open (consume_access r e) = en_pass_open e" "en_pending (consume_access r e) = en_pending e"
  by (simp_all add: consume_access_def)

lemma consume_fold_fields [simp]:
  "en_commands (fold consume_access rs e) = en_commands e"
  "en_count (fold consume_access rs e) = en_count e"
  "en_validation_only (fold consume_access rs e) = en_validation_only e"
  "en_pass_open (fold consume_access rs e) = en_pass_open e"
  "en_pending (fold consume_access rs e) = en_pending e"
  by (induction rs arbitrary: e) simp_all

lemma settle_fields [simp]:
  "en_commands (settle a e) = en_commands e" "en_count (settle a e) = en_count e"
  "en_validation_only (settle a e) = en_validation_only e" "en_pass_open (settle a e) = en_pass_open e"
  by (cases a; simp add: Let_def)+

lemma settle_fold_fields [simp]:
  "en_commands (fold settle as e) = en_commands e" "en_count (fold settle as e) = en_count e"
  "en_validation_only (fold settle as e) = en_validation_only e"
  "en_pass_open (fold settle as e) = en_pass_open e"
  by (induction as arbitrary: e) simp_all

text \<open>A call that records one command, keeps the pass open or closed and adds the given pending writes.\<close>

definition records :: "command \<Rightarrow> pending_write list \<Rightarrow> encoder \<Rightarrow> encoder \<Rightarrow> bool" where
  "records c writes e e' \<longleftrightarrow> en_count e < MAX_COMMANDS - (if en_pass_open e then 1 else 0) \<and>
     en_commands e' = (if en_validation_only e then en_commands e else en_commands e @ [c]) \<and>
     en_count e' = en_count e + 1 \<and> en_validation_only e' = en_validation_only e \<and>
     en_pass_open e' = en_pass_open e \<and> en_pending e' = en_pending e @ writes"

lemma enc_push_records: "enc_push mem c e = (Inr u, e') \<Longrightarrow> records c [] e e'"
  by (auto simp: enc_push_Inr Let_def records_def)

lemma record_with_writes_records:
  "record_with_writes mem c g e = (Inr u, e') \<Longrightarrow> records c (ga_writes g) e e'"
  by (auto simp: record_with_writes_def then_do_Inr Let_def dest!: enc_push_records simp: records_def split: if_splits)

lemma record_with_writes_Inl: "record_with_writes mem c g e = (Inl x, e') \<Longrightarrow> e' = e"
  by (auto simp: record_with_writes_def then_do_Inl Let_def dest: enc_push_Inl)

lemma checked_push_Inr:
  "checked_push checks mem c e = (Inr u, e') \<Longrightarrow> checks = Inr () \<and> records c [] e e'"
  by (auto simp: checked_push_def then_do_Inr dest: enc_push_records)

lemma checked_push_Inl: "checked_push checks mem c e = (Inl x, e') \<Longrightarrow> e' = e"
  by (auto simp: checked_push_def then_do_Inl dest: enc_push_Inl)

lemma setter_Inr:
  "setter checks bound mem c f (e, p) = (Inr u, e', p') \<Longrightarrow>
     checks = Inr () \<and> (bound \<and> e' = e \<and> p' = p \<or> \<not> bound \<and> records c [] e e' \<and> p' = f p)"
  by (auto simp: setter_def push_in_pass_def split: sum.splits prod.splits if_splits dest: enc_push_records)

lemma setter_Inl: "setter checks bound mem c f (e, p) = (Inl x, e', p') \<Longrightarrow> e' = e \<and> p' = p"
  by (auto simp: setter_def push_in_pass_def split: sum.splits prod.splits if_splits dest: enc_push_Inl)

section \<open>Failed calls change nothing\<close>

lemmas transfer_defs = write_buffer_def write_texture_def blit_texture_region_def blit_texture_region_flipped_def
  copy_texture_to_texture_def copy_buffer_to_buffer_def

lemmas setter_defs = compute_set_push_constants_def compute_set_pipeline_def compute_set_bind_group_def
  set_pipeline_def set_programmable_pipeline_def render_set_bind_group_def render_set_push_constants_def
  set_vertex_buffer_def set_index_buffer_def set_texture_def set_sampler_def set_draw_index_def
  set_uniforms_def set_scissor_def set_viewport_def

lemma transfer_Inl:
  "write_buffer t mem b offset data e = (Inl x, e') \<Longrightarrow> e' = e"
  "write_texture t mem y w e = (Inl x, e') \<Longrightarrow> e' = e"
  "blit_texture_region_flipped t mem y ym yr z zm zr smoothing flips e = (Inl x, e') \<Longrightarrow> e' = e"
  "blit_texture_region t mem y ym yr z zm zr smoothing e = (Inl x, e') \<Longrightarrow> e' = e"
  "copy_texture_to_texture t mem y yr z zr e = (Inl x, e') \<Longrightarrow> e' = e"
  "copy_buffer_to_buffer t mem b bo c co n e = (Inl x, e') \<Longrightarrow> e' = e"
  by (auto simp: transfer_defs dest: checked_push_Inl)

lemma blit_texture_Inl: "blit_texture t mem y ym z zm smoothing e = (Inl x, e') \<Longrightarrow> e' = e"
  by (auto simp: blit_texture_def then_do_Inl dest: transfer_Inl)

lemma barrier_Inl: "enc_resource_barrier t mem b e = (Inl x, e') \<Longrightarrow> e' = e"
  by (auto simp: enc_resource_barrier_def then_do_Inl split: if_splits dest: enc_push_Inl)

lemma begin_Inl:
  "begin_compute_pass mem e = (Inl x, e') \<Longrightarrow> e' = e"
  "begin_render_pass t mem d e = (Inl x, e') \<Longrightarrow> e' = e"
  by (auto simp: begin_compute_pass_def begin_render_pass_def then_do_Inl dest: enc_push_Inl)

lemma end_pass_Inl: "end_pass mem c e = (Inl x, e') \<Longrightarrow> e' = e \<and> x \<in> {OutOfMemory, CommandLimitExceeded}"
  by (auto simp: end_pass_def push_pass_end_def then_do_Inl split: if_splits)

lemma record_fixed_Inl: "record_fixed mem c used (e, p) = (Inl x, e', p') \<Longrightarrow> e' = e \<and> p' = p"
  by (auto simp: record_fixed_def split: sum.splits prod.splits dest: enc_push_Inl)

lemma record_programmable_Inl: "record_programmable mem c g (e, p) = (Inl x, e', p') \<Longrightarrow> e' = e \<and> p' = p"
  by (auto simp: record_programmable_def split: sum.splits prod.splits dest: record_with_writes_Inl)

lemma dispatch_Inl: "dispatch t mem x y z (e, p) = (Inl err, e', p') \<Longrightarrow> e' = e \<and> p' = p"
  by (auto simp: dispatch_def split: sum.splits prod.splits dest: record_with_writes_Inl)

lemma draw_Inl:
  "draw_programmable t mem n first instances start (e, p) = (Inl err, e', p') \<Longrightarrow> e' = e \<and> p' = p"
  "draw_indexed_programmable t mem n first base instances start (e, p) = (Inl err, e', p') \<Longrightarrow> e' = e \<and> p' = p"
  "draw_fixed t mem n first (e, p) = (Inl err, e', p') \<Longrightarrow> e' = e \<and> p' = p"
  "draw_indexed_fixed t mem n first base (e, p) = (Inl err, e', p') \<Longrightarrow> e' = e \<and> p' = p"
  by (auto simp: draw_programmable_def draw_indexed_programmable_def draw_fixed_def draw_indexed_fixed_def
      split: sum.splits dest: record_fixed_Inl record_programmable_Inl)

lemma vertex_slot_Inl:
  "set_vertex_buffer_slot t mem n b offset (e, p) = (Inl err, e', p') \<Longrightarrow> e' = e \<and> p' = p"
  by (auto simp: set_vertex_buffer_slot_def set_vertex_buffer_def split: if_splits dest: setter_Inl)

lemma failed_step:
  assumes "enc_step t mem m (Inl x, m')"
  shows "fst m' = fst m \<and> (snd m' = snd m \<or> snd m' = NoPass \<and> x \<in> {OutOfMemory, CommandLimitExceeded})"
proof -
  obtain e p e' p' where m: "m = (e, p)" "m' = (e', p')" by (cases m; cases m') blast
  from assms [unfolded m] show ?thesis
  proof cases
    case (Encoder_Call c)
    then show ?thesis unfolding m by (cases c) (auto simp: call_eqs dest: transfer_Inl blit_texture_Inl barrier_Inl begin_Inl)
  next
    case (Compute_Call p k)
    then show ?thesis unfolding m
      by (cases k) (auto simp: call_eqs setter_defs dest: setter_Inl dispatch_Inl end_pass_Inl)
  next
    case (Render_Call q k)
    then show ?thesis unfolding m
      by (cases k) (auto simp: call_eqs setter_defs draw_def draw_indexed_def draw_instanced_def
          draw_indexed_instanced_def split: if_splits dest: setter_Inl draw_Inl vertex_slot_Inl end_pass_Inl)
  qed
qed

text \<open>
  C26. A call that reports an error leaves the command encoder as it was: no command, count, pending
  write or announcement changes. The pass encoder is unchanged too, except that \<open>end\<close> consumes it
  whatever it returns, and \<open>end\<close> can only fail for memory or the command limit.
\<close>

theorem failed_calls_change_nothing:
  assumes "enc_step t mem m (Inl x, m')"
  shows "fst m' = fst m \<and> (snd m' = snd m \<or> snd m' = NoPass \<and> x \<in> {OutOfMemory, CommandLimitExceeded})"
  using assms by (rule failed_step)

text \<open>A barrier that finds no memory.\<close>

theorem failed_calls_change_nothing_witness:
  "enc_step (table_new 0) (\<lambda>_. False) (encoder_new, NoPass) (Inl OutOfMemory, encoder_new, NoPass) \<and>
   fst (encoder_new, NoPass) = encoder_new"
proof -
  have step: "enc_step (table_new 0) (\<lambda>_. False) (encoder_new, NoPass) (Inl OutOfMemory, encoder_new, NoPass)"
    using Encoder_Call [of "table_new 0" "\<lambda>_. False" encoder_new "CallBarrier GlobalBarrier"]
    by (simp add: enc_resource_barrier_def ensure_outside_pass_def encoder_new_def enc_push_def closed_def)
  from failed_calls_change_nothing [OF step] step show ?thesis by simp
qed

section \<open>The validation-only encoder\<close>

text \<open>What a validation-only encoder keeps of a recording one: everything but the commands.\<close>

definition shadow :: "encoder \<Rightarrow> encoder" where
  "shadow e = e\<lparr>en_validation_only := True, en_commands := []\<rparr>"

definition shadowed :: "'a \<times> encoder \<Rightarrow> 'a \<times> encoder" where
  "shadowed x = (fst x, shadow (snd x))"

definition shadowed_pass :: "'a \<times> encoder \<times> 'p \<Rightarrow> 'a \<times> encoder \<times> 'p" where
  "shadowed_pass x = (fst x, shadow (fst (snd x)), snd (snd x))"

lemma shadow_fields [simp]:
  "en_count (shadow e) = en_count e" "en_pass_open (shadow e) = en_pass_open e"
  "en_pending (shadow e) = en_pending e" "en_announced (shadow e) = en_announced e"
  "en_validation_only (shadow e)" "en_commands (shadow e) = []"
  by (simp_all add: shadow_def)

lemma shadowed_pair [simp]: "shadowed (r, e) = (r, shadow e)" "shadowed_pass (r, e, p) = (r, shadow e, p)"
  by (simp_all add: shadowed_def shadowed_pass_def)

lemma shadow_checks [simp]:
  "ensure_outside_pass (shadow e) = ensure_outside_pass e"
  "check_buffer_access (shadow e) b ba = check_buffer_access e b ba"
  "mip_pending (shadow e) x m = mip_pending e x m"
  "mip_announced_otherwise (shadow e) x m xa = mip_announced_otherwise e x m xa"
  "check_texture_mip_access t (shadow e) x m xa = check_texture_mip_access t e x m xa"
  "reserve_pass_begin (shadow e) = reserve_pass_begin e"
  by (simp_all add: ensure_outside_pass_def check_buffer_access_def mip_pending_def mip_announced_otherwise_def
      check_texture_mip_access_def reserve_pass_begin_def)

lemma shadow_texture_checks [simp]:
  "check_texture_access t (shadow e) x xa = check_texture_access t e x xa"
  "validate_texture_transition t (shadow e) x m before after = validate_texture_transition t e x m before after"
  by (simp_all add: check_texture_access_def validate_texture_transition_def)

lemma shadow_announces [simp]: "barrier_announces t mem (shadow e) b = barrier_announces t mem e b"
  by (cases b) simp_all

lemma shadow_binding [simp]: "binding_check t (shadow e) att vs ix r ty = binding_check t e att vs ix r ty"
  by (cases r) simp_all

lemma shadow_bindings [simp]: "check_bindings t mem (shadow e) att vs ix ps uses = check_bindings t mem e att vs ix ps uses"
  by (induction t mem e att vs ix ps uses rule: check_bindings.induct) (simp_all add: Let_def)

lemma shadow_groups_fun: "check_groups t mem (shadow e) att vs ix gs = check_groups t mem e att vs ix gs"
proof (induction gs)
  case (Cons g gs)
  then show ?case by (cases g) (rule ext, simp)
qed (simp add: fun_eq_iff)

lemma shadow_validate [simp]:
  "validate_groups t mem (shadow e) layout groups att vs ix = validate_groups t mem e layout groups att vs ix"
  "validate_draw t (shadow e) p n = validate_draw t e p n"
  by (simp_all add: validate_groups_def shadow_groups_fun validate_draw_def cong: option.case_cong)

lemma shadow_formats [simp]: "color_formats_of t (shadow e) as = color_formats_of t e as"
  by (induction as) simp_all

lemma shadow_consume [simp]: "consume_access r (shadow e) = shadow (consume_access r e)"
  by (simp add: shadow_def consume_access_def)

lemma shadow_consume_fold [simp]: "fold consume_access rs (shadow e) = shadow (fold consume_access rs e)"
  by (induction rs arbitrary: e) simp_all

lemma shadow_settle [simp]: "settle a (shadow e) = shadow (settle a e)"
  by (cases a) (simp_all add: Let_def shadow_def consume_access_def)

lemma shadow_settle_fold [simp]: "fold settle as (shadow e) = shadow (fold settle as e)"
  by (induction as arbitrary: e) simp_all

lemma shadow_open [simp]: "shadow (e\<lparr>en_pass_open := b\<rparr>) = (shadow e)\<lparr>en_pass_open := b\<rparr>"
  by (simp add: shadow_def)

lemma shadow_counted [simp]:
  "(shadow e)\<lparr>en_count := n, en_commands := []\<rparr> = shadow (e\<lparr>en_count := n\<rparr>)"
  "shadow (e\<lparr>en_commands := cs\<rparr>) = shadow e"
  "shadow (e\<lparr>en_count := n, en_commands := cs\<rparr>) = shadow (e\<lparr>en_count := n\<rparr>)"
  "(shadow e)\<lparr>en_pending := ps\<rparr> = shadow (e\<lparr>en_pending := ps\<rparr>)"
  by (simp_all add: shadow_def)

lemma shadow_push: "mem SiteCommand \<Longrightarrow> enc_push mem c (shadow e) = shadowed (enc_push mem c e)"
  by (simp add: enc_push_def Let_def)

lemma shadow_checked_push:
  "mem SiteCommand \<Longrightarrow> checked_push checks mem c (shadow e) = shadowed (checked_push checks mem c e)"
  by (cases checks) (simp_all add: checked_push_def shadow_push)

lemma shadow_setter:
  "mem SiteCommand \<Longrightarrow> setter checks bound mem c f (shadow e, p) = shadowed_pass (setter checks bound mem c f (e, p))"
  by (cases checks; cases "enc_push mem c e"; cases "fst (enc_push mem c e)")
    (auto simp: setter_def push_in_pass_def shadow_push)

lemma shadow_record:
  assumes "mem SiteCommand"
  shows "record_with_writes mem c g (shadow e) = shadowed (record_with_writes mem c g e)"
proof (cases "enc_push mem c e")
  case (Pair r e')
  with assms show ?thesis
    by (cases r; cases "reserve mem SitePendingWrites")
      (simp_all add: record_with_writes_def shadow_push Let_def)
qed

lemma shadow_transfers:
  assumes "mem SiteCommand"
  shows "write_buffer t mem b offset data (shadow e) = shadowed (write_buffer t mem b offset data e)"
    and "write_texture t mem x w (shadow e) = shadowed (write_texture t mem x w e)"
    and "blit_texture_region_flipped t mem y ym yr z zm zr smoothing flips (shadow e) =
           shadowed (blit_texture_region_flipped t mem y ym yr z zm zr smoothing flips e)"
    and "copy_texture_to_texture t mem y yr z zr (shadow e) = shadowed (copy_texture_to_texture t mem y yr z zr e)"
    and "copy_buffer_to_buffer t mem b bo c co n (shadow e) = shadowed (copy_buffer_to_buffer t mem b bo c co n e)"
  using assms by (simp_all add: transfer_defs shadow_checked_push write_buffer_checks_def write_texture_checks_def
      blit_checks_def copy_texture_checks_def copy_buffer_checks_def)

lemma shadow_blits:
  assumes "mem SiteCommand"
  shows "blit_texture_region t mem y ym yr z zm zr smoothing (shadow e) =
           shadowed (blit_texture_region t mem y ym yr z zm zr smoothing e)"
    and "blit_texture t mem y ym z zm smoothing (shadow e) = shadowed (blit_texture t mem y ym z zm smoothing e)"
  using assms by (auto simp: blit_texture_region_def blit_texture_def then_do_def shadow_transfers split: sum.splits)

lemma shadow_barrier:
  assumes "mem SiteCommand"
  shows "enc_resource_barrier t mem b (shadow e) = shadowed (enc_resource_barrier t mem b e)"
proof (cases "enc_push mem (ResourceBarrier b) e")
  case (Pair r e')
  with assms show ?thesis
    by (cases r) (auto simp: enc_resource_barrier_def then_do_def shadow_push split: sum.splits)
qed

lemma shadow_begin:
  assumes "mem SiteCommand"
  shows "begin_compute_pass mem (shadow e) = shadowed (begin_compute_pass mem e)"
    and "begin_render_pass t mem d (shadow e) = shadowed (begin_render_pass t mem d e)"
proof -
  show "begin_compute_pass mem (shadow e) = shadowed (begin_compute_pass mem e)"
    using assms by (auto simp: begin_compute_pass_def then_do_def shadow_push split: sum.splits prod.splits)
  have "begin_render_checks t d (shadow e) = begin_render_checks t d e"
    by (simp add: begin_render_checks_def cong: option.case_cong)
  with assms show "begin_render_pass t mem d (shadow e) = shadowed (begin_render_pass t mem d e)"
    by (auto simp: begin_render_pass_def then_do_def shadow_push split: sum.splits prod.splits)
qed

lemma shadow_end: "mem SiteCommand \<Longrightarrow> end_pass mem c (shadow e) = shadowed (end_pass mem c e)"
  by (simp add: end_pass_def push_pass_end_def)

lemma shadow_dispatch:
  "mem SiteCommand \<Longrightarrow> dispatch t mem x y z (shadow e, p) = shadowed_pass (dispatch t mem x y z (e, p))"
  by (auto simp: dispatch_def shadow_record shadowed_def shadowed_pass_def split: sum.splits prod.splits)

lemma shadow_record_fixed:
  "mem SiteCommand \<Longrightarrow> record_fixed mem c used (shadow e, p) = shadowed_pass (record_fixed mem c used (e, p))"
  by (cases "enc_push mem c e"; cases "fst (enc_push mem c e)")
    (auto simp: record_fixed_def shadow_push)

lemma shadow_record_programmable:
  "mem SiteCommand \<Longrightarrow> record_programmable mem c g (shadow e, p) = shadowed_pass (record_programmable mem c g (e, p))"
  by (cases "record_with_writes mem c g e"; cases "fst (record_with_writes mem c g e)")
    (auto simp: record_programmable_def shadow_record)

lemma shadow_draw_checks [simp]:
  "draw_fixed_checks t mem n first (shadow e, p) = draw_fixed_checks t mem n first (e, p)"
  "draw_indexed_fixed_checks t mem n first (shadow e, p) = draw_indexed_fixed_checks t mem n first (e, p)"
  by (simp_all add: draw_fixed_checks_def draw_indexed_fixed_checks_def Let_def)

lemma shadow_slot [simp]: "vertex_slot_check t (shadow e, p) a b c = vertex_slot_check t (e, p) a b c"
proof
  fix sl :: "nat \<times> vertex_layout"
  show "vertex_slot_check t (shadow e, p) a b c sl = vertex_slot_check t (e, p) a b c sl"
    by (cases sl) (simp add: vertex_slot_check_def)
qed

lemma shadow_writes [simp]: "programmable_writes t mem d indexed (shadow e, p) = programmable_writes t mem d indexed (e, p)"
  by (simp add: programmable_writes_def Let_def)

lemma shadow_programmable_checks [simp]:
  "draw_programmable_checks t mem n first instances start (shadow e, p) =
     draw_programmable_checks t mem n first instances start (e, p)"
  "draw_indexed_programmable_checks t mem n first instances start (shadow e, p) =
     draw_indexed_programmable_checks t mem n first instances start (e, p)"
  by (simp_all add: draw_programmable_checks_def draw_indexed_programmable_checks_def)

lemma shadow_draws:
  assumes "mem SiteCommand"
  shows "draw_fixed t mem n first (shadow e, p) = shadowed_pass (draw_fixed t mem n first (e, p))"
    and "draw_indexed_fixed t mem n first base (shadow e, p) = shadowed_pass (draw_indexed_fixed t mem n first base (e, p))"
    and "draw_programmable t mem n first instances start (shadow e, p) =
           shadowed_pass (draw_programmable t mem n first instances start (e, p))"
    and "draw_indexed_programmable t mem n first base instances start (shadow e, p) =
           shadowed_pass (draw_indexed_programmable t mem n first base instances start (e, p))"
  using assms by (simp_all add: draw_fixed_def draw_indexed_fixed_def draw_programmable_def
      draw_indexed_programmable_def shadow_record_fixed shadow_record_programmable split: sum.split)

lemma shadow_vertex_slot:
  "mem SiteCommand \<Longrightarrow> set_vertex_buffer_slot t mem n b offset (shadow e, p) =
     shadowed_pass (set_vertex_buffer_slot t mem n b offset (e, p))"
  by (simp add: set_vertex_buffer_slot_def set_vertex_buffer_def shadow_setter)

lemmas shadow_calls = shadow_transfers shadow_blits shadow_barrier shadow_begin shadow_end shadow_dispatch
  shadow_draws shadow_vertex_slot shadow_setter

definition shadowed_machine :: "'a \<times> machine \<Rightarrow> 'a \<times> machine" where
  "shadowed_machine x = (fst x, shadow (fst (snd x)), snd (snd x))"

lemma shadowed_machine_eq: "shadowed_machine x = (r, s, q) \<longleftrightarrow> (\<exists>e. x = (r, e, q) \<and> s = shadow e)"
  by (cases x) (auto simp: shadowed_machine_def)

lemma shadow_wraps:
  "closed (shadowed x) = shadowed_machine (closed x)"
  "opened wrap (shadowed y) = shadowed_machine (opened wrap y)"
  "within wrap' (shadowed_pass z) = shadowed_machine (within wrap' z)"
  by (cases x; cases y; cases z; simp add: closed_def opened_def within_def shadowed_machine_def split: sum.split)+

lemma shadow_on:
  assumes "mem SiteCommand"
  shows "on_encoder t mem c (shadow e) = shadowed_machine (on_encoder t mem c e)"
    and "on_compute t mem k (shadow e, p) = shadowed_machine (on_compute t mem k (e, p))"
    and "on_render t mem r (shadow e, q) = shadowed_machine (on_render t mem r (e, q))"
proof -
  show "on_encoder t mem c (shadow e) = shadowed_machine (on_encoder t mem c e)"
    using assms by (cases c) (simp_all add: shadow_calls shadow_wraps)
  show "on_compute t mem k (shadow e, p) = shadowed_machine (on_compute t mem k (e, p))"
    using assms by (cases k) (simp_all add: setter_defs shadow_calls shadow_wraps)
  show "on_render t mem r (shadow e, q) = shadowed_machine (on_render t mem r (e, q))"
    using assms by (cases r) (simp_all add: setter_defs draw_def draw_indexed_def draw_instanced_def
        draw_indexed_instanced_def shadow_calls shadow_wraps cong: option.case_cong)
qed

text \<open>
  C27. When the memory for a command is there, a validation-only encoder takes exactly the calls a
  recording encoder takes, with the same results and errors and the same passes; it only keeps no
  commands. Checking a stream this way before it is recorded is therefore exact.
\<close>

theorem validation_encoder_is_exact:
  assumes "mem SiteCommand"
  shows "enc_step t mem (shadow e, p) (r, s, q) \<longleftrightarrow> (\<exists>e'. enc_step t mem (e, p) (r, e', q) \<and> s = shadow e')"
  by (cases p) (auto simp: enc_step_iff shadow_on assms shadowed_machine_eq)

text \<open>Beginning a compute pass.\<close>

theorem validation_encoder_is_exact_witness:
  "enc_step (table_new 0) (\<lambda>_. True) (for_validation, NoPass)
     (Inr (), for_validation\<lparr>en_count := 1, en_pass_open := True\<rparr>,
      InCompute \<lparr>cps_pipeline = None, cps_groups = replicate MAX_BIND_GROUPS None\<rparr>)"
proof -
  have pass: "begin_compute_pass (\<lambda>_. True) encoder_new =
      (Inr \<lparr>cps_pipeline = None, cps_groups = replicate MAX_BIND_GROUPS None\<rparr>,
       encoder_new\<lparr>en_commands := [BeginComputePass], en_count := 1, en_pass_open := True\<rparr>)"
    by (simp add: begin_compute_pass_def ensure_outside_pass_def reserve_pass_begin_def enc_push_def encoder_new_def)
  have step: "enc_step (table_new 0) (\<lambda>_. True) (encoder_new, NoPass)
      (Inr (), encoder_new\<lparr>en_commands := [BeginComputePass], en_count := 1, en_pass_open := True\<rparr>,
       InCompute \<lparr>cps_pipeline = None, cps_groups = replicate MAX_BIND_GROUPS None\<rparr>)"
    using Encoder_Call [of "table_new 0" "\<lambda>_. True" encoder_new CallBeginCompute]
    by (simp add: pass opened_def)
  have "shadow encoder_new = for_validation"
    by (simp add: shadow_def for_validation_def encoder_new_def)
  then show ?thesis
    using validation_encoder_is_exact [where mem = "\<lambda>_. True" and e = encoder_new and t = "table_new 0" and p = NoPass
        and r = "Inr ()" and q = "InCompute \<lparr>cps_pipeline = None, cps_groups = replicate MAX_BIND_GROUPS None\<rparr>"
        and s = "for_validation\<lparr>en_count := 1, en_pass_open := True\<rparr>"] step
    by (auto simp: shadow_def for_validation_def encoder_new_def)
qed

end
