(* ===== verification/Encoder_Safety.thy ===== *)
theory Encoder_Safety
  imports Encoder_Machine
begin

text \<open>
  Every stream an encoder records replays safely: the invariant that ties an encoder and its pass to the
  replay of what they recorded, its preservation by each call, and the properties that follow.
\<close>

section \<open>Pending writes and subresources\<close>

text \<open>A subresource that pending writes keep from being reached.\<close>

fun covers :: "pending_write list \<Rightarrow> subresource \<Rightarrow> bool" where
  "covers ps (SubBuffer b) \<longleftrightarrow> PwBuffer b \<in> set ps"
| "covers ps (SubMip x m) \<longleftrightarrow> PwTextureMip x m \<in> set ps \<or> m = 0 \<and> PwTexture x \<in> set ps"

fun use_key :: "subresource \<Rightarrow> pending_write" where
  "use_key (SubBuffer b) = PwBuffer b"
| "use_key (SubMip x m) = PwTextureMip x m"

definition used_covers :: "pending_write list \<Rightarrow> subresource \<Rightarrow> bool" where
  "used_covers ps sub \<longleftrightarrow> (\<exists>q \<in> set ps. pw_aliases (use_key sub) q)"

lemma covers_append [simp]: "covers (ps @ qs) sub \<longleftrightarrow> covers ps sub \<or> covers qs sub"
  by (cases sub) auto

lemma used_covers_append [simp]: "used_covers (ps @ qs) sub \<longleftrightarrow> used_covers ps sub \<or> used_covers qs sub"
  by (auto simp: used_covers_def)

lemma used_covers_simps [simp]:
  "\<not> used_covers [] sub"
  "used_covers (q # qs) sub \<longleftrightarrow> pw_aliases (use_key sub) q \<or> used_covers qs sub"
  by (auto simp: used_covers_def)

lemma pw_alias_iff [simp]:
  "pw_aliases (PwBuffer a) q \<longleftrightarrow> q = PwBuffer a"
  "pw_aliases (PwTextureMip x m) q \<longleftrightarrow> q = PwTexture x \<or> (\<exists>k. q = PwTextureMip x k)"
  "pw_aliases (PwTexture x) q \<longleftrightarrow> q = PwTexture x \<or> (\<exists>k. q = PwTextureMip x k)"
  by (cases q; auto)+

section \<open>What the access checks promise\<close>

lemma buffer_access_free: "check_buffer_access e b a = Inr () \<Longrightarrow> \<not> covers (en_pending e) (SubBuffer b)"
  by (auto simp: check_buffer_access_def split: if_splits)

lemma mip_access_free: "check_texture_mip_access t e x m a = Inr () \<Longrightarrow> \<not> covers (en_pending e) (SubMip x m)"
  by (auto simp: check_texture_mip_access_def mip_pending_def result_simps split: if_splits)

lemma texture_access_free:
  "check_texture_access t e x a = Inr () \<Longrightarrow> sub \<in> set (whole_texture t x) \<Longrightarrow> \<not> covers (en_pending e) sub"
  by (auto simp: check_texture_access_def whole_texture_def result_simps table_iff for_each_Inr
      dest!: mip_access_free)

lemma whole_texture_sub: "sub \<in> set (whole_texture t x) \<Longrightarrow> \<exists>m. sub = SubMip x m"
  by (auto simp: whole_texture_def split: option.splits)

lemma vertex_reach_iff [simp]: "sub \<in> set (vertex_reach vs) \<longleftrightarrow> (\<exists>b offset. sub = SubBuffer b \<and> Some (b, offset) \<in> set vs)"
  by (force simp: vertex_reach_def List.map_filter_def)

lemma binding_reach_free:
  assumes "binding_check t e att vs ix r ty = Inr ()" and "sub \<in> set (resource_reach t r)"
  shows "\<not> covers (en_pending e) sub"
  using assms
  by (cases r) (auto simp: result_simps ref_iff for_each_Inr
      dest!: buffer_access_free mip_access_free texture_access_free)

lemma binding_written_apart:
  assumes "binding_check t e att vs ix r ty = Inr ()" and "binding_writes ty" and "sub \<in> set (resource_written r)"
  shows "sub \<notin> set (vertex_reach vs)" and "ix = Some b \<Longrightarrow> sub \<noteq> SubBuffer b"
    and "x \<in> set att \<Longrightarrow> sub \<noteq> SubMip x m"
  using assms
  by (cases r; force simp: result_simps ref_iff list_ex_iff buffer_ref_eq_def split: option.splits)+

section \<open>What the group checks promise\<close>

lemma exclusive_Nil [simp]: "exclusive_writes []"
  by (simp add: exclusive_writes_def)

lemma exclusive_snoc:
  assumes "exclusive_writes us" and "\<forall>v \<in> set us. resource_alias (fst u) (fst v) \<longrightarrow> \<not> snd u \<and> \<not> snd v"
  shows "exclusive_writes (us @ [u])"
  unfolding exclusive_writes_def
proof (intro allI impI)
  fix i j
  assume *: "i < length (us @ [u])" "j < length (us @ [u])" "i \<noteq> j"
    "resource_alias (fst ((us @ [u]) ! i)) (fst ((us @ [u]) ! j))"
  consider "i < length us" "j < length us" | "i = length us" "j < length us" | "i < length us" "j = length us"
    using * by fastforce
  then show "\<not> snd ((us @ [u]) ! i)"
  proof cases
    case 1
    with assms(1) * show ?thesis by (auto simp: exclusive_writes_def nth_append)
  next
    case 2
    with assms(2) * show ?thesis by (auto simp: nth_append)
  next
    case 3
    with assms(2) * show ?thesis
      by (auto simp: nth_append resource_alias_sym [of "fst (us ! i)"])
  qed
qed

definition as_uses :: "(bind_group_entry \<times> layout_entry) list \<Rightarrow> resource_use list" where
  "as_uses ps = map (\<lambda>(e, l). (be_resource e, binding_writes (le_ty l))) ps"

text \<open>A use whose binding passed its check.\<close>

definition vetted :: "resource_table \<Rightarrow> encoder \<Rightarrow> texture_id list \<Rightarrow> vertex_bindings \<Rightarrow> buffer_id option \<Rightarrow> resource_use \<Rightarrow> bool" where
  "vetted t e att vs ix u \<longleftrightarrow> (\<exists>ty. snd u = binding_writes ty \<and> binding_check t e att vs ix (fst u) ty = Inr ())"

lemma check_bindings_Inr:
  "check_bindings t mem e att vs ix ps uses = Inr uses' \<Longrightarrow> exclusive_writes uses \<Longrightarrow>
     uses' = uses @ as_uses ps \<and> exclusive_writes uses' \<and> (\<forall>u \<in> set (as_uses ps). vetted t e att vs ix u)"
proof (induction ps arbitrary: uses)
  case (Cons p ps)
  obtain en l where p: "p = (en, l)" by (cases p)
  let ?u = "(be_resource en, binding_writes (le_ty l))"
  from Cons.prems(1) have ok: "binding_check t e att vs ix (be_resource en) (le_ty l) = Inr ()"
    "\<not> list_ex (\<lambda>(other, w). resource_alias (be_resource en) other \<and> (binding_writes (le_ty l) \<or> w)) uses"
    "check_bindings t mem e att vs ix ps (uses @ [?u]) = Inr uses'"
    by (auto simp: p Let_def result_simps)
  have "exclusive_writes (uses @ [?u])"
    using Cons.prems(2) ok(2) by (intro exclusive_snoc) (auto simp: list_ex_iff)
  from Cons.IH [OF ok(3) this] ok(1) show ?case
    by (auto simp: p as_uses_def vetted_def)
qed (simp add: as_uses_def)

lemma group_uses_Some:
  "live_bind_group t g = Some d \<Longrightarrow> group_uses t (Some g) = as_uses (zip (bg_entries d) (bg_layout d))"
  by (simp add: group_uses_def as_uses_def)

lemma check_groups_Inr:
  "check_groups t mem e att vs ix gs uses = Inr uses' \<Longrightarrow> exclusive_writes uses \<Longrightarrow>
     (let new = concat (map (\<lambda>(_, slot). group_uses t slot) gs)
      in uses' = uses @ new \<and> exclusive_writes uses' \<and> (\<forall>u \<in> set new. vetted t e att vs ix u)) \<and>
     list_all (\<lambda>(expected, slot). (case Option.bind slot (live_bind_group t) of
         None \<Rightarrow> expected = [] \<and> slot = None | Some d \<Rightarrow> bg_layout d = expected)) gs"
proof (induction gs arbitrary: uses)
  case (Cons g gs)
  obtain expected slot where g: "g = (expected, slot)" by (cases g)
  show ?case
  proof (cases "expected = [] \<and> slot = None")
    case True
    with Cons.prems Cons.IH [of uses] show ?thesis
      by (auto simp: g group_uses_def Let_def)
  next
    case False
    with Cons.prems(1) obtain i d mid where d: "slot = Some i" "live_bind_group t i = Some d" "bg_layout d = expected"
      and mid: "check_bindings t mem e att vs ix (zip (bg_entries d) expected) uses = Inr mid"
        "check_groups t mem e att vs ix gs mid = Inr uses'"
      by (auto simp: g result_simps table_iff)
    from check_bindings_Inr [OF mid(1) Cons.prems(2)]
    have step: "mid = uses @ group_uses t slot" "exclusive_writes mid"
      "\<forall>u \<in> set (group_uses t slot). vetted t e att vs ix u"
      using d by (auto simp: group_uses_Some)
    from Cons.IH [OF mid(2) step(2)] step d show ?thesis
      by (auto simp: g Let_def)
  qed
qed simp

lemma validate_groups_Inr:
  assumes "validate_groups t mem e layout groups att vs ix = Inr g"
  shows "exclusive_writes (bound_uses t layout groups)" and "groups_match t layout groups"
    and "\<forall>u \<in> set (bound_uses t layout groups). vetted t e att vs ix u"
    and "ga_writes g = concat (map (\<lambda>(r, w). if w then resource_keys r else []) (bound_uses t layout groups))"
    and "ga_used g = concat (map (\<lambda>(r, w). resource_keys r) (bound_uses t layout groups)) @ vertex_keys vs @ index_keys ix"
  using assms check_groups_Inr [of t mem e att vs ix "zip (pl_bind_groups layout) groups" "[]"]
  by (auto simp: validate_groups_def result_simps bound_uses_def groups_match_def Let_def)

lemma uses_reach_iff: "sub \<in> set (uses_reach t us) \<longleftrightarrow> (\<exists>u \<in> set us. sub \<in> set (resource_reach t (fst u)))"
  by (force simp: uses_reach_def)

lemma written_reach_iff:
  "sub \<in> set (written_reach us) \<longleftrightarrow> (\<exists>u \<in> set us. snd u \<and> sub \<in> set (resource_written (fst u)))"
  by (auto simp: written_reach_def split: if_splits prod.splits) force+

lemma vetted_free: "\<forall>u \<in> set us. vetted t e att vs ix u \<Longrightarrow> sub \<in> set (uses_reach t us) \<Longrightarrow> \<not> covers (en_pending e) sub"
  unfolding uses_reach_iff vetted_def using binding_reach_free by metis

lemma vetted_apart:
  assumes "\<forall>u \<in> set us. vetted t e att vs ix u" and "sub \<in> set (written_reach us)"
  shows "sub \<notin> set (vertex_reach vs)" and "ix = Some b \<Longrightarrow> sub \<noteq> SubBuffer b"
    and "x \<in> set att \<Longrightarrow> sub \<noteq> SubMip x m"
  using assms unfolding written_reach_iff vetted_def by (metis binding_written_apart)+

lemma written_key: "sub \<in> set (resource_written r) \<Longrightarrow> covers (resource_keys r) sub"
  by (cases r) auto

lemma reach_key: "sub \<in> set (resource_reach t r) \<Longrightarrow> used_covers (resource_keys r) sub"
  by (cases r) (auto simp: used_covers_def dest!: whole_texture_sub)

section \<open>The invariant\<close>

definition legal :: "resource_table \<Rightarrow> stream \<Rightarrow> command \<Rightarrow> bool" where
  "legal t s c \<longleftrightarrow> well_placed s c \<and> race_free t s c \<and> in_bounds t s c"

text \<open>The recorded commands replay to \<open>s\<close>, legally, and pending writes cover what is dirty there.\<close>

definition core :: "resource_table \<Rightarrow> encoder \<Rightarrow> stream \<Rightarrow> bool" where
  "core t e s \<longleftrightarrow> \<not> en_validation_only e \<and> en_count e = length (en_commands e) \<and>
     s = replay_stream t (en_commands e) \<and> holds_along t (legal t) stream_start (en_commands e) \<and>
     (\<forall>sub \<in> set (st_dirty s). covers (en_pending e) sub) \<and>
     en_count e + (if en_pass_open e then 1 else 0) \<le> MAX_COMMANDS"

definition compute_agrees :: "compute_pass \<Rightarrow> stream \<Rightarrow> bool" where
  "compute_agrees c s \<longleftrightarrow> st_pass s = InComputePass \<and> st_groups s = cps_groups c \<and>
     st_pipeline s = (case cps_pipeline c of None \<Rightarrow> NoPipeline | Some i \<Rightarrow> ComputePipeline i)"

definition render_bound :: "render_pass \<Rightarrow> bound_pipeline" where
  "render_bound r = (case rps_pipeline r of Some i \<Rightarrow> FixedPipeline i
     | None \<Rightarrow> (case rps_programmable r of Some i \<Rightarrow> ProgrammablePipeline i | None \<Rightarrow> NoPipeline))"

definition attached :: "render_pass \<Rightarrow> texture_id list" where
  "attached r = List.map_filter id (rps_color_targets r) @
     (case rps_depth_target r of None \<Rightarrow> [] | Some d \<Rightarrow> if rps_depth_read_only r then [] else [d])"

definition render_agrees :: "render_pass \<Rightarrow> stream \<Rightarrow> bool" where
  "render_agrees r s \<longleftrightarrow> (\<exists>d. st_pass s = InRenderPass d) \<and>
     pass_attachments s = map (\<lambda>x. SubMip x 0) (attached r) \<and>
     (rps_pipeline r = None \<or> rps_programmable r = None) \<and> st_pipeline s = render_bound r \<and>
     st_groups s = rps_groups r \<and> st_vertex s = rps_vertex_buffers r \<and> rps_vertex_buffers r \<noteq> [] \<and>
     st_index s = rps_index r \<and> st_texture s = rps_texture r \<and>
     (\<forall>sub \<in> set (st_used s). used_covers (rps_used r) sub) \<and>
     (\<forall>x \<in> set (attached r). SubMip x 0 \<notin> set (st_dirty s))"

fun agrees :: "open_pass \<Rightarrow> encoder \<Rightarrow> stream \<Rightarrow> bool" where
  "agrees NoPass e s \<longleftrightarrow> (en_pass_open e \<longleftrightarrow> st_pass s \<noteq> Outside)"
| "agrees (InCompute c) e s \<longleftrightarrow> en_pass_open e \<and> compute_agrees c s"
| "agrees (InRender r) e s \<longleftrightarrow> en_pass_open e \<and> render_agrees r s"

definition tracks :: "resource_table \<Rightarrow> machine \<Rightarrow> stream \<Rightarrow> bool" where
  "tracks t m s \<longleftrightarrow> core t (fst m) s \<and> agrees (snd m) (fst m) s"

lemma advance_dirty [simp]: "st_dirty (advance_binding c s) = st_dirty s"
  by (cases c) (simp_all add: enter_def)

text \<open>Commands that touch no resource.\<close>

fun is_barrier :: "command \<Rightarrow> bool" where
  "is_barrier (ResourceBarrier _) \<longleftrightarrow> True"
| "is_barrier _ \<longleftrightarrow> False"

definition quiet :: "command \<Rightarrow> bool" where
  "quiet c \<longleftrightarrow> work_of c = NotWork \<and> transfer_reach c = [] \<and> \<not> is_barrier c"

lemma step_binding: "work_of c = NotWork \<Longrightarrow> \<not> is_barrier c \<Longrightarrow> stream_step t c s = advance_binding c s"
  by (cases c) (simp_all add: stream_step_def)

lemma quiet_step: "quiet c \<Longrightarrow> stream_step t c s = advance_binding c s"
  by (simp add: quiet_def step_binding)

lemma barrier_free [simp]: "\<not> is_barrier c \<Longrightarrow> barrier_names_write t s c"
  by (cases c) simp_all

lemma quiet_legal: "quiet c \<Longrightarrow> well_placed s c \<Longrightarrow> legal t s c"
  by (cases c) (simp_all add: quiet_def legal_def race_free_def command_reach_def work_isolated_def
      color_attachments_def)

lemma core_record:
  assumes "core t e s" and "records c writes e e'" and "legal t s c"
    and "\<forall>sub \<in> set (st_dirty (stream_step t c s)). covers (en_pending e @ writes) sub"
  shows "core t e' (stream_step t c s)"
  using assms by (auto simp: core_def records_def holds_along_snoc replay_stream_def [symmetric])

lemma core_quiet:
  assumes "core t e s" and "records c [] e e'" and "quiet c" and "well_placed s c"
  shows "core t e' (advance_binding c s)"
proof -
  have "\<forall>sub \<in> set (st_dirty (stream_step t c s)). covers (en_pending e @ []) sub"
    using assms(1,3) by (simp add: quiet_step core_def)
  from core_record [OF assms(1,2) quiet_legal [OF assms(3,4)] this] assms(3) show ?thesis
    by (simp add: quiet_step)
qed

text \<open>A transfer that reaches only free subresources.\<close>

lemma core_transfer:
  assumes "core t e s" and "records c [] e e'" and "work_of c = NotWork" and "\<not> is_barrier c"
    and "\<forall>sub \<in> set (transfer_reach c). \<not> covers (en_pending e) sub" and "well_placed s c" and "in_bounds t s c"
  shows "core t e' (advance_binding c s)"
proof -
  have "legal t s c"
    using assms by (auto simp: legal_def race_free_def command_reach_def work_isolated_def core_def)
  moreover have "\<forall>sub \<in> set (st_dirty (stream_step t c s)). covers (en_pending e @ []) sub"
    using assms(1,3,4) by (simp add: step_binding core_def)
  ultimately have "core t e' (stream_step t c s)" by (rule core_record [OF assms(1,2)])
  with assms(3,4) show ?thesis by (simp add: step_binding)
qed

section \<open>Transfers\<close>

lemma byte_range_ok: "validate_byte_range offset n limit = Inr () \<longleftrightarrow> unat offset + unat n \<le> unat limit"
proof (cases "unat offset + unat n < 2 ^ 64")
  case True
  then have "unat (offset + n) = unat offset + unat n" by (simp add: unat_word_ariths)
  with True show ?thesis by (simp add: validate_byte_range_def checked_add_def word_le_nat_alt)
next
  case False
  have "unat limit < 2 ^ 64" using unat_bounds(4) [of limit] by simp
  with False have "\<not> unat offset + unat n \<le> unat limit" by linarith
  with False show ?thesis by (simp add: validate_byte_range_def checked_add_def)
qed

lemma checked_SomeD:
  "checked_add a b = Some c \<Longrightarrow> unat c = unat a + unat b"
  "checked_mul a b = Some c \<Longrightarrow> unat c = unat a * unat b"
  unfolding checked_add_Some checked_mul_Some by blast+

lemma mip_access_live:
  "check_texture_mip_access t e x m a = Inr () \<Longrightarrow> \<exists>d extent. live_texture t x = Some d \<and> mip_extent d m = Inr extent"
  by (auto simp: check_texture_mip_access_def result_simps table_iff)

lemma write_buffer_in_bounds:
  assumes "write_buffer_checks t b offset data e = Inr ()"
  shows "\<not> en_pass_open e \<and> in_bounds t s (WriteBuffer b offset data) \<and> \<not> covers (en_pending e) (SubBuffer b)"
proof -
  from assms obtain d where d: "live_buffer t b = Some d" "length data < 2 ^ 64"
      "validate_byte_range offset (of_nat (length data)) (buf_size d) = Inr ()"
      "check_buffer_access e b BufCopyDestination = Inr ()" "\<not> en_pass_open e"
    by (auto simp: write_buffer_checks_def result_simps table_iff ensure_outside_pass_def split: if_splits)
  then have "unat (of_nat (length data) :: u64) = length data" by (simp add: unat_of_nat)
  with d show ?thesis using buffer_access_free [OF d(4)] by (simp add: byte_range_ok buffer_holds_def)
qed

lemma copy_buffer_in_bounds:
  assumes "copy_buffer_checks t x xo y yo n e = Inr ()"
  shows "\<not> en_pass_open e \<and> in_bounds t s (CopyBufferToBuffer x xo y yo n) \<and>
    \<not> covers (en_pending e) (SubBuffer x) \<and> \<not> covers (en_pending e) (SubBuffer y)"
  using assms by (auto simp: copy_buffer_checks_def result_simps table_iff ensure_outside_pass_def byte_range_ok
      buffer_holds_def buffer_ref_eq_def split: if_splits dest!: buffer_access_free)

lemma same_texture_Inr:
  "same_texture t x y = Inr b \<Longrightarrow> x = y \<Longrightarrow> b"
  by (auto simp: same_texture_def result_simps)

lemma blit_in_bounds:
  assumes "blit_checks t x xm xr y ym yr e = Inr ()"
  shows "\<not> en_pass_open e \<and> in_bounds t s (BlitTexture x xm y ym xr yr f flips) \<and>
    \<not> covers (en_pending e) (SubMip x xm) \<and> \<not> covers (en_pending e) (SubMip y ym)"
  using assms by (auto simp: blit_checks_def result_simps table_iff ensure_outside_pass_def rect_holds_def
      split: if_splits dest!: mip_access_free dest: same_texture_Inr)

lemma mip_zero_contains:
  assumes "mip_extent d 0 = Inr extent" and "rect_is_within r (tex_extent d)"
  shows "rect_is_within r extent"
proof -
  have "x \<le> max x (1 :: u32)" for x by simp
  then show ?thesis using assms
    by (auto simp: mip_extent_def extent2d_new_def rect_is_within_def split: if_splits intro: order_trans)
qed

lemma copy_texture_in_bounds:
  assumes "copy_texture_checks t x xr y yr e = Inr ()"
  shows "\<not> en_pass_open e \<and> in_bounds t s (CopyTextureToTexture x xr y yr) \<and>
    \<not> covers (en_pending e) (SubMip x 0) \<and> \<not> covers (en_pending e) (SubMip y 0)"
proof -
  from assms obtain dx dy where live: "live_texture t x = Some dx" "live_texture t y = Some dy"
      "rect_is_within xr (tex_extent dx)" "rect_is_within yr (tex_extent dy)"
    and free: "check_texture_mip_access t e x 0 TexCopySource = Inr ()"
      "check_texture_mip_access t e y 0 TexCopyDestination = Inr ()"
    and rest: "\<not> en_pass_open e" "x = y \<longrightarrow> \<not> rectangles_overlap xr yr"
    by (auto simp: copy_texture_checks_def result_simps table_iff ensure_outside_pass_def split: if_splits
        dest: same_texture_Inr)
  from mip_access_live [OF free(1)] mip_access_live [OF free(2)] live rest
  show ?thesis using mip_access_free [OF free(1)] mip_access_free [OF free(2)]
    by (auto simp: rect_holds_def intro: mip_zero_contains)
qed

lemma rows_before_last: "unat h - 1 \<le> unat (h - 1 :: u32)"
  by (cases "h = 0") (simp_all add: unat_minus_one)

lemma write_texture_in_bounds:
  assumes "write_texture_checks t x w e = Inr ()"
  shows "\<not> en_pass_open e \<and> in_bounds t s (WriteTexture x w) \<and> \<not> covers (en_pending e) (SubMip x (tw_mip w))"
proof -
  let ?r = "tw_destination w"
  from assms obtain d extent bpp tight rows required where d: "live_texture t x = Some d" "\<not> en_pass_open e"
      "\<not> tw_layer w \<ge> tex_layers d" "mip_extent d (tw_mip w) = Inr extent" "rect_is_within ?r extent"
      "bytes_per_pixel (tex_format d) = Some bpp" "checked_mul (rect_width ?r) bpp = Some tight"
      "checked_mul (ucast (tw_bytes_per_row w) :: u64) (ucast (rect_height ?r - 1)) = Some rows"
      "checked_add rows (ucast tight) = Some required"
      "length (tw_data w) < 2 ^ 64" "\<not> (of_nat (length (tw_data w)) :: u64) < required"
    and free: "check_texture_mip_access t e x (tw_mip w) TexCopyDestination = Inr ()"
    by (auto simp: write_texture_checks_def result_simps table_iff ensure_outside_pass_def bind_eq_Some_conv not_le
        split: if_splits)
  have tight: "unat tight = unat (rect_width ?r) * unat bpp" using checked_SomeD(2) [OF d(7)] .
  have rows: "unat rows = unat (tw_bytes_per_row w) * unat (rect_height ?r - 1)"
    using checked_SomeD(2) [OF d(8)] by (simp only: unat_ucast_u64)
  have "unat required = unat rows + unat tight"
    using checked_SomeD(1) [OF d(9)] by (simp only: unat_ucast_u64)
  moreover have "unat required \<le> length (tw_data w)"
    using d(10,11) by (simp add: word_less_nat_alt unat_of_nat)
  moreover have "unat (tw_bytes_per_row w) * (unat (rect_height ?r) - 1) \<le> unat rows"
    unfolding rows by (rule mult_le_mono2 [OF rows_before_last])
  ultimately have "unat (tw_bytes_per_row w) * (unat (rect_height ?r) - 1) + unat (rect_width ?r) * unat bpp
      \<le> length (tw_data w)" using tight by linarith
  with d mip_access_free [OF free] show ?thesis
    by (simp add: rect_holds_def write_source_holds_def not_le)
qed

lemma outside_placed: "core t e s \<Longrightarrow> agrees NoPass e s \<Longrightarrow> \<not> en_pass_open e \<Longrightarrow> st_pass s = Outside"
  by simp

text \<open>A transfer whose checks imply that it is in bounds and reaches only free subresources.\<close>

lemma transfer_tracked:
  assumes tracks: "tracks t (e, NoPass) s"
    and call: "checked_push checks mem c e = (Inr u, e')"
    and checks: "checks = Inr () \<Longrightarrow> \<not> en_pass_open e \<and> in_bounds t s c \<and>
        (\<forall>sub \<in> set (transfer_reach c). \<not> covers (en_pending e) sub)"
    and c: "work_of c = NotWork" "\<not> is_barrier c" "advance_binding c s = s"
      "well_placed s c \<longleftrightarrow> st_pass s = Outside"
  shows "tracks t (e', NoPass) s"
proof -
  from checked_push_Inr [OF call] have rec: "records c [] e e'" and ok: "checks = Inr ()" by auto
  from checks [OF ok] tracks have "core t e' (advance_binding c s)"
    by (intro core_transfer [OF _ rec c(1,2)]) (auto simp: tracks_def c(4))
  with rec tracks c(3) show ?thesis by (auto simp: tracks_def records_def)
qed

lemma transfers_tracked:
  assumes "tracks t (e, NoPass) s"
  shows "write_buffer t mem b offset data e = (Inr u, e') \<Longrightarrow> tracks t (e', NoPass) s"
    and "write_texture t mem x w e = (Inr u, e') \<Longrightarrow> tracks t (e', NoPass) s"
    and "blit_texture_region_flipped t mem x xm xr y ym yr f flips e = (Inr u, e') \<Longrightarrow> tracks t (e', NoPass) s"
    and "copy_texture_to_texture t mem x xr y yr e = (Inr u, e') \<Longrightarrow> tracks t (e', NoPass) s"
    and "copy_buffer_to_buffer t mem b bo c co n e = (Inr u, e') \<Longrightarrow> tracks t (e', NoPass) s"
  unfolding transfer_defs
  subgoal by (erule transfer_tracked [OF assms], drule write_buffer_in_bounds [where s = s], simp_all)
  subgoal by (erule transfer_tracked [OF assms], drule write_texture_in_bounds [where s = s], simp_all)
  subgoal by (erule transfer_tracked [OF assms], drule blit_in_bounds [where s = s and f = f and flips = flips], simp_all)
  subgoal by (erule transfer_tracked [OF assms], drule copy_texture_in_bounds [where s = s], simp_all)
  subgoal by (erule transfer_tracked [OF assms], drule copy_buffer_in_bounds [where s = s], simp_all)
  done

lemma blits_tracked:
  assumes "tracks t (e, NoPass) s"
  shows "blit_texture_region t mem x xm xr y ym yr f e = (Inr u, e') \<Longrightarrow> tracks t (e', NoPass) s"
    and "blit_texture t mem x xm y ym f e = (Inr u, e') \<Longrightarrow> tracks t (e', NoPass) s"
  using transfers_tracked(3) [OF assms]
  by (auto simp: blit_texture_region_def blit_texture_def then_do_Inr)

section \<open>Barriers\<close>

lemma core_step:
  assumes "core t e s" and "legal t s c" and "en_commands e' = en_commands e @ [c]"
    and "en_count e' = en_count e + 1" and "\<not> en_validation_only e'"
    and "en_count e' + (if en_pass_open e' then 1 else 0) \<le> MAX_COMMANDS"
    and "\<forall>sub \<in> set (st_dirty (stream_step t c s)). covers (en_pending e') sub"
  shows "core t e' (stream_step t c s)"
  using assms by (auto simp: core_def holds_along_snoc replay_stream_def [symmetric])

lemma coreD:
  assumes "core t e s"
  shows "\<not> en_validation_only e" and "en_count e = length (en_commands e)"
    and "sub \<in> set (st_dirty s) \<Longrightarrow> covers (en_pending e) sub"
    and "en_count e + (if en_pass_open e then 1 else 0) \<le> MAX_COMMANDS"
  using assms by (auto simp: core_def)

lemma core_begin:
  assumes core: "core t e s" and e1: "records c [] e e1" and c: "legal t s c" "work_of c = NotWork" "\<not> is_barrier c"
    and room: "\<not> en_count e > MAX_COMMANDS - 2"
  shows "core t (e1\<lparr>en_pass_open := True\<rparr>) (advance_binding c s)"
proof -
  have "core t (e1\<lparr>en_pass_open := True\<rparr>) (stream_step t c s)"
    using e1 coreD [OF core] room
    by (intro core_step [OF core c(1)]) (auto simp: records_def step_binding [OF c(2,3)])
  then show ?thesis by (simp add: step_binding [OF c(2,3)])
qed

fun announced_sub :: "announced_access \<Rightarrow> subresource" where
  "announced_sub (AnnBuffer b _) = SubBuffer b"
| "announced_sub (AnnTexture x m _) = SubMip x m"

lemma settle_keeps: "covers (en_pending e) sub \<Longrightarrow> sub \<noteq> announced_sub a \<Longrightarrow> covers (en_pending (settle a e)) sub"
  by (cases a; cases sub) (auto simp: Let_def)

lemma settle_fold_keeps:
  "covers (en_pending e) sub \<Longrightarrow> \<forall>a \<in> set as. sub \<noteq> announced_sub a \<Longrightarrow> covers (en_pending (fold settle as e)) sub"
  by (induction as arbitrary: e) (simp_all add: settle_keeps)

lemma transition_ok:
  "validate_texture_transition t e x m before after = Inr () \<Longrightarrow> covers (en_pending e) (SubMip x m) \<Longrightarrow> before = TexStorageWrite"
  by (auto simp: validate_texture_transition_def mip_pending_def result_simps)

lemma barrier_announces_ok:
  assumes "barrier_announces t mem e b = Inr ann" and "b \<noteq> GlobalBarrier"
    and "\<forall>sub \<in> set (st_dirty s). covers (en_pending e) sub"
  shows "barrier_names_write t s (ResourceBarrier b)" and "a \<in> set ann \<Longrightarrow> settles t b (announced_sub a)"
  using assms
  by (cases b; fastforce simp: result_simps table_iff whole_texture_def for_each_Inr dest: transition_ok)+

lemma barrier_tracked:
  assumes tracks: "tracks t (e, NoPass) s" and call: "enc_resource_barrier t mem b e = (Inr u, e')"
  shows "\<exists>s'. tracks t (e', NoPass) s'"
proof -
  let ?c = "ResourceBarrier b" and ?s = "stream_step t (ResourceBarrier b) s"
  from tracks have core: "core t e s" and dirty: "\<forall>sub \<in> set (st_dirty s). covers (en_pending e) sub"
    by (auto simp: tracks_def core_def)
  from call tracks have out: "st_pass s = Outside" "\<not> en_pass_open e"
    by (auto simp: enc_resource_barrier_def then_do_Inr ensure_outside_pass_def tracks_def split: if_splits)
  obtain e1 where e1: "records ?c [] e e1"
    and same: "en_commands e' = en_commands e1" "en_count e' = en_count e1"
      "en_validation_only e' = en_validation_only e1" "en_pass_open e' = en_pass_open e1"
    and names: "barrier_names_write t s ?c"
    and settled: "\<forall>sub \<in> set (st_dirty ?s). covers (en_pending e') sub"
  proof (cases "b = GlobalBarrier")
    case True
    with call show thesis
      by (auto simp: enc_resource_barrier_def then_do_Inr dest!: enc_push_records intro!: that)
  next
    case False
    with call obtain ann e1 where ann: "barrier_announces t mem e b = Inr ann"
        and push: "enc_push mem ?c e = (Inr (), e1)" and e': "e' = fold settle ann e1"
      by (auto simp: enc_resource_barrier_def then_do_Inr result_simps)
    note rec = enc_push_records [OF push]
    note ok = barrier_announces_ok [OF ann False dirty]
    show thesis
    proof (rule that [OF rec])
      have "en_pending e1 = en_pending e" using rec by (simp add: records_def)
      then show "\<forall>sub \<in> set (st_dirty ?s). covers (en_pending e') sub"
        using dirty ok(2) by (auto simp: e' intro!: settle_fold_keeps)
    qed (simp_all add: e' ok(1))
  qed
  have "legal t s ?c"
    using out names by (simp add: legal_def race_free_def command_reach_def work_isolated_def)
  then have "core t e' ?s"
    using e1 same coreD [OF core] settled out by (intro core_step [OF core]) (auto simp: records_def)
  with out e1 same show ?thesis
    by (intro exI [of _ ?s]) (auto simp: tracks_def records_def)
qed

section \<open>Beginning and ending passes\<close>

lemma begin_compute_tracked:
  assumes tracks: "tracks t (e, NoPass) s" and call: "begin_compute_pass mem e = (Inr p, e')"
  shows "\<exists>s'. tracks t (e', InCompute p) s'"
proof -
  from call obtain e1 where e1: "records BeginComputePass [] e e1" and e': "e' = e1\<lparr>en_pass_open := True\<rparr>"
    and room: "\<not> en_count e > MAX_COMMANDS - 2" "\<not> en_pass_open e"
    and p: "p = \<lparr>cps_pipeline = None, cps_groups = replicate MAX_BIND_GROUPS None\<rparr>"
    by (auto simp: begin_compute_pass_def then_do_Inr ensure_outside_pass_def reserve_pass_begin_def
        dest!: enc_push_records split: if_splits)
  from tracks room have core: "core t e s" and "st_pass s = Outside" by (auto simp: tracks_def)
  then have "legal t s BeginComputePass" by (intro quiet_legal) (simp_all add: quiet_def)
  from core_begin [OF core e1 this _ _ room(1)] have "core t e' (enter InComputePass s)" by (simp add: e')
  then show ?thesis
    by (intro exI [of _ "enter InComputePass s"]) (simp add: tracks_def e' p compute_agrees_def enter_def)
qed

lemma color_formats_checked:
  "color_formats_of t e as = Inr fs \<Longrightarrow> a \<in> set as \<Longrightarrow> check_texture_mip_access t e (ca_target a) 0 TexRenderAttachment = Inr ()"
  by (induction as arbitrary: fs) (auto simp: result_simps)

lemma flatten_pad [simp]: "List.map_filter id (pad n xs) = xs"
  by (simp add: pad_def List.map_filter_def comp_def)

lemma head_attachment: "\<exists>a \<in> set (color_attachments d). ca_target a = rpd_target d"
  by (simp add: color_attachments_def)

lemma begin_render_tracked:
  assumes tracks: "tracks t (e, NoPass) s" and call: "begin_render_pass t mem d e = (Inr p, e')"
  shows "\<exists>s'. tracks t (e', InRender p) s'"
proof -
  let ?c = "BeginRenderPass d" and ?s = "enter (InRenderPass d) s"
  from call obtain x df fs e1 where checks: "begin_render_checks t d e = Inr (x, df, fs)"
    and e1: "records ?c [] e e1" and e': "e' = e1\<lparr>en_pass_open := True\<rparr>"
    and p: "List.map_filter id (rps_color_targets p) = map ca_target (color_attachments d)"
      "rps_depth_target p = map_option da_target (rpd_depth d)"
      "rps_depth_read_only p = (case rpd_depth d of None \<Rightarrow> False | Some a \<Rightarrow> da_read_only a)"
      "rps_pipeline p = None" "rps_programmable p = None" "rps_groups p = replicate MAX_BIND_GROUPS None"
      "rps_vertex_buffers p = replicate MAX_VERTEX_BUFFERS None" "rps_index p = None" "rps_texture p = None"
      "rps_used p = []"
    by (auto simp: begin_render_pass_def then_do_Inr dest!: enc_push_records)
  from checks obtain target where target: "live_texture t (rpd_target d) = Some target"
      "rect_is_within (rpd_area d) (tex_extent target)"
    and colors: "color_formats_of t e (color_attachments d) = Inr fs"
    and depth: "\<And>a. rpd_depth d = Some a \<Longrightarrow> \<exists>access. check_texture_mip_access t e (da_target a) 0 access = Inr ()"
    and room: "\<not> en_count e > MAX_COMMANDS - 2" "\<not> en_pass_open e"
    by (auto simp: begin_render_checks_def result_simps table_iff ensure_outside_pass_def reserve_pass_begin_def
        split: if_splits option.splits)
  from tracks room have core: "core t e s" and out: "st_pass s = Outside" by (auto simp: tracks_def)
  have free: "sub \<notin> set (st_dirty s)" if "sub \<in> set (transfer_reach ?c)" for sub
  proof -
    from that obtain x access where "sub = SubMip x 0" "check_texture_mip_access t e x 0 access = Inr ()"
      using color_formats_checked [OF colors] depth by (cases "rpd_depth d") auto
    then show ?thesis using mip_access_free coreD(3) [OF core] by blast
  qed
  from head_attachment [of d] color_formats_checked [OF colors]
  have "check_texture_mip_access t e (rpd_target d) 0 TexRenderAttachment = Inr ()" by metis
  from mip_access_live [OF this] target obtain extent where "mip_extent target 0 = Inr extent" by auto
  with target have "rect_holds t (rpd_target d) 0 (rpd_area d)"
    by (simp add: rect_holds_def mip_zero_contains)
  with free out have "legal t s ?c"
    by (auto simp: legal_def race_free_def command_reach_def work_isolated_def)
  from core_begin [OF core e1 this _ _ room(1)] have "core t e' ?s" by (simp add: e')
  moreover have "pass_attachments ?s = map (\<lambda>x. SubMip x 0) (attached p)"
    by (auto simp: pass_attachments_def attached_def enter_def p split: option.split)
  moreover have "set (pass_attachments ?s) \<subseteq> set (transfer_reach ?c)"
    by (auto simp: pass_attachments_def enter_def split: option.splits if_splits)
  ultimately show ?thesis using free
    by (intro exI [of _ ?s]) (auto simp: tracks_def e' render_agrees_def render_bound_def enter_def p)
qed

lemma end_tracked:
  assumes core: "core t e s" and call: "end_pass mem c e = (Inr u, e')"
    and c: "quiet c" "well_placed s c" "advance_binding c s = s\<lparr>st_pass := Outside\<rparr>"
  shows "\<exists>s'. tracks t (e', NoPass) s'"
proof -
  from call coreD(1) [OF core] have e': "en_commands e' = en_commands e @ [c]" "en_count e' = en_count e + 1"
      "en_count e < MAX_COMMANDS" "\<not> en_validation_only e'" "\<not> en_pass_open e'" "en_pending e' = en_pending e"
    by (auto simp: end_pass_def push_pass_end_def then_do_Inr split: if_splits)
  have "core t e' (stream_step t c s)"
    using e' coreD(3) [OF core]
    by (intro core_step [OF core quiet_legal [OF c(1,2)]]) (auto simp: quiet_step [OF c(1)])
  then have "core t e' (s\<lparr>st_pass := Outside\<rparr>)" by (simp add: quiet_step [OF c(1)] c(3))
  with e' show ?thesis by (intro exI [of _ "s\<lparr>st_pass := Outside\<rparr>"]) (simp add: tracks_def)
qed

section \<open>Setters\<close>

lemma pass_attachments_cong [simp]:
  "pass_attachments (s\<lparr>st_pipeline := a\<rparr>) = pass_attachments s"
  "pass_attachments (s\<lparr>st_groups := b\<rparr>) = pass_attachments s"
  "pass_attachments (s\<lparr>st_vertex := c\<rparr>) = pass_attachments s"
  "pass_attachments (s\<lparr>st_index := d\<rparr>) = pass_attachments s"
  "pass_attachments (s\<lparr>st_texture := f\<rparr>) = pass_attachments s"
  "pass_attachments (s\<lparr>st_dirty := g\<rparr>) = pass_attachments s"
  "pass_attachments (s\<lparr>st_used := h\<rparr>) = pass_attachments s"
  by (simp_all add: pass_attachments_def)

lemma attached_cong [simp]:
  "attached (p\<lparr>rps_pipeline := x0\<rparr>) = attached p"
  "attached (p\<lparr>rps_programmable := x1\<rparr>) = attached p"
  "attached (p\<lparr>rps_groups := x2\<rparr>) = attached p"
  "attached (p\<lparr>rps_used := x3\<rparr>) = attached p"
  "attached (p\<lparr>rps_vertex_buffers := x4\<rparr>) = attached p"
  "attached (p\<lparr>rps_index := x5\<rparr>) = attached p"
  "attached (p\<lparr>rps_texture := x6\<rparr>) = attached p"
  "attached (p\<lparr>rps_sampler := x7\<rparr>) = attached p"
  "attached (p\<lparr>rps_uniforms := x8\<rparr>) = attached p"
  "attached (p\<lparr>rps_scissor := x9\<rparr>) = attached p"
  "attached (p\<lparr>rps_viewport := x10\<rparr>) = attached p"
  by (simp_all add: attached_def split: option.split)

lemma render_bound_cong [simp]:
  "render_bound (p\<lparr>rps_groups := x0\<rparr>) = render_bound p"
  "render_bound (p\<lparr>rps_used := x1\<rparr>) = render_bound p"
  "render_bound (p\<lparr>rps_vertex_buffers := x2\<rparr>) = render_bound p"
  "render_bound (p\<lparr>rps_index := x3\<rparr>) = render_bound p"
  "render_bound (p\<lparr>rps_texture := x4\<rparr>) = render_bound p"
  "render_bound (p\<lparr>rps_sampler := x5\<rparr>) = render_bound p"
  "render_bound (p\<lparr>rps_uniforms := x6\<rparr>) = render_bound p"
  "render_bound (p\<lparr>rps_scissor := x7\<rparr>) = render_bound p"
  "render_bound (p\<lparr>rps_viewport := x8\<rparr>) = render_bound p"
  "render_bound (p\<lparr>rps_pipeline := Some i, rps_programmable := None\<rparr>) = FixedPipeline i"
  "render_bound (p\<lparr>rps_programmable := Some j, rps_pipeline := None\<rparr>) = ProgrammablePipeline j"
  by (simp_all add: render_bound_def cong: option.case_cong)

lemma render_bound_programmable: "rps_programmable p = Some i \<Longrightarrow> render_bound p \<noteq> NoPipeline"
  by (simp add: render_bound_def split: option.split)

lemma compute_setter:
  assumes call: "setter checks bound mem c f (e, p) = (Inr u, e', p')" and tracks: "tracks t (e, InCompute p) s"
    and c: "quiet c" and ok: "checks = Inr () \<Longrightarrow> well_placed s c \<and> compute_agrees (f p) (advance_binding c s)"
  shows "\<exists>s'. tracks t (e', InCompute p') s'"
proof -
  from setter_Inr [OF call] consider "e' = e" "p' = p" | "checks = Inr ()" "records c [] e e'" "p' = f p" by auto
  then show ?thesis
  proof cases
    case 2
    from tracks have "core t e s" by (simp add: tracks_def)
    from core_quiet [OF this 2(2) c] ok [OF 2(1)] 2 tracks show ?thesis by (auto simp: tracks_def records_def)
  qed (use tracks in auto)
qed

lemma render_setter:
  assumes call: "setter checks bound mem c f (e, p) = (Inr u, e', p')" and tracks: "tracks t (e, InRender p) s"
    and c: "quiet c" and ok: "checks = Inr () \<Longrightarrow> well_placed s c \<and> render_agrees (f p) (advance_binding c s)"
  shows "\<exists>s'. tracks t (e', InRender p') s'"
proof -
  from setter_Inr [OF call] consider "e' = e" "p' = p" | "checks = Inr ()" "records c [] e e'" "p' = f p" by auto
  then show ?thesis
  proof cases
    case 2
    from tracks have "core t e s" by (simp add: tracks_def)
    from core_quiet [OF this 2(2) c] ok [OF 2(1)] 2 tracks show ?thesis by (auto simp: tracks_def records_def)
  qed (use tracks in auto)
qed

lemma compute_setters_tracked:
  assumes "tracks t (e, InCompute p) s"
  shows "compute_set_push_constants t mem stages offset data (e, p) = (Inr u, e', p') \<Longrightarrow> \<exists>s'. tracks t (e', InCompute p') s'"
    and "compute_set_pipeline t mem i (e, p) = (Inr u, e', p') \<Longrightarrow> \<exists>s'. tracks t (e', InCompute p') s'"
    and "compute_set_bind_group t mem n g (e, p) = (Inr u, e', p') \<Longrightarrow> \<exists>s'. tracks t (e', InCompute p') s'"
  using assms [unfolded tracks_def] unfolding setter_defs
  by - (erule compute_setter [OF _ assms]; auto simp: quiet_def compute_agrees_def result_simps)+

lemma update_not_Nil [simp]: "xs[i := x] \<noteq> [] \<longleftrightarrow> xs \<noteq> []"
  by (cases xs) (auto split: nat.splits)

lemma render_setters_tracked:
  assumes "tracks t (e, InRender p) s"
  shows "set_pipeline t mem i (e, p) = (Inr u, e', p') \<Longrightarrow> \<exists>s'. tracks t (e', InRender p') s'"
    and "set_programmable_pipeline t mem j (e, p) = (Inr u, e', p') \<Longrightarrow> \<exists>s'. tracks t (e', InRender p') s'"
    and "render_set_bind_group t mem n g (e, p) = (Inr u, e', p') \<Longrightarrow> \<exists>s'. tracks t (e', InRender p') s'"
    and "render_set_push_constants t mem stages offset data (e, p) = (Inr u, e', p') \<Longrightarrow> \<exists>s'. tracks t (e', InRender p') s'"
    and "set_vertex_buffer t mem b off (e, p) = (Inr u, e', p') \<Longrightarrow> \<exists>s'. tracks t (e', InRender p') s'"
    and "set_index_buffer t mem b off f (e, p) = (Inr u, e', p') \<Longrightarrow> \<exists>s'. tracks t (e', InRender p') s'"
    and "set_texture t mem x (e, p) = (Inr u, e', p') \<Longrightarrow> \<exists>s'. tracks t (e', InRender p') s'"
    and "set_sampler t mem i (e, p) = (Inr u, e', p') \<Longrightarrow> \<exists>s'. tracks t (e', InRender p') s'"
    and "set_draw_index mem n (e, p) = (Inr u, e', p') \<Longrightarrow> \<exists>s'. tracks t (e', InRender p') s'"
    and "set_uniforms mem us (e, p) = (Inr u, e', p') \<Longrightarrow> \<exists>s'. tracks t (e', InRender p') s'"
    and "set_scissor mem sc (e, p) = (Inr u, e', p') \<Longrightarrow> \<exists>s'. tracks t (e', InRender p') s'"
    and "set_viewport t mem v (e, p) = (Inr u, e', p') \<Longrightarrow> \<exists>s'. tracks t (e', InRender p') s'"
  using assms [unfolded tracks_def] unfolding setter_defs
  by - (erule render_setter [OF _ assms];
        auto simp: quiet_def render_agrees_def render_bound_programmable result_simps)+

lemma vertex_slot_tracked:
  assumes tracks: "tracks t (e, InRender p) s"
    and call: "set_vertex_buffer_slot t mem n b off (e, p) = (Inr u, e', p')"
  shows "\<exists>s'. tracks t (e', InRender p') s'"
proof (cases "n = 0")
  case True
  with call show ?thesis by (auto simp: set_vertex_buffer_slot_def intro: render_setters_tracked(5) [OF tracks])
next
  case False
  with call have "setter (vertex_buffer_checks t b off) (rps_vertex_buffers p ! unat n = Some (b, off)) mem
      (SetVertexBufferSlot n b off) (\<lambda>p. p\<lparr>rps_vertex_buffers := (rps_vertex_buffers p)[unat n := Some (b, off)]\<rparr>) (e, p)
      = (Inr u, e', p')"
    by (simp add: set_vertex_buffer_slot_def split: if_splits)
  then show ?thesis using tracks [unfolded tracks_def]
    by - (erule render_setter [OF _ tracks]; simp add: quiet_def render_agrees_def)
qed

section \<open>Work\<close>

lemma written_covered:
  assumes "ga_writes g = concat (map (\<lambda>(r, w). if w then resource_keys r else []) us)"
    and "sub \<in> set (written_reach us)"
  shows "covers (ga_writes g) sub"
proof -
  from assms(2) obtain r where "(r, True) \<in> set us" and key: "covers (resource_keys r) sub"
    by (force simp: written_reach_iff dest: written_key)
  then have "set (resource_keys r) \<subseteq> set (ga_writes g)" unfolding assms(1) by force
  with key show ?thesis by (cases sub) auto
qed

lemma used_covered:
  assumes "ga_used g = concat (map (\<lambda>(r, w). resource_keys r) us) @ vertex_keys vs @ index_keys ix"
    and "sub \<in> set (uses_reach t us) \<or> sub \<in> set (vertex_reach vs) \<or> (\<exists>b. ix = Some b \<and> sub = SubBuffer b)"
  shows "used_covers (ga_used g) sub"
  using assms(2)
proof (elim disjE exE conjE)
  assume "sub \<in> set (uses_reach t us)"
  then obtain r w where "(r, w) \<in> set us" and key: "used_covers (resource_keys r) sub"
    by (force simp: uses_reach_iff dest: reach_key)
  then have "set (resource_keys r) \<subseteq> set (ga_used g)" unfolding assms(1) by force
  with key show ?thesis by (auto simp: used_covers_def)
next
  assume "sub \<in> set (vertex_reach vs)"
  then show ?thesis unfolding assms(1) by (force simp: used_covers_def vertex_keys_def List.map_filter_def)
next
  fix b assume "ix = Some b" "sub = SubBuffer b"
  then show ?thesis unfolding assms(1) by (simp add: used_covers_def index_keys_def)
qed

lemma written_unused:
  assumes "ga_writes g = concat (map (\<lambda>(r, w). if w then resource_keys r else []) us)"
    and "\<not> list_ex (\<lambda>w. list_ex (pw_aliases w) used) (ga_writes g)" and "sub \<in> set (written_reach us)"
  shows "\<not> used_covers used sub"
proof
  assume "used_covers used sub"
  then obtain q where q: "q \<in> set used" "pw_aliases (use_key sub) q" by (auto simp: used_covers_def)
  from written_covered [OF assms(1,3)] obtain w where "w \<in> set (ga_writes g)" "pw_aliases w q"
    using q(2) by (cases sub) auto
  with q(1) assms(2) show False by (auto simp: list_ex_iff)
qed

lemma dispatch_Inr:
  assumes "dispatch t mem x y z (e, p) = (Inr u, e', p')"
  shows "\<exists>g. and_then (reject_if (list_ex (\<lambda>n. n = 0 \<or> n > 65535) [x, y, z]) InvalidValue) (\<lambda>_.
      and_then (ok_or (cps_pipeline p) PipelineNotSet) (\<lambda>i. and_then (table_compute_pipeline t i) (\<lambda>desc.
        validate_groups t mem e (cp_layout desc) (cps_groups p) [] [] None))) = Inr g \<and>
    record_with_writes mem (Dispatch x y z) g e = (Inr u, e') \<and> p' = p"
  using assms unfolding dispatch_def fst_conv snd_conv by (split sum.split_asm) (simp_all split: prod.splits)

lemma dispatch_tracked:
  assumes tracks: "tracks t (e, InCompute p) s" and call: "dispatch t mem x y z (e, p) = (Inr u, e', p')"
  shows "\<exists>s'. tracks t (e', InCompute p') s'"
proof -
  let ?c = "Dispatch x y z" and ?s = "stream_step t (Dispatch x y z) s"
  from tracks have core: "core t e s" and agree: "compute_agrees p s" by (auto simp: tracks_def)
  from call obtain i desc g where dims: "\<not> list_ex (\<lambda>n. n = 0 \<or> n > 65535) [x, y, z]"
    and i: "cps_pipeline p = Some i" "live_compute t i = Some desc"
    and g: "validate_groups t mem e (cp_layout desc) (cps_groups p) [] [] None = Inr g"
    and rec: "records ?c (ga_writes g) e e'" and p': "p' = p"
    using dispatch_Inr [OF call] record_with_writes_records
    unfolding and_then_Inr_iff reject_if_Inr_iff ok_or_Inr_iff table_iff by blast
  note groups = validate_groups_Inr [OF g]
  have uses: "draw_uses t s = bound_uses t (cp_layout desc) (cps_groups p)"
    using agree i by (simp add: draw_uses_def compute_agrees_def)
  have dirty: "st_dirty ?s = st_dirty s @ written_reach (draw_uses t s)" by (simp add: stream_step_def)
  have "race_free t s ?c"
    using vetted_free [OF groups(3)] coreD(3) [OF core] groups(1)
    by (auto simp: race_free_def command_reach_def work_isolated_def uses)
  moreover have "in_bounds t s ?c"
    using dims agree i groups(2) by (auto simp: compute_agrees_def word_gt_0 not_less)
  ultimately have "legal t s ?c" using agree by (simp add: legal_def compute_agrees_def)
  then have "core t e' ?s"
    using written_covered [OF groups(4)] coreD(3) [OF core]
    by (intro core_record [OF core rec]) (auto simp: dirty uses)
  moreover have "compute_agrees p ?s" using agree by (simp add: compute_agrees_def stream_step_def)
  ultimately show ?thesis using tracks rec by (auto simp: tracks_def records_def p')
qed

section \<open>Draws\<close>

lemma step_draw:
  "work_of c = DrawWork indexed n first instances start \<Longrightarrow> stream_step t c s =
     s\<lparr>st_dirty := st_dirty s @ written_reach (draw_uses t s),
       st_used := st_used s @ uses_reach t (draw_uses t s) @ draw_inputs t indexed s\<rparr>"
  by (cases c) (simp_all add: stream_step_def)

lemma draw_not_barrier: "work_of c = DrawWork indexed n first instances start \<Longrightarrow> \<not> is_barrier c"
  by (cases c) simp_all

lemma draw_placed:
  "work_of c = DrawWork indexed n first instances start \<Longrightarrow> well_placed s c \<longleftrightarrow> (\<exists>d. st_pass s = InRenderPass d)"
  by (cases c) simp_all

text \<open>What a recorded draw leaves to prove, whichever kind of pipeline it uses.\<close>

lemma draw_tracked:
  assumes tracks: "tracks t (e, InRender r) s" and c: "work_of c = DrawWork indexed n first instances start"
    and rec: "records c writes e e'" and bounds: "in_bounds t s c"
    and exclusive: "exclusive_writes (draw_uses t s)"
    and free: "\<And>sub. sub \<in> set (uses_reach t (draw_uses t s)) \<or> sub \<in> set (draw_inputs t indexed s) \<Longrightarrow>
        \<not> covers (en_pending e) sub"
    and apart: "\<And>sub. sub \<in> set (written_reach (draw_uses t s)) \<Longrightarrow> covers writes sub \<and>
        \<not> used_covers (rps_used r) sub \<and> sub \<notin> set (draw_inputs t indexed s) \<and> sub \<notin> set (pass_attachments s)"
    and used: "\<And>sub. sub \<in> set (uses_reach t (draw_uses t s)) \<or> sub \<in> set (draw_inputs t indexed s) \<Longrightarrow>
        used_covers used sub"
  shows "tracks t (e', InRender (r\<lparr>rps_used := rps_used r @ used\<rparr>)) (stream_step t c s)"
proof -
  from tracks have core: "core t e s" and agree: "render_agrees r s" and opened: "en_pass_open e"
    by (auto simp: tracks_def)
  have clean: "sub \<notin> set (st_dirty s)" if "sub \<in> set (pass_attachments s)" for sub
    using that agree by (auto simp: render_agrees_def)
  have unused: "sub \<notin> set (st_used s)" if "sub \<in> set (written_reach (draw_uses t s))" for sub
    using apart [OF that] agree by (auto simp: render_agrees_def)
  have reach: "set (command_reach t s c) \<inter> set (st_dirty s) = {}"
    using free clean coreD(3) [OF core] by (auto simp: command_reach_def c)
  have "work_isolated t s c"
    using exclusive apart unused by (auto simp: work_isolated_def c)
  with reach bounds agree have "legal t s c"
    by (simp add: legal_def race_free_def draw_placed [OF c] draw_not_barrier [OF c] render_agrees_def)
  then have "core t e' (stream_step t c s)"
    using apart coreD(3) [OF core] by (intro core_record [OF core rec]) (auto simp: step_draw [OF c])
  moreover have "render_agrees (r\<lparr>rps_used := rps_used r @ used\<rparr>) (stream_step t c s)"
    using agree apart used by (auto simp: render_agrees_def step_draw [OF c])
  ultimately show ?thesis using opened rec by (simp add: tracks_def records_def)
qed

text \<open>The elements a checked slot supplies.\<close>

lemma attribute_end_max:
  assumes "a \<in> set (vl_attributes l)"
  shows "unat (va_offset a) + unat (vertex_byte_size (va_format a)) \<le> unat (attribute_end l)"
proof -
  let ?stop = "\<lambda>a. ucast (va_offset a) + ucast (vertex_byte_size (va_format a)) :: u64"
  have max: "x \<le> fold max xs y" if "x = y \<or> x \<in> set xs" for x y :: u64 and xs
    using that by (auto simp flip: Max.set_eq_fold)
  have "?stop a \<le> attribute_end l"
    using assms max [of "?stop a" "?stop (hd (vl_attributes l))" "map ?stop (tl (vl_attributes l))"]
    by (cases "vl_attributes l") (auto simp: attribute_end_def Let_def)
  moreover have "unat (?stop a) = unat (va_offset a) + unat (vertex_byte_size (va_format a))"
    unfolding unat_word_ariths unat_ucast_u64
    by (intro mod_less)
      (simp, insert unat_bounds(3) [of "va_offset a"] unat_bounds(3) [of "vertex_byte_size (va_format a)"], linarith)
  ultimately show ?thesis by (simp add: word_le_nat_alt)
qed

definition last_element :: "vertex_layout \<Rightarrow> u32 \<Rightarrow> u32 \<Rightarrow> u32 \<Rightarrow> nat" where
  "last_element l final start instances =
     (if vl_step l = StepVertex then unat final else unat start + (unat instances - 1) div unat (vl_divisor l))"

lemma vertex_slot_ok:
  assumes "vertex_slot_check t (e, r) final start instances (k, l) = Inr ()" and "instances \<noteq> 0"
  obtains b offset where "rps_vertex_buffers r ! k = Some (b, offset)" and "check_buffer_access e b BufVertex = Inr ()"
    and "buffer_holds t b offset (last_element l final start instances * unat (vl_stride l) + unat (attribute_end l))"
proof -
  from assms(1) obtain b offset d el first bytes where
    slot: "rps_vertex_buffers r ! k = Some (b, offset)" "check_buffer_access e b BufVertex = Inr ()"
      "live_buffer t b = Some d" "validate_byte_range offset bytes (buf_size d) = Inr ()"
    and el: "(if vl_step l = StepVertex then Inr final else instance_last l start instances) = Inr el"
    and bytes: "checked_mul (ucast el :: u64) (ucast (vl_stride l)) = Some first"
      "checked_add first (attribute_end l) = Some bytes"
    unfolding vertex_slot_check_def prod.case
    by (auto simp: table_iff and_then_Inr_iff bind_eq_Some_conv)
  have "unat el = last_element l final start instances"
    using el assms(2) by (auto simp: last_element_def instance_last_def unat_div unat_minus_one dest: checked_SomeD
        split: if_splits)
  with checked_SomeD(2) [OF bytes(1)] checked_SomeD(1) [OF bytes(2)]
  have "unat bytes = last_element l final start instances * unat (vl_stride l) + unat (attribute_end l)"
    by (simp only: unat_ucast_u64)
  with slot that show thesis by (simp add: buffer_holds_def byte_range_ok)
qed

lemma buffer_holds_mono: "buffer_holds t b offset n \<Longrightarrow> m \<le> n \<Longrightarrow> buffer_holds t b offset m"
  by (auto simp: buffer_holds_def split: option.splits)

lemma slot_holds_upto:
  assumes "buffer_holds t b offset (final * unat (vl_stride l) + unat (attribute_end l))" and "k \<le> final"
  shows "slot_holds t (Some (b, offset)) l k"
proof -
  have "buffer_holds t b offset (k * unat (vl_stride l) + unat (va_offset a) + unat (vertex_byte_size (va_format a)))"
    if "a \<in> set (vl_attributes l)" for a
    using attribute_end_max [OF that] mult_le_mono1 [OF assms(2), of "unat (vl_stride l)"]
    by (intro buffer_holds_mono [OF assms(1)]) linarith
  then show ?thesis by (simp add: slot_holds_def)
qed

lemma element_upto:
  assumes "v \<in> set (named_vertices indexed n first)" and "j < unat instances"
    and "unat final = (if indexed then 0 else unat first + unat n - 1)"
  shows "element_of l start v j \<le> last_element l final start instances"
  using assms by (auto simp: element_of_def last_element_def named_vertices_def split: if_splits intro!: div_le_mono)

lemma slots_enumerate:
  "for_each f (enumerate 0 xs) = Inr u \<Longrightarrow> k < length xs \<Longrightarrow> f (k, xs ! k) = Inr ()"
  by (auto simp: for_each_Inr in_set_enumerate_eq)

lemma programmable_draw_tracked:
  assumes tracks: "tracks t (e, InRender r) s" and c: "work_of c = DrawWork indexed n first instances start"
    and i: "rps_programmable r = Some i" "live_programmable t i = Some desc" "accepts_count (pp_topology desc) n"
    and slots: "for_each (vertex_slot_check t (e, r) final start instances) (enumerate 0 (pp_vertex_buffers desc)) = Inr ()"
    and final: "instances \<noteq> 0" "unat final = (if indexed then 0 else unat first + unat n - 1)"
    and index: "indexed \<Longrightarrow> \<exists>b offset f. rps_index r = Some (b, offset, f) \<and> check_buffer_access e b BufIndex = Inr () \<and>
        buffer_holds t b offset ((unat first + unat n) * unat (index_byte_size f))"
    and g: "programmable_writes t mem desc indexed (e, r) = Inr g" "validate_cumulative_accesses mem g r = Inr ()"
    and rec: "records c (ga_writes g) e e'"
    and bounds: "in_bounds t s c = draw_in_bounds t indexed n first instances start s"
  shows "tracks t (e', InRender (r\<lparr>rps_used := rps_used r @ ga_used g\<rparr>)) (stream_step t c s)"
proof -
  let ?vs = "take (length (pp_vertex_buffers desc)) (rps_vertex_buffers r)"
  let ?ix = "if indexed then map_option fst (rps_index r) else None"
  from tracks have agree: "render_agrees r s" by (auto simp: tracks_def)
  then have bound: "st_groups s = rps_groups r" "st_vertex s = rps_vertex_buffers r" "st_index s = rps_index r"
    by (simp_all add: render_agrees_def)
  note groups = validate_groups_Inr [OF g(1) [unfolded programmable_writes_def Let_def fst_conv snd_conv attached_def [symmetric]]]
  have cumulative: "\<not> list_ex (\<lambda>w. list_ex (pw_aliases w) (rps_used r)) (ga_writes g)"
    using g(2) by (simp add: validate_cumulative_accesses_def and_then_Inr_iff)
  have pipeline: "st_pipeline s = ProgrammablePipeline i"
    using agree i(1) by (auto simp: render_agrees_def render_bound_def)
  then have uses: "draw_uses t s = bound_uses t (pp_layout desc) (rps_groups r)"
    and inputs: "draw_inputs t indexed s = vertex_reach ?vs @ index_reach indexed s"
    using i(2) by (simp_all add: draw_uses_def draw_inputs_def bound)
  have index_sub: "\<exists>b. ?ix = Some b \<and> sub = SubBuffer b" if "sub \<in> set (index_reach indexed s)" for sub
    using that by (cases indexed; cases "rps_index r"; simp add: index_reach_def bound case_prod_beta)
  have slot: "\<exists>b offset. rps_vertex_buffers r ! k = Some (b, offset) \<and> check_buffer_access e b BufVertex = Inr () \<and>
      buffer_holds t b offset (last_element (pp_vertex_buffers desc ! k) final start instances *
        unat (vl_stride (pp_vertex_buffers desc ! k)) + unat (attribute_end (pp_vertex_buffers desc ! k)))"
    if "k < length (pp_vertex_buffers desc)" for k
    using vertex_slot_ok [OF slots_enumerate [OF slots that] final(1)] by metis
  have vertex_free: "\<not> covers (en_pending e) sub" if "sub \<in> set (vertex_reach ?vs)" for sub
  proof -
    from that obtain b offset k where "sub = SubBuffer b" "k < length (pp_vertex_buffers desc)"
        "rps_vertex_buffers r ! k = Some (b, offset)"
      unfolding vertex_reach_iff by (auto simp: in_set_conv_nth)
    with slot [of k] show ?thesis using buffer_access_free by fastforce
  qed
  have index_free: "\<not> covers (en_pending e) sub" if "sub \<in> set (index_reach indexed s)" for sub
    using index_sub [OF that] index buffer_access_free by (fastforce split: if_splits)
  show ?thesis
  proof (rule draw_tracked [OF tracks c rec])
    show "in_bounds t s c"
      unfolding bounds draw_in_bounds_def pipeline bound_pipeline.case i(2) option.case
    proof (intro conjI allI ballI impI)
      show "indices_hold t indexed n first s"
        using index by (auto simp: indices_hold_def bound)
      fix k v j
      assume k: "k < length (pp_vertex_buffers desc)" and v: "v \<in> set (named_vertices indexed n first)" "j < unat instances"
      from slot [OF k] obtain b offset where b: "rps_vertex_buffers r ! k = Some (b, offset)"
          "buffer_holds t b offset (last_element (pp_vertex_buffers desc ! k) final start instances *
            unat (vl_stride (pp_vertex_buffers desc ! k)) + unat (attribute_end (pp_vertex_buffers desc ! k)))"
        by blast
      show "slot_holds t (st_vertex s ! k) (pp_vertex_buffers desc ! k)
          (element_of (pp_vertex_buffers desc ! k) start v j)"
        using slot_holds_upto [OF b(2) element_upto [OF v final(2)]] by (simp add: bound b(1))
    qed (simp_all add: i(3) groups(2) bound)
  next
    fix sub
    assume "sub \<in> set (written_reach (draw_uses t s))"
    then have written: "sub \<in> set (written_reach (bound_uses t (pp_layout desc) (rps_groups r)))" by (simp only: uses)
    note apart = vetted_apart [OF groups(3) written]
    have "sub \<notin> set (index_reach indexed s)" using index_sub apart(2) by blast
    moreover have "sub \<notin> set (pass_attachments s)" using apart(3) agree by (auto simp: render_agrees_def)
    ultimately show "covers (ga_writes g) sub \<and> \<not> used_covers (rps_used r) sub \<and>
        sub \<notin> set (draw_inputs t indexed s) \<and> sub \<notin> set (pass_attachments s)"
      using written_covered [OF groups(4) written] written_unused [OF groups(4) cumulative written] apart(1)
      by (simp add: inputs)
  next
    fix sub
    assume "sub \<in> set (uses_reach t (draw_uses t s)) \<or> sub \<in> set (draw_inputs t indexed s)"
    then have *: "sub \<in> set (uses_reach t (bound_uses t (pp_layout desc) (rps_groups r))) \<or>
        sub \<in> set (vertex_reach ?vs) \<or> sub \<in> set (index_reach indexed s)"
      by (simp only: uses inputs set_append Un_iff)
    then show "\<not> covers (en_pending e) sub"
      using vetted_free [OF groups(3)] vertex_free index_free by blast
    from * index_sub show "used_covers (ga_used g) sub"
      by (intro used_covered [OF groups(5)]) blast
  qed (simp add: uses groups(1))
qed

definition sampled_texture :: "render_pipeline \<Rightarrow> render_pass \<Rightarrow> texture_id option" where
  "sampled_texture desc r = (if program_samples (rp_fragment desc) then rps_texture r else None)"

lemma fixed_draw_tracked:
  assumes tracks: "tracks t (e, InRender r) s" and c: "work_of c = DrawWork indexed n first instances start"
    and i: "rps_pipeline r = Some i" "with_pipeline t i = Inr desc" "accepts_count (rp_topology desc) n"
    and slot: "rps_vertex_buffers r ! 0 = Some (b, offset)" "check_buffer_access e b BufVertex = Inr ()"
      "list_all (\<lambda>v. buffer_holds t b offset ((v + 1) * unat (vl_stride (rp_vertex desc)))) (named_vertices indexed n first)"
    and index: "indexed \<Longrightarrow> \<exists>b offset f. rps_index r = Some (b, offset, f) \<and> check_buffer_access e b BufIndex = Inr () \<and>
        buffer_holds t b offset ((unat first + unat n) * unat (index_byte_size f)) \<and> PwBuffer b \<in> set used"
    and sampled: "\<And>x. sampled_texture desc r = Some x \<Longrightarrow> check_texture_access t e x TexSampled = Inr () \<and> PwTexture x \<in> set used"
    and used: "PwBuffer b \<in> set used" and rec: "records c [] e e'"
    and bounds: "in_bounds t s c = draw_in_bounds t indexed n first instances start s"
  shows "tracks t (e', InRender (r\<lparr>rps_used := rps_used r @ used\<rparr>)) (stream_step t c s)"
proof -
  from tracks have agree: "render_agrees r s" by (auto simp: tracks_def)
  then have bound: "st_vertex s = rps_vertex_buffers r" "st_index s = rps_index r" "st_texture s = rps_texture r"
    "st_pipeline s = FixedPipeline i" and ne: "rps_vertex_buffers r \<noteq> []"
    using i(1) by (simp_all add: render_agrees_def render_bound_def)
  have first: "take (Suc 0) (rps_vertex_buffers r) = [Some (b, offset)]"
    using ne slot(1) by (cases "rps_vertex_buffers r") auto
  have uses: "draw_uses t s = []" by (simp add: draw_uses_def bound)
  have inputs: "draw_inputs t indexed s = vertex_reach [Some (b, offset)] @ index_reach indexed s @ sampled_reach t desc s"
    by (simp add: draw_inputs_def bound i(2) first)
  have index_sub: "\<exists>b. sub = SubBuffer b \<and> check_buffer_access e b BufIndex = Inr () \<and> PwBuffer b \<in> set used"
    if "sub \<in> set (index_reach indexed s)" for sub
    using that index by (cases indexed; cases "rps_index r"; force simp: index_reach_def bound case_prod_beta)
  have sampled_sub: "\<exists>x. sub \<in> set (whole_texture t x) \<and> check_texture_access t e x TexSampled = Inr () \<and> PwTexture x \<in> set used"
    if "sub \<in> set (sampled_reach t desc s)" for sub
    using that sampled by (auto simp: sampled_reach_def sampled_texture_def bound split: option.splits if_splits)
  show ?thesis
  proof (rule draw_tracked [OF tracks c rec])
    have "indices_hold t indexed n first s" using index by (auto simp: indices_hold_def bound)
    then show "in_bounds t s c" unfolding bounds draw_in_bounds_def using slot(3) by (simp add: bound i slot(1))
  next
    fix sub
    assume "sub \<in> set (uses_reach t (draw_uses t s)) \<or> sub \<in> set (draw_inputs t indexed s)"
    then have *: "sub = SubBuffer b \<or> sub \<in> set (index_reach indexed s) \<or> sub \<in> set (sampled_reach t desc s)"
      by (auto simp: uses inputs uses_reach_def)
    then show "\<not> covers (en_pending e) sub"
      using buffer_access_free [OF slot(2)] index_sub sampled_sub buffer_access_free texture_access_free by metis
    have "used_covers used sub" if "sub \<in> set (whole_texture t x)" "PwTexture x \<in> set used" for x
      using whole_texture_sub [OF that(1)] that(2) by (auto simp: used_covers_def)
    with * used index_sub sampled_sub show "used_covers used sub"
      by (metis pw_alias_iff(1) use_key.simps(1) used_covers_def)
  qed (simp_all add: uses written_reach_def)
qed

lemma index_range_ok:
  assumes "checked_mul (ucast first + ucast n :: u64) (index_byte_size f) = Some bytes"
    and "validate_byte_range offset bytes (buf_size d) = Inr ()" and "live_buffer t b = Some d"
  shows "buffer_holds t b offset ((unat (first :: u32) + unat (n :: u32)) * unat (index_byte_size f))"
proof -
  have "unat (ucast first + ucast n :: u64) = unat first + unat n"
    unfolding unat_word_ariths unat_ucast_u64
    by (intro mod_less) (simp, insert unat_bounds(3) [of first] unat_bounds(3) [of n], linarith)
  with checked_SomeD(2) [OF assms(1)] assms(2,3) show ?thesis by (simp add: buffer_holds_def byte_range_ok)
qed

lemma draw_programmable_ok:
  assumes tracks: "tracks t (e, InRender r) s"
    and call: "draw_programmable t mem n first instances start (e, r) = (Inr u, e', r')"
  shows "\<exists>s'. tracks t (e', InRender r') s'"
proof -
  let ?c = "if instances = 1 \<and> start = 0 then Draw n first else DrawInstanced n first instances start"
  from call obtain g where checks: "draw_programmable_checks t mem n first instances start (e, r) = Inr g"
    and rec: "records ?c (ga_writes g) e e'" and r': "r' = r\<lparr>rps_used := rps_used r @ ga_used g\<rparr>"
    by (auto simp: draw_programmable_def record_programmable_def split: sum.splits prod.splits
        dest!: record_with_writes_records)
  from checks obtain i desc stop final where facts: "instances \<noteq> 0" "rps_programmable r = Some i"
      "live_programmable t i = Some desc" "accepts_count (pp_topology desc) n"
      "checked_add first n = Some stop" "checked_sub stop 1 = Some final"
      "for_each (vertex_slot_check t (e, r) final start instances) (enumerate 0 (pp_vertex_buffers desc)) = Inr ()"
      "programmable_writes t mem desc False (e, r) = Inr g" "validate_cumulative_accesses mem g r = Inr ()"
    unfolding draw_programmable_checks_def validate_programmable_count_def
    by (auto simp: and_then_Inr_iff table_iff bind_eq_Some_conv split: if_splits)
  have "unat final = unat first + unat n - 1"
    using checked_SomeD(1) [OF facts(5)] facts(6) by (auto simp: checked_sub_Some unat_sub_if_size word_le_nat_alt)
  then have "tracks t (e', InRender r') (stream_step t ?c s)"
    unfolding r'
    by (intro programmable_draw_tracked [where indexed = False and n = n and first = first and start = start,
          OF tracks _ facts(2-4,7,1) _ _ facts(8,9) rec]) auto
  then show ?thesis by blast
qed

lemma draw_indexed_programmable_ok:
  assumes tracks: "tracks t (e, InRender r) s"
    and call: "draw_indexed_programmable t mem n first base instances start (e, r) = (Inr u, e', r')"
  shows "\<exists>s'. tracks t (e', InRender r') s'"
proof -
  let ?c = "if instances = 1 \<and> start = 0 then DrawIndexed n first base
    else DrawIndexedInstanced n first base instances start"
  from call obtain g where checks: "draw_indexed_programmable_checks t mem n first instances start (e, r) = Inr g"
    and rec: "records ?c (ga_writes g) e e'" and r': "r' = r\<lparr>rps_used := rps_used r @ ga_used g\<rparr>"
    by (auto simp: draw_indexed_programmable_def record_programmable_def split: sum.splits prod.splits
        dest!: record_with_writes_records)
  from checks obtain i desc b offset f d bytes where facts: "instances \<noteq> 0" "rps_programmable r = Some i"
      "live_programmable t i = Some desc" "accepts_count (pp_topology desc) n"
      "for_each (vertex_slot_check t (e, r) 0 start instances) (enumerate 0 (pp_vertex_buffers desc)) = Inr ()"
      "programmable_writes t mem desc True (e, r) = Inr g" "validate_cumulative_accesses mem g r = Inr ()"
    and index: "rps_index r = Some (b, offset, f)" "check_buffer_access e b BufIndex = Inr ()"
      "checked_mul (ucast first + ucast n :: u64) (index_byte_size f) = Some bytes"
      "validate_byte_range offset bytes (buf_size d) = Inr ()" "live_buffer t b = Some d"
    unfolding draw_indexed_programmable_checks_def validate_programmable_count_def
    by (auto simp: and_then_Inr_iff table_iff bind_eq_Some_conv split: if_splits)
  from index_range_ok [OF index(3-5)] have "tracks t (e', InRender r') (stream_step t ?c s)"
    unfolding r'
    by (intro programmable_draw_tracked [where indexed = True and n = n and first = first and start = start
          and final = 0, OF tracks _ facts(2-5,1) _ _ facts(6,7) rec]) (auto simp: index)
  then show ?thesis by blast
qed

lemma validate_draw_ok:
  assumes "validate_draw t e r n = Inr ()" and "active_sampled_texture t r = Inr sampled"
  obtains i desc where "rps_pipeline r = Some i" and "with_pipeline t i = Inr desc"
    and "accepts_count (rp_topology desc) n" and "sampled = sampled_texture desc r"
    and "\<And>x. sampled = Some x \<Longrightarrow> check_texture_access t e x TexSampled = Inr ()"
  using assms by (fastforce simp: validate_draw_def active_sampled_texture_def sampled_texture_def and_then_Inr_iff)

lemma sampled_keys_iff [simp]: "q \<in> set (sampled_keys x) \<longleftrightarrow> (\<exists>i. x = Some i \<and> q = PwTexture i)"
  by (cases x) (auto simp: sampled_keys_def)

lemma record_fixed_Inr:
  "record_fixed mem c used (e, r) = (Inr u, e', r') \<Longrightarrow> records c [] e e' \<and> r' = r\<lparr>rps_used := rps_used r @ used\<rparr>"
  by (auto simp: record_fixed_def split: sum.splits prod.splits dest!: enc_push_records simp: records_def)

lemma whole_vertices_hold:
  assumes "checked_add (ucast first :: u64) (ucast n) = Some vertices" and "checked_mul vertices (ucast stride) = Some bytes"
    and "validate_byte_range offset bytes (buf_size d) = Inr ()" and "live_buffer t b = Some d"
  shows "list_all (\<lambda>v. buffer_holds t b offset ((v + 1) * unat (stride :: u32))) (named_vertices False (n :: u32) (first :: u32))"
proof -
  have total: "unat bytes = (unat first + unat n) * unat stride"
    using checked_SomeD(1) [OF assms(1)] checked_SomeD(2) [OF assms(2)] by (simp only: unat_ucast_u64)
  have "buffer_holds t b offset ((v + 1) * unat stride)" if "v < unat first + unat n" for v
  proof -
    have "(v + 1) * unat stride \<le> unat bytes" unfolding total using that by (intro mult_le_mono1) simp
    moreover have "buffer_holds t b offset (unat bytes)" using assms(3,4) by (simp add: buffer_holds_def byte_range_ok)
    ultimately show ?thesis by (rule buffer_holds_mono [rotated])
  qed
  then show ?thesis by (auto simp: named_vertices_def list_all_iff)
qed

lemma draw_fixed_ok:
  assumes tracks: "tracks t (e, InRender r) s" and call: "draw_fixed t mem n first (e, r) = (Inr u, e', r')"
  shows "\<exists>s'. tracks t (e', InRender r') s'"
proof -
  from call obtain used where checks: "draw_fixed_checks t mem n first (e, r) = Inr used"
    and rec: "records (Draw n first) [] e e'" and r': "r' = r\<lparr>rps_used := rps_used r @ used\<rparr>"
    by (auto simp: draw_fixed_def split: sum.splits dest!: record_fixed_Inr)
  from checks obtain sampled i desc b offset d vertices bytes where
    valid: "validate_draw t e r n = Inr ()" "active_sampled_texture t r = Inr sampled"
    and i: "rps_pipeline r = Some i" "with_pipeline t i = Inr desc"
    and slot: "rps_vertex_buffers r ! 0 = Some (b, offset)" "check_buffer_access e b BufVertex = Inr ()"
    and bytes: "checked_add (ucast first :: u64) (ucast n) = Some vertices"
      "checked_mul vertices (ucast (vl_stride (rp_vertex desc))) = Some bytes"
      "validate_byte_range offset bytes (buf_size d) = Inr ()" "live_buffer t b = Some d"
    and used: "used = PwBuffer b # sampled_keys sampled"
    unfolding draw_fixed_checks_def by (auto simp: and_then_Inr_iff table_iff Let_def)
  from valid obtain "accepts_count (rp_topology desc) n" and "sampled = sampled_texture desc r"
    and "\<And>x. sampled = Some x \<Longrightarrow> check_texture_access t e x TexSampled = Inr ()"
    using i by (elim validate_draw_ok) auto
  with whole_vertices_hold [OF bytes] have "tracks t (e', InRender r') (stream_step t (Draw n first) s)"
    unfolding r' by (intro fixed_draw_tracked [OF tracks _ i _ slot _ _ _ _ rec, of False n first 1 0]) (auto simp: used)
  then show ?thesis by blast
qed

lemma draw_indexed_fixed_ok:
  assumes tracks: "tracks t (e, InRender r) s" and call: "draw_indexed_fixed t mem n first base (e, r) = (Inr u, e', r')"
  shows "\<exists>s'. tracks t (e', InRender r') s'"
proof -
  from call obtain used where checks: "draw_indexed_fixed_checks t mem n first (e, r) = Inr used"
    and rec: "records (DrawIndexed n first base) [] e e'" and r': "r' = r\<lparr>rps_used := rps_used r @ used\<rparr>"
    by (auto simp: draw_indexed_fixed_def split: sum.splits dest!: record_fixed_Inr)
  from checks obtain sampled i desc v voffset vd b offset f d indices bytes where
    valid: "validate_draw t e r n = Inr ()" "active_sampled_texture t r = Inr sampled"
    and i: "rps_pipeline r = Some i" "with_pipeline t i = Inr desc"
    and slot: "rps_vertex_buffers r ! 0 = Some (v, voffset)" "check_buffer_access e v BufVertex = Inr ()"
      "validate_byte_range voffset (ucast (vl_stride (rp_vertex desc))) (buf_size vd) = Inr ()" "live_buffer t v = Some vd"
    and index: "rps_index r = Some (b, offset, f)" "check_buffer_access e b BufIndex = Inr ()"
      "checked_add (ucast first :: u64) (ucast n) = Some indices"
      "checked_mul indices (index_byte_size f) = Some bytes"
      "validate_byte_range offset bytes (buf_size d) = Inr ()" "live_buffer t b = Some d"
    and used: "used = PwBuffer b # PwBuffer v # sampled_keys sampled"
    unfolding draw_indexed_fixed_checks_def by (auto simp: and_then_Inr_iff table_iff Let_def)
  from valid obtain "accepts_count (rp_topology desc) n" and "sampled = sampled_texture desc r"
    and "\<And>x. sampled = Some x \<Longrightarrow> check_texture_access t e x TexSampled = Inr ()"
    using i by (elim validate_draw_ok) auto
  moreover have "buffer_holds t v voffset (unat (vl_stride (rp_vertex desc)))"
    using slot(3,4) by (simp add: buffer_holds_def byte_range_ok)
  moreover have "indices = ucast first + ucast n" using index(3) by (simp only: checked_add_Some)
  ultimately have "tracks t (e', InRender r') (stream_step t (DrawIndexed n first base) s)"
    unfolding r' using index_range_ok [of first n f bytes offset d t b] index
    by (intro fixed_draw_tracked [OF tracks _ i _ slot(1,2) _ _ _ _ rec, of True n first 1 0])
      (auto simp: used named_vertices_def)
  then show ?thesis by blast
qed

section \<open>Every reachable encoder is tracked\<close>

lemma start_tracked: "tracks t (encoder_new, NoPass) stream_start"
  by (simp add: tracks_def core_def encoder_new_def stream_start_def)

lemma agrees_open: "agrees p e s \<Longrightarrow> agrees NoPass e s"
  by (cases p) (auto simp: compute_agrees_def render_agrees_def)

lemma encoder_call_tracked:
  assumes "tracks t (e, NoPass) s" and "on_encoder t mem c e = (Inr u, e', q)"
  shows "\<exists>s'. tracks t (e', q) s'"
  using assms(2) by (cases c) (auto simp: call_results dest: transfers_tracked [OF assms(1)] blits_tracked [OF assms(1)]
      barrier_tracked [OF assms(1)] begin_compute_tracked [OF assms(1)] begin_render_tracked [OF assms(1)])

lemma abandon_tracked: "tracks t (e, p) s \<Longrightarrow> tracks t (e, NoPass) s"
  by (auto simp: tracks_def dest: agrees_open)

lemma compute_call_tracked:
  assumes "tracks t (e, InCompute p) s" and "on_compute t mem c (e, p) = (Inr u, e', q)"
  shows "\<exists>s'. tracks t (e', q) s'"
proof (cases c)
  case CallEndCompute
  then have "end_pass mem EndComputePass e = (Inr u, e')" and q: "q = NoPass"
    using assms(2) by (auto simp: call_results)
  moreover have "core t e s" and "st_pass s = InComputePass" using assms(1) by (auto simp: tracks_def compute_agrees_def)
  ultimately show ?thesis by (auto intro: end_tracked simp: quiet_def)
qed (use assms(2) compute_setters_tracked [OF assms(1)] dispatch_tracked [OF assms(1)] in
    \<open>auto simp: call_results\<close>)

lemma render_call_tracked:
  assumes "tracks t (e, InRender p) s" and "on_render t mem c (e, p) = (Inr u, e', q)"
  shows "\<exists>s'. tracks t (e', q) s'"
proof (cases c)
  case CallEndRender
  then have "end_pass mem EndRenderPass e = (Inr u, e')" and q: "q = NoPass"
    using assms(2) by (auto simp: call_results)
  moreover have "core t e s" and "\<exists>d. st_pass s = InRenderPass d" using assms(1) by (auto simp: tracks_def render_agrees_def)
  ultimately show ?thesis by (auto intro: end_tracked simp: quiet_def)
qed (use assms(2) render_setters_tracked [OF assms(1)] vertex_slot_tracked [OF assms(1)]
      draw_fixed_ok [OF assms(1)] draw_indexed_fixed_ok [OF assms(1)] draw_programmable_ok [OF assms(1)]
      draw_indexed_programmable_ok [OF assms(1)] in
    \<open>auto simp: call_results draw_def draw_indexed_def draw_instanced_def
      draw_indexed_instanced_def split: if_splits\<close>)

lemma step_tracked:
  assumes tracks: "tracks t m s" and step: "enc_step t mem m (r, m')"
  shows "\<exists>s'. tracks t m' s'"
proof -
  obtain e p e' q where m: "m = (e, p)" "m' = (e', q)" by (cases m; cases m') blast
  show ?thesis
  proof (cases r)
    case (Inl x)
    from failed_step [OF step [unfolded Inl]] tracks m show ?thesis
      by (auto simp: tracks_def dest: agrees_open)
  next
    case (Inr u)
    from step tracks show ?thesis unfolding m Inr enc_step_iff
      by (cases p) (auto intro: encoder_call_tracked compute_call_tracked render_call_tracked
          dest: abandon_tracked)
  qed
qed

lemma reach_tracked: "enc_reach t encoder_new m \<Longrightarrow> \<exists>s. tracks t m s"
  by (induction m rule: enc_reach.induct) (auto intro: start_tracked step_tracked)

end
