(* ===== verification/Stream_Properties.thy ===== *)
theory Stream_Properties
  imports Encoder_Safety "HOL-Library.Code_Target_Nat"
begin

text \<open>
  The properties of finished command streams, with one stream that records a shader write, its barrier
  and the copy that depends on it. They follow from the invariant of \<^verbatim>\<open>Encoder_Safety\<close>.
\<close>

section \<open>A concrete stream\<close>

abbreviation rid :: "usize \<Rightarrow> res_id" where
  "rid n \<equiv> \<lparr>id_owner = 1, id_index = n, id_generation = 0\<rparr>"

abbreviation live :: "'d \<Rightarrow> 'd slot" where
  "live d \<equiv> \<lparr>slot_desc = Some d, slot_generation = 0, slot_next = None\<rparr>"

definition example_layout :: bind_group_layout where
  "example_layout = [\<lparr>le_binding = 0, le_visibility = STAGE_COMPUTE, le_ty = StorageBuffer False\<rparr>]"

definition example_table :: resource_table where
  "example_table = (table_new 1)\<lparr>
     rt_buffers := \<lparr>sl_slots = [live \<lparr>buf_size = 64, buf_usage = BUF_STORAGE OR BUF_COPY_SRC\<rparr>,
                               live \<lparr>buf_size = 64, buf_usage = BUF_COPY_DST\<rparr>], sl_free = None\<rparr>,
     rt_bind_groups := \<lparr>sl_slots = [live \<lparr>bg_layout = example_layout,
        bg_entries = [\<lparr>be_binding = 0, be_resource = BufferBinding (rid 0) 0 64\<rparr>]\<rparr>], sl_free = None\<rparr>,
     rt_compute := \<lparr>sl_slots = [live \<lparr>
        cp_shader = \<lparr>se_module = rid 0, se_stage = Compute, se_entry_point = [0x6d]\<rparr>,
        cp_layout = \<lparr>pl_bind_groups = [example_layout], pl_push_constants = []\<rparr>\<rparr>], sl_free = None\<rparr>\<rparr>"

datatype any_call = OnEncoder encoder_call | OnCompute compute_call | OnRender render_call

fun call_result :: "resource_table \<Rightarrow> any_call \<Rightarrow> machine \<Rightarrow> (unit ir_result \<times> machine) option" where
  "call_result t (OnEncoder k) (e, NoPass) = Some (on_encoder t (\<lambda>_. True) k e)"
| "call_result t (OnCompute k) (e, InCompute p) = Some (on_compute t (\<lambda>_. True) k (e, p))"
| "call_result t (OnRender k) (e, InRender p) = Some (on_render t (\<lambda>_. True) k (e, p))"
| "call_result t _ _ = None"

fun drive :: "resource_table \<Rightarrow> any_call list \<Rightarrow> machine \<Rightarrow> machine option" where
  "drive t [] m = Some m"
| "drive t (c # cs) m = (case call_result t c m of Some (Inr _, m') \<Rightarrow> drive t cs m' | _ \<Rightarrow> None)"

lemma call_result_step: "call_result t c m = Some x \<Longrightarrow> enc_step t (\<lambda>_. True) m x"
  by (cases "(t, c, m)" rule: call_result.cases) (auto intro: enc_step.intros)

lemma drive_reach: "enc_reach t e m \<Longrightarrow> drive t cs m = Some m' \<Longrightarrow> enc_reach t e m'"
proof (induction cs arbitrary: m)
  case (Cons c cs)
  from Cons.prems(2) obtain u m1 where "call_result t c m = Some (Inr u, m1)" and rest: "drive t cs m1 = Some m'"
    by (auto split: option.splits sum.splits prod.splits)
  from Cons.IH [OF enc_reach.Call [OF Cons.prems(1) call_result_step [OF this(1)]] rest] show ?case .
qed simp

definition example_calls :: "any_call list" where
  "example_calls = [OnEncoder CallBeginCompute, OnCompute (CallComputePipeline (rid 0)),
     OnCompute (CallComputeGroup 0 (rid 0)), OnCompute (CallDispatch 8 1 1), OnCompute CallEndCompute,
     OnEncoder (CallBarrier (BufferBarrier (rid 0) BufStorageReadWrite BufCopySource)),
     OnEncoder (CallCopyBuffer (rid 0) 0 (rid 1) 0 64)]"

definition example_stream :: "command list" where
  "example_stream = [BeginComputePass, SetComputePipeline (rid 0), SetBindGroup 0 (rid 0), Dispatch 8 1 1,
     EndComputePass, ResourceBarrier (BufferBarrier (rid 0) BufStorageReadWrite BufCopySource),
     CopyBufferToBuffer (rid 0) 0 (rid 1) 0 64]"

lemma example_recorded:
  "map_option (\<lambda>(e, p). (finish e, p = NoPass)) (drive example_table example_calls (encoder_new, NoPass)) =
     Some (Inr example_stream, True)"
  by code_simp

lemma example_reached:
  obtains e where "enc_reach example_table encoder_new (e, NoPass)" and "finish e = Inr example_stream"
proof -
  from example_recorded obtain e p where "drive example_table example_calls (encoder_new, NoPass) = Some (e, p)"
    and "finish e = Inr example_stream" "p = NoPass" by auto
  then show thesis using drive_reach [OF enc_reach.Start] that by blast
qed

section \<open>Properties\<close>

lemma finish_Inr: "finish e = Inr cs \<longleftrightarrow> \<not> en_pass_open e \<and> cs = en_commands e"
  by (auto simp: finish_def)

lemma finished_legal:
  assumes "enc_reach t encoder_new (e, p)" and "finish e = Inr cs"
  shows "holds_along t (legal t) stream_start cs" and "st_pass (replay_stream t cs) = Outside"
proof -
  from reach_tracked [OF assms(1)] obtain s where "tracks t (e, p) s" ..
  then have core: "core t e s" and agree: "agrees NoPass e s" by (auto simp: tracks_def dest: agrees_open)
  then show "holds_along t (legal t) stream_start cs" using assms(2) by (simp add: core_def finish_Inr)
  show "st_pass (replay_stream t cs) = Outside" using core agree assms(2) by (auto simp: core_def finish_Inr)
qed

text \<open>
  C22. Finished streams are free of resource races. Whatever calls recorded a stream, in any order and
  with any failures between them, replaying it never reaches a subresource that a shader wrote and no
  barrier has published, every barrier over such a subresource names the storage write, no two
  bindings of a draw or dispatch reach one resource when either may write it, and what a draw writes
  is neither its vertex or index input, nor an attachment, nor anything an earlier draw of the pass reached.
\<close>

theorem command_streams_race_free:
  assumes "enc_reach t encoder_new (e, p)" and "finish e = Inr cs"
  shows "holds_along t (race_free t) stream_start cs"
  using finished_legal(1) [OF assms] by (rule holds_along_mono) (simp add: legal_def)

theorem command_streams_race_free_witness: "holds_along example_table (race_free example_table) stream_start example_stream"
proof -
  obtain e where "enc_reach example_table encoder_new (e, NoPass)" and "finish e = Inr example_stream"
    by (rule example_reached)
  then show ?thesis by (rule command_streams_race_free)
qed

text \<open>
  C23. What a finished stream names is in bounds: transfers stay inside their buffers, mip levels and
  source data; copies do not overlap themselves; each vertex a draw without indices names and each
  instance any draw names, for every attribute of every slot of its pipeline, lies inside the bound
  buffer, and so does each index an indexed draw reads; draws have whole primitives; and the bind
  groups match the layout of the pipeline. The values of indices are contents of a buffer, which the
  encoder does not scan: of the vertices an indexed draw may address only the first is covered here.
\<close>

theorem command_streams_in_bounds:
  assumes "enc_reach t encoder_new (e, p)" and "finish e = Inr cs"
  shows "holds_along t (in_bounds t) stream_start cs"
  using finished_legal(1) [OF assms] by (rule holds_along_mono) (simp add: legal_def)

theorem command_streams_in_bounds_witness: "holds_along example_table (in_bounds example_table) stream_start example_stream"
proof -
  obtain e where "enc_reach example_table encoder_new (e, NoPass)" and "finish e = Inr example_stream"
    by (rule example_reached)
  then show ?thesis by (rule command_streams_in_bounds)
qed

text \<open>
  C24. A finished stream is well bracketed: transfers and barriers stand outside passes, draws and
  dispatches inside a pass of their kind, every pass that begins ends before the next, and none is open
  at the end. A pass encoder that is dropped without \<open>end\<close> leaves an encoder that never finishes.
\<close>

theorem command_streams_bracketed:
  assumes "enc_reach t encoder_new (e, p)" and "finish e = Inr cs"
  shows "holds_along t well_placed stream_start cs \<and> st_pass (replay_stream t cs) = Outside"
  using finished_legal [OF assms] by (auto intro: holds_along_mono simp: legal_def)

theorem command_streams_bracketed_witness:
  "holds_along example_table well_placed stream_start example_stream \<and>
   st_pass (replay_stream example_table example_stream) = Outside"
proof -
  obtain e where "enc_reach example_table encoder_new (e, NoPass)" and "finish e = Inr example_stream"
    by (rule example_reached)
  then show ?thesis by (rule command_streams_bracketed)
qed

text \<open>
  C25. An open pass can always be ended. While a pass is open, one of the \<open>MAX_COMMANDS\<close> slots is held
  back for its end: given memory for the command, \<open>end\<close> succeeds however full the encoder is, the
  encoder then finishes, and the stream is within the limit.
\<close>

theorem open_pass_can_end:
  assumes "enc_reach t encoder_new (e, p)" and "p \<noteq> NoPass" and "mem SiteCommand"
  shows "fst (end_pass mem c e) = Inr () \<and> finish (snd (end_pass mem c e)) = Inr (en_commands e @ [c]) \<and>
    length (en_commands e @ [c]) \<le> MAX_COMMANDS"
proof -
  from reach_tracked [OF assms(1)] obtain s where "tracks t (e, p) s" ..
  then have core: "core t e s" and "en_pass_open e" using assms(2) by (cases p; auto simp: tracks_def)+
  with coreD(1,2,4) [OF core] assms(3) show ?thesis
    by (auto simp: end_pass_def push_pass_end_def finish_def)
qed

theorem open_pass_can_end_witness:
  "\<exists>e r. enc_reach example_table encoder_new (e, InCompute r) \<and>
     finish (snd (end_pass (\<lambda>_. True) EndComputePass e)) = Inr [BeginComputePass, EndComputePass]"
proof -
  have "map_option (\<lambda>(e, p). (en_commands e, case p of InCompute _ \<Rightarrow> True | _ \<Rightarrow> False))
      (drive example_table [OnEncoder CallBeginCompute] (encoder_new, NoPass)) = Some ([BeginComputePass], True)"
    by code_simp
  then obtain e q where "drive example_table [OnEncoder CallBeginCompute] (encoder_new, NoPass) = Some (e, q)"
    and e: "en_commands e = [BeginComputePass]" and "case q of InCompute _ \<Rightarrow> True | _ \<Rightarrow> False"
    by (auto simp del: drive.simps)
  then obtain r where drive: "drive example_table [OnEncoder CallBeginCompute] (encoder_new, NoPass) = Some (e, InCompute r)"
    by (auto simp del: drive.simps split: open_pass.splits)
  note reach = drive_reach [OF enc_reach.Start drive]
  from open_pass_can_end [OF reach, where c = EndComputePass and mem = "\<lambda>_. True"] reach e show ?thesis by auto
qed

end
