(* ===== verification/Index_Bounds.thy ===== *)
theory Index_Bounds
  imports Buffer_Diff Binding_Desc
begin

text \<open>
  The index-extrema cache of \<^verbatim>\<open>crates/sgfx-core/src/backend/support/indices.rs\<close>: exact entries in
  a ring, aligned blocks in a direct-mapped table, and the reader that supplies what they miss. The
  reader is a trait of the backend; its two methods are arguments over a state of its own.
\<close>

section \<open>Extrema of index bytes\<close>

type_synonym extrema = "(u32 \<times> u32) option"

definition index_width :: "index_format \<Rightarrow> usize" where
  "index_width f = unat (index_byte_size f)"

definition decode_index :: "index_format \<Rightarrow> u8 list \<Rightarrow> u32" where
  "decode_index f bytes = (if f = Uint16 then ucast (le_word bytes :: u16) else le_word bytes)"

definition indices_of :: "index_format \<Rightarrow> u8 list \<Rightarrow> u32 list" where
  "indices_of f bytes = map (decode_index f) (chunks_exact (index_width f) bytes)"

definition widen :: "extrema \<Rightarrow> u32 \<Rightarrow> extrema" where
  "widen bounds index = Some (case bounds of None \<Rightarrow> (index, index)
     | Some (minimum, maximum) \<Rightarrow> (min minimum index, max maximum index))"

definition raw_index_bounds :: "u8 list \<Rightarrow> index_format \<Rightarrow> extrema ir_result" where
  "raw_index_bounds bytes f = Inr (foldl widen None (indices_of f bytes))"

text \<open>\<open>u32::try_from\<close> of a sum in \<open>i64\<close>, which two 32-bit operands cannot overflow.\<close>

definition offset_index :: "u32 \<Rightarrow> i32 \<Rightarrow> u32 ir_result" where
  "offset_index index base_vertex =
     (let v = uint index + sint base_vertex in if 0 \<le> v \<and> v < 2 ^ 32 then Inr (of_int v) else Inl OutOfBounds)"

definition maximum_with_base :: "extrema \<Rightarrow> i32 \<Rightarrow> u32 ir_result" where
  "maximum_with_base bounds base_vertex =
     (case bounds of None \<Rightarrow> Inr 0
      | Some (minimum, maximum) \<Rightarrow>
          and_then (offset_index minimum base_vertex) (\<lambda>_. offset_index maximum base_vertex))"

fun merge_index_bounds :: "extrema \<Rightarrow> extrema \<Rightarrow> extrema" where
  "merge_index_bounds (Some (a_min, a_max)) (Some (b_min, b_max)) = Some (min a_min b_min, max a_max b_max)"
| "merge_index_bounds a None = a"
| "merge_index_bounds None a = a"

section \<open>The cache\<close>

abbreviation "INDEX_BOUNDS_CACHE_SIZE \<equiv> (32 :: nat)"
abbreviation "INDEX_BLOCK_WORDS \<equiv> (1024 :: nat)"
abbreviation "INDEX_BLOCK_CACHE_SIZE \<equiv> (512 :: nat)"

record index_key =
  ik_buffer :: buffer_id
  ik_slot :: usize
  ik_revision :: u64
  ik_start :: usize
  ik_stop :: usize
  ik_format :: index_format

record bounds_entry =
  ie_key :: index_key
  ie_bounds :: extrema

record bounds_cache =
  bc_entries :: "bounds_entry option list"
  bc_next :: usize
  bc_blocks :: "bounds_entry option list"
  bc_block_failed :: bool
  bc_live :: usize

definition cache_new :: bounds_cache where
  "cache_new = \<lparr>bc_entries = replicate INDEX_BOUNDS_CACHE_SIZE None, bc_next = 0, bc_blocks = [],
     bc_block_failed = False, bc_live = 0\<rparr>"

definition cache_get :: "bounds_cache \<Rightarrow> index_key \<Rightarrow> extrema option" where
  "cache_get c key = map_option ie_bounds (find (\<lambda>e. ie_key e = key) (List.map_filter id (bc_entries c)))"

definition cache_insert :: "index_key \<Rightarrow> extrema \<Rightarrow> bounds_cache \<Rightarrow> bounds_cache" where
  "cache_insert key bounds c = c\<lparr>
     bc_live := (if bc_entries c ! bc_next c = None then bc_live c + 1 else bc_live c),
     bc_entries := (bc_entries c)[bc_next c := Some \<lparr>ie_key = key, ie_bounds = bounds\<rparr>],
     bc_next := (bc_next c + 1) mod INDEX_BOUNDS_CACHE_SIZE\<rparr>"

definition in_slot :: "usize \<Rightarrow> bounds_entry option \<Rightarrow> bool" where
  "in_slot slot e = (case e of None \<Rightarrow> False | Some x \<Rightarrow> ik_slot (ie_key x) = slot)"

definition drop_slot :: "usize \<Rightarrow> bounds_entry option list \<Rightarrow> bounds_entry option list" where
  "drop_slot slot = map (\<lambda>e. if in_slot slot e then None else e)"

definition invalidate :: "usize \<Rightarrow> bounds_cache \<Rightarrow> bounds_cache" where
  "invalidate slot c =
     (if bc_live c = 0 then c
      else c\<lparr>bc_entries := drop_slot slot (bc_entries c), bc_blocks := drop_slot slot (bc_blocks c),
             bc_live := bc_live c - length (filter (in_slot slot) (bc_entries c @ bc_blocks c))\<rparr>)"

text \<open>The bucket of a block, with the 64-bit arithmetic of \<open>usize\<close>.\<close>

definition block_bucket :: "index_key \<Rightarrow> usize" where
  "block_bucket key =
     (let block = of_nat (ik_start key div (INDEX_BLOCK_WORDS * index_width (ik_format key))) :: u64;
          salt = ((of_nat (ik_slot key) * 0x9e3779b1) XOR ik_revision key) XOR
                   (if ik_format key = Uint16 then 0 else 0x85ebca6b)
      in unat ((block XOR salt) AND 511))"

definition cache_block :: "bounds_cache \<Rightarrow> index_key \<Rightarrow> extrema option" where
  "cache_block c key =
     (case get (bc_blocks c) (block_bucket key) of
        Some (Some e) \<Rightarrow> if ie_key e = key then Some (ie_bounds e) else None
      | _ \<Rightarrow> None)"

text \<open>\<open>reserved\<close> answers the one reservation of the block table.\<close>

definition insert_block :: "bool \<Rightarrow> index_key \<Rightarrow> extrema \<Rightarrow> bounds_cache \<Rightarrow> bounds_cache" where
  "insert_block reserved key bounds c =
     (if bc_blocks c = [] \<and> bc_block_failed c then c
      else if bc_blocks c = [] \<and> \<not> reserved then c\<lparr>bc_block_failed := True\<rparr>
      else let blocks = (if bc_blocks c = [] then replicate INDEX_BLOCK_CACHE_SIZE None else bc_blocks c);
               bucket = block_bucket key
           in c\<lparr>bc_live := (if blocks ! bucket = None then bc_live c + 1 else bc_live c),
                bc_blocks := blocks[bucket := Some \<lparr>ie_key = key, ie_bounds = bounds\<rparr>]\<rparr>)"

section \<open>Reading through the cache\<close>

record ('r, 'e) index_reader =
  rd_read :: "'r \<Rightarrow> usize \<Rightarrow> usize \<Rightarrow> ('e + extrema) \<times> 'r"
  rd_block :: "'r \<Rightarrow> bool \<Rightarrow> 'r"

abbreviation block_bytes :: "index_key \<Rightarrow> usize" where
  "block_bytes key \<equiv> INDEX_BLOCK_WORDS * index_width (ik_format key)"

lemma index_width_pos [simp]: "0 < index_width f"
  by (cases f) (simp_all add: index_width_def)

lemma block_step: "block_bytes key \<le> stop - cursor \<Longrightarrow> stop - (cursor + block_bytes key) < stop - cursor"
  using index_width_pos [of "ik_format key"] by linarith

text \<open>The loop over whole blocks: the cursor and bounds it leaves, or the first read error.\<close>

function read_blocks ::
    "('r, 'e) index_reader \<Rightarrow> bool \<Rightarrow> index_key \<Rightarrow> usize \<Rightarrow> usize \<Rightarrow> extrema \<Rightarrow> bounds_cache \<times> 'r \<Rightarrow>
     ('e + usize \<times> extrema) \<times> bounds_cache \<times> 'r"
where
  "read_blocks rd reserved key stop cursor bounds (c, r) =
     (if stop - cursor \<ge> block_bytes key then
        (let block = key\<lparr>ik_start := cursor, ik_stop := cursor + block_bytes key\<rparr>;
             cached = cache_block c block;
             r1 = rd_block rd r (cached \<noteq> None)
         in case cached of
              Some part \<Rightarrow>
                read_blocks rd reserved key stop (cursor + block_bytes key) (merge_index_bounds bounds part) (c, r1)
            | None \<Rightarrow> (case rd_read rd r1 cursor (cursor + block_bytes key) of
                (Inl x, r2) \<Rightarrow> (Inl x, c, r2)
              | (Inr part, r2) \<Rightarrow>
                  read_blocks rd reserved key stop (cursor + block_bytes key) (merge_index_bounds bounds part)
                    (insert_block reserved block part c, r2)))
      else (Inr (cursor, bounds), c, r))"
  by pat_completeness auto
termination
proof (relation "measure (\<lambda>(rd, reserved, key, stop, cursor, bounds, s). stop - cursor)", goal_cases)
  case 1
  show ?case by simp
qed (use block_step in \<open>auto simp del: diff_diff_left\<close>)

declare read_blocks.simps [simp del]

definition blocked_bounds ::
    "('r, 'e) index_reader \<Rightarrow> bool \<Rightarrow> index_key \<Rightarrow> bounds_cache \<times> 'r \<Rightarrow> ('e + extrema) \<times> bounds_cache \<times> 'r"
where
  "blocked_bounds rd reserved key s =
     (let width = index_width (ik_format key);
          cursor = ik_start key;
          stop = ik_stop key - (ik_stop key - ik_start key) mod width;
          leading_words = (INDEX_BLOCK_WORDS - (cursor div width) mod INDEX_BLOCK_WORDS) mod INDEX_BLOCK_WORDS;
          head_stop = cursor + min (stop - cursor) (leading_words * width)
      in then_do (if head_stop \<noteq> cursor
                  then (case rd_read rd (snd s) cursor head_stop of (x, r) \<Rightarrow> (x, fst s, r))
                  else (Inr None, s)) (\<lambda>head s.
         then_do (read_blocks rd reserved key stop head_stop head s) (\<lambda>(cursor, bounds) s.
           if cursor \<noteq> stop
           then then_do (case rd_read rd (snd s) cursor stop of (x, r) \<Rightarrow> (x, fst s, r)) (\<lambda>tail s.
                  (Inr (merge_index_bounds bounds tail), s))
           else (Inr bounds, s))))"

definition cache_bounds ::
    "('r, 'e) index_reader \<Rightarrow> bool \<Rightarrow> index_key \<Rightarrow> bounds_cache \<times> 'r \<Rightarrow> ('e + extrema) \<times> bounds_cache \<times> 'r"
where
  "cache_bounds rd reserved key s =
     (case cache_get (fst s) key of
        Some bounds \<Rightarrow> (Inr bounds, s)
      | None \<Rightarrow> then_do (blocked_bounds rd reserved key s) (\<lambda>bounds s.
                  (Inr bounds, cache_insert key bounds (fst s), snd s)))"

section \<open>Extrema of adjoining ranges\<close>

lemma merge_None [simp]: "merge_index_bounds None a = a" "merge_index_bounds a None = a"
  by (cases a; simp)+

lemma merge_assoc: "merge_index_bounds (merge_index_bounds a b) c = merge_index_bounds a (merge_index_bounds b c)"
  by (cases "(a, b)" rule: merge_index_bounds.cases; cases "(b, c)" rule: merge_index_bounds.cases)
    (auto simp: min.assoc max.assoc)

lemma merge_commute: "merge_index_bounds a b = merge_index_bounds b a"
  by (cases "(a, b)" rule: merge_index_bounds.cases) (auto simp: min.commute max.commute)

lemma merge_idem [simp]: "merge_index_bounds a a = a"
  by (cases a) auto

interpretation bounds_merge: semilattice_neutr merge_index_bounds None
  by unfold_locales (rule merge_assoc merge_commute merge_idem merge_None)+

lemma widen_merge: "widen a i = merge_index_bounds a (Some (i, i))"
  by (cases a) (auto simp: widen_def)

lemma foldl_widen: "foldl widen a xs = merge_index_bounds a (foldl widen None xs)"
proof (induction xs arbitrary: a)
  case (Cons x xs)
  show ?case
    by (simp add: Cons [of "widen a x"] Cons [of "widen None x"]) (simp add: widen_merge merge_assoc)
qed simp

definition extrema_of :: "index_format \<Rightarrow> u8 list \<Rightarrow> extrema" where
  "extrema_of f bytes = foldl widen None (indices_of f bytes)"

lemma chunks_exact_append:
  assumes "length xs mod n = 0"
  shows "chunks_exact n (xs @ ys) = chunks_exact n xs @ chunks_exact n ys"
proof (cases "n = 0")
  case False
  obtain k where k: "length xs = k * n" using assms False by (auto elim!: dvdE simp: mod_eq_0_iff_dvd)
  have "(length xs + length ys) div n = k + length ys div n" using False by (simp add: k)
  moreover have "[0 ..< k + length ys div n] = [0 ..< k] @ map (\<lambda>i. i + k) [0 ..< length ys div n]"
    using upt_add_eq_append [of 0 k "length ys div n"] map_add_upt [of k "length ys div n"] by (simp add: add.commute [of k])
  moreover have "sub_slice (xs @ ys) (i * n) (i * n + n) = sub_slice xs (i * n) (i * n + n)" if "i < k" for i
  proof -
    have "Suc i * n \<le> k * n" using that by (intro mult_right_mono) auto
    then show ?thesis by (simp add: sub_slice_def k)
  qed
  moreover have "sub_slice (xs @ ys) ((i + k) * n) ((i + k) * n + n) = sub_slice ys (i * n) (i * n + n)" for i
    by (simp add: sub_slice_def k add_mult_distrib)
  ultimately show ?thesis using False by (simp add: chunks_exact_def k)
qed (simp add: chunks_exact_def)

lemma extrema_append:
  "length xs mod index_width f = 0 \<Longrightarrow>
     extrema_of f (xs @ ys) = merge_index_bounds (extrema_of f xs) (extrema_of f ys)"
  by (simp add: extrema_of_def indices_of_def chunks_exact_append foldl_widen [of "foldl widen None _"])

lemma extrema_short: "length xs < index_width f \<Longrightarrow> extrema_of f xs = None"
  by (simp add: extrema_of_def indices_of_def chunks_exact_def)

text \<open>The extrema of \<open>bytes[a..b]\<close>, split at an index boundary and rid of a partial index.\<close>

definition range_extrema :: "index_format \<Rightarrow> u8 list \<Rightarrow> usize \<Rightarrow> usize \<Rightarrow> extrema" where
  "range_extrema f bytes a b = extrema_of f (sub_slice bytes a b)"

lemma range_empty [simp]: "range_extrema f bytes a a = None"
  by (simp add: range_extrema_def sub_slice_def extrema_short)

lemma range_split:
  assumes "a \<le> b" "b \<le> c" "b \<le> length bytes" "(b - a) mod index_width f = 0"
  shows "merge_index_bounds (range_extrema f bytes a b) (range_extrema f bytes b c) = range_extrema f bytes a c"
  using assms by (simp add: range_extrema_def flip: extrema_append sub_slice_append [OF assms(1,2)])

lemma range_whole:
  assumes "a \<le> c" "c \<le> length bytes"
  shows "range_extrema f bytes a (c - (c - a) mod index_width f) = range_extrema f bytes a c"
proof -
  let ?b = "c - (c - a) mod index_width f"
  have b: "a \<le> ?b" "?b \<le> c" "c - ?b < index_width f"
    using mod_less_eq_dividend [of "c - a" "index_width f"] assms(1)
      mod_less_divisor [OF index_width_pos, of "c - a" f] by linarith+
  have "?b - a = (c - a) - (c - a) mod index_width f" using b(1) by linarith
  then have "(?b - a) mod index_width f = 0" by (metis minus_mod_eq_mult_div mod_mult_self1_is_0)
  then have "merge_index_bounds (range_extrema f bytes a ?b) (range_extrema f bytes ?b c) = range_extrema f bytes a c"
    using b assms by (intro range_split) auto
  moreover have "range_extrema f bytes ?b c = None"
    unfolding range_extrema_def using b(3) by (intro extrema_short) (simp add: min.strict_coboundedI1)
  ultimately show ?thesis by simp
qed

section \<open>The cache holds the extrema of the current bytes\<close>

text \<open>
  The bytes behind a key: those of one version of one buffer in one slot. A reader is faithful
  to them when every range it does read has the extrema it reports.
\<close>

type_synonym version = "buffer_id \<times> usize \<times> u64"
type_synonym memory = "version \<Rightarrow> u8 list"

definition version_of :: "index_key \<Rightarrow> version" where
  "version_of key = (ik_buffer key, ik_slot key, ik_revision key)"

definition key_bytes :: "memory \<Rightarrow> index_key \<Rightarrow> u8 list" where
  "key_bytes m key = sub_slice (m (version_of key)) (ik_start key) (ik_stop key)"

definition valid_key :: "memory \<Rightarrow> index_key \<Rightarrow> bool" where
  "valid_key m key \<longleftrightarrow> ik_start key \<le> ik_stop key \<and> ik_stop key \<le> length (m (version_of key))"

definition faithful_reader :: "u8 list \<Rightarrow> index_format \<Rightarrow> ('r, 'e) index_reader \<Rightarrow> bool" where
  "faithful_reader bytes f rd \<longleftrightarrow>
     (\<forall>r a b x. a \<le> b \<and> b \<le> length bytes \<and> fst (rd_read rd r a b) = Inr x \<longrightarrow>
        Inr x = raw_index_bounds (sub_slice bytes a b) f)"

definition reader_reports :: "('r, 'e) index_reader \<Rightarrow> 'e \<Rightarrow> bool" where
  "reader_reports rd x \<longleftrightarrow> (\<exists>r a b. fst (rd_read rd r a b) = Inl x)"

lemma faithful_read:
  "faithful_reader bytes f rd \<Longrightarrow> rd_read rd r a b = (Inr x, r') \<Longrightarrow> a \<le> b \<Longrightarrow> b \<le> length bytes \<Longrightarrow>
     x = range_extrema f bytes a b"
  unfolding faithful_reader_def raw_index_bounds_def range_extrema_def extrema_of_def
  by (metis fst_conv Inr_inject)

lemma reported: "rd_read rd r a b = (Inl x, r') \<Longrightarrow> reader_reports rd x"
  by (metis reader_reports_def fst_conv)

definition exact_entry :: "memory \<Rightarrow> bounds_entry option \<Rightarrow> bool" where
  "exact_entry m e = (case e of None \<Rightarrow> True
     | Some x \<Rightarrow> ie_bounds x = extrema_of (ik_format (ie_key x)) (key_bytes m (ie_key x)))"

definition live_entries :: "bounds_entry option list \<Rightarrow> nat" where
  "live_entries es = length (filter (\<lambda>e. e \<noteq> None) es)"

definition exact_cache :: "memory \<Rightarrow> bounds_cache \<Rightarrow> bool" where
  "exact_cache m c \<longleftrightarrow>
     (\<forall>e \<in> set (bc_entries c). exact_entry m e) \<and> (\<forall>e \<in> set (bc_blocks c). exact_entry m e) \<and>
     length (bc_entries c) = INDEX_BOUNDS_CACHE_SIZE \<and> bc_next c < INDEX_BOUNDS_CACHE_SIZE \<and>
     (bc_blocks c = [] \<or> length (bc_blocks c) = INDEX_BLOCK_CACHE_SIZE) \<and>
     bc_live c = live_entries (bc_entries c) + live_entries (bc_blocks c)"

lemma exact_entry_simps [simp]:
  "exact_entry m None"
  "exact_entry m (Some x) \<longleftrightarrow> ie_bounds x = extrema_of (ik_format (ie_key x)) (key_bytes m (ie_key x))"
  by (simp_all add: exact_entry_def)

lemma live_replicate [simp]: "live_entries (replicate n None) = 0" "live_entries [] = 0"
  by (simp_all add: live_entries_def)

lemma live_update:
  "i < length es \<Longrightarrow> live_entries (es[i := Some x]) = (if es ! i = None then live_entries es + 1 else live_entries es)"
  by (induction es arbitrary: i) (auto simp: live_entries_def split: nat.splits)

lemma live_zero: "live_entries es = 0 \<longleftrightarrow> (\<forall>e \<in> set es. e = None)"
  by (simp add: live_entries_def filter_empty_conv)

lemma in_slot_simps [simp]: "\<not> in_slot s None" "in_slot s (Some x) \<longleftrightarrow> ik_slot (ie_key x) = s"
  by (simp_all add: in_slot_def)

lemma live_Cons [simp]: "live_entries (e # es) = (if e = None then 0 else 1) + live_entries es"
  by (simp add: live_entries_def)

lemma live_drop: "live_entries (drop_slot s es) + length (filter (in_slot s) es) = live_entries es"
proof (induction es)
  case (Cons e es)
  then show ?case by (cases e) (auto simp: drop_slot_def)
qed (simp add: drop_slot_def)

lemma exact_new: "exact_cache m cache_new"
  by (simp add: exact_cache_def cache_new_def)

lemma update_cases: "e \<in> set (es[i := e']) \<Longrightarrow> e = e' \<or> e \<in> set es"
  using set_update_subset_insert [of es i e'] by blast

lemma block_bucket_less: "block_bucket key < INDEX_BLOCK_CACHE_SIZE"
proof -
  have "(w AND 511 :: u64) \<le> 511" for w by (rule word_and_le1)
  then show ?thesis unfolding block_bucket_def Let_def by (simp add: word_le_nat_alt less_Suc_eq_le [symmetric])
qed

lemma in_flatten: "x \<in> set (List.map_filter id es) \<longleftrightarrow> Some x \<in> set es"
  by (induction es) (auto simp: List.map_filter_simps split: option.splits)

lemma find_SomeD: "find P xs = Some x \<Longrightarrow> x \<in> set xs \<and> P x"
  by (auto simp: find_Some_iff)

lemma exact_cache_get:
  "exact_cache m c \<Longrightarrow> cache_get c key = Some b \<Longrightarrow> b = extrema_of (ik_format key) (key_bytes m key)"
  by (auto simp: cache_get_def exact_cache_def in_flatten dest!: find_SomeD dest: bspec)

lemma exact_cache_block:
  "exact_cache m c \<Longrightarrow> cache_block c key = Some b \<Longrightarrow> b = extrema_of (ik_format key) (key_bytes m key)"
  by (auto simp: cache_block_def exact_cache_def get_Some split: option.splits if_splits dest!: nth_mem)

lemma exact_cache_insert:
  assumes "exact_cache m c" "b = extrema_of (ik_format key) (key_bytes m key)"
  shows "exact_cache m (cache_insert key b c)"
  using assms by (auto simp: exact_cache_def cache_insert_def live_update dest!: update_cases)

lemma exact_insert_block:
  assumes "exact_cache m c" "b = extrema_of (ik_format key) (key_bytes m key)"
  shows "exact_cache m (insert_block reserved key b c)"
  using assms block_bucket_less [of key]
  by (auto simp: exact_cache_def insert_block_def Let_def live_update dest!: update_cases)

lemma exact_invalidate:
  assumes "exact_cache m c" "\<And>v. fst (snd v) \<noteq> s \<Longrightarrow> m' v = m v"
  shows "exact_cache m' (invalidate s c)"
proof (cases "bc_live c = 0")
  case True
  then show ?thesis using assms by (auto simp: exact_cache_def invalidate_def live_zero)
next
  case False
  have one: "exact_entry m' (if in_slot s e then None else e)" if "exact_entry m e" for e
    using that assms(2) by (cases e) (auto simp: in_slot_def key_bytes_def version_of_def)
  then have entries: "\<forall>e \<in> set (drop_slot s es). exact_entry m' e" if "\<forall>e \<in> set es. exact_entry m e" for es
    using that one unfolding drop_slot_def set_map by blast
  show ?thesis using assms(1) False entries [of "bc_entries c"] entries [of "bc_blocks c"]
      live_drop [of s "bc_entries c"] live_drop [of s "bc_blocks c"]
    by (auto simp: exact_cache_def invalidate_def) (auto simp: drop_slot_def)
qed

lemma key_bytes_sub:
  "key_bytes m (key\<lparr>ik_start := a, ik_stop := b\<rparr>) = sub_slice (m (version_of key)) a b"
  by (simp add: key_bytes_def version_of_def)

definition exact_outcome :: "memory \<Rightarrow> ('r, 'e) index_reader \<Rightarrow> extrema \<Rightarrow> ('e + extrema) \<times> bounds_cache \<times> 'r \<Rightarrow> bool" where
  "exact_outcome m rd x out \<longleftrightarrow> exact_cache m (fst (snd out)) \<and>
     (case fst out of Inl e \<Rightarrow> reader_reports rd e | Inr y \<Rightarrow> y = x)"

text \<open>The part of the key's range that the bounds gathered so far account for.\<close>

definition covered :: "memory \<Rightarrow> index_key \<Rightarrow> usize \<Rightarrow> extrema \<Rightarrow> bool" where
  "covered m key cursor bounds \<longleftrightarrow>
     ik_start key \<le> cursor \<and> (cursor - ik_start key) mod index_width (ik_format key) = 0 \<and>
     bounds = range_extrema (ik_format key) (m (version_of key)) (ik_start key) cursor"

lemma covered_step:
  assumes "covered m key a bounds" "a \<le> b" "b \<le> length (m (version_of key))"
    and "(b - a) mod index_width (ik_format key) = 0"
    and "part = range_extrema (ik_format key) (m (version_of key)) a b"
  shows "covered m key b (merge_index_bounds bounds part)"
proof -
  have "b - ik_start key = (b - a) + (a - ik_start key)" using assms(1,2) by (simp add: covered_def)
  then have "(b - ik_start key) mod index_width (ik_format key) = 0"
    using assms(1,4) mod_add_eq [of "b - a" "index_width (ik_format key)" "a - ik_start key"]
    by (simp add: covered_def)
  moreover have "merge_index_bounds bounds part =
      range_extrema (ik_format key) (m (version_of key)) (ik_start key) b"
    using assms by (auto simp: covered_def intro: range_split)
  ultimately show ?thesis using assms(1,2) by (simp add: covered_def)
qed

definition blocks_outcome ::
    "memory \<Rightarrow> ('r, 'e) index_reader \<Rightarrow> index_key \<Rightarrow> usize \<Rightarrow> ('e + usize \<times> extrema) \<times> bounds_cache \<times> 'r \<Rightarrow> bool" where
  "blocks_outcome m rd key stop out \<longleftrightarrow> exact_cache m (fst (snd out)) \<and>
     (case fst out of Inl e \<Rightarrow> reader_reports rd e
      | Inr (cursor, bounds) \<Rightarrow> covered m key cursor bounds \<and> cursor \<le> stop)"

lemma outcome_simps [simp]:
  "blocks_outcome m rd key stop (Inl e, s) \<longleftrightarrow> exact_cache m (fst s) \<and> reader_reports rd e"
  "blocks_outcome m rd key stop (Inr (cursor, bounds), s) \<longleftrightarrow>
     exact_cache m (fst s) \<and> covered m key cursor bounds \<and> cursor \<le> stop"
  "exact_outcome m rd x (Inl e, s) \<longleftrightarrow> exact_cache m (fst s) \<and> reader_reports rd e"
  "exact_outcome m rd x (Inr y, s) \<longleftrightarrow> exact_cache m (fst s) \<and> y = x"
  by (simp_all add: blocks_outcome_def exact_outcome_def)

lemma read_blocks_exact:
  assumes rd: "faithful_reader (m (version_of key)) (ik_format key) rd"
    and "stop \<le> length (m (version_of key))" "exact_cache m (fst s)" "covered m key cursor bounds" "cursor \<le> stop"
  shows "blocks_outcome m rd key stop (read_blocks rd reserved key stop cursor bounds s)"
  using assms
proof (induction rd reserved key stop cursor bounds s rule: read_blocks.induct)
  case (1 rd reserved key stop cursor bounds c r)
  note prems = "1.prems"
  let ?next = "cursor + block_bytes key" and ?f = "ik_format key" and ?bytes = "m (version_of key)"
  let ?block = "key\<lparr>ik_start := cursor, ik_stop := ?next\<rparr>"
  let ?part = "range_extrema ?f ?bytes cursor ?next"
  show ?case
  proof (cases "block_bytes key \<le> stop - cursor")
    case more: True
    then have room: "cursor \<le> ?next" "?next \<le> stop" "?next \<le> length ?bytes"
      using prems(2,5) block_step [OF more] by linarith+
    have step: "covered m key ?next (merge_index_bounds bounds ?part)"
      using prems(4) room by (intro covered_step) auto
    have part: "?part = extrema_of (ik_format ?block) (key_bytes m ?block)"
      by (simp add: key_bytes_sub range_extrema_def)
    show ?thesis
    proof (cases "cache_block c ?block")
      case (Some part)
      with exact_cache_block [OF _ Some] prems(3) part have "part = ?part" by simp
      with "1.IH"(2) [OF more refl refl refl Some] prems step room show ?thesis
        by (subst read_blocks.simps) (simp add: more Some Let_def)
    next
      case None
      let ?r1 = "rd_block rd r (cache_block c ?block \<noteq> None)"
      obtain x r2 where read: "rd_read rd ?r1 cursor ?next = (x, r2)" by fastforce
      show ?thesis
      proof (cases x)
        case (Inl e)
        then show ?thesis using prems(3) reported read None more
          by (subst read_blocks.simps) (fastforce simp: Let_def)
      next
        case (Inr y)
        with read faithful_read [OF prems(1)] room have y: "y = ?part" by simp
        have "exact_cache m (insert_block reserved ?block y c)"
          using prems(3) y part by (intro exact_insert_block) auto
        with "1.IH"(1) [OF more refl refl refl None read [symmetric] Inr] prems step room y
        show ?thesis using read None more Inr
          by (subst read_blocks.simps) (simp add: Let_def)
      qed
    qed
  next
    case False
    then show ?thesis using prems by (subst read_blocks.simps) simp
  qed
qed

lemma mod_diff_zero: "a \<le> b \<Longrightarrow> b \<le> c \<Longrightarrow> (c - a) mod n = 0 \<Longrightarrow> (b - a) mod n = 0 \<Longrightarrow> (c - b) mod n = (0 :: nat)"
  using dvd_diff_nat [of n "c - a" "b - a"] by (auto simp: mod_eq_0_iff_dvd)

lemma min_multiple: "a mod n = 0 \<Longrightarrow> min a (k * n) mod n = (0 :: nat)"
  by (simp add: min_def)

lemma blocked_bounds_exact:
  fixes rd :: "('r, 'e) index_reader"
  assumes rd: "faithful_reader (m (version_of key)) (ik_format key) rd"
    and valid: "valid_key m key" and cache: "exact_cache m (fst s)"
  shows "exact_outcome m rd (extrema_of (ik_format key) (key_bytes m key)) (blocked_bounds rd reserved key s)"
proof -
  let ?f = "ik_format key" and ?bytes = "m (version_of key)" and ?start = "ik_start key"
  let ?w = "index_width ?f"
  define stop where "stop = ik_stop key - (ik_stop key - ?start) mod ?w"
  define lead where "lead = (INDEX_BLOCK_WORDS - (?start div ?w) mod INDEX_BLOCK_WORDS) mod INDEX_BLOCK_WORDS"
  define head_stop where "head_stop = ?start + min (stop - ?start) (lead * ?w)"
  define head where "head = (if head_stop \<noteq> ?start
    then (case rd_read rd (snd s) ?start head_stop of (x, r) \<Rightarrow> (x, fst s, r)) else (Inr None, s))"
  define tail where "tail = (\<lambda>cursor bounds (s :: bounds_cache \<times> 'r). if cursor \<noteq> stop
    then then_do (case rd_read rd (snd s) cursor stop of (x, r) \<Rightarrow> (x, fst s, r))
      (\<lambda>tail s. (Inr (merge_index_bounds bounds tail), s)) else (Inr bounds, s))"
  have stop: "?start \<le> stop" "stop \<le> length ?bytes" "stop - ?start = (ik_stop key - ?start) - (ik_stop key - ?start) mod ?w"
    using valid mod_less_eq_dividend [of "ik_stop key - ?start" ?w]
    unfolding stop_def valid_key_def by linarith+
  then have whole: "(stop - ?start) mod ?w = 0" by (metis minus_mod_eq_mult_div mod_mult_self1_is_0)
  have answer: "x = extrema_of ?f (key_bytes m key)" if "covered m key stop x" for x
    using that valid range_whole [of ?start "ik_stop key" ?bytes ?f]
    by (simp add: covered_def stop_def key_bytes_def valid_key_def range_extrema_def)
  have head_room: "?start \<le> head_stop" "head_stop \<le> stop" "head_stop \<le> length ?bytes"
    "(head_stop - ?start) mod ?w = 0"
    using stop(1,2) min_multiple [OF whole, of lead] by (auto simp: head_stop_def)
  have head_ok: "blocks_outcome m rd key stop (then_do head (\<lambda>x s. (Inr (head_stop, x), s)))"
  proof (cases "head_stop = ?start")
    case True
    then show ?thesis using cache stop by (simp add: head_def covered_def)
  next
    case False
    obtain x r where read: "rd_read rd (snd s) ?start head_stop = (x, r)" by fastforce
    show ?thesis using False read faithful_read [OF rd] reported [of rd] cache head_room
      by (cases x) (fastforce simp: head_def covered_def)+
  qed
  have tail_ok: "exact_outcome m rd (extrema_of ?f (key_bytes m key)) (tail cursor bounds s)"
    if "exact_cache m (fst s)" "covered m key cursor bounds" "cursor \<le> stop" for cursor bounds s
  proof (cases "cursor = stop")
    case True
    then show ?thesis using that answer by (simp add: tail_def)
  next
    case False
    obtain x r where read: "rd_read rd (snd s) cursor stop = (x, r)" by fastforce
    have rest: "(stop - cursor) mod ?w = 0"
      using that(2,3) whole mod_diff_zero [of ?start cursor stop ?w] by (simp add: covered_def)
    have "merge_index_bounds bounds y = extrema_of ?f (key_bytes m key)" if "x = Inr y" for y
      using covered_step [OF \<open>covered m key cursor bounds\<close> \<open>cursor \<le> stop\<close> stop(2) rest]
        faithful_read [OF rd, of _ cursor stop] read that \<open>cursor \<le> stop\<close> stop(2) by (intro answer) simp
    then show ?thesis using False read reported [of rd] that(1)
      by (cases x) (fastforce simp: tail_def)+
  qed
  have "blocked_bounds rd reserved key s = then_do head (\<lambda>x s.
      then_do (read_blocks rd reserved key stop head_stop x s) (\<lambda>(cursor, bounds) s. tail cursor bounds s))"
    unfolding blocked_bounds_def Let_def head_def tail_def head_stop_def lead_def stop_def by (rule refl)
  moreover have "exact_outcome m rd (extrema_of ?f (key_bytes m key))
      (then_do (read_blocks rd reserved key stop head_stop x s') (\<lambda>(cursor, bounds) s. tail cursor bounds s))"
    if "exact_cache m (fst s')" "covered m key head_stop x" for x s'
  proof -
    obtain y s2 where "read_blocks rd reserved key stop head_stop x s' = (y, s2)" by (rule prod.exhaust)
    with read_blocks_exact [OF rd stop(2) that head_room(2), of reserved] show ?thesis
      using tail_ok [of s2] by (cases y) (auto simp del: split_paired_All)
  qed
  ultimately show ?thesis using head_ok by (cases head; cases "fst head") auto
qed

lemma cache_bounds_exact:
  assumes "faithful_reader (m (version_of key)) (ik_format key) rd" "valid_key m key" "exact_cache m (fst s)"
  shows "exact_outcome m rd (extrema_of (ik_format key) (key_bytes m key)) (cache_bounds rd reserved key s)"
proof (cases "cache_get (fst s) key")
  case None
  obtain y s' where "blocked_bounds rd reserved key s = (y, s')" by (rule prod.exhaust)
  with blocked_bounds_exact [OF assms, of reserved] None show ?thesis
    by (cases y) (auto simp: cache_bounds_def intro: exact_cache_insert)
next
  case (Some b)
  then show ?thesis using assms exact_cache_get [OF assms(3)] by (simp add: cache_bounds_def exact_outcome_def)
qed

section \<open>Sequences of queries and writes\<close>

datatype ('r, 'e) cache_op =
    Query "('r, 'e) index_reader" bool index_key 'r
  | Overwrite usize memory

definition written :: "usize \<Rightarrow> memory \<Rightarrow> memory \<Rightarrow> memory" where
  "written slot m' m = (\<lambda>v. if fst (snd v) = slot then m' v else m v)"

text \<open>Each answer, with the bytes it is about and the reader that was at hand.\<close>

fun run_cache :: "('r, 'e) cache_op list \<Rightarrow> memory \<Rightarrow> bounds_cache \<Rightarrow>
    (u8 list \<times> index_format \<times> ('r, 'e) index_reader \<times> ('e + extrema)) list" where
  "run_cache [] m c = []"
| "run_cache (Query rd reserved key r # ops) m c =
     (case cache_bounds rd reserved key (c, r) of (x, c', _) \<Rightarrow>
        (key_bytes m key, ik_format key, rd, x) # run_cache ops m c')"
| "run_cache (Overwrite slot m' # ops) m c = run_cache ops (written slot m' m) (invalidate slot c)"

fun queries_valid :: "('r, 'e) cache_op list \<Rightarrow> memory \<Rightarrow> bool" where
  "queries_valid [] m = True"
| "queries_valid (Query rd reserved key r # ops) m =
     (valid_key m key \<and> faithful_reader (m (version_of key)) (ik_format key) rd \<and> queries_valid ops m)"
| "queries_valid (Overwrite slot m' # ops) m = queries_valid ops (written slot m' m)"

definition exact_answer :: "u8 list \<times> index_format \<times> ('r, 'e) index_reader \<times> ('e + extrema) \<Rightarrow> bool" where
  "exact_answer = (\<lambda>(bytes, f, rd, x). case x of Inl e \<Rightarrow> reader_reports rd e
     | Inr bounds \<Rightarrow> raw_index_bounds bytes f = Inr bounds)"

lemma run_cache_exact:
  "exact_cache m c \<Longrightarrow> queries_valid ops m \<Longrightarrow> list_all exact_answer (run_cache ops m c)"
proof (induction ops m c rule: run_cache.induct)
  case (2 rd reserved key r ops m c)
  obtain x c' r' where out: "cache_bounds rd reserved key (c, r) = (x, c', r')" by (metis surj_pair)
  with cache_bounds_exact [of m key rd "(c, r)" reserved] "2.prems"
  have "exact_outcome m rd (extrema_of (ik_format key) (key_bytes m key)) (x, c', r')" by simp
  with out "2.IH" "2.prems" show ?case
    by (cases x) (auto simp: exact_answer_def raw_index_bounds_def extrema_of_def)
next
  case (3 slot m' ops m c)
  then have "exact_cache (written slot m' m) (invalidate slot c)"
    by (intro exact_invalidate) (auto simp: written_def)
  with 3 show ?case by simp
qed simp

section \<open>The range of a base vertex\<close>

lemma widen_simps [simp]:
  "widen None i = Some (i, i)" "widen (Some (a, b)) i = Some (min a i, max b i)"
  by (simp_all add: widen_def)

lemma foldl_widen_Some:
  "foldl widen (Some (a, b)) xs = Some (Min (insert a (set xs)), Max (insert b (set xs)))"
proof (induction xs arbitrary: a b)
  case (Cons x xs)
  show ?case by (cases "xs = []") (simp_all add: Cons min.left_commute max.left_commute min.assoc max.assoc)
qed simp

lemma foldl_widen_None:
  "foldl widen None xs = (if xs = [] then None else Some (Min (set xs), Max (set xs)))"
  by (cases xs) (simp_all add: widen_def foldl_widen_Some)

definition base_fits :: "i32 \<Rightarrow> u32 \<Rightarrow> bool" where
  "base_fits base_vertex index \<longleftrightarrow> 0 \<le> uint index + sint base_vertex \<and> uint index + sint base_vertex < 2 ^ 32"

lemma offset_index_eq:
  "offset_index i b = (if base_fits b i then Inr (of_int (uint i + sint b)) else Inl OutOfBounds)"
  by (simp add: offset_index_def base_fits_def Let_def)

lemma base_fits_mono: "base_fits b lo \<Longrightarrow> base_fits b hi \<Longrightarrow> lo \<le> i \<Longrightarrow> i \<le> hi \<Longrightarrow> base_fits b i"
  by (auto simp: base_fits_def word_le_def)

lemma base_fits_extrema:
  assumes "xs \<noteq> []"
  shows "base_fits b (Min (set xs)) \<and> base_fits b (Max (set xs)) \<longleftrightarrow> list_all (base_fits b) xs"
proof -
  have "Min (set xs) \<in> set xs" "Max (set xs) \<in> set xs" using assms by simp_all
  moreover have "base_fits b i" if "i \<in> set xs" "base_fits b (Min (set xs))" "base_fits b (Max (set xs))" for i
    using base_fits_mono [OF that(2,3)] that(1) by simp
  ultimately show ?thesis by (auto simp: list_all_iff)
qed

text \<open>
  C32. Through any sequence of queries and slot overwrites, each overwrite followed by \<open>invalidate\<close>
  of its slot, every answer of the index cache is the extrema that a full decode of the queried
  bytes gives at that moment; a query fails only with an error its reader reported. The answer may
  come from the exact ring, from cached aligned blocks merged with a head and a tail, or from reads.
\<close>

theorem index_cache_answers_are_exact:
  assumes "queries_valid ops m"
  shows "list_all exact_answer (run_cache ops m cache_new)"
  using assms by (intro run_cache_exact exact_new)

text \<open>
  The hypothesis at work: a reader of the memory that counts its reads, two equal queries (the second
  answered from the ring), an overwrite of the slot, and the query again.
\<close>

definition memory_reader :: "u8 list \<Rightarrow> index_format \<Rightarrow> (nat, unit) index_reader" where
  "memory_reader bytes f = \<lparr>
     rd_read = (\<lambda>n a b. (Inr (extrema_of f (sub_slice bytes a b)), n + 1)),
     rd_block = (\<lambda>n hit. n)\<rparr>"

lemma faithful_memory_reader: "faithful_reader bytes f (memory_reader bytes f)"
  by (simp add: faithful_reader_def memory_reader_def raw_index_bounds_def extrema_of_def)

definition example_key :: index_key where
  "example_key = \<lparr>ik_buffer = \<lparr>id_owner = 1, id_index = 3, id_generation = 0\<rparr>, ik_slot = 3, ik_revision = 1, ik_start = 0, ik_stop = 4, ik_format = Uint16\<rparr>"

definition example_queries :: "(nat, unit) cache_op list" where
  "example_queries =
     (let query = (\<lambda>bytes. Query (memory_reader bytes Uint16) True example_key 0)
      in [query [1, 0, 2, 1], query [1, 0, 2, 1], Overwrite 3 (\<lambda>v. [9, 9, 9, 9]), query [9, 9, 9, 9]])"

theorem index_cache_answers_are_exact_witness:
  "list_all exact_answer (run_cache example_queries (\<lambda>v. [1, 0, 2, 1]) cache_new)"
  by (rule index_cache_answers_are_exact)
    (simp add: example_queries_def example_key_def valid_key_def written_def version_of_def faithful_memory_reader)

text \<open>
  Checking only the two extrema is checking every index: with a signed base vertex, the maximum
  is returned exactly when every index of the bytes stays within 32 bits, else the draw is out of
  bounds, also when the minimum alone underflows.
\<close>

lemma maximum_with_base_checks_every_index:
  "and_then (raw_index_bounds bytes f) (\<lambda>bounds. maximum_with_base bounds base_vertex) =
     (let is = indices_of f bytes in
      if list_all (base_fits base_vertex) is
      then Inr (if is = [] then 0 else of_int (uint (Max (set is)) + sint base_vertex))
      else Inl OutOfBounds)"
  using base_fits_extrema [of "indices_of f bytes" base_vertex]
  by (auto simp: raw_index_bounds_def maximum_with_base_def foldl_widen_None offset_index_eq Let_def)

end
