(* ===== verification/Abi_Codec.thy ===== *)
theory Abi_Codec
  imports Command_Encoder
begin

text \<open>
  The word codec of \<^verbatim>\<open>crates/sgfx-core/src/ir/abi/codec.rs\<close>: values are written as 64-bit words and
  read back by a cursor over the words. A \<open>Reader\<close> is the list of words it has left; a \<open>get\<close> takes
  the table it resolves identities in and returns its result with the words it leaves. Enum numbers
  are those of the source, a table per type as in its macro. The locale \<open>codec\<close> states what every
  implementation of the trait promises; each type is an interpretation of it.
\<close>

section \<open>The reader\<close>

type_synonym 'a reading = "'a ir_result \<times> u64 list"

definition reader_word :: "u64 list \<Rightarrow> u64 reading" where
  "reader_word ws = (case ws of [] \<Rightarrow> (Inl InvalidDescriptor, ws) | first # rest \<Rightarrow> (Inr first, rest))"

definition reader_take :: "nat \<Rightarrow> u64 list \<Rightarrow> u64 list reading" where
  "reader_take n ws =
     (if n > length ws then (Inl InvalidDescriptor, ws) else (Inr (take n ws), drop n ws))"

definition reader_end :: "u64 list \<Rightarrow> unit ir_result" where
  "reader_end ws = (if ws = [] then Inr () else Inl InvalidDescriptor)"

lemma reader_word_simps [simp]:
  "reader_word [] = (Inl InvalidDescriptor, [])" "reader_word (w # ws) = (Inr w, ws)"
  by (simp_all add: reader_word_def)

lemma reader_take_append [simp]: "n = length xs \<Longrightarrow> reader_take n (xs @ ws) = (Inr xs, ws)"
  by (simp add: reader_take_def)

lemma reader_end_simps [simp]: "reader_end [] = Inr ()" "reader_end (w # ws) = Inl InvalidDescriptor"
  by (simp_all add: reader_end_def)

text \<open>
  The table identities are resolved in, with the one flag of its ABI state that a reader consults:
  whether program rows carry no generation.
\<close>

record abi_table =
  at_table :: resource_table
  at_legacy :: bool

text \<open>\<open>f(r.value(t)?)\<close> for a pure constructor, fallible or not.\<close>

definition reads :: "'a reading \<Rightarrow> ('a \<Rightarrow> 'b ir_result) \<Rightarrow> 'b reading" where
  "reads m f = then_do m (\<lambda>x ws. (f x, ws))"

lemma reads_simps [simp]: "reads (Inl e, ws) f = (Inl e, ws)" "reads (Inr x, ws) f = (f x, ws)"
  by (simp_all add: reads_def)

lemma reading_inversion:
  "reader_word ws = (Inr w, ws') \<longleftrightarrow> ws = w # ws'"
  "reads m f = (Inr y, ws') \<longleftrightarrow> (\<exists>x. m = (Inr x, ws') \<and> f x = Inr y)"
  "reader_take n ws = (Inr xs, ws') \<longleftrightarrow> ws = xs @ ws' \<and> length xs = n"
  "reader_end ws = Inr u \<longleftrightarrow> ws = []"
  by (auto simp: reader_word_def reads_def then_do_Inr reader_take_def reader_end_def min_def split: list.splits)

section \<open>The contract of a codec\<close>

named_theorems codec_simps \<open>reading back what a codec wrote\<close>

locale codec =
  fixes put :: "'a \<Rightarrow> u64 list"
    and getv :: "abi_table \<Rightarrow> u64 list \<Rightarrow> 'a reading"
    and ok :: "abi_table \<Rightarrow> 'a \<Rightarrow> bool"
  assumes round_trip [codec_simps]: "ok t x \<Longrightarrow> getv t (put x @ ws) = (Inr x, ws)"
    and nonempty: "ok t x \<Longrightarrow> put x \<noteq> []"
begin

lemma round_trip_end [codec_simps]: "ok t x \<Longrightarrow> getv t (put x) = (Inr x, [])"
  using round_trip [of t x "[]"] by simp

lemma prefix_free:
  "ok t x \<Longrightarrow> ok t y \<Longrightarrow> put x @ ws = put y @ vs \<longleftrightarrow> x = y \<and> ws = vs"
  by (metis round_trip prod.inject sum.inject(2))

lemma put_inj: "ok t x \<Longrightarrow> ok t y \<Longrightarrow> put x = put y \<longleftrightarrow> x = y"
  using prefix_free [of t x y "[]" "[]"] by simp

end

text \<open>
  Most readers accept nothing but what their writer produces from a valid value; the exceptions are
  the rows that may be extended, the constructors that normalize what they are given, and the older
  format, whose program rows have no generation.
\<close>

named_theorems canonical_dests \<open>what a successful reading says of the words\<close>

locale canonical_codec = codec +
  assumes canonical [canonical_dests]: "\<not> at_legacy t \<Longrightarrow> getv t ws = (Inr x, ws') \<Longrightarrow> ws = put x @ ws' \<and> ok t x"
begin

lemma get_iff: "\<not> at_legacy t \<Longrightarrow> getv t ws = (Inr x, ws') \<longleftrightarrow> ws = put x @ ws' \<and> ok t x"
  using canonical round_trip by auto

end

section \<open>Integers and floats\<close>

definition put_u8 :: "u8 \<Rightarrow> u64 list" where "put_u8 x = [ucast x]"

definition get_u8 :: "abi_table \<Rightarrow> u64 list \<Rightarrow> u8 reading" where
  "get_u8 t ws = reads (reader_word ws) (\<lambda>w. if unat w < 2 ^ 8 then Inr (ucast w) else Inl InvalidValue)"

definition put_u32 :: "u32 \<Rightarrow> u64 list" where "put_u32 x = [ucast x]"

definition get_u32 :: "abi_table \<Rightarrow> u64 list \<Rightarrow> u32 reading" where
  "get_u32 t ws = reads (reader_word ws) (\<lambda>w. if unat w < 2 ^ 32 then Inr (ucast w) else Inl InvalidValue)"

definition put_u64 :: "u64 \<Rightarrow> u64 list" where "put_u64 x = [x]"

definition get_u64 :: "abi_table \<Rightarrow> u64 list \<Rightarrow> u64 reading" where
  "get_u64 t ws = reader_word ws"

definition put_usize :: "usize \<Rightarrow> u64 list" where "put_usize n = [of_nat n]"

definition get_usize :: "abi_table \<Rightarrow> u64 list \<Rightarrow> usize reading" where
  "get_usize t ws = reads (reader_word ws) (\<lambda>w. Inr (unat w))"

definition put_i32 :: "i32 \<Rightarrow> u64 list" where "put_i32 x = put_u32 x"

definition get_i32 :: "abi_table \<Rightarrow> u64 list \<Rightarrow> i32 reading" where "get_i32 = get_u32"

definition put_bool :: "bool \<Rightarrow> u64 list" where "put_bool b = [if b then 1 else 0]"

definition get_bool :: "abi_table \<Rightarrow> u64 list \<Rightarrow> bool reading" where
  "get_bool t ws = reads (reader_word ws)
     (\<lambda>w. if w = 0 then Inr False else if w = 1 then Inr True else Inl InvalidValue)"

definition put_f32 :: "f32 \<Rightarrow> u64 list" where "put_f32 x = put_u32 x"

definition get_f32 :: "abi_table \<Rightarrow> u64 list \<Rightarrow> f32 reading" where "get_f32 = get_u32"

lemma ucast_up_down [simp]:
  "ucast (ucast (x :: u8) :: u64) = x" "ucast (ucast (y :: u32) :: u64) = y"
  by (auto simp: bit_eq_iff bit_simps dest: bit_imp_le_length)

lemma unat_ucast_up [simp]: "unat (ucast (x :: u8) :: u64) = unat x" "unat (ucast (y :: u32) :: u64) = unat y"
  by (simp_all add: unsigned_ucast_eq take_bit_nat_eq_self_iff less_trans [OF unat_bounds(1)]
      less_trans [OF unat_bounds(3)])

lemma unat_of_nat_u64: "n < usize_limit \<Longrightarrow> unat (of_nat n :: u64) = n"
  by (simp add: unsigned_of_nat take_bit_nat_eq_self usize_limit_def)

lemma word_down_up:
  "unat w < 256 \<Longrightarrow> ucast (ucast w :: u8) = w" "unat w < 4294967296 \<Longrightarrow> ucast (ucast w :: u32) = w" for w :: u64
proof -
  have down: "ucast (ucast w :: u8) = take_bit 8 w" "ucast (ucast w :: u32) = take_bit 32 w"
    by (auto simp: bit_eq_iff bit_simps)
  have "take_bit n w = w" if "unat w < 2 ^ n" for n
    using that by (simp add: word_unat_eq_iff unsigned_take_bit_eq take_bit_nat_eq_self)
  from this [of 8] this [of 32] down
  show "unat w < 256 \<Longrightarrow> ucast (ucast w :: u8) = w" "unat w < 4294967296 \<Longrightarrow> ucast (ucast w :: u32) = w"
    by simp_all
qed

abbreviation "any_value \<equiv> (\<lambda>(t :: abi_table) x. True)"

interpretation u8: canonical_codec put_u8 get_u8 any_value
  by unfold_locales (auto simp: put_u8_def get_u8_def reading_inversion word_down_up split: if_splits)

interpretation u32: canonical_codec put_u32 get_u32 any_value
  by unfold_locales (auto simp: put_u32_def get_u32_def reading_inversion word_down_up split: if_splits)

interpretation u64: canonical_codec put_u64 get_u64 any_value
  by unfold_locales (auto simp: put_u64_def get_u64_def reading_inversion)

abbreviation "usize_ok \<equiv> (\<lambda>(t :: abi_table) n. n < usize_limit)"

interpretation usize: canonical_codec put_usize get_usize usize_ok
  by unfold_locales (auto simp: put_usize_def get_usize_def unat_of_nat_u64 reading_inversion usize_limit_def)

interpretation i32: canonical_codec put_i32 get_i32 any_value
  by unfold_locales (auto simp: put_i32_def get_i32_def codec_simps u32.nonempty dest: canonical_dests)

interpretation bool: canonical_codec put_bool get_bool any_value
  by unfold_locales (auto simp: put_bool_def get_bool_def reading_inversion split: if_splits)

interpretation f32: canonical_codec put_f32 get_f32 any_value
  by unfold_locales (auto simp: put_f32_def get_f32_def codec_simps u32.nonempty dest: canonical_dests)

section \<open>Options and vectors\<close>

definition put_option :: "('a \<Rightarrow> u64 list) \<Rightarrow> 'a option \<Rightarrow> u64 list" where
  "put_option put m = put_bool (m \<noteq> None) @ (case m of None \<Rightarrow> [] | Some x \<Rightarrow> put x)"

definition get_option ::
    "(abi_table \<Rightarrow> u64 list \<Rightarrow> 'a reading) \<Rightarrow> abi_table \<Rightarrow> u64 list \<Rightarrow> 'a option reading"
where
  "get_option getv t ws = then_do (get_bool t ws) (\<lambda>present ws.
     if present then reads (getv t ws) (\<lambda>x. Inr (Some x)) else (Inr None, ws))"

definition put_list :: "('a \<Rightarrow> u64 list) \<Rightarrow> 'a list \<Rightarrow> u64 list" where
  "put_list put xs = put_usize (length xs) @ concat (map put xs)"

fun get_items ::
    "(abi_table \<Rightarrow> u64 list \<Rightarrow> 'a reading) \<Rightarrow> abi_table \<Rightarrow> nat \<Rightarrow> u64 list \<Rightarrow> 'a list reading"
where
  "get_items getv t 0 ws = (Inr [], ws)"
| "get_items getv t (Suc n) ws = then_do (getv t ws) (\<lambda>x ws. reads (get_items getv t n ws) (\<lambda>xs. Inr (x # xs)))"

text \<open>\<open>mem\<close> answers the reservation, which is identified by the words left when it is made.\<close>

definition get_list ::
    "(u64 list \<Rightarrow> bool) \<Rightarrow> (abi_table \<Rightarrow> u64 list \<Rightarrow> 'a reading) \<Rightarrow> abi_table \<Rightarrow> u64 list \<Rightarrow> 'a list reading"
where
  "get_list mem getv t ws = then_do (get_usize t ws) (\<lambda>n ws.
     if n > length ws then (Inl InvalidDescriptor, ws)
     else if \<not> mem ws then (Inl OutOfMemory, ws)
     else get_items getv t n ws)"

context codec
begin

lemma option_codec: "codec (put_option put) (get_option getv) (\<lambda>t. pred_option (ok t))"
proof
  show "get_option getv t (put_option put m @ ws) = (Inr m, ws)" if "pred_option (ok t) m" for t m ws
    using that by (cases m) (simp_all add: put_option_def get_option_def codec_simps round_trip)
qed (simp add: put_option_def bool.nonempty)

end

context canonical_codec
begin

lemma option_canonical: "canonical_codec (put_option put) (get_option getv) (\<lambda>t. pred_option (ok t))"
  by (intro canonical_codec.intro option_codec canonical_codec_axioms.intro)
    (auto simp: put_option_def get_option_def then_do_Inr reading_inversion get_iff bool.get_iff split: if_splits)

end

context codec
begin

lemma items_round_trip: "list_all (ok t) xs \<Longrightarrow> get_items getv t (length xs) (concat (map put xs) @ ws) = (Inr xs, ws)"
  by (induction xs) (simp_all add: round_trip)

lemma length_items: "list_all (ok t) xs \<Longrightarrow> length xs \<le> length (concat (map put xs))"
proof (induction xs)
  case (Cons x xs)
  have "1 \<le> length (put x)" using Cons.prems nonempty [of t x] by (cases "put x") auto
  with Cons show ?case by simp
qed simp

lemma list_codec:
  "codec (put_list put) (get_list (\<lambda>ws. True) getv) (\<lambda>t xs. length xs < usize_limit \<and> list_all (ok t) xs)"
proof
  show "get_list (\<lambda>ws. True) getv t (put_list put xs @ ws) = (Inr xs, ws)"
    if "length xs < usize_limit \<and> list_all (ok t) xs" for t xs ws
    using that length_items [of t xs] by (simp add: put_list_def get_list_def codec_simps items_round_trip)
qed (simp add: put_list_def usize.nonempty)

end

section \<open>Enumerations and flags\<close>

definition put_tag :: "('a \<times> u64) list \<Rightarrow> 'a \<Rightarrow> u64 list" where
  "put_tag tags x = [the (map_of tags x)]"

definition get_tag :: "('a \<times> u64) list \<Rightarrow> abi_table \<Rightarrow> u64 list \<Rightarrow> 'a reading" where
  "get_tag tags t ws = reads (reader_word ws) (\<lambda>w. ok_or (map_of (map prod.swap tags) w) InvalidValue)"

definition tags_ok :: "('a \<times> u64) list \<Rightarrow> bool" where
  "tags_ok tags \<longleftrightarrow> distinct (map fst tags) \<and> distinct (map snd tags) \<and> (\<forall>x. x \<in> set (map fst tags))"

lemma tag_codec:
  assumes "tags_ok tags"
  shows "canonical_codec (put_tag tags) (get_tag tags) any_value"
proof
  show "ws = put_tag tags x @ ws' \<and> True" if "get_tag tags t ws = (Inr x, ws')" for t ws x ws'
  proof -
    from that obtain w where ws: "ws = w # ws'" and w: "map_of (map prod.swap tags) w = Some x"
      by (auto simp: get_tag_def reading_inversion)
    from map_of_SomeD [OF w] have "(x, w) \<in> set tags" by auto
    with ws assms show ?thesis by (simp add: put_tag_def tags_ok_def)
  qed
  show "get_tag tags t (put_tag tags x @ ws) = (Inr x, ws)" for t x ws
  proof -
    have "x \<in> fst ` set tags" using assms by (simp add: tags_ok_def)
    then obtain w where w: "map_of tags x = Some w" by (metis domD dom_map_of_conv_image_fst)
    then have "(w, x) \<in> set (map prod.swap tags)" using map_of_SomeD [OF w] by force
    moreover have "distinct (map fst (map prod.swap tags))" using assms by (simp add: tags_ok_def comp_def)
    ultimately have "map_of (map prod.swap tags) w = Some x" by (rule map_of_is_SomeI [rotated])
    with w show ?thesis by (simp add: get_tag_def put_tag_def)
  qed
qed (simp add: put_tag_def)

definition texture_format_tags :: "(texture_format \<times> u64) list" where
  "texture_format_tags = [(Bgra8Unorm, 0), (Bgra8UnormSrgb, 1), (Rgba8Unorm, 2), (Rgba8UnormSrgb, 3),
     (R8Unorm, 4), (Nv12, 5), (Depth32Float, 6), (Rg8Unorm, 7), (Rgba16Float, 8),
     (Rgba32Float, 9)]"

definition filter_mode_tags :: "(filter_mode \<times> u64) list" where
  "filter_mode_tags = [(Nearest, 0), (Linear, 1)]"

definition address_mode_tags :: "(address_mode \<times> u64) list" where
  "address_mode_tags = [(ClampToEdge, 0), (Repeat, 1), (MirrorRepeat, 2), (ClampToBorder, 3)]"

definition compare_function_tags :: "(compare_function \<times> u64) list" where
  "compare_function_tags = [(Never, 0), (Less, 1), (Equal, 2), (LessEqual, 3), (Greater, 4), (NotEqual, 5),
     (GreaterEqual, 6), (Always, 7)]"

definition vertex_format_tags :: "(vertex_format \<times> u64) list" where
  "vertex_format_tags = [(Sint32, 0), (Uint32, 1), (Float16x2, 2), (Float16x4, 3), (Sint16x4, 4),
     (Snorm10_10_10_2, 5), (Float32x2, 6), (Float32x3, 7), (Float32x4, 8),
     (Unorm8x4, 9), (Uint16x2, 10), (Float32, 11), (Snorm8x4, 12), (Sint16x2, 13),
     (Uint32x2, 14), (Uint32x3, 15), (Uint32x4, 16), (Sint32x2, 17), (Sint32x3, 18),
     (Sint32x4, 19)]"

definition step_mode_tags :: "(step_mode \<times> u64) list" where
  "step_mode_tags = [(StepVertex, 0), (StepInstance, 1)]"

definition topology_tags :: "(topology \<times> u64) list" where
  "topology_tags = [(TriangleList, 0), (TriangleStrip, 1), (TriangleFan, 2), (LineList, 3),
     (LineStrip, 4), (PointList, 5)]"

definition index_format_tags :: "(index_format \<times> u64) list" where
  "index_format_tags = [(Uint16, 0), (IndexUint32, 1)]"

definition sample_mode_tags :: "(sample_mode \<times> u64) list" where
  "sample_mode_tags = [(Rgba, 0), (RgbIgnoreAlpha, 1), (AlphaMask, 2)]"

definition blend_factor_tags :: "(blend_factor \<times> u64) list" where
  "blend_factor_tags = [(BlendZero, 0), (BlendOne, 1), (SourceAlpha, 2), (OneMinusSourceAlpha, 3),
     (DestinationAlpha, 4), (OneMinusDestinationAlpha, 5), (SourceColor, 6),
     (OneMinusSourceColor, 7), (DestinationColor, 8), (OneMinusDestinationColor, 9)]"

definition blend_op_tags :: "(blend_op \<times> u64) list" where
  "blend_op_tags = [(BlendAdd, 0), (BlendSubtract, 1), (BlendReverseSubtract, 2), (BlendMin, 3),
     (BlendMax, 4)]"

definition cull_mode_tags :: "(cull_mode \<times> u64) list" where
  "cull_mode_tags = [(CullNone, 0), (CullFront, 1), (CullBack, 2)]"

definition front_face_tags :: "(front_face \<times> u64) list" where
  "front_face_tags = [(Clockwise, 0), (CounterClockwise, 1)]"

definition storage_access_tags :: "(storage_texture_access \<times> u64) list" where
  "storage_access_tags = [(WriteOnly, 0)]"

definition buffer_access_tags :: "(buffer_access \<times> u64) list" where
  "buffer_access_tags = [(BufCopyDestination, 0), (BufCopySource, 1), (BufVertex, 2), (BufIndex, 3),
     (BufUniform, 4), (BufStorageRead, 5), (BufStorageReadWrite, 6)]"

definition texture_access_tags :: "(texture_access \<times> u64) list" where
  "texture_access_tags = [(TexCopyDestination, 0), (TexCopySource, 1), (TexSampled, 2),
     (TexRenderAttachment, 3), (TexStorageWrite, 4)]"

definition shader_stage_tags :: "(shader_stage \<times> u64) list" where
  "shader_stage_tags = [(Vertex, 0), (Fragment, 1), (Compute, 2)]"

definition view_dimension_tags :: "(view_dimension \<times> u64) list" where
  "view_dimension_tags = [(D2, 0), (D2Array, 1), (Cube, 2), (D1, 3), (D1Array, 4)]"

definition store_op_tags :: "(store_op \<times> u64) list" where
  "store_op_tags = [(StoreKeep, 0), (StoreDontCare, 1)]"

lemmas tag_tables = texture_format_tags_def filter_mode_tags_def address_mode_tags_def
  compare_function_tags_def vertex_format_tags_def step_mode_tags_def topology_tags_def
  index_format_tags_def sample_mode_tags_def blend_factor_tags_def blend_op_tags_def
  cull_mode_tags_def front_face_tags_def storage_access_tags_def buffer_access_tags_def
  texture_access_tags_def shader_stage_tags_def view_dimension_tags_def store_op_tags_def

text \<open>The numbers of a type are distinct, and every constructor has one.\<close>

lemma all_tags_ok:
  "tags_ok texture_format_tags" "tags_ok filter_mode_tags" "tags_ok address_mode_tags"
  "tags_ok compare_function_tags" "tags_ok vertex_format_tags" "tags_ok step_mode_tags"
  "tags_ok topology_tags" "tags_ok index_format_tags" "tags_ok sample_mode_tags"
  "tags_ok blend_factor_tags" "tags_ok blend_op_tags" "tags_ok cull_mode_tags"
  "tags_ok front_face_tags" "tags_ok storage_access_tags" "tags_ok buffer_access_tags"
  "tags_ok texture_access_tags" "tags_ok shader_stage_tags" "tags_ok view_dimension_tags"
  "tags_ok store_op_tags"
  by (unfold tags_ok_def, (rule conjI allI | (simp add: tag_tables; fail) |
        (rename_tac x, case_tac x; simp add: tag_tables))+)

interpretation texture_format: canonical_codec "put_tag texture_format_tags" "get_tag texture_format_tags" any_value
  by (rule tag_codec [OF all_tags_ok(1)])

interpretation filter_mode: canonical_codec "put_tag filter_mode_tags" "get_tag filter_mode_tags" any_value
  by (rule tag_codec [OF all_tags_ok(2)])

interpretation address_mode: canonical_codec "put_tag address_mode_tags" "get_tag address_mode_tags" any_value
  by (rule tag_codec [OF all_tags_ok(3)])

interpretation compare_function: canonical_codec "put_tag compare_function_tags" "get_tag compare_function_tags" any_value
  by (rule tag_codec [OF all_tags_ok(4)])

interpretation vertex_format: canonical_codec "put_tag vertex_format_tags" "get_tag vertex_format_tags" any_value
  by (rule tag_codec [OF all_tags_ok(5)])

interpretation step_mode: canonical_codec "put_tag step_mode_tags" "get_tag step_mode_tags" any_value
  by (rule tag_codec [OF all_tags_ok(6)])

interpretation topology: canonical_codec "put_tag topology_tags" "get_tag topology_tags" any_value
  by (rule tag_codec [OF all_tags_ok(7)])

interpretation index_format: canonical_codec "put_tag index_format_tags" "get_tag index_format_tags" any_value
  by (rule tag_codec [OF all_tags_ok(8)])

interpretation sample_mode: canonical_codec "put_tag sample_mode_tags" "get_tag sample_mode_tags" any_value
  by (rule tag_codec [OF all_tags_ok(9)])

interpretation blend_factor: canonical_codec "put_tag blend_factor_tags" "get_tag blend_factor_tags" any_value
  by (rule tag_codec [OF all_tags_ok(10)])

interpretation blend_op: canonical_codec "put_tag blend_op_tags" "get_tag blend_op_tags" any_value
  by (rule tag_codec [OF all_tags_ok(11)])

interpretation cull_mode: canonical_codec "put_tag cull_mode_tags" "get_tag cull_mode_tags" any_value
  by (rule tag_codec [OF all_tags_ok(12)])

interpretation front_face: canonical_codec "put_tag front_face_tags" "get_tag front_face_tags" any_value
  by (rule tag_codec [OF all_tags_ok(13)])

interpretation storage_access: canonical_codec "put_tag storage_access_tags" "get_tag storage_access_tags" any_value
  by (rule tag_codec [OF all_tags_ok(14)])

interpretation buffer_access: canonical_codec "put_tag buffer_access_tags" "get_tag buffer_access_tags" any_value
  by (rule tag_codec [OF all_tags_ok(15)])

interpretation texture_access: canonical_codec "put_tag texture_access_tags" "get_tag texture_access_tags" any_value
  by (rule tag_codec [OF all_tags_ok(16)])

interpretation shader_stage: canonical_codec "put_tag shader_stage_tags" "get_tag shader_stage_tags" any_value
  by (rule tag_codec [OF all_tags_ok(17)])

interpretation view_dimension: canonical_codec "put_tag view_dimension_tags" "get_tag view_dimension_tags" any_value
  by (rule tag_codec [OF all_tags_ok(18)])

interpretation store_op: canonical_codec "put_tag store_op_tags" "get_tag store_op_tags" any_value
  by (rule tag_codec [OF all_tags_ok(19)])

end
