(* ===== verification/Abi_Values.thy ===== *)
theory Abi_Values
  imports Abi_Codec
begin

text \<open>
  The codecs of \<^verbatim>\<open>crates/sgfx-core/src/ir/abi/codec.rs\<close> for flag sets, packed floats, geometric
  values, pass operations and resource identities: what a command's operands are made of.
\<close>

section \<open>Flags\<close>

text \<open>Bit \<open>i\<close> of the word says whether the set contains flag \<open>i\<close> of the macro's list.\<close>

fun flag_bits :: "u8 list \<Rightarrow> nat \<Rightarrow> u8 \<Rightarrow> u64 \<Rightarrow> u64" where
  "flag_bits [] shift x bits = bits"
| "flag_bits (flag # flags) shift x bits =
     flag_bits flags (shift + 1) x (if usage_contains x flag then bits OR push_bit shift 1 else bits)"

definition put_flags :: "u8 list \<Rightarrow> u8 \<Rightarrow> u64 list" where
  "put_flags flags x = [flag_bits flags 0 x 0]"

fun take_flags :: "u8 list \<Rightarrow> u64 \<Rightarrow> u8 \<Rightarrow> u8 \<times> u64" where
  "take_flags [] bits v = (v, bits)"
| "take_flags (flag # flags) bits v =
     take_flags flags (drop_bit 1 bits) (if bits AND 1 \<noteq> 0 then usage_union v flag else v)"

definition get_flags :: "u8 list \<Rightarrow> abi_table \<Rightarrow> u64 list \<Rightarrow> u8 reading" where
  "get_flags flags t ws = reads (reader_word ws) (\<lambda>w.
     case take_flags flags w 0 of (v, rest) \<Rightarrow> if rest \<noteq> 0 then Inl InvalidValue else Inr v)"

abbreviation "texture_usage_flags \<equiv> [TEX_COPY_SRC, TEX_COPY_DST, TEX_SAMPLED, TEX_RENDER_ATTACHMENT, TEX_PRESENT, TEX_STORAGE]"
abbreviation "buffer_usage_flags \<equiv> [BUF_COPY_SRC, BUF_COPY_DST, BUF_VERTEX, BUF_INDEX, BUF_UNIFORM, BUF_STORAGE]"
abbreviation "shader_stage_flags \<equiv> [STAGE_VERTEX, STAGE_FRAGMENT, STAGE_COMPUTE]"

text \<open>A set that is the union of the flags it contains, as every set built by \<open>union\<close> is.\<close>

definition flags_ok :: "u8 list \<Rightarrow> u8 \<Rightarrow> bool" where
  "flags_ok flags x \<longleftrightarrow> fold (OR) (filter (usage_contains x) flags) 0 = x"

lemma bit_flag_bits:
  "shift + length flags \<le> 64 \<Longrightarrow> bit (flag_bits flags shift x bits) n \<longleftrightarrow>
     bit bits n \<or> (\<exists>i < length flags. n = shift + i \<and> usage_contains x (flags ! i))"
proof (induction flags arbitrary: shift bits)
  case (Cons flag flags)
  have "bit (bits OR push_bit shift 1) n \<longleftrightarrow> bit bits n \<or> n = shift"
    using Cons.prems by (auto simp: bit_simps)
  then have here: "bit (if usage_contains x flag then bits OR push_bit shift 1 else bits) n \<longleftrightarrow>
      bit bits n \<or> n = shift \<and> usage_contains x flag" by auto
  have rest: "(\<exists>i < length (flag # flags). n = shift + i \<and> usage_contains x ((flag # flags) ! i)) \<longleftrightarrow>
      (n = shift \<and> usage_contains x flag) \<or> (\<exists>i < length flags. n = (shift + 1) + i \<and> usage_contains x (flags ! i))"
    by (simp add: Ex_less_Suc2)
  show ?case using here rest Cons.IH [of "shift + 1"] Cons.prems by auto
qed simp

lemma take_flags_eq:
  "(\<And>i. i < length flags \<Longrightarrow> bit bits i \<longleftrightarrow> P (flags ! i)) \<Longrightarrow>
     take_flags flags bits v = (fold (\<lambda>f v. v OR f) (filter P flags) v, drop_bit (length flags) bits)"
proof (induction flags arbitrary: bits v)
  case (Cons flag flags)
  have "bits AND 1 \<noteq> 0 \<longleftrightarrow> P flag"
    using Cons.prems [of 0] by (simp add: and_one_eq bit_0 even_iff_mod_2_eq_zero) 
  moreover have "bit (drop_bit 1 bits) i \<longleftrightarrow> P (flags ! i)" if "i < length flags" for i
    using Cons.prems [of "Suc i"] that by (simp add: bit_drop_bit_eq)
  ultimately show ?case using Cons.IH [of "drop_bit 1 bits"] by (simp add: usage_union_def)
qed simp

lemma bit_take_flags:
  "take_flags flags bits v = (x, rest) \<Longrightarrow>
     (bit x k \<longleftrightarrow> bit v k \<or> (\<exists>i < length flags. bit bits i \<and> bit (flags ! i) k)) \<and> rest = drop_bit (length flags) bits"
proof (induction flags arbitrary: bits v)
  case (Cons flag flags)
  have "bits AND 1 \<noteq> 0 \<longleftrightarrow> bit bits 0"
    by (simp add: and_one_eq bit_0 even_iff_mod_2_eq_zero)
  then show ?case
    using Cons.IH [OF Cons.prems [unfolded take_flags.simps]]
    by (auto simp: usage_union_def bit_simps Ex_less_Suc2)
qed simp

text \<open>Flags of disjoint, nonempty bits: what a reader finds set is what the set contains.\<close>

definition flags_independent :: "u8 list \<Rightarrow> bool" where
  "flags_independent flags \<longleftrightarrow> length flags \<le> 64 \<and> 0 \<notin> set flags \<and> sorted_wrt (\<lambda>f g. f AND g = 0) flags"

lemma flags_disjoint:
  assumes "flags_independent flags" "i < length flags" "j < length flags" "bit (flags ! i) k" "bit (flags ! j) k"
  shows "i = j"
proof -
  have "flags ! i AND flags ! j \<noteq> 0" "flags ! j AND flags ! i \<noteq> 0"
    using assms(4,5) by (metis bit_0_eq bit_and_iff bot_apply bot_bool_def)+
  then have "\<not> i < j" "\<not> j < i"
    using assms(1-3) unfolding flags_independent_def sorted_wrt_iff_nth_less by blast+
  then show ?thesis by simp
qed

lemma take_flags_contains:
  assumes ind: "flags_independent flags" and take: "take_flags flags bits 0 = (x, rest)" and i: "i < length flags"
  shows "usage_contains x (flags ! i) \<longleftrightarrow> bit bits i"
proof
  assume "bit bits i"
  with i show "usage_contains x (flags ! i)" using bit_take_flags [OF take] by (auto simp: usage_contains_bits)
next
  assume c: "usage_contains x (flags ! i)"
  have "flags ! i \<noteq> 0" using ind i nth_mem by (metis flags_independent_def)
  then obtain k where k: "bit (flags ! i) k" by (metis bit_eqI bit_0_eq bot_apply bot_bool_def)
  with c have "bit x k" by (simp add: usage_contains_bits)
  then obtain j where "j < length flags" "bit bits j" "bit (flags ! j) k" using bit_take_flags [OF take, of k] by auto
  with flags_disjoint [OF ind i _ k] show "bit bits i" by blast
qed

lemma flags_codec:
  assumes ind: "flags_independent flags"
  shows "canonical_codec (put_flags flags) (get_flags flags) (\<lambda>t. flags_ok flags)"
proof
  have w: "bit (flag_bits flags 0 x 0) n \<longleftrightarrow> n < length flags \<and> usage_contains x (flags ! n)" for x n
    using bit_flag_bits [of 0 flags x 0 n] ind by (auto simp: flags_independent_def)
  show "get_flags flags t (put_flags flags x @ ws) = (Inr x, ws)" if "flags_ok flags x" for t x ws
  proof -
    let ?w = "flag_bits flags 0 x 0"
    have "drop_bit (length flags) ?w = 0" using w by (simp add: bit_eq_iff bit_drop_bit_eq)
    moreover have "fold (\<lambda>f v. v OR f) (filter (usage_contains x) flags) 0 = x"
      using that by (simp add: flags_ok_def or.commute)
    ultimately show ?thesis
      using take_flags_eq [of flags ?w "usage_contains x" 0] w by (simp add: put_flags_def get_flags_def)
  qed
  show "ws = put_flags flags x @ ws' \<and> flags_ok flags x" if "get_flags flags t ws = (Inr x, ws')" for t ws x ws'
  proof -
    from that obtain bits where ws: "ws = bits # ws'"
      and "(case take_flags flags bits 0 of (v, rest) \<Rightarrow> if rest \<noteq> 0 then Inl InvalidValue else Inr v) = Inr x"
      by (simp only: get_flags_def reading_inversion) blast
    then have take: "take_flags flags bits 0 = (x, 0)" by (auto split: prod.splits if_splits)
    note contains = take_flags_contains [OF ind take]
    have "drop_bit (length flags) bits = 0" using bit_take_flags [OF take] by simp
    moreover have "bit (drop_bit (length flags) bits) (n - length flags) \<longleftrightarrow> bit bits n" if "length flags \<le> n" for n
      using that by (simp add: bit_drop_bit_eq)
    ultimately have high: "\<not> bit bits n" if "length flags \<le> n" for n using that by simp
    have "bits = flag_bits flags 0 x 0"
      by (rule bit_eqI) (use w contains high not_le in blast)
    moreover have "flags_ok flags x"
    proof -
      have "take_flags flags bits 0 = (fold (\<lambda>f v. v OR f) (filter (usage_contains x) flags) 0, drop_bit (length flags) bits)"
        using contains by (intro take_flags_eq) simp
      with take show ?thesis by (simp add: flags_ok_def or.commute)
    qed
    ultimately show ?thesis by (simp add: put_flags_def ws)
  qed
qed (simp add: put_flags_def)

interpretation texture_usage: canonical_codec "put_flags texture_usage_flags" "get_flags texture_usage_flags"
    "\<lambda>t. flags_ok texture_usage_flags"
  by (rule flags_codec) (simp add: flags_independent_def)

interpretation buffer_usage: canonical_codec "put_flags buffer_usage_flags" "get_flags buffer_usage_flags"
    "\<lambda>t. flags_ok buffer_usage_flags"
  by (rule flags_codec) (simp add: flags_independent_def)

interpretation shader_stages: canonical_codec "put_flags shader_stage_flags" "get_flags shader_stage_flags"
    "\<lambda>t. flags_ok shader_stage_flags"
  by (rule flags_codec) (simp add: flags_independent_def)

section \<open>Packed floats\<close>

text \<open>Two floats to a word, the last of an odd number alone.\<close>

fun put_floats :: "f32 list \<Rightarrow> u64 list" where
  "put_floats [] = []"
| "put_floats [a] = [ucast a]"
| "put_floats (a # b # fs) = (ucast a OR push_bit 32 (ucast b)) # put_floats fs"

fun get_floats :: "nat \<Rightarrow> u64 list \<Rightarrow> f32 list reading" where
  "get_floats 0 ws = (Inr [], ws)"
| "get_floats (Suc 0) ws = reads (reader_word ws) (\<lambda>w. Inr [ucast w])"
| "get_floats (Suc (Suc n)) ws = then_do (reader_word ws) (\<lambda>w ws.
     reads (get_floats n ws) (\<lambda>fs. Inr (ucast w # ucast (drop_bit 32 w) # fs)))"

lemma packed_halves [simp]:
  "ucast (ucast a OR push_bit 32 (ucast b) :: u64) = (a :: u32)"
  "ucast (drop_bit 32 (ucast a OR push_bit 32 (ucast b) :: u64)) = (b :: u32)"
  by (auto simp: bit_eq_iff bit_simps dest: bit_imp_le_length)

lemma get_put_floats [codec_simps]: "n = length fs \<Longrightarrow> get_floats n (put_floats fs @ ws) = (Inr fs, ws)"
  by (induction fs arbitrary: n rule: put_floats.induct) (simp_all del: drop_bit_or)

lemma get_floats_canonical [canonical_dests]:
  "get_floats n ws = (Inr fs, ws') \<Longrightarrow> even n \<Longrightarrow> length fs = n \<and> ws = put_floats fs @ ws'"
proof (induction n ws arbitrary: fs rule: get_floats.induct)
  case (3 n ws)
  then obtain w vs gs where "ws = w # vs" "get_floats n vs = (Inr gs, ws')" "fs = ucast w # ucast (drop_bit 32 w) # gs"
    by (auto simp: then_do_Inr reading_inversion)
  moreover have "ucast (ucast w :: u32) OR push_bit 32 (ucast (ucast (drop_bit 32 w) :: u32)) = w"
    by (auto simp: bit_eq_iff bit_simps)
  ultimately show ?case using 3 by auto
qed simp_all

lemma put_floats_nonempty [simp]: "put_floats fs = [] \<longleftrightarrow> fs = []"
  by (cases fs rule: put_floats.cases) simp_all

declare put_floats.simps [simp del] get_floats.simps [simp del]

section \<open>Geometric values\<close>

definition put_extent :: "extent2d \<Rightarrow> u64 list" where
  "put_extent e = put_u32 (ext_width e) @ put_u32 (ext_height e)"

definition get_extent :: "abi_table \<Rightarrow> u64 list \<Rightarrow> extent2d reading" where
  "get_extent t ws = then_do (get_u32 t ws) (\<lambda>width ws.
     reads (get_u32 t ws) (\<lambda>height. extent2d_new width height))"

definition put_rect :: "pixel_rect \<Rightarrow> u64 list" where
  "put_rect r = put_u32 (rect_x r) @ put_u32 (rect_y r) @ put_u32 (rect_width r) @ put_u32 (rect_height r)"

definition get_rect :: "abi_table \<Rightarrow> u64 list \<Rightarrow> pixel_rect reading" where
  "get_rect t ws = then_do (get_u32 t ws) (\<lambda>x ws. then_do (get_u32 t ws) (\<lambda>y ws.
     then_do (get_u32 t ws) (\<lambda>width ws. reads (get_u32 t ws) (\<lambda>height. pixel_rect_new x y width height))))"

definition put_color :: "color \<Rightarrow> u64 list" where
  "put_color c = put_floats (color_components c)"

definition get_color :: "abi_table \<Rightarrow> u64 list \<Rightarrow> color reading" where
  "get_color t ws = reads (get_floats 4 ws) (\<lambda>v. color_rgba (v ! 0) (v ! 1) (v ! 2) (v ! 3))"

definition put_transform :: "transform \<Rightarrow> u64 list" where
  "put_transform m = put_floats (columns m)"

definition get_transform :: "abi_table \<Rightarrow> u64 list \<Rightarrow> transform reading" where
  "get_transform t ws = reads (get_floats 16 ws) transform_from_columns"

definition put_viewport :: "viewport \<Rightarrow> u64 list" where
  "put_viewport v = put_floats (viewport_components v)"

definition get_viewport :: "abi_table \<Rightarrow> u64 list \<Rightarrow> viewport reading" where
  "get_viewport t ws = reads (get_floats 6 ws)
     (\<lambda>v. viewport_new (v ! 0) (v ! 1) (v ! 2) (v ! 3) (v ! 4) (v ! 5))"

definition put_uniforms :: "draw_uniforms \<Rightarrow> u64 list" where
  "put_uniforms u = put_transform (du_transform u) @ put_color (du_color u)"

definition get_uniforms :: "abi_table \<Rightarrow> u64 list \<Rightarrow> draw_uniforms reading" where
  "get_uniforms t ws = then_do (get_transform t ws) (\<lambda>m ws.
     reads (get_color t ws) (\<lambda>c. Inr \<lparr>du_transform = m, du_color = c\<rparr>))"

text \<open>What the validating constructors guarantee, and so what the readers accept.\<close>

definition viewport_ok :: "viewport \<Rightarrow> bool" where
  "viewport_ok v \<longleftrightarrow>
     viewport_new (vp_x v) (vp_y v) (vp_width v) (vp_height v) (vp_min_depth v) (vp_max_depth v) = Inr v"

definition matrix_ok :: "transform \<Rightarrow> bool" where
  "matrix_ok m \<longleftrightarrow> length (columns m) = 16 \<and> transform_ok m"

definition uniforms_ok :: "draw_uniforms \<Rightarrow> bool" where
  "uniforms_ok u \<longleftrightarrow> matrix_ok (du_transform u) \<and> color_ok (du_color u)"

lemmas record_reading = reading_inversion(2) then_do_Inr u32.get_iff f32.get_iff u64.get_iff usize.get_iff bool.get_iff

interpretation extent: canonical_codec put_extent get_extent "\<lambda>t. extent_ok"
  by unfold_locales
    (auto simp: put_extent_def get_extent_def codec_simps extent2d_new_def extent_ok_def u32.nonempty
      record_reading split: if_splits)

lemma pixel_rect_new_fields:
  "pixel_rect_new x y w h = Inr r \<Longrightarrow> rect_ok r \<and> r = \<lparr>rect_x = x, rect_y = y, rect_width = w, rect_height = h\<rparr>"
  using pixel_rect_new_ok by (fastforce simp: pixel_rect_new_def split: if_splits)

interpretation rect: canonical_codec put_rect get_rect "\<lambda>t. rect_ok"
  by unfold_locales (auto simp: put_rect_def get_rect_def codec_simps pixel_rect_new_complete u32.nonempty
      record_reading dest!: pixel_rect_new_fields)

lemma length_four: "length fs = 4 \<Longrightarrow> fs = [fs ! 0, fs ! 1, fs ! 2, fs ! 3]"
  by (auto simp: list_eq_iff_nth_eq nth_Cons' less_Suc_eq numeral_eq_Suc)

lemma length_six: "length fs = 6 \<Longrightarrow> fs = [fs ! 0, fs ! 1, fs ! 2, fs ! 3, fs ! 4, fs ! 5]"
  by (auto simp: list_eq_iff_nth_eq nth_Cons' less_Suc_eq numeral_eq_Suc)

interpretation color: canonical_codec put_color get_color "\<lambda>t. color_ok"
proof
  show "ws = put_color x @ ws' \<and> color_ok x" if "get_color t ws = (Inr x, ws')" for t ws x ws'
  proof -
    from that obtain fs where fs: "get_floats 4 ws = (Inr fs, ws')"
      and x: "color_rgba (fs ! 0) (fs ! 1) (fs ! 2) (fs ! 3) = Inr x"
      by (auto simp: get_color_def reading_inversion)
    from get_floats_canonical [OF fs] have "length fs = 4" and ws: "ws = put_floats fs @ ws'" by auto
    then show ?thesis using length_four [of fs] x color_rgba_ok [OF x]
      by (auto simp: put_color_def color_components_def color_rgba_def split: if_splits)
  qed
qed (simp_all add: put_color_def get_color_def codec_simps color_components_def
      color_rgba_def color_ok_def nth_Cons')

interpretation transform: canonical_codec put_transform get_transform "\<lambda>t. matrix_ok"
  by unfold_locales (auto simp: put_transform_def get_transform_def codec_simps matrix_ok_def
      transform_from_columns_def transform_ok_def reading_inversion dest!: get_floats_canonical split: if_splits)

interpretation viewport: canonical_codec put_viewport get_viewport "\<lambda>t. viewport_ok"
proof
  show "ws = put_viewport x @ ws' \<and> viewport_ok x" if "get_viewport t ws = (Inr x, ws')" for t ws x ws'
  proof -
    from that obtain fs where fs: "get_floats 6 ws = (Inr fs, ws')"
      and x: "viewport_new (fs ! 0) (fs ! 1) (fs ! 2) (fs ! 3) (fs ! 4) (fs ! 5) = Inr x"
      by (auto simp: get_viewport_def reading_inversion)
    from get_floats_canonical [OF fs] have "length fs = 6" and ws: "ws = put_floats fs @ ws'" by auto
    moreover have "[vp_x x, vp_y x, vp_width x, vp_height x, vp_min_depth x, vp_max_depth x] =
        [fs ! 0, fs ! 1, fs ! 2, fs ! 3, fs ! 4, fs ! 5]"
      using x by (auto simp: viewport_new_def split: if_splits)
    moreover from this x have "viewport_ok x" by (simp add: viewport_ok_def)
    ultimately show ?thesis using length_six [of fs] by (simp add: put_viewport_def viewport_components_def)
  qed
qed (simp_all add: put_viewport_def get_viewport_def codec_simps viewport_components_def
      viewport_ok_def nth_Cons')

interpretation uniforms: canonical_codec put_uniforms get_uniforms "\<lambda>t. uniforms_ok"
  by unfold_locales (auto simp: put_uniforms_def get_uniforms_def codec_simps uniforms_ok_def
      transform.nonempty record_reading transform.get_iff color.get_iff)

section \<open>Pass operations\<close>

fun put_load_op :: "load_op \<Rightarrow> u64 list" where
  "put_load_op LoadKeep = [0]"
| "put_load_op (LoadClear c) = 1 # put_color c"
| "put_load_op LoadDontCare = [2]"

definition get_load_op :: "abi_table \<Rightarrow> u64 list \<Rightarrow> load_op reading" where
  "get_load_op t ws = then_do (reader_word ws) (\<lambda>w ws.
     if w = 0 then (Inr LoadKeep, ws)
     else if w = 1 then reads (get_color t ws) (\<lambda>c. Inr (LoadClear c))
     else if w = 2 then (Inr LoadDontCare, ws)
     else (Inl InvalidValue, ws))"

fun put_depth_load_op :: "depth_load_op \<Rightarrow> u64 list" where
  "put_depth_load_op DepthLoadKeep = [0]"
| "put_depth_load_op (DepthClear c) = 1 # put_f32 c"
| "put_depth_load_op DepthDontCare = [2]"

definition get_depth_load_op :: "abi_table \<Rightarrow> u64 list \<Rightarrow> depth_load_op reading" where
  "get_depth_load_op t ws = then_do (reader_word ws) (\<lambda>w ws.
     if w = 0 then (Inr DepthLoadKeep, ws)
     else if w = 1 then reads (get_f32 t ws) (\<lambda>c. Inr (DepthClear c))
     else if w = 2 then (Inr DepthDontCare, ws)
     else (Inl InvalidValue, ws))"

fun load_op_ok :: "load_op \<Rightarrow> bool" where
  "load_op_ok (LoadClear c) \<longleftrightarrow> color_ok c"
| "load_op_ok _ \<longleftrightarrow> True"

interpretation load_op: canonical_codec put_load_op get_load_op "\<lambda>t. load_op_ok"
proof
  show "ws = put_load_op x @ ws' \<and> load_op_ok x" if "\<not> at_legacy t" "get_load_op t ws = (Inr x, ws')" for t ws x ws'
    using that by (auto simp: get_load_op_def record_reading reading_inversion(1) color.get_iff split: if_splits)
  show "get_load_op t (put_load_op x @ ws) = (Inr x, ws)" if "load_op_ok x" for t x ws
    using that by (cases x) (simp_all add: get_load_op_def codec_simps)
  show "put_load_op x \<noteq> []" for x by (cases x) simp_all
qed

interpretation depth_load_op: canonical_codec put_depth_load_op get_depth_load_op any_value
proof
  show "ws = put_depth_load_op x @ ws' \<and> True" if "\<not> at_legacy t" "get_depth_load_op t ws = (Inr x, ws')" for t ws x ws'
    using that by (auto simp: get_depth_load_op_def record_reading reading_inversion(1) split: if_splits)
  show "get_depth_load_op t (put_depth_load_op x @ ws) = (Inr x, ws)" for t x ws
    by (cases x) (simp_all add: get_depth_load_op_def codec_simps)
  show "put_depth_load_op x \<noteq> []" for x by (cases x) simp_all
qed

section \<open>Identities\<close>

text \<open>
  An identity is written without its owner and read back as one of the reader's table. Samplers and
  fixed pipelines have no generation; program identities are resolved at once, and had no
  generation in the older format; textures, buffers and bind groups are resolved where they are used.
\<close>

definition put_plain :: "plain_id \<Rightarrow> u64 list" where
  "put_plain i = put_usize (pid_index i)"

definition get_plain ::
    "(resource_table \<Rightarrow> plain_id \<Rightarrow> plain_id ir_result) \<Rightarrow> abi_table \<Rightarrow> u64 list \<Rightarrow> plain_id reading"
where
  "get_plain resolve t ws = reads (get_usize t ws) (\<lambda>index.
     let i = \<lparr>pid_owner = rt_id (at_table t), pid_index = index\<rparr>
     in and_then (resolve (at_table t) i) (\<lambda>_. Inr i))"

definition put_id :: "res_id \<Rightarrow> u64 list" where
  "put_id i = put_usize (id_index i) @ put_u64 (id_generation i)"

definition get_id :: "abi_table \<Rightarrow> u64 list \<Rightarrow> res_id reading" where
  "get_id t ws = then_do (get_usize t ws) (\<lambda>index ws. reads (get_u64 t ws) (\<lambda>generation.
     Inr \<lparr>id_owner = rt_id (at_table t), id_index = index, id_generation = generation\<rparr>))"

definition get_program_id ::
    "(resource_table \<Rightarrow> res_id \<Rightarrow> res_id ir_result) \<Rightarrow> abi_table \<Rightarrow> u64 list \<Rightarrow> res_id reading"
where
  "get_program_id resolve t ws = then_do (get_usize t ws) (\<lambda>index ws.
     reads (if at_legacy t then (Inr 0, ws) else get_u64 t ws) (\<lambda>generation.
       let i = \<lparr>id_owner = rt_id (at_table t), id_index = index, id_generation = generation\<rparr>
       in and_then (resolve (at_table t) i) (\<lambda>_. Inr i)))"

definition plain_ok ::
    "(resource_table \<Rightarrow> plain_id \<Rightarrow> plain_id ir_result) \<Rightarrow> abi_table \<Rightarrow> plain_id \<Rightarrow> bool"
where
  "plain_ok resolve t i \<longleftrightarrow> pid_owner i = rt_id (at_table t) \<and> pid_index i < usize_limit \<and>
     is_ok (resolve (at_table t) i)"

definition id_ok :: "abi_table \<Rightarrow> res_id \<Rightarrow> bool" where
  "id_ok t i \<longleftrightarrow> id_owner i = rt_id (at_table t) \<and> id_index i < usize_limit"

definition program_id_ok ::
    "(resource_table \<Rightarrow> res_id \<Rightarrow> res_id ir_result) \<Rightarrow> abi_table \<Rightarrow> res_id \<Rightarrow> bool"
where
  "program_id_ok resolve t i \<longleftrightarrow> id_ok t i \<and> \<not> at_legacy t \<and> is_ok (resolve (at_table t) i)"

lemma is_ok_Inr: "is_ok m \<longleftrightarrow> (\<exists>x. m = Inr x)"
  by (cases m) simp_all

lemma owned_identity:
  "pid_owner i = owner \<Longrightarrow> \<lparr>pid_owner = owner, pid_index = pid_index i\<rparr> = i"
  "id_owner j = owner \<Longrightarrow>
     \<lparr>id_owner = owner, id_index = id_index j, id_generation = id_generation j\<rparr> = j"
  by auto

lemma plain_codec: "canonical_codec put_plain (get_plain resolve) (plain_ok resolve)"
  by unfold_locales
    (auto simp: put_plain_def get_plain_def codec_simps plain_ok_def is_ok_Inr usize.nonempty
      owned_identity Let_def record_reading and_then_Inr_iff)

lemma program_id_codec: "canonical_codec put_id (get_program_id resolve) (program_id_ok resolve)"
  by unfold_locales
    (auto simp: put_id_def get_program_id_def codec_simps program_id_ok_def id_ok_def is_ok_Inr usize.nonempty
      owned_identity Let_def record_reading and_then_Inr_iff)

interpretation id: canonical_codec put_id get_id id_ok
  by unfold_locales (auto simp: put_id_def get_id_def codec_simps id_ok_def usize.nonempty record_reading)

interpretation sampler_id: canonical_codec put_plain "get_plain sampler_ref" "plain_ok sampler_ref"
  by (rule plain_codec)

interpretation pipeline_id: canonical_codec put_plain "get_plain render_pipeline_ref" "plain_ok render_pipeline_ref"
  by (rule plain_codec)

interpretation shader_id: canonical_codec put_id "get_program_id shader_module_ref" "program_id_ok shader_module_ref"
  by (rule program_id_codec)

interpretation compute_id: canonical_codec put_id "get_program_id compute_pipeline_ref" "program_id_ok compute_pipeline_ref"
  by (rule program_id_codec)

interpretation programmable_id: canonical_codec put_id "get_program_id programmable_pipeline_ref"
    "program_id_ok programmable_pipeline_ref"
  by (rule program_id_codec)

end
