(* ===== verification/Abi_Descriptors.thy ===== *)
theory Abi_Descriptors
  imports Abi_Values
begin

text \<open>
  The codecs of \<^verbatim>\<open>crates/sgfx-core/src/ir/abi/codec.rs\<close> for resource descriptors, which cross to a
  backend when a table changes. A descriptor is one row of a table, of a length announced before it:
  the rows of samplers and pipelines may carry a tail that older writers did not produce, and read
  it when words are left. The contract of such a codec, \<open>row_codec\<close>, asks for the round trip on a row
  of its own; a codec of values meets it.
\<close>

section \<open>Rows\<close>

locale row_codec =
  fixes put :: "'a \<Rightarrow> u64 list"
    and getv :: "abi_table \<Rightarrow> u64 list \<Rightarrow> 'a reading"
    and ok :: "abi_table \<Rightarrow> 'a \<Rightarrow> bool"
  assumes row_round_trip: "ok t x \<Longrightarrow> getv t (put x) = (Inr x, [])"
    and row_nonempty: "ok t x \<Longrightarrow> put x \<noteq> []"
begin

lemma row_inj: "ok t x \<Longrightarrow> ok t y \<Longrightarrow> put x = put y \<longleftrightarrow> x = y"
  by (metis row_round_trip prod.inject sum.inject(2))

end

sublocale codec \<subseteq> row_codec
  by unfold_locales (simp_all add: round_trip_end nonempty)

text \<open>The allocator's answers, by the words left when it is asked.\<close>

record allocator =
  al_items :: "u64 list \<Rightarrow> bool"
  al_bytes :: "u64 list \<Rightarrow> bool"
  al_names :: "u64 list \<Rightarrow> nat \<Rightarrow> bool \<times> bool"
  al_slot :: "u64 list \<Rightarrow> bool"
  al_cache :: "u64 list \<Rightarrow> bool \<times> bool"

definition ample :: allocator where
  "ample = \<lparr>al_items = (\<lambda>ws. True), al_bytes = (\<lambda>ws. True), al_names = (\<lambda>ws i. (True, True)),
     al_slot = (\<lambda>ws. True), al_cache = (\<lambda>ws. (True, True))\<rparr>"

lemma ample_simps [simp]:
  "al_items ample = (\<lambda>ws. True)" "al_bytes ample = (\<lambda>ws. True)" "al_names ample = (\<lambda>ws i. (True, True))"
  "al_slot ample = (\<lambda>ws. True)" "al_cache ample = (\<lambda>ws. (True, True))"
  by (simp_all add: ample_def)

section \<open>Bytes and strings\<close>

text \<open>A word holds eight bytes, the lowest first; \<open>le_word\<close> leaves missing ones zero.\<close>

definition u64_to_le_bytes :: "u64 \<Rightarrow> u8 list" where
  "u64_to_le_bytes w = map (\<lambda>i. ucast (drop_bit (8 * i) w)) [0 ..< 8]"

fun byte_words :: "u8 list \<Rightarrow> u64 list" where
  "byte_words [] = []"
| "byte_words (b # bs) = le_word (take 8 (b # bs)) # byte_words (drop 7 bs)"

definition put_bytes :: "u8 list \<Rightarrow> u64 list" where
  "put_bytes bs = put_usize (length bs) @ byte_words bs"

fun word_bytes :: "nat \<Rightarrow> u64 list \<Rightarrow> u8 list" where
  "word_bytes n [] = []"
| "word_bytes n (w # ws) = take (min n 8) (u64_to_le_bytes w) @ word_bytes (n - 8) ws"

definition get_bytes :: "allocator \<Rightarrow> abi_table \<Rightarrow> u64 list \<Rightarrow> u8 list reading" where
  "get_bytes m t ws = then_do (get_usize t ws) (\<lambda>len ws.
     then_do (reader_take ((len + 7) div 8) ws) (\<lambda>words ws.
       if \<not> al_bytes m ws then (Inl OutOfMemory, ws) else (Inr (word_bytes len words), ws)))"

definition get_string :: "allocator \<Rightarrow> abi_table \<Rightarrow> u64 list \<Rightarrow> u8 list reading" where
  "get_string m t ws = reads (get_bytes m t ws) (\<lambda>bs. if utf8_valid bs then Inr bs else Inl InvalidValue)"

lemma le_bytes_le_word:
  assumes "length bs \<le> 8"
  shows "take (length bs) (u64_to_le_bytes (le_word bs)) = bs"
proof (rule nth_equalityI)
  show "length (take (length bs) (u64_to_le_bytes (le_word bs))) = length bs"
    using assms by (simp add: u64_to_le_bytes_def)
  fix i assume "i < length (take (length bs) (u64_to_le_bytes (le_word bs)))"
  then have i: "i < length bs" using assms by (simp add: u64_to_le_bytes_def)
  have "bit (ucast (drop_bit (8 * i) (le_word bs :: u64)) :: u8) n \<longleftrightarrow> bit (bs ! i) n" for n
  proof (cases "n < 8")
    case True
    then have "(8 * i + n) div 8 = i" "(8 * i + n) mod 8 = n" by simp_all
    moreover have "8 * i + n < 8 * length bs" using i True by linarith
    ultimately show ?thesis using True assms by (auto simp: bit_simps bit_le_word)
  qed (auto simp: bit_simps dest: bit_imp_le_length)
  then have "ucast (drop_bit (8 * i) (le_word bs :: u64)) = bs ! i" by (intro bit_eqI) blast
  then show "take (length bs) (u64_to_le_bytes (le_word bs)) ! i = bs ! i"
    using i assms by (simp add: u64_to_le_bytes_def)
qed

lemma length_byte_words: "length (byte_words bs) = (length bs + 7) div 8"
  by (induction bs rule: byte_words.induct) (auto simp: div_if split: nat_diff_split)

lemma word_bytes_byte_words: "word_bytes (length bs) (byte_words bs) = bs"
proof (induction bs rule: byte_words.induct)
  case (2 b bs)
  let ?chunk = "take 8 (b # bs)"
  have "length ?chunk \<le> 8" by simp
  from le_bytes_le_word [OF this] have chunk: "take (min (length (b # bs)) 8) (u64_to_le_bytes (le_word ?chunk)) = ?chunk"
    by (simp only: length_take)
  have "length (b # bs) - 8 = length (drop 7 bs)" by simp
  with 2 have "word_bytes (length (b # bs) - 8) (byte_words (drop 7 bs)) = drop 8 (b # bs)" by simp
  with chunk have "word_bytes (length (b # bs)) (byte_words (b # bs)) = ?chunk @ drop 8 (b # bs)"
    by (simp only: byte_words.simps word_bytes.simps)
  then show ?case by (simp only: append_take_drop_id)
qed simp

interpretation bytes: codec put_bytes "get_bytes ample" "\<lambda>t bs. length bs < usize_limit"
  by unfold_locales
    (simp_all add: put_bytes_def get_bytes_def codec_simps length_byte_words word_bytes_byte_words usize.nonempty)

definition string_ok :: "u8 list \<Rightarrow> bool" where
  "string_ok bs \<longleftrightarrow> length bs < usize_limit \<and> utf8_valid bs"

interpretation strings: codec put_bytes "get_string ample" "\<lambda>t. string_ok"
  by unfold_locales (simp_all add: get_string_def string_ok_def codec_simps bytes.nonempty)

section \<open>Textures, buffers and samplers\<close>

definition put_texture_desc :: "texture_desc \<Rightarrow> u64 list" where
  "put_texture_desc d = put_tag texture_format_tags (tex_format d) @ put_extent (tex_extent d) @
     put_flags texture_usage_flags (tex_usage d) @ put_u32 (tex_mips d) @ put_u32 (tex_layers d) @
     put_bool (tex_cube d)"

definition get_texture_desc :: "abi_table \<Rightarrow> u64 list \<Rightarrow> texture_desc reading" where
  "get_texture_desc t ws =
     then_do (get_tag texture_format_tags t ws) (\<lambda>format ws.
     then_do (get_extent t ws) (\<lambda>extent ws.
     then_do (reads (get_flags texture_usage_flags t ws) (texture_desc_new format extent)) (\<lambda>d ws.
     then_do (reads (get_u32 t ws) (with_mip_level_count d)) (\<lambda>d ws.
     then_do (reads (get_u32 t ws) (with_array_layer_count d)) (\<lambda>d ws.
     reads (get_bool t ws) (with_cube_compatible d))))))"

definition put_buffer_desc :: "buffer_desc \<Rightarrow> u64 list" where
  "put_buffer_desc d = put_u64 (buf_size d) @ put_flags buffer_usage_flags (buf_usage d)"

definition get_buffer_desc :: "abi_table \<Rightarrow> u64 list \<Rightarrow> buffer_desc reading" where
  "get_buffer_desc t ws = then_do (get_u64 t ws) (\<lambda>len ws.
     reads (get_flags buffer_usage_flags t ws) (buffer_desc_new len))"

text \<open>An anisotropic sampler appends its limit to the row.\<close>

definition put_sampler_desc :: "sampler_desc \<Rightarrow> u64 list" where
  "put_sampler_desc s = put_tag filter_mode_tags (smp_min_filter s) @ put_tag filter_mode_tags (smp_mag_filter s) @
     put_tag address_mode_tags (smp_address_u s) @ put_tag address_mode_tags (smp_address_v s) @
     put_tag filter_mode_tags (smp_mip_filter s) @ put_f32 (smp_min_lod_bits s) @ put_f32 (smp_max_lod_bits s) @
     put_option (put_tag compare_function_tags) (smp_compare s) @
     (if smp_anisotropy s > 1 then put_u8 (smp_anisotropy s) else [])"

definition get_sampler_desc :: "abi_table \<Rightarrow> u64 list \<Rightarrow> sampler_desc reading" where
  "get_sampler_desc t ws =
     then_do (get_tag filter_mode_tags t ws) (\<lambda>min_filter ws.
     then_do (get_tag filter_mode_tags t ws) (\<lambda>mag_filter ws.
     then_do (get_tag address_mode_tags t ws) (\<lambda>address_u ws.
     then_do (get_tag address_mode_tags t ws) (\<lambda>address_v ws.
     then_do (get_tag filter_mode_tags t ws) (\<lambda>mip_filter ws.
     then_do (get_f32 t ws) (\<lambda>min_lod ws.
     then_do (reads (get_f32 t ws)
       (with_mip_filter (sampler_desc_new min_filter mag_filter address_u address_v) mip_filter min_lod)) (\<lambda>s ws.
     then_do (get_option (get_tag compare_function_tags) t ws) (\<lambda>compare ws.
       let s = with_compare s compare
       in if ws = [] then (Inr s, ws) else reads (get_u8 t ws) (with_anisotropy s)))))))))"

text \<open>What the constructors accept; \<open>texture_survives\<close> excepts what the row of a texture cannot say.\<close>

definition texture_accepted :: "texture_desc \<Rightarrow> bool" where
  "texture_accepted d \<longleftrightarrow> texture_ok d \<and> flags_ok texture_usage_flags (tex_usage d) \<and>
     is_ok (texture_desc_new (tex_format d) (tex_extent d) (tex_usage d))"

definition texture_survives :: "texture_desc \<Rightarrow> bool" where
  "texture_survives d \<longleftrightarrow> texture_accepted d \<and> \<not> tex_1d d"

definition buffer_accepted :: "buffer_desc \<Rightarrow> bool" where
  "buffer_accepted d \<longleftrightarrow> buffer_desc_new (buf_size d) (buf_usage d) = Inr d \<and>
     flags_ok buffer_usage_flags (buf_usage d)"

definition canonical_float :: "f32 \<Rightarrow> bool" where
  "canonical_float x \<longleftrightarrow> f32_is_finite x \<and> (f32_eq_zero x \<longrightarrow> x = 0)"

definition sampler_accepted :: "sampler_desc \<Rightarrow> bool" where
  "sampler_accepted s \<longleftrightarrow> canonical_float (smp_min_lod_bits s) \<and> canonical_float (smp_max_lod_bits s) \<and>
     \<not> f32_less (smp_max_lod_bits s) (smp_min_lod_bits s) \<and> 1 \<le> smp_anisotropy s \<and> smp_anisotropy s \<le> 16"

lemma is_ok_guard: "is_ok (if c then Inl e else Inr x) \<Longrightarrow> (if c then Inl e else Inr x) = Inr x"
  by (cases c) simp_all

lemma texture_row:
  assumes "texture_accepted d"
  shows "get_texture_desc t (put_texture_desc d @ ws) = (Inr (d\<lparr>tex_1d := False\<rparr>), ws)"
proof -
  let ?d = "\<lambda>mips layers. \<lparr>tex_format = tex_format d, tex_extent = tex_extent d, tex_usage = tex_usage d,
      tex_mips = mips, tex_layers = layers, tex_cube = False, tex_1d = False\<rparr>"
  have new: "texture_desc_new (tex_format d) (tex_extent d) (tex_usage d) = Inr (?d 1 1)"
    using assms unfolding texture_accepted_def texture_desc_new_def by (intro is_ok_guard) blast
  have ok: "texture_ok d" "flags_ok texture_usage_flags (tex_usage d)" "extent_ok (tex_extent d)"
    using assms by (simp_all add: texture_accepted_def texture_ok_def)
  have "1 \<le> tex_mips d" "1 \<le> tex_layers d"
    using ok(1) unfolding texture_ok_def by blast+
  then have nonzero: "tex_mips d \<noteq> 0" "tex_layers d \<noteq> 0" by auto
  have "tex_mips d \<le> tex_max_mips (tex_extent d)"
      "tex_format d \<in> {Depth32Float, Nv12} \<or> usage_contains (tex_usage d) TEX_PRESENT \<Longrightarrow> tex_mips d = 1"
    using ok(1) unfolding texture_ok_def by blast+
  with nonzero have mips: "with_mip_level_count (?d 1 1) (tex_mips d) = Inr (?d (tex_mips d) 1)"
    by (auto simp: with_mip_level_count_def not_less)
  have "tex_layers d \<le> 2048"
      "usage_contains (tex_usage d) TEX_PRESENT \<or> tex_format d = Nv12 \<Longrightarrow> tex_layers d = 1"
    using ok(1) unfolding texture_ok_def by blast+
  with nonzero have layers: "with_array_layer_count (?d (tex_mips d) 1) (tex_layers d) = Inr (?d (tex_mips d) (tex_layers d))"
    by (auto simp: with_array_layer_count_def not_less)
  have "tex_cube d \<Longrightarrow> 6 \<le> tex_layers d \<and> ext_width (tex_extent d) = ext_height (tex_extent d)"
    using ok(1) unfolding texture_ok_def by blast
  then have cube: "with_cube_compatible (?d (tex_mips d) (tex_layers d)) (tex_cube d) = Inr (d\<lparr>tex_1d := False\<rparr>)"
    by (cases d) (simp add: with_cube_compatible_def not_less)
  show ?thesis
    by (simp add: put_texture_desc_def get_texture_desc_def codec_simps ok(2,3) new mips layers cube
        texture_format.round_trip)
qed

interpretation texture_desc: codec put_texture_desc get_texture_desc "\<lambda>t. texture_survives"
  by unfold_locales
    (simp_all add: texture_row texture_survives_def, simp add: put_texture_desc_def texture_format.nonempty)

interpretation buffer_desc: codec put_buffer_desc get_buffer_desc "\<lambda>t. buffer_accepted"
  by unfold_locales
    (simp_all add: put_buffer_desc_def get_buffer_desc_def codec_simps buffer_accepted_def u64.nonempty)

interpretation compare_option: canonical_codec "put_option (put_tag compare_function_tags)"
    "get_option (get_tag compare_function_tags)" "\<lambda>t. pred_option (any_value t)"
  by (rule compare_function.option_canonical)

lemma with_mip_filter_canonical:
  "canonical_float a \<Longrightarrow> canonical_float b \<Longrightarrow> \<not> f32_less b a \<Longrightarrow>
     with_mip_filter s mode a b = Inr (s\<lparr>smp_mip_filter := mode, smp_min_lod_bits := a, smp_max_lod_bits := b\<rparr>)"
  by (auto simp: with_mip_filter_def canonical_float_def)

interpretation sampler_desc: row_codec put_sampler_desc get_sampler_desc "\<lambda>t. sampler_accepted"
proof
  show "get_sampler_desc t (put_sampler_desc s) = (Inr s, [])" if "sampler_accepted s" for t s
  proof -
    have one: "smp_anisotropy s = 1" if "\<not> 1 < smp_anisotropy s"
      using \<open>sampler_accepted s\<close> that by (simp add: sampler_accepted_def)
    show ?thesis
      using that by (auto simp: put_sampler_desc_def get_sampler_desc_def codec_simps sampler_accepted_def
          with_mip_filter_canonical sampler_desc_new_def with_compare_def with_anisotropy_def u8.nonempty
          pred_option_def dest!: one)
  qed
qed (simp add: put_sampler_desc_def filter_mode.nonempty)

section \<open>Fixed-function pipelines\<close>

definition put_depth_state :: "depth_state \<Rightarrow> u64 list" where
  "put_depth_state d = put_tag texture_format_tags (ds_format d) @ put_tag compare_function_tags (ds_compare d) @
     put_bool (ds_write d)"

definition get_depth_state :: "abi_table \<Rightarrow> u64 list \<Rightarrow> depth_state reading" where
  "get_depth_state t ws =
     then_do (get_tag texture_format_tags t ws) (\<lambda>format ws.
     then_do (get_tag compare_function_tags t ws) (\<lambda>compare ws.
     reads (get_bool t ws) (\<lambda>w. Inr \<lparr>ds_format = format, ds_compare = compare, ds_write = w\<rparr>)))"

definition put_attribute :: "vertex_attribute \<Rightarrow> u64 list" where
  "put_attribute a = put_u32 (va_location a) @ put_tag vertex_format_tags (va_format a) @ put_u32 (va_offset a)"

definition get_attribute :: "abi_table \<Rightarrow> u64 list \<Rightarrow> vertex_attribute reading" where
  "get_attribute t ws =
     then_do (get_u32 t ws) (\<lambda>location ws.
     then_do (get_tag vertex_format_tags t ws) (\<lambda>format ws.
     reads (get_u32 t ws) (\<lambda>off. Inr \<lparr>va_location = location, va_format = format, va_offset = off\<rparr>)))"

definition put_blend_component :: "blend_component \<Rightarrow> u64 list" where
  "put_blend_component c = put_tag blend_factor_tags (bc_source c) @ put_tag blend_factor_tags (bc_destination c) @
     put_tag blend_op_tags (bc_operation c)"

definition get_blend_component :: "abi_table \<Rightarrow> u64 list \<Rightarrow> blend_component reading" where
  "get_blend_component t ws =
     then_do (get_tag blend_factor_tags t ws) (\<lambda>source ws.
     then_do (get_tag blend_factor_tags t ws) (\<lambda>destination ws.
     reads (get_tag blend_op_tags t ws) (\<lambda>op. Inr (blend_component_new source destination op))))"

definition put_blend_state :: "blend_state \<Rightarrow> u64 list" where
  "put_blend_state b = put_blend_component (bs_color b) @ put_blend_component (bs_alpha b)"

definition get_blend_state :: "abi_table \<Rightarrow> u64 list \<Rightarrow> blend_state reading" where
  "get_blend_state t ws = then_do (get_blend_component t ws) (\<lambda>color ws.
     reads (get_blend_component t ws) (\<lambda>alpha. Inr \<lparr>bs_color = color, bs_alpha = alpha\<rparr>))"

definition put_raster_state :: "raster_state \<Rightarrow> u64 list" where
  "put_raster_state r = put_tag cull_mode_tags (rs_cull r) @ put_tag front_face_tags (rs_front r)"

definition get_raster_state :: "abi_table \<Rightarrow> u64 list \<Rightarrow> raster_state reading" where
  "get_raster_state t ws = then_do (get_tag cull_mode_tags t ws) (\<lambda>cull ws.
     reads (get_tag front_face_tags t ws) (\<lambda>front. Inr (raster_state_new cull front)))"

text \<open>A nonzero depth bias is the last tail of a pipeline row, announced by a word of its own.\<close>

abbreviation "BIAS \<equiv> (0x42494153 :: u64)"

definition put_bias :: "raster_state \<Rightarrow> u64 list" where
  "put_bias r = (if f32_eq_zero (rs_bias_constant r) \<and> f32_eq_zero (rs_bias_slope r) then []
     else BIAS # put_f32 (rs_bias_constant r) @ put_f32 (rs_bias_slope r))"

definition get_bias :: "raster_state \<Rightarrow> abi_table \<Rightarrow> u64 list \<Rightarrow> raster_state reading" where
  "get_bias r t ws = then_do (reader_word ws) (\<lambda>w ws.
     if w \<noteq> BIAS then (Inl InvalidDescriptor, ws)
     else then_do (get_f32 t ws) (\<lambda>constant ws. reads (get_f32 t ws) (with_depth_bias r constant)))"

definition put_fragment :: "fragment_program \<Rightarrow> u64 list" where
  "put_fragment f = (case f of Solid \<Rightarrow> [0] | VertexColor \<Rightarrow> [1]
     | Texture m \<Rightarrow> 2 # put_tag sample_mode_tags m | TextureVertexColor m \<Rightarrow> 3 # put_tag sample_mode_tags m)"

definition get_fragment :: "abi_table \<Rightarrow> u64 list \<Rightarrow> fragment_program reading" where
  "get_fragment t ws = then_do (reader_word ws) (\<lambda>w ws.
     if w = 0 then (Inr Solid, ws)
     else if w = 1 then (Inr VertexColor, ws)
     else if w = 2 then reads (get_tag sample_mode_tags t ws) (\<lambda>m. Inr (Texture m))
     else if w = 3 then reads (get_tag sample_mode_tags t ws) (\<lambda>m. Inr (TextureVertexColor m))
     else (Inl InvalidValue, ws))"

definition put_layout :: "vertex_layout \<Rightarrow> u64 list" where
  "put_layout l = put_u32 (vl_stride l) @ put_list put_attribute (vl_attributes l)"

definition get_layout :: "allocator \<Rightarrow> abi_table \<Rightarrow> u64 list \<Rightarrow> vertex_layout reading" where
  "get_layout m t ws = then_do (get_u32 t ws) (\<lambda>stride ws.
     reads (get_list (al_items m) get_attribute t ws) (vertex_layout_new stride))"

definition put_render_pipeline :: "render_pipeline \<Rightarrow> u64 list" where
  "put_render_pipeline p = put_tag texture_format_tags (rp_target_format p) @ put_tag topology_tags (rp_topology p) @
     put_layout (rp_vertex p) @ put_fragment (rp_fragment p) @ put_blend_state (rp_blend p) @
     put_raster_state (rp_raster p) @ put_option put_depth_state (rp_depth p) @ put_bias (rp_raster p)"

definition get_render_pipeline :: "allocator \<Rightarrow> abi_table \<Rightarrow> u64 list \<Rightarrow> render_pipeline reading" where
  "get_render_pipeline m t ws =
     then_do (get_tag texture_format_tags t ws) (\<lambda>target ws.
     then_do (get_tag topology_tags t ws) (\<lambda>topo ws.
     then_do (get_layout m t ws) (\<lambda>layout ws.
     then_do (get_fragment t ws) (\<lambda>fragment ws.
     then_do (get_blend_state t ws) (\<lambda>blend ws.
     then_do (reads (get_raster_state t ws) (render_pipeline_new target topo layout fragment blend)) (\<lambda>p ws.
     then_do (get_option get_depth_state t ws) (\<lambda>depth ws.
     then_do (case depth of Some d \<Rightarrow> (with_depth_state p d, ws) | None \<Rightarrow> (Inr p, ws)) (\<lambda>p ws.
       if ws = [] then (Inr p, ws)
       else reads (get_bias (rp_raster p) t ws) (\<lambda>raster. Inr (with_raster_state p raster))))))))))"

text \<open>A vertex layout is written without its step: the reader's is per vertex.\<close>

definition per_vertex :: "vertex_layout \<Rightarrow> vertex_layout" where
  "per_vertex l = l\<lparr>vl_step := StepVertex, vl_divisor := 1\<rparr>"

definition raster_accepted :: "raster_state \<Rightarrow> bool" where
  "raster_accepted r \<longleftrightarrow> canonical_float (rs_bias_constant r) \<and> canonical_float (rs_bias_slope r)"

definition pipeline_accepted :: "render_pipeline \<Rightarrow> bool" where
  "pipeline_accepted p \<longleftrightarrow>
     render_pipeline_new (rp_target_format p) (rp_topology p) (rp_vertex p) (rp_fragment p) (rp_blend p)
       (rp_raster p) = Inr (p\<lparr>rp_depth := None\<rparr>) \<and>
     layout_ok (rp_vertex p) \<and> raster_accepted (rp_raster p) \<and>
     (\<forall>d. rp_depth p = Some d \<longrightarrow> ds_format d = Depth32Float)"

interpretation depth_state: codec put_depth_state get_depth_state any_value
  by unfold_locales
    (simp_all add: put_depth_state_def get_depth_state_def codec_simps texture_format.nonempty)

interpretation attribute: codec put_attribute get_attribute any_value
  by unfold_locales (simp_all add: put_attribute_def get_attribute_def codec_simps u32.nonempty)

interpretation blend_component: codec put_blend_component get_blend_component any_value
  by unfold_locales (simp_all add: put_blend_component_def get_blend_component_def codec_simps
      blend_component_new_def blend_factor.nonempty)

interpretation blend_state: codec put_blend_state get_blend_state any_value
  by unfold_locales (simp_all add: put_blend_state_def get_blend_state_def codec_simps blend_component.nonempty)

interpretation fragment: codec put_fragment get_fragment any_value
  by unfold_locales
    (simp_all add: put_fragment_def get_fragment_def codec_simps split: fragment_program.split)

interpretation depth_option: codec "put_option put_depth_state" "get_option get_depth_state"
    "\<lambda>t. pred_option (any_value t)"
  by (rule depth_state.option_codec)

interpretation attributes: codec "put_list put_attribute" "get_list (\<lambda>ws. True) get_attribute"
    "\<lambda>t xs. length xs < usize_limit \<and> list_all (any_value t) xs"
  by (rule attribute.list_codec)

lemma raster_round_trip:
  "get_raster_state t (put_raster_state r @ ws) = (Inr (raster_state_new (rs_cull r) (rs_front r)), ws)"
  by (simp add: put_raster_state_def get_raster_state_def codec_simps)

lemma layout_round_trip:
  assumes "layout_ok l"
  shows "get_layout ample t (put_layout l @ ws) = (Inr (per_vertex l), ws)"
proof -
  have "layout_ok (per_vertex l)" using assms by (simp add: layout_ok_def per_vertex_def)
  then have "vertex_layout_new (vl_stride l) (vl_attributes l) = Inr (per_vertex l)"
    by (subst layout_new_iff) (simp add: per_vertex_def)
  moreover have "length (vl_attributes l) < usize_limit"
    using assms by (simp add: layout_ok_def usize_limit_def)
  ultimately show ?thesis by (simp add: put_layout_def get_layout_def codec_simps list_all_iff)
qed

text \<open>Reading the tail of a row back into the raster state read without it.\<close>

lemma canonical_bias:
  "raster_accepted r \<Longrightarrow> put_bias r = [] \<Longrightarrow> raster_state_new (rs_cull r) (rs_front r) = r"
  by (cases r) (auto simp: put_bias_def raster_accepted_def canonical_float_def raster_state_new_def split: if_splits)

lemma bias_round_trip:
  assumes "raster_accepted r" and "put_bias r \<noteq> []"
  shows "get_bias (raster_state_new (rs_cull r) (rs_front r)) t (put_bias r) = (Inr r, [])"
  using assms by (cases r) (auto simp: put_bias_def get_bias_def codec_simps raster_accepted_def canonical_float_def
      with_depth_bias_def raster_state_new_def split: if_splits)

interpretation render_pipeline: row_codec put_render_pipeline "get_render_pipeline ample" "\<lambda>t. pipeline_accepted"
proof
  show "get_render_pipeline ample t (put_render_pipeline p) = (Inr p, [])" if ok: "pipeline_accepted p" for t p
  proof -
    let ?raster = "raster_state_new (rs_cull (rp_raster p)) (rs_front (rp_raster p))"
    let ?p = "p\<lparr>rp_raster := ?raster\<rparr>"
    have "vl_step (rp_vertex p) = StepVertex" "layout_ok (rp_vertex p)"
      using ok by (auto simp: pipeline_accepted_def render_pipeline_new_def split: if_splits)
    then have layout: "per_vertex (rp_vertex p) = rp_vertex p"
      by (simp add: per_vertex_def layout_ok_def)
    have new: "render_pipeline_new (rp_target_format p) (rp_topology p) (rp_vertex p) (rp_fragment p) (rp_blend p)
        ?raster = Inr (?p\<lparr>rp_depth := None\<rparr>)"
      using ok by (cases p) (auto simp: pipeline_accepted_def render_pipeline_new_def split: if_splits)
    have depth: "(case rp_depth p of Some d \<Rightarrow> (with_depth_state (?p\<lparr>rp_depth := None\<rparr>) d, ws)
        | None \<Rightarrow> (Inr (?p\<lparr>rp_depth := None\<rparr>), ws)) = (Inr ?p, ws)" for ws :: "u64 list"
      using ok by (cases p) (auto simp: pipeline_accepted_def with_depth_state_def split: option.splits)
    have raster: "raster_accepted (rp_raster p)" using ok by (simp add: pipeline_accepted_def)
    note reading = put_render_pipeline_def get_render_pipeline_def codec_simps layout_round_trip layout
      raster_round_trip new depth \<open>layout_ok (rp_vertex p)\<close> with_raster_state_def pred_option_def
    show ?thesis
    proof (cases "put_bias (rp_raster p) = []")
      case True
      then have "get_render_pipeline ample t (put_render_pipeline p) = (Inr ?p, [])" by (simp add: reading)
      also have "?p = p" using canonical_bias [OF raster True] by (cases p) simp
      finally show ?thesis .
    next
      case False
      with bias_round_trip [OF raster] show ?thesis by (simp add: reading)
    qed
  qed
qed (simp add: put_render_pipeline_def texture_format.nonempty)

end
