(* ===== verification/Abi_Programs.thy ===== *)
theory Abi_Programs
  imports Abi_Descriptors
begin

text \<open>
  The rows of \<^verbatim>\<open>crates/sgfx-core/src/ir/abi/codec.rs\<close> that name other rows: shader modules and the entry
  points that select in them, binding layouts and bind groups, compute and programmable render
  pipelines. They are read in the table being filled, which resolves what they name.
\<close>

section \<open>Shader modules and entry points\<close>

definition put_shader_module :: "shader_module_desc \<Rightarrow> u64 list" where
  "put_shader_module d =
     (case sm_source d of SpirV v \<Rightarrow> 0 # put_list put_u32 v | Wgsl v \<Rightarrow> 1 # put_bytes v)"

definition get_shader_module :: "allocator \<Rightarrow> abi_table \<Rightarrow> u64 list \<Rightarrow> shader_module_desc reading" where
  "get_shader_module m t ws = then_do (reader_word ws) (\<lambda>w ws.
     if w = 0 then
       then_do (get_list (al_items m) get_u32 t ws) (\<lambda>v ws. (spirv (al_names m ws) v, ws))
     else if w = 1 then reads (get_string m t ws) wgsl
     else (Inl InvalidValue, ws))"

definition put_entry_point :: "shader_entry_point \<Rightarrow> u64 list" where
  "put_entry_point e = put_id (se_module e) @ put_tag shader_stage_tags (se_stage e) @ put_bytes (se_entry_point e)"

definition get_entry_point :: "allocator \<Rightarrow> abi_table \<Rightarrow> u64 list \<Rightarrow> shader_entry_point reading" where
  "get_entry_point m t ws =
     then_do (reads (get_program_id shader_module_ref t ws) (shader_module_ref (at_table t))) (\<lambda>module ws.
     then_do (get_tag shader_stage_tags t ws) (\<lambda>stage ws.
     reads (get_string m t ws) (shader_entry_point_new (at_table t) module stage)))"

definition module_accepted :: "shader_module_desc \<Rightarrow> bool" where
  "module_accepted d \<longleftrightarrow>
     (case sm_source d of
        SpirV v \<Rightarrow> spirv (\<lambda>i. (True, True)) v = Inr d
      | Wgsl v \<Rightarrow> wgsl v = Inr d \<and> utf8_valid v)"

definition entry_accepted :: "abi_table \<Rightarrow> shader_entry_point \<Rightarrow> bool" where
  "entry_accepted t e \<longleftrightarrow> program_id_ok shader_module_ref t (se_module e) \<and> string_ok (se_entry_point e) \<and>
     shader_entry_point_new (at_table t) (se_module e) (se_stage e) (se_entry_point e) = Inr e"

interpretation words: codec "put_list put_u32" "get_list (\<lambda>ws. True) get_u32"
    "\<lambda>t xs. length xs < usize_limit \<and> list_all (any_value t) xs"
  by (rule u32.list_codec)

interpretation shader_module: codec put_shader_module "get_shader_module ample" "\<lambda>t. module_accepted"
proof
  show "get_shader_module ample t (put_shader_module d @ ws) = (Inr d, ws)" if "module_accepted d" for t d ws
  proof (cases "sm_source d")
    case (SpirV v)
    then have "spirv (\<lambda>i. (True, True)) v = Inr d" using that by (simp add: module_accepted_def)
    moreover from this have "length v < usize_limit"
      by (auto simp: spirv_def usize_limit_def split: if_splits)
    ultimately show ?thesis
      by (simp add: put_shader_module_def get_shader_module_def codec_simps SpirV list_all_iff)
  next
    case (Wgsl v)
    then have "wgsl v = Inr d" "utf8_valid v" using that by (simp_all add: module_accepted_def)
    moreover from this have "string_ok v"
      by (auto simp: wgsl_def string_ok_def usize_limit_def split: if_splits)
    ultimately show ?thesis
      by (simp add: put_shader_module_def get_shader_module_def codec_simps Wgsl)
  qed
qed (simp add: put_shader_module_def split: shader_source.split)

lemma resolved_module: "program_id_ok shader_module_ref t i \<Longrightarrow> shader_module_ref (at_table t) i = Inr i"
  by (auto simp: program_id_ok_def is_ok_Inr shader_module_ref_def slots_validate_def split: if_splits option.splits)

interpretation entry_point: codec put_entry_point "get_entry_point ample" entry_accepted
  by unfold_locales
    (simp_all add: put_entry_point_def get_entry_point_def codec_simps entry_accepted_def resolved_module
      shader_stage.nonempty)

section \<open>Binding layouts\<close>

definition put_mask :: "write_mask \<Rightarrow> u64 list" where "put_mask m = put_u8 m"

definition get_mask :: "abi_table \<Rightarrow> u64 list \<Rightarrow> write_mask reading" where
  "get_mask t ws = reads (get_u8 t ws) write_mask_from_bits"

definition put_color_target :: "color_target \<Rightarrow> u64 list" where
  "put_color_target c = put_tag texture_format_tags (ct_format c) @ put_blend_state (ct_blend c) @ put_mask (ct_mask c)"

definition get_color_target :: "abi_table \<Rightarrow> u64 list \<Rightarrow> color_target reading" where
  "get_color_target t ws =
     then_do (get_tag texture_format_tags t ws) (\<lambda>format ws.
     then_do (get_blend_state t ws) (\<lambda>blend ws.
     reads (get_mask t ws) (color_target_new format blend)))"

definition put_push_range :: "push_constant_range \<Rightarrow> u64 list" where
  "put_push_range r = put_flags shader_stage_flags (pc_stages r) @ put_u32 (pc_offset r) @ put_u32 (pc_size r)"

definition get_push_range :: "abi_table \<Rightarrow> u64 list \<Rightarrow> push_constant_range reading" where
  "get_push_range t ws =
     then_do (get_flags shader_stage_flags t ws) (\<lambda>stages ws.
     then_do (get_u32 t ws) (\<lambda>off ws.
     reads (get_u32 t ws) (push_constant_range_new stages off)))"

fun put_binding_type :: "binding_type \<Rightarrow> u64 list" where
  "put_binding_type UniformBuffer = [0]"
| "put_binding_type (StorageBuffer ro) = 1 # put_bool ro"
| "put_binding_type SampledTexture = [2]"
| "put_binding_type (SampledTextureView dim depth) = 3 # put_tag view_dimension_tags dim @ put_bool depth"
| "put_binding_type SamplerBinding = [4]"
| "put_binding_type ComparisonSampler = [5]"
| "put_binding_type (StorageTexture format access) =
     6 # put_tag texture_format_tags format @ put_tag storage_access_tags access"

definition get_binding_type :: "abi_table \<Rightarrow> u64 list \<Rightarrow> binding_type reading" where
  "get_binding_type t ws = then_do (reader_word ws) (\<lambda>w ws.
     if w = 0 then (Inr UniformBuffer, ws)
     else if w = 1 then reads (get_bool t ws) (\<lambda>ro. Inr (StorageBuffer ro))
     else if w = 2 then (Inr SampledTexture, ws)
     else if w = 3 then then_do (get_tag view_dimension_tags t ws) (\<lambda>dim ws.
       reads (get_bool t ws) (\<lambda>depth. Inr (SampledTextureView dim depth)))
     else if w = 4 then (Inr SamplerBinding, ws)
     else if w = 5 then (Inr ComparisonSampler, ws)
     else if w = 6 then then_do (get_tag texture_format_tags t ws) (\<lambda>format ws.
       reads (get_tag storage_access_tags t ws) (\<lambda>access. Inr (StorageTexture format access)))
     else (Inl InvalidValue, ws))"

definition put_layout_entry :: "layout_entry \<Rightarrow> u64 list" where
  "put_layout_entry e = put_u32 (le_binding e) @ put_flags shader_stage_flags (le_visibility e) @
     put_binding_type (le_ty e)"

definition get_layout_entry :: "abi_table \<Rightarrow> u64 list \<Rightarrow> layout_entry reading" where
  "get_layout_entry t ws =
     then_do (get_u32 t ws) (\<lambda>binding ws.
     then_do (get_flags shader_stage_flags t ws) (\<lambda>visibility ws.
     reads (get_binding_type t ws) (\<lambda>ty. Inr \<lparr>le_binding = binding, le_visibility = visibility, le_ty = ty\<rparr>)))"

definition put_bind_layout :: "bind_group_layout \<Rightarrow> u64 list" where
  "put_bind_layout l = put_list put_layout_entry l"

definition get_bind_layout :: "allocator \<Rightarrow> abi_table \<Rightarrow> u64 list \<Rightarrow> bind_group_layout reading" where
  "get_bind_layout m t ws = reads (get_list (al_items m) get_layout_entry t ws) bind_group_layout_new"

definition put_pipeline_layout :: "pipeline_layout \<Rightarrow> u64 list" where
  "put_pipeline_layout l = put_list put_bind_layout (pl_bind_groups l) @ put_list put_push_range (pl_push_constants l)"

definition get_pipeline_layout :: "allocator \<Rightarrow> abi_table \<Rightarrow> u64 list \<Rightarrow> pipeline_layout reading" where
  "get_pipeline_layout m t ws =
     then_do (reads (get_list (al_items m) (get_bind_layout m) t ws) pipeline_layout_new) (\<lambda>l ws.
     reads (get_list (al_items m) get_push_range t ws) (with_push_constant_ranges l))"

definition mask_accepted :: "write_mask \<Rightarrow> bool" where
  "mask_accepted m \<longleftrightarrow> m AND NOT 15 = 0"

definition target_accepted :: "color_target \<Rightarrow> bool" where
  "target_accepted c \<longleftrightarrow> ct_format c \<noteq> Depth32Float \<and> mask_accepted (ct_mask c)"

definition range_accepted :: "push_constant_range \<Rightarrow> bool" where
  "range_accepted r \<longleftrightarrow> push_constant_range_new (pc_stages r) (pc_offset r) (pc_size r) = Inr r \<and>
     flags_ok shader_stage_flags (pc_stages r)"

definition bind_layout_accepted :: "bind_group_layout \<Rightarrow> bool" where
  "bind_layout_accepted l \<longleftrightarrow> layout_canonical l \<and>
     list_all (\<lambda>e. flags_ok shader_stage_flags (le_visibility e)) l"

definition layout_accepted :: "pipeline_layout \<Rightarrow> bool" where
  "layout_accepted l \<longleftrightarrow> length (pl_bind_groups l) \<le> MAX_BIND_GROUPS \<and>
     list_all bind_layout_accepted (pl_bind_groups l) \<and> list_all range_accepted (pl_push_constants l) \<and>
     with_push_constant_ranges (l\<lparr>pl_push_constants := []\<rparr>) (pl_push_constants l) = Inr l"

interpretation write_mask: codec put_mask get_mask "\<lambda>t. mask_accepted"
  by unfold_locales
    (simp_all add: put_mask_def get_mask_def codec_simps mask_accepted_def write_mask_from_bits_def u8.nonempty)

interpretation color_target: codec put_color_target get_color_target "\<lambda>t. target_accepted"
  by unfold_locales
    (simp_all add: put_color_target_def get_color_target_def codec_simps target_accepted_def color_target_new_def
      texture_format.nonempty)

interpretation push_range: codec put_push_range get_push_range "\<lambda>t. range_accepted"
  by unfold_locales
    (simp_all add: put_push_range_def get_push_range_def codec_simps range_accepted_def shader_stages.nonempty)

interpretation binding_type: codec put_binding_type get_binding_type any_value
proof
  show "get_binding_type t (put_binding_type ty @ ws) = (Inr ty, ws)" for t ty ws
    by (cases ty) (simp_all add: get_binding_type_def codec_simps)
  show "put_binding_type ty \<noteq> []" for ty by (cases ty) simp_all
qed

interpretation layout_entry: codec put_layout_entry get_layout_entry
    "\<lambda>t e. flags_ok shader_stage_flags (le_visibility e)"
  by unfold_locales
    (simp_all add: put_layout_entry_def get_layout_entry_def codec_simps u32.nonempty)

interpretation layout_entries: codec "put_list put_layout_entry" "get_list (\<lambda>ws. True) get_layout_entry"
    "\<lambda>t xs. length xs < usize_limit \<and> list_all (\<lambda>e. flags_ok shader_stage_flags (le_visibility e)) xs"
  by (rule layout_entry.list_codec)

lemma layout_new_canonical: "layout_canonical l \<Longrightarrow> bind_group_layout_new l = Inr l"
proof -
  assume l: "layout_canonical l"
  then have "sorted (map le_binding l)" by (simp add: layout_canonical_def strict_sorted_iff)
  then have "sort_key le_binding l = l" by (rule sort_key_id_if_sorted)
  moreover have "\<not> list_ex (layout_entry_rejected l) [0 ..< length l]"
    using canonical_iff [OF \<open>sorted (map le_binding l)\<close>] l by blast
  ultimately show ?thesis using canonical_length [OF l] by (simp add: bind_group_layout_new_def Let_def)
qed

interpretation bind_layout: codec put_bind_layout "get_bind_layout ample" "\<lambda>t. bind_layout_accepted"
proof
  show "get_bind_layout ample t (put_bind_layout l @ ws) = (Inr l, ws)" if "bind_layout_accepted l" for t l ws
    using that canonical_length [of l]
    by (simp add: put_bind_layout_def get_bind_layout_def codec_simps bind_layout_accepted_def layout_new_canonical
        usize_limit_def)
  show "put_bind_layout l \<noteq> []" for l by (simp add: put_bind_layout_def put_list_def put_usize_def)
qed

interpretation bind_layouts: codec "put_list put_bind_layout" "get_list (\<lambda>ws. True) (get_bind_layout ample)"
    "\<lambda>t xs. length xs < usize_limit \<and> list_all bind_layout_accepted xs"
  by (rule bind_layout.list_codec)

interpretation push_ranges: codec "put_list put_push_range" "get_list (\<lambda>ws. True) get_push_range"
    "\<lambda>t xs. length xs < usize_limit \<and> list_all range_accepted xs"
  by (rule push_range.list_codec)

interpretation pipeline_layout: codec put_pipeline_layout "get_pipeline_layout ample" "\<lambda>t. layout_accepted"
proof
  show "get_pipeline_layout ample t (put_pipeline_layout l @ ws) = (Inr l, ws)" if ok: "layout_accepted l" for t l ws
  proof -
    have new: "pipeline_layout_new (pl_bind_groups l) = Inr (l\<lparr>pl_push_constants := []\<rparr>)"
      using ok by (cases l) (simp add: layout_accepted_def pipeline_layout_new_def)
    have "length (pl_push_constants l) \<le> 3"
      using ok by (auto simp: layout_accepted_def with_push_constant_ranges_def split: if_splits)
    then show ?thesis
      using ok by (simp add: put_pipeline_layout_def get_pipeline_layout_def codec_simps layout_accepted_def new
          usize_limit_def)
  qed
  show "put_pipeline_layout l \<noteq> []" for l by (simp add: put_pipeline_layout_def put_list_def put_usize_def)
qed

section \<open>Bind groups\<close>

definition put_view_fields :: "view_desc \<Rightarrow> u64 list" where
  "put_view_fields v = put_tag texture_format_tags (view_format v) @ put_tag view_dimension_tags (view_dim v) @
     put_u32 (view_base_mip v) @ put_u32 (view_mips v) @ put_u32 (view_base_layer v) @ put_u32 (view_layers v)"

definition get_view_fields :: "texture_desc \<Rightarrow> abi_table \<Rightarrow> u64 list \<Rightarrow> view_desc reading" where
  "get_view_fields d t ws =
     then_do (get_tag texture_format_tags t ws) (\<lambda>format ws.
     then_do (get_tag view_dimension_tags t ws) (\<lambda>dim ws.
     then_do (get_u32 t ws) (\<lambda>base_mip ws.
     then_do (get_u32 t ws) (\<lambda>mips ws.
     then_do (get_u32 t ws) (\<lambda>base_layer ws.
     reads (get_u32 t ws) (view_desc_new d format dim base_mip mips base_layer))))))"

fun put_resource :: "binding_resource \<Rightarrow> u64 list" where
  "put_resource (BufferBinding b off len) = 0 # put_id b @ put_u64 off @ put_u64 len"
| "put_resource (TextureBinding i) = 1 # put_id i"
| "put_resource (SamplerResource i) = 2 # put_plain i"
| "put_resource (TextureViewBinding i v) = 3 # put_id i @ put_view_fields v"

text \<open>Only a view is rebuilt against its texture, which the table must still resolve.\<close>

definition get_resource :: "abi_table \<Rightarrow> u64 list \<Rightarrow> binding_resource reading" where
  "get_resource t ws = then_do (reader_word ws) (\<lambda>w ws.
     if w = 0 then then_do (get_id t ws) (\<lambda>b ws. then_do (get_u64 t ws) (\<lambda>off ws.
       reads (get_u64 t ws) (\<lambda>len. Inr (BufferBinding b off len))))
     else if w = 1 then reads (get_id t ws) (\<lambda>i. Inr (TextureBinding i))
     else if w = 2 then reads (get_plain sampler_ref t ws) (\<lambda>i. Inr (SamplerResource i))
     else if w = 3 then then_do (get_id t ws) (\<lambda>i ws.
       then_do (and_then (texture_ref (at_table t) i) (table_texture (at_table t)), ws) (\<lambda>d ws.
       reads (get_view_fields d t ws) (\<lambda>v. Inr (TextureViewBinding i v))))
     else (Inl InvalidValue, ws))"

definition put_group_entry :: "bind_group_entry \<Rightarrow> u64 list" where
  "put_group_entry e = put_u32 (be_binding e) @ put_resource (be_resource e)"

definition get_group_entry :: "abi_table \<Rightarrow> u64 list \<Rightarrow> bind_group_entry reading" where
  "get_group_entry t ws = then_do (get_u32 t ws) (\<lambda>binding ws.
     reads (get_resource t ws) (\<lambda>r. Inr \<lparr>be_binding = binding, be_resource = r\<rparr>))"

definition group_from_abi :: "bind_group_layout \<Rightarrow> bind_group_entry list \<Rightarrow> bind_group_desc ir_result" where
  "group_from_abi layout entries =
     (if length entries \<noteq> length layout \<or>
         list_ex (\<lambda>(e, l). be_binding e \<noteq> le_binding l) (zip entries layout)
      then Inl BindingLayoutMismatch
      else Inr \<lparr>bg_layout = layout, bg_entries = entries\<rparr>)"

definition put_bind_group :: "bind_group_desc \<Rightarrow> u64 list" where
  "put_bind_group g = put_bind_layout (bg_layout g) @ put_list put_group_entry (bg_entries g)"

definition get_bind_group :: "allocator \<Rightarrow> abi_table \<Rightarrow> u64 list \<Rightarrow> bind_group_desc reading" where
  "get_bind_group m t ws = then_do (get_bind_layout m t ws) (\<lambda>layout ws.
     reads (get_list (al_items m) get_group_entry t ws) (group_from_abi layout))"

text \<open>
  What a resource of a group needs of the reader's table: identities of that table, a live sampler,
  and for a view a live texture that the view fits.
\<close>

fun resource_known :: "abi_table \<Rightarrow> binding_resource \<Rightarrow> bool" where
  "resource_known t (BufferBinding b off len) \<longleftrightarrow> id_ok t b"
| "resource_known t (TextureBinding i) \<longleftrightarrow> id_ok t i"
| "resource_known t (SamplerResource i) \<longleftrightarrow> plain_ok sampler_ref t i"
| "resource_known t (TextureViewBinding i v) \<longleftrightarrow> id_ok t i \<and>
     (\<exists>d. live_texture (at_table t) i = Some d \<and> view_validate v d = Inr ())"

definition group_known :: "abi_table \<Rightarrow> bind_group_desc \<Rightarrow> bool" where
  "group_known t g \<longleftrightarrow> bind_layout_accepted (bg_layout g) \<and>
     list_all (\<lambda>e. resource_known t (be_resource e)) (bg_entries g) \<and>
     map be_binding (bg_entries g) = map le_binding (bg_layout g)"

lemma view_fields_round_trip:
  "view_validate v d = Inr () \<Longrightarrow> get_view_fields d t (put_view_fields v @ ws) = (Inr v, ws)"
  by (cases v) (simp add: put_view_fields_def get_view_fields_def codec_simps view_desc_new_def)

interpretation resource: codec put_resource get_resource resource_known
proof
  show "get_resource t (put_resource r @ ws) = (Inr r, ws)" if "resource_known t r" for t r ws
  proof (cases r)
    case (TextureViewBinding i v)
    with that obtain d where "id_ok t i" "live_texture (at_table t) i = Some d" "view_validate v d = Inr ()" by auto
    moreover from this have "texture_ref (at_table t) i = Inr i" "table_texture (at_table t) i = Inr d"
      by (simp_all add: ref_iff table_iff)
    ultimately show ?thesis
      by (simp add: get_resource_def codec_simps TextureViewBinding view_fields_round_trip)
  qed (use that in \<open>simp_all add: get_resource_def codec_simps\<close>)
  show "put_resource r \<noteq> []" for r by (cases r) simp_all
qed

interpretation group_entry: codec put_group_entry get_group_entry "\<lambda>t e. resource_known t (be_resource e)"
  by unfold_locales (simp_all add: put_group_entry_def get_group_entry_def codec_simps u32.nonempty)

interpretation group_entries: codec "put_list put_group_entry" "get_list (\<lambda>ws. True) get_group_entry"
    "\<lambda>t xs. length xs < usize_limit \<and> list_all (\<lambda>e. resource_known t (be_resource e)) xs"
  by (rule group_entry.list_codec)

lemma group_from_abi_iff:
  "group_from_abi layout entries = Inr g \<longleftrightarrow>
     map be_binding entries = map le_binding layout \<and> g = \<lparr>bg_layout = layout, bg_entries = entries\<rparr>"
  by (auto simp: group_from_abi_def list_ex_length list_eq_iff_nth_eq)

interpretation bind_group: codec put_bind_group "get_bind_group ample" group_known
proof
  show "get_bind_group ample t (put_bind_group g @ ws) = (Inr g, ws)" if ok: "group_known t g" for t g ws
  proof -
    have "length (bg_entries g) = length (bg_layout g)"
      using ok by (auto simp: group_known_def dest: map_eq_imp_length_eq)
    moreover have "length (bg_layout g) \<le> 32"
      using ok canonical_length by (auto simp: group_known_def bind_layout_accepted_def)
    moreover have "group_from_abi (bg_layout g) (bg_entries g) = Inr g"
      using ok by (subst group_from_abi_iff) (simp add: group_known_def)
    ultimately show ?thesis
      using ok by (simp add: put_bind_group_def get_bind_group_def codec_simps group_known_def usize_limit_def)
  qed
  show "put_bind_group g \<noteq> []" for g by (simp add: put_bind_group_def put_bind_layout_def put_list_def put_usize_def)
qed

section \<open>Compute and programmable pipelines\<close>

definition put_compute_pipeline :: "compute_pipeline \<Rightarrow> u64 list" where
  "put_compute_pipeline p = put_entry_point (cp_shader p) @ put_pipeline_layout (cp_layout p)"

definition get_compute_pipeline :: "allocator \<Rightarrow> abi_table \<Rightarrow> u64 list \<Rightarrow> compute_pipeline reading" where
  "get_compute_pipeline m t ws = then_do (get_entry_point m t ws) (\<lambda>shader ws.
     reads (get_pipeline_layout m t ws) (compute_pipeline_new shader))"

abbreviation "STEP \<equiv> (0x53544550 :: u64)"
abbreviation "DIVS \<equiv> (0x44495653 :: u64)"

text \<open>
  \<open>color_targets\<close> panics for a target format no constructor admits; the row has no targets then.
  The steps and divisors of the vertex buffers are tails, present only where they differ from what
  \<open>put_layout\<close> implies.
\<close>

definition put_step_tail :: "vertex_layout list \<Rightarrow> u64 list" where
  "put_step_tail ls = (if list_ex (\<lambda>l. vl_step l \<noteq> StepVertex) ls
     then STEP # put_list (put_tag step_mode_tags) (map vl_step ls) else [])"

definition put_divisor_tail :: "vertex_layout list \<Rightarrow> u64 list" where
  "put_divisor_tail ls = (if list_ex (\<lambda>l. vl_divisor l \<noteq> 1) ls
     then DIVS # put_list put_u32 (map vl_divisor ls) else [])"

definition put_programmable_pipeline :: "programmable_pipeline \<Rightarrow> u64 list" where
  "put_programmable_pipeline p =
     put_entry_point (pp_vertex p) @ put_entry_point (pp_fragment p) @ put_pipeline_layout (pp_layout p) @
     put_tag texture_format_tags (pp_target_format p) @ put_tag topology_tags (pp_topology p) @
     put_blend_state (pp_blend p) @ put_raster_state (pp_raster p) @ put_list put_layout (pp_vertex_buffers p) @
     put_option put_depth_state (pp_depth p) @
     put_list put_color_target (case color_targets p of Some ts \<Rightarrow> ts | None \<Rightarrow> []) @
     put_step_tail (pp_vertex_buffers p) @ put_divisor_tail (pp_vertex_buffers p) @ put_bias (pp_raster p)"

fun set_divisors :: "(vertex_layout \<times> u32) list \<Rightarrow> vertex_layout list ir_result" where
  "set_divisors [] = Inr []"
| "set_divisors ((l, d) # rest) = and_then (with_instance_divisor l d) (\<lambda>l'.
     and_then (set_divisors rest) (\<lambda>ls. Inr (l' # ls)))"

definition get_step_tail ::
    "allocator \<Rightarrow> programmable_pipeline \<Rightarrow> abi_table \<Rightarrow> u64 list \<Rightarrow> programmable_pipeline reading"
where
  "get_step_tail m p t ws =
     (if ws \<noteq> [] \<and> hd ws = STEP then
        then_do (get_list (al_items m) (get_tag step_mode_tags) t (tl ws)) (\<lambda>modes ws.
          if length modes \<noteq> length (pp_vertex_buffers p) then (Inl InvalidDescriptor, ws)
          else (with_vertex_buffers p (map (\<lambda>(l, mode). with_step_mode l mode) (zip (pp_vertex_buffers p) modes)), ws))
      else (Inr p, ws))"

definition get_divisor_tail ::
    "allocator \<Rightarrow> programmable_pipeline \<Rightarrow> abi_table \<Rightarrow> u64 list \<Rightarrow> programmable_pipeline reading"
where
  "get_divisor_tail m p t ws =
     (if ws \<noteq> [] \<and> hd ws = DIVS then
        then_do (get_list (al_items m) get_u32 t (tl ws)) (\<lambda>divisors ws.
          if length divisors \<noteq> length (pp_vertex_buffers p) then (Inl InvalidDescriptor, ws)
          else (and_then (set_divisors (zip (pp_vertex_buffers p) divisors)) (with_vertex_buffers p), ws))
      else (Inr p, ws))"

definition get_programmable_pipeline ::
    "allocator \<Rightarrow> abi_table \<Rightarrow> u64 list \<Rightarrow> programmable_pipeline reading"
where
  "get_programmable_pipeline m t ws =
     then_do (get_entry_point m t ws) (\<lambda>vertex ws.
     then_do (get_entry_point m t ws) (\<lambda>fragment ws.
     then_do (get_pipeline_layout m t ws) (\<lambda>layout ws.
     then_do (get_tag texture_format_tags t ws) (\<lambda>target ws.
     then_do (get_tag topology_tags t ws) (\<lambda>topo ws.
     then_do (get_blend_state t ws) (\<lambda>blend ws.
     then_do (reads (get_raster_state t ws)
       (programmable_pipeline_new vertex fragment layout target None topo blend)) (\<lambda>p ws.
     then_do (reads (get_list (al_items m) (get_layout m) t ws) (with_vertex_buffers p)) (\<lambda>p ws.
     then_do (get_option get_depth_state t ws) (\<lambda>depth ws.
     then_do (case depth of Some d \<Rightarrow> (pp_with_depth_state p d, ws) | None \<Rightarrow> (Inr p, ws)) (\<lambda>p ws.
     then_do (reads (get_list (al_items m) get_color_target t ws) (with_color_targets p)) (\<lambda>p ws.
     then_do (get_step_tail m p t ws) (\<lambda>p ws.
     then_do (get_divisor_tail m p t ws) (\<lambda>p ws.
     then_do (if ws = [] then (Inr p, ws)
              else reads (get_bias (pp_raster p) t ws) (\<lambda>raster. Inr (pp_with_raster_state p raster))) (\<lambda>p ws.
       (and_then (reader_end ws) (\<lambda>_. Inr p), ws)))))))))))))))"

definition compute_accepted :: "abi_table \<Rightarrow> compute_pipeline \<Rightarrow> bool" where
  "compute_accepted t p \<longleftrightarrow> entry_accepted t (cp_shader p) \<and> layout_accepted (cp_layout p) \<and>
     se_stage (cp_shader p) = Compute"

definition programmable_accepted :: "abi_table \<Rightarrow> programmable_pipeline \<Rightarrow> bool" where
  "programmable_accepted t p \<longleftrightarrow> pp_ok p \<and> entry_accepted t (pp_vertex p) \<and> entry_accepted t (pp_fragment p) \<and>
     se_stage (pp_vertex p) = Vertex \<and> se_stage (pp_fragment p) = Fragment \<and> layout_accepted (pp_layout p) \<and>
     list_all layout_ok (pp_vertex_buffers p) \<and> raster_accepted (pp_raster p) \<and>
     with_vertex_buffers p (pp_vertex_buffers p) = Inr p \<and>
     mask_accepted (pp_write_mask p) \<and> list_all (\<lambda>c. mask_accepted (ct_mask c)) (pp_additional p)"

interpretation compute_pipeline: codec put_compute_pipeline "get_compute_pipeline ample" compute_accepted
  by unfold_locales
    (simp_all add: put_compute_pipeline_def get_compute_pipeline_def codec_simps compute_accepted_def
      compute_pipeline_new_def, metis entry_point.nonempty)

text \<open>The tails give back the steps and divisors that the layouts of the row do not have.\<close>

interpretation plain_layout: codec put_layout "get_layout ample" "\<lambda>t l. layout_ok l \<and> per_vertex l = l"
  by unfold_locales (simp_all add: layout_round_trip, simp add: put_layout_def put_u32_def)

interpretation layouts: codec "put_list put_layout" "get_list (\<lambda>ws. True) (get_layout ample)"
    "\<lambda>t ls. length ls < usize_limit \<and> list_all (\<lambda>l. layout_ok l \<and> per_vertex l = l) ls"
  by (rule plain_layout.list_codec)

interpretation color_targets: codec "put_list put_color_target" "get_list (\<lambda>ws. True) get_color_target"
    "\<lambda>t cs. length cs < usize_limit \<and> list_all target_accepted cs"
  by (rule color_target.list_codec)

interpretation steps: codec "put_list (put_tag step_mode_tags)" "get_list (\<lambda>ws. True) (get_tag step_mode_tags)"
    "\<lambda>t xs. length xs < usize_limit \<and> list_all (any_value t) xs"
  by (rule step_mode.list_codec)

lemma layouts_without_steps:
  assumes "list_all layout_ok ls" and "length ls < usize_limit"
  shows "get_list (\<lambda>ws. True) (get_layout ample) t (put_list put_layout ls @ ws) = (Inr (map per_vertex ls), ws)"
proof -
  have "put_layout \<circ> per_vertex = put_layout" by (simp add: fun_eq_iff put_layout_def per_vertex_def)
  then have "put_list put_layout ls = put_list put_layout (map per_vertex ls)" by (simp add: put_list_def)
  moreover have "list_all (\<lambda>l. layout_ok l \<and> per_vertex l = l) (map per_vertex ls)"
    using assms(1) by (auto simp: list_all_iff per_vertex_def layout_ok_def)
  ultimately show ?thesis using assms(2) by (simp add: layouts.round_trip)
qed

lemma with_vertex_buffers_same:
  assumes "with_vertex_buffers p ls = Inr p'" and "map vl_attributes ls' = map vl_attributes ls"
  shows "with_vertex_buffers q ls' = Inr (q\<lparr>pp_vertex_buffers := ls'\<rparr>)"
  using assms map_eq_imp_length_eq [OF assms(2)]
  by (auto simp: with_vertex_buffers_def and_then_Inr_iff split: if_splits)

definition undivided :: "vertex_layout \<Rightarrow> vertex_layout" where
  "undivided l = l\<lparr>vl_divisor := 1\<rparr>"

lemma step_tail_round_trip:
  assumes "pp_vertex_buffers p = map per_vertex ls" and "with_vertex_buffers p' ls = Inr p'"
    and "length ls \<le> 8" and "ws = [] \<or> hd ws \<noteq> STEP"
  shows "get_step_tail ample p t (put_step_tail ls @ ws) = (Inr (p\<lparr>pp_vertex_buffers := map undivided ls\<rparr>), ws)"
proof (cases "list_ex (\<lambda>l. vl_step l \<noteq> StepVertex) ls")
  case True
  have "map (\<lambda>(l, mode). with_step_mode l mode) (zip (map per_vertex ls) (map vl_step ls)) = map undivided ls"
    by (rule nth_equalityI) (simp_all add: with_step_mode_def per_vertex_def undivided_def Let_def)
  moreover have "with_vertex_buffers p (map undivided ls) = Inr (p\<lparr>pp_vertex_buffers := map undivided ls\<rparr>)"
    by (rule with_vertex_buffers_same [OF assms(2)]) (simp add: undivided_def)
  ultimately show ?thesis
    using assms(1,3) True by (simp add: get_step_tail_def put_step_tail_def codec_simps usize_limit_def list_all_iff)
next
  case False
  then have "map per_vertex ls = map undivided ls"
    by (auto simp: list_ex_iff per_vertex_def undivided_def intro: vertex_layout.equality)
  with assms(1) have "p\<lparr>pp_vertex_buffers := map undivided ls\<rparr> = p" by (cases p) simp
  with assms(4) False show ?thesis by (auto simp: get_step_tail_def put_step_tail_def)
qed

lemma set_divisors_undivided: "list_all layout_ok ls \<Longrightarrow> set_divisors (zip (map undivided ls) (map vl_divisor ls)) = Inr ls"
  by (induction ls) (auto simp: with_instance_divisor_def undivided_def layout_ok_def)

lemma divisor_tail_round_trip:
  assumes "pp_vertex_buffers p = map undivided ls" and "with_vertex_buffers p' ls = Inr p'"
    and "list_all layout_ok ls" and "length ls \<le> 8" and "ws = [] \<or> hd ws \<noteq> DIVS"
  shows "get_divisor_tail ample p t (put_divisor_tail ls @ ws) = (Inr (p\<lparr>pp_vertex_buffers := ls\<rparr>), ws)"
proof (cases "list_ex (\<lambda>l. vl_divisor l \<noteq> 1) ls")
  case True
  have "with_vertex_buffers p ls = Inr (p\<lparr>pp_vertex_buffers := ls\<rparr>)"
    by (rule with_vertex_buffers_same [OF assms(2)]) simp
  then show ?thesis
    using assms(1,3,4) True by (simp add: get_divisor_tail_def put_divisor_tail_def codec_simps usize_limit_def
        list_all_iff set_divisors_undivided [OF assms(3)])
next
  case False
  then have "map undivided ls = ls"
    by (intro map_idI) (auto simp: list_ex_iff undivided_def intro: vertex_layout.equality)
  with assms(1) have "p\<lparr>pp_vertex_buffers := ls\<rparr> = p" by (cases p) simp
  with assms(5) False show ?thesis by (auto simp: get_divisor_tail_def put_divisor_tail_def)
qed

lemma color_targets_accepted:
  assumes "programmable_accepted t p"
  obtains ts where "color_targets p = Some ts" "list_all target_accepted ts" "length ts \<le> 8"
    and "\<forall>q. with_color_targets q ts = Inr (q\<lparr>pp_target_format := pp_target_format p, pp_blend := pp_blend p,
      pp_write_mask := pp_write_mask p, pp_additional := pp_additional p\<rparr>)"
proof
  let ?t = "\<lparr>ct_format = pp_target_format p, ct_blend = pp_blend p, ct_mask = pp_write_mask p\<rparr>"
  show "color_targets p = Some (?t # pp_additional p)"
    using assms by (simp add: programmable_accepted_def pp_ok_def color_targets_def color_target_new_def)
  show "list_all target_accepted (?t # pp_additional p)" "length (?t # pp_additional p) \<le> 8"
    using assms by (auto simp: programmable_accepted_def pp_ok_def target_accepted_def list_all_iff)
  then show "\<forall>q. with_color_targets q (?t # pp_additional p) = Inr (q\<lparr>pp_target_format := pp_target_format p,
      pp_blend := pp_blend p, pp_write_mask := pp_write_mask p, pp_additional := pp_additional p\<rparr>)"
    by (simp add: with_color_targets_def)
qed

lemma tails_distinguished:
  "put_divisor_tail ls @ put_bias r = [] \<or> hd (put_divisor_tail ls @ put_bias r) \<noteq> STEP"
  "put_bias r = [] \<or> hd (put_bias r) \<noteq> DIVS"
  by (auto simp: put_bias_def put_divisor_tail_def)

interpretation programmable_pipeline: row_codec put_programmable_pipeline "get_programmable_pipeline ample"
    programmable_accepted
proof
  show "get_programmable_pipeline ample t (put_programmable_pipeline p) = (Inr p, [])" if ok: "programmable_accepted t p"
    for t p
  proof -
    let ?ls = "pp_vertex_buffers p"
    let ?raster = "raster_state_new (rs_cull (pp_raster p)) (rs_front (pp_raster p))"
    let ?p = "\<lambda>ls depth mask ts. p\<lparr>pp_raster := ?raster, pp_vertex_buffers := ls, pp_depth := depth,
      pp_write_mask := mask, pp_additional := ts\<rparr>"
    obtain ts where ts: "color_targets p = Some ts" "list_all target_accepted ts" "length ts \<le> 8"
      and set_targets: "\<forall>q. with_color_targets q ts = Inr (q\<lparr>pp_target_format := pp_target_format p,
        pp_blend := pp_blend p, pp_write_mask := pp_write_mask p, pp_additional := pp_additional p\<rparr>)"
      by (rule color_targets_accepted [OF ok])
    have parts: "entry_accepted t (pp_vertex p)" "entry_accepted t (pp_fragment p)" "layout_accepted (pp_layout p)"
        "list_all layout_ok ?ls" "raster_accepted (pp_raster p)" "with_vertex_buffers p ?ls = Inr p"
      using ok by (simp_all add: programmable_accepted_def)
    have short: "length ?ls \<le> 8" using ok by (simp add: programmable_accepted_def pp_ok_def)
    have new: "programmable_pipeline_new (pp_vertex p) (pp_fragment p) (pp_layout p) (pp_target_format p) None
        (pp_topology p) (pp_blend p) ?raster = Inr (?p [] None 15 [])"
      using ok by (cases p) (simp add: programmable_accepted_def pp_ok_def programmable_pipeline_new_def)
    have buffers: "with_vertex_buffers (?p [] None 15 []) (map per_vertex ?ls) = Inr (?p (map per_vertex ?ls) None 15 [])"
      by (subst with_vertex_buffers_same [OF parts(6)]) (simp_all add: per_vertex_def)
    have depth: "(case pp_depth p of Some d \<Rightarrow> (pp_with_depth_state (?p ls None 15 []) d, ws)
        | None \<Rightarrow> (Inr (?p ls None 15 []), ws)) = (Inr (?p ls (pp_depth p) 15 []), ws)" for ls and ws :: "u64 list"
      using ok by (auto simp: programmable_accepted_def pp_ok_def pp_with_depth_state_def split: option.splits)
    have targets: "with_color_targets (p\<lparr>pp_raster := ?raster, pp_vertex_buffers := ls, pp_write_mask := 15,
        pp_additional := []\<rparr>) ts = Inr (p\<lparr>pp_raster := ?raster, pp_vertex_buffers := ls\<rparr>)" for ls
      by (simp add: set_targets)
    have steps: "get_step_tail ample (p\<lparr>pp_raster := ?raster, pp_vertex_buffers := map per_vertex ?ls\<rparr>) t
        (put_step_tail ?ls @ put_divisor_tail ?ls @ put_bias (pp_raster p)) =
        (Inr (p\<lparr>pp_raster := ?raster, pp_vertex_buffers := map undivided ?ls\<rparr>), put_divisor_tail ?ls @ put_bias (pp_raster p))"
      by (subst step_tail_round_trip [OF _ parts(6) short tails_distinguished(1)]) simp_all
    have divisors: "get_divisor_tail ample (p\<lparr>pp_raster := ?raster, pp_vertex_buffers := map undivided ?ls\<rparr>) t
        (put_divisor_tail ?ls @ put_bias (pp_raster p)) = (Inr (p\<lparr>pp_raster := ?raster\<rparr>), put_bias (pp_raster p))"
      by (subst divisor_tail_round_trip [OF _ parts(6,4) short tails_distinguished(2)]) simp_all
    have layouts: "get_list (\<lambda>ws. True) (get_layout ample) t (put_list put_layout ?ls @ ws) =
        (Inr (map per_vertex ?ls), ws)" for ws
      using layouts_without_steps [OF parts(4)] short by (simp add: usize_limit_def)
    have "length ts < usize_limit" using ts(3) by (simp add: usize_limit_def)
    then have "get_programmable_pipeline ample t (put_programmable_pipeline p) =
        then_do (if put_bias (pp_raster p) = [] then (Inr (p\<lparr>pp_raster := ?raster\<rparr>), put_bias (pp_raster p))
              else reads (get_bias (pp_raster (p\<lparr>pp_raster := ?raster\<rparr>)) t (put_bias (pp_raster p)))
                (\<lambda>raster. Inr (pp_with_raster_state (p\<lparr>pp_raster := ?raster\<rparr>) raster)))
          (\<lambda>p ws. (and_then (reader_end ws) (\<lambda>_. Inr p), ws))"
      by (simp add: put_programmable_pipeline_def get_programmable_pipeline_def codec_simps parts ts new
          raster_round_trip pred_option_def layouts buffers depth targets steps divisors split del: if_split)
    moreover have "p\<lparr>pp_raster := ?raster\<rparr> = p" if "put_bias (pp_raster p) = []"
      using canonical_bias [OF parts(5) that] by (cases p) simp
    ultimately show ?thesis
      using bias_round_trip [OF parts(5), of t] by (cases "put_bias (pp_raster p) = []") (simp_all add: pp_with_raster_state_def)
  qed
qed (simp add: put_programmable_pipeline_def put_entry_point_def shader_stage.nonempty)

end
