(* ===== verification/Abi_Tables.thy ===== *)
theory Abi_Tables
  imports Abi_Programs
begin

text \<open>
  The exchange of resource tables, \<^verbatim>\<open>crates/sgfx-core/src/ir/abi/resources.rs\<close>, with the ABI state of a
  table (\<^verbatim>\<open>abi/mod.rs\<close>). A producer encodes its table as a snapshot of framed rows, one category after
  the other, and keeps the encodings of programs; a consumer applies the snapshot to its mirror, and
  keeps the words of every row it accepted, so that an unchanged row is compared, not decoded.
\<close>

section \<open>The ABI state of a table\<close>

abbreviation "MAGIC \<equiv> (0x335258464753 :: u64)"
abbreviation "LEGACY_MAGIC \<equiv> (0x325258464753 :: u64)"

text \<open>The words accepted for a slot, with the generation they were accepted for.\<close>

type_synonym row_cache = "(u64 \<times> u64 list) option list"

text \<open>The encoding of a program slot, with the generation and the activity it was encoded for.\<close>

type_synonym program_rows = "(u64 \<times> bool \<times> u64 list) option list"

record accepted_rows =
  ar_textures :: row_cache
  ar_buffers :: row_cache
  ar_shaders :: row_cache
  ar_bind_groups :: row_cache
  ar_compute :: row_cache
  ar_programmable :: row_cache

record encoded_programs =
  en_shaders :: program_rows
  en_compute :: program_rows
  en_render :: program_rows

record abi_state =
  ab_view :: abi_table
  ab_enabled :: bool
  ab_revision :: u64
  ab_snapshot :: "u64 \<times> u64 list"
  ab_accepted :: accepted_rows
  ab_programs :: encoded_programs

abbreviation ab_table :: "abi_state \<Rightarrow> resource_table" where
  "ab_table s \<equiv> at_table (ab_view s)"

definition abi_state_new :: "usize \<Rightarrow> abi_state" where
  "abi_state_new number =
     \<lparr>ab_view = \<lparr>at_table = table_new number, at_legacy = False\<rparr>, ab_enabled = False, ab_revision = 1,
      ab_snapshot = (0, []),
      ab_accepted = \<lparr>ar_textures = [], ar_buffers = [], ar_shaders = [], ar_bind_groups = [],
        ar_compute = [], ar_programmable = []\<rparr>,
      ab_programs = \<lparr>en_shaders = [], en_compute = [], en_render = []\<rparr>\<rparr>"

definition enable_abi_commands :: "abi_state \<Rightarrow> abi_state" where
  "enable_abi_commands s = s\<lparr>ab_enabled := True\<rparr>"

definition abi_identity :: "abi_state \<Rightarrow> u64" where
  "abi_identity s = of_nat (rt_id (ab_table s))"

text \<open>The code panics where this would wrap around.\<close>

definition abi_changed :: "u64 \<Rightarrow> u64" where
  "abi_changed revision = revision + 1"

definition with_table :: "(resource_table \<Rightarrow> resource_table) \<Rightarrow> abi_state \<Rightarrow> abi_state" where
  "with_table f s = s\<lparr>ab_view := (ab_view s)\<lparr>at_table := f (ab_table s)\<rparr>\<rparr>"

text \<open>\<open>abi_texture\<close> and its like: the current generation of a mirrored slot.\<close>

definition abi_resolve ::
    "(resource_table \<Rightarrow> 'd slots) \<Rightarrow> (resource_table \<Rightarrow> res_id \<Rightarrow> res_id ir_result) \<Rightarrow> resource_table \<Rightarrow> u32 \<Rightarrow>
     res_id ir_result"
where
  "abi_resolve category resolve t index =
     and_then (ok_or (get (sl_slots (category t)) (unat index)) InvalidDescriptor) (\<lambda>slot.
       resolve t \<lparr>id_owner = rt_id t, id_index = unat index, id_generation = slot_generation slot\<rparr>)"

section \<open>Rows\<close>

text \<open>A slot is written without its place in the free list.\<close>

definition put_slot :: "('d \<Rightarrow> u64 list) \<Rightarrow> 'd slot \<Rightarrow> u64 list" where
  "put_slot put s = put_u64 (slot_generation s) @ put_option put (slot_desc s)"

definition get_slot ::
    "(abi_table \<Rightarrow> u64 list \<Rightarrow> 'd reading) \<Rightarrow> abi_table \<Rightarrow> u64 list \<Rightarrow> 'd slot reading"
where
  "get_slot getv t ws = then_do (get_u64 t ws) (\<lambda>generation ws.
     reads (get_option getv t ws) (\<lambda>d. Inr \<lparr>slot_desc = d, slot_generation = generation, slot_next = None\<rparr>))"

definition slot_active :: "'d slot \<Rightarrow> bool" where
  "slot_active s \<longleftrightarrow> slot_desc s \<noteq> None"

text \<open>A row is framed by its length in words.\<close>

definition put_frame :: "u64 list \<Rightarrow> u64 list" where
  "put_frame ws = of_nat (length ws) # ws"

definition put_rows :: "('a \<Rightarrow> u64 list) \<Rightarrow> 'a list \<Rightarrow> u64 list" where
  "put_rows put items = put_usize (length items) @ concat (map (\<lambda>x. put_frame (put x)) items)"

text \<open>\<open>usize::get\<close> and \<open>take\<close>: the words of the next row.\<close>

definition take_frame :: "abi_table \<Rightarrow> u64 list \<Rightarrow> u64 list reading" where
  "take_frame t ws = then_do (get_usize t ws) (\<lambda>len ws. reader_take len ws)"

section \<open>The caches\<close>

text \<open>The words of two rows are compared by folding their differences together.\<close>

definition same_words :: "u64 list \<Rightarrow> u64 list \<Rightarrow> bool" where
  "same_words old new \<longleftrightarrow> length old = length new \<and>
     fold (\<lambda>(a, b) difference. difference OR (a XOR b)) (zip old new) 0 = 0"

definition cache_compare :: "row_cache \<Rightarrow> usize \<Rightarrow> u64 \<Rightarrow> u64 list \<Rightarrow> bool option" where
  "cache_compare cache index generation words =
     (case get cache index of
        Some (Some (g, accepted)) \<Rightarrow> if g \<noteq> generation then None else Some (same_words accepted words)
      | _ \<Rightarrow> None)"

definition cache_accept ::
    "bool \<times> bool \<Rightarrow> usize \<Rightarrow> u64 \<Rightarrow> u64 list \<Rightarrow> row_cache \<Rightarrow> unit ir_result \<times> row_cache"
where
  "cache_accept mem index generation words cache =
     (if Suc index \<ge> usize_limit then (Inl Overflow, cache)
      else if length cache < Suc index \<and> \<not> fst mem then (Inl OutOfMemory, cache)
      else
        let cache = cache @ replicate (Suc index - length cache) None
        in if \<not> snd mem then (Inl OutOfMemory, cache)
           else (Inr (), cache[index := Some (generation, words)]))"

text \<open>
  \<open>ProgramRows::put\<close>: a row encoded for this generation and activity is copied. \<open>mem\<close> answers the
  growth of the cache and, by index, of the output.
\<close>

definition program_row :: "('d \<Rightarrow> u64 list) \<Rightarrow> 'd slot \<Rightarrow> (u64 \<times> bool \<times> u64 list) option \<Rightarrow> u64 \<times> bool \<times> u64 list" where
  "program_row put item cached =
     (case cached of
        Some (generation, active, words) \<Rightarrow>
          if generation \<noteq> slot_generation item \<or> active \<noteq> slot_active item
          then (slot_generation item, slot_active item, put_slot put item)
          else (generation, active, words)
      | None \<Rightarrow> (slot_generation item, slot_active item, put_slot put item))"

fun put_program_items ::
    "(nat \<Rightarrow> bool) \<Rightarrow> ('d \<Rightarrow> u64 list) \<Rightarrow> nat \<Rightarrow> 'd slot list \<Rightarrow> program_rows \<times> u64 list \<Rightarrow>
     unit ir_result \<times> program_rows \<times> u64 list"
where
  "put_program_items mem put index [] (rows, out) = (Inr (), rows, out)"
| "put_program_items mem put index (item # items) (rows, out) =
     (let row = program_row put item (rows ! index); rows = rows[index := Some row]
      in if \<not> mem index then (Inl OutOfMemory, rows, out)
         else put_program_items mem put (Suc index) items (rows, out @ put_frame (snd (snd row))))"

definition put_program_rows ::
    "bool \<Rightarrow> (nat \<Rightarrow> bool) \<Rightarrow> ('d \<Rightarrow> u64 list) \<Rightarrow> 'd slot list \<Rightarrow> program_rows \<times> u64 list \<Rightarrow>
     unit ir_result \<times> program_rows \<times> u64 list"
where
  "put_program_rows grow mem put items s = (case s of (rows, out) \<Rightarrow>
     if length rows < length items \<and> \<not> grow then (Inl OutOfMemory, rows, out)
     else put_program_items mem put 0 items
            (rows @ replicate (length items - length rows) None, out @ put_usize (length items)))"

section \<open>The snapshot\<close>

text \<open>What a producer's allocator answers: the output, then each category of programs.\<close>

record snapshot_memory =
  sn_out :: bool
  sn_grow :: "nat \<Rightarrow> bool"
  sn_row :: "nat \<Rightarrow> nat \<Rightarrow> bool"

definition abi_snapshot :: "snapshot_memory \<Rightarrow> abi_state \<Rightarrow> u64 list ir_result \<times> abi_state" where
  "abi_snapshot mem s =
     (if fst (ab_snapshot s) = ab_revision s then (Inr (snd (ab_snapshot s)), s)
      else
        let t = ab_table s; old = fst (ab_snapshot s); programs = ab_programs s
        in if \<not> sn_out mem then (Inl OutOfMemory, s\<lparr>ab_snapshot := (old, [])\<rparr>)
        else
          let out = [MAGIC, abi_identity s, ab_revision s] @
                put_rows (put_slot put_texture_desc) (sl_slots (rt_textures t)) @
                put_rows (put_slot put_buffer_desc) (sl_slots (rt_buffers t)) @
                put_rows put_sampler_desc (rt_samplers t) @
                put_rows put_render_pipeline (rt_pipelines t)
          in case put_program_rows (sn_grow mem 0) (sn_row mem 0) put_shader_module (sl_slots (rt_shaders t))
                    (en_shaders programs, out) of
            (Inl e, rows, out) \<Rightarrow>
              (Inl e, s\<lparr>ab_snapshot := (old, out), ab_programs := programs\<lparr>en_shaders := rows\<rparr>\<rparr>)
          | (Inr _, rows, out) \<Rightarrow>
              let programs = programs\<lparr>en_shaders := rows\<rparr>;
                  out = out @ put_rows (put_slot put_bind_group) (sl_slots (rt_bind_groups t))
              in case put_program_rows (sn_grow mem 1) (sn_row mem 1) put_compute_pipeline (sl_slots (rt_compute t))
                        (en_compute programs, out) of
                (Inl e, rows, out) \<Rightarrow>
                  (Inl e, s\<lparr>ab_snapshot := (old, out), ab_programs := programs\<lparr>en_compute := rows\<rparr>\<rparr>)
              | (Inr _, rows, out) \<Rightarrow>
                  let programs = programs\<lparr>en_compute := rows\<rparr>
                  in case put_program_rows (sn_grow mem 2) (sn_row mem 2) put_programmable_pipeline
                            (sl_slots (rt_programmable t)) (en_render programs, out) of
                    (Inl e, rows, out) \<Rightarrow>
                      (Inl e, s\<lparr>ab_snapshot := (old, out), ab_programs := programs\<lparr>en_render := rows\<rparr>\<rparr>)
                  | (Inr _, rows, out) \<Rightarrow>
                      (Inr out, s\<lparr>ab_snapshot := (ab_revision s, out), ab_programs := programs\<lparr>en_render := rows\<rparr>\<rparr>))"

section \<open>Applying a snapshot\<close>

text \<open>
  One row of a category with generations. An older generation is refused; the same generation must
  bring the same words unless the slot is vacant; a newer one replaces the slot.
\<close>

definition store_row ::
    "allocator \<Rightarrow> (abi_table \<Rightarrow> u64 list \<Rightarrow> 'd reading) \<Rightarrow> abi_table \<Rightarrow> usize \<Rightarrow> u64 \<Rightarrow> u64 list \<Rightarrow> u64 list \<Rightarrow>
     'd slot list \<times> row_cache \<Rightarrow> unit ir_result \<times> 'd slot list \<times> row_cache"
where
  "store_row m getv t index generation words left s = (case s of (current, cache) \<Rightarrow>
     (case get_slot getv t words of
        (Inl e, rest) \<Rightarrow> (Inl e, current, cache)
      | (Inr slot, rest) \<Rightarrow>
          (case reader_end rest of
             Inl e \<Rightarrow> (Inl e, current, cache)
           | Inr _ \<Rightarrow>
               if index < length current then
                 (case cache_accept (al_cache m left) index generation words cache of
                    (r, cache) \<Rightarrow> (r, current[index := slot], cache))
               else if \<not> al_slot m left then (Inl OutOfMemory, current, cache)
               else
                 (case cache_accept (al_cache m left) index generation words cache of
                    (r, cache) \<Rightarrow> (r, current @ [slot], cache)))))"

definition sync_row ::
    "allocator \<Rightarrow> ('d \<Rightarrow> u64 list) \<Rightarrow> (abi_table \<Rightarrow> u64 list \<Rightarrow> 'd reading) \<Rightarrow> abi_table \<Rightarrow> usize \<Rightarrow> u64 list \<Rightarrow>
     u64 list \<Rightarrow> 'd slot list \<times> row_cache \<Rightarrow> unit ir_result \<times> 'd slot list \<times> row_cache"
where
  "sync_row m put getv t index words left s = (case s of (current, cache) \<Rightarrow>
     (case words of
        [] \<Rightarrow> (Inl InvalidDescriptor, current, cache)
      | generation # _ \<Rightarrow>
          (case get current index of
             None \<Rightarrow> store_row m getv t index generation words left (current, cache)
           | Some old \<Rightarrow>
               if generation < slot_generation old then (Inl InvalidDescriptor, current, cache)
               else if generation \<noteq> slot_generation old
               then store_row m getv t index generation words left (current, cache)
               else
                 (case cache_compare cache index generation words of
                    Some True \<Rightarrow> (Inr (), current, cache)
                  | Some False \<Rightarrow>
                      if slot_active old then (Inl InvalidDescriptor, current, cache)
                      else store_row m getv t index generation words left (current, cache)
                  | None \<Rightarrow>
                      if slot_active old then
                        (if put_slot put old \<noteq> words then (Inl InvalidDescriptor, current, cache)
                         else (case cache_accept (al_cache m left) index generation words cache of
                                 (r, cache) \<Rightarrow> (r, current, cache)))
                      else store_row m getv t index generation words left (current, cache)))))"

fun sync_rows ::
    "allocator \<Rightarrow> ('d \<Rightarrow> u64 list) \<Rightarrow> (abi_table \<Rightarrow> u64 list \<Rightarrow> 'd reading) \<Rightarrow> abi_table \<Rightarrow> nat \<Rightarrow> usize \<Rightarrow>
     u64 list \<Rightarrow> 'd slot list \<times> row_cache \<Rightarrow> unit ir_result \<times> u64 list \<times> 'd slot list \<times> row_cache"
where
  "sync_rows m put getv t 0 index ws s = (Inr (), ws, s)"
| "sync_rows m put getv t (Suc n) index ws s =
     (case take_frame t ws of
        (Inl e, ws) \<Rightarrow> (Inl e, ws, s)
      | (Inr words, ws) \<Rightarrow>
          (case sync_row m put getv t index words ws s of
             (Inl e, s) \<Rightarrow> (Inl e, ws, s)
           | (Inr _, s) \<Rightarrow> sync_rows m put getv t n (Suc index) ws s))"

definition sync_slots ::
    "allocator \<Rightarrow> ('d \<Rightarrow> u64 list) \<Rightarrow> (abi_table \<Rightarrow> u64 list \<Rightarrow> 'd reading) \<Rightarrow> abi_table \<Rightarrow> nat \<Rightarrow> u64 list \<Rightarrow>
     'd slot list \<times> row_cache \<Rightarrow> unit ir_result \<times> u64 list \<times> 'd slot list \<times> row_cache"
where
  "sync_slots m put getv t maximum ws s =
     (case get_usize t ws of
        (Inl e, ws) \<Rightarrow> (Inl e, ws, s)
      | (Inr n, ws) \<Rightarrow>
          if n < length (fst s) \<or> n > maximum then (Inl ResourceLimitExceeded, ws, s)
          else sync_rows m put getv t n 0 ws s)"

text \<open>The older format: at most 256 immutable program rows without generations.\<close>

fun sync_legacy_rows ::
    "allocator \<Rightarrow> (abi_table \<Rightarrow> u64 list \<Rightarrow> 'd reading) \<Rightarrow> abi_table \<Rightarrow> nat \<Rightarrow> usize \<Rightarrow> u64 list \<Rightarrow>
     'd slot list \<Rightarrow> unit ir_result \<times> u64 list \<times> 'd slot list"
where
  "sync_legacy_rows m getv t 0 index ws current = (Inr (), ws, current)"
| "sync_legacy_rows m getv t (Suc n) index ws current =
     (case take_frame t ws of
        (Inl e, ws) \<Rightarrow> (Inl e, ws, current)
      | (Inr words, ws) \<Rightarrow>
          (case getv t words of
             (Inl e, rest) \<Rightarrow> (Inl e, ws, current)
           | (Inr d, rest) \<Rightarrow>
               (case reader_end rest of
                  Inl e \<Rightarrow> (Inl e, ws, current)
                | Inr _ \<Rightarrow>
                    (case get current index of
                       Some old \<Rightarrow>
                         if slot_generation old \<noteq> 0 \<or> slot_desc old \<noteq> Some d
                         then (Inl InvalidDescriptor, ws, current)
                         else sync_legacy_rows m getv t n (Suc index) ws current
                     | None \<Rightarrow>
                         if \<not> al_slot m ws then (Inl OutOfMemory, ws, current)
                         else sync_legacy_rows m getv t n (Suc index) ws
                           (current @ [\<lparr>slot_desc = Some d, slot_generation = 0, slot_next = None\<rparr>])))))"

definition sync_program_slots ::
    "allocator \<Rightarrow> ('d \<Rightarrow> u64 list) \<Rightarrow> (abi_table \<Rightarrow> u64 list \<Rightarrow> 'd reading) \<Rightarrow> abi_table \<Rightarrow> nat \<Rightarrow> u64 list \<Rightarrow>
     'd slot list \<times> row_cache \<Rightarrow> unit ir_result \<times> u64 list \<times> 'd slot list \<times> row_cache"
where
  "sync_program_slots m put getv t maximum ws s =
     (if \<not> at_legacy t then sync_slots m put getv t maximum ws s
      else
        (case get_usize t ws of
           (Inl e, ws) \<Rightarrow> (Inl e, ws, s)
         | (Inr n, ws) \<Rightarrow>
             if n < length (fst s) \<or> n > min maximum 256 then (Inl ResourceLimitExceeded, ws, s)
             else (case sync_legacy_rows m getv t n 0 ws (fst s) of (r, ws, current) \<Rightarrow> (r, ws, current, snd s))))"

text \<open>
  \<open>append_abi_rows\<close>: the categories that only grow. Rows the mirror has are skipped unread; the
  others go through the table's own definition, which counts a revision of the mirror.
\<close>

fun append_rows ::
    "allocator \<Rightarrow> (abi_table \<Rightarrow> u64 list \<Rightarrow> 'd reading) \<Rightarrow> abi_table \<Rightarrow> nat \<Rightarrow> nat \<Rightarrow> nat \<Rightarrow> usize \<Rightarrow> u64 list \<Rightarrow>
     'd list \<times> u64 \<Rightarrow> unit ir_result \<times> u64 list \<times> 'd list \<times> u64"
where
  "append_rows m getv t maximum existing 0 index ws s = (Inr (), ws, s)"
| "append_rows m getv t maximum existing (Suc n) index ws s =
     (case take_frame t ws of
        (Inl e, ws) \<Rightarrow> (Inl e, ws, s)
      | (Inr words, ws) \<Rightarrow>
          if index < existing then append_rows m getv t maximum existing n (Suc index) ws s
          else
            (case getv t words of
               (Inl e, rest) \<Rightarrow> (Inl e, ws, s)
             | (Inr d, rest) \<Rightarrow>
                 (case reader_end rest of
                    Inl e \<Rightarrow> (Inl e, ws, s)
                  | Inr _ \<Rightarrow>
                      (case s of (items, revision) \<Rightarrow>
                        (case plain_push (rt_id (at_table t)) maximum (al_slot m ws) d items of
                           (Inl e, items) \<Rightarrow> (Inl e, ws, items, revision)
                         | (Inr _, items) \<Rightarrow>
                             append_rows m getv t maximum existing n (Suc index) ws (items, abi_changed revision))))))"

definition append_abi_rows ::
    "allocator \<Rightarrow> (abi_table \<Rightarrow> u64 list \<Rightarrow> 'd reading) \<Rightarrow> abi_table \<Rightarrow> nat \<Rightarrow> u64 list \<Rightarrow>
     'd list \<times> u64 \<Rightarrow> unit ir_result \<times> u64 list \<times> 'd list \<times> u64"
where
  "append_abi_rows m getv t maximum ws s =
     (case get_usize t ws of
        (Inl e, ws) \<Rightarrow> (Inl e, ws, s)
      | (Inr n, ws) \<Rightarrow>
          if n < length (fst s) \<or> n > maximum then (Inl ResourceLimitExceeded, ws, s)
          else append_rows m getv t maximum (length (fst s)) n 0 ws s)"

text \<open>The vacant program slots, lowest index first.\<close>

fun relink :: "usize \<Rightarrow> 'd slot list \<Rightarrow> 'd slot list \<times> usize option" where
  "relink index [] = ([], None)"
| "relink index (s # ss) =
     (case relink (Suc index) ss of (ss, head) \<Rightarrow>
        if slot_desc s = None then (s\<lparr>slot_next := head\<rparr> # ss, Some index)
        else (s\<lparr>slot_next := None\<rparr> # ss, head))"

definition rebuild_program_free_list :: "'d slots \<Rightarrow> 'd slots" where
  "rebuild_program_free_list c =
     (case relink 0 (sl_slots c) of (slots, head) \<Rightarrow> \<lparr>sl_slots = slots, sl_free = head\<rparr>)"

text \<open>
  The categories in their order on the wire. A category is filled in place, whatever the outcome,
  and the following ones are read in the table so far.
\<close>

type_synonym abi_step = "u64 list \<times> abi_state \<Rightarrow> unit ir_result \<times> u64 list \<times> abi_state"

definition sync_textures :: "allocator \<Rightarrow> abi_step" where
  "sync_textures m = (\<lambda>(ws, s).
     case sync_slots m put_texture_desc get_texture_desc (ab_view s) MAX_TEXTURES ws
            (sl_slots (rt_textures (ab_table s)), ar_textures (ab_accepted s)) of
       (r, ws, slots, cache) \<Rightarrow>
         (r, ws, with_table (\<lambda>t. t\<lparr>rt_textures := (rt_textures t)\<lparr>sl_slots := slots\<rparr>\<rparr>)
           (s\<lparr>ab_accepted := (ab_accepted s)\<lparr>ar_textures := cache\<rparr>\<rparr>)))"

definition sync_buffers :: "allocator \<Rightarrow> abi_step" where
  "sync_buffers m = (\<lambda>(ws, s).
     case sync_slots m put_buffer_desc get_buffer_desc (ab_view s) MAX_BUFFERS ws
            (sl_slots (rt_buffers (ab_table s)), ar_buffers (ab_accepted s)) of
       (r, ws, slots, cache) \<Rightarrow>
         (r, ws, with_table (\<lambda>t. t\<lparr>rt_buffers := (rt_buffers t)\<lparr>sl_slots := slots\<rparr>\<rparr>)
           (s\<lparr>ab_accepted := (ab_accepted s)\<lparr>ar_buffers := cache\<rparr>\<rparr>)))"

definition append_samplers :: "allocator \<Rightarrow> abi_step" where
  "append_samplers m = (\<lambda>(ws, s).
     case append_abi_rows m get_sampler_desc (ab_view s) MAX_SAMPLERS ws (rt_samplers (ab_table s), ab_revision s) of
       (r, ws, items, revision) \<Rightarrow>
         (r, ws, with_table (\<lambda>t. t\<lparr>rt_samplers := items\<rparr>) (s\<lparr>ab_revision := revision\<rparr>)))"

definition append_pipelines :: "allocator \<Rightarrow> abi_step" where
  "append_pipelines m = (\<lambda>(ws, s).
     case append_abi_rows m (get_render_pipeline m) (ab_view s) MAX_RENDER_PIPELINES ws
            (rt_pipelines (ab_table s), ab_revision s) of
       (r, ws, items, revision) \<Rightarrow>
         (r, ws, with_table (\<lambda>t. t\<lparr>rt_pipelines := items\<rparr>) (s\<lparr>ab_revision := revision\<rparr>)))"

definition sync_shaders :: "allocator \<Rightarrow> abi_step" where
  "sync_shaders m = (\<lambda>(ws, s).
     case sync_program_slots m put_shader_module (get_shader_module m) (ab_view s) MAX_SHADER_MODULES ws
            (sl_slots (rt_shaders (ab_table s)), ar_shaders (ab_accepted s)) of
       (r, ws, slots, cache) \<Rightarrow>
         (r, ws, with_table (\<lambda>t. t\<lparr>rt_shaders := (rt_shaders t)\<lparr>sl_slots := slots\<rparr>\<rparr>)
           (s\<lparr>ab_accepted := (ab_accepted s)\<lparr>ar_shaders := cache\<rparr>\<rparr>)))"

definition sync_bind_groups :: "allocator \<Rightarrow> abi_step" where
  "sync_bind_groups m = (\<lambda>(ws, s).
     case sync_slots m put_bind_group (get_bind_group m) (ab_view s) MAX_BIND_GROUP_DEFINITIONS ws
            (sl_slots (rt_bind_groups (ab_table s)), ar_bind_groups (ab_accepted s)) of
       (r, ws, slots, cache) \<Rightarrow>
         (r, ws, with_table (\<lambda>t. t\<lparr>rt_bind_groups := (rt_bind_groups t)\<lparr>sl_slots := slots\<rparr>\<rparr>)
           (s\<lparr>ab_accepted := (ab_accepted s)\<lparr>ar_bind_groups := cache\<rparr>\<rparr>)))"

definition sync_compute :: "allocator \<Rightarrow> abi_step" where
  "sync_compute m = (\<lambda>(ws, s).
     case sync_program_slots m put_compute_pipeline (get_compute_pipeline m) (ab_view s) MAX_COMPUTE_PIPELINES ws
            (sl_slots (rt_compute (ab_table s)), ar_compute (ab_accepted s)) of
       (r, ws, slots, cache) \<Rightarrow>
         (r, ws, with_table (\<lambda>t. t\<lparr>rt_compute := (rt_compute t)\<lparr>sl_slots := slots\<rparr>\<rparr>)
           (s\<lparr>ab_accepted := (ab_accepted s)\<lparr>ar_compute := cache\<rparr>\<rparr>)))"

definition sync_programmable :: "allocator \<Rightarrow> abi_step" where
  "sync_programmable m = (\<lambda>(ws, s).
     case sync_program_slots m put_programmable_pipeline (get_programmable_pipeline m) (ab_view s)
            MAX_PROGRAMMABLE_RENDER_PIPELINES ws
            (sl_slots (rt_programmable (ab_table s)), ar_programmable (ab_accepted s)) of
       (r, ws, slots, cache) \<Rightarrow>
         (r, ws, with_table (\<lambda>t. t\<lparr>rt_programmable := (rt_programmable t)\<lparr>sl_slots := slots\<rparr>\<rparr>)
           (s\<lparr>ab_accepted := (ab_accepted s)\<lparr>ar_programmable := cache\<rparr>\<rparr>)))"

fun run_steps :: "abi_step list \<Rightarrow> abi_step" where
  "run_steps [] s = (Inr (), s)"
| "run_steps (f # fs) s = (case f s of (Inl e, s) \<Rightarrow> (Inl e, s) | (Inr _, s) \<Rightarrow> run_steps fs s)"

text \<open>The modules of the live pipelines must be live: the first that is not decides the error.\<close>

definition first_module_error :: "resource_table \<Rightarrow> unit ir_result" where
  "first_module_error t =
     (let modules = concat (map (\<lambda>s. case slot_desc s of None \<Rightarrow> [] | Some p \<Rightarrow> [se_module (cp_shader p)])
                      (sl_slots (rt_compute t))) @
            concat (map (\<lambda>s. case slot_desc s of None \<Rightarrow> [] | Some p \<Rightarrow> [se_module (pp_vertex p), se_module (pp_fragment p)])
                      (sl_slots (rt_programmable t)))
      in foldr (\<lambda>i r. and_then (shader_module_ref t i) (\<lambda>_. r)) modules (Inr ()))"

definition sync_abi_snapshot :: "allocator \<Rightarrow> u64 list \<Rightarrow> abi_state \<Rightarrow> (u64 \<times> u64) ir_result \<times> abi_state" where
  "sync_abi_snapshot m ws s =
     (case reader_word ws of
        (Inl e, ws) \<Rightarrow> (Inl e, s)
      | (Inr magic, ws) \<Rightarrow>
          if magic \<noteq> MAGIC \<and> magic \<noteq> LEGACY_MAGIC then (Inl InvalidDescriptor, s)
          else
            let s = s\<lparr>ab_view := (ab_view s)\<lparr>at_legacy := (magic = LEGACY_MAGIC)\<rparr>\<rparr>
            in case reader_word ws of
              (Inl e, ws) \<Rightarrow> (Inl e, s)
            | (Inr source, ws) \<Rightarrow>
                (case reader_word ws of
                   (Inl e, ws) \<Rightarrow> (Inl e, s)
                 | (Inr revision, ws) \<Rightarrow>
                     if source = 0 \<or> revision = 0 then (Inl InvalidDescriptor, s)
                     else
                       (case run_steps [sync_textures m, sync_buffers m, append_samplers m, append_pipelines m,
                               sync_shaders m, sync_bind_groups m, sync_compute m, sync_programmable m] (ws, s) of
                          (Inl e, ws, s) \<Rightarrow> (Inl e, s)
                        | (Inr _, ws, s) \<Rightarrow>
                            (case and_then (reader_end ws) (\<lambda>_. first_module_error (ab_table s)) of
                               Inl e \<Rightarrow> (Inl e, s)
                             | Inr _ \<Rightarrow>
                                 (Inr (source, revision),
                                  with_table (\<lambda>t. t\<lparr>rt_shaders := rebuild_program_free_list (rt_shaders t),
                                    rt_compute := rebuild_program_free_list (rt_compute t),
                                    rt_programmable := rebuild_program_free_list (rt_programmable t)\<rparr>) s)))))"

section \<open>Identities a snapshot retires\<close>

fun scan_rows :: "abi_table \<Rightarrow> 'd slot list \<Rightarrow> nat \<Rightarrow> usize \<Rightarrow> u64 list \<Rightarrow> (usize \<times> u64) list reading" where
  "scan_rows t current 0 index ws = (Inr [], ws)"
| "scan_rows t current (Suc n) index ws =
     then_do (take_frame t ws) (\<lambda>words ws.
     then_do (fst (get_u64 t words), ws) (\<lambda>generation ws.
       (case get current index of
          None \<Rightarrow> scan_rows t current n (Suc index) ws
        | Some old \<Rightarrow>
            if generation < slot_generation old then (Inl InvalidDescriptor, ws)
            else reads (scan_rows t current n (Suc index) ws) (\<lambda>retired.
              Inr ((if slot_active old \<and> generation \<noteq> slot_generation old
                    then [(index, slot_generation old)] else []) @ retired)))))"

definition scan_retired :: "abi_table \<Rightarrow> 'd slot list \<Rightarrow> nat \<Rightarrow> u64 list \<Rightarrow> res_id list reading" where
  "scan_retired t current maximum ws = then_do (get_usize t ws) (\<lambda>n ws.
     if n < length current \<or> n > maximum then (Inl ResourceLimitExceeded, ws)
     else reads (scan_rows t current n 0 ws) (\<lambda>retired.
       Inr (map (\<lambda>(index, generation).
         \<lparr>id_owner = rt_id (at_table t), id_index = index, id_generation = generation\<rparr>) retired)))"

fun skip_frames :: "abi_table \<Rightarrow> nat \<Rightarrow> u64 list \<Rightarrow> unit reading" where
  "skip_frames t 0 ws = (Inr (), ws)"
| "skip_frames t (Suc n) ws = then_do (take_frame t ws) (\<lambda>words ws. skip_frames t n ws)"

definition skip_rows :: "abi_table \<Rightarrow> nat \<Rightarrow> u64 list \<Rightarrow> unit reading" where
  "skip_rows t maximum ws = then_do (get_usize t ws) (\<lambda>n ws.
     if n > maximum then (Inl ResourceLimitExceeded, ws) else skip_frames t n ws)"

definition abi_retired_resources :: "abi_table \<Rightarrow> u64 list \<Rightarrow> (res_id list \<times> res_id list) ir_result" where
  "abi_retired_resources t ws = fst (
     then_do (reader_word ws) (\<lambda>magic ws.
     if magic \<noteq> MAGIC \<and> magic \<noteq> LEGACY_MAGIC then (Inl InvalidDescriptor, ws)
     else then_do (reader_take 2 ws) (\<lambda>_ ws.
     then_do (scan_retired t (sl_slots (rt_textures (at_table t))) MAX_TEXTURES ws) (\<lambda>textures ws.
     reads (scan_retired t (sl_slots (rt_buffers (at_table t))) MAX_BUFFERS ws) (\<lambda>buffers. Inr (textures, buffers))))))"

definition abi_retired_buffers :: "abi_table \<Rightarrow> u64 list \<Rightarrow> res_id list ir_result" where
  "abi_retired_buffers t ws = and_then (abi_retired_resources t ws) (\<lambda>(textures, buffers). Inr buffers)"

definition abi_retired_programs ::
    "abi_table \<Rightarrow> u64 list \<Rightarrow> (res_id list \<times> res_id list \<times> res_id list) ir_result"
where
  "abi_retired_programs t ws = fst (
     then_do (reader_word ws) (\<lambda>magic ws.
     if magic = LEGACY_MAGIC then (Inr ([], [], []), ws)
     else if magic \<noteq> MAGIC then (Inl InvalidDescriptor, ws)
     else then_do (reader_take 2 ws) (\<lambda>_ ws.
     then_do (skip_rows t MAX_TEXTURES ws) (\<lambda>_ ws.
     then_do (skip_rows t MAX_BUFFERS ws) (\<lambda>_ ws.
     then_do (skip_rows t MAX_SAMPLERS ws) (\<lambda>_ ws.
     then_do (skip_rows t MAX_RENDER_PIPELINES ws) (\<lambda>_ ws.
     then_do (scan_retired t (sl_slots (rt_shaders (at_table t))) MAX_SHADER_MODULES ws) (\<lambda>shaders ws.
     then_do (skip_rows t MAX_BIND_GROUP_DEFINITIONS ws) (\<lambda>_ ws.
     then_do (scan_retired t (sl_slots (rt_compute (at_table t))) MAX_COMPUTE_PIPELINES ws) (\<lambda>compute ws.
     then_do (scan_retired t (sl_slots (rt_programmable (at_table t))) MAX_PROGRAMMABLE_RENDER_PIPELINES ws)
       (\<lambda>programmable ws.
     (and_then (reader_end ws) (\<lambda>_. Inr (shaders, compute, programmable)), ws))))))))))))"

end
