(* ===== verification/Abi_Tables_Laws.thy ===== *)
theory Abi_Tables_Laws
  imports Abi_Tables
begin

text \<open>
  Laws of the rows of a snapshot. A slot moves forward: its generation grows, and within a generation
  it is defined at most once. What a category's cache holds for a slot is the slot's encoding, so a
  row that moved forward is stored, and one that did not is recognised, whichever way the code takes.
\<close>

section \<open>Rows and frames\<close>

definition slot_view :: "'d slot \<Rightarrow> u64 \<times> 'd option" where
  "slot_view s = (slot_generation s, slot_desc s)"

lemma slot_view_eq: "slot_view a = slot_view b \<longleftrightarrow> slot_generation a = slot_generation b \<and> slot_desc a = slot_desc b"
  by (simp add: slot_view_def)

lemma put_slot_view: "slot_view a = slot_view b \<Longrightarrow> put_slot put a = put_slot put b"
  by (simp add: slot_view_eq put_slot_def)

lemma put_slot_generation: "\<exists>rest. put_slot put s = slot_generation s # rest"
  by (simp add: put_slot_def put_u64_def)

lemma put_slot_vacant: "slot_desc s = None \<Longrightarrow> put_slot put s = [slot_generation s, 0]"
  by (simp add: put_slot_def put_u64_def put_option_def put_bool_def)

lemma put_slot_active: "put_slot put a = put_slot put b \<Longrightarrow> slot_active a = slot_active b"
  by (auto simp: put_slot_def put_u64_def put_option_def put_bool_def slot_active_def split: if_splits)

lemma take_frame_put: "length words < usize_limit \<Longrightarrow> take_frame t (put_frame words @ ws) = (Inr words, ws)"
  using usize.round_trip [of "length words" t "words @ ws"]
  by (simp add: take_frame_def put_frame_def put_usize_def)

context row_codec
begin

lemma slot_row:
  assumes "pred_option (ok t) (slot_desc s)"
  shows "get_slot getv t (put_slot put s) = (Inr (s\<lparr>slot_next := None\<rparr>), [])"
proof -
  have "get_option getv t (put_option put (slot_desc s)) = (Inr (slot_desc s), [])"
    using assms by (cases "slot_desc s") (simp_all add: put_option_def get_option_def codec_simps row_round_trip)
  then show ?thesis by (cases s) (simp add: get_slot_def put_slot_def codec_simps)
qed

end

section \<open>The caches\<close>

lemma fold_differences: "fold (\<lambda>(a, b) d. d OR (a XOR b)) ps d = 0 \<longleftrightarrow> d = 0 \<and> (\<forall>(a, b) \<in> set ps. a = b)"
  for d :: u64
proof (induction ps arbitrary: d)
  case (Cons p ps)
  obtain a b where p: "p = (a, b)" by (cases p)
  have "d OR (a XOR b) = 0 \<longleftrightarrow> d = 0 \<and> a = b"
    by (auto simp: bit_eq_iff bit_simps)
  with Cons p show ?case by auto
qed simp

lemma same_words_iff: "same_words old new \<longleftrightarrow> old = new"
  by (simp add: same_words_def fold_differences list.rel_eq flip: list_all2_iff)

definition coherent :: "('d \<Rightarrow> u64 list) \<Rightarrow> row_cache \<Rightarrow> 'd slot list \<Rightarrow> bool" where
  "coherent put cache slots \<longleftrightarrow> (\<forall>i g words. i < length slots \<longrightarrow> get cache i = Some (Some (g, words)) \<longrightarrow>
     g = slot_generation (slots ! i) \<longrightarrow> words = put_slot put (slots ! i))"

lemma coherent_view:
  assumes "coherent put cache slots" and "map slot_view slots' = map slot_view slots"
  shows "coherent put cache slots'"
proof -
  have len: "length slots' = length slots" using assms(2) by (rule map_eq_imp_length_eq)
  show ?thesis
    unfolding coherent_def
  proof (intro allI impI)
    fix i g words
    assume i: "i < length slots'" "get cache i = Some (Some (g, words))" "g = slot_generation (slots' ! i)"
    have "slot_view (slots' ! i) = slot_view (slots ! i)"
      using assms(2) i(1) len by (metis nth_map)
    from this [unfolded slot_view_eq] put_slot_view [OF this, of put] assms(1) i len
    show "words = put_slot put (slots' ! i)" by (simp add: coherent_def)
  qed
qed

lemma cache_compare_Some:
  "cache_compare cache i g words = Some b \<longleftrightarrow>
     (\<exists>accepted. get cache i = Some (Some (g, accepted)) \<and> b = (accepted = words))"
  by (auto simp: cache_compare_def same_words_iff split: option.splits)

lemma cache_accept_ample:
  assumes "Suc i < usize_limit"
  obtains cache' where "cache_accept (True, True) i g words cache = (Inr (), cache')"
    and "get cache' i = Some (Some (g, words))"
    and "\<And>j g' words'. j \<noteq> i \<Longrightarrow> get cache' j = Some (Some (g', words')) \<Longrightarrow> get cache j = Some (Some (g', words'))"
proof
  let ?cache = "cache @ replicate (Suc i - length cache) None"
  show "cache_accept (True, True) i g words cache = (Inr (), ?cache[i := Some (g, words)])"
    using assms by (simp add: cache_accept_def Let_def)
  show "get (?cache[i := Some (g, words)]) i = Some (Some (g, words))" by (simp add: get_def)
  show "get cache j = Some (Some (g', words'))"
    if "j \<noteq> i" "get (?cache[i := Some (g, words)]) j = Some (Some (g', words'))" for j g' words'
    using that by (auto simp: get_def nth_append split: if_splits)
qed

section \<open>Moving forward\<close>

definition later_slot :: "'d slot \<Rightarrow> 'd slot \<Rightarrow> bool" where
  "later_slot old new \<longleftrightarrow> slot_generation old \<le> slot_generation new \<and>
     (slot_generation old = slot_generation new \<and> slot_active old \<longrightarrow> slot_desc new = slot_desc old)"

definition later_slots :: "'d slot list \<Rightarrow> 'd slot list \<Rightarrow> bool" where
  "later_slots old new \<longleftrightarrow> length old \<le> length new \<and> (\<forall>i < length old. later_slot (old ! i) (new ! i))"

lemma later_slot_refl [simp]: "later_slot s s"
  by (simp add: later_slot_def)

lemma later_slot_trans: "later_slot a b \<Longrightarrow> later_slot b c \<Longrightarrow> later_slot a c"
  by (auto simp: later_slot_def slot_active_def)

lemma later_slots_refl [simp]: "later_slots ss ss"
  by (simp add: later_slots_def)

lemma later_slots_trans: "later_slots a b \<Longrightarrow> later_slots b c \<Longrightarrow> later_slots a c"
  unfolding later_slots_def by (meson later_slot_trans le_trans less_le_trans)

lemma later_slots_view:
  assumes "map slot_view a = map slot_view a'" and "later_slots a b"
  shows "later_slots a' b"
proof -
  have l: "length a' = length a" using map_eq_imp_length_eq [OF assms(1)] by simp
  have "slot_view (a ! i) = slot_view (a' ! i)" if "i < length a" for i
    using assms(1) that l by (metis nth_map)
  with assms(2) l show ?thesis by (auto simp: later_slots_def later_slot_def slot_view_eq slot_active_def)
qed

text \<open>Every operation of a category moves its slots forward.\<close>

lemma nth_list_update_within: "j < length xs \<Longrightarrow> xs[i := x] ! j = (if j = i then x else xs ! j)"
  by simp

lemma slots_define_later:
  assumes "slots_ok maximum c"
  shows "later_slots (sl_slots c) (sl_slots (snd (slots_define maximum reserved d c)))"
proof (cases "sl_free c")
  case (Some i)
  then have "i < length (sl_slots c) \<and> slot_desc (sl_slots c ! i) = None" by (rule free_in_bounds [OF assms])
  with Some show ?thesis
    by (auto simp: slots_define_def Let_def later_slots_def later_slot_def slot_active_def nth_list_update)
qed (auto simp: slots_define_def later_slots_def nth_append)

lemma slots_release_later: "later_slots (sl_slots c) (sl_slots (snd (slots_release i c)))"
proof (cases "checked_add (slot_generation (sl_slots c ! i)) 1")
  case (Some g)
  then have "slot_generation (sl_slots c ! i) < g"
    by (auto simp: checked_add_Some word_less_nat_alt)
  with Some show ?thesis
    by (auto simp: slots_release_def Let_def later_slots_def later_slot_def slot_active_def nth_list_update_within)
qed (simp add: slots_release_def Let_def)

lemma store_later:
  "slots_ok maximum c \<Longrightarrow> later_slots (sl_slots c) (sl_slots (snd (store_define owner maximum m d c)))"
  "later_slots (sl_slots c) (sl_slots (snd (store_release owner i c)))"
  using slots_define_later [of maximum c m d] slots_release_later [of c "id_index i"]
  by (auto simp: store_define_def store_release_def then_do_def split: prod.splits sum.splits)

section \<open>Applying one category\<close>

context row_codec
begin

lemma store_row_ample:
  assumes coh: "coherent put cache current" and "pred_option (ok t) (slot_desc new)"
    and i: "i \<le> length current" and lim: "Suc i < usize_limit"
  obtains current' cache' where
    "store_row ample getv t i (slot_generation new) (put_slot put new) left (current, cache) = (Inr (), current', cache')"
    "coherent put cache' current'"
    "map slot_view current' = take i (map slot_view current) @ slot_view new # drop (Suc i) (map slot_view current)"
proof -
  let ?new = "new\<lparr>slot_next := None\<rparr>"
  obtain cache' where accept: "cache_accept (True, True) i (slot_generation new) (put_slot put new) cache = (Inr (), cache')"
    and here: "get cache' i = Some (Some (slot_generation new, put_slot put new))"
    and there: "\<And>j g' words'. j \<noteq> i \<Longrightarrow> get cache' j = Some (Some (g', words')) \<Longrightarrow> get cache j = Some (Some (g', words'))"
    by (rule cache_accept_ample [OF lim]) blast
  let ?current = "take i current @ ?new # drop (Suc i) current"
  have "store_row ample getv t i (slot_generation new) (put_slot put new) left (current, cache) = (Inr (), ?current, cache')"
    using i slot_row [OF assms(2)] accept
    by (auto simp: store_row_def upd_conv_take_nth_drop not_less)
  moreover have "coherent put cache' ?current"
    unfolding coherent_def
  proof (intro allI impI)
    fix j g words
    assume j: "j < length ?current" and c: "get cache' j = Some (Some (g, words))"
      and g: "g = slot_generation (?current ! j)"
    show "words = put_slot put (?current ! j)"
    proof (cases "j = i")
      case True
      have "put_slot put ?new = put_slot put new" by (rule put_slot_view) (simp add: slot_view_def)
      with True here c i show ?thesis by (simp add: nth_append)
    next
      case False
      moreover have "length ?current = max (Suc i) (length current)" using i by simp
      ultimately have "j < length current" using i j by linarith
      then have "?current ! j = current ! j" using i False by (auto simp: nth_append nth_Cons' min_def not_less)
      with there [OF False c] coh g \<open>j < length current\<close> show ?thesis by (simp add: coherent_def)
    qed
  qed
  moreover have "map slot_view ?current = take i (map slot_view current) @ slot_view new # drop (Suc i) (map slot_view current)"
    by (simp add: take_map drop_map slot_view_def)
  ultimately show thesis by (rule that)
qed

lemma sync_row_later:
  assumes coh: "coherent put cache current" and ok: "pred_option (ok t) (slot_desc new)"
    and i: "i \<le> length current" and lim: "Suc i < usize_limit"
    and later: "i < length current \<Longrightarrow> later_slot (current ! i) new"
  obtains current' cache' where
    "sync_row ample put getv t i (put_slot put new) left (current, cache) = (Inr (), current', cache')"
    "coherent put cache' current'"
    "map slot_view current' = take i (map slot_view current) @ slot_view new # drop (Suc i) (map slot_view current)"
proof -
  obtain rest where words: "put_slot put new = slot_generation new # rest" using put_slot_generation by blast
  note store = store_row_ample [OF coh ok i lim, of left]
  show thesis
  proof (cases "i < length current \<and> slot_generation (current ! i) = slot_generation new")
    case False
    then have "sync_row ample put getv t i (put_slot put new) left (current, cache) =
        store_row ample getv t i (slot_generation new) (put_slot put new) left (current, cache)"
      using later by (auto simp: sync_row_def words get_def later_slot_def)
    with store that show thesis by metis
  next
    case True
    let ?old = "current ! i"
    have here: "get current i = Some ?old" and gen: "slot_generation ?old = slot_generation new"
      using True by (simp_all add: get_def)
    have cached: "accepted = put_slot put ?old"
      if "get cache i = Some (Some (slot_generation new, accepted))" for accepted
      using coh that True by (simp add: coherent_def)
    have keep: "map slot_view current = take i (map slot_view current) @ slot_view new # drop (Suc i) (map slot_view current)"
      if "slot_view ?old = slot_view new"
      using True that by (subst id_take_nth_drop [of i]) simp_all
    have unchanged: "slot_view ?old = slot_view new" if "slot_active ?old"
      using later True that by (simp add: later_slot_def slot_view_eq)
    show thesis
    proof (cases "cache_compare cache i (slot_generation new) (put_slot put new)")
      case None
      show thesis
      proof (cases "slot_active ?old")
        case True
        then have same: "put_slot put ?old = put_slot put new" by (rule put_slot_view [OF unchanged])
        obtain cache' where accept: "cache_accept (True, True) i (slot_generation new) (put_slot put new) cache = (Inr (), cache')"
          and new: "get cache' i = Some (Some (slot_generation new, put_slot put new))"
          and there: "\<And>j g' words'. j \<noteq> i \<Longrightarrow> get cache' j = Some (Some (g', words')) \<Longrightarrow> get cache j = Some (Some (g', words'))"
          by (rule cache_accept_ample [OF lim]) blast
        have "coherent put cache' current"
          unfolding coherent_def
        proof (intro allI impI)
          fix j g ws
          assume "j < length current" "get cache' j = Some (Some (g, ws))" "g = slot_generation (current ! j)"
          then show "ws = put_slot put (current ! j)"
            using new there [of j] coh same by (cases "j = i") (auto simp: coherent_def)
        qed
        then show thesis
          using that [of current cache'] True None here gen same accept keep [OF unchanged]
          by (simp add: sync_row_def words)
      next
        case False
        then have "sync_row ample put getv t i (put_slot put new) left (current, cache) =
            store_row ample getv t i (slot_generation new) (put_slot put new) left (current, cache)"
          using None here gen by (simp add: sync_row_def words)
        with store that show thesis by metis
      qed
    next
      case (Some b)
      then have b: "b = (put_slot put ?old = put_slot put new)" using cached by (auto simp: cache_compare_Some)
      show thesis
      proof (cases b)
        case True
        have "slot_view ?old = slot_view new"
        proof (cases "slot_active ?old")
          case False
          with True b have "\<not> slot_active new" using put_slot_active by metis
          with False gen show ?thesis by (simp add: slot_view_eq slot_active_def)
        qed (rule unchanged)
        then show thesis
          using that [of current cache] Some True here gen coh keep by (simp add: sync_row_def words)
      next
        case False
        then have "\<not> slot_active ?old" using b unchanged put_slot_view by metis
        then have "sync_row ample put getv t i (put_slot put new) left (current, cache) =
            store_row ample getv t i (slot_generation new) (put_slot put new) left (current, cache)"
          using Some False here gen by (simp add: sync_row_def words)
        with store that show thesis by metis
      qed
    qed
  qed
qed

lemma sync_rows_later:
  assumes "coherent put cache current" and "list_all (\<lambda>s. pred_option (ok t) (slot_desc s)) rest"
    and "list_all (\<lambda>s. length (put_slot put s) < usize_limit) rest"
    and "i \<le> length current" and "length current \<le> i + length rest" and "i + length rest < usize_limit"
    and "\<forall>j. i + j < length current \<longrightarrow> later_slot (current ! (i + j)) (rest ! j)"
  shows "\<exists>current' cache'. sync_rows ample put getv t (length rest) i
      (concat (map (\<lambda>s. put_frame (put_slot put s)) rest) @ ws) (current, cache) = (Inr (), ws, current', cache') \<and>
    coherent put cache' current' \<and> map slot_view current' = take i (map slot_view current) @ map slot_view rest"
  using assms
proof (induction rest arbitrary: i current cache)
  case Nil
  then show ?case by simp
next
  case (Cons new rest)
  have new: "later_slot (current ! i) new" if "i < length current" using Cons.prems(7) that by (auto dest: spec [of _ 0])
  have "pred_option (ok t) (slot_desc new)" "Suc i < usize_limit" using Cons.prems by auto
  note step = sync_row_later [OF Cons.prems(1) this(1) Cons.prems(4) this(2) new]
  obtain current1 cache1 where row: "sync_row ample put getv t i (put_slot put new)
        (concat (map (\<lambda>s. put_frame (put_slot put s)) rest) @ ws) (current, cache) = (Inr (), current1, cache1)"
    and coh: "coherent put cache1 current1"
    and view: "map slot_view current1 = take i (map slot_view current) @ slot_view new # drop (Suc i) (map slot_view current)"
    by (rule step) blast+
  have len: "length current1 = max (Suc i) (length current)"
    using arg_cong [OF view, of length] Cons.prems(4) by simp
  have take: "take (Suc i) (map slot_view current1) = take i (map slot_view current) @ [slot_view new]"
    using view Cons.prems(4) by (simp add: min_def)
  have "later_slot (current1 ! (Suc i + j)) (rest ! j)" if j: "Suc i + j < length current1" for j
  proof -
    have "slot_view (current1 ! (Suc i + j)) = map slot_view current1 ! (Suc i + j)" using j by simp
    also have "\<dots> = slot_view (current ! (Suc i + j))"
      using j len Cons.prems(4) by (simp add: view nth_append min_def)
    finally have "slot_view (current ! (Suc i + j)) = slot_view (current1 ! (Suc i + j))" ..
    moreover have "later_slot (current ! (Suc i + j)) (rest ! j)"
      using Cons.prems(7) j len by (auto dest: spec [of _ "Suc j"])
    ultimately show ?thesis by (simp add: later_slot_def slot_view_eq slot_active_def)
  qed
  with Cons.IH [OF coh, of "Suc i"] Cons.prems len obtain current' cache' where
    "sync_rows ample put getv t (length rest) (Suc i) (concat (map (\<lambda>s. put_frame (put_slot put s)) rest) @ ws)
      (current1, cache1) = (Inr (), ws, current', cache')"
    "coherent put cache' current'" "map slot_view current' = take (Suc i) (map slot_view current1) @ map slot_view rest"
    by auto
  with row take Cons.prems(3) show ?case by (simp add: take_frame_put)
qed

lemma sync_slots_later:
  assumes "coherent put cache current" and "later_slots current target" and "length target \<le> maximum"
    and "maximum < usize_limit" and "list_all (\<lambda>s. pred_option (ok t) (slot_desc s)) target"
    and "list_all (\<lambda>s. length (put_slot put s) < usize_limit) target"
  obtains current' cache' where
    "sync_slots ample put getv t maximum (put_rows (put_slot put) target @ ws) (current, cache) = (Inr (), ws, current', cache')"
    "coherent put cache' current'" "map slot_view current' = map slot_view target"
proof -
  have "\<forall>j. 0 + j < length current \<longrightarrow> later_slot (current ! (0 + j)) (target ! j)"
    using assms(2) by (simp add: later_slots_def)
  with sync_rows_later [OF assms(1,5,6), of 0 ws] assms(2-4) obtain current' cache' where
    "sync_rows ample put getv t (length target) 0
      (concat (map (\<lambda>s. put_frame (put_slot put s)) target) @ ws) (current, cache) = (Inr (), ws, current', cache')"
    "coherent put cache' current'" "map slot_view current' = map slot_view target"
    by (auto simp: later_slots_def)
  with assms(2-4) show thesis
    by (intro that [of current' cache']) (simp_all add: sync_slots_def put_rows_def codec_simps later_slots_def)
qed

text \<open>A category that only grows: the rows the mirror has are a prefix of those of the source.\<close>

lemma append_rows_rest:
  assumes "list_all (ok t) rest" and "list_all (\<lambda>d. length (put d) < usize_limit) rest"
    and "existing \<le> i" and "length items = i" and "i + length rest \<le> maximum"
  shows "append_rows ample getv t maximum existing (length rest) i
      (concat (map (\<lambda>d. put_frame (put d)) rest) @ ws) (items, revision) =
    (Inr (), ws, items @ rest, revision + of_nat (length rest))"
  using assms
proof (induction rest arbitrary: i items revision)
  case (Cons d rest)
  then have "append_rows ample getv t maximum existing (length rest) (Suc i)
      (concat (map (\<lambda>d. put_frame (put d)) rest) @ ws) (items @ [d], revision + 1) =
    (Inr (), ws, (items @ [d]) @ rest, revision + 1 + of_nat (length rest))"
    by (intro Cons.IH) simp_all
  with Cons.prems show ?case
    by (simp add: take_frame_put row_round_trip plain_push_def abi_changed_def algebra_simps)
qed simp

lemma append_rows_skip:
  assumes "list_all (\<lambda>d. length (put d) < usize_limit) old" and "i + length old \<le> existing"
  shows "append_rows ample getv t maximum existing (length old + n) i
      (concat (map (\<lambda>d. put_frame (put d)) old) @ ws) s = append_rows ample getv t maximum existing n (i + length old) ws s"
  using assms by (induction old arbitrary: i) (simp_all add: take_frame_put)

lemma append_abi_rows_later:
  assumes "list_all (ok t) target" and "list_all (\<lambda>d. length (put d) < usize_limit) target"
    and "length target \<le> maximum" and "maximum < usize_limit" and "target = items @ rest"
  shows "append_abi_rows ample getv t maximum (put_rows put target @ ws) (items, revision) =
    (Inr (), ws, target, revision + of_nat (length rest))"
proof -
  have "append_rows ample getv t maximum (length items) (length items + length rest) 0
      (concat (map (\<lambda>d. put_frame (put d)) items) @ concat (map (\<lambda>d. put_frame (put d)) rest) @ ws) (items, revision) =
    (Inr (), ws, items @ rest, revision + of_nat (length rest))"
    using assms append_rows_rest [of t rest "length items" "length items" items maximum ws revision]
    by (subst append_rows_skip) simp_all
  then show ?thesis using assms(3-5) by (simp add: append_abi_rows_def put_rows_def codec_simps)
qed

end

lemma relink_view: "map slot_view (fst (relink i ss)) = map slot_view ss"
  by (induction ss arbitrary: i) (simp_all add: slot_view_def split: prod.splits, (metis fst_conv)+)

lemma rebuilt_view [simp]: "map slot_view (sl_slots (rebuild_program_free_list c)) = map slot_view (sl_slots c)"
  using relink_view [of 0 "sl_slots c"] by (cases "relink 0 (sl_slots c)") (simp add: rebuild_program_free_list_def)

section \<open>Encoding one category of programs\<close>

text \<open>
  What the producer keeps for a slot is the encoding of a state the slot was in: this one, or one
  it has left for good.
\<close>

definition row_past :: "('d \<Rightarrow> u64 list) \<Rightarrow> (u64 \<times> bool \<times> u64 list) option \<Rightarrow> 'd slot \<Rightarrow> bool" where
  "row_past put row s = (case row of None \<Rightarrow> True | Some (g, active, words) \<Rightarrow>
     g \<le> slot_generation s \<and> (g = slot_generation s \<and> active \<longrightarrow> slot_active s \<and> words = put_slot put s) \<and>
     (\<not> active \<longrightarrow> words = [g, 0]))"

definition rows_past :: "('d \<Rightarrow> u64 list) \<Rightarrow> program_rows \<Rightarrow> 'd slot list \<Rightarrow> bool" where
  "rows_past put rows items \<longleftrightarrow>
     (\<forall>i. i < length rows \<longrightarrow> rows ! i = None \<or> i < length items \<and> row_past put (rows ! i) (items ! i))"

lemma row_past_later: "row_past put row s \<Longrightarrow> later_slot s s' \<Longrightarrow> row_past put row s'"
  by (auto simp: row_past_def later_slot_def slot_active_def put_slot_def split: option.splits)

lemma rows_past_later: "rows_past put rows ss \<Longrightarrow> later_slots ss ss' \<Longrightarrow> rows_past put rows ss'"
  unfolding rows_past_def later_slots_def by (meson less_le_trans row_past_later)

lemma program_row_current:
  assumes "row_past put cached s"
  shows "program_row put s cached = (slot_generation s, slot_active s, put_slot put s)"
proof (cases cached)
  case (Some row)
  obtain g active words where row: "row = (g, active, words)" by (cases row)
  show ?thesis
  proof (cases "slot_active s")
    case False
    then have "put_slot put s = [slot_generation s, 0]" by (simp add: put_slot_vacant slot_active_def)
    with assms Some row False show ?thesis by (auto simp: row_past_def program_row_def)
  qed (use assms Some row in \<open>auto simp: row_past_def program_row_def\<close>)
qed (simp add: program_row_def)

lemma row_past_current: "row_past put (Some (slot_generation s, slot_active s, put_slot put s)) s"
  by (simp add: row_past_def put_slot_vacant slot_active_def)

section \<open>Scanning and skipping rows\<close>

lemma skip_rows_put:
  assumes "list_all (\<lambda>x. length (put x) < usize_limit) items" and "length items \<le> maximum" and "maximum < usize_limit"
  shows "skip_rows t maximum (put_rows put items @ ws) = (Inr (), ws)"
proof -
  have "skip_frames t (length items) (concat (map (\<lambda>x. put_frame (put x)) items) @ ws) = (Inr (), ws)"
    using assms(1) by (induction items) (simp_all add: take_frame_put)
  with assms(2,3) show ?thesis by (simp add: skip_rows_def put_rows_def codec_simps)
qed

lemma scan_rows_later:
  assumes "list_all (\<lambda>s. length (put_slot put s) < usize_limit) rest" and "length current \<le> i + length rest"
    and "\<forall>j. i + j < length current \<longrightarrow> later_slot (current ! (i + j)) (rest ! j)"
  shows "\<exists>rs. scan_rows t current (length rest) i (concat (map (\<lambda>s. put_frame (put_slot put s)) rest) @ ws) = (Inr rs, ws) \<and>
    set rs = {(k, slot_generation (current ! k)) | k. i \<le> k \<and> k < length current \<and> slot_active (current ! k) \<and>
      slot_generation (current ! k) \<noteq> slot_generation (rest ! (k - i))}"
  using assms
proof (induction rest arbitrary: i)
  case (Cons new rest)
  have tail: "(new # rest) ! (k - i) = rest ! (k - Suc i)" if "Suc i \<le> k" for k
    using that by (cases "k - i") (auto simp: diff_Suc split: nat.splits)
  have "\<forall>j. Suc i + j < length current \<longrightarrow> later_slot (current ! (Suc i + j)) (rest ! j)"
    using Cons.prems(3) by (auto dest: spec [of _ "Suc j" for j])
  with Cons.IH [of "Suc i"] Cons.prems(1,2) obtain rs where
    rs: "scan_rows t current (length rest) (Suc i) (concat (map (\<lambda>s. put_frame (put_slot put s)) rest) @ ws) = (Inr rs, ws)"
    and set: "set rs = {(k, slot_generation (current ! k)) | k. Suc i \<le> k \<and> k < length current \<and> slot_active (current ! k) \<and>
      slot_generation (current ! k) \<noteq> slot_generation (rest ! (k - Suc i))}"
    by auto
  have generation: "get_u64 t (put_slot put new) = (Inr (slot_generation new), put_option put (slot_desc new))"
    by (simp add: put_slot_def codec_simps)
  show ?case
  proof (cases "i < length current")
    case False
    then have "set rs = {}" using set by auto
    with False rs generation Cons.prems(1) show ?thesis by (auto simp: take_frame_put get_def)
  next
    case True
    let ?old = "current ! i"
    let ?rs = "(if slot_active ?old \<and> slot_generation new \<noteq> slot_generation ?old then [(i, slot_generation ?old)] else []) @ rs"
    have "\<not> slot_generation new < slot_generation ?old"
      using Cons.prems(3) True by (auto simp: later_slot_def not_less dest: spec [of _ 0])
    with True rs generation Cons.prems(1) have "scan_rows t current (length (new # rest)) i
        (concat (map (\<lambda>s. put_frame (put_slot put s)) (new # rest)) @ ws) = (Inr ?rs, ws)"
      by (simp add: take_frame_put get_def)
    moreover have "set ?rs = {(k, slot_generation (current ! k)) | k. i \<le> k \<and> k < length current \<and> slot_active (current ! k) \<and>
        slot_generation (current ! k) \<noteq> slot_generation ((new # rest) ! (k - i))}" (is "_ = ?R")
    proof -
      have "?R = {(k, slot_generation (current ! k)) | k. k = i \<and> slot_active ?old \<and> slot_generation ?old \<noteq> slot_generation new} \<union> set rs"
        unfolding set using True tail by (auto simp: Suc_le_eq order_le_less)
      then show ?thesis by auto
    qed
    ultimately show ?thesis by blast
  qed
qed simp

text \<open>What the scan of a category finds: the live identities the later category has moved past.\<close>

lemma scan_retired_later:
  assumes "later_slots (sl_slots c) target" and "list_all (\<lambda>s. length (put_slot put s) < usize_limit) target"
    and "length target \<le> maximum" and "maximum < usize_limit"
    and target: "target = map g (sl_slots c')" "\<And>s. slot_generation (g s) = slot_generation s"
      "\<And>s. slot_active (g s) = slot_active s"
  obtains "is" where "scan_retired t (sl_slots c) maximum (put_rows (put_slot put) target @ ws) = (Inr is, ws)"
    and "set is = {i. store_lookup (rt_id (at_table t)) c i \<noteq> None \<and> store_lookup owner c' (i\<lparr>id_owner := owner\<rparr>) = None}"
proof -
  have "\<forall>j. 0 + j < length (sl_slots c) \<longrightarrow> later_slot (sl_slots c ! (0 + j)) (target ! j)"
    using assms(1) by (simp add: later_slots_def)
  with scan_rows_later [OF assms(2), of "sl_slots c" 0 t ws] assms(1) obtain rs where
    rs: "scan_rows t (sl_slots c) (length target) 0 (concat (map (\<lambda>s. put_frame (put_slot put s)) target) @ ws) = (Inr rs, ws)"
    and set: "set rs = {(k, slot_generation (sl_slots c ! k)) | k. k < length (sl_slots c) \<and> slot_active (sl_slots c ! k) \<and>
      slot_generation (sl_slots c ! k) \<noteq> slot_generation (target ! k)}"
    by (auto simp: later_slots_def)
  let ?is = "map (\<lambda>(index, generation). \<lparr>id_owner = rt_id (at_table t), id_index = index, id_generation = generation\<rparr>) rs"
  have "scan_retired t (sl_slots c) maximum (put_rows (put_slot put) target @ ws) = (Inr ?is, ws)"
    using rs assms(1,3,4) by (simp add: scan_retired_def put_rows_def codec_simps later_slots_def)
  moreover have "i \<in> set ?is \<longleftrightarrow>
      store_lookup (rt_id (at_table t)) c i \<noteq> None \<and> store_lookup owner c' (i\<lparr>id_owner := owner\<rparr>) = None" for i
  proof -
    have live: "store_lookup o2 c2 j \<noteq> None \<longleftrightarrow> id_owner j = o2 \<and> id_index j < length (sl_slots c2) \<and>
        slot_generation (sl_slots c2 ! id_index j) = id_generation j \<and> slot_active (sl_slots c2 ! id_index j)"
      for o2 j and c2 :: "'d slots"
      by (auto simp: store_lookup_Some slot_active_def)
    have moved: "slot_generation (sl_slots c' ! k) = slot_generation (sl_slots c ! k) \<longrightarrow> slot_active (sl_slots c' ! k)"
      "k < length (sl_slots c')" "slot_generation (target ! k) = slot_generation (sl_slots c' ! k)"
      if "k < length (sl_slots c)" "slot_active (sl_slots c ! k)" for k
    proof -
      have k: "k < length (sl_slots c')" and later: "later_slot (sl_slots c ! k) (target ! k)"
        using assms(1) that(1) target(1) by (auto simp: later_slots_def)
      from k target show "k < length (sl_slots c')" "slot_generation (target ! k) = slot_generation (sl_slots c' ! k)"
        by simp_all
      show "slot_generation (sl_slots c' ! k) = slot_generation (sl_slots c ! k) \<longrightarrow> slot_active (sl_slots c' ! k)"
        using later k target(2,3) that(2) by (auto simp: target(1) later_slot_def) (metis slot_active_def)
    qed
    have "i \<in> set ?is \<longleftrightarrow> id_owner i = rt_id (at_table t) \<and> (id_index i, id_generation i) \<in> set rs"
      by (cases i) (force simp: image_iff)
    also have "\<dots> \<longleftrightarrow> store_lookup (rt_id (at_table t)) c i \<noteq> None \<and> store_lookup owner c' (i\<lparr>id_owner := owner\<rparr>) = None"
    proof (cases "store_lookup (rt_id (at_table t)) c i = None")
      case True
      with live [of "rt_id (at_table t)" c i] show ?thesis unfolding set by auto
    next
      case False
      then have i: "id_owner i = rt_id (at_table t)" "id_index i < length (sl_slots c)" "slot_active (sl_slots c ! id_index i)"
          "slot_generation (sl_slots c ! id_index i) = id_generation i"
        using live [of "rt_id (at_table t)" c i] by blast+
      have "(id_index i, id_generation i) \<in> set rs \<longleftrightarrow> id_generation i \<noteq> slot_generation (target ! id_index i)"
        unfolding set using i by auto
      moreover have "store_lookup owner c' (i\<lparr>id_owner := owner\<rparr>) \<noteq> None \<longleftrightarrow>
          slot_generation (sl_slots c' ! id_index i) = id_generation i"
      proof
        assume "store_lookup owner c' (i\<lparr>id_owner := owner\<rparr>) \<noteq> None"
        with live [of owner c' "i\<lparr>id_owner := owner\<rparr>"] show "slot_generation (sl_slots c' ! id_index i) = id_generation i"
          by simp
      next
        assume same: "slot_generation (sl_slots c' ! id_index i) = id_generation i"
        with moved(1) [OF i(2,3)] i(4) have "slot_active (sl_slots c' ! id_index i)" by simp
        with same moved(2) [OF i(2,3)] live [of owner c' "i\<lparr>id_owner := owner\<rparr>"]
        show "store_lookup owner c' (i\<lparr>id_owner := owner\<rparr>) \<noteq> None" by simp
      qed
      ultimately show ?thesis using False i(1) moved(3) [OF i(2,3)] by metis
    qed
    finally show ?thesis .
  qed
  ultimately show thesis by (intro that [of ?is] set_eqI) (assumption, simp only: mem_Collect_eq)
qed

end
