(* ===== verification/Abi_Snapshot.thy ===== *)
theory Abi_Snapshot
  imports Abi_Tables_Laws
begin

text \<open>
  The producer's side of the exchange: a table that is changed and encoded in any order. Encodings
  are kept by revision for the whole table and by generation and activity for programs; whatever was
  kept, the snapshot is the encoding of the table as it is.
\<close>

section \<open>A table in use\<close>

fun op_accepted :: "table_op \<Rightarrow> resource_table \<Rightarrow> bool" where
  "op_accepted (DefineTexture m d) t = is_ok (fst (define_texture m d t))"
| "op_accepted (ReleaseTexture i) t = is_ok (fst (release_texture i t))"
| "op_accepted (DefineBuffer m d) t = is_ok (fst (define_buffer m d t))"
| "op_accepted (ReleaseBuffer i) t = is_ok (fst (release_buffer i t))"
| "op_accepted (DefineSampler m d) t = is_ok (fst (define_sampler m d t))"
| "op_accepted (DefineRenderPipeline m d) t = is_ok (fst (define_render_pipeline m d t))"
| "op_accepted (DefineShader m d) t = is_ok (fst (define_shader_module m d t))"
| "op_accepted (ReleaseShader i) t = is_ok (fst (release_shader_module i t))"
| "op_accepted (DefineBindGroup m d) t = is_ok (fst (define_bind_group m d t))"
| "op_accepted (ReleaseBindGroup i) t = is_ok (fst (release_bind_group i t))"
| "op_accepted (DefineCompute m d) t = is_ok (fst (define_compute_pipeline m d t))"
| "op_accepted (ReleaseCompute i) t = is_ok (fst (release_compute_pipeline i t))"
| "op_accepted (DefineProgrammable m d) t = is_ok (fst (define_programmable_pipeline m d t))"
| "op_accepted (ReleaseProgrammable i) t = is_ok (fst (release_programmable_pipeline i t))"

text \<open>Every operation that succeeds calls \<open>abi_changed\<close> once.\<close>

definition abi_apply :: "table_op \<Rightarrow> abi_state \<Rightarrow> abi_state" where
  "abi_apply op s = with_table (table_step op)
     (if op_accepted op (ab_table s) then s\<lparr>ab_revision := abi_changed (ab_revision s)\<rparr> else s)"

datatype abi_call = TableCall table_op | SnapshotCall snapshot_memory

fun abi_call_step :: "abi_call \<Rightarrow> abi_state \<Rightarrow> abi_state" where
  "abi_call_step (TableCall op) s = abi_apply op s"
| "abi_call_step (SnapshotCall mem) s = snd (abi_snapshot mem s)"

definition abi_run :: "usize \<Rightarrow> abi_call list \<Rightarrow> abi_state" where
  "abi_run number calls = fold abi_call_step calls (abi_state_new number)"

text \<open>The encoding of a table, with nothing kept.\<close>

definition encode_table :: "u64 \<Rightarrow> resource_table \<Rightarrow> u64 list" where
  "encode_table revision t = [MAGIC, of_nat (rt_id t), revision] @
     put_rows (put_slot put_texture_desc) (sl_slots (rt_textures t)) @
     put_rows (put_slot put_buffer_desc) (sl_slots (rt_buffers t)) @
     put_rows put_sampler_desc (rt_samplers t) @
     put_rows put_render_pipeline (rt_pipelines t) @
     put_rows (put_slot put_shader_module) (sl_slots (rt_shaders t)) @
     put_rows (put_slot put_bind_group) (sl_slots (rt_bind_groups t)) @
     put_rows (put_slot put_compute_pipeline) (sl_slots (rt_compute t)) @
     put_rows (put_slot put_programmable_pipeline) (sl_slots (rt_programmable t))"

section \<open>Tables move forward\<close>

definition later_table :: "resource_table \<Rightarrow> resource_table \<Rightarrow> bool" where
  "later_table old new \<longleftrightarrow> rt_id new = rt_id old \<and>
     later_slots (sl_slots (rt_textures old)) (sl_slots (rt_textures new)) \<and>
     later_slots (sl_slots (rt_buffers old)) (sl_slots (rt_buffers new)) \<and>
     (\<exists>xs. rt_samplers new = rt_samplers old @ xs) \<and> (\<exists>xs. rt_pipelines new = rt_pipelines old @ xs) \<and>
     later_slots (sl_slots (rt_shaders old)) (sl_slots (rt_shaders new)) \<and>
     later_slots (sl_slots (rt_bind_groups old)) (sl_slots (rt_bind_groups new)) \<and>
     later_slots (sl_slots (rt_compute old)) (sl_slots (rt_compute new)) \<and>
     later_slots (sl_slots (rt_programmable old)) (sl_slots (rt_programmable new))"

lemma later_table_refl [simp]: "later_table t t"
  by (simp add: later_table_def)

lemma later_table_trans: "later_table a b \<Longrightarrow> later_table b c \<Longrightarrow> later_table a c"
  unfolding later_table_def by (auto intro: later_slots_trans)

lemma plain_push_later: "\<exists>xs. snd (plain_push owner maximum m d items) = items @ xs"
  by (simp add: plain_push_def)

lemma then_do_check: "snd (then_do (r, t) (\<lambda>_ t. f t)) = (if is_ok r then snd (f t) else t)"
  by (cases r) simp_all

lemma table_step_later: "bounds_ok t \<Longrightarrow> later_table t (table_step op t)"
  by (cases op)
    (auto simp: later_table_def bounds_ok_def define_texture_def release_texture_def define_buffer_def
      release_buffer_def define_sampler_def define_render_pipeline_def define_shader_module_def
      release_shader_module_def define_bind_group_def release_bind_group_def define_compute_pipeline_def
      release_compute_pipeline_def define_programmable_pipeline_def release_programmable_pipeline_def
      then_do_check plain_push_later intro: store_later slots_release_later)

lemma table_steps_later: "bounds_ok t \<Longrightarrow> later_table t (fold table_step ops t) \<and> bounds_ok (fold table_step ops t)"
proof (induction ops arbitrary: t)
  case (Cons op ops)
  with bounds_ok_step [OF Cons.prems, of op] table_step_later [OF Cons.prems, of op] show ?case
    by (auto intro: later_table_trans)
qed simp

text \<open>An operation that fails changes nothing.\<close>

lemma slots_unchanged:
  "\<not> is_ok (fst (store_define owner maximum m d c)) \<Longrightarrow> snd (store_define owner maximum m d c) = c"
  "\<not> is_ok (fst (store_release owner i c)) \<Longrightarrow> snd (store_release owner i c) = c"
  "\<not> is_ok (fst (slots_release j c)) \<Longrightarrow> snd (slots_release j c) = c"
  "\<not> is_ok (fst (plain_push owner maximum m d' items)) \<Longrightarrow> snd (plain_push owner maximum m d' items) = items"
  by (auto simp: store_define_def store_release_def slots_define_def slots_release_def plain_push_def Let_def
      then_do_def split: option.splits if_splits sum.splits prod.splits)

lemma then_do_check_ok: "is_ok (fst (then_do (r, t) (\<lambda>_ t. f t))) \<longleftrightarrow> is_ok r \<and> is_ok (fst (f t))"
  by (cases r) simp_all

lemma rejected_unchanged: "\<not> op_accepted op t \<Longrightarrow> table_step op t = t"
  by (cases op)
    (auto simp: define_texture_def release_texture_def define_buffer_def
      release_buffer_def define_sampler_def define_render_pipeline_def define_shader_module_def
      release_shader_module_def define_bind_group_def release_bind_group_def define_compute_pipeline_def
      release_compute_pipeline_def define_programmable_pipeline_def release_programmable_pipeline_def
      then_do_check then_do_check_ok slots_unchanged)

section \<open>The encodings that are kept\<close>

lemma put_program_items_past:
  assumes "rows_past put rows all" and "items = drop i all" and "length all \<le> length rows" and "i \<le> length all"
    and "put_program_items mem put i items (rows, out) = (r, rows', out')"
  shows "rows_past put rows' all \<and>
    (is_ok r \<longrightarrow> out' = out @ concat (map (\<lambda>s. put_frame (put_slot put s)) items)) \<and> ((\<forall>i. mem i) \<longrightarrow> is_ok r)"
  using assms
proof (induction items arbitrary: i rows out)
  case (Cons s items)
  have i: "i < length all" and s: "s = all ! i" and items: "items = drop (Suc i) all"
    using Cons.prems(2) by (metis drop_eq_Nil list.discI not_le, metis nth_via_drop, metis drop_Suc list.sel(3) tl_drop)
  have past: "row_past put (rows ! i) s"
  proof -
    have "rows ! i = None \<or> i < length all \<and> row_past put (rows ! i) (all ! i)"
      using Cons.prems(1,3) i unfolding rows_past_def by (meson less_le_trans)
    with s show ?thesis by (auto simp: row_past_def)
  qed
  let ?rows = "rows[i := Some (slot_generation s, slot_active s, put_slot put s)]"
  have rows: "rows_past put ?rows all"
    using Cons.prems(1,3) i row_past_current [of put s] s by (auto simp: rows_past_def nth_list_update)
  show ?case
  proof (cases "mem i")
    case True
    with Cons.prems(5) have "put_program_items mem put (Suc i) items (?rows, out @ put_frame (put_slot put s)) = (r, rows', out')"
      by (simp add: program_row_current [OF past] Let_def)
    from Cons.IH [OF rows items _ _ this] Cons.prems(3) i show ?thesis by auto
  next
    case False
    with Cons.prems(5) rows show ?thesis by (auto simp: program_row_current [OF past] Let_def)
  qed
qed auto

lemma put_program_rows_past:
  assumes "rows_past put rows items" and "put_program_rows grow mem put items (rows, out) = (r, rows', out')"
  shows "rows_past put rows' items" and "is_ok r \<Longrightarrow> out' = out @ put_rows (put_slot put) items"
    and "grow \<Longrightarrow> \<forall>i. mem i \<Longrightarrow> is_ok r"
proof -
  let ?rows = "rows @ replicate (length items - length rows) None"
  have "rows_past put ?rows items"
    using assms(1) by (auto simp: rows_past_def nth_append)
  note past = put_program_items_past [OF this, of items 0 mem "out @ put_usize (length items)" r rows' out']
  show "rows_past put rows' items" "is_ok r \<Longrightarrow> out' = out @ put_rows (put_slot put) items"
      "grow \<Longrightarrow> \<forall>i. mem i \<Longrightarrow> is_ok r"
    using assms past by (auto simp: put_program_rows_def put_rows_def split: if_splits)
qed

definition abi_ok :: "nat \<Rightarrow> abi_state \<Rightarrow> bool" where
  "abi_ok calls s \<longleftrightarrow> bounds_ok (ab_table s) \<and> unat (ab_revision s) \<le> Suc calls \<and>
     rows_past put_shader_module (en_shaders (ab_programs s)) (sl_slots (rt_shaders (ab_table s))) \<and>
     rows_past put_compute_pipeline (en_compute (ab_programs s)) (sl_slots (rt_compute (ab_table s))) \<and>
     rows_past put_programmable_pipeline (en_render (ab_programs s)) (sl_slots (rt_programmable (ab_table s))) \<and>
     fst (ab_snapshot s) \<le> ab_revision s \<and>
     (fst (ab_snapshot s) = ab_revision s \<longrightarrow> snd (ab_snapshot s) = encode_table (ab_revision s) (ab_table s))"

lemma abi_ok_new: "abi_ok 0 (abi_state_new number)"
  using table_new_ok [of number] by (simp add: abi_ok_def abi_state_new_def rows_past_def table_ok_def)

lemma with_table_simps [simp]:
  "ab_table (with_table f s) = f (ab_table s)" "ab_revision (with_table f s) = ab_revision s"
  "ab_snapshot (with_table f s) = ab_snapshot s" "ab_accepted (with_table f s) = ab_accepted s"
  "ab_programs (with_table f s) = ab_programs s" "at_legacy (ab_view (with_table f s)) = at_legacy (ab_view s)"
  by (simp_all add: with_table_def)

lemma abi_ok_apply:
  assumes ok: "abi_ok calls s" and "Suc calls < 2 ^ 64 - 1"
  shows "abi_ok (Suc calls) (abi_apply op s)"
proof (cases "op_accepted op (ab_table s)")
  case False
  then have "abi_apply op s = s" by (simp add: abi_apply_def with_table_def rejected_unchanged)
  with ok show ?thesis by (simp add: abi_ok_def)
next
  case True
  have bounds: "bounds_ok (ab_table s)" using ok by (simp add: abi_ok_def)
  note later = table_step_later [OF bounds, of op, unfolded later_table_def]
  have up: "unat (ab_revision s + 1) = Suc (unat (ab_revision s))"
    using ok assms(2) by (simp add: abi_ok_def unat_word_ariths)
  then have "fst (ab_snapshot s) < ab_revision s + 1"
    using ok by (simp add: abi_ok_def word_less_nat_alt word_le_nat_alt)
  with ok up True later bounds_ok_step [OF bounds] show ?thesis
    by (auto simp: abi_ok_def abi_apply_def abi_changed_def intro: rows_past_later)
qed

lemma abi_snapshot_current:
  assumes ok: "abi_ok calls s" and step: "abi_snapshot mem s = (r, s')"
  shows "abi_ok calls s' \<and> ab_table s' = ab_table s \<and> ab_revision s' = ab_revision s \<and>
    (is_ok r \<longrightarrow> r = Inr (encode_table (ab_revision s) (ab_table s))) \<and>
    (sn_out mem \<and> (\<forall>i. sn_grow mem i \<and> (\<forall>j. sn_row mem i j)) \<longrightarrow> is_ok r)"
proof (cases "fst (ab_snapshot s) = ab_revision s \<or> \<not> sn_out mem")
  case True
  with ok step show ?thesis
    by (auto simp: abi_snapshot_def abi_ok_def Let_def split: if_splits)
next
  case False
  let ?t = "ab_table s" and ?p = "ab_programs s"
  have past: "rows_past put_shader_module (en_shaders ?p) (sl_slots (rt_shaders ?t))"
      "rows_past put_compute_pipeline (en_compute ?p) (sl_slots (rt_compute ?t))"
      "rows_past put_programmable_pipeline (en_render ?p) (sl_slots (rt_programmable ?t))"
    and bounds: "bounds_ok ?t" "unat (ab_revision s) \<le> Suc calls" and less: "fst (ab_snapshot s) \<le> ab_revision s"
    using ok by (simp_all add: abi_ok_def)
  define out0 where "out0 = [MAGIC, abi_identity s, ab_revision s] @
      put_rows (put_slot put_texture_desc) (sl_slots (rt_textures ?t)) @
      put_rows (put_slot put_buffer_desc) (sl_slots (rt_buffers ?t)) @
      put_rows put_sampler_desc (rt_samplers ?t) @ put_rows put_render_pipeline (rt_pipelines ?t)"
  obtain r1 rows1 out1 where s1: "put_program_rows (sn_grow mem 0) (sn_row mem 0) put_shader_module
      (sl_slots (rt_shaders ?t)) (en_shaders ?p, out0) = (r1, rows1, out1)" by (metis prod_cases3)
  note p1 = put_program_rows_past [OF past(1) s1]
  define out2 where "out2 = out1 @ put_rows (put_slot put_bind_group) (sl_slots (rt_bind_groups ?t))"
  obtain r3 rows3 out3 where s3: "put_program_rows (sn_grow mem 1) (sn_row mem 1) put_compute_pipeline
      (sl_slots (rt_compute ?t)) (en_compute ?p, out2) = (r3, rows3, out3)" by (metis prod_cases3)
  note p3 = put_program_rows_past [OF past(2) s3]
  obtain r4 rows4 out4 where s4: "put_program_rows (sn_grow mem 2) (sn_row mem 2) put_programmable_pipeline
      (sl_slots (rt_programmable ?t)) (en_render ?p, out3) = (r4, rows4, out4)" by (metis prod_cases3)
  note p4 = put_program_rows_past [OF past(3) s4]
  have unfold: "abi_snapshot mem s = (case (r1, rows1, out1) of
      (Inl e, rows, out) \<Rightarrow> (Inl e, s\<lparr>ab_snapshot := (fst (ab_snapshot s), out), ab_programs := ?p\<lparr>en_shaders := rows\<rparr>\<rparr>)
    | (Inr _, rows, out) \<Rightarrow> (case (r3, rows3, out3) of
        (Inl e, rows, out) \<Rightarrow> (Inl e, s\<lparr>ab_snapshot := (fst (ab_snapshot s), out),
          ab_programs := ?p\<lparr>en_shaders := rows1, en_compute := rows\<rparr>\<rparr>)
      | (Inr _, rows, out) \<Rightarrow> (case (r4, rows4, out4) of
          (Inl e, rows, out) \<Rightarrow> (Inl e, s\<lparr>ab_snapshot := (fst (ab_snapshot s), out),
            ab_programs := ?p\<lparr>en_shaders := rows1, en_compute := rows3, en_render := rows\<rparr>\<rparr>)
        | (Inr _, rows, out) \<Rightarrow> (Inr out, s\<lparr>ab_snapshot := (ab_revision s, out),
            ab_programs := ?p\<lparr>en_shaders := rows1, en_compute := rows3, en_render := rows\<rparr>\<rparr>))))"
    using False s1 s3 s4 unfolding out0_def out2_def
    by (simp add: abi_snapshot_def Let_def split: sum.split)
  have current: "is_ok r1 \<Longrightarrow> is_ok r3 \<Longrightarrow> is_ok r4 \<Longrightarrow> out4 = encode_table (ab_revision s) ?t"
    using p1(2) p3(2) p4(2) by (simp add: out0_def out2_def encode_table_def abi_identity_def)
  show ?thesis
    using step unfolding unfold
    by (cases r1; cases r3; cases r4)
      (use False bounds less past p1 p3 p4 current in \<open>auto simp: abi_ok_def\<close>)
qed

lemma abi_ok_run:
  assumes "length calls < 2 ^ 64 - 1"
  shows "abi_ok (length calls) (abi_run number calls)"
  using assms
proof (induction calls rule: rev_induct)
  case Nil
  then show ?case by (simp add: abi_run_def abi_ok_new)
next
  case (snoc call calls)
  then have ok: "abi_ok (length calls) (abi_run number calls)" by simp
  show ?case
  proof (cases call)
    case (TableCall op)
    with abi_ok_apply [OF ok, of op] snoc.prems show ?thesis by (simp add: abi_run_def)
  next
    case (SnapshotCall mem)
    obtain r s' where step: "abi_snapshot mem (abi_run number calls) = (r, s')" by (metis prod.exhaust)
    then have "abi_ok (length calls) s'" using abi_snapshot_current [OF ok] by blast
    moreover have "abi_run number (calls @ [call]) = s'" using step SnapshotCall by (simp add: abi_run_def)
    ultimately show ?thesis by (simp add: abi_ok_def)
  qed
qed

section \<open>Properties\<close>

text \<open>
  C38. Whatever sequence of definitions, releases and snapshots a table has seen, failed snapshots
  included, the next snapshot that succeeds is the encoding of the table as it is: neither the words
  kept for the revision nor the encodings kept for program slots can be stale. It fails only for
  want of memory. (Revisions count up to the limit at which the code panics.)
\<close>

theorem snapshots_are_current:
  assumes "length calls < 2 ^ 64 - 1" and "abi_run number calls = s" and "abi_snapshot mem s = (r, s')"
  shows "(is_ok r \<longrightarrow> r = Inr (encode_table (ab_revision s) (ab_table s))) \<and>
    (sn_out mem \<and> (\<forall>i. sn_grow mem i \<and> (\<forall>j. sn_row mem i j)) \<longrightarrow> is_ok r)"
  using abi_snapshot_current [OF abi_ok_run [OF assms(1), of number] assms(3) [folded assms(2)]] assms(2) by simp

definition example_snapshot_memory :: "bool \<Rightarrow> snapshot_memory" where
  "example_snapshot_memory b = \<lparr>sn_out = b, sn_grow = (\<lambda>i. True), sn_row = (\<lambda>i j. True)\<rparr>"

definition example_calls :: "abi_call list" where
  "example_calls = [SnapshotCall (example_snapshot_memory True),
     TableCall (DefineBuffer True \<lparr>buf_size = 16, buf_usage = BUF_COPY_DST\<rparr>),
     SnapshotCall (example_snapshot_memory False)]"

theorem snapshots_are_current_witness:
  "fst (abi_snapshot (example_snapshot_memory True) (abi_run 1 example_calls)) =
    Inr [MAGIC, 1, 2, 0, 1, 4, 0, 1, 16, 2, 0, 0, 0, 0, 0, 0]"
proof -
  let ?s = "abi_run 1 example_calls" and ?mem = "example_snapshot_memory True"
  have encoded: "encode_table (ab_revision ?s) (ab_table ?s) = [MAGIC, 1, 2, 0, 1, 4, 0, 1, 16, 2, 0, 0, 0, 0, 0, 0]"
    by code_simp
  have "length example_calls < 2 ^ 64 - 1" by (simp add: example_calls_def)
  from snapshots_are_current [OF this refl prod.collapse [symmetric], where number = 1 and mem = ?mem]
  show ?thesis unfolding encoded by (simp add: example_snapshot_memory_def)
qed

end
