(* ===== verification/Abi_Commands.thy ===== *)
theory Abi_Commands
  imports Abi_Values
begin

text \<open>
  The command stream of \<^verbatim>\<open>crates/sgfx-core/src/ir/abi/commands.rs\<close>: each recorded command is a
  record of words with a header (opcode in the low half, length in words in the high half), and a
  backend reads the commands back from the words. Upload data is not copied: the stream holds the
  address and length of the caller's slice. Reading a span is an argument, \<open>span at len\<close>, as the
  memory behind a raw pointer is the importing caller's contract.
\<close>

section \<open>Encoding\<close>

abbreviation "MAX_WORDS \<equiv> (64 :: nat)"

definition put_span :: "usize \<Rightarrow> u8 list \<Rightarrow> u64 list" where
  "put_span at data = put_usize at @ put_usize (length data)"

definition put_attachment :: "color_attachment \<Rightarrow> u64 list" where
  "put_attachment a = put_id (ca_target a) @ put_load_op (ca_load a) @ put_tag store_op_tags (ca_store a)"

definition put_depth_attachment :: "depth_attachment option \<Rightarrow> u64 list" where
  "put_depth_attachment m = put_bool (m \<noteq> None) @
     (case m of None \<Rightarrow> []
      | Some d \<Rightarrow> put_id (da_target d) @ put_depth_load_op (da_load d) @ put_tag store_op_tags (da_store d) @
          put_bool (da_read_only d))"

definition put_pass :: "render_pass_desc \<Rightarrow> u64 list" where
  "put_pass d = put_rect (rpd_area d) @ put_usize (length (color_attachments d)) @
     concat (map put_attachment (color_attachments d)) @ put_depth_attachment (rpd_depth d)"

fun put_barrier :: "resource_barrier \<Rightarrow> u64 list" where
  "put_barrier GlobalBarrier = [3]"
| "put_barrier (BufferBarrier buffer before after) =
     0 # put_id buffer @ put_tag buffer_access_tags before @ put_tag buffer_access_tags after"
| "put_barrier (TextureBarrier texture before after) =
     1 # put_id texture @ put_tag texture_access_tags before @ put_tag texture_access_tags after"
| "put_barrier (TextureMipBarrier texture level before after) =
     2 # put_id texture @ put_u32 level @ put_tag texture_access_tags before @ put_tag texture_access_tags after"

text \<open>The opcode and the operands; \<open>at\<close> is the address of the command's slice, if it has one.\<close>

fun encode_body :: "usize \<Rightarrow> command \<Rightarrow> u32 \<times> u64 list" where
  "encode_body at (WriteBuffer buffer offset data) =
     (1, put_id buffer @ put_u64 offset @ put_span at data)"
| "encode_body at (WriteTexture texture w) =
     (2, put_id texture @ put_rect (tw_destination w) @ put_u32 (tw_bytes_per_row w) @ put_u32 (tw_mip w) @
         put_u32 (tw_layer w) @ put_span at (tw_data w))"
| "encode_body at (CopyTextureToTexture source source_rect destination destination_rect) =
     (3, put_id source @ put_rect source_rect @ put_id destination @ put_rect destination_rect)"
| "encode_body at (BeginRenderPass d) = (4, put_pass d)"
| "encode_body at EndRenderPass = (5, [])"
| "encode_body at (SetPipeline v) = (6, put_plain v)"
| "encode_body at (SetVertexBuffer buffer offset) = (7, put_id buffer @ put_u64 offset)"
| "encode_body at (SetIndexBuffer buffer offset format) =
     (8, put_id buffer @ put_u64 offset @ put_tag index_format_tags format)"
| "encode_body at (SetTexture v) = (9, put_id v)"
| "encode_body at (SetSampler v) = (10, put_plain v)"
| "encode_body at (SetDrawIndex v) = (29, put_u32 v)"
| "encode_body at (SetUniforms v) = (11, put_uniforms v)"
| "encode_body at (SetScissor v) = (12, put_option put_rect v)"
| "encode_body at (Draw vertices first) = (13, put_u32 vertices @ put_u32 first)"
| "encode_body at (DrawIndexed indices first base) = (14, put_u32 indices @ put_u32 first @ put_i32 base)"
| "encode_body at (BlitTexture source source_mip destination destination_mip source_rect destination_rect filt flips) =
     (15, put_id source @ put_u32 source_mip @ put_id destination @ put_u32 destination_mip @
          put_rect source_rect @ put_rect destination_rect @ put_tag filter_mode_tags filt @
          put_bool (fst flips) @ put_bool (snd flips))"
| "encode_body at (CopyBufferToBuffer source source_offset destination destination_offset n) =
     (16, put_id source @ put_u64 source_offset @ put_id destination @ put_u64 destination_offset @ put_u64 n)"
| "encode_body at (SetProgrammablePipeline v) = (17, put_id v)"
| "encode_body at (SetBindGroup index grp) = (18, put_u32 index @ put_id grp)"
| "encode_body at BeginComputePass = (19, [])"
| "encode_body at EndComputePass = (20, [])"
| "encode_body at (SetComputePipeline v) = (21, put_id v)"
| "encode_body at (Dispatch x y z) = (22, put_u32 x @ put_u32 y @ put_u32 z)"
| "encode_body at (ResourceBarrier b) = (23, put_barrier b)"
| "encode_body at (SetVertexBufferSlot slot buffer offset) = (24, put_u32 slot @ put_id buffer @ put_u64 offset)"
| "encode_body at (SetViewport v) = (25, put_viewport v)"
| "encode_body at (SetPushConstants stages offset data) =
     (26, put_flags shader_stage_flags stages @ put_u32 offset @ put_span at data)"
| "encode_body at (DrawInstanced vertices first instances first_instance) =
     (27, put_u32 vertices @ put_u32 first @ put_u32 instances @ put_u32 first_instance)"
| "encode_body at (DrawIndexedInstanced indices first base instances first_instance) =
     (28, put_u32 indices @ put_u32 first @ put_i32 base @ put_u32 instances @ put_u32 first_instance)"

definition encode :: "usize \<Rightarrow> command \<Rightarrow> u64 list" where
  "encode at c = (case encode_body at c of (opcode, operands) \<Rightarrow>
     (ucast opcode OR push_bit 32 (of_nat (length operands + 1))) # operands)"

section \<open>Decoding\<close>

type_synonym span_memory = "usize \<Rightarrow> usize \<Rightarrow> u8 list"

definition get_span :: "span_memory \<Rightarrow> abi_table \<Rightarrow> u64 list \<Rightarrow> u8 list reading" where
  "get_span span t ws = then_do (get_usize t ws) (\<lambda>at ws. reads (get_usize t ws) (\<lambda>len.
     if len > 2 ^ 63 - 1 \<or> (len > 0 \<and> at = 0) then Inl InvalidValue
     else Inr (if len = 0 then [] else span at len)))"

definition get_ref ::
    "(resource_table \<Rightarrow> res_id \<Rightarrow> res_id ir_result) \<Rightarrow> abi_table \<Rightarrow> u64 list \<Rightarrow> res_id reading"
where
  "get_ref resolve t ws = reads (get_id t ws) (resolve (at_table t))"

definition get_program_ref ::
    "(resource_table \<Rightarrow> res_id \<Rightarrow> res_id ir_result) \<Rightarrow> abi_table \<Rightarrow> u64 list \<Rightarrow> res_id reading"
where
  "get_program_ref resolve t ws = reads (get_program_id resolve t ws) (resolve (at_table t))"

definition get_plain_ref ::
    "(resource_table \<Rightarrow> plain_id \<Rightarrow> plain_id ir_result) \<Rightarrow> abi_table \<Rightarrow> u64 list \<Rightarrow> plain_id reading"
where
  "get_plain_ref resolve t ws = reads (get_plain resolve t ws) (resolve (at_table t))"

abbreviation "get_texture \<equiv> get_ref texture_ref"
abbreviation "get_buffer \<equiv> get_ref buffer_ref"

fun get_more_colors :: "abi_table \<Rightarrow> nat \<Rightarrow> render_pass_desc \<Rightarrow> u64 list \<Rightarrow> render_pass_desc reading" where
  "get_more_colors t 0 d ws = (Inr d, ws)"
| "get_more_colors t (Suc n) d ws = then_do (get_texture t ws) (\<lambda>target ws.
     then_do (get_load_op t ws) (\<lambda>load ws. then_do (get_tag store_op_tags t ws) (\<lambda>store ws.
     then_do (with_color_attachment (at_table t) d target load store, ws) (\<lambda>d ws. get_more_colors t n d ws))))"

definition get_depth_attachment :: "abi_table \<Rightarrow> render_pass_desc \<Rightarrow> u64 list \<Rightarrow> render_pass_desc reading" where
  "get_depth_attachment t d ws = then_do (get_bool t ws) (\<lambda>present ws.
     if \<not> present then (Inr d, ws)
     else then_do (get_texture t ws) (\<lambda>target ws. then_do (get_depth_load_op t ws) (\<lambda>load ws.
       then_do (get_tag store_op_tags t ws) (\<lambda>store ws.
       then_do (with_depth_attachment (at_table t) d target load store, ws) (\<lambda>d ws.
       reads (get_bool t ws) (\<lambda>read_only. if read_only then with_read_only_depth d else Inr d))))))"

definition get_pass :: "abi_table \<Rightarrow> u64 list \<Rightarrow> render_pass_desc reading" where
  "get_pass t ws = then_do (get_rect t ws) (\<lambda>area ws. then_do (get_usize t ws) (\<lambda>n ws.
     if n = 0 \<or> n > MAX_COLOR_ATTACHMENTS then (Inl InvalidDescriptor, ws)
     else then_do (get_texture t ws) (\<lambda>target ws. then_do (get_load_op t ws) (\<lambda>load ws.
       then_do (get_tag store_op_tags t ws) (\<lambda>store ws.
       then_do (render_pass_new (at_table t) target area load store, ws) (\<lambda>d ws.
       then_do (get_more_colors t (n - 1) d ws) (get_depth_attachment t)))))))"

definition get_barrier :: "abi_table \<Rightarrow> u64 list \<Rightarrow> resource_barrier reading" where
  "get_barrier t ws = then_do (reader_word ws) (\<lambda>kind ws.
     if kind = 3 then (Inr GlobalBarrier, ws)
     else if kind = 0 then
       then_do (get_buffer t ws) (\<lambda>buffer ws. then_do (get_tag buffer_access_tags t ws) (\<lambda>before ws.
       reads (get_tag buffer_access_tags t ws) (\<lambda>after. Inr (BufferBarrier buffer before after))))
     else if kind = 1 then
       then_do (get_texture t ws) (\<lambda>texture ws. then_do (get_tag texture_access_tags t ws) (\<lambda>before ws.
       reads (get_tag texture_access_tags t ws) (\<lambda>after. Inr (TextureBarrier texture before after))))
     else if kind = 2 then
       then_do (get_texture t ws) (\<lambda>texture ws. then_do (get_u32 t ws) (\<lambda>level ws.
       then_do (get_tag texture_access_tags t ws) (\<lambda>before ws.
       reads (get_tag texture_access_tags t ws) (\<lambda>after. Inr (TextureMipBarrier texture level before after)))))
     else (Inl InvalidValue, ws))"

definition decode_resource_command :: "span_memory \<Rightarrow> abi_table \<Rightarrow> u32 \<Rightarrow> u64 list \<Rightarrow> command reading" where
  "decode_resource_command span t opcode ws =
     (if opcode = 1 then
        then_do (get_buffer t ws) (\<lambda>buffer ws. then_do (get_u64 t ws) (\<lambda>offset ws.
        reads (get_span span t ws) (\<lambda>data. Inr (WriteBuffer buffer offset data))))
      else if opcode = 2 then
        then_do (get_texture t ws) (\<lambda>texture ws. then_do (get_rect t ws) (\<lambda>destination ws.
        then_do (get_u32 t ws) (\<lambda>stride ws. then_do (get_u32 t ws) (\<lambda>mip ws. then_do (get_u32 t ws) (\<lambda>layer ws.
        reads (get_span span t ws) (\<lambda>data. and_then (texture_write_new destination stride data) (\<lambda>w.
          Inr (WriteTexture texture (with_array_layer (with_mip_level w mip) layer)))))))))
      else if opcode = 3 then
        then_do (get_texture t ws) (\<lambda>source ws. then_do (get_rect t ws) (\<lambda>source_rect ws.
        then_do (get_texture t ws) (\<lambda>destination ws. reads (get_rect t ws) (\<lambda>destination_rect.
          Inr (CopyTextureToTexture source source_rect destination destination_rect)))))
      else if opcode = 4 then reads (get_pass t ws) (\<lambda>d. Inr (BeginRenderPass d))
      else if opcode = 6 then reads (get_plain_ref render_pipeline_ref t ws) (\<lambda>v. Inr (SetPipeline v))
      else if opcode = 7 then
        then_do (get_buffer t ws) (\<lambda>buffer ws. reads (get_u64 t ws) (\<lambda>offset. Inr (SetVertexBuffer buffer offset)))
      else if opcode = 8 then
        then_do (get_buffer t ws) (\<lambda>buffer ws. then_do (get_u64 t ws) (\<lambda>offset ws.
        reads (get_tag index_format_tags t ws) (\<lambda>format. Inr (SetIndexBuffer buffer offset format))))
      else if opcode = 9 then reads (get_texture t ws) (\<lambda>v. Inr (SetTexture v))
      else if opcode = 10 then reads (get_plain_ref sampler_ref t ws) (\<lambda>v. Inr (SetSampler v))
      else if opcode = 15 then
        then_do (get_texture t ws) (\<lambda>source ws. then_do (get_u32 t ws) (\<lambda>source_mip ws.
        then_do (get_texture t ws) (\<lambda>destination ws. then_do (get_u32 t ws) (\<lambda>destination_mip ws.
        then_do (get_rect t ws) (\<lambda>source_rect ws. then_do (get_rect t ws) (\<lambda>destination_rect ws.
        then_do (get_tag filter_mode_tags t ws) (\<lambda>filt ws. then_do (get_bool t ws) (\<lambda>flip_x ws.
        reads (get_bool t ws) (\<lambda>flip_y.
          Inr (BlitTexture source source_mip destination destination_mip source_rect destination_rect filt
                 (flip_x, flip_y)))))))))))
      else if opcode = 16 then
        then_do (get_buffer t ws) (\<lambda>source ws. then_do (get_u64 t ws) (\<lambda>source_offset ws.
        then_do (get_buffer t ws) (\<lambda>destination ws. then_do (get_u64 t ws) (\<lambda>destination_offset ws.
        reads (get_u64 t ws) (\<lambda>n.
          Inr (CopyBufferToBuffer source source_offset destination destination_offset n))))))
      else if opcode = 17 then
        reads (get_program_ref programmable_pipeline_ref t ws) (\<lambda>v. Inr (SetProgrammablePipeline v))
      else if opcode = 18 then
        then_do (get_u32 t ws) (\<lambda>index ws. reads (get_ref bind_group_ref t ws) (\<lambda>grp. Inr (SetBindGroup index grp)))
      else if opcode = 21 then reads (get_program_ref compute_pipeline_ref t ws) (\<lambda>v. Inr (SetComputePipeline v))
      else if opcode = 23 then reads (get_barrier t ws) (\<lambda>b. Inr (ResourceBarrier b))
      else if opcode = 24 then
        then_do (get_u32 t ws) (\<lambda>slot ws. then_do (get_buffer t ws) (\<lambda>buffer ws.
        reads (get_u64 t ws) (\<lambda>offset. Inr (SetVertexBufferSlot slot buffer offset))))
      else if opcode = 26 then
        then_do (get_flags shader_stage_flags t ws) (\<lambda>stages ws. then_do (get_u32 t ws) (\<lambda>offset ws.
        reads (get_span span t ws) (\<lambda>data. Inr (SetPushConstants stages offset data))))
      else (Inl InvalidDescriptor, ws))"

definition decode_into :: "span_memory \<Rightarrow> abi_table \<Rightarrow> u32 \<Rightarrow> u64 list \<Rightarrow> command reading" where
  "decode_into span t opcode ws =
     (if opcode = 5 then (Inr EndRenderPass, ws)
      else if opcode = 29 then reads (get_u32 t ws) (\<lambda>v. Inr (SetDrawIndex v))
      else if opcode = 11 then reads (get_uniforms t ws) (\<lambda>v. Inr (SetUniforms v))
      else if opcode = 12 then reads (get_option get_rect t ws) (\<lambda>v. Inr (SetScissor v))
      else if opcode = 13 then
        then_do (get_u32 t ws) (\<lambda>vertices ws. reads (get_u32 t ws) (\<lambda>first. Inr (Draw vertices first)))
      else if opcode = 14 then
        then_do (get_u32 t ws) (\<lambda>indices ws. then_do (get_u32 t ws) (\<lambda>first ws.
        reads (get_i32 t ws) (\<lambda>base. Inr (DrawIndexed indices first base))))
      else if opcode = 19 then (Inr BeginComputePass, ws)
      else if opcode = 20 then (Inr EndComputePass, ws)
      else if opcode = 22 then
        then_do (get_u32 t ws) (\<lambda>x ws. then_do (get_u32 t ws) (\<lambda>y ws.
        reads (get_u32 t ws) (\<lambda>z. Inr (Dispatch x y z))))
      else if opcode = 25 then reads (get_viewport t ws) (\<lambda>v. Inr (SetViewport v))
      else if opcode = 27 then
        then_do (get_u32 t ws) (\<lambda>vertices ws. then_do (get_u32 t ws) (\<lambda>first ws.
        then_do (get_u32 t ws) (\<lambda>instances ws. reads (get_u32 t ws) (\<lambda>first_instance.
          Inr (DrawInstanced vertices first instances first_instance)))))
      else if opcode = 28 then
        then_do (get_u32 t ws) (\<lambda>indices ws. then_do (get_u32 t ws) (\<lambda>first ws.
        then_do (get_i32 t ws) (\<lambda>base ws. then_do (get_u32 t ws) (\<lambda>instances ws.
        reads (get_u32 t ws) (\<lambda>first_instance.
          Inr (DrawIndexedInstanced indices first base instances first_instance))))))
      else decode_resource_command span t opcode ws)"

section \<open>Reading a stream\<close>

text \<open>
  One step of the reader: no command left, a command, or an error, which empties the stream. The
  state is the number of commands that remain and the words that remain.
\<close>

definition read_record ::
    "span_memory \<Rightarrow> abi_table \<Rightarrow> u64 list \<Rightarrow> command reading"
where
  "read_record span t ws = then_do (reader_word ws) (\<lambda>header ws.
     let n = unat (drop_bit 32 header)
     in if n = 0 \<or> n > MAX_WORDS then (Inl InvalidDescriptor, ws)
        else then_do (reader_take (n - 1) ws) (\<lambda>fields ws.
          (case decode_into span t (ucast header) fields of (result, rest) \<Rightarrow>
             and_then result (\<lambda>c. and_then (reader_end rest) (\<lambda>_. Inr c)), ws)))"

definition read_next ::
    "span_memory \<Rightarrow> abi_table \<Rightarrow> nat \<times> u64 list \<Rightarrow> command option ir_result \<times> nat \<times> u64 list"
where
  "read_next span t = (\<lambda>(remaining, ws).
     (case (if remaining = 0 then (and_then (reader_end ws) (\<lambda>_. Inr None), ws)
            else reads (read_record span t ws) (\<lambda>c. Inr (Some c))) of
        (Inl e, _) \<Rightarrow> (Inl e, 0, [])
      | (Inr m, ws') \<Rightarrow> (Inr m, remaining - 1, ws')))"

text \<open>The iterator of a stream: a \<open>Some\<close> per command, an error once, then the end.\<close>

definition command_iter_next ::
    "span_memory \<Rightarrow> abi_table \<Rightarrow> nat \<times> u64 list \<Rightarrow> command ir_result option \<times> nat \<times> u64 list"
where
  "command_iter_next span t s =
     (case read_next span t s of
        (Inl e, s') \<Rightarrow> (Some (Inl e), s')
      | (Inr None, s') \<Rightarrow> (None, s')
      | (Inr (Some c), s') \<Rightarrow> (Some (Inr c), s'))"

lemma read_next_remaining: "read_next span t (n, ws) = (Inr (Some c), n', ws') \<Longrightarrow> n' < n"
  by (auto simp: read_next_def and_then_Inr_iff split: if_splits sum.splits prod.splits option.splits)

text \<open>Collecting the iterator into a \<open>Result<Vec>\<close>: the commands, or the first error.\<close>

function collect_commands :: "span_memory \<Rightarrow> abi_table \<Rightarrow> nat \<times> u64 list \<Rightarrow> command list ir_result" where
  "collect_commands span t s =
     (case command_iter_next span t s of
        (None, s') \<Rightarrow> Inr []
      | (Some (Inl e), s') \<Rightarrow> Inl e
      | (Some (Inr c), s') \<Rightarrow> and_then (collect_commands span t s') (\<lambda>cs. Inr (c # cs)))"
  by pat_completeness auto
termination
  by (relation "measure (\<lambda>(span, t, n, ws). n)")
    (auto simp: command_iter_next_def dest: read_next_remaining split: sum.splits option.splits prod.splits)

declare collect_commands.simps [simp del]

section \<open>Storage\<close>

record abi_storage =
  st_words :: "u64 list"
  st_count :: nat

definition storage_new :: abi_storage where
  "storage_new = \<lparr>st_words = [], st_count = 0\<rparr>"

definition storage_push :: "usize \<Rightarrow> command \<Rightarrow> abi_storage \<Rightarrow> abi_storage" where
  "storage_push at c s = \<lparr>st_words = st_words s @ encode at c, st_count = st_count s + 1\<rparr>"

definition storage_decoded :: "span_memory \<Rightarrow> abi_table \<Rightarrow> abi_storage \<Rightarrow> command list ir_result" where
  "storage_decoded span t s = collect_commands span t (st_count s, st_words s)"

fun is_compute_command :: "command \<Rightarrow> bool" where
  "is_compute_command BeginComputePass \<longleftrightarrow> True"
| "is_compute_command EndComputePass \<longleftrightarrow> True"
| "is_compute_command (SetComputePipeline _) \<longleftrightarrow> True"
| "is_compute_command (Dispatch _ _ _) \<longleftrightarrow> True"
| "is_compute_command _ \<longleftrightarrow> False"

fun scan_records :: "nat \<Rightarrow> u64 list \<Rightarrow> bool \<Rightarrow> bool reading" where
  "scan_records 0 ws found = (Inr found, ws)"
| "scan_records (Suc n) ws found = then_do (reader_word ws) (\<lambda>header ws.
     let len = unat (drop_bit 32 header); opcode = (ucast header :: u32)
     in if len = 0 \<or> len > MAX_WORDS \<or> \<not> (1 \<le> opcode \<and> opcode \<le> 29) then (Inl InvalidDescriptor, ws)
        else then_do (reader_take (len - 1) ws) (\<lambda>_ ws.
          scan_records n ws (found \<or> 19 \<le> opcode \<and> opcode \<le> 22)))"

definition scan_compute :: "u64 list \<Rightarrow> nat \<Rightarrow> bool ir_result" where
  "scan_compute ws n = (case scan_records n ws False of
     (Inl e, _) \<Rightarrow> Inl e
   | (Inr found, rest) \<Rightarrow> and_then (reader_end rest) (\<lambda>_. Inr found))"

text \<open>
  What \<open>from_abi\<close> checks of an imported batch before it borrows its words; \<open>null\<close> and \<open>aligned\<close>
  describe the pointer.
\<close>

definition from_abi :: "u64 \<Rightarrow> u64 \<Rightarrow> bool \<Rightarrow> bool \<Rightarrow> u64 list \<Rightarrow> nat \<Rightarrow> abi_storage ir_result" where
  "from_abi source_table table null aligned ws n =
     (if table \<noteq> source_table then Inl ResourceTableMismatch
      else if n > MAX_COMMANDS \<or> length ws > MAX_COMMANDS * MAX_WORDS \<or> (ws \<noteq> [] \<and> (null \<or> \<not> aligned))
      then Inl InvalidDescriptor
      else Inr \<lparr>st_words = ws, st_count = n\<rparr>)"

end
