(* ===== verification/Abi_Commands_Laws.thy ===== *)
theory Abi_Commands_Laws
  imports Abi_Commands
begin

text \<open>
  Reading and writing commands are inverse: the codec laws of references, spans, render passes and
  barriers, and of whole records.
\<close>

section \<open>References and spans\<close>

definition ref_ok :: "(resource_table \<Rightarrow> res_id \<Rightarrow> res_id ir_result) \<Rightarrow> abi_table \<Rightarrow> res_id \<Rightarrow> bool" where
  "ref_ok resolve t i \<longleftrightarrow> id_ok t i \<and> is_ok (resolve (at_table t) i)"

text \<open>A resolver answers with the identity it was asked about.\<close>

definition resolver :: "(resource_table \<Rightarrow> 'i \<Rightarrow> 'i ir_result) \<Rightarrow> bool" where
  "resolver resolve \<longleftrightarrow> (\<forall>t i r. resolve t i = Inr r \<longrightarrow> r = i)"

lemma slots_validate_same: "slots_validate owner s i = Inr r \<Longrightarrow> r = i"
  by (auto simp: slots_validate_def split: if_splits option.splits)

lemma resolvers:
  "resolver texture_ref" "resolver buffer_ref" "resolver bind_group_ref" "resolver compute_pipeline_ref"
  "resolver programmable_pipeline_ref" "resolver sampler_ref" "resolver render_pipeline_ref"
  unfolding resolver_def texture_ref_def buffer_ref_def bind_group_ref_def compute_pipeline_ref_def
    programmable_pipeline_ref_def sampler_ref_def render_pipeline_ref_def
  by (auto dest: slots_validate_same simp: validate_plain_def split: if_splits)

lemma ref_codec: "resolver resolve \<Longrightarrow> canonical_codec put_id (get_ref resolve) (ref_ok resolve)"
  by unfold_locales (fastforce simp: get_ref_def ref_ok_def is_ok_Inr resolver_def codec_simps id.get_iff
      reading_inversion id.nonempty)+

lemma program_ref_codec:
  "resolver resolve \<Longrightarrow> canonical_codec put_id (get_program_ref resolve) (program_id_ok resolve)"
  using program_id_codec [of resolve] unfolding canonical_codec_def canonical_codec_axioms_def codec_def
  by (fastforce simp: get_program_ref_def program_id_ok_def is_ok_Inr resolver_def reading_inversion)

lemma plain_ref_codec:
  "resolver resolve \<Longrightarrow> canonical_codec put_plain (get_plain_ref resolve) (plain_ok resolve)"
  using plain_codec [of resolve] unfolding canonical_codec_def canonical_codec_axioms_def codec_def
  by (fastforce simp: get_plain_ref_def plain_ok_def is_ok_Inr resolver_def reading_inversion)

interpretation texture_r: canonical_codec put_id get_texture "ref_ok texture_ref"
  by (rule ref_codec [OF resolvers(1)])

interpretation buffer_r: canonical_codec put_id get_buffer "ref_ok buffer_ref"
  by (rule ref_codec [OF resolvers(2)])

interpretation bind_group_r: canonical_codec put_id "get_ref bind_group_ref" "ref_ok bind_group_ref"
  by (rule ref_codec [OF resolvers(3)])

interpretation compute_r: canonical_codec put_id "get_program_ref compute_pipeline_ref"
    "program_id_ok compute_pipeline_ref"
  by (rule program_ref_codec [OF resolvers(4)])

interpretation programmable_r: canonical_codec put_id "get_program_ref programmable_pipeline_ref"
    "program_id_ok programmable_pipeline_ref"
  by (rule program_ref_codec [OF resolvers(5)])

interpretation sampler_r: canonical_codec put_plain "get_plain_ref sampler_ref" "plain_ok sampler_ref"
  by (rule plain_ref_codec [OF resolvers(6)])

interpretation pipeline_r: canonical_codec put_plain "get_plain_ref render_pipeline_ref"
    "plain_ok render_pipeline_ref"
  by (rule plain_ref_codec [OF resolvers(7)])

text \<open>A slice of the caller: where it lies, and that the memory there holds it.\<close>

definition span_ok :: "span_memory \<Rightarrow> usize \<Rightarrow> u8 list \<Rightarrow> bool" where
  "span_ok span at data \<longleftrightarrow> at < usize_limit \<and> length data \<le> 2 ^ 63 - 1 \<and>
     (data \<noteq> [] \<longrightarrow> at \<noteq> 0 \<and> span at (length data) = data)"

text \<open>A memory answers with as many bytes as it was asked for.\<close>

definition memory_spans :: "span_memory \<Rightarrow> bool" where
  "memory_spans span \<longleftrightarrow> (\<forall>at len. length (span at len) = len)"

lemma usize_63: "n \<le> 2 ^ 63 - 1 \<Longrightarrow> n < usize_limit"
  by (simp add: usize_limit_def)

lemma guarded_Inr: "(if b then Inl e else Inr x) = Inr y \<longleftrightarrow> \<not> b \<and> y = x"
  by auto

lemma get_span_iff:
  assumes mem: "memory_spans span" and "\<not> at_legacy t"
  shows "get_span span t ws = (Inr data, ws') \<longleftrightarrow> (\<exists>at. ws = put_span at data @ ws' \<and> span_ok span at data)"
proof
  assume "get_span span t ws = (Inr data, ws')"
  with assms(2) obtain at len where ws: "ws = put_usize at @ put_usize len @ ws'" "at < usize_limit"
    and "(if len > 2 ^ 63 - 1 \<or> (len > 0 \<and> at = 0) then Inl InvalidValue
      else Inr (if len = 0 then [] else span at len)) = Inr data"
    by (auto simp: get_span_def record_reading split del: if_split)
  then have len: "\<not> len > 2 ^ 63 - 1" "\<not> (len > 0 \<and> at = 0)" "data = (if len = 0 then [] else span at len)"
    unfolding guarded_Inr by blast+
  have "length data = len" using mem len(3) by (simp add: memory_spans_def)
  with ws len show "\<exists>at. ws = put_span at data @ ws' \<and> span_ok span at data"
    by (intro exI [of _ at]) (auto simp: put_span_def span_ok_def not_less simp del: diff_numeral_simps)
next
  assume "\<exists>at. ws = put_span at data @ ws' \<and> span_ok span at data"
  then obtain at where "ws = put_span at data @ ws'" and at: "span_ok span at data" by blast
  then have "get_span span t ws = ((if length data > 2 ^ 63 - 1 \<or> (length data > 0 \<and> at = 0) then Inl InvalidValue
      else Inr (if length data = 0 then [] else span at (length data))), ws')"
    using usize_63 [of "length data"] by (simp add: get_span_def put_span_def codec_simps span_ok_def)
  with at show "get_span span t ws = (Inr data, ws')" by (auto simp: span_ok_def)
qed

section \<open>Render passes\<close>

definition attachment_ok :: "abi_table \<Rightarrow> color_attachment \<Rightarrow> bool" where
  "attachment_ok t a \<longleftrightarrow> ref_ok texture_ref t (ca_target a) \<and> load_op_ok (ca_load a)"

definition add_color :: "color_attachment \<Rightarrow> pass_builder" where
  "add_color a = AddColor (ca_target a) (ca_load a) (ca_store a)"

definition depth_steps :: "depth_attachment option \<Rightarrow> pass_builder list" where
  "depth_steps m = (case m of None \<Rightarrow> []
     | Some a \<Rightarrow> AddDepth (da_target a) (da_load a) (da_store a) # (if da_read_only a then [ReadOnlyDepth] else []))"

definition depth_ref_ok :: "abi_table \<Rightarrow> depth_attachment option \<Rightarrow> bool" where
  "depth_ref_ok t m \<longleftrightarrow> pred_option (\<lambda>a. ref_ok texture_ref t (da_target a)) m"

lemma then_do_pure_Inr: "then_do (m, s) k = (Inr y, s') \<longleftrightarrow> (\<exists>x. m = Inr x \<and> k x s = (Inr y, s'))"
  by (cases m) auto

lemma get_more_colors_iff:
  assumes "\<not> at_legacy t"
  shows "get_more_colors t n d ws = (Inr d', ws') \<longleftrightarrow>
     (\<exists>as. length as = n \<and> ws = concat (map put_attachment as) @ ws' \<and> list_all (attachment_ok t) as \<and>
        build_pass (at_table t) d (map add_color as) = Inr d')"
proof (induction n arbitrary: d ws)
  case (Suc n)
  have "get_more_colors t (Suc n) d ws = (Inr d', ws') \<longleftrightarrow>
      (\<exists>target load store d1 rest. ws = put_id target @ put_load_op load @ put_tag store_op_tags store @ rest \<and>
         ref_ok texture_ref t target \<and> load_op_ok load \<and>
         with_color_attachment (at_table t) d target load store = Inr d1 \<and>
         get_more_colors t n d1 rest = (Inr d', ws'))"
    using assms by (simp add: then_do_Inr then_do_pure_Inr texture_r.get_iff load_op.get_iff store_op.get_iff) blast
  also have "\<dots> \<longleftrightarrow> (\<exists>a as d1. length as = n \<and> ws = put_attachment a @ concat (map put_attachment as) @ ws' \<and>
      attachment_ok t a \<and> list_all (attachment_ok t) as \<and>
      with_color_attachment (at_table t) d (ca_target a) (ca_load a) (ca_store a) = Inr d1 \<and>
      build_pass (at_table t) d1 (map add_color as) = Inr d')" (is "?l \<longleftrightarrow> ?r")
  proof
    assume ?l
    then obtain target load store d1 rest as where
      *: "ws = put_id target @ put_load_op load @ put_tag store_op_tags store @ rest"
        "ref_ok texture_ref t target" "load_op_ok load"
        "with_color_attachment (at_table t) d target load store = Inr d1"
        "length as = n" "rest = concat (map put_attachment as) @ ws'" "list_all (attachment_ok t) as"
        "build_pass (at_table t) d1 (map add_color as) = Inr d'"
      unfolding Suc.IH by blast
    let ?a = "\<lparr>ca_target = target, ca_load = load, ca_store = store\<rparr>"
    show ?r using * by (intro exI [of _ ?a] exI [of _ as] exI [of _ d1]) (simp add: put_attachment_def attachment_ok_def)
  next
    assume ?r
    then obtain a as d1 where
      *: "length as = n" "ws = put_attachment a @ concat (map put_attachment as) @ ws'"
        "attachment_ok t a" "list_all (attachment_ok t) as"
        "with_color_attachment (at_table t) d (ca_target a) (ca_load a) (ca_store a) = Inr d1"
        "build_pass (at_table t) d1 (map add_color as) = Inr d'" by blast
    show ?l unfolding Suc.IH
      by (intro exI [of _ "ca_target a"] exI [of _ "ca_load a"] exI [of _ "ca_store a"] exI [of _ d1]
          exI [of _ "concat (map put_attachment as) @ ws'"] conjI exI [of _ as])
        (use * in \<open>simp_all add: put_attachment_def attachment_ok_def\<close>)
  qed
  also have "\<dots> \<longleftrightarrow> (\<exists>as. length as = Suc n \<and> ws = concat (map put_attachment as) @ ws' \<and>
      list_all (attachment_ok t) as \<and> build_pass (at_table t) d (map add_color as) = Inr d')"
    (is "?r \<longleftrightarrow> ?s")
  proof
    assume ?r
    then obtain a as d1 where "length as = n" "ws = put_attachment a @ concat (map put_attachment as) @ ws'"
      "attachment_ok t a" "list_all (attachment_ok t) as"
      "with_color_attachment (at_table t) d (ca_target a) (ca_load a) (ca_store a) = Inr d1"
      "build_pass (at_table t) d1 (map add_color as) = Inr d'" by blast
    then show ?s by (intro exI [of _ "a # as"]) (simp add: add_color_def [of a])
  next
    assume ?s
    then obtain bs where bs: "length bs = Suc n" "ws = concat (map put_attachment bs) @ ws'"
      "list_all (attachment_ok t) bs" "build_pass (at_table t) d (map add_color bs) = Inr d'" by blast
    then obtain a as where "bs = a # as" by (cases bs) auto
    with bs show ?r
      by (intro exI [of _ a] exI [of _ as]) (auto simp: add_color_def [of a] and_then_Inr_iff)
  qed
  finally show ?case .
qed auto

lemma get_depth_attachment_iff:
  assumes "\<not> at_legacy t"
  shows "get_depth_attachment t d ws = (Inr d', ws') \<longleftrightarrow>
     (\<exists>m. ws = put_depth_attachment m @ ws' \<and> depth_ref_ok t m \<and>
        build_pass (at_table t) d (depth_steps m) = Inr d')" (is "?l \<longleftrightarrow> ?r")
proof
  assume l: ?l
  then obtain present rest where ws: "ws = put_bool present @ rest"
    using assms by (auto simp: get_depth_attachment_def then_do_Inr bool.get_iff)
  show ?r
  proof (cases present)
    case False
    with l ws assms show ?thesis
      by (intro exI [of _ None])
        (auto simp: get_depth_attachment_def codec_simps put_depth_attachment_def depth_ref_ok_def depth_steps_def)
  next
    case True
    with l ws assms obtain target load store d1 read_only where
      "rest = put_id target @ put_depth_load_op load @ put_tag store_op_tags store @ put_bool read_only @ ws'"
      "ref_ok texture_ref t target" "with_depth_attachment (at_table t) d target load store = Inr d1"
      "(if read_only then with_read_only_depth d1 else Inr d1) = Inr d'"
      by (auto simp: get_depth_attachment_def codec_simps then_do_Inr reading_inversion(2)
          texture_r.get_iff depth_load_op.get_iff store_op.get_iff bool.get_iff split del: if_split)
    with True ws show ?thesis
      by (intro exI [of _ "Some \<lparr>da_target = target, da_load = load, da_store = store, da_read_only = read_only\<rparr>"])
        (auto simp: put_depth_attachment_def depth_ref_ok_def depth_steps_def and_then_Inr_iff split: if_splits)
  qed
next
  assume ?r
  then obtain m where "ws = put_depth_attachment m @ ws'" "depth_ref_ok t m"
    "build_pass (at_table t) d (depth_steps m) = Inr d'" by blast
  then show ?l
    by (cases m) (auto simp: get_depth_attachment_def put_depth_attachment_def depth_ref_ok_def depth_steps_def
        codec_simps and_then_Inr_iff split: if_splits)
qed

text \<open>Further colors fill the inline slots from the front.\<close>

definition packed_pass :: "render_pass_desc \<Rightarrow> bool" where
  "packed_pass d \<longleftrightarrow> (let xs = List.map_filter id (rpd_extra d)
     in length xs \<le> 7 \<and> rpd_extra d = map Some xs @ replicate (7 - length xs) None)"

lemma map_filter_Some [simp]: "List.map_filter id (map Some xs @ ys) = xs @ List.map_filter id ys"
  by (induction xs) (simp_all add: map_filter_simps)

lemma packed_pass_iff:
  "packed_pass d \<longleftrightarrow> (\<exists>xs. length xs \<le> 7 \<and> rpd_extra d = map Some xs @ replicate (7 - length xs) None)"
  unfolding packed_pass_def Let_def by auto

lemma fill_first_packed:
  "fill_first x (map Some xs @ replicate n None) = (if n = 0 then None else Some (map Some (xs @ [x]) @ replicate (n - 1) None))"
  by (induction xs) (cases n, auto)+

lemma attachment_eta [simp]: "\<lparr>ca_target = ca_target a, ca_load = ca_load a, ca_store = ca_store a\<rparr> = a"
  by (cases a) simp

lemma build_colors:
  "build_pass t d (map add_color as) = Inr d' \<Longrightarrow> packed_pass d \<Longrightarrow>
     packed_pass d' \<and> color_attachments d' = color_attachments d @ as \<and> rpd_depth d' = rpd_depth d \<and>
     rpd_area d' = rpd_area d"
proof (induction as arbitrary: d)
  case (Cons a as)
  then obtain d1 where d1: "with_color_attachment t d (ca_target a) (ca_load a) (ca_store a) = Inr d1"
    and rest: "build_pass t d1 (map add_color as) = Inr d'"
    by (auto simp: add_color_def [of a] and_then_Inr_iff)
  from d1 obtain extra where extra: "fill_first a (rpd_extra d) = Some extra" and eq: "d1 = d\<lparr>rpd_extra := extra\<rparr>"
    by (auto simp: with_color_attachment_def and_then_Inr_iff split: if_splits)
  from Cons.prems(2) obtain xs where xs: "length xs \<le> 7" "rpd_extra d = map Some xs @ replicate (7 - length xs) None"
    by (auto simp: packed_pass_iff)
  with extra have extra': "extra = map Some (xs @ [a]) @ replicate (7 - length xs - 1) None" "length xs < 7"
    by (auto simp: fill_first_packed split: if_splits)
  then have "packed_pass d1" unfolding packed_pass_iff eq by (intro exI [of _ "xs @ [a]"]) auto
  moreover have "color_attachments d1 = color_attachments d @ [a]"
    using xs(2) extra'(1) by (simp add: color_attachments_def eq)
  ultimately show ?case using Cons.IH [OF rest] by (simp add: eq)
qed simp

lemma build_pass_append:
  "build_pass t d (xs @ ys) = and_then (build_pass t d xs) (\<lambda>d. build_pass t d ys)"
proof (induction t d xs rule: build_pass.induct)
  case (2 t d x l s bs)
  then show ?case by (cases "with_depth_attachment t d x l s") simp_all
next
  case (3 t d x l s bs)
  then show ?case by (cases "with_color_attachment t d x l s") simp_all
next
  case (4 t d bs)
  then show ?case by (cases "with_read_only_depth d") simp_all
qed simp

lemma build_depth:
  "build_pass t d (depth_steps m) = Inr d' \<Longrightarrow> rpd_depth d = None \<Longrightarrow> d' = d\<lparr>rpd_depth := m\<rparr>"
  by (cases m) (auto simp: depth_steps_def with_depth_attachment_def with_read_only_depth_def and_then_Inr_iff
      split: if_splits option.splits depth_load_op.splits)

text \<open>The constructor calls that rebuild a pass, and the passes they rebuild.\<close>

definition rebuild_pass :: "resource_table \<Rightarrow> render_pass_desc \<Rightarrow> render_pass_desc ir_result" where
  "rebuild_pass t d =
     and_then (render_pass_new t (rpd_target d) (rpd_area d) (rpd_load d) (rpd_store d)) (\<lambda>d0.
       build_pass t d0 (map add_color (tl (color_attachments d)) @ depth_steps (rpd_depth d)))"

definition pass_ok :: "abi_table \<Rightarrow> render_pass_desc \<Rightarrow> bool" where
  "pass_ok t d \<longleftrightarrow> rect_ok (rpd_area d) \<and> packed_pass d \<and> list_all (attachment_ok t) (color_attachments d) \<and>
     depth_ref_ok t (rpd_depth d) \<and> rebuild_pass (at_table t) d = Inr d"

lemma color_attachments_packed: "packed_pass d \<Longrightarrow> length (color_attachments d) \<le> 8 \<and> color_attachments d \<noteq> []"
  by (auto simp: packed_pass_def color_attachments_def Let_def)

lemma color_attachments_Cons:
  "color_attachments d = \<lparr>ca_target = rpd_target d, ca_load = rpd_load d, ca_store = rpd_store d\<rparr> # tl (color_attachments d)"
  by (simp add: color_attachments_def)

lemma get_pass_iff:
  assumes "\<not> at_legacy t"
  shows "get_pass t ws = (Inr d, ws') \<longleftrightarrow> ws = put_pass d @ ws' \<and> pass_ok t d"
proof
  assume "get_pass t ws = (Inr d, ws')"
  then obtain area n target load store d0 d1 as m where
    ws: "ws = put_rect area @ put_usize n @ put_id target @ put_load_op load @ put_tag store_op_tags store @
      concat (map put_attachment as) @ put_depth_attachment m @ ws'" and n: "n \<noteq> 0" "n \<le> 8" "length as = n - 1"
    and ok: "rect_ok area" "ref_ok texture_ref t target" "load_op_ok load" "list_all (attachment_ok t) as" "depth_ref_ok t m"
    and d0: "render_pass_new (at_table t) target area load store = Inr d0"
    and d1: "build_pass (at_table t) d0 (map add_color as) = Inr d1"
    and d: "build_pass (at_table t) d1 (depth_steps m) = Inr d"
    using assms by (auto simp: get_pass_def then_do_Inr then_do_pure_Inr rect.get_iff usize.get_iff texture_r.get_iff
        load_op.get_iff store_op.get_iff get_more_colors_iff get_depth_attachment_iff not_less split: if_splits)
  let ?first = "\<lparr>ca_target = target, ca_load = load, ca_store = store\<rparr>"
  from d0 have "packed_pass d0" "color_attachments d0 = [?first]" "rpd_depth d0 = None" "rpd_area d0 = area"
    "rpd_target d0 = target" "rpd_load d0 = load" "rpd_store d0 = store"
    by (auto simp: render_pass_new_Inr packed_pass_def color_attachments_def)
  with build_colors [OF d1] have 1: "packed_pass d1" "color_attachments d1 = ?first # as" "rpd_depth d1 = None"
    "rpd_area d1 = area" by auto
  note build_depth [OF d this(3)]
  with 1 have 2: "packed_pass d" "color_attachments d = ?first # as" "rpd_depth d = m" "rpd_area d = area"
    by (simp_all add: packed_pass_def color_attachments_def)
  from 2(2) have fields: "rpd_target d = target" "rpd_load d = load" "rpd_store d = store" by (auto simp: color_attachments_def)
  have "pass_ok t d" using 2 fields ok d0 d1 d
    by (simp add: pass_ok_def rebuild_pass_def build_pass_append attachment_ok_def)
  moreover have "ws = put_pass d @ ws'" using ws n 2 by (simp add: put_pass_def put_attachment_def)
  ultimately show "ws = put_pass d @ ws' \<and> pass_ok t d" by simp
next
  assume r: "ws = put_pass d @ ws' \<and> pass_ok t d"
  let ?as = "tl (color_attachments d)"
  from r obtain d0 d1 where d0: "render_pass_new (at_table t) (rpd_target d) (rpd_area d) (rpd_load d) (rpd_store d) = Inr d0"
    and d1: "build_pass (at_table t) d0 (map add_color ?as) = Inr d1"
    and d: "build_pass (at_table t) d1 (depth_steps (rpd_depth d)) = Inr d"
    by (auto simp: pass_ok_def rebuild_pass_def build_pass_append and_then_Inr_iff)
  have len: "length (color_attachments d) \<le> 8" "color_attachments d \<noteq> []"
    using color_attachments_packed [of d] r by (auto simp: pass_ok_def)
  have oks: "ref_ok texture_ref t (rpd_target d)" "load_op_ok (rpd_load d)" "list_all (attachment_ok t) ?as"
    using r by (auto simp: pass_ok_def attachment_ok_def color_attachments_def)
  have "get_more_colors t (length ?as) d0 (concat (map put_attachment ?as) @ put_depth_attachment (rpd_depth d) @ ws') =
      (Inr d1, put_depth_attachment (rpd_depth d) @ ws')"
    using assms oks(3) d1 by (subst get_more_colors_iff) (auto intro!: exI [of _ ?as])
  moreover have "get_depth_attachment t d1 (put_depth_attachment (rpd_depth d) @ ws') = (Inr d, ws')"
    using assms r d by (subst get_depth_attachment_iff) (auto simp: pass_ok_def)
  moreover have "concat (map put_attachment (color_attachments d)) = put_id (rpd_target d) @
      put_load_op (rpd_load d) @ put_tag store_op_tags (rpd_store d) @ concat (map put_attachment ?as)"
    by (subst color_attachments_Cons) (simp add: put_attachment_def)
  ultimately show "get_pass t ws = (Inr d, ws')"
    using r oks(1,2) len d0 by (simp add: get_pass_def put_pass_def codec_simps pass_ok_def usize_limit_def)
qed

section \<open>Barriers and commands\<close>

fun barrier_ok :: "abi_table \<Rightarrow> resource_barrier \<Rightarrow> bool" where
  "barrier_ok t GlobalBarrier \<longleftrightarrow> True"
| "barrier_ok t (BufferBarrier buffer _ _) \<longleftrightarrow> ref_ok buffer_ref t buffer"
| "barrier_ok t (TextureBarrier texture _ _) \<longleftrightarrow> ref_ok texture_ref t texture"
| "barrier_ok t (TextureMipBarrier texture _ _ _) \<longleftrightarrow> ref_ok texture_ref t texture"

lemma get_barrier_iff:
  assumes "\<not> at_legacy t"
  shows "get_barrier t ws = (Inr b, ws') \<longleftrightarrow> ws = put_barrier b @ ws' \<and> barrier_ok t b"
proof
  assume "get_barrier t ws = (Inr b, ws')"
  then show "ws = put_barrier b @ ws' \<and> barrier_ok t b"
    using assms by (auto simp: get_barrier_def then_do_Inr reading_inversion(1,2) buffer_r.get_iff texture_r.get_iff
        buffer_access.get_iff texture_access.get_iff u32.get_iff split: if_splits)
next
  assume "ws = put_barrier b @ ws' \<and> barrier_ok t b"
  then show "get_barrier t ws = (Inr b, ws')" using assms by (cases b) (auto simp: get_barrier_def codec_simps)
qed

text \<open>
  A command whose resources the table knows and whose values are ones their constructors accept;
  and a command whose slice, if it has one, lies at \<open>at\<close>.
\<close>

fun command_ok :: "abi_table \<Rightarrow> command \<Rightarrow> bool" where
  "command_ok t (WriteBuffer buffer _ _) \<longleftrightarrow> ref_ok buffer_ref t buffer"
| "command_ok t (WriteTexture texture w) \<longleftrightarrow>
     ref_ok texture_ref t texture \<and> rect_ok (tw_destination w) \<and> tw_bytes_per_row w \<noteq> 0"
| "command_ok t (CopyTextureToTexture source sr destination dr) \<longleftrightarrow>
     ref_ok texture_ref t source \<and> rect_ok sr \<and> ref_ok texture_ref t destination \<and> rect_ok dr"
| "command_ok t (BeginRenderPass d) \<longleftrightarrow> pass_ok t d"
| "command_ok t (SetPipeline v) \<longleftrightarrow> plain_ok render_pipeline_ref t v"
| "command_ok t (SetVertexBuffer buffer _) \<longleftrightarrow> ref_ok buffer_ref t buffer"
| "command_ok t (SetIndexBuffer buffer _ _) \<longleftrightarrow> ref_ok buffer_ref t buffer"
| "command_ok t (SetTexture v) \<longleftrightarrow> ref_ok texture_ref t v"
| "command_ok t (SetSampler v) \<longleftrightarrow> plain_ok sampler_ref t v"
| "command_ok t (SetUniforms u) \<longleftrightarrow> uniforms_ok u"
| "command_ok t (SetScissor r) \<longleftrightarrow> pred_option rect_ok r"
| "command_ok t (BlitTexture source _ destination _ sr dr _ _) \<longleftrightarrow>
     ref_ok texture_ref t source \<and> ref_ok texture_ref t destination \<and> rect_ok sr \<and> rect_ok dr"
| "command_ok t (CopyBufferToBuffer source _ destination _ _) \<longleftrightarrow>
     ref_ok buffer_ref t source \<and> ref_ok buffer_ref t destination"
| "command_ok t (SetProgrammablePipeline v) \<longleftrightarrow> program_id_ok programmable_pipeline_ref t v"
| "command_ok t (SetBindGroup _ g) \<longleftrightarrow> ref_ok bind_group_ref t g"
| "command_ok t (SetComputePipeline v) \<longleftrightarrow> program_id_ok compute_pipeline_ref t v"
| "command_ok t (ResourceBarrier b) \<longleftrightarrow> barrier_ok t b"
| "command_ok t (SetVertexBufferSlot _ buffer _) \<longleftrightarrow> ref_ok buffer_ref t buffer"
| "command_ok t (SetViewport v) \<longleftrightarrow> viewport_ok v"
| "command_ok t (SetPushConstants stages _ _) \<longleftrightarrow> flags_ok shader_stage_flags stages"
| "command_ok t _ \<longleftrightarrow> True"

fun placed :: "span_memory \<Rightarrow> usize \<Rightarrow> command \<Rightarrow> bool" where
  "placed span at (WriteBuffer _ _ data) \<longleftrightarrow> span_ok span at data"
| "placed span at (WriteTexture _ w) \<longleftrightarrow> span_ok span at (tw_data w)"
| "placed span at (SetPushConstants _ _ data) \<longleftrightarrow> span_ok span at data"
| "placed span at _ \<longleftrightarrow> True"

interpretation option_rect: canonical_codec "put_option put_rect" "get_option get_rect" "\<lambda>t. pred_option rect_ok"
  by (rule rect.option_canonical)

lemmas operand_reading = then_do_Inr reading_inversion(2) u32.get_iff i32.get_iff u64.get_iff bool.get_iff
  rect.get_iff option_rect.get_iff uniforms.get_iff viewport.get_iff shader_stages.get_iff
  index_format.get_iff filter_mode.get_iff texture_r.get_iff buffer_r.get_iff bind_group_r.get_iff
  compute_r.get_iff programmable_r.get_iff sampler_r.get_iff pipeline_r.get_iff get_pass_iff get_barrier_iff

definition decoded :: "span_memory \<Rightarrow> abi_table \<Rightarrow> u32 \<Rightarrow> u64 list \<Rightarrow> command \<Rightarrow> u64 list \<Rightarrow> bool" where
  "decoded span t opcode ws c ws' \<longleftrightarrow> (\<exists>at body. encode_body at c = (opcode, body) \<and> ws = body @ ws' \<and>
     command_ok t c \<and> placed span at c)"

lemma decode_resource_decoded:
  assumes "memory_spans span" "\<not> at_legacy t" "decode_resource_command span t opcode ws = (Inr c, ws')"
  shows "decoded span t opcode ws c ws'"
  using assms(3) unfolding decode_resource_command_def decoded_def
  by (simp add: operand_reading get_span_iff [OF assms(1,2)] assms(2) split: if_splits)
   (auto simp: texture_write_new_def with_mip_level_def with_array_layer_def and_then_Inr_iff split: if_splits)

lemma decode_into_decoded:
  assumes "memory_spans span" "\<not> at_legacy t" "decode_into span t opcode ws = (Inr c, ws')"
  shows "decoded span t opcode ws c ws'"
proof (cases "opcode \<in> {5, 29, 11, 12, 13, 14, 19, 20, 22, 25, 27, 28}")
  case True
  then show ?thesis using assms(3) unfolding decode_into_def decoded_def
    by (simp add: operand_reading assms(2) split: if_splits) auto
next
  case False
  then show ?thesis using assms by (auto simp: decode_into_def intro: decode_resource_decoded)
qed

lemma texture_write_eta [simp]:
  "w\<lparr>tw_mip := tw_mip w, tw_layer := tw_layer w\<rparr> = w"
  "\<lparr>tw_destination = tw_destination w, tw_bytes_per_row = tw_bytes_per_row w, tw_data = tw_data w,
    tw_mip = tw_mip w, tw_layer = tw_layer w\<rparr> = w"
  by (cases w, simp)+

lemma get_pass_put: "\<not> at_legacy t \<Longrightarrow> pass_ok t d \<Longrightarrow> get_pass t (put_pass d @ ws) = (Inr d, ws)"
  by (simp add: get_pass_iff)

lemma get_barrier_put: "\<not> at_legacy t \<Longrightarrow> barrier_ok t b \<Longrightarrow> get_barrier t (put_barrier b @ ws) = (Inr b, ws)"
  by (simp add: get_barrier_iff)

lemma get_span_put:
  "memory_spans span \<Longrightarrow> \<not> at_legacy t \<Longrightarrow> span_ok span at data \<Longrightarrow>
     get_span span t (put_span at data @ ws) = (Inr data, ws)"
  by (auto simp: get_span_iff)

lemma decode_into_encoded:
  assumes span: "memory_spans span" and current: "\<not> at_legacy t"
    and "decoded span t opcode ws c ws'"
  shows "decode_into span t opcode ws = (Inr c, ws')"
proof -
  from assms(3) obtain at body where "encode_body at c = (opcode, body)" "ws = body @ ws'"
    "command_ok t c" "placed span at c" by (auto simp: decoded_def)
  then show ?thesis using span current
    by (cases c; clarsimp simp: decode_into_def decode_resource_command_def codec_simps get_pass_put
        get_barrier_put get_span_put texture_write_new_def with_mip_level_def with_array_layer_def)
qed

lemma decode_into_iff:
  "memory_spans span \<Longrightarrow> \<not> at_legacy t \<Longrightarrow>
     decode_into span t opcode ws = (Inr c, ws') \<longleftrightarrow> decoded span t opcode ws c ws'"
  using decode_into_decoded decode_into_encoded by blast

section \<open>Records\<close>

lemma header_fields:
  "n < 2 ^ 32 \<Longrightarrow> unat (drop_bit 32 (ucast (opcode :: u32) OR push_bit 32 (of_nat n) :: u64)) = n"
  "ucast (ucast (opcode :: u32) OR push_bit 32 (of_nat n) :: u64) = opcode"
proof -
  have "drop_bit 32 (ucast opcode OR push_bit 32 (of_nat n) :: u64) = take_bit 32 (of_nat n)"
    by (auto simp: bit_eq_iff bit_simps dest: bit_imp_le_length)
  then show "n < 2 ^ 32 \<Longrightarrow> unat (drop_bit 32 (ucast opcode OR push_bit 32 (of_nat n) :: u64)) = n"
    by (simp add: unsigned_take_bit_eq unsigned_of_nat take_bit_nat_eq_self del: drop_bit_or)
  show "ucast (ucast opcode OR push_bit 32 (of_nat n) :: u64) = opcode"
    by (auto simp: bit_eq_iff bit_simps dest: bit_imp_le_length)
qed

lemma header_split: "ucast (ucast w :: u32) OR push_bit 32 (of_nat (unat (drop_bit 32 w))) = w" for w :: u64
proof (rule bit_word_eqI)
  show "bit (ucast (ucast w :: u32) OR push_bit 32 (of_nat (unat (drop_bit 32 w))) :: u64) n = bit w n"
    if "n < LENGTH(64)" for n
    using that by (cases "n < 32") (auto simp: bit_simps)
qed

lemma lengths [simp]:
  "length (put_u32 x) = 1" "length (put_u64 y) = 1" "length (put_usize n) = 1" "length (put_i32 x) = 1"
  "length (put_bool b) = 1" "length (put_f32 x) = 1" "length (put_tag tags v) = 1" "length (put_flags flags u) = 1"
  "length (put_rect r) = 4" "length (put_id i) = 2" "length (put_plain p) = 1" "length (put_span at data) = 2"
  by (simp_all add: put_u32_def put_u64_def put_usize_def put_i32_def put_bool_def put_f32_def put_tag_def
      put_flags_def put_rect_def put_id_def put_plain_def put_span_def)

lemma length_put_floats: "length (put_floats fs) = (length fs + 1) div 2"
  by (induction fs rule: put_floats.induct) (simp_all add: put_floats.simps)

lemma length_put_color [simp]: "length (put_color c) = 2"
  by (simp add: put_color_def length_put_floats color_components_def)

lemma length_load_ops: "length (put_load_op l) \<le> 3" "length (put_depth_load_op k) \<le> 3"
  by (cases l; cases k; simp)+

lemma length_attachments: "length (concat (map put_attachment as)) \<le> 6 * length as"
proof (induction as)
  case (Cons a as)
  then show ?case using length_load_ops(1) [of "ca_load a"] by (simp add: put_attachment_def)
qed simp

lemma length_pass:
  assumes "pass_ok t d"
  shows "length (put_pass d) \<le> 61"
proof -
  have "length (color_attachments d) \<le> 8" using assms color_attachments_packed by (simp add: pass_ok_def)
  moreover have "length (put_depth_attachment (rpd_depth d)) \<le> 8"
    using length_load_ops(2) by (cases "rpd_depth d") (simp_all add: put_depth_attachment_def)
  ultimately show ?thesis using length_attachments [of "color_attachments d"] by (simp add: put_pass_def)
qed

lemma encode_short:
  assumes "command_ok t c"
  shows "length (encode at c) \<le> MAX_WORDS"
proof (cases c)
  case (BeginRenderPass d)
  then show ?thesis using assms length_pass [of t d] by (simp add: encode_def)
next
  case (ResourceBarrier b)
  then show ?thesis by (cases b) (simp_all add: encode_def)
next
  case (SetScissor r)
  then show ?thesis by (cases r) (simp_all add: encode_def put_option_def)
qed (use assms in \<open>simp_all add: encode_def put_uniforms_def put_transform_def put_viewport_def
    length_put_floats uniforms_ok_def matrix_ok_def viewport_components_def\<close>)

lemma read_record_iff:
  assumes span: "memory_spans span" and current: "\<not> at_legacy t"
  shows "read_record span t ws = (Inr c, ws') \<longleftrightarrow>
     (\<exists>at. ws = encode at c @ ws' \<and> command_ok t c \<and> placed span at c)" (is "?l \<longleftrightarrow> ?r")
proof
  assume ?l
  then obtain header fields where ws: "ws = header # fields @ ws'"
    and n: "unat (drop_bit 32 header) \<noteq> 0" "length fields = unat (drop_bit 32 header) - 1"
    and result: "(case decode_into span t (ucast header) fields of (result, rest) \<Rightarrow>
      and_then result (\<lambda>c. and_then (reader_end rest) (\<lambda>_. Inr c))) = Inr c"
    by (auto simp: read_record_def then_do_Inr reading_inversion(1,3) Let_def split: if_splits)
  from result have c: "decode_into span t (ucast header) fields = (Inr c, [])"
    by (auto simp: and_then_Inr_iff reading_inversion(4) split: prod.splits)
  then obtain at where body: "encode_body at c = (ucast header, fields)" and ok: "command_ok t c" "placed span at c"
    using decode_into_decoded [OF span current c] by (auto simp: decoded_def)
  have "encode at c = header # fields" using body n header_split [of header] by (simp add: encode_def)
  with ws ok show ?r by (intro exI [of _ at]) simp
next
  assume ?r
  then obtain at where ws: "ws = encode at c @ ws'" and ok: "command_ok t c" "placed span at c" by blast
  obtain opcode body where body: "encode_body at c = (opcode, body)" by (rule prod.exhaust)
  with encode_short [OF ok(1), of at] have len: "length body + 1 \<le> MAX_WORDS" by (simp add: encode_def)
  have "decode_into span t opcode body = (Inr c, [])"
    using body ok by (intro decode_into_encoded [OF span current]) (auto simp: decoded_def)
  moreover have "unat (drop_bit 32 (ucast opcode OR push_bit 32 (of_nat (length body + 1)) :: u64)) = length body + 1"
    using len by (intro header_fields(1)) simp
  ultimately show ?l
    using ws body len header_fields(2) [of opcode "length body + 1"]
    by (simp add: read_record_def encode_def Let_def del: drop_bit_or of_nat_add)
qed

section \<open>Streams\<close>

definition encode_all :: "usize list \<Rightarrow> command list \<Rightarrow> u64 list" where
  "encode_all ats cs = concat (map2 encode ats cs)"

lemma collect_Nil: "collect_commands span t (0, ws) = Inr cs \<longleftrightarrow> ws = [] \<and> cs = []"
  by (subst collect_commands.simps) (auto simp: command_iter_next_def read_next_def reader_end_def)

lemma collect_Suc:
  "collect_commands span t (Suc n, ws) = Inr cs \<longleftrightarrow>
     (\<exists>c rest cs'. read_record span t ws = (Inr c, rest) \<and> collect_commands span t (n, rest) = Inr cs' \<and> cs = c # cs')"
  by (subst collect_commands.simps)
    (auto simp: command_iter_next_def read_next_def reads_def then_do_def and_then_Inr_iff
      split: prod.splits sum.splits)

lemma collect_iff:
  assumes span: "memory_spans span" and current: "\<not> at_legacy t"
  shows "collect_commands span t (n, ws) = Inr cs \<longleftrightarrow>
     length cs = n \<and> list_all (command_ok t) cs \<and> (\<exists>ats. list_all2 (placed span) ats cs \<and> ws = encode_all ats cs)"
proof (induction n arbitrary: ws cs)
  case (Suc n)
  show ?case (is "?l \<longleftrightarrow> ?r")
  proof
    assume ?l
    then obtain c rest cs' where "read_record span t ws = (Inr c, rest)"
      "collect_commands span t (n, rest) = Inr cs'" and cs: "cs = c # cs'" by (auto simp: collect_Suc)
    then obtain at where "ws = encode at c @ rest" "command_ok t c" "placed span at c"
      using read_record_iff [OF span current] by auto
    moreover obtain ats where "length cs' = n" "list_all (command_ok t) cs'" "list_all2 (placed span) ats cs'"
      "rest = encode_all ats cs'"
      using \<open>collect_commands span t (n, rest) = Inr cs'\<close> unfolding Suc.IH by auto
    ultimately show ?r by (intro conjI exI [of _ "at # ats"]) (simp_all add: encode_all_def cs)
  next
    assume r: ?r
    then obtain c cs' where cs: "cs = c # cs'" by (cases cs) auto
    from r obtain at ats where "ws = encode at c @ encode_all ats cs'" "placed span at c" "list_all2 (placed span) ats cs'"
      by (auto simp: cs encode_all_def list_all2_Cons2)
    moreover from this have "read_record span t ws = (Inr c, encode_all ats cs')"
      using r cs read_record_iff [OF span current] by auto
    ultimately show ?l using r cs Suc.IH by (auto simp: collect_Suc)
  qed
qed (auto simp: collect_Nil encode_all_def)

text \<open>Recording commands one by one, each with the address of its slice.\<close>

definition record_commands :: "usize list \<Rightarrow> command list \<Rightarrow> abi_storage" where
  "record_commands ats cs = fold (\<lambda>(at, c). storage_push at c) (zip ats cs) storage_new"

lemma record_commands_eq:
  "length ats = length cs \<Longrightarrow> record_commands ats cs = \<lparr>st_words = encode_all ats cs, st_count = length cs\<rparr>"
proof (induction ats cs rule: rev_induct2)
  case (4 at ats c cs)
  then show ?case by (simp add: record_commands_def encode_all_def storage_push_def)
qed (simp_all add: record_commands_def encode_all_def storage_new_def)

lemma storage_decoded_iff:
  assumes "memory_spans span" and "\<not> at_legacy t"
  shows "storage_decoded span t s = Inr cs \<longleftrightarrow>
     list_all (command_ok t) cs \<and> (\<exists>ats. list_all2 (placed span) ats cs \<and> record_commands ats cs = s)"
  unfolding storage_decoded_def collect_iff [OF assms]
  by (cases s) (auto simp: record_commands_eq dest: list_all2_lengthD intro!: exI)

section \<open>Preflight\<close>

lemma opcode_compute:
  "encode_body at c = (opcode, body) \<Longrightarrow>
     1 \<le> opcode \<and> opcode \<le> 29 \<and> (19 \<le> opcode \<and> opcode \<le> 22 \<longleftrightarrow> is_compute_command c)"
  by (cases c) (auto simp: word_le_nat_alt)

lemma scan_records_encoded:
  "list_all2 (\<lambda>at c. length (encode at c) \<le> MAX_WORDS) ats cs \<Longrightarrow>
     scan_records (length cs) (encode_all ats cs @ ws) found = (Inr (found \<or> list_ex is_compute_command cs), ws)"
proof (induction ats cs arbitrary: found rule: list_all2_induct)
  case (Cons at ats c cs)
  obtain opcode body where body: "encode_body at c = (opcode, body)" by (rule prod.exhaust)
  with Cons have len: "length body + 1 \<le> MAX_WORDS" by (simp add: encode_def)
  have "unat (drop_bit 32 (ucast opcode OR push_bit 32 (of_nat (length body + 1)) :: u64)) = length body + 1"
    using len by (intro header_fields(1)) simp
  then show ?case
    using Cons body len opcode_compute [OF body] header_fields(2) [of opcode "length body + 1"]
    by (simp add: encode_all_def encode_def Let_def del: drop_bit_or of_nat_add)
qed (simp add: encode_all_def)

end
