(* ===== verification/Abi_Streams.thy ===== *)
theory Abi_Streams
  imports Abi_Commands_Laws
begin

text \<open>
  What the word stream of commands promises: it is read back as recorded and nothing else can be
  read from it, it means the same commands in a backend's mirrored table, and its headers alone
  answer the compute preflight.
\<close>

section \<open>The same stream in another table\<close>

text \<open>
  A mirror holds the same definitions in the same slots under a number of its own. The command it
  reads names its own table.
\<close>

definition owned_by :: "usize \<Rightarrow> res_id \<Rightarrow> res_id" where
  "owned_by owner i = i\<lparr>id_owner := owner\<rparr>"

definition plain_owned_by :: "usize \<Rightarrow> plain_id \<Rightarrow> plain_id" where
  "plain_owned_by owner i = i\<lparr>pid_owner := owner\<rparr>"

definition attachment_owned_by :: "usize \<Rightarrow> color_attachment \<Rightarrow> color_attachment" where
  "attachment_owned_by owner a = a\<lparr>ca_target := owned_by owner (ca_target a)\<rparr>"

definition pass_owned_by :: "usize \<Rightarrow> render_pass_desc \<Rightarrow> render_pass_desc" where
  "pass_owned_by owner d = d\<lparr>rpd_target := owned_by owner (rpd_target d),
     rpd_depth := map_option (\<lambda>a. a\<lparr>da_target := owned_by owner (da_target a)\<rparr>) (rpd_depth d),
     rpd_extra := map (map_option (attachment_owned_by owner)) (rpd_extra d)\<rparr>"

fun barrier_owned_by :: "usize \<Rightarrow> resource_barrier \<Rightarrow> resource_barrier" where
  "barrier_owned_by owner GlobalBarrier = GlobalBarrier"
| "barrier_owned_by owner (BufferBarrier b x y) = BufferBarrier (owned_by owner b) x y"
| "barrier_owned_by owner (TextureBarrier i x y) = TextureBarrier (owned_by owner i) x y"
| "barrier_owned_by owner (TextureMipBarrier i l x y) = TextureMipBarrier (owned_by owner i) l x y"

fun command_owned_by :: "usize \<Rightarrow> command \<Rightarrow> command" where
  "command_owned_by o' (WriteBuffer b off data) = WriteBuffer (owned_by o' b) off data"
| "command_owned_by o' (WriteTexture x w) = WriteTexture (owned_by o' x) w"
| "command_owned_by o' (CopyTextureToTexture s sr d dr) = CopyTextureToTexture (owned_by o' s) sr (owned_by o' d) dr"
| "command_owned_by o' (BeginRenderPass d) = BeginRenderPass (pass_owned_by o' d)"
| "command_owned_by o' (SetPipeline v) = SetPipeline (plain_owned_by o' v)"
| "command_owned_by o' (SetVertexBuffer b off) = SetVertexBuffer (owned_by o' b) off"
| "command_owned_by o' (SetIndexBuffer b off f) = SetIndexBuffer (owned_by o' b) off f"
| "command_owned_by o' (SetTexture v) = SetTexture (owned_by o' v)"
| "command_owned_by o' (SetSampler v) = SetSampler (plain_owned_by o' v)"
| "command_owned_by o' (BlitTexture s sm d dm sr dr f fl) = BlitTexture (owned_by o' s) sm (owned_by o' d) dm sr dr f fl"
| "command_owned_by o' (CopyBufferToBuffer s so d doff n) = CopyBufferToBuffer (owned_by o' s) so (owned_by o' d) doff n"
| "command_owned_by o' (SetProgrammablePipeline v) = SetProgrammablePipeline (owned_by o' v)"
| "command_owned_by o' (SetBindGroup i g) = SetBindGroup i (owned_by o' g)"
| "command_owned_by o' (SetComputePipeline v) = SetComputePipeline (owned_by o' v)"
| "command_owned_by o' (ResourceBarrier b) = ResourceBarrier (barrier_owned_by o' b)"
| "command_owned_by o' (SetVertexBufferSlot sl b off) = SetVertexBufferSlot sl (owned_by o' b) off"
| "command_owned_by o' c = c"

lemma put_owned [simp]:
  "put_id (owned_by owner i) = put_id i" "put_plain (plain_owned_by owner p) = put_plain p"
  "put_barrier (barrier_owned_by owner b) = put_barrier b"
  by (cases b; simp add: put_id_def put_plain_def owned_by_def plain_owned_by_def)+

lemma map_filter_map_option: "List.map_filter id (map (map_option f) xs) = map f (List.map_filter id xs)"
  by (induction xs) (auto simp: map_filter_simps split: option.splits)

lemma color_attachments_owned:
  "color_attachments (pass_owned_by owner d) = map (attachment_owned_by owner) (color_attachments d)"
  by (simp add: color_attachments_def pass_owned_by_def map_filter_map_option attachment_owned_by_def)

lemma put_pass_owned [simp]: "put_pass (pass_owned_by owner d) = put_pass d"
proof -
  have "put_attachment \<circ> attachment_owned_by owner = put_attachment"
    by (simp add: put_attachment_def attachment_owned_by_def fun_eq_iff)
  moreover have "put_depth_attachment (rpd_depth (pass_owned_by owner d)) = put_depth_attachment (rpd_depth d)"
    by (cases "rpd_depth d") (simp_all add: put_depth_attachment_def pass_owned_by_def)
  moreover have "rpd_area (pass_owned_by owner d) = rpd_area d" by (simp add: pass_owned_by_def)
  ultimately show ?thesis by (simp add: put_pass_def color_attachments_owned)
qed

lemma encode_owned [simp]: "encode at (command_owned_by owner c) = encode at c"
  by (cases c) (simp_all add: encode_def)

lemma placed_owned [simp]: "placed span at (command_owned_by owner c) = placed span at c"
  by (cases c) simp_all

lemma encode_all_owned [simp]: "encode_all ats (map (command_owned_by owner) cs) = encode_all ats cs"
  by (simp add: encode_all_def zip_map2 comp_def case_prod_unfold)

section \<open>Draining the iterator\<close>

text \<open>What \<open>k\<close> calls of the iterator yield, up to its first \<open>None\<close>; and whether it has ended by then.\<close>

fun drain :: "span_memory \<Rightarrow> abi_table \<Rightarrow> nat \<Rightarrow> nat \<times> u64 list \<Rightarrow> command ir_result list \<times> bool" where
  "drain span t 0 s = ([], False)"
| "drain span t (Suc k) s =
     (case command_iter_next span t s of
        (None, s') \<Rightarrow> ([], True)
      | (Some item, s') \<Rightarrow> (case drain span t k s' of (items, ended) \<Rightarrow> (item # items, ended)))"

fun errors_end :: "command ir_result list \<Rightarrow> bool" where
  "errors_end [] \<longleftrightarrow> True"
| "errors_end (Inr c # items) \<longleftrightarrow> errors_end items"
| "errors_end (Inl e # items) \<longleftrightarrow> items = []"

lemma iter_next_cases:
  obtains (finished) "n = 0" "ws = []" "command_iter_next span t (n, ws) = (None, 0, [])"
    | (failed) e where "command_iter_next span t (n, ws) = (Some (Inl e), 0, [])"
    | (command) c ws' where "0 < n" "command_iter_next span t (n, ws) = (Some (Inr c), n - 1, ws')"
proof (cases "n = 0")
  case True
  then show ?thesis
    by (cases ws) (auto simp: command_iter_next_def read_next_def intro: finished failed)
next
  case False
  obtain r ws' where "read_record span t ws = (r, ws')" by (rule prod.exhaust)
  with False show ?thesis
    by (cases r) (auto simp: command_iter_next_def read_next_def intro: failed command)
qed

lemma drain_ends:
  "n + 2 \<le> k \<Longrightarrow> snd (drain span t k (n, ws)) \<and> length (fst (drain span t k (n, ws))) \<le> n + 1 \<and>
     errors_end (fst (drain span t k (n, ws)))"
proof (induction k arbitrary: n ws)
  case (Suc k)
  show ?case
  proof (cases rule: iter_next_cases [of n ws span t])
    case (failed e)
    obtain k' where "k = Suc k'" using Suc.prems by (cases k) auto
    then have "drain span t k (0, []) = ([], True)" by (simp add: command_iter_next_def read_next_def)
    with failed show ?thesis by simp
  next
    case (command c ws')
    with Suc.IH [of "n - 1" ws'] Suc.prems show ?thesis by (auto split: prod.splits)
  qed simp
qed simp

section \<open>Properties\<close>

text \<open>
  C34. The words of a recording are exactly the streams the reader accepts: decoding a storage gives
  the commands \<open>cs\<close> precisely when the storage is what recording \<open>cs\<close> one by one produces, with
  every resource known to the table, every value accepted by its constructor and every upload slice
  where its record says. So a recording is read back unchanged, and whatever arbitrary words the
  reader accepts are well-formed commands in the encoder's own encoding.
\<close>

theorem streams_are_exactly_recordings:
  assumes "memory_spans span" and "\<not> at_legacy t"
  shows "storage_decoded span t s = Inr cs \<longleftrightarrow>
    list_all (command_ok t) cs \<and> (\<exists>ats. list_all2 (placed span) ats cs \<and> record_commands ats cs = s)"
  unfolding storage_decoded_def collect_iff [OF assms]
  by (cases s) (auto simp: record_commands_eq dest: list_all2_lengthD intro!: exI)

definition example_buffer :: res_id where
  "example_buffer = \<lparr>id_owner = 1, id_index = 0, id_generation = 0\<rparr>"

definition example_abi_table :: "usize \<Rightarrow> abi_table" where
  "example_abi_table number = \<lparr>at_table = snd (define_buffer True \<lparr>buf_size = 16, buf_usage = BUF_COPY_DST\<rparr> (table_new number)),
     at_legacy = False\<rparr>"

definition example_commands :: "command list" where
  "example_commands = [WriteBuffer example_buffer 4 [7, 7], BeginComputePass, Dispatch 1 2 3, EndComputePass]"

lemma example_ok:
  "list_all (command_ok (example_abi_table 1)) example_commands"
  "list_all (command_ok (example_abi_table 9)) (map (command_owned_by 9) example_commands)"
  "list_all2 (placed (\<lambda>at len. replicate len 7)) [4096, 0, 0, 0] example_commands"
  "memory_spans (\<lambda>at len. replicate len 7)" "\<not> at_legacy (example_abi_table number)"
  "rt_id (at_table (example_abi_table number)) = number"
  by (simp_all add: example_commands_def example_buffer_def example_abi_table_def ref_ok_def id_ok_def buffer_ref_def
      define_buffer_def in_category_def store_define_def slots_define_def slots_new_def table_new_def
      slots_validate_def get_def span_ok_def memory_spans_def usize_limit_def owned_by_def)

theorem streams_are_exactly_recordings_witness:
  "storage_decoded (\<lambda>at len. replicate len 7) (example_abi_table 1)
     (record_commands [4096, 0, 0, 0] example_commands) = Inr example_commands"
  using streams_are_exactly_recordings [OF example_ok(4,5)] example_ok(1,3) by blast

text \<open>
  C35. A recording crosses to a backend's mirror: read under another table that knows the same
  slots, it gives the recorded commands with every identity owned by that table.
\<close>

theorem streams_cross_to_mirrors:
  assumes "memory_spans span" and "\<not> at_legacy mirror" and "list_all2 (placed span) ats cs"
    and "list_all (command_ok mirror) (map (command_owned_by (rt_id (at_table mirror))) cs)"
  shows "storage_decoded span mirror (record_commands ats cs) =
    Inr (map (command_owned_by (rt_id (at_table mirror))) cs)"
proof -
  let ?cs = "map (command_owned_by (rt_id (at_table mirror))) cs"
  have "length ats = length cs" using assms(3) by (rule list_all2_lengthD)
  then have "record_commands ats ?cs = record_commands ats cs" by (simp add: record_commands_eq)
  moreover have "list_all2 (placed span) ats ?cs" using assms(3) by (simp add: list_all2_conv_all_nth)
  ultimately show ?thesis using assms by (simp add: storage_decoded_iff) blast
qed

theorem streams_cross_to_mirrors_witness:
  "storage_decoded (\<lambda>at len. replicate len 7) (example_abi_table 9)
     (record_commands [4096, 0, 0, 0] example_commands) = Inr (map (command_owned_by 9) example_commands)"
  using streams_cross_to_mirrors [OF example_ok(4,5) example_ok(3), of 9] example_ok(2) by (simp add: example_ok(6))

text \<open>
  C36. Every well-formed command fits the 64 words that storage reserves for it and readers allow,
  whatever its pass has attached. So the preflight that looks at record headers only succeeds on
  every recording of such commands, and tells whether one of them belongs to a compute pass, as the
  check of a native recording does.
\<close>

theorem scan_compute_agrees:
  assumes "list_all (command_ok t) cs" and "length ats = length cs"
  shows "list_all2 (\<lambda>at c. length (encode at c) \<le> MAX_WORDS) ats cs \<and>
    scan_compute (st_words (record_commands ats cs)) (st_count (record_commands ats cs)) =
      Inr (list_ex is_compute_command cs)"
proof -
  have fit: "list_all2 (\<lambda>at c. length (encode at c) \<le> MAX_WORDS) ats cs"
    using assms by (auto simp: list_all2_conv_all_nth list_all_length intro: encode_short)
  with scan_records_encoded [OF fit, of "[]" False] assms(2) show ?thesis
    by (simp add: record_commands_eq scan_compute_def)
qed

theorem scan_compute_agrees_witness:
  "scan_compute (st_words (record_commands [4096, 0, 0, 0] example_commands))
     (st_count (record_commands [4096, 0, 0, 0] example_commands)) = Inr True"
  using scan_compute_agrees [OF example_ok(1), of "[4096, 0, 0, 0]"] by (simp add: example_commands_def)

text \<open>
  C37. Iterating over arbitrary words ends: a stream announced to hold \<open>n\<close> commands yields at most
  \<open>n + 1\<close> items, of which only the last can be an error, and then \<open>None\<close>, whatever the words are.
\<close>

theorem iteration_ends:
  "snd (drain span t (n + 2) (n, ws)) \<and> length (fst (drain span t (n + 2) (n, ws))) \<le> n + 1 \<and>
     errors_end (fst (drain span t (n + 2) (n, ws)))"
  by (rule drain_ends) simp

end
