(* ===== verification/Abi_Mirror.thy ===== *)
theory Abi_Mirror
  imports Abi_Snapshot Abi_Streams
begin

text \<open>
  The consumer's side of the exchange. A mirror holds what the source held at its last snapshot,
  under its own number; applying the next snapshot of a table that moved forward brings the mirror to
  the table's present state, and the scan that precedes it names the identities the mirror must let
  go of.
\<close>

section \<open>Descriptors in a mirror\<close>

fun resource_owned_by :: "usize \<Rightarrow> binding_resource \<Rightarrow> binding_resource" where
  "resource_owned_by n (BufferBinding b off len) = BufferBinding (owned_by n b) off len"
| "resource_owned_by n (TextureBinding i) = TextureBinding (owned_by n i)"
| "resource_owned_by n (TextureViewBinding i v) = TextureViewBinding (owned_by n i) v"
| "resource_owned_by n (SamplerResource i) = SamplerResource (plain_owned_by n i)"

definition entry_owned_by :: "usize \<Rightarrow> shader_entry_point \<Rightarrow> shader_entry_point" where
  "entry_owned_by n e = e\<lparr>se_module := owned_by n (se_module e)\<rparr>"

definition group_owned_by :: "usize \<Rightarrow> bind_group_desc \<Rightarrow> bind_group_desc" where
  "group_owned_by n g = g\<lparr>bg_entries := map (\<lambda>e. e\<lparr>be_resource := resource_owned_by n (be_resource e)\<rparr>) (bg_entries g)\<rparr>"

definition compute_owned_by :: "usize \<Rightarrow> compute_pipeline \<Rightarrow> compute_pipeline" where
  "compute_owned_by n p = p\<lparr>cp_shader := entry_owned_by n (cp_shader p)\<rparr>"

definition programmable_owned_by :: "usize \<Rightarrow> programmable_pipeline \<Rightarrow> programmable_pipeline" where
  "programmable_owned_by n p = p\<lparr>pp_vertex := entry_owned_by n (pp_vertex p), pp_fragment := entry_owned_by n (pp_fragment p)\<rparr>"

definition slot_owned :: "('d \<Rightarrow> 'd) \<Rightarrow> 'd slot \<Rightarrow> 'd slot" where
  "slot_owned f s = s\<lparr>slot_desc := map_option f (slot_desc s)\<rparr>"

text \<open>The rows of a mirror numbered \<open>n\<close>: those of the source, with identities owned by \<open>n\<close>.\<close>

definition mirrors :: "resource_table \<Rightarrow> resource_table \<Rightarrow> bool" where
  "mirrors m s \<longleftrightarrow> (let n = rt_id m in
     map slot_view (sl_slots (rt_textures m)) = map slot_view (sl_slots (rt_textures s)) \<and>
     map slot_view (sl_slots (rt_buffers m)) = map slot_view (sl_slots (rt_buffers s)) \<and>
     rt_samplers m = rt_samplers s \<and> rt_pipelines m = rt_pipelines s \<and>
     map slot_view (sl_slots (rt_shaders m)) = map slot_view (sl_slots (rt_shaders s)) \<and>
     map slot_view (sl_slots (rt_bind_groups m)) =
       map slot_view (map (slot_owned (group_owned_by n)) (sl_slots (rt_bind_groups s))) \<and>
     map slot_view (sl_slots (rt_compute m)) =
       map slot_view (map (slot_owned (compute_owned_by n)) (sl_slots (rt_compute s))) \<and>
     map slot_view (sl_slots (rt_programmable m)) =
       map slot_view (map (slot_owned (programmable_owned_by n)) (sl_slots (rt_programmable s))))"

text \<open>What a mirror keeps besides its table: the words of the rows it has.\<close>

definition caches_coherent :: "abi_state \<Rightarrow> bool" where
  "caches_coherent m \<longleftrightarrow>
     coherent put_texture_desc (ar_textures (ab_accepted m)) (sl_slots (rt_textures (ab_table m))) \<and>
     coherent put_buffer_desc (ar_buffers (ab_accepted m)) (sl_slots (rt_buffers (ab_table m))) \<and>
     coherent put_shader_module (ar_shaders (ab_accepted m)) (sl_slots (rt_shaders (ab_table m))) \<and>
     coherent put_bind_group (ar_bind_groups (ab_accepted m)) (sl_slots (rt_bind_groups (ab_table m))) \<and>
     coherent put_compute_pipeline (ar_compute (ab_accepted m)) (sl_slots (rt_compute (ab_table m))) \<and>
     coherent put_programmable_pipeline (ar_programmable (ab_accepted m)) (sl_slots (rt_programmable (ab_table m)))"

definition in_step :: "abi_state \<Rightarrow> resource_table \<Rightarrow> bool" where
  "in_step m s \<longleftrightarrow> mirrors (ab_table m) s \<and> caches_coherent m"

text \<open>
  What a source must hold for its rows to be readable: descriptors that their constructors accept,
  no texture whose dimension its row cannot say, and no bind group with a view of a texture that was
  released; and rows whose length fits a word.
\<close>

definition live_all :: "('d \<Rightarrow> bool) \<Rightarrow> 'd slots \<Rightarrow> bool" where
  "live_all P c \<longleftrightarrow> list_all (\<lambda>s. pred_option P (slot_desc s)) (sl_slots c)"

definition rows_fit :: "('a \<Rightarrow> u64 list) \<Rightarrow> 'a list \<Rightarrow> bool" where
  "rows_fit put items \<longleftrightarrow> list_all (\<lambda>x. length (put x) < usize_limit) items"

definition transferable :: "resource_table \<Rightarrow> bool" where
  "transferable s \<longleftrightarrow> (let t = \<lparr>at_table = s, at_legacy = False\<rparr> in
     live_all texture_survives (rt_textures s) \<and> live_all buffer_accepted (rt_buffers s) \<and>
     list_all sampler_accepted (rt_samplers s) \<and> list_all pipeline_accepted (rt_pipelines s) \<and>
     live_all module_accepted (rt_shaders s) \<and> live_all (group_known t) (rt_bind_groups s) \<and>
     live_all (compute_accepted t) (rt_compute s) \<and> live_all (programmable_accepted t) (rt_programmable s) \<and>
     rows_fit (put_slot put_texture_desc) (sl_slots (rt_textures s)) \<and>
     rows_fit (put_slot put_buffer_desc) (sl_slots (rt_buffers s)) \<and>
     rows_fit put_sampler_desc (rt_samplers s) \<and> rows_fit put_render_pipeline (rt_pipelines s) \<and>
     rows_fit (put_slot put_shader_module) (sl_slots (rt_shaders s)) \<and>
     rows_fit (put_slot put_bind_group) (sl_slots (rt_bind_groups s)) \<and>
     rows_fit (put_slot put_compute_pipeline) (sl_slots (rt_compute s)) \<and>
     rows_fit (put_slot put_programmable_pipeline) (sl_slots (rt_programmable s)))"

section \<open>The words do not name the owner\<close>

lemma put_entry_owned [simp]: "put_entry_point (entry_owned_by n e) = put_entry_point e"
  by (simp add: put_entry_point_def entry_owned_by_def)

lemma put_resource_owned [simp]: "put_resource (resource_owned_by n r) = put_resource r"
  by (cases r) simp_all

lemma put_group_owned [simp]: "put_bind_group (group_owned_by n g) = put_bind_group g"
proof -
  have "put_group_entry \<circ> (\<lambda>e. e\<lparr>be_resource := resource_owned_by n (be_resource e)\<rparr>) = put_group_entry"
    by (simp add: fun_eq_iff put_group_entry_def)
  then show ?thesis by (simp add: put_bind_group_def group_owned_by_def put_list_def)
qed

lemma put_compute_owned [simp]: "put_compute_pipeline (compute_owned_by n p) = put_compute_pipeline p"
  by (simp add: put_compute_pipeline_def compute_owned_by_def)

lemma put_programmable_owned [simp]: "put_programmable_pipeline (programmable_owned_by n p) = put_programmable_pipeline p"
proof -
  have "color_targets (programmable_owned_by n p) = color_targets p"
    by (cases p) (simp add: color_targets_def programmable_owned_by_def split: sum.split)
  then show ?thesis by (simp add: put_programmable_pipeline_def) (simp add: programmable_owned_by_def)
qed

lemma put_slot_owned:
  "(\<And>d. put (f d) = put d) \<Longrightarrow> put_slot put (slot_owned f s) = put_slot put s"
  by (cases "slot_desc s") (simp_all add: put_slot_def slot_owned_def put_option_def)

lemma put_rows_owned:
  assumes "\<And>d. put (f d) = put d"
  shows "put_rows (put_slot put) (map (slot_owned f) ss) = put_rows (put_slot put) ss"
  by (simp add: put_rows_def comp_def put_slot_owned [of put f, OF assms])

lemma later_slots_owned: "later_slots a b \<Longrightarrow> later_slots (map (slot_owned f) a) (map (slot_owned f) b)"
  by (auto simp: later_slots_def later_slot_def slot_owned_def slot_active_def)

section \<open>What the source knows, the mirror knows\<close>

lemma lookup_mirrored:
  assumes "map slot_view (sl_slots c) = map slot_view (sl_slots c')" and "id_owner i = owner'"
  shows "store_lookup owner c (owned_by owner i) = store_lookup owner' c' i"
proof (rule option_eqI)
  fix d
  have len: "length (sl_slots c) = length (sl_slots c')" using assms(1) by (rule map_eq_imp_length_eq)
  have "slot_view (sl_slots c ! k) = slot_view (sl_slots c' ! k)" if "k < length (sl_slots c')" for k
    using assms(1) that len by (metis nth_map)
  then show "store_lookup owner c (owned_by owner i) = Some d \<longleftrightarrow> store_lookup owner' c' i = Some d"
    using assms(2) len by (auto simp: store_lookup_Some owned_by_def slot_view_eq)
qed

lemma id_mirrored:
  "id_ok t i \<Longrightarrow> id_ok t' (owned_by (rt_id (at_table t')) i)"
  by (simp add: id_ok_def owned_by_def)

lemma sampler_mirrored:
  assumes "plain_ok sampler_ref t i" and "rt_samplers (at_table t') = rt_samplers (at_table t)"
  shows "plain_ok sampler_ref t' (plain_owned_by (rt_id (at_table t')) i)"
  using assms by (auto simp: plain_ok_def is_ok_Inr sampler_ref_def validate_plain_def plain_owned_by_def split: if_splits)

lemma module_mirrored:
  assumes "program_id_ok shader_module_ref t i" and "\<not> at_legacy t'"
    and "map slot_view (sl_slots (rt_shaders (at_table t'))) = map slot_view (sl_slots (rt_shaders (at_table t)))"
  shows "program_id_ok shader_module_ref t' (owned_by (rt_id (at_table t')) i)"
    and "live_shader (at_table t') (owned_by (rt_id (at_table t')) i) = live_shader (at_table t) i"
proof -
  have i: "id_ok t i" "is_ok (shader_module_ref (at_table t) i)" using assms(1) by (simp_all add: program_id_ok_def)
  then have "id_owner i = rt_id (at_table t)" by (simp add: id_ok_def)
  from lookup_mirrored [OF assms(3) this]
  show live: "live_shader (at_table t') (owned_by (rt_id (at_table t')) i) = live_shader (at_table t) i" .
  with i assms(2) id_mirrored [of t i t'] show "program_id_ok shader_module_ref t' (owned_by (rt_id (at_table t')) i)"
    by (auto simp: program_id_ok_def is_ok_Inr ref_iff)
qed

lemma entry_mirrored:
  assumes "entry_accepted t e" and "\<not> at_legacy t'"
    and "map slot_view (sl_slots (rt_shaders (at_table t'))) = map slot_view (sl_slots (rt_shaders (at_table t)))"
  shows "entry_accepted t' (entry_owned_by (rt_id (at_table t')) e)"
proof -
  have i: "program_id_ok shader_module_ref t (se_module e)" using assms(1) by (simp add: entry_accepted_def)
  note module = module_mirrored [OF i assms(2,3)]
  obtain d where "live_shader (at_table t) (se_module e) = Some d" "has_entry_point d (se_stage e) (se_entry_point e)"
    using assms(1) by (auto simp: entry_accepted_def shader_entry_point_new_def and_then_Inr_iff table_iff split: if_splits)
  with module(2) have "shader_entry_point_new (at_table t') (owned_by (rt_id (at_table t')) (se_module e)) (se_stage e)
      (se_entry_point e) = Inr (entry_owned_by (rt_id (at_table t')) e)"
    by (auto simp: shader_entry_point_new_def and_then_Inr_iff table_iff entry_owned_by_def)
  with assms(1) module(1) show ?thesis by (simp add: entry_accepted_def entry_owned_by_def)
qed

lemma group_mirrored:
  assumes "group_known t g" and "rt_samplers (at_table t') = rt_samplers (at_table t)"
    and "map slot_view (sl_slots (rt_textures (at_table t'))) = map slot_view (sl_slots (rt_textures (at_table t)))"
  shows "group_known t' (group_owned_by (rt_id (at_table t')) g)"
proof -
  have "resource_known t' (resource_owned_by (rt_id (at_table t')) r)" if "resource_known t r" for r
    using that
  proof (cases r)
    case (TextureViewBinding i v)
    with that have "id_owner i = rt_id (at_table t)" by (simp add: id_ok_def)
    from lookup_mirrored [OF assms(3) this] TextureViewBinding that id_mirrored [of t i t'] show ?thesis by simp
  qed (auto simp: id_mirrored sampler_mirrored assms(2))
  with assms(1) show ?thesis
    by (auto simp: group_known_def group_owned_by_def list_all_iff comp_def)
qed

lemma live_all_owned:
  "live_all P c \<Longrightarrow> (\<And>d. P d \<Longrightarrow> Q (f d)) \<Longrightarrow>
     list_all (\<lambda>s. pred_option Q (slot_desc s)) (map (slot_owned f) (sl_slots c))"
  by (auto simp: live_all_def list_all_iff slot_owned_def option.pred_map intro: option.pred_mono_strong)

section \<open>One category after the other\<close>

text \<open>A stage that takes its rows off the words and leaves a category that shows them.\<close>

definition staged ::
    "abi_step \<Rightarrow> (('d slots \<Rightarrow> 'd slots) \<Rightarrow> resource_table \<Rightarrow> resource_table) \<Rightarrow>
     ((row_cache \<Rightarrow> row_cache) \<Rightarrow> accepted_rows \<Rightarrow> accepted_rows) \<Rightarrow> ('d \<Rightarrow> u64 list) \<Rightarrow> 'd slot list \<Rightarrow> u64 list \<Rightarrow>
     abi_state \<Rightarrow> abi_state \<Rightarrow> 'd slots \<Rightarrow> row_cache \<Rightarrow> bool"
where
  "staged f table cached put target ws m m' c cache \<longleftrightarrow>
     f (put_rows (put_slot put) target @ ws, m) = (Inr (), ws, m') \<and> at_legacy (ab_view m') = at_legacy (ab_view m) \<and>
     ab_table m' = table (\<lambda>_. c) (ab_table m) \<and> ab_accepted m' = cached (\<lambda>_. cache) (ab_accepted m) \<and>
     coherent put cache (sl_slots c) \<and> map slot_view (sl_slots c) = map slot_view target"

definition appended ::
    "abi_step \<Rightarrow> (('d list \<Rightarrow> 'd list) \<Rightarrow> resource_table \<Rightarrow> resource_table) \<Rightarrow> ('d \<Rightarrow> u64 list) \<Rightarrow> 'd list \<Rightarrow> u64 list \<Rightarrow>
     abi_state \<Rightarrow> abi_state \<Rightarrow> bool"
where
  "appended f table put target ws m m' \<longleftrightarrow>
     f (put_rows put target @ ws, m) = (Inr (), ws, m') \<and> at_legacy (ab_view m') = at_legacy (ab_view m) \<and>
     ab_table m' = table (\<lambda>_. target) (ab_table m) \<and> ab_accepted m' = ab_accepted m"

lemma textures_stage:
  assumes "coherent put_texture_desc (ar_textures (ab_accepted m)) (sl_slots (rt_textures (ab_table m)))"
    and "later_slots (sl_slots (rt_textures (ab_table m))) target" and "length target \<le> MAX_TEXTURES"
    and "list_all (\<lambda>s. pred_option texture_survives (slot_desc s)) target"
    and "list_all (\<lambda>s. length (put_slot put_texture_desc s) < usize_limit) target"
  obtains m' c cache where "staged (sync_textures ample) rt_textures_update ar_textures_update put_texture_desc target ws m m' c cache"
proof -
  have "MAX_TEXTURES < usize_limit" by (simp add: usize_limit_def)
  note sync = texture_desc.sync_slots_later [OF assms(1-3) this assms(4,5)]
  obtain slots cache where step: "sync_slots ample put_texture_desc get_texture_desc (ab_view m) MAX_TEXTURES
      (put_rows (put_slot put_texture_desc) target @ ws) (sl_slots (rt_textures (ab_table m)), ar_textures (ab_accepted m)) = (Inr (), ws, slots, cache)"
    and coh: "coherent put_texture_desc cache slots" "map slot_view slots = map slot_view target"
    by (rule sync) blast+
  let ?c = "(rt_textures (ab_table m))\<lparr>sl_slots := slots\<rparr>"
  show thesis
    by (rule that [of "with_table (\<lambda>t. t\<lparr>rt_textures := (rt_textures t)\<lparr>sl_slots := slots\<rparr>\<rparr>)
        (m\<lparr>ab_accepted := (ab_accepted m)\<lparr>ar_textures := cache\<rparr>\<rparr>)" ?c cache])
      (simp_all add: staged_def sync_textures_def step coh)
qed

lemma buffers_stage:
  assumes "coherent put_buffer_desc (ar_buffers (ab_accepted m)) (sl_slots (rt_buffers (ab_table m)))"
    and "later_slots (sl_slots (rt_buffers (ab_table m))) target" and "length target \<le> MAX_BUFFERS"
    and "list_all (\<lambda>s. pred_option buffer_accepted (slot_desc s)) target"
    and "list_all (\<lambda>s. length (put_slot put_buffer_desc s) < usize_limit) target"
  obtains m' c cache where "staged (sync_buffers ample) rt_buffers_update ar_buffers_update put_buffer_desc target ws m m' c cache"
proof -
  have "MAX_BUFFERS < usize_limit" by (simp add: usize_limit_def)
  note sync = buffer_desc.sync_slots_later [OF assms(1-3) this assms(4,5)]
  obtain slots cache where step: "sync_slots ample put_buffer_desc get_buffer_desc (ab_view m) MAX_BUFFERS
      (put_rows (put_slot put_buffer_desc) target @ ws) (sl_slots (rt_buffers (ab_table m)), ar_buffers (ab_accepted m)) = (Inr (), ws, slots, cache)"
    and coh: "coherent put_buffer_desc cache slots" "map slot_view slots = map slot_view target"
    by (rule sync) blast+
  let ?c = "(rt_buffers (ab_table m))\<lparr>sl_slots := slots\<rparr>"
  show thesis
    by (rule that [of "with_table (\<lambda>t. t\<lparr>rt_buffers := (rt_buffers t)\<lparr>sl_slots := slots\<rparr>\<rparr>)
        (m\<lparr>ab_accepted := (ab_accepted m)\<lparr>ar_buffers := cache\<rparr>\<rparr>)" ?c cache])
      (simp_all add: staged_def sync_buffers_def step coh)
qed

lemma shaders_stage:
  assumes "coherent put_shader_module (ar_shaders (ab_accepted m)) (sl_slots (rt_shaders (ab_table m)))"
    and "later_slots (sl_slots (rt_shaders (ab_table m))) target" and "length target \<le> MAX_SHADER_MODULES"
    and "list_all (\<lambda>s. pred_option module_accepted (slot_desc s)) target"
    and "list_all (\<lambda>s. length (put_slot put_shader_module s) < usize_limit) target" and "\<not> at_legacy (ab_view m)"
  obtains m' c cache where "staged (sync_shaders ample) rt_shaders_update ar_shaders_update put_shader_module target ws m m' c cache"
proof -
  have "MAX_SHADER_MODULES < usize_limit" by (simp add: usize_limit_def)
  note sync = shader_module.sync_slots_later [OF assms(1-3) this assms(4,5)]
  obtain slots cache where step: "sync_slots ample put_shader_module (get_shader_module ample) (ab_view m) MAX_SHADER_MODULES
      (put_rows (put_slot put_shader_module) target @ ws) (sl_slots (rt_shaders (ab_table m)), ar_shaders (ab_accepted m)) = (Inr (), ws, slots, cache)"
    and coh: "coherent put_shader_module cache slots" "map slot_view slots = map slot_view target"
    by (rule sync) blast+
  let ?c = "(rt_shaders (ab_table m))\<lparr>sl_slots := slots\<rparr>"
  show thesis
    by (rule that [of "with_table (\<lambda>t. t\<lparr>rt_shaders := (rt_shaders t)\<lparr>sl_slots := slots\<rparr>\<rparr>)
        (m\<lparr>ab_accepted := (ab_accepted m)\<lparr>ar_shaders := cache\<rparr>\<rparr>)" ?c cache])
      (simp_all add: staged_def sync_shaders_def step coh sync_program_slots_def assms(6))
qed

lemma bind_groups_stage:
  assumes "coherent put_bind_group (ar_bind_groups (ab_accepted m)) (sl_slots (rt_bind_groups (ab_table m)))"
    and "later_slots (sl_slots (rt_bind_groups (ab_table m))) target" and "length target \<le> MAX_BIND_GROUP_DEFINITIONS"
    and "list_all (\<lambda>s. pred_option (group_known (ab_view m)) (slot_desc s)) target"
    and "list_all (\<lambda>s. length (put_slot put_bind_group s) < usize_limit) target"
  obtains m' c cache where "staged (sync_bind_groups ample) rt_bind_groups_update ar_bind_groups_update put_bind_group target ws m m' c cache"
proof -
  have "MAX_BIND_GROUP_DEFINITIONS < usize_limit" by (simp add: usize_limit_def)
  note sync = bind_group.sync_slots_later [OF assms(1-3) this assms(4,5)]
  obtain slots cache where step: "sync_slots ample put_bind_group (get_bind_group ample) (ab_view m) MAX_BIND_GROUP_DEFINITIONS
      (put_rows (put_slot put_bind_group) target @ ws) (sl_slots (rt_bind_groups (ab_table m)), ar_bind_groups (ab_accepted m)) = (Inr (), ws, slots, cache)"
    and coh: "coherent put_bind_group cache slots" "map slot_view slots = map slot_view target"
    by (rule sync) blast+
  let ?c = "(rt_bind_groups (ab_table m))\<lparr>sl_slots := slots\<rparr>"
  show thesis
    by (rule that [of "with_table (\<lambda>t. t\<lparr>rt_bind_groups := (rt_bind_groups t)\<lparr>sl_slots := slots\<rparr>\<rparr>)
        (m\<lparr>ab_accepted := (ab_accepted m)\<lparr>ar_bind_groups := cache\<rparr>\<rparr>)" ?c cache])
      (simp_all add: staged_def sync_bind_groups_def step coh)
qed

lemma compute_stage:
  assumes "coherent put_compute_pipeline (ar_compute (ab_accepted m)) (sl_slots (rt_compute (ab_table m)))"
    and "later_slots (sl_slots (rt_compute (ab_table m))) target" and "length target \<le> MAX_COMPUTE_PIPELINES"
    and "list_all (\<lambda>s. pred_option (compute_accepted (ab_view m)) (slot_desc s)) target"
    and "list_all (\<lambda>s. length (put_slot put_compute_pipeline s) < usize_limit) target" and "\<not> at_legacy (ab_view m)"
  obtains m' c cache where "staged (sync_compute ample) rt_compute_update ar_compute_update put_compute_pipeline target ws m m' c cache"
proof -
  have "MAX_COMPUTE_PIPELINES < usize_limit" by (simp add: usize_limit_def)
  note sync = compute_pipeline.sync_slots_later [OF assms(1-3) this assms(4,5)]
  obtain slots cache where step: "sync_slots ample put_compute_pipeline (get_compute_pipeline ample) (ab_view m) MAX_COMPUTE_PIPELINES
      (put_rows (put_slot put_compute_pipeline) target @ ws) (sl_slots (rt_compute (ab_table m)), ar_compute (ab_accepted m)) = (Inr (), ws, slots, cache)"
    and coh: "coherent put_compute_pipeline cache slots" "map slot_view slots = map slot_view target"
    by (rule sync) blast+
  let ?c = "(rt_compute (ab_table m))\<lparr>sl_slots := slots\<rparr>"
  show thesis
    by (rule that [of "with_table (\<lambda>t. t\<lparr>rt_compute := (rt_compute t)\<lparr>sl_slots := slots\<rparr>\<rparr>)
        (m\<lparr>ab_accepted := (ab_accepted m)\<lparr>ar_compute := cache\<rparr>\<rparr>)" ?c cache])
      (simp_all add: staged_def sync_compute_def step coh sync_program_slots_def assms(6))
qed

lemma programmable_stage:
  assumes "coherent put_programmable_pipeline (ar_programmable (ab_accepted m)) (sl_slots (rt_programmable (ab_table m)))"
    and "later_slots (sl_slots (rt_programmable (ab_table m))) target" and "length target \<le> MAX_PROGRAMMABLE_RENDER_PIPELINES"
    and "list_all (\<lambda>s. pred_option (programmable_accepted (ab_view m)) (slot_desc s)) target"
    and "list_all (\<lambda>s. length (put_slot put_programmable_pipeline s) < usize_limit) target" and "\<not> at_legacy (ab_view m)"
  obtains m' c cache where "staged (sync_programmable ample) rt_programmable_update ar_programmable_update put_programmable_pipeline target ws m m' c cache"
proof -
  have "MAX_PROGRAMMABLE_RENDER_PIPELINES < usize_limit" by (simp add: usize_limit_def)
  note sync = programmable_pipeline.sync_slots_later [OF assms(1-3) this assms(4,5)]
  obtain slots cache where step: "sync_slots ample put_programmable_pipeline (get_programmable_pipeline ample) (ab_view m) MAX_PROGRAMMABLE_RENDER_PIPELINES
      (put_rows (put_slot put_programmable_pipeline) target @ ws) (sl_slots (rt_programmable (ab_table m)), ar_programmable (ab_accepted m)) = (Inr (), ws, slots, cache)"
    and coh: "coherent put_programmable_pipeline cache slots" "map slot_view slots = map slot_view target"
    by (rule sync) blast+
  let ?c = "(rt_programmable (ab_table m))\<lparr>sl_slots := slots\<rparr>"
  show thesis
    by (rule that [of "with_table (\<lambda>t. t\<lparr>rt_programmable := (rt_programmable t)\<lparr>sl_slots := slots\<rparr>\<rparr>)
        (m\<lparr>ab_accepted := (ab_accepted m)\<lparr>ar_programmable := cache\<rparr>\<rparr>)" ?c cache])
      (simp_all add: staged_def sync_programmable_def step coh sync_program_slots_def assms(6))
qed

lemma samplers_stage:
  assumes "list_all sampler_accepted target" and "list_all (\<lambda>d. length (put_sampler_desc d) < usize_limit) target"
    and "length target \<le> MAX_SAMPLERS" and "\<exists>xs. target = rt_samplers (ab_table m) @ xs"
  obtains m' where "appended (append_samplers ample) rt_samplers_update put_sampler_desc target ws m m'"
proof -
  have "MAX_SAMPLERS < usize_limit" by (simp add: usize_limit_def)
  moreover obtain xs where "target = rt_samplers (ab_table m) @ xs" using assms(4) ..
  ultimately have "append_abi_rows ample get_sampler_desc (ab_view m) MAX_SAMPLERS (put_rows put_sampler_desc target @ ws)
      (rt_samplers (ab_table m), ab_revision m) = (Inr (), ws, target, ab_revision m + of_nat (length xs))"
    by (rule sampler_desc.append_abi_rows_later [OF assms(1-3)])
  then show thesis
    by (intro that [of "with_table (\<lambda>t. t\<lparr>rt_samplers := target\<rparr>) (m\<lparr>ab_revision := ab_revision m + of_nat (length xs)\<rparr>)"])
      (simp_all add: appended_def append_samplers_def)
qed

lemma pipelines_stage:
  assumes "list_all pipeline_accepted target" and "list_all (\<lambda>d. length (put_render_pipeline d) < usize_limit) target"
    and "length target \<le> MAX_RENDER_PIPELINES" and "\<exists>xs. target = rt_pipelines (ab_table m) @ xs"
  obtains m' where "appended (append_pipelines ample) rt_pipelines_update put_render_pipeline target ws m m'"
proof -
  have "MAX_RENDER_PIPELINES < usize_limit" by (simp add: usize_limit_def)
  moreover obtain xs where "target = rt_pipelines (ab_table m) @ xs" using assms(4) ..
  ultimately have "append_abi_rows ample (get_render_pipeline ample) (ab_view m) MAX_RENDER_PIPELINES (put_rows put_render_pipeline target @ ws)
      (rt_pipelines (ab_table m), ab_revision m) = (Inr (), ws, target, ab_revision m + of_nat (length xs))"
    by (rule render_pipeline.append_abi_rows_later [OF assms(1-3)])
  then show thesis
    by (intro that [of "with_table (\<lambda>t. t\<lparr>rt_pipelines := target\<rparr>) (m\<lparr>ab_revision := ab_revision m + of_nat (length xs)\<rparr>)"])
      (simp_all add: appended_def append_pipelines_def)
qed

section \<open>The whole snapshot\<close>

lemma modules_resolve:
  "\<forall>i \<in> set is. is_ok (shader_module_ref t i) \<Longrightarrow> foldr (\<lambda>i r. and_then (shader_module_ref t i) (\<lambda>_. r)) is (Inr ()) = Inr ()"
  by (induction "is") (auto simp: is_ok_Inr)

lemma no_module_error:
  assumes "\<forall>s \<in> set (sl_slots (rt_compute t)). pred_option (\<lambda>p. is_ok (shader_module_ref t (se_module (cp_shader p)))) (slot_desc s)"
    and "\<forall>s \<in> set (sl_slots (rt_programmable t)). pred_option (\<lambda>p. is_ok (shader_module_ref t (se_module (pp_vertex p))) \<and>
      is_ok (shader_module_ref t (se_module (pp_fragment p)))) (slot_desc s)"
  shows "first_module_error t = Inr ()"
  using assms unfolding first_module_error_def Let_def pred_option_def
  by (intro modules_resolve) (force split: option.splits)

lemma list_all_view:
  assumes "map slot_view a = map slot_view b" and "list_all (\<lambda>s. pred_option P (slot_desc s)) b"
  shows "\<forall>s \<in> set a. pred_option P (slot_desc s)"
proof
  fix s assume "s \<in> set a"
  then have "slot_view s \<in> set (map slot_view a)" by simp
  with assms obtain s' where "s' \<in> set b" "slot_view s = slot_view s'" by auto
  with assms(2) show "pred_option P (slot_desc s)" by (simp add: list_all_iff slot_view_eq)
qed

lemma mirror_forward:
  "map slot_view a = map slot_view (map (slot_owned f) b) \<Longrightarrow> later_slots b c \<Longrightarrow> later_slots a (map (slot_owned f) c)"
  by (rule later_slots_view [OF sym], assumption, rule later_slots_owned)

lemma run_steps_append:
  "run_steps (fs @ gs) s = (case run_steps fs s of (Inl e, s) \<Rightarrow> (Inl e, s) | (Inr _, s) \<Rightarrow> run_steps gs s)"
  by (induction fs arbitrary: s) (simp_all split: prod.split sum.split)

lemma category_sizes:
  assumes "bounds_ok s"
  shows "length (sl_slots (rt_textures s)) \<le> MAX_TEXTURES" "length (sl_slots (rt_buffers s)) \<le> MAX_BUFFERS"
    "length (rt_samplers s) \<le> MAX_SAMPLERS" "length (rt_pipelines s) \<le> MAX_RENDER_PIPELINES"
    "length (sl_slots (rt_shaders s)) \<le> MAX_SHADER_MODULES"
    "length (sl_slots (rt_bind_groups s)) \<le> MAX_BIND_GROUP_DEFINITIONS"
    "length (sl_slots (rt_compute s)) \<le> MAX_COMPUTE_PIPELINES"
    "length (sl_slots (rt_programmable s)) \<le> MAX_PROGRAMMABLE_RENDER_PIPELINES"
  using assms by (auto simp: bounds_ok_def slots_ok_def)

lemma category_forward:
  assumes "in_step m s0" and "later_table s0 s"
  shows "later_slots (sl_slots (rt_textures (ab_table m))) (sl_slots (rt_textures s))"
    "later_slots (sl_slots (rt_buffers (ab_table m))) (sl_slots (rt_buffers s))"
    "\<exists>xs. rt_samplers s = rt_samplers (ab_table m) @ xs" "\<exists>xs. rt_pipelines s = rt_pipelines (ab_table m) @ xs"
    "later_slots (sl_slots (rt_shaders (ab_table m))) (sl_slots (rt_shaders s))"
    "later_slots (sl_slots (rt_bind_groups (ab_table m)))
       (map (slot_owned (group_owned_by (rt_id (ab_table m)))) (sl_slots (rt_bind_groups s)))"
    "later_slots (sl_slots (rt_compute (ab_table m)))
       (map (slot_owned (compute_owned_by (rt_id (ab_table m)))) (sl_slots (rt_compute s)))"
    "later_slots (sl_slots (rt_programmable (ab_table m)))
       (map (slot_owned (programmable_owned_by (rt_id (ab_table m)))) (sl_slots (rt_programmable s)))"
  using assms unfolding in_step_def mirrors_def Let_def later_table_def
  by (blast intro: later_slots_view [OF sym] mirror_forward | metis)+

text \<open>The categories that name no other row, and the shader modules.\<close>

lemma first_stages:
  assumes step: "in_step m s0" and later: "later_table s0 s" and bounds: "bounds_ok s" and ok: "transferable s"
    and legacy: "\<not> at_legacy (ab_view m)"
  obtains m' c1 c2 c5 k1 k2 k5 where
    "run_steps [sync_textures ample, sync_buffers ample, append_samplers ample, append_pipelines ample, sync_shaders ample]
      (put_rows (put_slot put_texture_desc) (sl_slots (rt_textures s)) @
       put_rows (put_slot put_buffer_desc) (sl_slots (rt_buffers s)) @ put_rows put_sampler_desc (rt_samplers s) @
       put_rows put_render_pipeline (rt_pipelines s) @
       put_rows (put_slot put_shader_module) (sl_slots (rt_shaders s)) @ ws, m) = (Inr (), ws, m')"
    "\<not> at_legacy (ab_view m')"
    "ab_table m' = (ab_table m)\<lparr>rt_textures := c1, rt_buffers := c2, rt_samplers := rt_samplers s,
      rt_pipelines := rt_pipelines s, rt_shaders := c5\<rparr>"
    "ab_accepted m' = (ab_accepted m)\<lparr>ar_textures := k1, ar_buffers := k2, ar_shaders := k5\<rparr>"
    "coherent put_texture_desc k1 (sl_slots c1)" "map slot_view (sl_slots c1) = map slot_view (sl_slots (rt_textures s))"
    "coherent put_buffer_desc k2 (sl_slots c2)" "map slot_view (sl_slots c2) = map slot_view (sl_slots (rt_buffers s))"
    "coherent put_shader_module k5 (sl_slots c5)" "map slot_view (sl_slots c5) = map slot_view (sl_slots (rt_shaders s))"
proof -
  note sizes = category_sizes [OF bounds] and forward = category_forward [OF step later]
    and coh = step [unfolded in_step_def caches_coherent_def]
    and accepted = ok [unfolded transferable_def Let_def live_all_def rows_fit_def]
  let ?tex = "sl_slots (rt_textures s)" and ?buf = "sl_slots (rt_buffers s)" and ?sh = "sl_slots (rt_shaders s)"
  let ?ws4 = "put_rows (put_slot put_shader_module) ?sh @ ws"
  let ?ws3 = "put_rows put_render_pipeline (rt_pipelines s) @ ?ws4"
  let ?ws2 = "put_rows put_sampler_desc (rt_samplers s) @ ?ws3"
  let ?ws1 = "put_rows (put_slot put_buffer_desc) ?buf @ ?ws2"
  obtain m1 c1 k1 where "staged (sync_textures ample) rt_textures_update ar_textures_update put_texture_desc ?tex ?ws1 m m1 c1 k1"
    by (rule textures_stage [of m ?tex ?ws1]) (use coh forward sizes accepted in simp_all)
  note s1 = this [unfolded staged_def]
  obtain m2 c2 k2 where "staged (sync_buffers ample) rt_buffers_update ar_buffers_update put_buffer_desc ?buf ?ws2 m1 m2 c2 k2"
    by (rule buffers_stage [of m1 ?buf ?ws2]) (use s1 coh forward sizes accepted in simp_all)
  note s2 = this [unfolded staged_def]
  obtain m3 where "appended (append_samplers ample) rt_samplers_update put_sampler_desc (rt_samplers s) ?ws3 m2 m3"
    by (rule samplers_stage [of "rt_samplers s" m2 ?ws3]) (use s1 s2 forward sizes accepted in simp_all)
  note s3 = this [unfolded appended_def]
  obtain m4 where "appended (append_pipelines ample) rt_pipelines_update put_render_pipeline (rt_pipelines s) ?ws4 m3 m4"
    by (rule pipelines_stage [of "rt_pipelines s" m3 ?ws4]) (use s1 s2 s3 forward sizes accepted in simp_all)
  note s4 = this [unfolded appended_def]
  obtain m5 c5 k5 where "staged (sync_shaders ample) rt_shaders_update ar_shaders_update put_shader_module ?sh ws m4 m5 c5 k5"
    by (rule shaders_stage [of m4 ?sh ws]) (use s1 s2 s3 s4 coh forward sizes accepted legacy in simp_all)
  note s5 = this [unfolded staged_def]
  have run: "run_steps [sync_textures ample, sync_buffers ample, append_samplers ample, append_pipelines ample, sync_shaders ample]
      (put_rows (put_slot put_texture_desc) ?tex @ ?ws1, m) = (Inr (), ws, m5)"
    by (simp only: run_steps.simps s1 s2 s3 s4 s5 [THEN conjunct1] prod.case sum.case)
  have "\<not> at_legacy (ab_view m5)" "ab_table m5 = (ab_table m)\<lparr>rt_textures := c1, rt_buffers := c2,
        rt_samplers := rt_samplers s, rt_pipelines := rt_pipelines s, rt_shaders := c5\<rparr>"
      "ab_accepted m5 = (ab_accepted m)\<lparr>ar_textures := k1, ar_buffers := k2, ar_shaders := k5\<rparr>"
    using s1 s2 s3 s4 s5 legacy by simp_all
  then show thesis
    by (rule that [OF run]) (simp_all only: s1 s2 s5)
qed

lemma programmable_accepted_mirrored:
  assumes "programmable_accepted t p" and "\<And>e. entry_accepted t e \<Longrightarrow> entry_accepted t' (entry_owned_by n e)"
  shows "programmable_accepted t' (programmable_owned_by n p)"
proof -
  let ?p = "programmable_owned_by n p"
  have "with_vertex_buffers p (pp_vertex_buffers p) = Inr p" using assms(1) by (simp add: programmable_accepted_def)
  then have "with_vertex_buffers ?p (pp_vertex_buffers p) = Inr (?p\<lparr>pp_vertex_buffers := pp_vertex_buffers p\<rparr>)"
    by (rule with_vertex_buffers_same) simp
  moreover have "?p\<lparr>pp_vertex_buffers := pp_vertex_buffers p\<rparr> = ?p" by (cases p) (simp add: programmable_owned_by_def)
  moreover have "pp_vertex_buffers ?p = pp_vertex_buffers p" by (simp add: programmable_owned_by_def)
  ultimately have buffers: "with_vertex_buffers ?p (pp_vertex_buffers ?p) = Inr ?p" by simp
  have "pp_ok ?p" using assms(1) unfolding programmable_accepted_def pp_ok_def
    by (simp add: programmable_owned_by_def entry_owned_by_def)
  with assms buffers show ?thesis
    unfolding programmable_accepted_def by (auto simp: programmable_owned_by_def entry_owned_by_def)
qed

text \<open>The categories that name rows of the mirror, which now shows the source.\<close>

lemma last_stages:
  assumes step: "in_step m s0" and later: "later_table s0 s" and bounds: "bounds_ok s" and ok: "transferable s"
    and legacy5: "\<not> at_legacy (ab_view m5)"
    and table5: "ab_table m5 = (ab_table m)\<lparr>rt_textures := c1, rt_buffers := c2, rt_samplers := rt_samplers s,
      rt_pipelines := rt_pipelines s, rt_shaders := c5\<rparr>"
    and accepted5: "ab_accepted m5 = (ab_accepted m)\<lparr>ar_textures := k1, ar_buffers := k2, ar_shaders := k5\<rparr>"
    and view1: "map slot_view (sl_slots c1) = map slot_view (sl_slots (rt_textures s))"
    and view5: "map slot_view (sl_slots c5) = map slot_view (sl_slots (rt_shaders s))"
    and n: "n = rt_id (ab_table m)"
    and groups: "groups = map (slot_owned (group_owned_by n)) (sl_slots (rt_bind_groups s))"
    and compute: "compute = map (slot_owned (compute_owned_by n)) (sl_slots (rt_compute s))"
    and programmable: "programmable = map (slot_owned (programmable_owned_by n)) (sl_slots (rt_programmable s))"
  obtains m' c6 c7 c8 k6 k7 k8 where
    "run_steps [sync_bind_groups ample, sync_compute ample, sync_programmable ample]
      (put_rows (put_slot put_bind_group) groups @ put_rows (put_slot put_compute_pipeline) compute @
       put_rows (put_slot put_programmable_pipeline) programmable, m5) = (Inr (), [], m')"
    "ab_table m' = (ab_table m5)\<lparr>rt_bind_groups := c6, rt_compute := c7, rt_programmable := c8\<rparr>"
    "ab_accepted m' = (ab_accepted m5)\<lparr>ar_bind_groups := k6, ar_compute := k7, ar_programmable := k8\<rparr>"
    "coherent put_bind_group k6 (sl_slots c6)" "map slot_view (sl_slots c6) = map slot_view groups"
    "coherent put_compute_pipeline k7 (sl_slots c7)" "map slot_view (sl_slots c7) = map slot_view compute"
    "coherent put_programmable_pipeline k8 (sl_slots c8)" "map slot_view (sl_slots c8) = map slot_view programmable"
    "first_module_error (ab_table m') = Inr ()"
proof -
  let ?t = "\<lparr>at_table = s, at_legacy = False\<rparr>"
  note sizes = category_sizes [OF bounds] and forward = category_forward [OF step later]
    and coh = step [unfolded in_step_def caches_coherent_def]
  have live: "live_all (group_known ?t) (rt_bind_groups s)" "live_all (compute_accepted ?t) (rt_compute s)"
      "live_all (programmable_accepted ?t) (rt_programmable s)"
    and fits: "list_all (\<lambda>s. length (put_slot put_bind_group s) < usize_limit) groups"
      "list_all (\<lambda>s. length (put_slot put_compute_pipeline s) < usize_limit) compute"
      "list_all (\<lambda>s. length (put_slot put_programmable_pipeline s) < usize_limit) programmable"
    using ok by (simp_all add: transferable_def Let_def rows_fit_def list_all_iff put_slot_owned groups compute programmable)
  have entry: "entry_accepted v (entry_owned_by n e)"
    if "entry_accepted ?t e" "rt_id (at_table v) = n" "rt_shaders (at_table v) = c5" "\<not> at_legacy v" for v e
    using entry_mirrored [OF that(1,4)] that(2,3) view5 by simp
  have known: "list_all (\<lambda>s. pred_option (group_known (ab_view m5)) (slot_desc s)) groups"
    unfolding groups
    by (rule live_all_owned [OF live(1)]) (use group_mirrored [of ?t _ "ab_view m5"] view1 table5 n in simp)
  have "coherent put_bind_group (ar_bind_groups (ab_accepted m5)) (sl_slots (rt_bind_groups (ab_table m5)))"
      "later_slots (sl_slots (rt_bind_groups (ab_table m5))) groups" "length groups \<le> MAX_BIND_GROUP_DEFINITIONS"
    using coh forward sizes by (simp_all add: table5 accepted5 groups n)
  note stage6 = bind_groups_stage [OF this known fits(1)]
  let ?ws7 = "put_rows (put_slot put_programmable_pipeline) programmable @ []"
  let ?ws6 = "put_rows (put_slot put_compute_pipeline) compute @ ?ws7"
  obtain m6 c6 k6 where "staged (sync_bind_groups ample) rt_bind_groups_update ar_bind_groups_update put_bind_group groups ?ws6 m5 m6 c6 k6"
    by (rule stage6)
  note s6 = this [unfolded staged_def]
  then have table6: "ab_table m6 = (ab_table m5)\<lparr>rt_bind_groups := c6\<rparr>" and legacy6: "\<not> at_legacy (ab_view m6)"
    using legacy5 by simp_all
  have entry6: "entry_accepted (ab_view m6) (entry_owned_by n e)" if "entry_accepted ?t e" for e
    by (rule entry [OF that]) (simp_all add: table6 table5 legacy6 n)
  have computes: "list_all (\<lambda>s. pred_option (compute_accepted (ab_view m6)) (slot_desc s)) compute"
    unfolding compute by (rule live_all_owned [OF live(2)])
      (simp add: compute_accepted_def compute_owned_by_def entry6, simp add: entry_owned_by_def)
  have "coherent put_compute_pipeline (ar_compute (ab_accepted m6)) (sl_slots (rt_compute (ab_table m6)))"
      "later_slots (sl_slots (rt_compute (ab_table m6))) compute" "length compute \<le> MAX_COMPUTE_PIPELINES"
    using coh forward sizes s6 by (simp_all add: table6 table5 accepted5 compute n)
  note stage7 = compute_stage [OF this computes fits(2) legacy6]
  obtain m7 c7 k7 where "staged (sync_compute ample) rt_compute_update ar_compute_update put_compute_pipeline compute ?ws7 m6 m7 c7 k7"
    by (rule stage7)
  note s7 = this [unfolded staged_def]
  then have table7: "ab_table m7 = (ab_table m6)\<lparr>rt_compute := c7\<rparr>" and legacy7: "\<not> at_legacy (ab_view m7)"
    using legacy6 by simp_all
  have entry7: "entry_accepted (ab_view m7) (entry_owned_by n e)" if "entry_accepted ?t e" for e
    by (rule entry [OF that]) (simp_all add: table7 table6 table5 legacy7 n)
  have programs: "list_all (\<lambda>s. pred_option (programmable_accepted (ab_view m7)) (slot_desc s)) programmable"
    unfolding programmable by (rule live_all_owned [OF live(3)]) (rule programmable_accepted_mirrored [OF _ entry7])
  have "coherent put_programmable_pipeline (ar_programmable (ab_accepted m7)) (sl_slots (rt_programmable (ab_table m7)))"
      "later_slots (sl_slots (rt_programmable (ab_table m7))) programmable"
      "length programmable \<le> MAX_PROGRAMMABLE_RENDER_PIPELINES"
    using coh forward sizes s6 s7 by (simp_all add: table7 table6 table5 accepted5 programmable n)
  note stage8 = programmable_stage [OF this programs fits(3) legacy7]
  obtain m8 c8 k8 where "staged (sync_programmable ample) rt_programmable_update ar_programmable_update put_programmable_pipeline
      programmable [] m7 m8 c8 k8"
    by (rule stage8)
  note s8 = this [unfolded staged_def]
  then have table8: "ab_table m8 = (ab_table m5)\<lparr>rt_bind_groups := c6, rt_compute := c7, rt_programmable := c8\<rparr>"
    by (simp add: table7 table6)
  have resolved: "is_ok (shader_module_ref (ab_table m8) (se_module e))"
    if "entry_accepted v e" "rt_id (at_table v) = n" "rt_shaders (at_table v) = c5" for v e
    using that by (simp add: entry_accepted_def program_id_ok_def shader_module_ref_def table8 table5 n)
  have "\<forall>s \<in> set (sl_slots c7). pred_option (compute_accepted (ab_view m6)) (slot_desc s)"
      "\<forall>s \<in> set (sl_slots c8). pred_option (programmable_accepted (ab_view m7)) (slot_desc s)"
    using list_all_view [OF _ computes] list_all_view [OF _ programs] s7 s8 by blast+
  then have resolves: "first_module_error (ab_table m8) = Inr ()"
    using resolved [of "ab_view m6"] resolved [of "ab_view m7"]
    by (intro no_module_error) (auto simp: table8 table7 table6 table5 n compute_accepted_def programmable_accepted_def
        elim!: option.pred_mono_strong)
  have run: "run_steps [sync_bind_groups ample, sync_compute ample, sync_programmable ample]
      (put_rows (put_slot put_bind_group) groups @ put_rows (put_slot put_compute_pipeline) compute @
       put_rows (put_slot put_programmable_pipeline) programmable, m5) = (Inr (), [], m8)"
    by (simp only: run_steps.simps s6 s7 s8 [THEN conjunct1] prod.case sum.case append_Nil2
        s6 [unfolded append_Nil2] s7 [unfolded append_Nil2] s8 [unfolded append_Nil2])
  have "ab_accepted m8 = (ab_accepted m5)\<lparr>ar_bind_groups := k6, ar_compute := k7, ar_programmable := k8\<rparr>"
    using s6 s7 s8 by simp
  with table8 show thesis
    by (rule that [OF run]) (rule resolves | simp only: s6 s7 s8)+
qed

lemma coherent_rebuilt: "coherent put cache (sl_slots c) \<Longrightarrow> coherent put cache (sl_slots (rebuild_program_free_list c))"
  by (rule coherent_view [OF _ rebuilt_view])

lemma rebuilt_in_step:
  assumes "in_step m s"
  shows "in_step (with_table (\<lambda>t. t\<lparr>rt_shaders := rebuild_program_free_list (rt_shaders t),
    rt_compute := rebuild_program_free_list (rt_compute t),
    rt_programmable := rebuild_program_free_list (rt_programmable t)\<rparr>) m) s"
  using assms by (simp add: in_step_def mirrors_def caches_coherent_def coherent_rebuilt Let_def)

lemma sync_follows:
  assumes step: "in_step m s0" and later: "later_table s0 s" and bounds: "bounds_ok s" and ok: "transferable s"
    and nonzero: "of_nat (rt_id s) \<noteq> (0 :: u64)" "revision \<noteq> 0"
  shows "\<exists>m'. sync_abi_snapshot ample (encode_table revision s) m = (Inr (of_nat (rt_id s), revision), m') \<and>
    in_step m' s \<and> rt_id (ab_table m') = rt_id (ab_table m)"
proof -
  define m0 where "m0 = m\<lparr>ab_view := (ab_view m)\<lparr>at_legacy := False\<rparr>\<rparr>"
  have step0: "in_step m0 s0" and legacy0: "\<not> at_legacy (ab_view m0)" and n: "rt_id (ab_table m0) = rt_id (ab_table m)"
    using step by (simp_all add: m0_def in_step_def caches_coherent_def)
  let ?groups = "map (slot_owned (group_owned_by (rt_id (ab_table m0)))) (sl_slots (rt_bind_groups s))"
  let ?compute = "map (slot_owned (compute_owned_by (rt_id (ab_table m0)))) (sl_slots (rt_compute s))"
  let ?programmable = "map (slot_owned (programmable_owned_by (rt_id (ab_table m0)))) (sl_slots (rt_programmable s))"
  let ?rest = "put_rows (put_slot put_bind_group) ?groups @ put_rows (put_slot put_compute_pipeline) ?compute @
      put_rows (put_slot put_programmable_pipeline) ?programmable"
  let ?words = "put_rows (put_slot put_texture_desc) (sl_slots (rt_textures s)) @
      put_rows (put_slot put_buffer_desc) (sl_slots (rt_buffers s)) @ put_rows put_sampler_desc (rt_samplers s) @
      put_rows put_render_pipeline (rt_pipelines s) @ put_rows (put_slot put_shader_module) (sl_slots (rt_shaders s)) @ ?rest"
  have words: "encode_table revision s = MAGIC # of_nat (rt_id s) # revision # ?words"
    by (simp add: encode_table_def put_rows_owned)
  obtain m5 c1 c2 c5 k1 k2 k5 where first: "run_steps [sync_textures ample, sync_buffers ample, append_samplers ample,
        append_pipelines ample, sync_shaders ample] (?words, m0) = (Inr (), ?rest, m5)"
    and legacy5: "\<not> at_legacy (ab_view m5)"
    and table5: "ab_table m5 = (ab_table m0)\<lparr>rt_textures := c1, rt_buffers := c2, rt_samplers := rt_samplers s,
      rt_pipelines := rt_pipelines s, rt_shaders := c5\<rparr>"
    and accepted5: "ab_accepted m5 = (ab_accepted m0)\<lparr>ar_textures := k1, ar_buffers := k2, ar_shaders := k5\<rparr>"
    and shown5: "coherent put_texture_desc k1 (sl_slots c1)" "map slot_view (sl_slots c1) = map slot_view (sl_slots (rt_textures s))"
      "coherent put_buffer_desc k2 (sl_slots c2)" "map slot_view (sl_slots c2) = map slot_view (sl_slots (rt_buffers s))"
      "coherent put_shader_module k5 (sl_slots c5)" "map slot_view (sl_slots c5) = map slot_view (sl_slots (rt_shaders s))"
    by (rule first_stages [OF step0 later bounds ok legacy0])
  obtain m8 c6 c7 c8 k6 k7 k8 where last: "run_steps [sync_bind_groups ample, sync_compute ample, sync_programmable ample]
      (?rest, m5) = (Inr (), [], m8)"
    and table8: "ab_table m8 = (ab_table m5)\<lparr>rt_bind_groups := c6, rt_compute := c7, rt_programmable := c8\<rparr>"
    and accepted8: "ab_accepted m8 = (ab_accepted m5)\<lparr>ar_bind_groups := k6, ar_compute := k7, ar_programmable := k8\<rparr>"
    and shown8: "coherent put_bind_group k6 (sl_slots c6)" "map slot_view (sl_slots c6) = map slot_view ?groups"
      "coherent put_compute_pipeline k7 (sl_slots c7)" "map slot_view (sl_slots c7) = map slot_view ?compute"
      "coherent put_programmable_pipeline k8 (sl_slots c8)" "map slot_view (sl_slots c8) = map slot_view ?programmable"
    and resolves: "first_module_error (ab_table m8) = Inr ()"
    by (rule last_stages [OF step0 later bounds ok legacy5 table5 accepted5 shown5(2,6) refl refl refl refl])
  have "in_step m8 s"
    using shown5 shown8 by (simp add: in_step_def mirrors_def caches_coherent_def table8 table5 accepted8 accepted5 Let_def)
  moreover have "run_steps [sync_textures ample, sync_buffers ample, append_samplers ample, append_pipelines ample,
      sync_shaders ample, sync_bind_groups ample, sync_compute ample, sync_programmable ample] (?words, m0) = (Inr (), [], m8)"
    using run_steps_append [of "[sync_textures ample, sync_buffers ample, append_samplers ample, append_pipelines ample,
        sync_shaders ample]" "[sync_bind_groups ample, sync_compute ample, sync_programmable ample]" "(?words, m0)"]
    by (simp only: first last append_Cons append_Nil prod.case sum.case)
  moreover have "rt_id (ab_table m8) = rt_id (ab_table m)" by (simp add: table8 table5 n)
  ultimately show ?thesis
    using nonzero rebuilt_in_step [of m8 s]
    by (simp add: sync_abi_snapshot_def words Let_def m0_def [symmetric] resolves del: run_steps.simps)
qed

text \<open>Two things the rows cannot say.\<close>

lemma one_dimension_is_lost:
  assumes "texture_accepted d" and "tex_1d d"
  shows "fst (get_texture_desc t (put_texture_desc d)) \<noteq> Inr d"
  using texture_row [OF assms(1), of t "[]"] assms(2) by (cases d) auto

definition released_view_ops :: "table_op list" where
  "released_view_ops =
     (let i = \<lparr>id_owner = 1, id_index = 0, id_generation = 0\<rparr>;
          view = \<lparr>view_format = Rgba8Unorm, view_dim = D2, view_base_mip = 0, view_mips = 1, view_base_layer = 0, view_layers = 1\<rparr>
      in [DefineTexture True \<lparr>tex_format = Rgba8Unorm, tex_extent = \<lparr>ext_width = 4, ext_height = 4\<rparr>, tex_usage = TEX_SAMPLED,
            tex_mips = 1, tex_layers = 1, tex_cube = False, tex_1d = False\<rparr>,
          DefineBindGroup True
            \<lparr>bg_layout = [\<lparr>le_binding = 0, le_visibility = 1, le_ty = SampledTextureView D2 False\<rparr>],
             bg_entries = [\<lparr>be_binding = 0, be_resource = TextureViewBinding i view\<rparr>]\<rparr>,
          ReleaseTexture i])"


lemmas run_table = table_run_def table_new_def slots_new_def define_texture_def release_texture_def define_buffer_def
  release_buffer_def define_bind_group_def store_define_def store_release_def slots_define_def slots_release_def
  slots_validate_def slots_read_def get_def checked_add_def

lemma released_view_is_unreadable:
  assumes "id_ok t i" and "live_texture (at_table t) i = None"
  shows "\<not> is_ok (fst (get_resource t (put_resource (TextureViewBinding i v) @ ws)))"
proof -
  have "\<not> is_ok (texture_ref (at_table t) i)" using assms(2) by (auto simp: is_ok_Inr ref_iff)
  then obtain e where "texture_ref (at_table t) i = Inl e" by (cases "texture_ref (at_table t) i") simp_all
  with assms(1) show ?thesis by (simp add: get_resource_def codec_simps)
qed

lemma released_view_is_reachable:
  "live_all (\<lambda>g. \<exists>i v. map be_resource (bg_entries g) = [TextureViewBinding i v] \<and>
      live_texture (table_run 1 released_view_ops) i = None) (rt_bind_groups (table_run 1 released_view_ops))"
  "length (sl_slots (rt_bind_groups (table_run 1 released_view_ops))) = 1"
  by (simp_all add: released_view_ops_def Let_def run_table bind_group_validate_def writable_alias_def
    texture_ref_def table_texture_def usage_contains_def view_validate_def live_all_def store_lookup_def view_compatible_def)
definition mirrored_buffer :: buffer_desc where
  "mirrored_buffer = \<lparr>buf_size = 16, buf_usage = BUF_COPY_DST\<rparr>"

definition mirrored_buffer_id :: buffer_id where
  "mirrored_buffer_id = \<lparr>id_owner = 1, id_index = 0, id_generation = 0\<rparr>"

definition example_source :: resource_table where
  "example_source = table_run 1 [DefineBuffer True mirrored_buffer]"

definition example_released :: resource_table where
  "example_released = table_run 1 ([DefineBuffer True mirrored_buffer] @ [ReleaseBuffer mirrored_buffer_id])"

lemma example_source_eq:
  "example_source = (table_new 1)\<lparr>rt_buffers :=
     \<lparr>sl_slots = [\<lparr>slot_desc = Some mirrored_buffer, slot_generation = 0, slot_next = None\<rparr>], sl_free = None\<rparr>\<rparr>"
  "example_released = (table_new 1)\<lparr>rt_buffers :=
     \<lparr>sl_slots = [\<lparr>slot_desc = None, slot_generation = 1, slot_next = None\<rparr>], sl_free = Some 0\<rparr>\<rparr>"
  by (simp_all add: example_source_def example_released_def run_table mirrored_buffer_id_def buffer_ref_def)

lemma example_source_transferable: "transferable (example_source)" "transferable (example_released)"
  
  by (simp_all add: transferable_def example_source_eq table_new_def slots_new_def live_all_def rows_fit_def Let_def
    put_slot_def put_u64_def put_option_def put_bool_def put_buffer_desc_def mirrored_buffer_def buffer_accepted_def buffer_desc_new_def
    flags_ok_def usage_contains_def usize_limit_def)

lemma fresh_in_step: "in_step (abi_state_new own) (table_run number [])"
  by (simp add: in_step_def mirrors_def caches_coherent_def abi_state_new_def table_run_def table_new_def slots_new_def
      coherent_def)

section \<open>Properties\<close>

text \<open>
  C39. A mirror follows its source. A fresh mirror is in step with a fresh table. If a mirror is in
  step with a table as it was, and the table has since gone through any definitions and releases,
  then applying the snapshot of the table succeeds and brings the mirror in step again: every
  category shows the source's slots, generations and descriptors, under the mirror's own number,
  whether a row was compared, re-encoded or decoded; and what the caches keep is again the encoding of
  what the mirror holds. This needs memory for the import, a nonzero table number and revision, and a
  source whose rows can be read: no live texture is one-dimensional, no live bind group has a view of a
  released texture (see \<open>one_dimension_is_lost\<close>, \<open>released_view_is_reachable\<close> and
  \<open>released_view_is_unreadable\<close>), every descriptor is one its constructor accepts and the
  length of every row fits a word.
\<close>

theorem mirrors_follow_their_source:
  assumes "in_step m (table_run number before)" and "s = table_run number (before @ after)" and "transferable s"
    and "0 < number" and "number < usize_limit" and "revision \<noteq> 0"
  shows "in_step (abi_state_new own) (table_run number []) \<and>
    (\<exists>m'. sync_abi_snapshot ample (encode_table revision s) m = (Inr (of_nat number, revision), m') \<and> in_step m' s \<and>
      rt_id (ab_table m') = rt_id (ab_table m))"
proof -
  have "bounds_ok (table_run number before)"
    using table_run_ok by (simp add: table_ok_def)
  from table_steps_later [OF this, of after] have later: "later_table (table_run number before) s" and "bounds_ok s"
    by (simp_all add: assms(2) table_run_def)
  have "rt_id s = number"
  proof -
    have "later_table (table_new number) s"
      using table_steps_later [of "table_new number" "before @ after"] table_new_ok [of number]
      by (simp add: assms(2) table_run_def table_ok_def)
    then show ?thesis by (simp add: later_table_def table_new_def)
  qed
  moreover have "of_nat number \<noteq> (0 :: u64)"
    using assms(4,5) unat_of_nat_u64 [of number] by auto
  moreover have "in_step (abi_state_new own) (table_run number [])"
    by (rule fresh_in_step)
  ultimately show ?thesis
    using sync_follows [OF assms(1) later \<open>bounds_ok s\<close> assms(3) _ assms(6)] by simp
qed

theorem mirrors_follow_their_source_witness:
  "\<exists>m'. sync_abi_snapshot ample (encode_table 2 example_source) (abi_state_new 7) = (Inr (1, 2), m') \<and>
    in_step m' example_source \<and> rt_id (ab_table m') = 7"
proof -
  have source: "example_source = table_run 1 ([] @ [DefineBuffer True mirrored_buffer])"
    by (simp add: example_source_def)
  have "(0 :: nat) < 1" "(1 :: nat) < usize_limit" "(2 :: u64) \<noteq> 0" by (simp_all add: usize_limit_def)
  from mirrors_follow_their_source [OF fresh_in_step source example_source_transferable(1) this, of 7 7]
  show ?thesis by (simp add: abi_state_new_def table_new_def)
qed

text \<open>The rows of a table that can be sent are short, and there are no more of them than a reader takes.\<close>

lemma category_fits:
  assumes "transferable s"
  shows "list_all (\<lambda>x. length (put_slot put_texture_desc x) < usize_limit) (sl_slots (rt_textures s))"
    and "list_all (\<lambda>x. length (put_slot put_buffer_desc x) < usize_limit) (sl_slots (rt_buffers s))"
    and "list_all (\<lambda>x. length (put_sampler_desc x) < usize_limit) (rt_samplers s)"
    and "list_all (\<lambda>x. length (put_render_pipeline x) < usize_limit) (rt_pipelines s)"
    and "list_all (\<lambda>x. length (put_slot put_shader_module x) < usize_limit) (sl_slots (rt_shaders s))"
    and "list_all (\<lambda>x. length (put_slot put_bind_group x) < usize_limit) (sl_slots (rt_bind_groups s))"
    and "list_all (\<lambda>x. length (put_slot put_compute_pipeline x) < usize_limit)
           (map (slot_owned (compute_owned_by n)) (sl_slots (rt_compute s)))"
    and "list_all (\<lambda>x. length (put_slot put_programmable_pipeline x) < usize_limit)
           (map (slot_owned (programmable_owned_by n)) (sl_slots (rt_programmable s)))"
  using assms by (simp_all add: transferable_def Let_def rows_fit_def list_all_iff put_slot_owned)

lemma category_limits:
  "MAX_TEXTURES < usize_limit" "MAX_BUFFERS < usize_limit" "MAX_SAMPLERS < usize_limit" "MAX_RENDER_PIPELINES < usize_limit"
  "MAX_SHADER_MODULES < usize_limit" "MAX_BIND_GROUP_DEFINITIONS < usize_limit" "MAX_COMPUTE_PIPELINES < usize_limit"
  "MAX_PROGRAMMABLE_RENDER_PIPELINES < usize_limit"
  by (simp_all add: usize_limit_def)

lemma category_scans:
  assumes step: "in_step m s0" and later: "later_table s0 s" and bounds: "bounds_ok s" and fits: "transferable s"
  shows "\<exists>ids. scan_retired (ab_view m) (sl_slots (rt_textures (ab_table m))) MAX_TEXTURES
        (put_rows (put_slot put_texture_desc) (sl_slots (rt_textures s)) @ ws) = (Inr ids, ws) \<and>
      set ids = {i. live_texture (ab_table m) i \<noteq> None \<and> live_texture s (owned_by (rt_id s) i) = None}"
    and "\<exists>ids. scan_retired (ab_view m) (sl_slots (rt_buffers (ab_table m))) MAX_BUFFERS
        (put_rows (put_slot put_buffer_desc) (sl_slots (rt_buffers s)) @ ws) = (Inr ids, ws) \<and>
      set ids = {i. live_buffer (ab_table m) i \<noteq> None \<and> live_buffer s (owned_by (rt_id s) i) = None}"
    and "\<exists>ids. scan_retired (ab_view m) (sl_slots (rt_shaders (ab_table m))) MAX_SHADER_MODULES
        (put_rows (put_slot put_shader_module) (sl_slots (rt_shaders s)) @ ws) = (Inr ids, ws) \<and>
      set ids = {i. live_shader (ab_table m) i \<noteq> None \<and> live_shader s (owned_by (rt_id s) i) = None}"
    and "\<exists>ids. scan_retired (ab_view m) (sl_slots (rt_compute (ab_table m))) MAX_COMPUTE_PIPELINES
        (put_rows (put_slot put_compute_pipeline) (sl_slots (rt_compute s)) @ ws) = (Inr ids, ws) \<and>
      set ids = {i. live_compute (ab_table m) i \<noteq> None \<and> live_compute s (owned_by (rt_id s) i) = None}"
    and "\<exists>ids. scan_retired (ab_view m) (sl_slots (rt_programmable (ab_table m))) MAX_PROGRAMMABLE_RENDER_PIPELINES
        (put_rows (put_slot put_programmable_pipeline) (sl_slots (rt_programmable s)) @ ws) = (Inr ids, ws) \<and>
      set ids = {i. live_programmable (ab_table m) i \<noteq> None \<and> live_programmable s (owned_by (rt_id s) i) = None}"
proof -
  note sizes = category_sizes [OF bounds] and forward = category_forward [OF step later]
  note short = category_fits [OF fits]
  note same = list.map_id [symmetric] id_apply [THEN arg_cong] id_apply [THEN arg_cong]
  have owned: "owned_by (rt_id s) i = i\<lparr>id_owner := rt_id s\<rparr>" for i by (simp add: owned_by_def)
  have kept: "slot_generation (slot_owned f x) = slot_generation x" "slot_active (slot_owned f x) = slot_active x" for f x
    by (simp_all add: slot_owned_def slot_active_def)
  show "\<exists>ids. scan_retired (ab_view m) (sl_slots (rt_textures (ab_table m))) MAX_TEXTURES
        (put_rows (put_slot put_texture_desc) (sl_slots (rt_textures s)) @ ws) = (Inr ids, ws) \<and>
      set ids = {i. live_texture (ab_table m) i \<noteq> None \<and> live_texture s (owned_by (rt_id s) i) = None}"
    unfolding owned by (rule scan_retired_later [OF forward(1) short(1) sizes(1) category_limits(1) same]) blast
  show "\<exists>ids. scan_retired (ab_view m) (sl_slots (rt_buffers (ab_table m))) MAX_BUFFERS
        (put_rows (put_slot put_buffer_desc) (sl_slots (rt_buffers s)) @ ws) = (Inr ids, ws) \<and>
      set ids = {i. live_buffer (ab_table m) i \<noteq> None \<and> live_buffer s (owned_by (rt_id s) i) = None}"
    unfolding owned by (rule scan_retired_later [OF forward(2) short(2) sizes(2) category_limits(2) same]) blast
  show "\<exists>ids. scan_retired (ab_view m) (sl_slots (rt_shaders (ab_table m))) MAX_SHADER_MODULES
        (put_rows (put_slot put_shader_module) (sl_slots (rt_shaders s)) @ ws) = (Inr ids, ws) \<and>
      set ids = {i. live_shader (ab_table m) i \<noteq> None \<and> live_shader s (owned_by (rt_id s) i) = None}"
    unfolding owned by (rule scan_retired_later [OF forward(5) short(5) sizes(5) category_limits(5) same]) blast
  have words: "put_rows (put_slot put_compute_pipeline) (map (slot_owned (compute_owned_by n)) cs) = put_rows (put_slot put_compute_pipeline) cs"
    "put_rows (put_slot put_programmable_pipeline) (map (slot_owned (programmable_owned_by n)) ps) =
       put_rows (put_slot put_programmable_pipeline) ps" for n cs ps
    by (simp_all add: put_rows_owned)
  have "length (map (slot_owned (compute_owned_by n)) (sl_slots (rt_compute s))) \<le> MAX_COMPUTE_PIPELINES" for n using sizes by simp
  note compute = scan_retired_later [OF forward(7) short(7) this category_limits(7) refl kept]
  show "\<exists>ids. scan_retired (ab_view m) (sl_slots (rt_compute (ab_table m))) MAX_COMPUTE_PIPELINES
        (put_rows (put_slot put_compute_pipeline) (sl_slots (rt_compute s)) @ ws) = (Inr ids, ws) \<and>
      set ids = {i. live_compute (ab_table m) i \<noteq> None \<and> live_compute s (owned_by (rt_id s) i) = None}"
    unfolding owned by (rule compute [unfolded words]) blast
  have "length (map (slot_owned (programmable_owned_by n)) (sl_slots (rt_programmable s))) \<le> MAX_PROGRAMMABLE_RENDER_PIPELINES" for n
    using sizes by simp
  note programmable = scan_retired_later [OF forward(8) short(8) this category_limits(8) refl kept]
  show "\<exists>ids. scan_retired (ab_view m) (sl_slots (rt_programmable (ab_table m))) MAX_PROGRAMMABLE_RENDER_PIPELINES
        (put_rows (put_slot put_programmable_pipeline) (sl_slots (rt_programmable s)) @ ws) = (Inr ids, ws) \<and>
      set ids = {i. live_programmable (ab_table m) i \<noteq> None \<and> live_programmable s (owned_by (rt_id s) i) = None}"
    unfolding owned by (rule programmable [unfolded words]) blast
qed

text \<open>
  C40. The scan that precedes an import names exactly what the import retires: for a mirror in step
  with a table as it was and a snapshot of the table as it is, whose rows can be read, the textures,
  buffers, shader modules, compute and programmable pipelines it lists are those that are live in the
  mirror and no longer live in the source.
\<close>

theorem retirement_scan_is_exact:
  assumes "in_step m (table_run number before)" and "s = table_run number (before @ after)" and "transferable s"
  shows "\<exists>textures buffers shaders compute programmable.
    abi_retired_resources (ab_view m) (encode_table revision s) = Inr (textures, buffers) \<and>
    abi_retired_buffers (ab_view m) (encode_table revision s) = Inr buffers \<and>
    abi_retired_programs (ab_view m) (encode_table revision s) = Inr (shaders, compute, programmable) \<and>
    set textures = {i. live_texture (ab_table m) i \<noteq> None \<and> live_texture s (owned_by (rt_id s) i) = None} \<and>
    set buffers = {i. live_buffer (ab_table m) i \<noteq> None \<and> live_buffer s (owned_by (rt_id s) i) = None} \<and>
    set shaders = {i. live_shader (ab_table m) i \<noteq> None \<and> live_shader s (owned_by (rt_id s) i) = None} \<and>
    set compute = {i. live_compute (ab_table m) i \<noteq> None \<and> live_compute s (owned_by (rt_id s) i) = None} \<and>
    set programmable = {i. live_programmable (ab_table m) i \<noteq> None \<and> live_programmable s (owned_by (rt_id s) i) = None}"
proof -
  have "bounds_ok (table_run number before)"
    using table_run_ok by (simp add: table_ok_def)
  from table_steps_later [OF this, of after] have later: "later_table (table_run number before) s" and bounds: "bounds_ok s"
    by (simp_all add: assms(2) table_run_def)
  note scans = category_scans [OF assms(1) later bounds assms(3)]
  let ?w8 = "put_rows (put_slot put_programmable_pipeline) (sl_slots (rt_programmable s))"
  let ?w7 = "put_rows (put_slot put_compute_pipeline) (sl_slots (rt_compute s)) @ ?w8"
  let ?w6 = "put_rows (put_slot put_bind_group) (sl_slots (rt_bind_groups s)) @ ?w7"
  let ?w5 = "put_rows (put_slot put_shader_module) (sl_slots (rt_shaders s)) @ ?w6"
  let ?w4 = "put_rows put_render_pipeline (rt_pipelines s) @ ?w5"
  let ?w3 = "put_rows put_sampler_desc (rt_samplers s) @ ?w4"
  let ?w2 = "put_rows (put_slot put_buffer_desc) (sl_slots (rt_buffers s)) @ ?w3"
  note textures = scans(1) [where ws = ?w2] and buffers = scans(2) [where ws = ?w3] and shaders = scans(3) [where ws = ?w6]
    and compute = scans(4) [where ws = ?w8] and programmable = scans(5) [where ws = "[]", unfolded append_Nil2]
  note skips = category_fits(1-4,6) [OF assms(3)] category_sizes(1-4,6) [OF bounds] category_limits(1-4,6)
  have words: "encode_table revision s = MAGIC # of_nat (rt_id s) # revision #
      put_rows (put_slot put_texture_desc) (sl_slots (rt_textures s)) @ ?w2"
    by (simp add: encode_table_def)
  have header: "reader_take 2 (a # b # ws) = (Inr [a, b], ws)" for a b ws
    by (simp add: reader_take_def eval_nat_numeral)
  have "\<exists>ts bs. abi_retired_resources (ab_view m) (encode_table revision s) = Inr (ts, bs) \<and>
      set ts = {i. live_texture (ab_table m) i \<noteq> None \<and> live_texture s (owned_by (rt_id s) i) = None} \<and>
      set bs = {i. live_buffer (ab_table m) i \<noteq> None \<and> live_buffer s (owned_by (rt_id s) i) = None}"
    using textures buffers by (auto simp: abi_retired_resources_def words header simp del: scan_rows.simps)
  moreover have "\<exists>ss cs ps. abi_retired_programs (ab_view m) (encode_table revision s) = Inr (ss, cs, ps) \<and>
      set ss = {i. live_shader (ab_table m) i \<noteq> None \<and> live_shader s (owned_by (rt_id s) i) = None} \<and>
      set cs = {i. live_compute (ab_table m) i \<noteq> None \<and> live_compute s (owned_by (rt_id s) i) = None} \<and>
      set ps = {i. live_programmable (ab_table m) i \<noteq> None \<and> live_programmable s (owned_by (rt_id s) i) = None}"
    using shaders compute programmable
    by (auto simp: abi_retired_programs_def words header skip_rows_put [OF skips(1,6,11)] skip_rows_put [OF skips(2,7,12)]
      skip_rows_put [OF skips(3,8,13)] skip_rows_put [OF skips(4,9,14)] skip_rows_put [OF skips(5,10,15)])
  ultimately show ?thesis by (auto simp: abi_retired_buffers_def)
qed

theorem retirement_scan_is_exact_witness:
  "\<exists>m. in_step m example_source \<and> rt_id (ab_table m) = 7 \<and>
    (\<exists>buffers. abi_retired_buffers (ab_view m) (encode_table 3 example_released) = Inr buffers \<and>
      set buffers = {\<lparr>id_owner = 7, id_index = 0, id_generation = 0\<rparr>})"
proof -
  have source: "example_source = table_run 1 [DefineBuffer True mirrored_buffer]" by (simp add: example_source_def)
  have "bounds_ok (table_run 1 [])" using table_run_ok by (simp add: table_ok_def)
  from table_steps_later [OF this, of "[DefineBuffer True mirrored_buffer]"]
  have "later_table (table_run 1 []) example_source" "bounds_ok example_source" by (simp_all add: source table_run_def)
  moreover have "of_nat (rt_id example_source) \<noteq> (0 :: u64)" by (simp add: example_source_eq table_new_def)
  ultimately obtain m where m: "in_step m example_source" and own: "rt_id (ab_table m) = rt_id (ab_table (abi_state_new 7))"
    using sync_follows [OF fresh_in_step [of 7 1] _ _ example_source_transferable(1), where revision = 2] by auto
  have own: "rt_id (ab_table m) = 7" unfolding own by (simp add: abi_state_new_def table_new_def)
  have views: "map slot_view (sl_slots (rt_buffers (ab_table m))) = [(0, Some mirrored_buffer)]"
    using m by (simp add: in_step_def mirrors_def Let_def example_source_eq slot_view_def)
  then obtain x where x: "sl_slots (rt_buffers (ab_table m)) = [x]" "slot_generation x = 0" "slot_desc x = Some mirrored_buffer"
    by (auto simp: slot_view_def)
  have "{i. live_buffer (ab_table m) i \<noteq> None \<and> live_buffer example_released (owned_by (rt_id example_released) i) = None} =
      {\<lparr>id_owner = 7, id_index = 0, id_generation = 0\<rparr>}"
    by (auto simp: store_lookup_def slots_read_def slots_validate_def ok_or_def x own example_source_eq table_new_def owned_by_def get_def
      intro: res_id.equality split: if_splits)
  with retirement_scan_is_exact [OF m [unfolded source] example_released_def example_source_transferable(2), of 3] m own
  show ?thesis by auto
qed

end
