(* ===== verification/Owned_Commands.thy ===== *)
theory Owned_Commands
  imports Stream_Properties "HOL-Library.Sublist"
begin

text \<open>
  Owned recordings, \<^verbatim>\<open>crates/sgfx-core/src/ir/owned.rs\<close>: commands that name their resources by
  identity and keep their upload data, as frontends hold them. Nothing is checked when a command is
  kept. Replaying a recording resolves every identity and makes the call of the command encoder that
  the command stands for; validating one does the same on an encoder that keeps no commands.
\<close>

section \<open>Recordings\<close>

record owned_depth_attachment =
  od_target :: texture_id
  od_load :: depth_load_op
  od_store :: store_op

record owned_render_pass_desc =
  op_target :: texture_id
  op_area :: pixel_rect
  op_load :: load_op
  op_store :: store_op
  op_depth :: "owned_depth_attachment option"

record owned_color_attachment =
  oc_target :: texture_id
  oc_load :: load_op
  oc_store :: store_op

datatype owned_resource_barrier =
    OwnedGlobal
  | OwnedTextureMip texture_id u32 texture_access texture_access
  | OwnedBuffer buffer_id buffer_access buffer_access
  | OwnedTexture texture_id texture_access texture_access

datatype owned_command =
    OwWriteTextureLayer texture_id u32 u32 pixel_rect u32 "u8 list"
  | OwWriteTextureMip texture_id u32 pixel_rect u32 "u8 list"
  | OwBlitTexture texture_id u32 texture_id u32 filter_mode
  | OwBlitTextureRegion texture_id u32 pixel_rect texture_id u32 pixel_rect filter_mode "bool \<times> bool"
  | OwWriteBuffer buffer_id u64 "u8 list"
  | OwWriteTexture texture_id pixel_rect u32 "u8 list"
  | OwCopyBufferToBuffer buffer_id u64 buffer_id u64 u64
  | OwCopyTextureToTexture texture_id pixel_rect texture_id pixel_rect
  | OwResourceBarrier owned_resource_barrier
  | OwBeginRenderPass owned_render_pass_desc
  | OwBeginRenderPassWithAttachments owned_render_pass_desc "owned_color_attachment list" bool
  | OwEndRenderPass
  | OwSetPipeline plain_id
  | OwSetProgrammablePipeline programmable_pipeline_id
  | OwSetBindGroup u32 bind_group_id
  | OwSetVertexBuffer buffer_id u64
  | OwSetVertexBufferSlot u32 buffer_id u64
  | OwSetIndexBuffer buffer_id u64 index_format
  | OwSetTexture texture_id
  | OwSetSampler plain_id
  | OwSetUniforms draw_uniforms
  | OwSetDrawIndex u32
  | OwSetScissor "pixel_rect option"
  | OwSetViewport viewport
  | OwSetPushConstants shader_stages u32 "u8 list"
  | OwDraw u32 u32
  | OwDrawInstanced u32 u32 u32 u32
  | OwDrawIndexedInstanced u32 u32 i32 u32 u32
  | OwDrawIndexed u32 u32 i32
  | OwBeginComputePass
  | OwEndComputePass
  | OwSetComputePipeline compute_pipeline_id
  | OwDispatch u32 u32 u32

section \<open>Resolving a command\<close>

definition resolve_pass :: "resource_table \<Rightarrow> owned_render_pass_desc \<Rightarrow> render_pass_desc ir_result" where
  "resolve_pass t d =
     and_then (texture_ref t (op_target d)) (\<lambda>target.
     and_then (render_pass_new t target (op_area d) (op_load d) (op_store d)) (\<lambda>desc.
       case op_depth d of
         None \<Rightarrow> Inr desc
       | Some depth \<Rightarrow> and_then (texture_ref t (od_target depth)) (\<lambda>x.
           with_depth_attachment t desc x (od_load depth) (od_store depth))))"

fun resolve_barrier :: "resource_table \<Rightarrow> owned_resource_barrier \<Rightarrow> resource_barrier ir_result" where
  "resolve_barrier t OwnedGlobal = Inr GlobalBarrier"
| "resolve_barrier t (OwnedTextureMip x mip before after) =
     and_then (texture_ref t x) (\<lambda>x. Inr (TextureMipBarrier x mip before after))"
| "resolve_barrier t (OwnedBuffer b before after) =
     and_then (buffer_ref t b) (\<lambda>b. Inr (BufferBarrier b before after))"
| "resolve_barrier t (OwnedTexture x before after) =
     and_then (texture_ref t x) (\<lambda>x. Inr (TextureBarrier x before after))"

fun resolve_colors ::
    "resource_table \<Rightarrow> render_pass_desc \<Rightarrow> owned_color_attachment list \<Rightarrow> render_pass_desc ir_result"
where
  "resolve_colors t desc [] = Inr desc"
| "resolve_colors t desc (c # cs) =
     and_then (texture_ref t (oc_target c)) (\<lambda>x.
     and_then (with_color_attachment t desc x (oc_load c) (oc_store c)) (\<lambda>desc. resolve_colors t desc cs))"

definition resolve_attachments ::
    "resource_table \<Rightarrow> owned_render_pass_desc \<Rightarrow> owned_color_attachment list \<Rightarrow> bool \<Rightarrow> render_pass_desc ir_result"
where
  "resolve_attachments t d colors ro =
     and_then (resolve_pass t d) (\<lambda>desc. and_then (resolve_colors t desc colors) (\<lambda>desc.
       if ro then with_read_only_depth desc else Inr desc))"

text \<open>The call a command makes outside passes, in a compute pass and in a render pass.\<close>

fun call_outside :: "resource_table \<Rightarrow> owned_command \<Rightarrow> encoder_call ir_result" where
  "call_outside t (OwWriteTextureLayer x mip layer destination stride data) =
     and_then (texture_ref t x) (\<lambda>x. and_then (texture_write_new destination stride data) (\<lambda>w.
       Inr (CallWriteTexture x (with_array_layer (with_mip_level w mip) layer))))"
| "call_outside t (OwWriteTextureMip x mip destination stride data) =
     and_then (texture_ref t x) (\<lambda>x. and_then (texture_write_new destination stride data) (\<lambda>w.
       Inr (CallWriteTexture x (with_mip_level w mip))))"
| "call_outside t (OwBlitTexture x xm y ym smoothing) =
     and_then (texture_ref t x) (\<lambda>x. and_then (texture_ref t y) (\<lambda>y. Inr (CallBlitTexture x xm y ym smoothing)))"
| "call_outside t (OwBlitTextureRegion x xm xr y ym yr smoothing flips) =
     and_then (texture_ref t x) (\<lambda>x. and_then (texture_ref t y) (\<lambda>y.
       Inr (CallBlitFlipped x xm xr y ym yr smoothing flips)))"
| "call_outside t (OwWriteBuffer b offset data) =
     and_then (buffer_ref t b) (\<lambda>b. Inr (CallWriteBuffer b offset data))"
| "call_outside t (OwWriteTexture x destination stride data) =
     and_then (texture_ref t x) (\<lambda>x. and_then (texture_write_new destination stride data) (\<lambda>w.
       Inr (CallWriteTexture x w)))"
| "call_outside t (OwCopyBufferToBuffer b bo c co n) =
     and_then (buffer_ref t b) (\<lambda>b. and_then (buffer_ref t c) (\<lambda>c. Inr (CallCopyBuffer b bo c co n)))"
| "call_outside t (OwCopyTextureToTexture x xr y yr) =
     and_then (texture_ref t x) (\<lambda>x. and_then (texture_ref t y) (\<lambda>y. Inr (CallCopyTexture x xr y yr)))"
| "call_outside t (OwResourceBarrier b) = and_then (resolve_barrier t b) (\<lambda>b. Inr (CallBarrier b))"
| "call_outside t (OwBeginRenderPass d) = and_then (resolve_pass t d) (\<lambda>d. Inr (CallBeginRender d))"
| "call_outside t (OwBeginRenderPassWithAttachments d colors ro) =
     and_then (resolve_attachments t d colors ro) (\<lambda>d. Inr (CallBeginRender d))"
| "call_outside t OwBeginComputePass = Inr CallBeginCompute"
| "call_outside t _ = Inl InvalidDescriptor"

fun call_in_compute :: "resource_table \<Rightarrow> owned_command \<Rightarrow> compute_call ir_result" where
  "call_in_compute t OwEndComputePass = Inr CallEndCompute"
| "call_in_compute t (OwSetComputePipeline i) =
     and_then (compute_pipeline_ref t i) (\<lambda>i. Inr (CallComputePipeline i))"
| "call_in_compute t (OwSetBindGroup n g) = and_then (bind_group_ref t g) (\<lambda>g. Inr (CallComputeGroup n g))"
| "call_in_compute t (OwDispatch x y z) = Inr (CallDispatch x y z)"
| "call_in_compute t (OwSetPushConstants stages offset data) = Inr (CallComputePushConstants stages offset data)"
| "call_in_compute t _ = Inl InvalidDescriptor"

fun call_in_render :: "resource_table \<Rightarrow> owned_command \<Rightarrow> render_call ir_result" where
  "call_in_render t OwEndRenderPass = Inr CallEndRender"
| "call_in_render t (OwSetPipeline i) = and_then (render_pipeline_ref t i) (\<lambda>i. Inr (CallPipeline i))"
| "call_in_render t (OwSetProgrammablePipeline i) =
     and_then (programmable_pipeline_ref t i) (\<lambda>i. Inr (CallProgrammablePipeline i))"
| "call_in_render t (OwSetBindGroup n g) = and_then (bind_group_ref t g) (\<lambda>g. Inr (CallGroup n g))"
| "call_in_render t (OwSetVertexBuffer b offset) = and_then (buffer_ref t b) (\<lambda>b. Inr (CallVertexBuffer b offset))"
| "call_in_render t (OwSetVertexBufferSlot n b offset) =
     and_then (buffer_ref t b) (\<lambda>b. Inr (CallVertexSlot n b offset))"
| "call_in_render t (OwSetIndexBuffer b offset format) =
     and_then (buffer_ref t b) (\<lambda>b. Inr (CallIndexBuffer b offset format))"
| "call_in_render t (OwSetTexture x) = and_then (texture_ref t x) (\<lambda>x. Inr (CallTexture x))"
| "call_in_render t (OwSetSampler i) = and_then (sampler_ref t i) (\<lambda>i. Inr (CallSampler i))"
| "call_in_render t (OwSetDrawIndex n) = Inr (CallDrawIndex n)"
| "call_in_render t (OwSetUniforms u) = Inr (CallUniforms u)"
| "call_in_render t (OwSetScissor s) = Inr (CallScissor s)"
| "call_in_render t (OwSetViewport v) = Inr (CallViewport v)"
| "call_in_render t (OwSetPushConstants stages offset data) = Inr (CallPushConstants stages offset data)"
| "call_in_render t (OwDraw n first) = Inr (CallDraw n first)"
| "call_in_render t (OwDrawIndexed n first base) = Inr (CallDrawIndexed n first base)"
| "call_in_render t (OwDrawInstanced n first instances start) = Inr (CallDrawInstanced n first instances start)"
| "call_in_render t (OwDrawIndexedInstanced n first base instances start) =
     Inr (CallDrawIndexedInstanced n first base instances start)"
| "call_in_render t _ = Inl InvalidDescriptor"

section \<open>Replay\<close>

definition refused :: "machine \<Rightarrow> 'c ir_result \<Rightarrow> ('c \<Rightarrow> unit ir_result \<times> machine) \<Rightarrow> unit ir_result \<times> machine" where
  "refused m call f = (case call of Inl x \<Rightarrow> (Inl x, m) | Inr k \<Rightarrow> f k)"

fun owned_step ::
    "resource_table \<Rightarrow> encoder_alloc \<Rightarrow> owned_command \<Rightarrow> machine \<Rightarrow> unit ir_result \<times> machine"
where
  "owned_step t mem c (e, NoPass) = refused (e, NoPass) (call_outside t c) (\<lambda>k. on_encoder t mem k e)"
| "owned_step t mem c (e, InCompute p) =
     refused (e, InCompute p) (call_in_compute t c) (\<lambda>k. on_compute t mem k (e, p))"
| "owned_step t mem c (e, InRender p) =
     refused (e, InRender p) (call_in_render t c) (\<lambda>k. on_render t mem k (e, p))"

text \<open>
  The loops of \<open>record_with\<close>: the outer one over commands outside passes, the inner ones up to the
  end of a pass. \<open>mem n\<close> is the memory the call for the command at \<open>n\<close> finds.
\<close>

fun owned_run ::
    "resource_table \<Rightarrow> (nat \<Rightarrow> encoder_alloc) \<Rightarrow> nat \<Rightarrow> owned_command list \<Rightarrow> machine \<Rightarrow> machine ir_result"
where
  "owned_run t mem n [] m = Inr m"
| "owned_run t mem n (c # cs) m =
     (case owned_step t (mem n) c m of
        (Inl x, _) \<Rightarrow> Inl x
      | (Inr _, m) \<Rightarrow> owned_run t mem (Suc n) cs m)"

definition record_with ::
    "resource_table \<Rightarrow> (nat \<Rightarrow> encoder_alloc) \<Rightarrow> owned_command list \<Rightarrow> encoder \<Rightarrow> command list ir_result"
where
  "record_with t mem cs e =
     and_then (owned_run t mem 0 cs (e, NoPass)) (\<lambda>(e, p).
       if p \<noteq> NoPass then Inl InvalidDescriptor else finish e)"

definition owned_record ::
    "resource_table \<Rightarrow> (nat \<Rightarrow> encoder_alloc) \<Rightarrow> owned_command list \<Rightarrow> command list ir_result"
where
  "owned_record t mem cs = record_with t mem cs encoder_new"

definition owned_validate ::
    "resource_table \<Rightarrow> (nat \<Rightarrow> encoder_alloc) \<Rightarrow> owned_command list \<Rightarrow> unit ir_result"
where
  "owned_validate t mem cs = done_unit (record_with t mem cs for_validation)"


section \<open>A recording is a client of the encoder\<close>

lemma refused_Inr: "refused m call f = (Inr u, m') \<longleftrightarrow> (\<exists>k. call = Inr k \<and> f k = (Inr u, m'))"
  by (cases call) (simp_all add: refused_def)

lemma owned_step_enc: "owned_step t mem c m = (Inr u, m') \<Longrightarrow> enc_step t mem m (Inr u, m')"
  by (cases "(t, mem, c, m)" rule: owned_step.cases) (simp_all add: refused_Inr, (metis enc_step.intros)+)

lemma owned_run_reach:
  "enc_reach t e0 m \<Longrightarrow> owned_run t mem n cs m = Inr m' \<Longrightarrow> enc_reach t e0 m'"
proof (induction cs arbitrary: n m)
  case (Cons c cs)
  then obtain u m1 where step: "owned_step t (mem n) c m = (Inr u, m1)" and "owned_run t mem (Suc n) cs m1 = Inr m'"
    by (auto split: prod.splits sum.splits)
  then show ?case using Cons.IH enc_reach.Call [OF Cons.prems(1) owned_step_enc [OF step]] by blast
qed simp

lemma record_with_Inr:
  "record_with t mem cs e = Inr stream \<longleftrightarrow> (\<exists>e'. owned_run t mem 0 cs (e, NoPass) = Inr (e', NoPass) \<and> finish e' = Inr stream)"
  by (auto simp: record_with_def and_then_Inr_iff split: if_splits)

section \<open>Validation\<close>

lemma owned_step_shadow:
  "mem SiteCommand \<Longrightarrow> owned_step t mem c (shadow e, p) = shadowed_machine (owned_step t mem c (e, p))"
  by (cases p) (auto simp: refused_def shadow_on shadowed_machine_def split: sum.split)

lemma owned_run_shadow:
  assumes "\<forall>n. mem n SiteCommand"
  shows "owned_run t mem n cs (shadow e, p) = and_then (owned_run t mem n cs (e, p)) (\<lambda>(e, p). Inr (shadow e, p))"
proof (induction cs arbitrary: n e p)
  case (Cons c cs)
  obtain r e' p' where "owned_step t (mem n) c (e, p) = (r, e', p')" by (metis prod_cases3)
  with Cons.IH show ?case
    by (cases r) (simp_all add: owned_step_shadow assms shadowed_machine_def)
qed simp

section \<open>The stream of a recording\<close>

definition whole_level :: "resource_table \<Rightarrow> texture_id \<Rightarrow> u32 \<Rightarrow> pixel_rect" where
  "whole_level t x mip = (case blit_whole t x mip of
     Inl _ \<Rightarrow> \<lparr>rect_x = 0, rect_y = 0, rect_width = 0, rect_height = 0\<rparr>
   | Inr e \<Rightarrow> \<lparr>rect_x = 0, rect_y = 0, rect_width = ext_width e, rect_height = ext_height e\<rparr>)"

fun barrier_of :: "owned_resource_barrier \<Rightarrow> resource_barrier" where
  "barrier_of OwnedGlobal = GlobalBarrier"
| "barrier_of (OwnedTextureMip x mip before after) = TextureMipBarrier x mip before after"
| "barrier_of (OwnedBuffer b before after) = BufferBarrier b before after"
| "barrier_of (OwnedTexture x before after) = TextureBarrier x before after"

definition owned_write :: "u32 \<Rightarrow> u32 \<Rightarrow> pixel_rect \<Rightarrow> u32 \<Rightarrow> u8 list \<Rightarrow> texture_write" where
  "owned_write mip layer destination stride data =
     \<lparr>tw_destination = destination, tw_bytes_per_row = stride, tw_data = data, tw_mip = mip, tw_layer = layer\<rparr>"

text \<open>The stream command an owned command stands for.\<close>

fun transcribe :: "resource_table \<Rightarrow> owned_command \<Rightarrow> command" where
  "transcribe t (OwWriteTextureLayer x mip layer destination stride data) =
     WriteTexture x (owned_write mip layer destination stride data)"
| "transcribe t (OwWriteTextureMip x mip destination stride data) = WriteTexture x (owned_write mip 0 destination stride data)"
| "transcribe t (OwBlitTexture x xm y ym smoothing) =
     BlitTexture x xm y ym (whole_level t x xm) (whole_level t y ym) smoothing (False, False)"
| "transcribe t (OwBlitTextureRegion x xm xr y ym yr smoothing flips) = BlitTexture x xm y ym xr yr smoothing flips"
| "transcribe t (OwWriteBuffer b offset data) = WriteBuffer b offset data"
| "transcribe t (OwWriteTexture x destination stride data) = WriteTexture x (owned_write 0 0 destination stride data)"
| "transcribe t (OwCopyBufferToBuffer b bo c co n) = CopyBufferToBuffer b bo c co n"
| "transcribe t (OwCopyTextureToTexture x xr y yr) = CopyTextureToTexture x xr y yr"
| "transcribe t (OwResourceBarrier b) = ResourceBarrier (barrier_of b)"
| "transcribe t (OwBeginRenderPass d) = BeginRenderPass (projr (resolve_pass t d))"
| "transcribe t (OwBeginRenderPassWithAttachments d colors ro) =
     BeginRenderPass (projr (resolve_attachments t d colors ro))"
| "transcribe t OwEndRenderPass = EndRenderPass"
| "transcribe t (OwSetPipeline i) = SetPipeline i"
| "transcribe t (OwSetProgrammablePipeline i) = SetProgrammablePipeline i"
| "transcribe t (OwSetBindGroup n g) = SetBindGroup n g"
| "transcribe t (OwSetVertexBuffer b offset) = SetVertexBuffer b offset"
| "transcribe t (OwSetVertexBufferSlot n b offset) = (if n = 0 then SetVertexBuffer b offset else SetVertexBufferSlot n b offset)"
| "transcribe t (OwSetIndexBuffer b offset format) = SetIndexBuffer b offset format"
| "transcribe t (OwSetTexture x) = SetTexture x"
| "transcribe t (OwSetSampler i) = SetSampler i"
| "transcribe t (OwSetUniforms u) = SetUniforms u"
| "transcribe t (OwSetDrawIndex n) = SetDrawIndex n"
| "transcribe t (OwSetScissor s) = SetScissor s"
| "transcribe t (OwSetViewport v) = SetViewport v"
| "transcribe t (OwSetPushConstants stages offset data) = SetPushConstants stages offset data"
| "transcribe t (OwDraw n first) = Draw n first"
| "transcribe t (OwDrawInstanced n first instances start) =
     (if instances = 1 \<and> start = 0 then Draw n first else DrawInstanced n first instances start)"
| "transcribe t (OwDrawIndexedInstanced n first base instances start) =
     (if instances = 1 \<and> start = 0 then DrawIndexed n first base else DrawIndexedInstanced n first base instances start)"
| "transcribe t (OwDrawIndexed n first base) = DrawIndexed n first base"
| "transcribe t OwBeginComputePass = BeginComputePass"
| "transcribe t OwEndComputePass = EndComputePass"
| "transcribe t (OwSetComputePipeline i) = SetComputePipeline i"
| "transcribe t (OwDispatch x y z) = Dispatch x y z"

text \<open>The setters, whose repetition the encoder leaves out.\<close>

fun is_setter :: "command \<Rightarrow> bool" where
  "is_setter (SetPipeline _) \<longleftrightarrow> True"
| "is_setter (SetProgrammablePipeline _) \<longleftrightarrow> True"
| "is_setter (SetComputePipeline _) \<longleftrightarrow> True"
| "is_setter (SetBindGroup _ _) \<longleftrightarrow> True"
| "is_setter (SetVertexBuffer _ _) \<longleftrightarrow> True"
| "is_setter (SetVertexBufferSlot _ _ _) \<longleftrightarrow> True"
| "is_setter (SetIndexBuffer _ _ _) \<longleftrightarrow> True"
| "is_setter (SetTexture _) \<longleftrightarrow> True"
| "is_setter (SetSampler _) \<longleftrightarrow> True"
| "is_setter (SetUniforms _) \<longleftrightarrow> True"
| "is_setter (SetScissor _) \<longleftrightarrow> True"
| "is_setter (SetViewport _) \<longleftrightarrow> True"
| "is_setter _ \<longleftrightarrow> False"

text \<open>
  The values that only draws read and that the replay of \<^verbatim>\<open>Command_Stream\<close> does not follow: sampler,
  uniforms, scissor and viewport. A render pass begins with none of them set.
\<close>

record registers =
  rg_sampler :: "plain_id option"
  rg_uniforms :: "draw_uniforms option"
  rg_scissor :: "pixel_rect option option"
  rg_viewport :: "viewport option"

definition registers_unset :: registers where
  "registers_unset = \<lparr>rg_sampler = None, rg_uniforms = None, rg_scissor = None, rg_viewport = None\<rparr>"

fun set_register :: "command \<Rightarrow> registers \<Rightarrow> registers" where
  "set_register (BeginRenderPass _) r = registers_unset"
| "set_register (SetSampler i) r = r\<lparr>rg_sampler := Some i\<rparr>"
| "set_register (SetUniforms u) r = r\<lparr>rg_uniforms := Some u\<rparr>"
| "set_register (SetScissor s) r = r\<lparr>rg_scissor := Some s\<rparr>"
| "set_register (SetViewport v) r = r\<lparr>rg_viewport := Some v\<rparr>"
| "set_register _ r = r"

text \<open>
  What replaying commands performs: every command that is not a setter, with all the bindings and
  values it is performed under.
\<close>

fun performed :: "resource_table \<Rightarrow> stream \<Rightarrow> registers \<Rightarrow> command list \<Rightarrow> (command \<times> stream \<times> registers) list" where
  "performed t s r [] = []"
| "performed t s r (c # cs) =
     (if is_setter c then [] else [(c, s, r)]) @ performed t (stream_step t c s) (set_register c r) cs"

fun holds_registers :: "open_pass \<Rightarrow> registers \<Rightarrow> bool" where
  "holds_registers (InRender p) r \<longleftrightarrow> rg_sampler r = rps_sampler p \<and> rg_uniforms r = rps_uniforms p \<and>
     rg_scissor r = rps_scissor p \<and> rg_viewport r = rps_viewport p"
| "holds_registers _ r \<longleftrightarrow> True"

text \<open>What a command does to a recording encoder: one more command, or nothing for a repeated setter.\<close>

definition writes_down :: "command \<Rightarrow> machine \<Rightarrow> machine \<Rightarrow> bool" where
  "writes_down c m m' \<longleftrightarrow> en_commands (fst m') = en_commands (fst m) @ [c] \<or>
     m' = m \<and> is_setter c \<and> (\<forall>e s. agrees (snd m) e s \<longrightarrow> advance_binding c s = s) \<and>
     (\<forall>r. holds_registers (snd m) r \<longrightarrow> set_register c r = r)"

lemma reference_same:
  "texture_ref t i = Inr j \<Longrightarrow> j = i" "buffer_ref t i = Inr j \<Longrightarrow> j = i" "bind_group_ref t i = Inr j \<Longrightarrow> j = i"
  "compute_pipeline_ref t i = Inr j \<Longrightarrow> j = i" "programmable_pipeline_ref t i = Inr j \<Longrightarrow> j = i"
  "sampler_ref t k = Inr l \<Longrightarrow> l = k" "render_pipeline_ref t k = Inr l \<Longrightarrow> l = k"
  by (auto simp: texture_ref_def buffer_ref_def bind_group_ref_def compute_pipeline_ref_def programmable_pipeline_ref_def
      sampler_ref_def render_pipeline_ref_def validate_plain_def slots_validate_def split: if_splits option.splits)

lemma resolve_barrier_Inr: "resolve_barrier t b = Inr b' \<Longrightarrow> b' = barrier_of b"
  by (cases b) (auto simp: and_then_Inr_iff dest: reference_same)

lemma blit_texture_push:
  assumes "blit_texture t mem x xm y ym smoothing e = (Inr (), e')"
  shows "\<exists>checks. checked_push checks mem (BlitTexture x xm y ym (whole_level t x xm) (whole_level t y ym) smoothing (False, False)) e =
    (Inr (), e')"
  using assms by (auto simp: blit_texture_def then_do_Inr and_then_Inr_iff whole_level_def pixel_rect_new_def
      blit_texture_region_def blit_texture_region_flipped_def split: if_splits)

lemma outside_writes_down:
  assumes "call_outside t c = Inr k" and "on_encoder t mem k e = (Inr u, e', p')" and "\<not> en_validation_only e"
  shows "en_commands e' = en_commands e @ [transcribe t c]"
proof -
  have push: "checked_push checks mem c e = (Inr (), e') \<Longrightarrow> en_commands e' = en_commands e @ [c]" for checks c
    using assms(3) by (auto dest!: checked_push_Inr simp: records_def)
  have blit: "blit_texture t mem x xm y ym smoothing e = (Inr (), e') \<Longrightarrow> en_commands e' = en_commands e @
      [BlitTexture x xm y ym (whole_level t x xm) (whole_level t y ym) smoothing (False, False)]" for x xm y ym smoothing
    using blit_texture_push push by blast
  have barrier: "enc_resource_barrier t mem b e = (Inr (), e') \<Longrightarrow> en_commands e' = en_commands e @ [ResourceBarrier b]" for b
    using assms(3) by (auto simp: enc_resource_barrier_def then_do_Inr split: if_splits dest!: enc_push_records simp: records_def)
  have compute: "begin_compute_pass mem e = (Inr q, e') \<Longrightarrow> en_commands e' = en_commands e @ [BeginComputePass]" for q
    using assms(3) by (auto simp: begin_compute_pass_def then_do_Inr dest!: enc_push_records simp: records_def)
  have render: "begin_render_pass t mem d e = (Inr q, e') \<Longrightarrow> en_commands e' = en_commands e @ [BeginRenderPass d]" for d q
    using assms(3) by (auto simp: begin_render_pass_def then_do_Inr dest!: enc_push_records simp: records_def)
  show ?thesis using assms(1,2)
    by (cases c) (auto simp: and_then_Inr_iff call_results transfer_defs owned_write_def texture_write_new_def
        with_array_layer_def with_mip_level_def dest!: reference_same push blit barrier compute render resolve_barrier_Inr
        split: if_splits)
qed

text \<open>A setter that finds its value bound changes nothing, and neither would its command.\<close>

lemma bound_already:
  "st_pipeline s = i \<Longrightarrow> s\<lparr>st_pipeline := i\<rparr> = s" "st_index s = x \<Longrightarrow> s\<lparr>st_index := x\<rparr> = s"
  "st_texture s = y \<Longrightarrow> s\<lparr>st_texture := y\<rparr> = s" "v ! n = z \<Longrightarrow> v[n := z] = v"
  "st_groups s = g \<Longrightarrow> s\<lparr>st_groups := g\<rparr> = s" "st_vertex s = w \<Longrightarrow> s\<lparr>st_vertex := w\<rparr> = s"
  by (cases s; auto)+

lemma held_already:
  "rg_sampler r = a \<Longrightarrow> r\<lparr>rg_sampler := a\<rparr> = r" "rg_uniforms r = b \<Longrightarrow> r\<lparr>rg_uniforms := b\<rparr> = r"
  "rg_scissor r = c \<Longrightarrow> r\<lparr>rg_scissor := c\<rparr> = r" "rg_viewport r = d \<Longrightarrow> r\<lparr>rg_viewport := d\<rparr> = r"
  by (cases r; auto)+

text \<open>Values that compare equal bit by bit are equal.\<close>

lemma same_bits:
  "(case m of None \<Rightarrow> False | Some u \<Rightarrow> columns (du_transform u) = columns (du_transform v) \<and>
     color_components (du_color u) = color_components (du_color v)) \<longleftrightarrow> m = Some (v :: draw_uniforms)"
  "(case n of None \<Rightarrow> False | Some w \<Rightarrow> viewport_components w = viewport_components x) \<longleftrightarrow> n = Some (x :: viewport)"
proof -
  have "columns (du_transform u) = columns (du_transform v) \<and> color_components (du_color u) = color_components (du_color v) \<longleftrightarrow> u = v"
    for u by (auto simp: color_components_def intro!: draw_uniforms.equality transform.equality color.equality)
  then show "(case m of None \<Rightarrow> False | Some u \<Rightarrow> columns (du_transform u) = columns (du_transform v) \<and>
     color_components (du_color u) = color_components (du_color v)) \<longleftrightarrow> m = Some v" by (simp split: option.split)
  have "viewport_components w = viewport_components x \<longleftrightarrow> w = x" for w
    by (auto simp: viewport_components_def intro!: viewport.equality)
  then show "(case n of None \<Rightarrow> False | Some w \<Rightarrow> viewport_components w = viewport_components x) \<longleftrightarrow> n = Some x"
    by (simp split: option.split)
qed

lemma setter_writes_down:
  "setter checks bound mem c f (e, p) = (Inr (), e', p') \<Longrightarrow> \<not> en_validation_only e \<Longrightarrow>
     en_commands e' = en_commands e @ [c] \<or> bound \<and> e' = e \<and> p' = p"
  using setter_Inr by (fastforce simp: records_def)

lemma writes_down_nothing [simp]:
  "writes_down c m m \<longleftrightarrow> is_setter c \<and> (\<forall>e s. agrees (snd m) e s \<longrightarrow> advance_binding c s = s) \<and>
     (\<forall>r. holds_registers (snd m) r \<longrightarrow> set_register c r = r)"
  by (auto simp: writes_down_def)

lemma writes_down_once [simp]: "en_commands e' = en_commands e @ [c] \<Longrightarrow> writes_down c (e, q) (e', q')"
  by (simp add: writes_down_def)

lemma end_writes_down:
  "end_pass mem c e = (Inr (), e') \<Longrightarrow> \<not> en_validation_only e \<Longrightarrow> en_commands e' = en_commands e @ [c]"
  by (auto simp: end_pass_def push_pass_end_def then_do_Inr split: if_splits)

lemma dispatch_writes_down:
  "dispatch t mem x y z (e, p) = (Inr (), e', p') \<Longrightarrow> \<not> en_validation_only e \<Longrightarrow>
     en_commands e' = en_commands e @ [Dispatch x y z]"
  by (auto simp: dispatch_def records_def split: sum.splits prod.splits dest!: record_with_writes_records)

lemma compute_writes_down:
  assumes "call_in_compute t c = Inr k" and "on_compute t mem k (e, p) = (Inr u, m')" and "\<not> en_validation_only e"
  shows "writes_down (transcribe t c) (e, InCompute p) m'"
proof -
  obtain e' q where m': "m' = (e', q)" by (cases m')
  show ?thesis using assms unfolding m'
    by (cases c)
      (auto simp: and_then_Inr_iff call_results compute_set_push_constants_def compute_set_pipeline_def compute_set_bind_group_def
        compute_agrees_def bound_already dispatch_writes_down [OF _ assms(3)] end_writes_down [OF _ assms(3)]
        dest!: reference_same setter_writes_down [OF _ assms(3)])
qed

lemma draw_writes_down:
  assumes "\<not> en_validation_only e"
  shows "draw_fixed t mem n first (e, p) = (Inr (), e', p') \<Longrightarrow> en_commands e' = en_commands e @ [Draw n first]"
    and "draw_indexed_fixed t mem n first base (e, p) = (Inr (), e', p') \<Longrightarrow>
           en_commands e' = en_commands e @ [DrawIndexed n first base]"
    and "draw_programmable t mem n first instances start (e, p) = (Inr (), e', p') \<Longrightarrow> en_commands e' = en_commands e @
           [if instances = 1 \<and> start = 0 then Draw n first else DrawInstanced n first instances start]"
    and "draw_indexed_programmable t mem n first base instances start (e, p) = (Inr (), e', p') \<Longrightarrow>
           en_commands e' = en_commands e @ [if instances = 1 \<and> start = 0 then DrawIndexed n first base
             else DrawIndexedInstanced n first base instances start]"
  using assms
  by (auto simp: draw_fixed_def draw_indexed_fixed_def draw_programmable_def draw_indexed_programmable_def
      record_fixed_def record_programmable_def records_def split: sum.splits prod.splits
      dest!: enc_push_records record_with_writes_records)

lemma render_writes_down:
  assumes "call_in_render t c = Inr k" and "on_render t mem k (e, p) = (Inr u, m')" and "\<not> en_validation_only e"
  shows "writes_down (transcribe t c) (e, InRender p) m'"
proof -
  obtain e' q where m': "m' = (e', q)" by (cases m')
  show ?thesis using assms unfolding m'
    by (cases c)
      (auto simp: and_then_Inr_iff call_results setter_defs render_agrees_def render_bound_def bound_already held_already same_bits draw_def
        draw_indexed_def draw_instanced_def draw_indexed_instanced_def set_vertex_buffer_slot_def
        end_writes_down [OF _ assms(3)] draw_writes_down [OF assms(3)]
        dest!: reference_same setter_writes_down [OF _ assms(3)] split: if_splits)
qed

lemma owned_step_writes_down:
  assumes "owned_step t mem c (e, p) = (Inr u, m')" and "\<not> en_validation_only e"
  shows "writes_down (transcribe t c) (e, p) m'"
proof (cases p)
  case NoPass
  obtain e' q where "m' = (e', q)" by (cases m')
  with assms NoPass show ?thesis using outside_writes_down by (fastforce simp: refused_Inr)
next
  case (InCompute q)
  with assms show ?thesis using compute_writes_down [of t c _ mem e q "()" m'] by (auto simp: refused_Inr)
next
  case (InRender q)
  with assms show ?thesis using render_writes_down [of t c _ mem e q "()" m'] by (auto simp: refused_Inr)
qed

text \<open>The pass encoder holds the values the recorded commands set.\<close>

lemma setter_holds:
  "setter checks bound mem c f (e, p) = (Inr (), e', p') \<Longrightarrow> \<not> bound \<and> p' = f p \<or> bound \<and> p' = p"
  by (auto simp: setter_def push_in_pass_def split: sum.splits if_splits prod.splits)

lemma begin_holds:
  "begin_render_pass t mem d e = (Inr p, e') \<Longrightarrow> holds_registers (InRender p) registers_unset"
  by (auto simp: begin_render_pass_def then_do_Inr registers_unset_def)

lemma draws_hold:
  "draw_fixed t mem n first (e, p) = (Inr (), e', p') \<Longrightarrow> holds_registers (InRender p) r \<Longrightarrow> holds_registers (InRender p') r"
  "draw_indexed_fixed t mem n first base (e, p) = (Inr (), e', p') \<Longrightarrow> holds_registers (InRender p) r \<Longrightarrow> holds_registers (InRender p') r"
  "draw_programmable t mem n first instances start (e, p) = (Inr (), e', p') \<Longrightarrow>
     holds_registers (InRender p) r \<Longrightarrow> holds_registers (InRender p') r"
  "draw_indexed_programmable t mem n first base instances start (e, p) = (Inr (), e', p') \<Longrightarrow>
     holds_registers (InRender p) r \<Longrightarrow> holds_registers (InRender p') r"
  by (auto simp: draw_fixed_def draw_indexed_fixed_def draw_programmable_def draw_indexed_programmable_def
      record_fixed_def record_programmable_def split: sum.splits prod.splits)

lemma render_holds:
  assumes "call_in_render t c = Inr k" and "on_render t mem k (e, p) = (Inr u, e', q)" and "holds_registers (InRender p) r"
  shows "holds_registers q (set_register (transcribe t c) r)"
  using assms
  by (cases c)
    (auto simp: and_then_Inr_iff call_results setter_defs draw_def draw_indexed_def draw_instanced_def
      draw_indexed_instanced_def set_vertex_buffer_slot_def same_bits
      dest!: reference_same setter_holds draws_hold [where r = r] split: if_splits)

lemma owned_step_holds:
  assumes "owned_step t mem c (e, p) = (Inr u, e', q)" and "holds_registers p r"
  shows "holds_registers q (set_register (transcribe t c) r)"
proof (cases p)
  case NoPass
  with assms show ?thesis
    by (cases c) (auto simp: refused_Inr and_then_Inr_iff call_results dest!: begin_holds)
next
  case (InCompute s)
  with assms show ?thesis by (cases c) (auto simp: refused_Inr and_then_Inr_iff call_results)
next
  case (InRender s)
  with assms show ?thesis using render_holds by (fastforce simp: refused_Inr)
qed

lemma setter_step: "is_setter c \<Longrightarrow> advance_binding c s = s \<Longrightarrow> stream_step t c s = s"
  by (cases c) (simp_all add: stream_step_def)

lemma owned_step_replay:
  assumes "enc_reach t encoder_new m" and step: "owned_step t mem c m = (Inr u, m')" and regs: "holds_registers (snd m) r"
  shows "\<exists>kept. en_commands (fst m') = en_commands (fst m) @ kept \<and>
    (kept = [transcribe t c] \<or> kept = [] \<and> is_setter (transcribe t c) \<and> set_register (transcribe t c) r = r) \<and>
    replay_stream t (en_commands (fst m')) = stream_step t (transcribe t c) (replay_stream t (en_commands (fst m)))"
proof -
  obtain s where "tracks t m s" using reach_tracked [OF assms(1)] ..
  then have "\<not> en_validation_only (fst m)" and s: "s = replay_stream t (en_commands (fst m))" and agree: "agrees (snd m) (fst m) s"
    by (auto simp: tracks_def core_def)
  moreover have "owned_step t mem c (fst m, snd m) = (Inr u, m')" using step by simp
  ultimately have "writes_down (transcribe t c) m m'" using owned_step_writes_down by fastforce
  moreover have "stream_step t (transcribe t c) s = s"
    if "is_setter (transcribe t c)" "\<forall>e s. agrees (snd m) e s \<longrightarrow> advance_binding (transcribe t c) s = s"
    using that agree setter_step by blast
  ultimately show ?thesis using s regs by (auto simp: writes_down_def)
qed

text \<open>What a run keeps of a recording: all but setters that repeat their value.\<close>

definition keeps :: "resource_table \<Rightarrow> owned_command list \<Rightarrow> command list \<Rightarrow> bool" where
  "keeps t cs kept \<longleftrightarrow> subseq kept (map (transcribe t) cs) \<and>
     filter (\<lambda>c. \<not> is_setter c) kept = filter (\<lambda>c. \<not> is_setter c) (map (transcribe t) cs)"

lemma owned_run_replay:
  assumes "enc_reach t encoder_new m" and "owned_run t mem n cs m = Inr m'" and "holds_registers (snd m) r"
  shows "\<exists>kept. en_commands (fst m') = en_commands (fst m) @ kept \<and> keeps t cs kept \<and>
    replay_stream t (en_commands (fst m')) = fold (stream_step t) (map (transcribe t) cs) (replay_stream t (en_commands (fst m))) \<and>
    performed t (replay_stream t (en_commands (fst m))) r kept =
      performed t (replay_stream t (en_commands (fst m))) r (map (transcribe t) cs)"
  using assms
proof (induction cs arbitrary: n m r)
  case Nil
  then show ?case by (simp add: keeps_def)
next
  case (Cons c cs)
  then obtain u m1 where step: "owned_step t (mem n) c m = (Inr u, m1)" and rest: "owned_run t mem (Suc n) cs m1 = Inr m'"
    by (auto split: prod.splits sum.splits)
  have regs: "holds_registers (snd m1) (set_register (transcribe t c) r)"
    using owned_step_holds [of t "mem n" c "fst m" "snd m" u "fst m1" "snd m1"] step Cons.prems(3) by simp
  from owned_step_replay [OF Cons.prems(1) step Cons.prems(3)] obtain first where
      "en_commands (fst m1) = en_commands (fst m) @ first"
      "first = [transcribe t c] \<or> first = [] \<and> is_setter (transcribe t c) \<and> set_register (transcribe t c) r = r"
      "replay_stream t (en_commands (fst m1)) = stream_step t (transcribe t c) (replay_stream t (en_commands (fst m)))" by blast
  with Cons.IH [OF enc_reach.Call [OF Cons.prems(1) owned_step_enc [OF step]] rest regs] show ?case
    by (auto simp: keeps_def)
qed

section \<open>Properties\<close>

text \<open>
  C28. A recording that replays gives a stream that does what it says: the stream holds, in order, the
  transcription of its commands, of which only setters are left out, and only without effect: each
  draw, dispatch, transfer, barrier, pass boundary, draw index and push-constant update is performed
  under exactly the pipeline, bind groups, vertex and index buffers, texture, sampler, uniforms,
  scissor and viewport that performing every command of the recording would give it. Replaying the
  stream ends in the state that replaying every command would reach; and it is a stream of the encoder,
  legal at each command, with no pass open and within the command limit.
\<close>

theorem recording_transcribed:
  assumes "owned_record t mem cs = Inr stream"
  shows "keeps t cs stream \<and>
    performed t stream_start registers_unset stream = performed t stream_start registers_unset (map (transcribe t) cs) \<and>
    replay_stream t stream = replay_stream t (map (transcribe t) cs) \<and>
    holds_along t (legal t) stream_start stream \<and> st_pass (replay_stream t stream) = Outside \<and>
    length stream \<le> MAX_COMMANDS"
proof -
  obtain e where run: "owned_run t mem 0 cs (encoder_new, NoPass) = Inr (e, NoPass)" and fin: "finish e = Inr stream"
    using assms by (auto simp: owned_record_def record_with_Inr)
  note reach = owned_run_reach [OF enc_reach.Start run]
  from fin have "en_commands e = stream" by (simp add: finish_Inr)
  with owned_run_replay [OF enc_reach.Start run, of registers_unset] have "keeps t cs stream"
    and "replay_stream t stream = replay_stream t (map (transcribe t) cs)"
    and "performed t stream_start registers_unset stream = performed t stream_start registers_unset (map (transcribe t) cs)"
    by (auto simp: replay_stream_def encoder_new_def)
  moreover have "length stream \<le> MAX_COMMANDS"
    using reach_tracked [OF reach] fin by (auto simp: tracks_def core_def finish_Inr)
  ultimately show ?thesis using finished_legal [OF reach fin] by blast
qed

definition example_recording :: "owned_command list" where
  "example_recording = [OwBeginComputePass, OwSetComputePipeline (rid 0), OwSetBindGroup 0 (rid 0), OwSetBindGroup 0 (rid 0),
     OwDispatch 8 1 1, OwEndComputePass, OwResourceBarrier (OwnedBuffer (rid 0) BufStorageReadWrite BufCopySource),
     OwCopyBufferToBuffer (rid 0) 0 (rid 1) 0 64]"

lemma example_recorded_stream: "owned_record example_table (\<lambda>_ _. True) example_recording = Inr example_stream"
  by code_simp

theorem recording_transcribed_witness:
  "owned_record example_table (\<lambda>_ _. True) example_recording = Inr example_stream \<and>
   replay_stream example_table example_stream = replay_stream example_table (map (transcribe example_table) example_recording)"
  using recording_transcribed [OF example_recorded_stream] example_recorded_stream by blast

text \<open>
  C29. Validating a recording is exact: with memory for each command, it reports what recording it would
  report, success or the same error, without keeping a stream.
\<close>

theorem validation_exact:
  assumes "\<forall>n. mem n SiteCommand"
  shows "owned_validate t mem cs = done_unit (owned_record t mem cs)"
proof -
  have fresh: "for_validation = shadow encoder_new" by (simp add: for_validation_def encoder_new_def shadow_def)
  show ?thesis
    by (cases "owned_run t mem 0 cs (encoder_new, NoPass)")
      (auto simp: owned_validate_def owned_record_def record_with_def fresh owned_run_shadow assms finish_def done_unit_def)
qed

theorem validation_exact_witness:
  "owned_validate example_table (\<lambda>_ _. True) example_recording = Inr () \<and>
   owned_validate example_table (\<lambda>_ _. True) [OwEndComputePass] = Inl InvalidDescriptor"
proof -
  have "owned_record example_table (\<lambda>_ _. True) [OwEndComputePass] = Inl InvalidDescriptor" by code_simp
  then show ?thesis
    using validation_exact [of "\<lambda>_ _. True" example_table] example_recorded_stream by (simp add: done_unit_def)
qed

end
