(* ===== verification/Upload_Batches.thy ===== *)
theory Upload_Batches
  imports Owned_Commands
begin

text \<open>
  Cutting a recording into batches that pace its texture uploads,
  \<^verbatim>\<open>crates/vulkan-sgfx/src/upload_batches.rs\<close>. A recording is cut outside passes only, before a
  command that would need a new native plan and wherever the uploads of a batch would exceed the
  budget; an upload larger than the budget is cut into rows. A result is \<open>None\<close> where the code panics.
\<close>

section \<open>Bytes and plans\<close>

fun upload_bytes :: "owned_command \<Rightarrow> usize option" where
  "upload_bytes (OwWriteTexture _ _ _ data) = Some (length data)"
| "upload_bytes (OwWriteTextureMip _ _ _ _ data) = Some (length data)"
| "upload_bytes (OwWriteTextureLayer _ _ _ _ _ data) = Some (length data)"
| "upload_bytes (OwWriteBuffer _ _ _) = Some 0"
| "upload_bytes (OwResourceBarrier (OwnedTexture _ _ _)) = Some 0"
| "upload_bytes (OwResourceBarrier (OwnedTextureMip _ _ _ _)) = Some 0"
| "upload_bytes (OwCopyTextureToTexture _ _ _ _) = Some 0"
| "upload_bytes (OwBlitTexture _ _ _ _ _) = Some 0"
| "upload_bytes (OwBlitTextureRegion _ _ _ _ _ _ _ _) = Some 0"
| "upload_bytes _ = None"

definition upload_length :: "owned_command \<Rightarrow> usize" where
  "upload_length c = (case upload_bytes c of None \<Rightarrow> 0 | Some n \<Rightarrow> n)"

record plan_boundary =
  pb_rendered :: bool
  pb_computed :: bool

definition plan_default :: plan_boundary where
  "plan_default = \<lparr>pb_rendered = False, pb_computed = False\<rparr>"

fun requires_split :: "plan_boundary \<Rightarrow> owned_command \<Rightarrow> bool" where
  "requires_split p (OwWriteBuffer _ _ _) \<longleftrightarrow> pb_rendered p"
| "requires_split p (OwCopyBufferToBuffer _ _ _ _ _) \<longleftrightarrow> pb_rendered p"
| "requires_split p OwBeginComputePass \<longleftrightarrow> pb_rendered p"
| "requires_split p (OwBeginRenderPass _) \<longleftrightarrow> pb_computed p"
| "requires_split p (OwBeginRenderPassWithAttachments _ _ _) \<longleftrightarrow> pb_computed p"
| "requires_split p _ \<longleftrightarrow> False"

fun plan_record :: "owned_command \<Rightarrow> plan_boundary \<Rightarrow> plan_boundary" where
  "plan_record (OwBeginRenderPass _) p = p\<lparr>pb_rendered := True\<rparr>"
| "plan_record (OwBeginRenderPassWithAttachments _ _ _) p = p\<lparr>pb_rendered := True\<rparr>"
| "plan_record OwBeginComputePass p = p\<lparr>pb_computed := True\<rparr>"
| "plan_record _ p = p"

text \<open>One command of the scan of \<open>needs_batches\<close>; \<open>None\<close> is its early \<open>return true\<close>.\<close>

fun scan_plan :: "owned_command \<Rightarrow> bool \<Rightarrow> bool \<Rightarrow> (bool \<times> bool) option" where
  "scan_plan (OwWriteBuffer _ _ _) rendered computed = (if rendered then None else Some (rendered, computed))"
| "scan_plan (OwCopyBufferToBuffer _ _ _ _ _) rendered computed = (if rendered then None else Some (rendered, computed))"
| "scan_plan OwBeginComputePass rendered computed = (if rendered then None else Some (rendered, True))"
| "scan_plan (OwBeginRenderPass _) rendered computed = (if computed then None else Some (True, computed))"
| "scan_plan (OwBeginRenderPassWithAttachments _ _ _) rendered computed = (if computed then None else Some (True, computed))"
| "scan_plan _ rendered computed = Some (rendered, computed)"

fun needs_batches_from :: "usize \<Rightarrow> bool \<Rightarrow> bool \<Rightarrow> usize \<Rightarrow> owned_command list \<Rightarrow> bool" where
  "needs_batches_from budget rendered computed bytes [] \<longleftrightarrow> False"
| "needs_batches_from budget rendered computed bytes (c # cs) \<longleftrightarrow>
     (case scan_plan c rendered computed of
        None \<Rightarrow> True
      | Some (rendered, computed) \<Rightarrow>
          (let bytes = usize_saturating_add bytes (upload_length c)
           in bytes > budget \<or> needs_batches_from budget rendered computed bytes cs))"

definition needs_batches :: "owned_command list \<Rightarrow> usize \<Rightarrow> bool" where
  "needs_batches cs budget \<longleftrightarrow> needs_batches_from budget False False 0 cs"

section \<open>Splitting\<close>

record splitting =
  sp_batches :: "owned_command list list"
  sp_batch :: "owned_command list"
  sp_bytes :: usize
  sp_in_pass :: bool
  sp_plan :: plan_boundary

definition splitting_start :: splitting where
  "splitting_start = \<lparr>sp_batches = [], sp_batch = [], sp_bytes = 0, sp_in_pass = False, sp_plan = plan_default\<rparr>"

definition close_batch :: "splitting \<Rightarrow> splitting" where
  "close_batch s = s\<lparr>sp_batches := sp_batches s @ [sp_batch s], sp_batch := [], sp_bytes := 0, sp_plan := plan_default\<rparr>"

definition split_push :: "usize \<Rightarrow> owned_command \<Rightarrow> splitting \<Rightarrow> splitting option" where
  "split_push budget c s =
     (let s = (if usize_saturating_add (sp_bytes s) (upload_length c) > budget \<and> sp_batch s \<noteq> [] then close_batch s else s)
      in map_option (\<lambda>n. s\<lparr>sp_plan := plan_record c (sp_plan s), sp_bytes := n, sp_batch := sp_batch s @ [c]\<rparr>)
           (usize_checked_add (sp_bytes s) (upload_length c)))"

type_synonym upload = "texture_id \<times> u32 \<times> u32 \<times> pixel_rect \<times> u32 \<times> u8 list"

fun upload_of :: "owned_command \<Rightarrow> upload option" where
  "upload_of (OwWriteTexture x rect stride data) = Some (x, 0, 0, rect, stride, data)"
| "upload_of (OwWriteTextureMip x mip rect stride data) = Some (x, mip, 0, rect, stride, data)"
| "upload_of (OwWriteTextureLayer x mip layer rect stride data) = Some (x, mip, layer, rect, stride, data)"
| "upload_of _ = None"

text \<open>The rows of a chunk, without the padding between them; a slice out of bounds panics.\<close>

fun gather_rows :: "u8 list \<Rightarrow> usize \<Rightarrow> usize \<Rightarrow> usize list \<Rightarrow> u8 list option" where
  "gather_rows data stride row_bytes [] = Some []"
| "gather_rows data stride row_bytes (y # ys) =
     (if y * stride + row_bytes > length data then None
      else map_option (\<lambda>rest. sub_slice data (y * stride) (y * stride + row_bytes) @ rest)
             (gather_rows data stride row_bytes ys))"

definition pixel_bytes :: "resource_table \<Rightarrow> texture_id \<Rightarrow> u32 ir_result" where
  "pixel_bytes t x = and_then (texture_ref t x) (\<lambda>x. and_then (table_texture t x) (\<lambda>desc.
     ok_or (bytes_per_pixel (tex_format desc)) InvalidValue))"

definition write_chunk :: "usize \<Rightarrow> upload \<Rightarrow> usize \<Rightarrow> usize \<Rightarrow> usize \<Rightarrow> splitting \<Rightarrow> splitting ir_result option" where
  "write_chunk budget u row_bytes per row s = (case u of (x, mip, layer, rect, stride, data) \<Rightarrow>
     (let rows = min per (unat (rect_height rect) - row)
      in case gather_rows data (unat stride) row_bytes [row ..< row + rows] of
           None \<Rightarrow> None
         | Some bytes \<Rightarrow> (case checked_add (rect_y rect) (of_nat row) of
             None \<Rightarrow> None
           | Some y \<Rightarrow> (case pixel_rect_new (rect_x rect) y (rect_width rect) (of_nat rows) of
               Inl err \<Rightarrow> Some (Inl err)
             | Inr destination \<Rightarrow> map_option Inr
                 (split_push budget (OwWriteTextureLayer x mip layer destination (of_nat row_bytes) bytes) s)))))"

fun write_chunks ::
    "usize \<Rightarrow> upload \<Rightarrow> usize \<Rightarrow> usize \<Rightarrow> usize list \<Rightarrow> splitting \<Rightarrow> splitting ir_result option"
where
  "write_chunks budget u row_bytes per [] s = Some (Inr s)"
| "write_chunks budget u row_bytes per (row # rows) s =
     (case write_chunk budget u row_bytes per row s of
        Some (Inr s) \<Rightarrow> write_chunks budget u row_bytes per rows s
      | stop \<Rightarrow> stop)"

text \<open>\<open>(0..n).step_by(step)\<close>\<close>

definition step_by :: "nat \<Rightarrow> nat \<Rightarrow> nat list" where
  "step_by n step = map (\<lambda>i. i * step) [0 ..< (n + step - 1) div step]"

definition split_upload :: "resource_table \<Rightarrow> usize \<Rightarrow> owned_command \<Rightarrow> splitting \<Rightarrow> splitting ir_result option" where
  "split_upload t budget c s = (case upload_of c of
     None \<Rightarrow> None
   | Some (x, mip, layer, rect, stride, data) \<Rightarrow> (case pixel_bytes t x of
       Inl err \<Rightarrow> Some (Inl err)
     | Inr pixel \<Rightarrow>
         (let row_bytes = unat (rect_width rect) * unat pixel
          in if row_bytes > budget then Some (Inl InvalidValue)
             else if row_bytes = 0 then None
             else let per = max (budget div row_bytes) 1
                  in write_chunks budget (x, mip, layer, rect, stride, data) row_bytes per
                       (step_by (unat (rect_height rect)) per) s)))"

fun begins_pass :: "owned_command \<Rightarrow> bool" where
  "begins_pass (OwBeginRenderPass _) \<longleftrightarrow> True"
| "begins_pass (OwBeginRenderPassWithAttachments _ _ _) \<longleftrightarrow> True"
| "begins_pass OwBeginComputePass \<longleftrightarrow> True"
| "begins_pass _ \<longleftrightarrow> False"

definition ends_pass :: "owned_command \<Rightarrow> bool" where
  "ends_pass c \<longleftrightarrow> c = OwEndRenderPass \<or> c = OwEndComputePass"

definition split_step :: "resource_table \<Rightarrow> usize \<Rightarrow> owned_command \<Rightarrow> splitting \<Rightarrow> splitting ir_result option" where
  "split_step t budget c s =
     (let s = (if \<not> sp_in_pass s \<and> requires_split (sp_plan s) c then close_batch s else s)
      in if begins_pass c then
           (let s = (if sp_bytes s \<ge> budget \<and> sp_batch s \<noteq> [] then close_batch s else s)
            in Some (Inr (s\<lparr>sp_plan := plan_record c (sp_plan s), sp_in_pass := True, sp_batch := sp_batch s @ [c]\<rparr>)))
         else if ends_pass c then Some (Inr (s\<lparr>sp_in_pass := False, sp_batch := sp_batch s @ [c]\<rparr>))
         else if sp_in_pass s then Some (Inr (s\<lparr>sp_batch := sp_batch s @ [c]\<rparr>))
         else if upload_length c \<le> budget then map_option Inr (split_push budget c s)
         else split_upload t budget c s)"

fun split_loop :: "resource_table \<Rightarrow> usize \<Rightarrow> owned_command list \<Rightarrow> splitting \<Rightarrow> splitting ir_result option" where
  "split_loop t budget [] s = Some (Inr s)"
| "split_loop t budget (c # cs) s =
     (case split_step t budget c s of
        Some (Inr s) \<Rightarrow> split_loop t budget cs s
      | stop \<Rightarrow> stop)"

text \<open>\<open>mem i\<close> is the memory the \<open>i\<close>th validation finds: the recording itself, then the batches.\<close>

fun validate_batches ::
    "resource_table \<Rightarrow> (nat \<Rightarrow> nat \<Rightarrow> encoder_alloc) \<Rightarrow> nat \<Rightarrow> owned_command list list \<Rightarrow> unit ir_result"
where
  "validate_batches t mem i [] = Inr ()"
| "validate_batches t mem i (b # bs) = and_then (owned_validate t (mem i) b) (\<lambda>_. validate_batches t mem (Suc i) bs)"

definition split_recording ::
    "resource_table \<Rightarrow> (nat \<Rightarrow> nat \<Rightarrow> encoder_alloc) \<Rightarrow> usize \<Rightarrow> owned_command list \<Rightarrow>
     owned_command list list ir_result option"
where
  "split_recording t mem budget cs =
     (if budget = 0 then Some (Inl InvalidValue)
      else case owned_validate t (mem 0) cs of
        Inl err \<Rightarrow> Some (Inl err)
      | Inr _ \<Rightarrow>
          if \<not> needs_batches cs budget then Some (Inr [cs])
          else (case split_loop t budget cs splitting_start of
              None \<Rightarrow> None
            | Some (Inl err) \<Rightarrow> Some (Inl err)
            | Some (Inr s) \<Rightarrow>
                (let batches = sp_batches s @ (if sp_batch s \<noteq> [] then [sp_batch s] else [])
                 in Some (and_then (validate_batches t mem 1 batches) (\<lambda>_. Inr batches)))))"

end
