(* ===== verification/Replay_Monotone.thy ===== *)
theory Replay_Monotone
  imports Owned_Commands
begin

text \<open>
  A recording that replays on an encoder replays on a lighter one: on an encoder that holds no more
  commands, pending writes and announcements, whatever memory the first run was short of. This is what
  lets a recording be cut outside passes, where the second part starts on a fresh encoder.
\<close>

abbreviation granted :: encoder_alloc where
  "granted \<equiv> \<lambda>_. True"

definition lighter :: "encoder \<Rightarrow> encoder \<Rightarrow> bool" where
  "lighter f e \<longleftrightarrow> en_pass_open f = en_pass_open e \<and> en_count f \<le> en_count e \<and>
     set (en_pending f) \<subseteq> set (en_pending e) \<and> set (en_announced f) \<subseteq> set (en_announced e)"

named_theorems weaken \<open>checks that a lighter encoder passes too\<close>

lemma granted_reserve [simp]: "reserve granted site = Inr ()"
  by (simp add: reserve_def)

lemma for_each_weaken:
  "for_each g xs = Inr () \<Longrightarrow> (\<And>x. x \<in> set xs \<Longrightarrow> g x = Inr () \<Longrightarrow> h x = Inr ()) \<Longrightarrow> for_each h xs = Inr ()"
  by (induction xs) (auto simp: and_then_Inr_iff)

lemma and_then_InrE: "and_then r f = Inr y \<Longrightarrow> (\<And>x. r = Inr x \<Longrightarrow> f x = Inr y \<Longrightarrow> P) \<Longrightarrow> P"
  by (auto simp: and_then_Inr_iff)

section \<open>Checks\<close>

lemma lighter_outside [weaken]: "lighter f e \<Longrightarrow> ensure_outside_pass e = Inr () \<Longrightarrow> ensure_outside_pass f = Inr ()"
  by (auto simp: ensure_outside_pass_def lighter_def split: if_splits)

lemma lighter_buffer [weaken]: "lighter f e \<Longrightarrow> check_buffer_access e b a = Inr () \<Longrightarrow> check_buffer_access f b a = Inr ()"
  by (fastforce simp: check_buffer_access_def lighter_def list_ex_iff split: if_splits announced_access.splits)

lemma lighter_pending: "mip_pending f x mip \<Longrightarrow> lighter f e \<Longrightarrow> mip_pending e x mip"
  by (auto simp: mip_pending_def lighter_def)

lemma lighter_announced: "mip_announced_otherwise f x mip a \<Longrightarrow> lighter f e \<Longrightarrow> mip_announced_otherwise e x mip a"
  by (auto simp: mip_announced_otherwise_def lighter_def list_ex_iff)

lemma lighter_mip [weaken]:
  "lighter f e \<Longrightarrow> check_texture_mip_access t e x mip a = Inr () \<Longrightarrow> check_texture_mip_access t f x mip a = Inr ()"
  by (auto simp: check_texture_mip_access_def dest: lighter_pending lighter_announced elim!: and_then_InrE split: if_splits)

lemma lighter_mips [weaken]:
  "lighter f e \<Longrightarrow> for_each (\<lambda>mip. check_texture_mip_access t e x mip a) ms = Inr () \<Longrightarrow>
     for_each (\<lambda>mip. check_texture_mip_access t f x mip a) ms = Inr ()"
  by (erule for_each_weaken) (simp add: weaken)

lemma lighter_texture [weaken]:
  "lighter f e \<Longrightarrow> check_texture_access t e x a = Inr () \<Longrightarrow> check_texture_access t f x a = Inr ()"
  by (auto simp: check_texture_access_def weaken elim!: and_then_InrE)

lemma lighter_transition [weaken]:
  "lighter f e \<Longrightarrow> validate_texture_transition t e x mip before after = Inr () \<Longrightarrow>
     validate_texture_transition t f x mip before after = Inr ()"
  by (auto simp: validate_texture_transition_def reject_if_def elim!: and_then_InrE
      dest: lighter_pending lighter_announced split: if_splits)

lemma lighter_transitions [weaken]:
  "lighter f e \<Longrightarrow> for_each (\<lambda>mip. validate_texture_transition t e x mip before after) ms = Inr () \<Longrightarrow>
     for_each (\<lambda>mip. validate_texture_transition t f x mip before after) ms = Inr ()"
  by (erule for_each_weaken) (simp add: weaken)

lemma lighter_barrier_announces [weaken]:
  assumes "lighter f e" and "barrier_announces t mem e b = Inr as"
  shows "barrier_announces t granted f b = Inr as"
proof (cases b)
  case (BufferBarrier x before after)
  have "PwBuffer x \<in> set (en_pending f) \<Longrightarrow> PwBuffer x \<in> set (en_pending e)"
    and "list_ex q (en_announced f) \<Longrightarrow> list_ex q (en_announced e)" for q
    using assms(1) by (auto simp: lighter_def list_ex_iff)
  with assms(2) BufferBarrier show ?thesis by (auto simp: reject_if_def elim!: and_then_InrE split: if_splits)
next
  case (TextureBarrier x before after)
  with assms show ?thesis by (auto simp: weaken elim!: and_then_InrE)
qed (use assms in \<open>auto simp: weaken elim!: and_then_InrE\<close>)

lemma lighter_binding [weaken]:
  "lighter f e \<Longrightarrow> binding_check t e att vs ix r ty = Inr () \<Longrightarrow> binding_check t f att vs ix r ty = Inr ()"
  by (cases r) (auto simp: weaken elim!: and_then_InrE)

lemma lighter_bindings [weaken]:
  "lighter f e \<Longrightarrow> check_bindings t mem e att vs ix ps uses = Inr us \<Longrightarrow> check_bindings t granted f att vs ix ps uses = Inr us"
  by (induction t mem e att vs ix ps uses rule: check_bindings.induct) (auto simp: Let_def weaken elim!: and_then_InrE)

lemma lighter_groups [weaken]:
  "lighter f e \<Longrightarrow> check_groups t mem e att vs ix gs uses = Inr us \<Longrightarrow> check_groups t granted f att vs ix gs uses = Inr us"
proof (induction gs arbitrary: uses)
  case (Cons g gs)
  then show ?case by (cases g) (auto simp: weaken elim!: and_then_InrE split: if_splits)
qed simp

lemma lighter_validate [weaken]:
  "lighter f e \<Longrightarrow> validate_groups t mem e layout groups att vs ix = Inr g \<Longrightarrow>
     validate_groups t granted f layout groups att vs ix = Inr g"
  by (auto simp: validate_groups_def weaken elim!: and_then_InrE)

lemma lighter_validate_draw [weaken]:
  "lighter f e \<Longrightarrow> validate_draw t e p n = Inr () \<Longrightarrow> validate_draw t f p n = Inr ()"
  by (auto simp: validate_draw_def weaken elim!: and_then_InrE split: option.splits)

lemma lighter_formats [weaken]:
  "lighter f e \<Longrightarrow> color_formats_of t e as = Inr fs \<Longrightarrow> color_formats_of t f as = Inr fs"
  by (induction as arbitrary: fs) (auto simp: weaken elim!: and_then_InrE)

lemma lighter_reserve_begin [weaken]: "lighter f e \<Longrightarrow> reserve_pass_begin e = Inr () \<Longrightarrow> reserve_pass_begin f = Inr ()"
  by (auto simp: reserve_pass_begin_def lighter_def split: if_splits)

lemma lighter_begin_checks [weaken]:
  "lighter f e \<Longrightarrow> begin_render_checks t d e = Inr x \<Longrightarrow> begin_render_checks t d f = Inr x"
  by (auto simp: begin_render_checks_def weaken elim!: and_then_InrE split: option.splits)

lemma lighter_slot [weaken]:
  "lighter f e \<Longrightarrow> vertex_slot_check t (e, p) a b c sl = Inr () \<Longrightarrow> vertex_slot_check t (f, p) a b c sl = Inr ()"
  by (cases sl) (auto simp: vertex_slot_check_def weaken elim!: and_then_InrE)

lemma lighter_slots [weaken]:
  "lighter f e \<Longrightarrow> for_each (vertex_slot_check t (e, p) a b c) sls = Inr () \<Longrightarrow>
     for_each (vertex_slot_check t (f, p) a b c) sls = Inr ()"
  by (erule for_each_weaken) (simp add: weaken)

lemma lighter_writes [weaken]:
  "lighter f e \<Longrightarrow> programmable_writes t mem d indexed (e, p) = Inr g \<Longrightarrow> programmable_writes t granted d indexed (f, p) = Inr g"
  by (auto simp: programmable_writes_def Let_def simp: weaken elim!: and_then_InrE)

lemma lighter_cumulative [weaken]: "validate_cumulative_accesses mem g p = Inr () \<Longrightarrow> validate_cumulative_accesses granted g p = Inr ()"
  by (auto simp: validate_cumulative_accesses_def elim!: and_then_InrE)

lemma lighter_draw_checks [weaken]:
  "lighter f e \<Longrightarrow> draw_fixed_checks t mem n first (e, p) = Inr us \<Longrightarrow> draw_fixed_checks t granted n first (f, p) = Inr us"
  "lighter f e \<Longrightarrow> draw_indexed_fixed_checks t mem n first (e, p) = Inr us \<Longrightarrow>
     draw_indexed_fixed_checks t granted n first (f, p) = Inr us"
  "lighter f e \<Longrightarrow> draw_programmable_checks t mem n first instances start (e, p) = Inr g \<Longrightarrow>
     draw_programmable_checks t granted n first instances start (f, p) = Inr g"
  "lighter f e \<Longrightarrow> draw_indexed_programmable_checks t mem n first instances start (e, p) = Inr g \<Longrightarrow>
     draw_indexed_programmable_checks t granted n first instances start (f, p) = Inr g"
  by (auto simp: draw_fixed_checks_def draw_indexed_fixed_checks_def draw_programmable_checks_def
      draw_indexed_programmable_checks_def Let_def weaken elim!: and_then_InrE)

section \<open>Commands\<close>

lemma lighter_consume: "lighter f e \<Longrightarrow> lighter (consume_access r f) (consume_access r e)"
  by (auto simp: lighter_def consume_access_def)

lemma lighter_consume_fold: "lighter f e \<Longrightarrow> lighter (fold consume_access rs f) (fold consume_access rs e)"
  by (induction rs arbitrary: f e) (simp_all add: lighter_consume)

lemma lighter_settle: "lighter f e \<Longrightarrow> lighter (settle a f) (settle a e)"
  by (cases a) (auto simp: lighter_def consume_access_def Let_def)

lemma lighter_settle_fold: "lighter f e \<Longrightarrow> lighter (fold settle as f) (fold settle as e)"
  by (induction as arbitrary: f e) (simp_all add: lighter_settle)

text \<open>A command that uses up the same announcements may take the place of another.\<close>

lemma lighter_push_other:
  assumes "enc_push mem c e = (Inr (), e')" and "lighter f e" and "consumed_by c' = consumed_by c"
  shows "\<exists>f'. enc_push granted c' f = (Inr (), f') \<and> lighter f' e'"
  using lighter_consume_fold [OF assms(2), of "consumed_by c"] assms
  by (auto simp: enc_push_def Let_def lighter_def split: if_splits)

lemma lighter_push:
  assumes "enc_push mem c e = (Inr (), e')" and "lighter f e"
  shows "\<exists>f'. enc_push granted c f = (Inr (), f') \<and> lighter f' e'"
  using lighter_push_other [OF assms refl] .

lemma lighter_checked_push:
  assumes "checked_push checks mem c e = (Inr (), e')" and "lighter f e"
    and "checks = Inr () \<Longrightarrow> checks' = Inr ()"
  shows "\<exists>f'. checked_push checks' granted c f = (Inr (), f') \<and> lighter f' e'"
proof -
  from assms(1) have checks: "checks = Inr ()" and push: "enc_push mem c e = (Inr (), e')"
    by (auto simp: checked_push_def then_do_Inr)
  from lighter_push [OF push assms(2)] show ?thesis by (simp add: checked_push_def assms(3) [OF checks])
qed

lemma lighter_record:
  assumes "record_with_writes mem c g e = (Inr (), e')" and "lighter f e"
  shows "\<exists>f'. record_with_writes granted c g f = (Inr (), f') \<and> lighter f' e'"
proof -
  obtain e1 where push: "enc_push mem c e = (Inr (), e1)"
    and e': "e' = (fold consume_access (ga_used g) e1)\<lparr>en_pending := en_pending (fold consume_access (ga_used g) e1) @ ga_writes g\<rparr>"
    using assms(1) by (auto simp: record_with_writes_def then_do_Inr Let_def)
  obtain f1 where "enc_push granted c f = (Inr (), f1)" "lighter f1 e1" using lighter_push [OF push assms(2)] by blast
  moreover from lighter_consume_fold [OF this(2), of "ga_used g"]
  have "lighter ((fold consume_access (ga_used g) f1)\<lparr>en_pending := en_pending (fold consume_access (ga_used g) f1) @ ga_writes g\<rparr>) e'"
    unfolding e' by (auto simp: lighter_def)
  ultimately show ?thesis by (auto simp: record_with_writes_def then_do_Inr Let_def)
qed

lemma lighter_setter:
  assumes "setter checks bound mem c g (e, p) = (Inr (), e', p')" and "lighter f e"
  shows "\<exists>f'. setter checks bound granted c g (f, p) = (Inr (), f', p') \<and> lighter f' e'"
proof (cases bound)
  case False
  with assms obtain e1 where "checks = Inr ()" "enc_push mem c e = (Inr (), e')" "p' = g p"
    by (auto simp: setter_def push_in_pass_def split: sum.splits prod.splits)
  with lighter_push [OF this(2) assms(2)] False show ?thesis
    by (auto simp: setter_def push_in_pass_def)
qed (use assms in \<open>auto simp: setter_def split: sum.splits\<close>)

lemma lighter_transfers:
  assumes "lighter f e"
  shows "write_buffer t mem b offset data e = (Inr (), e') \<Longrightarrow>
      \<exists>f'. write_buffer t granted b offset data f = (Inr (), f') \<and> lighter f' e'"
    and "write_texture t mem x w e = (Inr (), e') \<Longrightarrow> \<exists>f'. write_texture t granted x w f = (Inr (), f') \<and> lighter f' e'"
    and "blit_texture_region_flipped t mem y ym yr z zm zr smoothing flips e = (Inr (), e') \<Longrightarrow>
      \<exists>f'. blit_texture_region_flipped t granted y ym yr z zm zr smoothing flips f = (Inr (), f') \<and> lighter f' e'"
    and "copy_texture_to_texture t mem y yr z zr e = (Inr (), e') \<Longrightarrow>
      \<exists>f'. copy_texture_to_texture t granted y yr z zr f = (Inr (), f') \<and> lighter f' e'"
    and "copy_buffer_to_buffer t mem b bo c co n e = (Inr (), e') \<Longrightarrow>
      \<exists>f'. copy_buffer_to_buffer t granted b bo c co n f = (Inr (), f') \<and> lighter f' e'"
  unfolding transfer_defs
  by (erule lighter_checked_push [OF _ assms];
      use assms in \<open>auto simp: weaken write_buffer_checks_def write_texture_checks_def blit_checks_def
        copy_texture_checks_def copy_buffer_checks_def elim!: and_then_InrE\<close>)+

lemma lighter_blit:
  assumes "blit_texture t mem y ym z zm smoothing e = (Inr (), e')" and "lighter f e"
  shows "\<exists>f'. blit_texture t granted y ym z zm smoothing f = (Inr (), f') \<and> lighter f' e'"
  using assms by (auto simp: blit_texture_def blit_texture_region_def then_do_Inr dest!: lighter_transfers(3) [OF assms(2)])

lemma lighter_barrier:
  assumes "enc_resource_barrier t mem b e = (Inr (), e')" and "lighter f e"
  shows "\<exists>f'. enc_resource_barrier t granted b f = (Inr (), f') \<and> lighter f' e'"
proof -
  obtain e1 where push: "enc_push mem (ResourceBarrier b) e = (Inr (), e1)" and "ensure_outside_pass e = Inr ()"
    using assms(1) by (auto simp: enc_resource_barrier_def then_do_Inr split: if_splits)
  moreover obtain f1 where "enc_push granted (ResourceBarrier b) f = (Inr (), f1)" "lighter f1 e1"
    using lighter_push [OF push assms(2)] by blast
  moreover have "lighter (f1\<lparr>en_pending := [], en_announced := []\<rparr>) (e1\<lparr>en_pending := [], en_announced := []\<rparr>)"
    using \<open>lighter f1 e1\<close> by (simp add: lighter_def)
  ultimately show ?thesis using assms
    by (auto simp: enc_resource_barrier_def then_do_Inr weaken intro: lighter_settle_fold elim!: and_then_InrE split: if_splits)
qed

lemma lighter_opened: "lighter f e \<Longrightarrow> lighter (f\<lparr>en_pass_open := b\<rparr>) (e\<lparr>en_pass_open := b\<rparr>)"
  by (simp add: lighter_def)

lemma lighter_begin_compute:
  assumes "begin_compute_pass mem e = (Inr q, e')" and "lighter f e"
  shows "\<exists>f'. begin_compute_pass granted f = (Inr q, f') \<and> lighter f' e'"
proof -
  obtain e1 where push: "enc_push mem BeginComputePass e = (Inr (), e1)"
    using assms(1) by (auto simp: begin_compute_pass_def then_do_Inr)
  obtain f1 where "enc_push granted BeginComputePass f = (Inr (), f1)" "lighter f1 e1"
    using lighter_push [OF push assms(2)] by blast
  with push assms show ?thesis by (auto simp: begin_compute_pass_def then_do_Inr weaken lighter_opened elim!: and_then_InrE)
qed

lemma lighter_begin_render:
  assumes "begin_render_pass t mem d e = (Inr q, e')" and "lighter f e"
  shows "\<exists>f'. begin_render_pass t granted d f = (Inr q, f') \<and> lighter f' e'"
proof -
  obtain x e1 where checks: "begin_render_checks t d e = Inr x" and push: "enc_push mem (BeginRenderPass d) e = (Inr (), e1)"
    using assms(1) by (auto simp: begin_render_pass_def then_do_Inr)
  obtain f1 where "enc_push granted (BeginRenderPass d) f = (Inr (), f1)" "lighter f1 e1"
    using lighter_push [OF push assms(2)] by blast
  with checks push assms lighter_begin_checks [OF assms(2) checks] show ?thesis
    by (cases x) (auto simp: begin_render_pass_def then_do_Inr lighter_opened)
qed

lemma lighter_end:
  assumes "end_pass mem c e = (Inr (), e')" and "lighter f e"
  shows "\<exists>f'. end_pass granted c f = (Inr (), f') \<and> lighter f' e'"
  using assms by (auto simp: end_pass_def push_pass_end_def then_do_Inr lighter_def split: if_splits)

lemma dispatch_success:
  "dispatch t mem x y z (e, p) = (Inr (), e', p') \<longleftrightarrow> (\<exists>i desc g. \<not> list_ex (\<lambda>n. n = 0 \<or> n > 65535) [x, y, z] \<and>
     cps_pipeline p = Some i \<and> table_compute_pipeline t i = Inr desc \<and>
     validate_groups t mem e (cp_layout desc) (cps_groups p) [] [] None = Inr g \<and>
     record_with_writes mem (Dispatch x y z) g e = (Inr (), e') \<and> p' = p)"
proof (cases "list_ex (\<lambda>n. n = 0 \<or> n > 65535) [x, y, z]")
  case True
  then show ?thesis by (simp add: dispatch_def reject_if_def)
next
  case False
  then show ?thesis
    by (cases "cps_pipeline p"; cases "table_compute_pipeline t (the (cps_pipeline p))";
        cases "validate_groups t mem e (cp_layout (projr (table_compute_pipeline t (the (cps_pipeline p))))) (cps_groups p) [] [] None")
      (auto simp: dispatch_def reject_if_def split: prod.split)
qed

lemma lighter_dispatch:
  assumes "dispatch t mem x y z (e, p) = (Inr (), e', p')" and "lighter f e"
  shows "\<exists>f'. dispatch t granted x y z (f, p) = (Inr (), f', p') \<and> lighter f' e'"
  using assms(1) lighter_validate [OF assms(2)] lighter_record [OF _ assms(2)] unfolding dispatch_success by blast

lemma lighter_fixed:
  assumes "record_fixed mem c used (e, p) = (Inr (), e', p')" and "lighter f e"
  shows "\<exists>f'. record_fixed granted c used (f, p) = (Inr (), f', p') \<and> lighter f' e'"
proof -
  obtain e1 where push: "enc_push mem c e = (Inr (), e1)" and e': "e' = fold consume_access used e1"
    and p': "p' = p\<lparr>rps_used := rps_used p @ used\<rparr>"
    using assms(1) by (auto simp: record_fixed_def split: sum.splits prod.splits)
  obtain f1 where "enc_push granted c f = (Inr (), f1)" "lighter f1 e1" using lighter_push [OF push assms(2)] by blast
  then show ?thesis by (simp add: record_fixed_def e' p' lighter_consume_fold)
qed

lemma lighter_programmable:
  assumes "record_programmable mem c g (e, p) = (Inr (), e', p')" and "lighter f e"
  shows "\<exists>f'. record_programmable granted c g (f, p) = (Inr (), f', p') \<and> lighter f' e'"
proof -
  have rec: "record_with_writes mem c g e = (Inr (), e')" and p': "p' = p\<lparr>rps_used := rps_used p @ ga_used g\<rparr>"
    using assms(1) by (auto simp: record_programmable_def split: sum.splits prod.splits)
  obtain f' where "record_with_writes granted c g f = (Inr (), f')" "lighter f' e'"
    using lighter_record [OF rec assms(2)] by blast
  then show ?thesis by (auto simp: record_programmable_def p')
qed

lemma lighter_draws:
  assumes "lighter f e"
  shows "draw_fixed t mem n first (e, p) = (Inr (), e', p') \<Longrightarrow>
      \<exists>f'. draw_fixed t granted n first (f, p) = (Inr (), f', p') \<and> lighter f' e'"
    and "draw_indexed_fixed t mem n first base (e, p) = (Inr (), e', p') \<Longrightarrow>
      \<exists>f'. draw_indexed_fixed t granted n first base (f, p) = (Inr (), f', p') \<and> lighter f' e'"
    and "draw_programmable t mem n first instances start (e, p) = (Inr (), e', p') \<Longrightarrow>
      \<exists>f'. draw_programmable t granted n first instances start (f, p) = (Inr (), f', p') \<and> lighter f' e'"
    and "draw_indexed_programmable t mem n first base instances start (e, p) = (Inr (), e', p') \<Longrightarrow>
      \<exists>f'. draw_indexed_programmable t granted n first base instances start (f, p) = (Inr (), f', p') \<and> lighter f' e'"
  unfolding draw_fixed_def draw_indexed_fixed_def draw_programmable_def draw_indexed_programmable_def
  by (cases "draw_fixed_checks t mem n first (e, p)", simp,
        simp add: lighter_draw_checks [OF assms], rule lighter_fixed [OF _ assms], assumption)
    (cases "draw_indexed_fixed_checks t mem n first (e, p)", simp,
        simp add: lighter_draw_checks [OF assms], rule lighter_fixed [OF _ assms], assumption,
     cases "draw_programmable_checks t mem n first instances start (e, p)", simp,
        simp only: sum.case lighter_draw_checks [OF assms], rule lighter_programmable [OF _ assms], assumption,
     cases "draw_indexed_programmable_checks t mem n first instances start (e, p)", simp,
        simp only: sum.case lighter_draw_checks [OF assms], rule lighter_programmable [OF _ assms], assumption)

lemma lighter_vertex_slot:
  assumes "set_vertex_buffer_slot t mem n b offset (e, p) = (Inr (), e', p')" and "lighter f e"
  shows "\<exists>f'. set_vertex_buffer_slot t granted n b offset (f, p) = (Inr (), f', p') \<and> lighter f' e'"
  using assms lighter_setter by (auto simp: set_vertex_buffer_slot_def set_vertex_buffer_def split: if_splits)

section \<open>Calls and recordings\<close>

lemma lighter_on_encoder:
  assumes "on_encoder t mem k e = (Inr (), e', p')" and "lighter f e"
  shows "\<exists>f'. on_encoder t granted k f = (Inr (), f', p') \<and> lighter f' e'"
  using assms(1)
  by (cases k) (auto simp: call_results blit_texture_region_def
    dest!: lighter_transfers [OF assms(2)] lighter_blit [OF _ assms(2)]
      lighter_barrier [OF _ assms(2)] lighter_begin_compute [OF _ assms(2)] lighter_begin_render [OF _ assms(2)])

lemma lighter_on_compute:
  assumes "on_compute t mem k (e, p) = (Inr (), e', p')" and "lighter f e"
  shows "\<exists>f'. on_compute t granted k (f, p) = (Inr (), f', p') \<and> lighter f' e'"
  using assms(1)
  by (cases k) (auto simp: call_results setter_defs dest!: lighter_setter [OF _ assms(2)] lighter_dispatch [OF _ assms(2)]
      lighter_end [OF _ assms(2)])

lemma lighter_on_render:
  assumes "on_render t mem k (e, p) = (Inr (), e', p')" and "lighter f e"
  shows "\<exists>f'. on_render t granted k (f, p) = (Inr (), f', p') \<and> lighter f' e'"
  using assms(1)
  by (cases k) (auto simp: call_results setter_defs draw_def draw_indexed_def draw_instanced_def draw_indexed_instanced_def
      dest!: lighter_setter [OF _ assms(2)] lighter_draws [OF assms(2)] lighter_vertex_slot [OF _ assms(2)]
      lighter_end [OF _ assms(2)] split: if_splits cong: option.case_cong)

lemma owned_step_lighter:
  assumes "owned_step t mem c (e, p) = (Inr (), e', p')" and "lighter f e"
  shows "\<exists>f'. owned_step t granted c (f, p) = (Inr (), f', p') \<and> lighter f' e'"
proof (cases p)
  case NoPass
  with assms lighter_on_encoder [OF _ assms(2)] show ?thesis by (fastforce simp: refused_Inr)
next
  case (InCompute q)
  with assms lighter_on_compute [OF _ assms(2)] show ?thesis by (fastforce simp: refused_Inr)
next
  case (InRender q)
  with assms lighter_on_render [OF _ assms(2)] show ?thesis by (fastforce simp: refused_Inr)
qed

text \<open>A run under granted memory does not depend on positions, and runs of parts compose.\<close>

abbreviation granted_run :: "resource_table \<Rightarrow> owned_command list \<Rightarrow> machine \<Rightarrow> machine ir_result" where
  "granted_run t cs m \<equiv> owned_run t (\<lambda>_. granted) 0 cs m"

lemma owned_run_anywhere: "owned_run t (\<lambda>_. mem) n cs m = owned_run t (\<lambda>_. mem) 0 cs m"
proof (induction cs arbitrary: n m)
  case (Cons c cs)
  show ?case by (cases "owned_step t mem c m"; cases "fst (owned_step t mem c m)") (auto simp: Cons [of "Suc _"])
qed simp

lemma granted_run_snoc:
  "granted_run t cs m = Inr m' \<Longrightarrow> owned_step t granted c m' = (Inr (), m'') \<Longrightarrow> granted_run t (cs @ [c]) m = Inr m''"
proof (induction cs arbitrary: m)
  case (Cons d cs)
  then show ?case by (auto simp: owned_run_anywhere [of _ _ "Suc 0"] split: prod.splits sum.splits)
qed simp

section \<open>The pass of a machine\<close>

definition open_matches :: "machine \<Rightarrow> bool" where
  "open_matches m \<longleftrightarrow> (en_pass_open (fst m) \<longleftrightarrow> snd m \<noteq> NoPass)"

lemma barrier_open: "enc_resource_barrier t mem b e = (Inr (), e') \<Longrightarrow> en_pass_open e' = en_pass_open e"
  by (auto simp: enc_resource_barrier_def then_do_Inr records_def split: if_splits dest!: enc_push_records)

lemma on_encoder_open:
  assumes "on_encoder t mem k e = (Inr (), e', p')" and "\<not> en_pass_open e"
  shows "open_matches (e', p')"
  using assms
  by (cases k) (auto simp: call_results open_matches_def transfer_defs blit_texture_def blit_texture_region_def then_do_Inr
      begin_compute_pass_def begin_render_pass_def
      dest!: checked_push_Inr barrier_open simp: records_def)

lemma on_compute_open:
  assumes "on_compute t mem k (e, p) = (Inr (), e', p')" and "en_pass_open e"
  shows "open_matches (e', p')"
  using assms
  by (cases k) (auto simp: call_results open_matches_def setter_defs dispatch_success end_pass_def then_do_Inr
      dest!: setter_Inr record_with_writes_records simp: records_def)

lemma draws_open:
  assumes "en_pass_open e"
  shows "draw_fixed t mem n first (e, p) = (Inr (), e', p') \<Longrightarrow> en_pass_open e'"
    and "draw_indexed_fixed t mem n first base (e, p) = (Inr (), e', p') \<Longrightarrow> en_pass_open e'"
    and "draw_programmable t mem n first instances start (e, p) = (Inr (), e', p') \<Longrightarrow> en_pass_open e'"
    and "draw_indexed_programmable t mem n first base instances start (e, p) = (Inr (), e', p') \<Longrightarrow> en_pass_open e'"
  using assms
  by (auto simp: draw_fixed_def draw_indexed_fixed_def draw_programmable_def draw_indexed_programmable_def
      record_fixed_def record_programmable_def records_def split: sum.splits prod.splits
      dest!: enc_push_records record_with_writes_records)

lemma on_render_open:
  assumes "on_render t mem k (e, p) = (Inr (), e', p')" and "en_pass_open e"
  shows "open_matches (e', p')"
  using assms
  by (cases k) (auto simp: call_results open_matches_def setter_defs end_pass_def then_do_Inr draw_def draw_indexed_def
      draw_instanced_def draw_indexed_instanced_def set_vertex_buffer_slot_def
      dest!: setter_Inr draws_open [OF assms(2)] simp: records_def split: if_splits)

lemma owned_step_open: "owned_step t mem c m = (Inr (), m') \<Longrightarrow> open_matches m \<Longrightarrow> open_matches m'"
  by (cases "(t, mem, c, m)" rule: owned_step.cases; cases m')
    (auto simp: refused_Inr open_matches_def [of "(_, NoPass)"] open_matches_def [of "(_, InCompute _)"]
      open_matches_def [of "(_, InRender _)"] dest: on_encoder_open on_compute_open on_render_open)

end
