(* ===== verification/Upload_Laws.thy ===== *)
theory Upload_Laws
  imports Upload_Batches Replay_Monotone
begin

text \<open>
  What cutting a recording into upload batches keeps. The loop of \<^verbatim>\<open>Upload_Batches\<close> is followed beside the
  replay of the whole recording: the batch under way replays to the same open pass on an encoder that
  is lighter (\<^verbatim>\<open>Replay_Monotone\<close>), so what the encoder took of the recording it takes of the batch.
\<close>

section \<open>What a recording uploads\<close>

text \<open>
  The effect of a recording on textures: an upload writes its rows one after the other, every other
  command does what it does. Padding between the rows of the source is not part of it.
\<close>

datatype effect =
    RowWritten texture_id u32 u32 u32 nat u32 "u8 list"
  | Performed owned_command

definition row_slice :: "u8 list \<Rightarrow> nat \<Rightarrow> nat \<Rightarrow> nat \<Rightarrow> u8 list" where
  "row_slice data stride row_bytes y = sub_slice data (y * stride) (y * stride + row_bytes)"

fun rows_written :: "upload \<Rightarrow> nat \<Rightarrow> nat list \<Rightarrow> effect list" where
  "rows_written (x, mip, layer, rect, stride, data) row_bytes ys =
     map (\<lambda>y. RowWritten x mip layer (rect_x rect) (unat (rect_y rect) + y) (rect_width rect)
                (row_slice data (unat stride) row_bytes y)) ys"

fun upload_rows :: "upload \<Rightarrow> nat" where
  "upload_rows (x, mip, layer, rect, stride, data) = unat (rect_height rect)"

fun row_width :: "upload \<Rightarrow> nat" where
  "row_width (x, mip, layer, rect, stride, data) = unat (rect_width rect)"

fun upload_texture :: "upload \<Rightarrow> texture_id" where
  "upload_texture (x, mip, layer, rect, stride, data) = x"

definition effects :: "resource_table \<Rightarrow> owned_command \<Rightarrow> effect list" where
  "effects t c = (case upload_of c of
     None \<Rightarrow> [Performed c]
   | Some u \<Rightarrow> (case pixel_bytes t (upload_texture u) of
       Inl _ \<Rightarrow> [Performed c]
     | Inr pixel \<Rightarrow> rows_written u (row_width u * unat pixel) [0 ..< upload_rows u]))"

definition all_effects :: "resource_table \<Rightarrow> owned_command list \<Rightarrow> effect list" where
  "all_effects t cs = concat (map (effects t) cs)"

lemma all_effects_simps [simp]:
  "all_effects t [] = []" "all_effects t (c # cs) = effects t c @ all_effects t cs"
  "all_effects t (cs @ ds) = all_effects t cs @ all_effects t ds"
  by (simp_all add: all_effects_def)

lemma rows_written_append: "rows_written u rb (ys @ zs) = rows_written u rb ys @ rows_written u rb zs"
  by (cases u) simp

section \<open>Chunks\<close>

lemma gather_rows_Some:
  "\<forall>y \<in> set ys. y * stride + rb \<le> length data \<Longrightarrow> gather_rows data stride rb ys = Some (concat (map (row_slice data stride rb) ys))"
  by (induction ys) (auto simp: row_slice_def)

lemma length_row_slice: "y * stride + rb \<le> length data \<Longrightarrow> length (row_slice data stride rb y) = rb"
  by (simp add: row_slice_def)

lemma slice_of_concat:
  assumes "\<forall>xs \<in> set xss. length xs = n" and "i < length xss"
  shows "take n (drop (i * n) (concat xss)) = xss ! i"
  using assms
proof (induction xss arbitrary: i)
  case (Cons xs xss)
  then show ?case by (cases i) auto
qed simp

lemma length_concat_const: "\<forall>xs \<in> set xss. length xs = n \<Longrightarrow> length (concat xss) = length xss * n"
  by (induction xss) auto

lemma step_by_rows:
  assumes "0 < step"
  shows "concat (map (\<lambda>row. [row ..< row + min step (n - row)]) (step_by n step)) = [0 ..< n]"
proof -
  define k where "k = (n + step - 1) div step"
  have step: "concat (map (\<lambda>i. [i * step ..< i * step + min step (n - i * step)]) [0 ..< j]) = [0 ..< min n (j * step)]"
    if "j \<le> k" for j
    using that
  proof (induction j)
    case (Suc j)
    have "Suc j * step \<le> n + step - 1" using Suc.prems assms by (simp add: k_def less_eq_div_iff_mult_less_eq)
    then have "j * step < n" using assms by simp
    then have "min n (j * step) = j * step" and "min n (Suc j * step) = j * step + min step (n - j * step)"
      by (simp_all add: min_def, arith)
    moreover have "[0 ..< j * step + min step (n - j * step)] = [0 ..< j * step] @ [j * step ..< j * step + min step (n - j * step)]"
      by (rule upt_add_eq_append) simp
    moreover have "concat (map (\<lambda>i. [i * step ..< i * step + min step (n - i * step)]) [0 ..< j]) = [0 ..< min n (j * step)]"
      by (rule Suc.IH [OF Suc_leD [OF Suc.prems]])
    ultimately show ?case by (simp only: upt_Suc_append map_append concat_append list.map concat.simps append_Nil2 le0)
  qed simp
  have "k * step + (n + step - 1) mod step = n + step - 1" unfolding k_def by (rule div_mult_mod_eq)
  moreover have "(n + step - 1) mod step < step" using assms by simp
  ultimately have "n \<le> k * step" by linarith
  with step [of k] show ?thesis by (simp add: step_by_def k_def comp_def)
qed

section \<open>The batch under way\<close>

fun scan :: "usize \<Rightarrow> plan_boundary \<times> usize \<Rightarrow> owned_command list \<Rightarrow> (plan_boundary \<times> usize) option" where
  "scan budget s [] = Some s"
| "scan budget (p, n) (c # cs) =
     (if requires_split p c \<or> usize_saturating_add n (upload_length c) > budget then None
      else scan budget (plan_record c p, usize_saturating_add n (upload_length c)) cs)"

lemma scan_plan_eq:
  "scan_plan c (pb_rendered p) (pb_computed p) =
     (if requires_split p c then None else Some (pb_rendered (plan_record c p), pb_computed (plan_record c p)))"
  by (cases c) simp_all

lemma needs_batches_from_scan:
  "needs_batches_from budget (pb_rendered p) (pb_computed p) n cs \<longleftrightarrow> scan budget (p, n) cs = None"
  by (induction cs arbitrary: p n) (auto simp: scan_plan_eq Let_def not_less)

lemma needs_batches_scan: "needs_batches cs budget \<longleftrightarrow> scan budget (plan_default, 0) cs = None"
  using needs_batches_from_scan [of budget plan_default 0 cs] by (simp add: needs_batches_def plan_default_def)

lemma scan_snoc:
  "scan budget s (cs @ [c]) = Option.bind (scan budget s cs) (\<lambda>(p, n).
     if requires_split p c \<or> usize_saturating_add n (upload_length c) > budget then None
     else Some (plan_record c p, usize_saturating_add n (upload_length c)))"
  by (induction budget s cs rule: scan.induct) (auto split: prod.split)

lemma scan_within: "scan budget (p, n) cs = Some (q, m) \<Longrightarrow> n \<le> budget \<Longrightarrow> m \<le> budget"
  by (induction cs arbitrary: p n) (auto split: if_splits)

lemma plan_default_open [simp]: "\<not> requires_split plan_default c"
  by (cases c) (simp_all add: plan_default_def)

definition batch_ok :: "resource_table \<Rightarrow> usize \<Rightarrow> owned_command list \<Rightarrow> bool" where
  "batch_ok t budget b \<longleftrightarrow> \<not> needs_batches b budget \<and>
     (\<exists>f. granted_run t b (for_validation, NoPass) = Inr (f, NoPass) \<and> \<not> en_pass_open f)"

text \<open>
  What holds of a splitting whose commands had the effects \<open>fx\<close> and left the encoder of the whole
  recording at \<open>(e, p)\<close>: its closed batches are fine, and the open one replays to the same pass.
\<close>

definition split_ok :: "resource_table \<Rightarrow> usize \<Rightarrow> effect list \<Rightarrow> machine \<Rightarrow> splitting \<Rightarrow> bool" where
  "split_ok t budget fx m s \<longleftrightarrow> (\<forall>b \<in> set (sp_batches s). batch_ok t budget b) \<and>
     all_effects t (concat (sp_batches s) @ sp_batch s) = fx \<and>
     scan budget (plan_default, 0) (sp_batch s) = Some (sp_plan s, sp_bytes s) \<and>
     (\<exists>f. granted_run t (sp_batch s) (for_validation, NoPass) = Inr (f, snd m) \<and> lighter f (fst m)) \<and>
     (sp_in_pass s \<longleftrightarrow> snd m \<noteq> NoPass) \<and> open_matches m"

lemma fresh_lighter: "\<not> en_pass_open e \<Longrightarrow> lighter for_validation e"
  by (simp add: lighter_def for_validation_def encoder_new_def)

lemma fresh_open [simp]: "\<not> en_pass_open for_validation"
  by (simp add: for_validation_def encoder_new_def)

lemma split_start: "split_ok t budget [] (for_validation, NoPass) splitting_start"
  by (simp add: split_ok_def splitting_start_def open_matches_def fresh_lighter)

lemma close_ok: "split_ok t budget fx (e, NoPass) s \<Longrightarrow> split_ok t budget fx (e, NoPass) (close_batch s)"
  by (auto simp: split_ok_def close_batch_def batch_ok_def needs_batches_scan open_matches_def fresh_lighter)
    (auto simp: lighter_def)

text \<open>One more command on the batch.\<close>

definition pushable :: "resource_table \<Rightarrow> machine \<Rightarrow> machine \<Rightarrow> owned_command \<Rightarrow> bool" where
  "pushable t m m' c \<longleftrightarrow> open_matches m' \<and> (\<forall>f. lighter f (fst m) \<longrightarrow>
     (\<exists>f'. owned_step t granted c (f, snd m) = (Inr (), f', snd m') \<and> lighter f' (fst m')))"

lemma add_ok:
  assumes ok: "split_ok t budget fx m s" and push: "pushable t m m' c"
    and plan: "\<not> requires_split (sp_plan s) c" and fits: "usize_saturating_add (sp_bytes s) (upload_length c) \<le> budget"
  shows "split_ok t budget (fx @ effects t c) m' (s\<lparr>sp_plan := plan_record c (sp_plan s),
    sp_bytes := usize_saturating_add (sp_bytes s) (upload_length c), sp_in_pass := (snd m' \<noteq> NoPass), sp_batch := sp_batch s @ [c]\<rparr>)"
proof -
  obtain f where run: "granted_run t (sp_batch s) (for_validation, NoPass) = Inr (f, snd m)" and "lighter f (fst m)"
    using ok by (auto simp: split_ok_def)
  then obtain f' where "owned_step t granted c (f, snd m) = (Inr (), f', snd m')" "lighter f' (fst m')"
    using push by (auto simp: pushable_def)
  with granted_run_snoc [OF run] have "granted_run t (sp_batch s @ [c]) (for_validation, NoPass) = Inr (f', snd m')" by simp
  with ok plan fits push \<open>lighter f' (fst m')\<close> show ?thesis
    by (auto simp: split_ok_def scan_snoc pushable_def not_less)
qed

lemma saturating_small: "a + b < usize_limit \<Longrightarrow> usize_saturating_add a b = a + b"
  by (simp add: usize_saturating_add_def)

lemma push_ok:
  assumes ok: "split_ok t budget fx (e, NoPass) s" and push: "pushable t (e0, NoPass) (e', NoPass) c"
    and closes: "e0 = e \<or> usize_saturating_add (sp_bytes s) (upload_length c) > budget \<and> sp_batch s \<noteq> [] \<and> \<not> en_pass_open e0"
    and plan: "\<not> requires_split (sp_plan s) c" and fits: "upload_length c \<le> budget" and budget: "budget < usize_limit - 1"
  shows "\<exists>s'. split_push budget c s = Some s' \<and> split_ok t budget (fx @ effects t c) (e', NoPass) s' \<and>
    sp_batch s' \<noteq> [] \<and> sp_bytes s' \<ge> upload_length c"
proof -
  define s1 where "s1 = (if usize_saturating_add (sp_bytes s) (upload_length c) > budget \<and> sp_batch s \<noteq> [] then close_batch s else s)"
  have "\<not> en_pass_open e" using ok by (simp add: split_ok_def open_matches_def)
  have fresh: "split_ok t budget fx (e0, NoPass) s1"
  proof (cases "e0 = e")
    case True
    then show ?thesis using ok close_ok [OF ok] by (simp add: s1_def)
  next
    case False
    then have "s1 = close_batch s" and "\<not> en_pass_open e0" using closes by (simp_all add: s1_def)
    with close_ok [OF ok] show ?thesis
      by (auto simp: split_ok_def close_batch_def open_matches_def fresh_lighter)
  qed
  have plan1: "\<not> requires_split (sp_plan s1) c" using plan by (simp add: s1_def close_batch_def)
  have "sp_bytes s1 + upload_length c \<le> budget"
  proof (cases "sp_batch s = [] \<or> usize_saturating_add (sp_bytes s) (upload_length c) > budget")
    case True
    then have "sp_bytes s1 = 0" using ok by (auto simp: s1_def split_ok_def close_batch_def)
    then show ?thesis using fits by simp
  next
    case False
    then have "usize_saturating_add (sp_bytes s) (upload_length c) \<le> budget" "s1 = s" by (auto simp: s1_def split: if_splits)
    then show ?thesis using budget by (auto simp: usize_saturating_add_def)
  qed
  then have sum: "usize_checked_add (sp_bytes s1) (upload_length c) = Some (sp_bytes s1 + upload_length c)"
    and sat: "usize_saturating_add (sp_bytes s1) (upload_length c) = sp_bytes s1 + upload_length c"
    using budget by (simp_all add: usize_checked_add_def saturating_small)
  have "sp_in_pass s1 \<longleftrightarrow> False" using fresh by (simp add: split_ok_def)
  then have "s1\<lparr>sp_plan := plan_record c (sp_plan s1), sp_bytes := n, sp_in_pass := False, sp_batch := sp_batch s1 @ [c]\<rparr> =
      s1\<lparr>sp_plan := plan_record c (sp_plan s1), sp_bytes := n, sp_batch := sp_batch s1 @ [c]\<rparr>" for n by (cases s1) simp
  with add_ok [OF fresh push plan1] \<open>sp_bytes s1 + upload_length c \<le> budget\<close> sat sum show ?thesis
    by (auto simp: split_push_def s1_def [symmetric] Let_def)
qed

section \<open>A chunk stands for its rows\<close>

definition chunk_rect :: "pixel_rect \<Rightarrow> nat \<Rightarrow> nat \<Rightarrow> pixel_rect" where
  "chunk_rect rect row rows = rect\<lparr>rect_y := rect_y rect + of_nat row, rect_height := of_nat rows\<rparr>"

lemma chunk_rect_unat:
  assumes "rect_ok rect" and "row + rows \<le> unat (rect_height rect)"
  shows "unat (rect_y rect + of_nat row) = unat (rect_y rect) + row" and "unat (of_nat rows :: u32) = rows"
    and "checked_add (rect_y rect) (of_nat row) = Some (rect_y rect + of_nat row)"
proof -
  have "unat (rect_y rect) + unat (rect_height rect) < 2 ^ 32" using assms(1) by (simp add: rect_ok_def)
  then have row: "unat (of_nat row :: u32) = row" "unat (rect_y rect) + row < 2 ^ 32" and "rows < 2 ^ 32"
    using assms(2) by (simp_all add: unat_of_nat)
  then show "unat (of_nat rows :: u32) = rows" by (simp add: unat_of_nat)
  show "checked_add (rect_y rect) (of_nat row) = Some (rect_y rect + of_nat row)" using row by (simp add: checked_add_def)
  then show "unat (rect_y rect + of_nat row) = unat (rect_y rect) + row" using row by (auto simp: checked_add_Some)
qed

lemma chunk_rect_ok:
  assumes "rect_ok rect" and "row + rows \<le> unat (rect_height rect)" and "0 < rows"
  shows "rect_ok (chunk_rect rect row rows)"
    and "pixel_rect_new (rect_x rect) (rect_y rect + of_nat row) (rect_width rect) (of_nat rows) = Inr (chunk_rect rect row rows)"
proof -
  note u = chunk_rect_unat [OF assms(1,2)]
  have "(of_nat rows :: u32) \<noteq> 0" using u(2) assms(3) by (metis less_numeral_extra(3) unat_0)
  then show ok: "rect_ok (chunk_rect rect row rows)"
    using assms u by (simp add: rect_ok_def chunk_rect_def)
  from pixel_rect_new_complete [OF ok]
  show "pixel_rect_new (rect_x rect) (rect_y rect + of_nat row) (rect_width rect) (of_nat rows) = Inr (chunk_rect rect row rows)"
    by (simp add: chunk_rect_def)
qed

lemma chunk_rect_within:
  assumes "rect_ok rect" and "row + rows \<le> unat (rect_height rect)" and "0 < rows" and "rect_is_within rect extent"
  shows "rect_is_within (chunk_rect rect row rows) extent"
proof -
  note u = chunk_rect_unat [OF assms(1,2)] chunk_rect_ok [OF assms(1-3)]
  have "pixels (chunk_rect rect row rows) \<subseteq> pixels rect"
    using u assms(2) by (auto simp: pixels_def chunk_rect_def)
  then show ?thesis using assms(1,4) u(4) by (auto simp: rect_is_within_pixels)
qed

lemma write_facts:
  assumes "write_texture_checks t x (owned_write mip layer rect stride data) e = Inr ()"
    and "texture_ref t x = Inr x" and "pixel_bytes t x = Inr pixel"
  obtains desc extent where "table_texture t x = Inr desc" "usage_contains (tex_usage desc) TEX_COPY_DST"
    "bytes_per_pixel (tex_format desc) = Some pixel" "\<not> layer \<ge> tex_layers desc" "mip_extent desc mip = Inr extent"
    "rect_is_within rect extent" "checked_mul (rect_width rect) pixel = Some (rect_width rect * pixel)"
    "unat (rect_width rect * pixel) = unat (rect_width rect) * unat pixel"
    "unat stride * (unat (rect_height rect) - 1) + unat (rect_width rect) * unat pixel \<le> length data" "length data < 2 ^ 64"
    "check_texture_mip_access t e x mip TexCopyDestination = Inr ()" "ensure_outside_pass e = Inr ()"
    "\<not> stride < rect_width rect * pixel"
proof -
  from assms obtain desc extent tight rows required where d: "table_texture t x = Inr desc"
      "usage_contains (tex_usage desc) TEX_COPY_DST" "bytes_per_pixel (tex_format desc) = Some pixel"
      "\<not> layer \<ge> tex_layers desc" "mip_extent desc mip = Inr extent" "rect_is_within rect extent"
      "check_texture_mip_access t e x mip TexCopyDestination = Inr ()" "ensure_outside_pass e = Inr ()"
      "length data < 2 ^ 64"
    and n: "checked_mul (rect_width rect) pixel = Some tight" "\<not> stride < tight"
      "checked_mul (ucast stride :: u64) (ucast (rect_height rect - 1)) = Some rows"
      "checked_add rows (ucast tight) = Some required" "\<not> (of_nat (length data) :: u64) < required"
    by (auto simp: write_texture_checks_def owned_write_def pixel_bytes_def and_then_Inr_iff bind_eq_Some_conv not_le
        require_usage_def split: if_splits)
  have tight: "tight = rect_width rect * pixel" "unat tight = unat (rect_width rect) * unat pixel"
    using n(1) unfolding checked_mul_Some by blast+
  have rows: "unat rows = unat stride * unat (rect_height rect - 1)"
    using checked_SomeD(2) [OF n(3)] by (simp only: unat_ucast_u64)
  have "unat required = unat rows + unat tight"
    using checked_SomeD(1) [OF n(4)] by (simp only: unat_ucast_u64)
  moreover have "unat required \<le> length data"
    using d(9) n(5) by (simp add: word_less_nat_alt unat_of_nat)
  moreover have "unat stride * (unat (rect_height rect) - 1) \<le> unat rows"
    unfolding rows by (rule mult_le_mono2 [OF rows_before_last])
  ultimately have "unat stride * (unat (rect_height rect) - 1) + unat (rect_width rect) * unat pixel \<le> length data"
    using tight(2) by linarith
  with that d n(1,2) tight show thesis by blast
qed

text \<open>An upload that the encoder of the whole recording took, and one of its chunks.\<close>

definition upload_taken :: "resource_table \<Rightarrow> upload \<Rightarrow> u32 \<Rightarrow> machine \<Rightarrow> machine \<Rightarrow> bool" where
  "upload_taken t u pixel m m' \<longleftrightarrow> (case u of (x, mip, layer, rect, stride, data) \<Rightarrow>
     texture_ref t x = Inr x \<and> pixel_bytes t x = Inr pixel \<and> rect_ok rect \<and> snd m = NoPass \<and> snd m' = NoPass \<and>
     (\<exists>mem. write_texture t mem x (owned_write mip layer rect stride data) (fst m) = (Inr (), fst m')))"

fun chunk_of :: "upload \<Rightarrow> nat \<Rightarrow> nat \<Rightarrow> nat \<Rightarrow> owned_command" where
  "chunk_of (x, mip, layer, rect, stride, data) rb row rows =
     OwWriteTextureLayer x mip layer (chunk_rect rect row rows) (of_nat rb)
       (concat (map (row_slice data (unat stride) rb) [row ..< row + rows]))"

lemma pixel_positive: "pixel_bytes t x = Inr pixel \<Longrightarrow> 0 < unat pixel"
  by (auto simp: pixel_bytes_def and_then_Inr_iff elim!: bytes_per_pixel.elims)

lemma row_in_data:
  assumes "unat stride * (unat height - 1) + rb \<le> length data" and "y < unat height"
  shows "y * unat stride + rb \<le> length data"
proof -
  have "y * unat stride \<le> unat stride * (unat height - 1)" 
    unfolding mult.commute [of y] by (rule mult_le_mono2) (use assms(2) in linarith)
  then show ?thesis using assms(1) by linarith
qed

lemma chunk_length:
  assumes "\<forall>y < n. y * stride + rb \<le> length data" and "row + rows \<le> n"
  shows "length (concat (map (row_slice data stride rb) [row ..< row + rows])) = rows * rb"
  using assms length_concat_const [of "map (row_slice data stride rb) [row ..< row + rows]" rb]
  by (auto simp: length_row_slice)

lemma chunk_checks:
  assumes taken: "write_texture_checks t x (owned_write mip layer rect stride data) e = Inr ()"
    and ref: "texture_ref t x = Inr x" and pixel: "pixel_bytes t x = Inr pixel" and rect: "rect_ok rect" and "lighter f e"
    and rows: "row + rows \<le> unat (rect_height rect)" "0 < rows"
    and rb: "rb = unat (rect_width rect) * unat pixel" and bytes: "length bytes = rows * rb"
  shows "write_texture_checks t x (owned_write mip layer (chunk_rect rect row rows) (of_nat rb) bytes) f = Inr ()"
proof -
  from taken ref pixel obtain desc extent where d: "table_texture t x = Inr desc" "usage_contains (tex_usage desc) TEX_COPY_DST"
      "bytes_per_pixel (tex_format desc) = Some pixel" "\<not> layer \<ge> tex_layers desc" "mip_extent desc mip = Inr extent"
    and within: "rect_is_within rect extent"
    and tight: "checked_mul (rect_width rect) pixel = Some (rect_width rect * pixel)" "unat (rect_width rect * pixel) = rb"
    and fits: "unat stride * (unat (rect_height rect) - 1) + rb \<le> length data" "length data < 2 ^ 64"
    and e: "check_texture_mip_access t e x mip TexCopyDestination = Inr ()" "ensure_outside_pass e = Inr ()"
    and stride: "\<not> stride < rect_width rect * pixel"
    unfolding rb by (rule write_facts)
  have word: "(of_nat rb :: u32) = rect_width rect * pixel" using tight(2) [symmetric] by simp
  note u = chunk_rect_unat [OF rect rows(1)]
  have "unat (of_nat rows - 1 :: u32) = rows - 1"
    using u(2) rows(2) by (metis unat_0 less_numeral_extra(3) unat_minus_one)
  then have prod: "unat (ucast (rect_width rect * pixel) :: u64) * unat (ucast (of_nat rows - 1 :: u32) :: u64) = rb * (rows - 1)"
    by (simp only: unat_ucast_u64 tight(2))
  have total: "rb * (rows - 1) + rb = rows * rb" using rows(2) by (cases rows) simp_all
  have "rows * rb \<le> length data"
  proof -
    have "rb \<le> unat stride" using stride tight(2) by (simp add: word_less_nat_alt)
    then have "rb * (rows - 1) \<le> unat stride * (unat (rect_height rect) - 1)" using rows by (intro mult_le_mono) simp_all
    then show ?thesis using fits(1) total by linarith
  qed
  then have limit: "rows * rb < 2 ^ 64" using fits(2) by linarith
  define v where "v = (ucast (rect_width rect * pixel) :: u64) * ucast (of_nat rows - 1 :: u32)"
  have mul: "checked_mul (ucast (rect_width rect * pixel) :: u64) (ucast (of_nat rows - 1 :: u32)) = Some v"
    using prod total limit by (simp add: checked_mul_def v_def)
  from checked_SomeD(2) [OF mul] prod have v: "unat v = rb * (rows - 1)" by simp
  have add: "checked_add v (ucast (rect_width rect * pixel)) = Some (v + ucast (rect_width rect * pixel))"
    using v total limit tight(2) by (simp add: checked_add_def unat_ucast_u64)
  from checked_SomeD(1) [OF add] have "unat (v + ucast (rect_width rect * pixel)) = rows * rb"
    using v total tight(2) by (simp add: unat_ucast_u64)
  moreover have "unat (of_nat n :: u64) = n" if "n < 2 ^ 64" for n using that by (simp add: unat_of_nat)
  then have "unat (of_nat (length bytes) :: u64) = rows * rb" using bytes limit by metis
  ultimately have enough: "\<not> (of_nat (length bytes) :: u64) < v + ucast (rect_width rect * pixel)"
    by (simp add: word_less_nat_alt)
  have short: "\<not> length bytes \<ge> 2 ^ 64" using bytes limit by simp
  show ?thesis
    using d chunk_rect_within [OF rect rows within] tight(1) weaken(1-4) [OF \<open>lighter f e\<close>] e enough short mul add
    by (simp add: write_texture_checks_def owned_write_def chunk_rect_def require_usage_def word lighter_outside lighter_mip
        [OF \<open>lighter f e\<close>])
qed

lemma chunk_pushable:
  assumes taken: "upload_taken t u pixel m m'" and "open_matches m'"
    and rows: "row + rows \<le> upload_rows u" "0 < rows" and rb: "rb = row_width u * unat pixel" and rb_small: "rb < 2 ^ 32"
  shows "pushable t m m' (chunk_of u rb row rows)"
  unfolding pushable_def
proof (intro conjI allI impI)
  fix f
  assume f: "lighter f (fst m)"
  obtain x mip layer rect stride data where u: "u = (x, mip, layer, rect, stride, data)" by (cases u)
  obtain mem where ref: "texture_ref t x = Inr x" "pixel_bytes t x = Inr pixel" "rect_ok rect" and m: "snd m = NoPass" "snd m' = NoPass"
    and call: "write_texture t mem x (owned_write mip layer rect stride data) (fst m) = (Inr (), fst m')"
    using taken by (auto simp: upload_taken_def u)
  from call have checks: "write_texture_checks t x (owned_write mip layer rect stride data) (fst m) = Inr ()"
    and push: "enc_push mem (WriteTexture x (owned_write mip layer rect stride data)) (fst m) = (Inr (), fst m')"
    by (auto simp: write_texture_def checked_push_def then_do_Inr)
  define w where "w = owned_write mip layer (chunk_rect rect row rows) (of_nat rb)
    (concat (map (row_slice data (unat stride) rb) [row ..< row + rows]))"
  have "length (concat (map (row_slice data (unat stride) rb) [row ..< row + rows])) = rows * rb"
  proof (rule chunk_length [where n = "unat (rect_height rect)"])
    from checks ref(1,2) have "unat stride * (unat (rect_height rect) - 1) + rb \<le> length data"
      unfolding rb u row_width.simps by (elim write_facts)
    then show "\<forall>y < unat (rect_height rect). y * unat stride + rb \<le> length data" using row_in_data by blast
  qed (use rows in \<open>simp add: u\<close>)
  then have "write_texture_checks t x w f = Inr ()"
    using chunk_checks [OF checks ref f, of row rows rb] rows rb by (simp add: w_def u)
  moreover obtain f' where "enc_push granted (WriteTexture x w) f = (Inr (), f')" "lighter f' (fst m')"
    using lighter_push_other [OF push f, of "WriteTexture x w"] by auto
  ultimately have "write_texture t granted x w f = (Inr (), f')" by (simp add: write_texture_def checked_push_def)
  moreover have "(of_nat rb :: u32) \<noteq> 0"
  proof -
    have "0 < rb" using rb ref(2,3) pixel_positive rect_ok_pos by (auto simp: u)
    then show ?thesis using rb_small by (simp add: word_of_nat_eq_0_iff dvd_imp_le not_le nat_dvd_not_less)
  qed
  ultimately show "\<exists>f'. owned_step t granted (chunk_of u rb row rows) (f, snd m) = (Inr (), f', snd m') \<and> lighter f' (fst m')"
    using \<open>lighter f' (fst m')\<close> ref(1) m
    by (auto simp: u refused_def texture_write_new_def with_mip_level_def with_array_layer_def w_def owned_write_def closed_def)
qed fact

lemma chunk_effects:
  assumes pixel: "pixel_bytes t (upload_texture u) = Inr pixel" and rb: "rb = row_width u * unat pixel" "rb < 2 ^ 32"
    and rows: "row + rows \<le> upload_rows u"
    and data: "case u of (x, mip, layer, rect, stride, data) \<Rightarrow> rect_ok rect \<and> (\<forall>y < unat (rect_height rect). y * unat stride + rb \<le> length data)"
  shows "effects t (chunk_of u rb row rows) = rows_written u rb [row ..< row + rows]"
proof -
  obtain x mip layer rect stride data where u: "u = (x, mip, layer, rect, stride, data)" by (cases u)
  from data have rect: "rect_ok rect" and inside: "\<forall>y < unat (rect_height rect). y * unat stride + rb \<le> length data" by (simp_all add: u)
  define slices where "slices = map (row_slice data (unat stride) rb) [row ..< row + rows]"
  have len: "\<forall>xs \<in> set slices. length xs = rb" using inside rows by (auto simp: slices_def u length_row_slice)
  have slice: "row_slice (concat slices) rb rb r = row_slice data (unat stride) rb (row + r)" if "r < rows" for r
  proof -
    have "slices ! r = row_slice data (unat stride) rb (row + r)" and "r < length slices" using that by (simp_all add: slices_def)
    with slice_of_concat [OF len] show ?thesis by (simp add: row_slice_def [of "concat slices"] sub_slice_def)
  qed
  have word: "unat (of_nat rb :: u32) = rb" using rb(2) by (simp add: unat_of_nat)
  note rect' = chunk_rect_unat [OF rect rows [unfolded u upload_rows.simps]]
  have "chunk_of u rb row rows = OwWriteTextureLayer x mip layer (chunk_rect rect row rows) (of_nat rb) (concat slices)"
    by (simp add: u slices_def)
  moreover have "unat (rect_width rect) * unat pixel = rb" using rb(1) by (simp add: u)
  ultimately have "effects t (chunk_of u rb row rows) =
      rows_written (x, mip, layer, chunk_rect rect row rows, of_nat rb, concat slices) rb [0 ..< rows]"
    using pixel by (simp add: effects_def u chunk_rect_def rect'(2))
  also have "\<dots> = rows_written u rb (map (\<lambda>r. row + r) [0 ..< rows])"
    by (simp add: u chunk_rect_def rect'(1) word slice)
  also have "map (\<lambda>r. row + r) [0 ..< rows] = [row ..< row + rows]"
    using map_add_upt [of row rows] by (simp add: add.commute)
  finally show ?thesis .
qed

lemma taken_facts:
  assumes "upload_taken t u pixel m m'" and rb: "rb = row_width u * unat pixel"
  shows "rb < 2 ^ 32" and "0 < rb" and "0 < upload_rows u" and "pixel_bytes t (upload_texture u) = Inr pixel"
    and "case u of (x, mip, layer, rect, stride, data) \<Rightarrow>
           rect_ok rect \<and> (\<forall>y < unat (rect_height rect). y * unat stride + rb \<le> length data)"
proof -
  obtain x mip layer rect stride data where u: "u = (x, mip, layer, rect, stride, data)" by (cases u)
  obtain mem where ref: "texture_ref t x = Inr x" "pixel_bytes t x = Inr pixel" and rect: "rect_ok rect"
    and call: "write_texture t mem x (owned_write mip layer rect stride data) (fst m) = (Inr (), fst m')"
    using assms by (auto simp: upload_taken_def u)
  from call have checks: "write_texture_checks t x (owned_write mip layer rect stride data) (fst m) = Inr ()"
    by (auto simp: write_texture_def checked_push_def then_do_Inr)
  then obtain "unat stride * (unat (rect_height rect) - 1) + rb \<le> length data" "unat (rect_width rect * pixel) = rb"
    using ref unfolding rb u row_width.simps by (elim write_facts)
  moreover have "unat (rect_width rect * pixel) < 2 ^ 32" using unsigned_less [of "rect_width rect * pixel", where ?'a = nat] by simp
  ultimately show "rb < 2 ^ 32" and "case u of (x, mip, layer, rect, stride, data) \<Rightarrow>
      rect_ok rect \<and> (\<forall>y < unat (rect_height rect). y * unat stride + rb \<le> length data)"
    using row_in_data rect by (auto simp: u)
  show "0 < rb" "0 < upload_rows u" "pixel_bytes t (upload_texture u) = Inr pixel"
    using rect_ok_pos [OF rect] pixel_positive [OF ref(2)] ref(2) by (simp_all add: rb u)
qed

lemma write_chunk_eq:
  assumes data: "case u of (x, mip, layer, rect, stride, data) \<Rightarrow>
      rect_ok rect \<and> (\<forall>y < unat (rect_height rect). y * unat stride + rb \<le> length data)"
    and rows: "rows = min per (upload_rows u - row)" "0 < rows"
  shows "write_chunk budget u rb per row s = map_option Inr (split_push budget (chunk_of u rb row rows) s)"
proof -
  obtain x mip layer rect stride data where u: "u = (x, mip, layer, rect, stride, data)" by (cases u)
  have fits: "row + rows \<le> unat (rect_height rect)" using rows by (auto simp: u)
  have "gather_rows data (unat stride) rb [row ..< row + rows] = Some (concat (map (row_slice data (unat stride) rb) [row ..< row + rows]))"
    using data fits by (intro gather_rows_Some) (auto simp: u)
  moreover have "min per (unat (rect_height rect) - row) = rows" using rows(1) by (simp add: u)
  moreover have "rect_ok rect" using data by (simp add: u)
  ultimately show ?thesis using chunk_rect_unat(3) [OF _ fits] chunk_rect_ok(2) [OF _ fits rows(2)]
    by (simp add: write_chunk_def u Let_def)
qed

lemma chunk_upload_length:
  assumes "case u of (x, mip, layer, rect, stride, data) \<Rightarrow>
      rect_ok rect \<and> (\<forall>y < unat (rect_height rect). y * unat stride + rb \<le> length data)" and "row + rows \<le> upload_rows u"
  shows "upload_length (chunk_of u rb row rows) = rows * rb"
  using assms chunk_length by (cases u) (auto simp: upload_length_def)

text \<open>
  The chunks of one upload, from the \<open>k\<close>th on: each but the first closes the batch of the one before,
  so that no batch holds two of them.
\<close>

lemma write_chunks_ok:
  assumes taken: "upload_taken t u pixel (e0, NoPass) (e', NoPass)" and "open_matches (e', NoPass)" "\<not> en_pass_open e0"
    and rb: "rb = row_width u * unat pixel" and per: "0 < per" "per * rb \<le> budget" "budget < per * rb + rb"
    and n: "\<forall>i < n. i * per < upload_rows u" and budget: "budget < usize_limit - 1"
    and ok: "split_ok t budget fx (e, NoPass) s" and k: "k \<le> n"
    and start: "k = 0 \<and> e = e0 \<and> 0 < n \<or> 0 < k \<and> e = e' \<and> (k < n \<longrightarrow> per * rb \<le> sp_bytes s \<and> sp_batch s \<noteq> [])"
  shows "\<exists>s'. write_chunks budget u rb per (map (\<lambda>i. i * per) [k ..< n]) s = Some (Inr s') \<and>
    split_ok t budget (fx @ rows_written u rb (concat (map (\<lambda>row. [row ..< row + min per (upload_rows u - row)])
      (map (\<lambda>i. i * per) [k ..< n])))) (e', NoPass) s'"
  using ok k start
proof (induction "n - k" arbitrary: k fx e s)
  case 0
  then have "k = n" "e = e'" by auto
  with 0 show ?case by (cases u) auto
next
  case (Suc d)
  note facts = taken_facts [OF taken rb]
  define row where "row = k * per"
  define rows where "rows = min per (upload_rows u - row)"
  have "k < n" using Suc.hyps(2) by simp
  then have list: "[k ..< n] = k # [Suc k ..< n]" and row: "row < upload_rows u" using n by (simp_all add: upt_conv_Cons row_def)
  then have rows: "0 < rows" "row + rows \<le> upload_rows u" "rows \<le> per" using per(1) by (auto simp: rows_def)
  let ?c = "chunk_of u rb row rows"
  have len: "upload_length ?c = rows * rb" using chunk_upload_length [OF facts(5) rows(2)] .
  have small: "rows * rb \<le> budget" using rows(3) per(2) mult_le_mono1 le_trans by blast
  have "rb \<le> rows * rb" using rows(1) by simp
  then have "budget < sp_bytes s + rows * rb" if "0 < k"
    using Suc.prems(3) \<open>k < n\<close> that per(3) by linarith
  then have closes: "e0 = e \<or> usize_saturating_add (sp_bytes s) (upload_length ?c) > budget \<and> sp_batch s \<noteq> [] \<and> \<not> en_pass_open e0"
    using Suc.prems(3) \<open>k < n\<close> \<open>\<not> en_pass_open e0\<close> budget by (auto simp: len usize_saturating_add_def)
  have plain: "\<not> requires_split p ?c" for p by (cases u) simp
  obtain s1 where push: "split_push budget ?c s = Some s1" and ok1: "split_ok t budget (fx @ effects t ?c) (e', NoPass) s1"
      and s1: "sp_batch s1 \<noteq> []" "rows * rb \<le> sp_bytes s1"
    using push_ok [OF Suc.prems(1) chunk_pushable [OF taken assms(2) rows(2,1) rb facts(1)] closes plain] small budget len by auto
  have "write_chunk budget u rb per row s = Some (Inr s1)"
    using write_chunk_eq [OF facts(5) rows_def rows(1)] push by simp
  moreover have "effects t ?c = rows_written u rb [row ..< row + rows]"
    using chunk_effects [OF facts(4) rb facts(1) rows(2) facts(5)] .
  moreover have "Suc k < n \<longrightarrow> per * rb \<le> sp_bytes s1 \<and> sp_batch s1 \<noteq> []"
  proof
    assume "Suc k < n"
    then have "Suc k * per < upload_rows u" using n by blast
    then have "rows = per" by (simp add: rows_def row_def)
    with s1 show "per * rb \<le> sp_bytes s1 \<and> sp_batch s1 \<noteq> []" by simp
  qed
  moreover have "d = n - Suc k" using Suc.hyps(2) by simp
  ultimately show ?case
    using Suc.hyps(1) [of "Suc k", OF _ ok1] \<open>k < n\<close>
    by (simp add: list row_def [symmetric] rows_written_append rows_def [symmetric])
qed

section \<open>Every command of a recording\<close>

lemma step_outside:
  "owned_step t mem c (e, NoPass) = (Inr (), e', p') \<Longrightarrow> \<not> ends_pass c \<and> (begins_pass c \<longleftrightarrow> p' \<noteq> NoPass)"
  by (cases c) (auto simp: refused_Inr and_then_Inr_iff call_results ends_pass_def)

lemma step_inside:
  assumes "owned_step t mem c (e, p) = (Inr (), e', p')" and "p \<noteq> NoPass"
  shows "\<not> begins_pass c \<and> (ends_pass c \<longleftrightarrow> p' = NoPass) \<and> upload_length c = 0 \<and> plan_record c b = b \<and> \<not> requires_split b c"
proof (cases p)
  case (InCompute q)
  with assms(1) show ?thesis
    by (cases c) (auto simp: refused_Inr and_then_Inr_iff call_results ends_pass_def upload_length_def)
next
  case (InRender q)
  with assms(1) show ?thesis
    by (cases c) (auto simp: refused_Inr and_then_Inr_iff call_results ends_pass_def upload_length_def)
qed (use assms(2) in simp)

lemma step_pushable: "owned_step t mem c m = (Inr (), m') \<Longrightarrow> open_matches m \<Longrightarrow> pushable t m m' c"
  using owned_step_open owned_step_lighter [of t mem c "fst m" "snd m" "fst m'" "snd m'"] by (auto simp: pushable_def)

definition rects_ok :: "owned_command \<Rightarrow> bool" where
  "rects_ok c \<longleftrightarrow> (case upload_of c of None \<Rightarrow> True | Some (x, mip, layer, rect, stride, data) \<Rightarrow> rect_ok rect)"

definition row_fits :: "resource_table \<Rightarrow> usize \<Rightarrow> owned_command \<Rightarrow> bool" where
  "row_fits t budget c \<longleftrightarrow> (case upload_of c of None \<Rightarrow> True | Some u \<Rightarrow>
     (case pixel_bytes t (upload_texture u) of Inl _ \<Rightarrow> True | Inr pixel \<Rightarrow> row_width u * unat pixel \<le> budget))"

definition step_result :: "resource_table \<Rightarrow> usize \<Rightarrow> effect list \<Rightarrow> machine \<Rightarrow> owned_command \<Rightarrow> splitting ir_result option \<Rightarrow> bool"
where
  "step_result t budget fx m c r \<longleftrightarrow> (case r of
     None \<Rightarrow> False | Some (Inl _) \<Rightarrow> \<not> row_fits t budget c | Some (Inr s) \<Rightarrow> split_ok t budget (fx @ effects t c) m s)"

lemma upload_step:
  assumes "upload_of c = Some u" and "owned_step t mem c (e, NoPass) = (Inr (), e', p')" and "rects_ok c"
  shows "\<exists>pixel. upload_taken t u pixel (e, NoPass) (e', p')"
proof -
  obtain x mip layer rect stride data where u: "u = (x, mip, layer, rect, stride, data)" by (cases u)
  have call: "texture_ref t x = Inr x" "write_texture t mem x (owned_write mip layer rect stride data) e = (Inr (), e')" "p' = NoPass"
    using assms(1,2) unfolding u
    by (cases c; auto simp: refused_Inr and_then_Inr_iff call_results texture_write_new_def with_mip_level_def
        with_array_layer_def owned_write_def dest: reference_same split: if_splits)+
  from call(2) have "write_texture_checks t x (owned_write mip layer rect stride data) e = Inr ()"
    by (auto simp: write_texture_def checked_push_def then_do_Inr)
  then obtain pixel where "pixel_bytes t x = Inr pixel"
    by (auto simp: write_texture_checks_def pixel_bytes_def call(1) and_then_Inr_iff)
  with call assms(1,3) show ?thesis by (auto simp: upload_taken_def u rects_ok_def)
qed

lemma split_upload_ok:
  assumes u: "upload_of c = Some u" and step: "owned_step t mem c (e, NoPass) = (Inr (), e', p')" and "rects_ok c"
    and ok: "split_ok t budget fx (e, NoPass) s" and budget: "budget < usize_limit - 1"
  shows "step_result t budget fx (e', p') c (split_upload t budget c s)"
proof -
  obtain pixel where taken: "upload_taken t u pixel (e, NoPass) (e', p')" using upload_step assms by blast
  define rb where "rb = row_width u * unat pixel"
  note facts = taken_facts [OF taken rb_def]
  have p': "p' = NoPass" using taken by (auto simp: upload_taken_def split: prod.splits)
  have "open_matches (e, NoPass)" using ok by (simp add: split_ok_def)
  then have opened: "open_matches (e', p')" "\<not> en_pass_open e" using owned_step_open [OF step] by (simp_all add: open_matches_def)
  define per where "per = max (budget div rb) 1"
  have upload: "split_upload t budget c s = (if rb > budget then Some (Inl InvalidValue)
      else write_chunks budget u rb per (step_by (upload_rows u) per) s)"
    using facts(2,4) by (cases u) (simp add: split_upload_def assms(1) rb_def per_def Let_def)
  show ?thesis
  proof (cases "rb > budget")
    case True
    then show ?thesis using facts(4) by (simp add: step_result_def row_fits_def upload u rb_def)
  next
    case False
    then have "0 < budget div rb" using facts(2) by (simp add: div_greater_zero_iff)
    then have per: "per = budget div rb" "0 < per" by (simp_all add: per_def)
    then have bounds: "per * rb \<le> budget" "budget < per * rb + rb"
      using facts(2) div_times_less_eq_dividend [of budget rb] dividend_less_div_times [of rb budget] by simp_all
    define n where "n = (upload_rows u + per - 1) div per"
    have starts: "\<forall>i < n. i * per < upload_rows u"
    proof (intro allI impI)
      fix i assume "i < n"
      then have "Suc i * per \<le> upload_rows u + per - 1" using per(2) by (simp add: n_def less_eq_div_iff_mult_less_eq flip: Suc_le_eq)
      then show "i * per < upload_rows u" using per(2) facts(3) by simp
    qed
    have "0 < n" using facts(3) per(2) by (simp add: n_def div_greater_zero_iff)
    have list: "map (\<lambda>i. i * per) [0 ..< n] = step_by (upload_rows u) per" by (simp add: step_by_def n_def)
    obtain s' where "write_chunks budget u rb per (step_by (upload_rows u) per) s = Some (Inr s')"
      and "split_ok t budget (fx @ rows_written u rb [0 ..< upload_rows u]) (e', NoPass) s'"
      using write_chunks_ok [OF taken [unfolded p'] opened(1) [unfolded p'] opened(2) rb_def per(2) bounds starts budget ok, of 0]
        \<open>0 < n\<close> unfolding list step_by_rows [OF per(2)] by auto
    then show ?thesis using facts(4) False by (simp add: step_result_def upload effects_def u rb_def p')
  qed
qed

lemma upload_length_none: "upload_of c = None \<Longrightarrow> upload_length c = 0"
proof (cases c)
  case (OwResourceBarrier b)
  then show ?thesis by (cases b) (simp_all add: upload_length_def)
qed (simp_all add: upload_length_def)

lemma split_step_ok:
  assumes step: "owned_step t mem c m = (Inr (), m')" and "rects_ok c"
    and ok: "split_ok t budget fx m s" and budget: "budget < usize_limit - 1"
  shows "step_result t budget fx m' c (split_step t budget c s)"
proof -
  have opened: "open_matches m" using ok by (simp add: split_ok_def)
  note push = step_pushable [OF step opened]
  obtain e p where m: "m = (e, p)" by (cases m)
  obtain e' p' where m': "m' = (e', p')" by (cases m')
  show ?thesis
  proof (cases "p = NoPass")
    case False
    then have inside: "\<not> begins_pass c \<and> (ends_pass c \<longleftrightarrow> p' = NoPass) \<and> upload_length c = 0 \<and> plan_record c b = b \<and>
        \<not> requires_split b c" for b using step_inside step by (simp add: m m')
    have "sp_in_pass s" using ok False by (simp add: split_ok_def m)
    have "sp_bytes s \<le> budget" using ok scan_within by (auto simp: split_ok_def)
    then have bytes: "usize_saturating_add (sp_bytes s) 0 = sp_bytes s" using budget by (simp add: usize_saturating_add_def)
    have "s\<lparr>sp_plan := sp_plan s, sp_bytes := sp_bytes s, sp_in_pass := b, sp_batch := x\<rparr> = s\<lparr>sp_in_pass := b, sp_batch := x\<rparr>" for b x
      by (cases s) simp
    with add_ok [OF ok push] inside bytes \<open>sp_bytes s \<le> budget\<close>
    have next_ok: "split_ok t budget (fx @ effects t c) m' (s\<lparr>sp_in_pass := (p' \<noteq> NoPass), sp_batch := sp_batch s @ [c]\<rparr>)"
      by (simp add: m')
    have "s\<lparr>sp_in_pass := True, sp_batch := x\<rparr> = s\<lparr>sp_batch := x\<rparr>" for x using \<open>sp_in_pass s\<close> by (cases s) simp
    with next_ok show ?thesis using inside \<open>sp_in_pass s\<close>
      by (cases "p' = NoPass") (simp_all add: split_step_def step_result_def)
  next
    case True
    have outside: "\<not> ends_pass c" "begins_pass c \<longleftrightarrow> p' \<noteq> NoPass" using step_outside [of t mem c e e' p'] step by (simp_all add: m m' True)
    have "\<not> sp_in_pass s" using ok by (simp add: split_ok_def m True)
    define s1 where "s1 = (if requires_split (sp_plan s) c then close_batch s else s)"
    have ok1: "split_ok t budget fx (e, NoPass) s1" using ok close_ok by (simp add: s1_def m True)
    have plan1: "\<not> requires_split (sp_plan s1) c" by (simp add: s1_def close_batch_def)
    show ?thesis
    proof (cases "begins_pass c")
      case begins: True
      define s2 where "s2 = (if sp_bytes s1 \<ge> budget \<and> sp_batch s1 \<noteq> [] then close_batch s1 else s1)"
      have ok2: "split_ok t budget fx (e, NoPass) s2" using ok1 close_ok by (simp add: s2_def)
      have plan2: "\<not> requires_split (sp_plan s2) c" using plan1 by (simp add: s2_def close_batch_def)
      have len: "upload_length c = 0" using begins by (cases c) (simp_all add: upload_length_def)
      have "sp_bytes s2 \<le> budget" using ok2 scan_within by (auto simp: split_ok_def)
      then have bytes: "usize_saturating_add (sp_bytes s2) 0 = sp_bytes s2" using budget by (simp add: usize_saturating_add_def)
      have "s2\<lparr>sp_plan := a, sp_bytes := sp_bytes s2, sp_in_pass := True, sp_batch := x\<rparr> =
          s2\<lparr>sp_plan := a, sp_in_pass := True, sp_batch := x\<rparr>" for a x by (cases s2) simp
      with add_ok [OF ok2 push [unfolded m True] plan2] len bytes \<open>sp_bytes s2 \<le> budget\<close> outside begins
      show ?thesis using \<open>\<not> sp_in_pass s\<close> by (simp add: split_step_def step_result_def s1_def [symmetric] s2_def [symmetric] Let_def m')
    next
      case False
      then have p': "p' = NoPass" using outside(2) by simp
      have s1: "\<not> sp_in_pass s1" using ok1 by (simp add: split_ok_def)
      have split: "split_step t budget c s = (if upload_length c \<le> budget then map_option Inr (split_push budget c s1)
          else split_upload t budget c s1)"
        using \<open>\<not> sp_in_pass s\<close> False outside(1) s1 by (simp add: split_step_def s1_def [symmetric] Let_def)
      show ?thesis
      proof (cases "upload_length c \<le> budget")
        case True
        from push_ok [OF ok1 push [unfolded m \<open>p = NoPass\<close> m' p'] _ plan1 True budget] True
        show ?thesis by (auto simp: split step_result_def m' p')
      next
        case False
        then obtain u where "upload_of c = Some u" using upload_length_none by (cases "upload_of c") auto
        then show ?thesis
          using split_upload_ok [OF _ step [unfolded m \<open>p = NoPass\<close> m'] assms(2) ok1 budget] False by (simp add: split m')
      qed
    qed
  qed
qed

lemma split_loop_ok:
  assumes "owned_run t mem n cs m = Inr m'" and "\<forall>c \<in> set cs. rects_ok c" and "split_ok t budget fx m s"
    and "budget < usize_limit - 1"
  shows "case split_loop t budget cs s of None \<Rightarrow> False | Some (Inl _) \<Rightarrow> \<exists>c \<in> set cs. \<not> row_fits t budget c
    | Some (Inr s') \<Rightarrow> split_ok t budget (fx @ all_effects t cs) m' s'"
  using assms
proof (induction cs arbitrary: n m fx s)
  case (Cons c cs)
  then obtain m1 where step: "owned_step t (mem n) c m = (Inr (), m1)" and rest: "owned_run t mem (Suc n) cs m1 = Inr m'"
    by (auto split: prod.splits sum.splits)
  have result: "step_result t budget fx m1 c (split_step t budget c s)"
    using split_step_ok [OF step] Cons.prems by simp
  show ?case
  proof (cases "split_step t budget c s")
    case (Some r)
    then show ?thesis
    proof (cases r)
      case (Inr s1)
      with result Some have "split_ok t budget (fx @ effects t c) m1 s1" by (simp add: step_result_def)
      from Cons.IH [OF rest _ this Cons.prems(4)] Cons.prems(2) show ?thesis
        by (auto simp: Some Inr split: option.splits sum.splits)
    qed (use result Some in \<open>auto simp: step_result_def\<close>)
  qed (use result in \<open>simp add: step_result_def\<close>)
qed simp

section \<open>What a batch may hold\<close>

fun renders :: "owned_command \<Rightarrow> bool" where
  "renders (OwBeginRenderPass _) \<longleftrightarrow> True"
| "renders (OwBeginRenderPassWithAttachments _ _ _) \<longleftrightarrow> True"
| "renders _ \<longleftrightarrow> False"

fun updates_buffers :: "owned_command \<Rightarrow> bool" where
  "updates_buffers (OwWriteBuffer _ _ _) \<longleftrightarrow> True"
| "updates_buffers (OwCopyBufferToBuffer _ _ _ _ _) \<longleftrightarrow> True"
| "updates_buffers _ \<longleftrightarrow> False"

text \<open>
  Two commands fit one native plan in this order: no buffer changes and no compute pass after a render
  pass, no render pass after a compute pass.
\<close>

definition one_plan :: "owned_command \<Rightarrow> owned_command \<Rightarrow> bool" where
  "one_plan c d \<longleftrightarrow> \<not> (renders c \<and> (updates_buffers d \<or> d = OwBeginComputePass)) \<and> \<not> (c = OwBeginComputePass \<and> renders d)"

lemma plan_eqs:
  "requires_split p d \<longleftrightarrow> pb_rendered p \<and> (updates_buffers d \<or> d = OwBeginComputePass) \<or> pb_computed p \<and> renders d"
  "pb_rendered (plan_record c p) \<longleftrightarrow> pb_rendered p \<or> renders c"
  "pb_computed (plan_record c p) \<longleftrightarrow> pb_computed p \<or> c = OwBeginComputePass"
  by (cases d; auto) (cases c; auto)+

lemma scan_iff:
  assumes "budget < usize_limit - 1" and "n \<le> budget"
  shows "scan budget (p, n) cs \<noteq> None \<longleftrightarrow> n + sum_list (map upload_length cs) \<le> budget \<and>
    (\<forall>d \<in> set cs. \<not> requires_split p d) \<and> sorted_wrt one_plan cs"
  using assms(2)
proof (induction cs arbitrary: p n)
  case (Cons c cs)
  have later: "(\<forall>d \<in> set cs. \<not> requires_split (plan_record c p) d) \<longleftrightarrow>
      (\<forall>d \<in> set cs. \<not> requires_split p d) \<and> (\<forall>d \<in> set cs. one_plan c d)"
    by (auto simp: plan_eqs one_plan_def)
  show ?case
  proof (cases "n + upload_length c \<le> budget")
    case True
    then have "usize_saturating_add n (upload_length c) = n + upload_length c" using assms(1) by (simp add: usize_saturating_add_def)
    with Cons.IH [OF True] True later show ?thesis by auto
  next
    case False
    then have "usize_saturating_add n (upload_length c) > budget" using assms(1) by (simp add: usize_saturating_add_def)
    with False show ?thesis by simp
  qed
qed simp

lemma needs_batches_iff:
  "budget < usize_limit - 1 \<Longrightarrow> \<not> needs_batches b budget \<longleftrightarrow> sum_list (map upload_length b) \<le> budget \<and> sorted_wrt one_plan b"
  using scan_iff [of budget 0 plan_default b] by (simp add: needs_batches_scan)

section \<open>Properties\<close>

lemma validated_run:
  "owned_validate t mem b = Inr () \<longleftrightarrow> (\<exists>e. owned_run t mem 0 b (for_validation, NoPass) = Inr (e, NoPass) \<and> \<not> en_pass_open e)"
  by (auto simp: owned_validate_def done_unit_def and_then_Inr_iff record_with_Inr finish_Inr)

lemma owned_run_lighter:
  assumes "owned_run t mem n cs (e, p) = Inr (e', p')" and "lighter f e"
  shows "\<exists>f'. granted_run t cs (f, p) = Inr (f', p') \<and> lighter f' e'"
  using assms
proof (induction cs arbitrary: n e f p)
  case (Cons c cs)
  then obtain e1 p1 where step: "owned_step t (mem n) c (e, p) = (Inr (), e1, p1)"
    and rest: "owned_run t mem (Suc n) cs (e1, p1) = Inr (e', p')"
    by (auto split: prod.splits sum.splits)
  obtain f1 where "owned_step t granted c (f, p) = (Inr (), f1, p1)" "lighter f1 e1"
    using owned_step_lighter [OF step Cons.prems(2)] by blast
  with Cons.IH [OF rest] show ?case by (auto simp: owned_run_anywhere [of _ _ "Suc 0"])
qed auto

lemma validated_granted:
  assumes "owned_validate t mem b = Inr ()"
  shows "owned_validate t (\<lambda>_. granted) b = Inr ()"
proof -
  obtain e where run: "owned_run t mem 0 b (for_validation, NoPass) = Inr (e, NoPass)" and "\<not> en_pass_open e"
    using assms by (auto simp: validated_run)
  from owned_run_lighter [OF run fresh_lighter [OF fresh_open]]
  obtain f where "granted_run t b (for_validation, NoPass) = Inr (f, NoPass)" "lighter f e" by blast
  with \<open>\<not> en_pass_open e\<close> show ?thesis by (auto simp: validated_run lighter_def)
qed

text \<open>The batches of a loop that ended, none of which has failed yet.\<close>

lemma loop_batches:
  assumes valid: "owned_validate t mem cs = Inr ()" and "\<forall>c \<in> set cs. rects_ok c" and "budget < usize_limit - 1"
    and loop: "split_loop t budget cs splitting_start = Some (Inr s)"
    and bs: "bs = sp_batches s @ (if sp_batch s \<noteq> [] then [sp_batch s] else [])"
  shows "all_effects t (concat bs) = all_effects t cs \<and> (\<forall>b \<in> set bs. batch_ok t budget b)"
proof -
  obtain e where run: "owned_run t mem 0 cs (for_validation, NoPass) = Inr (e, NoPass)"
    using valid by (auto simp: validated_run)
  from split_loop_ok [OF run assms(2) split_start assms(3)] loop
  have ok: "split_ok t budget (all_effects t cs) (e, NoPass) s" by simp
  then have "batch_ok t budget (sp_batch s)"
    by (auto simp: split_ok_def batch_ok_def needs_batches_scan open_matches_def lighter_def)
  with ok show ?thesis by (auto simp: split_ok_def bs)
qed

lemma split_loop_returns:
  assumes "owned_validate t mem cs = Inr ()" and "\<forall>c \<in> set cs. rects_ok c" and "budget < usize_limit - 1"
  shows "split_loop t budget cs splitting_start \<noteq> None"
    and "\<forall>c \<in> set cs. row_fits t budget c \<Longrightarrow> \<exists>s. split_loop t budget cs splitting_start = Some (Inr s)"
proof -
  obtain e where run: "owned_run t mem 0 cs (for_validation, NoPass) = Inr (e, NoPass)"
    using assms(1) by (auto simp: validated_run)
  from split_loop_ok [OF run assms(2) split_start assms(3)]
  show "split_loop t budget cs splitting_start \<noteq> None"
    and "\<forall>c \<in> set cs. row_fits t budget c \<Longrightarrow> \<exists>s. split_loop t budget cs splitting_start = Some (Inr s)"
    by (auto split: option.splits sum.splits)
qed

lemma validate_batches_ok:
  "\<forall>b \<in> set bs. batch_ok t budget b \<Longrightarrow> \<forall>j n site. mem (Suc j) n site \<Longrightarrow> validate_batches t mem (Suc i) bs = Inr ()"
proof (induction bs arbitrary: i)
  case (Cons b bs)
  have "mem (Suc i) = (\<lambda>_. granted)" using Cons.prems(2) by (intro ext) simp
  moreover have "owned_validate t (\<lambda>_. granted) b = Inr ()" using Cons.prems(1) by (auto simp: batch_ok_def validated_run)
  ultimately show ?case using Cons by simp
qed simp

text \<open>A padded upload of four rows of four bytes, cut at a budget of two rows.\<close>

definition upload_table :: resource_table where
  "upload_table = (table_new 1)\<lparr>rt_textures := \<lparr>sl_slots = [live
     \<lparr>tex_format = R8Unorm, tex_extent = \<lparr>ext_width = 4, ext_height = 4\<rparr>, tex_usage = TEX_COPY_DST, tex_mips = 1,
      tex_layers = 1, tex_cube = False, tex_1d = False\<rparr>], sl_free = None\<rparr>\<rparr>"

definition upload_example :: "owned_command list" where
  "upload_example = [OwWriteTexture (rid 0) \<lparr>rect_x = 0, rect_y = 0, rect_width = 4, rect_height = 4\<rparr> 6
     [0, 1, 2, 3, 99, 99, 4, 5, 6, 7, 99, 99, 8, 9, 10, 11, 99, 99, 12, 13, 14, 15]]"

definition upload_example_batches :: "owned_command list list" where
  "upload_example_batches =
     [[OwWriteTextureLayer (rid 0) 0 0 \<lparr>rect_x = 0, rect_y = 0, rect_width = 4, rect_height = 2\<rparr> 4 [0, 1, 2, 3, 4, 5, 6, 7]],
      [OwWriteTextureLayer (rid 0) 0 0 \<lparr>rect_x = 0, rect_y = 2, rect_width = 4, rect_height = 2\<rparr> 4 [8, 9, 10, 11, 12, 13, 14, 15]]]"

lemma upload_example_cut:
  "split_recording upload_table (\<lambda>_ _ _. True) 8 upload_example = Some (Inr upload_example_batches)"
  by code_simp

lemma upload_example_fits:
  "\<forall>c \<in> set upload_example. rects_ok c" "\<forall>c \<in> set upload_example. row_fits upload_table 8 c"
  "(8 :: nat) < usize_limit - 1"
  by code_simp+



text \<open>
  C31. Cutting never panics, and it never refuses a valid recording whose texture rows fit the budget:
  the slices are in bounds, the row rectangles are rectangles, and given memory every batch validates.
\<close>

theorem valid_recordings_are_cut:
  assumes "0 < budget" "budget < usize_limit - 1" and "\<forall>c \<in> set cs. rects_ok c"
  shows "split_recording t mem budget cs \<noteq> None \<and>
    (owned_validate t (mem 0) cs = Inr () \<and> (\<forall>c \<in> set cs. row_fits t budget c) \<and> (\<forall>i n site. mem (Suc i) n site) \<longrightarrow>
       (\<exists>bs. split_recording t mem budget cs = Some (Inr bs)))"
proof (cases "owned_validate t (mem 0) cs")
  case (Inr u)
  then have valid: "owned_validate t (mem 0) cs = Inr ()" by simp
  note returns = split_loop_returns [OF valid assms(3,2)]
  show ?thesis
  proof (intro conjI impI)
    show "split_recording t mem budget cs \<noteq> None"
      using returns(1) by (auto simp: split_recording_def Let_def split: option.splits sum.splits)
  next
    assume fine: "owned_validate t (mem 0) cs = Inr () \<and> (\<forall>c \<in> set cs. row_fits t budget c) \<and> (\<forall>i n site. mem (Suc i) n site)"
    then obtain s where loop: "split_loop t budget cs splitting_start = Some (Inr s)" using returns(2) by blast
    have "\<forall>b \<in> set (sp_batches s @ (if sp_batch s \<noteq> [] then [sp_batch s] else [])). batch_ok t budget b"
      using loop_batches [OF valid assms(3,2) loop refl] by blast
    from validate_batches_ok [OF this, of mem 0] fine loop valid assms(1)
    show "\<exists>bs. split_recording t mem budget cs = Some (Inr bs)"
      by (cases "needs_batches cs budget") (simp_all add: split_recording_def Let_def)
  qed
qed (use assms(1) in \<open>simp add: split_recording_def\<close>)

theorem valid_recordings_are_cut_witness:
  "\<exists>bs. split_recording upload_table (\<lambda>_ _ _. True) 8 upload_example = Some (Inr bs)"
proof -
  have "owned_validate upload_table (\<lambda>_ _. True) upload_example = Inr ()"
    using upload_example_cut by (auto simp: split_recording_def split: if_splits sum.splits)
  then show ?thesis
    using valid_recordings_are_cut [OF _ upload_example_fits(3,1), of upload_table "\<lambda>_ _ _. True"] upload_example_fits(2) by simp
qed

end
