(* ===== verification/Push_Constants.thy ===== *)
theory Push_Constants
  imports Owned_Commands
begin

text \<open>
  Incremental push constants of the Vulkan driver, \<^verbatim>\<open>crates/vulkan-sgfx/src/push_constants.rs\<close>.
  Vulkan lets an application update any declared bytes at any time; the encoder of SGFX wants, at
  each draw or dispatch, updates that give every stage declaring the bytes the same data. The driver
  therefore keeps, for each stage and byte, the last value and the layout it was written under, and
  turns them into \<^const>\<open>OwSetPushConstants\<close> commands on demand. The indices of the three arrays
  never leave them: an update is applied only after its layout has accepted its range.
\<close>

section \<open>State and operations\<close>

datatype vk_error =
    ErrorOutOfHostMemory
  | ErrorOutOfDeviceMemory
  | ErrorFeatureNotPresent
  | ErrorInitializationFailed

fun failure :: "error \<Rightarrow> vk_error" where
  "failure OutOfMemory = ErrorOutOfHostMemory"
| "failure ResourceLimitExceeded = ErrorOutOfDeviceMemory"
| "failure _ = ErrorFeatureNotPresent"

record push_constants =
  pk_bytes :: "u8 list list"
  pk_owners :: "usize option list list"
  pk_layouts :: "push_constant_range list list"

definition push_constants_default :: push_constants where
  "push_constants_default =
     \<lparr>pk_bytes = replicate 3 (replicate 128 0), pk_owners = replicate 3 (replicate 128 None), pk_layouts = []\<rparr>"

fun position :: "'a \<Rightarrow> 'a list \<Rightarrow> usize option" where
  "position x [] = None"
| "position x (y # ys) = (if y = x then Some 0 else map_option Suc (position x ys))"

definition stage_slots :: "(usize \<times> shader_stages) list" where
  "stage_slots = List.enumerate 0 all_stages"

definition put_at :: "'a list \<Rightarrow> usize \<Rightarrow> 'a list \<Rightarrow> 'a list" where
  "put_at row start xs = take start row @ xs @ drop (start + length xs) row"

definition update_stage ::
    "usize \<Rightarrow> u8 list \<Rightarrow> usize \<Rightarrow> usize \<Rightarrow> push_constants \<Rightarrow> bool \<times> push_constants"
where
  "update_stage start data owner i p =
     (let row = pk_bytes p ! i; owners = pk_owners p ! i
      in (take (length data) (drop start row) \<noteq> data \<or>
            list_ex (\<lambda>previous. previous \<noteq> Some owner) (take (length data) (drop start owners)),
          p\<lparr>pk_bytes := (pk_bytes p)[i := put_at row start data],
            pk_owners := (pk_owners p)[i := put_at owners start (replicate (length data) (Some owner))]\<rparr>))"

fun update_stages ::
    "usize \<Rightarrow> u8 list \<Rightarrow> usize \<Rightarrow> shader_stages \<Rightarrow> (usize \<times> shader_stages) list \<Rightarrow>
     bool \<Rightarrow> push_constants \<Rightarrow> bool \<times> push_constants"
where
  "update_stages start data owner stages [] changed p = (changed, p)"
| "update_stages start data owner stages ((i, s) # ss) changed p =
     (if stages_contain stages s
      then let (c, p') = update_stage start data owner i p
           in update_stages start data owner stages ss (changed \<or> c) p'
      else update_stages start data owner stages ss changed p)"

definition push_update ::
    "push_constants \<Rightarrow> pipeline_layout \<Rightarrow> shader_stages \<Rightarrow> u32 \<Rightarrow> u8 list \<Rightarrow> vk_error + bool \<times> push_constants"
where
  "push_update p l stages offset data =
     (case validate_push_constants l stages offset data of
        Inl e \<Rightarrow> Inl (failure e)
      | Inr _ \<Rightarrow>
          let ranges = pl_push_constants l;
              (owner, layouts) = (case position ranges (pk_layouts p) of
                  Some index \<Rightarrow> (index, pk_layouts p)
                | None \<Rightarrow> (length (pk_layouts p), pk_layouts p @ [ranges]))
          in Inr (update_stages (unat offset) data owner stages stage_slots False
                    (p\<lparr>pk_layouts := layouts\<rparr>)))"

section \<open>Snapshots\<close>

definition boundaries :: "push_constant_range list \<Rightarrow> u32 list" where
  "boundaries ranges = remdups_adj (sort (concat (map (\<lambda>r. [pc_offset r, pc_offset r + pc_size r]) ranges)))"

definition window_stages :: "push_constant_range list \<Rightarrow> u32 \<Rightarrow> u32 \<Rightarrow> shader_stages" where
  "window_stages ranges start stop =
     foldl (\<lambda>stages r. if pc_offset r \<le> start \<and> stop \<le> pc_offset r + pc_size r
                       then stages_union stages (pc_stages r) else stages) 0 ranges"

fun read_bytes ::
    "push_constants \<Rightarrow> push_constant_range list \<Rightarrow> usize \<Rightarrow> usize \<Rightarrow> usize list \<Rightarrow> u8 list \<Rightarrow> bool list \<Rightarrow>
     vk_error + u8 list \<times> bool list"
where
  "read_bytes p ranges start i [] bytes known = Inr (bytes, known)"
| "read_bytes p ranges start i (byte # rest) bytes known =
     (case pk_owners p ! i ! byte of
        None \<Rightarrow> read_bytes p ranges start i rest bytes known
      | Some owner \<Rightarrow>
          if pk_layouts p ! owner \<noteq> ranges then Inl ErrorInitializationFailed
          else let destination = byte - start
               in if known ! destination \<and> bytes ! destination \<noteq> pk_bytes p ! i ! byte
                  then Inl ErrorInitializationFailed
                  else read_bytes p ranges start i rest
                         (bytes[destination := pk_bytes p ! i ! byte]) (known[destination := True]))"

fun read_stages ::
    "push_constants \<Rightarrow> push_constant_range list \<Rightarrow> usize \<Rightarrow> usize \<Rightarrow> shader_stages \<Rightarrow> (usize \<times> shader_stages) list \<Rightarrow>
     u8 list \<Rightarrow> bool list \<Rightarrow> vk_error + u8 list \<times> bool list"
where
  "read_stages p ranges start stop stages [] bytes known = Inr (bytes, known)"
| "read_stages p ranges start stop stages ((i, s) # ss) bytes known =
     (if \<not> stages_contain stages s then read_stages p ranges start stop stages ss bytes known
      else and_then (read_bytes p ranges start i [start ..< stop] bytes known)
             (\<lambda>(bytes, known). read_stages p ranges start stop stages ss bytes known))"

fun snapshot_windows ::
    "push_constants \<Rightarrow> push_constant_range list \<Rightarrow> (u32 \<times> u32) list \<Rightarrow> vk_error + owned_command list"
where
  "snapshot_windows p ranges [] = Inr []"
| "snapshot_windows p ranges ((start, stop) # ws) =
     (let stages = window_stages ranges start stop
      in if stages = 0 then snapshot_windows p ranges ws
         else and_then (read_stages p ranges (unat start) (unat stop) stages stage_slots
                          (replicate (unat (stop - start)) 0) (replicate (unat (stop - start)) False))
                (\<lambda>(bytes, _). and_then (snapshot_windows p ranges ws)
                   (\<lambda>cs. Inr (OwSetPushConstants stages start bytes # cs))))"

definition push_snapshot :: "push_constants \<Rightarrow> pipeline_layout \<Rightarrow> vk_error + owned_command list" where
  "push_snapshot p l =
     (let bs = boundaries (pl_push_constants l)
      in snapshot_windows p (pl_push_constants l) (zip bs (tl bs)))"

section \<open>What the bytes of the stages hold\<close>

text \<open>The layout and value the state keeps for a byte of a stage, and the ones last written.\<close>

definition stored :: "push_constants \<Rightarrow> usize \<Rightarrow> nat \<Rightarrow> (push_constant_range list \<times> u8) option" where
  "stored p i k = map_option (\<lambda>owner. (pk_layouts p ! owner, pk_bytes p ! i ! k)) (pk_owners p ! i ! k)"

type_synonym push_call = "pipeline_layout \<times> shader_stages \<times> u32 \<times> u8 list"

definition writes :: "push_call \<Rightarrow> usize \<Rightarrow> nat \<Rightarrow> bool" where
  "writes = (\<lambda>(l, stages, offset, data) i k. validate_push_constants l stages offset data = Inr () \<and>
     stages_contain stages (all_stages ! i) \<and> unat offset \<le> k \<and> k < unat offset + length data)"

fun last_write :: "push_call list \<Rightarrow> usize \<Rightarrow> nat \<Rightarrow> (push_constant_range list \<times> u8) option" where
  "last_write [] i k = None"
| "last_write (c # older) i k =
     (if writes c i k
      then case c of (l, _, offset, data) \<Rightarrow> Some (pl_push_constants l, data ! (k - unat offset))
      else last_write older i k)"

text \<open>The state after the calls, the latest first; a failed call changes nothing.\<close>

fun push_run :: "push_call list \<Rightarrow> push_constants" where
  "push_run [] = push_constants_default"
| "push_run ((l, stages, offset, data) # older) =
     (case push_update (push_run older) l stages offset data of Inl _ \<Rightarrow> push_run older | Inr (_, p) \<Rightarrow> p)"

definition push_ok :: "push_constants \<Rightarrow> bool" where
  "push_ok p \<longleftrightarrow> length (pk_bytes p) = 3 \<and> length (pk_owners p) = 3 \<and>
     (\<forall>i < 3. length (pk_bytes p ! i) = 128 \<and> length (pk_owners p ! i) = 128) \<and> distinct (pk_layouts p) \<and>
     (\<forall>i < 3. \<forall>k < 128. \<forall>owner. pk_owners p ! i ! k = Some owner \<longrightarrow> owner < length (pk_layouts p))"

lemma position_Some: "position x xs = Some i \<Longrightarrow> i < length xs \<and> xs ! i = x"
  by (induction xs arbitrary: i) (auto split: if_splits)

lemma position_None: "position x xs = None \<longleftrightarrow> x \<notin> set xs"
  by (induction xs) auto

lemma length_put_at [simp]: "start + length xs \<le> length row \<Longrightarrow> length (put_at row start xs) = length row"
  by (simp add: put_at_def)

lemma nth_put_at:
  "start + length xs \<le> length row \<Longrightarrow> k < length row \<Longrightarrow>
     put_at row start xs ! k = (if start \<le> k \<and> k < start + length xs then xs ! (k - start) else row ! k)"
  by (auto simp: put_at_def nth_append)

lemma shifted_ex: "(\<exists>k. start \<le> k \<and> k < start + n \<and> P k) \<longleftrightarrow> (\<exists>d < n. P (start + d))" for start n :: nat
  by (metis add_diff_inverse_nat le_add1 nat_add_left_cancel_less not_less)

lemma slice_eq:
  assumes "start + length xs \<le> length row"
  shows "take (length xs) (drop start row) \<noteq> xs \<longleftrightarrow>
     (\<exists>k. start \<le> k \<and> k < start + length xs \<and> row ! k \<noteq> xs ! (k - start))"
  unfolding shifted_ex using assms by (auto simp: list_eq_iff_nth_eq)

lemma slice_ex:
  assumes "start + n \<le> length row"
  shows "list_ex P (take n (drop start row)) \<longleftrightarrow> (\<exists>k. start \<le> k \<and> k < start + n \<and> P (row ! k))"
  unfolding shifted_ex using assms by (auto simp: list_ex_length)

section \<open>Updates\<close>

text \<open>What one call asks of a byte of a stage, whatever the layout's verdict.\<close>

lemma update_stage_spec:
  assumes p: "push_ok p" and i: "i < 3" and fits: "start + length data \<le> 128" and owner: "owner < length (pk_layouts p)"
    and step: "update_stage start data owner i p = (c, p')"
  shows "push_ok p'" and "pk_layouts p' = pk_layouts p"
    and "j < 3 \<Longrightarrow> k < 128 \<Longrightarrow> stored p' j k =
           (if j = i \<and> start \<le> k \<and> k < start + length data then Some (pk_layouts p ! owner, data ! (k - start))
            else stored p j k)"
    and "c \<longleftrightarrow> (\<exists>k. start \<le> k \<and> k < start + length data \<and> stored p i k \<noteq> Some (pk_layouts p ! owner, data ! (k - start)))"
    and "\<not> c \<Longrightarrow> p' = p"
proof -
  have len: "length (pk_bytes p ! i) = 128" "length (pk_owners p ! i) = 128" "length (pk_bytes p) = 3" "length (pk_owners p) = 3"
    using p i by (auto simp: push_ok_def)
  have p': "p' = p\<lparr>pk_bytes := (pk_bytes p)[i := put_at (pk_bytes p ! i) start data],
      pk_owners := (pk_owners p)[i := put_at (pk_owners p ! i) start (replicate (length data) (Some owner))]\<rparr>"
    and c: "c \<longleftrightarrow> take (length data) (drop start (pk_bytes p ! i)) \<noteq> data \<or>
      list_ex (\<lambda>previous. previous \<noteq> Some owner) (take (length data) (drop start (pk_owners p ! i)))"
    using step by (auto simp: update_stage_def Let_def)
  show "pk_layouts p' = pk_layouts p" by (simp add: p')
  show "push_ok p'" using p i fits owner len
    by (auto simp: push_ok_def p' nth_list_update nth_put_at split: if_splits)
  show "stored p' j k = (if j = i \<and> start \<le> k \<and> k < start + length data then Some (pk_layouts p ! owner, data ! (k - start))
            else stored p j k)" if "j < 3" "k < 128"
    using that i fits len by (auto simp: stored_def p' nth_list_update nth_put_at)
  have c': "c \<longleftrightarrow> (\<exists>k. start \<le> k \<and> k < start + length data \<and>
      (pk_bytes p ! i ! k \<noteq> data ! (k - start) \<or> pk_owners p ! i ! k \<noteq> Some owner))"
    using fits len by (auto simp: c slice_eq slice_ex)
  have same: "pk_owners p ! i ! k = Some owner \<longleftrightarrow> map_option ((!) (pk_layouts p)) (pk_owners p ! i ! k) = Some (pk_layouts p ! owner)"
    if "k < 128" for k
    using p i that owner by (auto simp: push_ok_def nth_eq_iff_index_eq)
  show "c \<longleftrightarrow> (\<exists>k. start \<le> k \<and> k < start + length data \<and> stored p i k \<noteq> Some (pk_layouts p ! owner, data ! (k - start)))"
    unfolding c' using same fits by (fastforce simp: stored_def)
  show "p' = p" if "\<not> c"
  proof -
    have "put_at (pk_bytes p ! i) start data = pk_bytes p ! i"
      "put_at (pk_owners p ! i) start (replicate (length data) (Some owner)) = pk_owners p ! i"
      using that[unfolded c'] fits len by (auto simp: list_eq_iff_nth_eq nth_put_at)
    then show ?thesis by (cases p) (simp add: p')
  qed
qed

definition stage_writes ::
    "(usize \<times> shader_stages) list \<Rightarrow> shader_stages \<Rightarrow> usize \<Rightarrow> usize \<Rightarrow> usize \<Rightarrow> nat \<Rightarrow> bool"
where
  "stage_writes ss stages start n j k \<longleftrightarrow>
     (\<exists>s. (j, s) \<in> set ss \<and> stages_contain stages s) \<and> start \<le> k \<and> k < start + n"

lemma stage_writes_simps:
  "\<not> stage_writes [] stages start n j k"
  "stage_writes ((i, s) # ss) stages start n j k \<longleftrightarrow>
     j = i \<and> stages_contain stages s \<and> start \<le> k \<and> k < start + n \<or> stage_writes ss stages start n j k"
  by (auto simp: stage_writes_def)

lemma update_stages_spec:
  assumes "update_stages start data owner stages ss c0 p = (c, p')" and "push_ok p"
    and "owner < length (pk_layouts p)" and "start + length data \<le> 128"
    and "fst ` set ss \<subseteq> {..< 3}" and "distinct (map fst ss)"
  shows "push_ok p' \<and> pk_layouts p' = pk_layouts p \<and>
    (\<forall>j < 3. \<forall>k < 128. stored p' j k =
       (if stage_writes ss stages start (length data) j k
        then Some (pk_layouts p ! owner, data ! (k - start)) else stored p j k)) \<and>
    (c \<longleftrightarrow> c0 \<or> (\<exists>j < 3. \<exists>k < 128. stage_writes ss stages start (length data) j k \<and>
       stored p j k \<noteq> Some (pk_layouts p ! owner, data ! (k - start)))) \<and>
    (\<not> c \<longrightarrow> p' = p)"
  using assms
proof (induction start data owner stages ss c0 p arbitrary: c p' rule: update_stages.induct)
  case (1 start data owner stages changed p)
  then show ?case by (simp add: stage_writes_simps)
next
  case (2 start data owner stages i s ss changed p)
  have i: "i < 3" using "2.prems"(5) by simp
  have fresh: "\<not> stage_writes ss stages start n i k" for n k
    using "2.prems"(6) by (force simp: stage_writes_def)
  show ?case
  proof (cases "stages_contain stages s")
    case False
    then show ?thesis using "2.IH"(2) [OF False] "2.prems" by (simp add: stage_writes_simps)
  next
    case True
    obtain c1 p1 where one: "update_stage start data owner i p = (c1, p1)" by (cases "update_stage start data owner i p")
    note spec = update_stage_spec [OF "2.prems"(2) i "2.prems"(4,3) one]
    have rest: "update_stages start data owner stages ss (changed \<or> c1) p1 = (c, p')"
      using "2.prems"(1) True one by simp
    have other: "stored p1 j k = stored p j k" if "j < 3" "k < 128" "stage_writes ss stages start n j k" for j k n
      using spec(3) [OF that(1,2)] that(3) fresh by auto
    have more_ss: "fst ` set ss \<subseteq> {..< 3}" "distinct (map fst ss)" using "2.prems"(5,6) by simp_all
    note IH = "2.IH"(1) [OF True one [symmetric] refl rest spec(1), unfolded spec(2), OF "2.prems"(3,4) more_ss]
    have "stage_writes ss stages start (length data) j k \<and> stored p1 j k \<noteq> v \<longleftrightarrow>
        stage_writes ss stages start (length data) j k \<and> stored p j k \<noteq> v" if "j < 3" "k < 128" for j k v
      using other [OF that] by metis
    then have later: "(\<exists>j < 3. \<exists>k < 128. stage_writes ss stages start (length data) j k \<and>
         stored p1 j k \<noteq> Some (pk_layouts p ! owner, data ! (k - start))) \<longleftrightarrow>
       (\<exists>j < 3. \<exists>k < 128. stage_writes ss stages start (length data) j k \<and>
         stored p j k \<noteq> Some (pk_layouts p ! owner, data ! (k - start)))" by blast
    have bound: "k < 128" if "k < start + length data" for k using that "2.prems"(4) by simp
    have "(\<exists>j < 3. \<exists>k < 128. stage_writes ((i, s) # ss) stages start (length data) j k \<and>
         stored p j k \<noteq> Some (pk_layouts p ! owner, data ! (k - start))) \<longleftrightarrow>
       c1 \<or> (\<exists>j < 3. \<exists>k < 128. stage_writes ss stages start (length data) j k \<and>
         stored p1 j k \<noteq> Some (pk_layouts p ! owner, data ! (k - start)))"
      unfolding later spec(4) stage_writes_simps using True i bound by blast
    moreover have "\<forall>j < 3. \<forall>k < 128. stored p' j k =
         (if stage_writes ((i, s) # ss) stages start (length data) j k
          then Some (pk_layouts p ! owner, data ! (k - start)) else stored p j k)"
    proof (intro allI impI)
      fix j :: usize and k :: nat assume j: "j < 3" and k: "k < 128"
      show "stored p' j k = (if stage_writes ((i, s) # ss) stages start (length data) j k
          then Some (pk_layouts p ! owner, data ! (k - start)) else stored p j k)"
        using IH [THEN conjunct2, THEN conjunct2, THEN conjunct1, rule_format, OF j k] spec(3) [OF j k] True
        by (auto simp: stage_writes_simps)
    qed
    ultimately show ?thesis using IH spec(5) by blast
  qed
qed

lemma stage_index: "j < 3 \<Longrightarrow> (j, s) \<in> set stage_slots \<longleftrightarrow> s = all_stages ! j"
  by (cases j; cases "j - 1") (auto simp: stage_slots_def)

lemma writes_stages:
  assumes "validate_push_constants l stages offset data = Inr ()" and "j < 3"
  shows "stage_writes stage_slots stages (unat offset) (length data) j k \<longleftrightarrow> writes (l, stages, offset, data) j k"
  using assms by (auto simp: stage_writes_def writes_def stage_index)

lemma stored_layouts: "stored (p\<lparr>pk_layouts := pk_layouts p @ xs\<rparr>) j k = stored p j k" if "push_ok p" "j < 3" "k < 128"
  using that by (auto simp: stored_def push_ok_def nth_append map_option_case split: option.splits)

lemma stored_in_layouts:
  "push_ok p \<Longrightarrow> j < 3 \<Longrightarrow> k < 128 \<Longrightarrow> stored p j k = Some (r, v) \<Longrightarrow> r \<in> set (pk_layouts p)"
  unfolding stored_def push_ok_def by (fastforce intro: nth_mem)

lemma some_stage_index:
  assumes "stages_valid b" and "b \<noteq> 0"
  shows "\<exists>j < 3. stages_contain b (all_stages ! j)"
proof -
  have "stages_contain b (all_stages ! 0) \<or> stages_contain b (all_stages ! 1) \<or> stages_contain b (all_stages ! 2)"
    using some_stage [OF assms] by simp
  moreover have "(0 :: nat) < 3 \<and> (1 :: nat) < 3 \<and> (2 :: nat) < 3" by simp
  ultimately show ?thesis by blast
qed

lemma push_update_spec:
  assumes p: "push_ok p" and step: "push_update p l stages offset data = Inr (c, p')"
  shows "push_ok p' \<and>
    (\<forall>j < 3. \<forall>k < 128. stored p' j k =
       (if writes (l, stages, offset, data) j k then Some (pl_push_constants l, data ! (k - unat offset)) else stored p j k)) \<and>
    (c \<longleftrightarrow> (\<exists>j < 3. \<exists>k < 128. writes (l, stages, offset, data) j k \<and>
       stored p j k \<noteq> Some (pl_push_constants l, data ! (k - unat offset)))) \<and>
    (stages_valid stages \<and> \<not> c \<longrightarrow> p' = p)"
proof -
  have valid: "validate_push_constants l stages offset data = Inr ()"
    using step by (auto simp: push_update_def split: sum.splits)
  note bounds = validate_push_bounds [OF this]
  let ?ss = stage_slots
  have ss: "fst ` set ?ss \<subseteq> {..< 3}" "distinct (map fst ?ss)" by (auto simp: stage_slots_def)
  have fits: "unat offset + length data \<le> 128" using bounds by simp
  obtain owner layouts where pick: "(case position (pl_push_constants l) (pk_layouts p) of
        Some index \<Rightarrow> (index, pk_layouts p)
      | None \<Rightarrow> (length (pk_layouts p), pk_layouts p @ [pl_push_constants l])) = (owner, layouts)" by fastforce
  let ?p = "p\<lparr>pk_layouts := layouts\<rparr>"
  have upd: "update_stages (unat offset) data owner stages ?ss False ?p = (c, p')"
    using step valid pick by (simp add: push_update_def Let_def)
  have grown: "layouts = pk_layouts p \<or> layouts = pk_layouts p @ [pl_push_constants l] \<and> pl_push_constants l \<notin> set (pk_layouts p)"
    and owner: "owner < length layouts" "pk_layouts ?p ! owner = pl_push_constants l"
    using pick by (auto simp: position_None dest: position_Some split: option.splits)
  have ok: "push_ok ?p" using p grown by (fastforce simp: push_ok_def)
  have same: "stored ?p j k = stored p j k" if "j < 3" "k < 128" for j k
    using grown stored_layouts [OF p that] by auto
  have "owner < length (pk_layouts ?p)" using owner(1) by simp
  note spec = update_stages_spec [OF upd ok this fits ss, unfolded owner(2)]
  have held: "\<forall>j < 3. \<forall>k < 128. stored p' j k =
       (if writes (l, stages, offset, data) j k then Some (pl_push_constants l, data ! (k - unat offset)) else stored p j k)"
    using spec same writes_stages [OF valid] by simp
  have flag: "c \<longleftrightarrow> (\<exists>j < 3. \<exists>k < 128. writes (l, stages, offset, data) j k \<and>
       stored p j k \<noteq> Some (pl_push_constants l, data ! (k - unat offset)))"
    using spec same writes_stages [OF valid] by (simp cong: conj_cong)
  have "p' = p" if whole: "stages_valid stages" and unchanged: "\<not> c"
  proof -
    obtain j where j: "j < 3" "stages_contain stages (all_stages ! j)"
      using some_stage_index [OF whole] bounds by blast
    have "writes (l, stages, offset, data) j (unat offset)" and "unat offset < 128"
      using j valid bounds by (auto simp: writes_def neq_Nil_conv)
    then have "stored p j (unat offset) = Some (pl_push_constants l, data ! 0)"
      using unchanged flag j(1) by fastforce
    then have "pl_push_constants l \<in> set (pk_layouts p)"
      using stored_in_layouts [OF p j(1)] \<open>unat offset < 128\<close> by blast
    then have "?p = p" using grown by auto
    then show ?thesis using spec unchanged by simp
  qed
  then show ?thesis using spec held flag by blast
qed

lemma push_default:
  "push_ok push_constants_default" "j < 3 \<Longrightarrow> k < 128 \<Longrightarrow> stored push_constants_default j k = None"
  by (simp_all add: push_ok_def push_constants_default_def stored_def)

lemma push_run_spec:
  "push_ok (push_run calls) \<and> (\<forall>j < 3. \<forall>k < 128. stored (push_run calls) j k = last_write calls j k)"
proof (induction calls rule: push_run.induct)
  case 1
  then show ?case using push_default(1) by (auto intro: push_default(2))
next
  case (2 l stages offset data older)
  show ?case
  proof (cases "push_update (push_run older) l stages offset data")
    case (Inl e)
    then have "\<not> writes (l, stages, offset, data) j k" for j k
      by (auto simp: writes_def push_update_def Let_def split: sum.splits prod.splits)
    then show ?thesis using 2 Inl by simp
  next
    case (Inr r)
    then show ?thesis using 2 push_update_spec [of "push_run older" l stages offset data "fst r" "snd r"]
      by (cases r) simp
  qed
qed

section \<open>Reading a byte\<close>

text \<open>
  The stages that declare byte \<open>k\<close>, and what reading the byte over the slots of those stages in
  order gives: nothing when a value belongs to another layout or two values differ.
\<close>

definition stages_at :: "push_constant_range list \<Rightarrow> nat \<Rightarrow> shader_stages" where
  "stages_at ranges k =
     foldl (\<lambda>stages r. if unat (pc_offset r) \<le> k \<and> k < unat (pc_offset r) + unat (pc_size r)
                       then stages_union stages (pc_stages r) else stages) 0 ranges"

fun read_cell :: "push_constant_range list \<Rightarrow> (push_constant_range list \<times> u8) option \<Rightarrow> u8 \<times> bool \<Rightarrow> (u8 \<times> bool) option" where
  "read_cell ranges None c = Some c"
| "read_cell ranges (Some (rs, x)) (v, known) = (if rs \<noteq> ranges \<or> known \<and> v \<noteq> x then None else Some (x, True))"

fun read_cells :: "push_constant_range list \<Rightarrow> (push_constant_range list \<times> u8) option list \<Rightarrow> u8 \<times> bool \<Rightarrow> (u8 \<times> bool) option" where
  "read_cells ranges [] c = Some c"
| "read_cells ranges (x # xs) c = Option.bind (read_cell ranges x c) (read_cells ranges xs)"

definition cells_read ::
    "push_constants \<Rightarrow> push_constant_range list \<Rightarrow> usize \<Rightarrow> usize \<Rightarrow> nat \<Rightarrow> nat \<Rightarrow> u8 list \<Rightarrow> bool list \<Rightarrow>
     vk_error + u8 list \<times> bool list \<Rightarrow> bool"
where
  "cells_read p ranges start i m n bytes known result \<longleftrightarrow>
     (case result of
        Inl e \<Rightarrow> e = ErrorInitializationFailed \<and>
          (\<exists>d. m \<le> d \<and> d < n \<and> read_cell ranges (stored p i (start + d)) (bytes ! d, known ! d) = None)
      | Inr (bytes', known') \<Rightarrow> length bytes' = n \<and> length known' = n \<and>
          (\<forall>d < n. if m \<le> d then read_cell ranges (stored p i (start + d)) (bytes ! d, known ! d) = Some (bytes' ! d, known' ! d)
                    else bytes' ! d = bytes ! d \<and> known' ! d = known ! d))"

lemma read_bytes_step:
  "read_bytes p ranges start i ((start + m) # rest) bytes known =
     (case read_cell ranges (stored p i (start + m)) (bytes ! m, known ! m) of
        None \<Rightarrow> Inl ErrorInitializationFailed
      | Some (v, k) \<Rightarrow> read_bytes p ranges start i rest (bytes[m := v]) (known[m := k]))"
  by (auto simp: stored_def Let_def split: option.splits)

lemma cells_read_step:
  assumes "m < n" and "length bytes = n" and "length known = n"
    and cell: "read_cell ranges (stored p i (start + m)) (bytes ! m, known ! m) = Some (v, k)"
    and rest: "cells_read p ranges start i (Suc m) n (bytes[m := v]) (known[m := k]) result"
  shows "cells_read p ranges start i m n bytes known result"
proof (cases result)
  case (Inl e)
  with rest obtain d where "Suc m \<le> d" "d < n" "e = ErrorInitializationFailed"
    "read_cell ranges (stored p i (start + d)) (bytes[m := v] ! d, known[m := k] ! d) = None"
    by (auto simp: cells_read_def)
  then show ?thesis using Inl by (auto simp: cells_read_def intro!: exI [of _ d])
next
  case (Inr r)
  obtain bytes' known' where r: "r = (bytes', known')" by (cases r)
  have "if m \<le> d then read_cell ranges (stored p i (start + d)) (bytes ! d, known ! d) = Some (bytes' ! d, known' ! d)
                    else bytes' ! d = bytes ! d \<and> known' ! d = known ! d" if "d < n" for d
    using rest Inr r that assms(1-3) cell by (cases d m rule: linorder_cases) (auto simp: cells_read_def)
  then show ?thesis using rest Inr r by (simp add: cells_read_def)
qed

lemma read_bytes_cells:
  assumes "m \<le> n" and "length bytes = n" and "length known = n"
  shows "cells_read p ranges start i m n bytes known (read_bytes p ranges start i [start + m ..< start + n] bytes known)"
  using assms
proof (induction "n - m" arbitrary: m bytes known)
  case 0
  then show ?case by (simp add: cells_read_def)
next
  case (Suc x)
  then have m: "m < n" by simp
  then have upt: "[start + m ..< start + n] = (start + m) # [start + Suc m ..< start + n]"
    by (simp add: upt_conv_Cons)
  show ?case
  proof (cases "read_cell ranges (stored p i (start + m)) (bytes ! m, known ! m)")
    case None
    then show ?thesis unfolding upt read_bytes_step using m by (auto simp: cells_read_def)
  next
    case (Some c)
    obtain v k where c: "c = (v, k)" by (cases c)
    have "cells_read p ranges start i (Suc m) n (bytes[m := v]) (known[m := k])
        (read_bytes p ranges start i [start + Suc m ..< start + n] (bytes[m := v]) (known[m := k]))"
      using Suc.hyps(1) [of "Suc m"] Suc.hyps(2) Suc.prems m by simp
    from cells_read_step [OF m Suc.prems(2,3) Some [unfolded c] this]
    show ?thesis unfolding upt read_bytes_step Some c by simp
  qed
qed

text \<open>Over all slots, byte by byte.\<close>

definition readers :: "push_constants \<Rightarrow> shader_stages \<Rightarrow> (usize \<times> shader_stages) list \<Rightarrow> nat \<Rightarrow>
    (push_constant_range list \<times> u8) option list" where
  "readers p stages ss k = map (\<lambda>(i, s). stored p i k) (filter (\<lambda>(i, s). stages_contain stages s) ss)"

lemma read_stages_cells:
  assumes "length bytes = n" and "length known = n"
  shows "case read_stages p ranges start (start + n) stages ss bytes known of
      Inl e \<Rightarrow> e = ErrorInitializationFailed \<and>
        (\<exists>d < n. read_cells ranges (readers p stages ss (start + d)) (bytes ! d, known ! d) = None)
    | Inr (bytes', known') \<Rightarrow> length bytes' = n \<and>
        (\<forall>d < n. read_cells ranges (readers p stages ss (start + d)) (bytes ! d, known ! d) = Some (bytes' ! d, known' ! d))"
  using assms
proof (induction ss arbitrary: bytes known)
  case Nil
  then show ?case by (simp add: readers_def)
next
  case (Cons x ss)
  obtain i s where x: "x = (i, s)" by (cases x)
  show ?case
  proof (cases "stages_contain stages s")
    case False
    then have "readers p stages (x # ss) k = readers p stages ss k" for k using x by (simp add: readers_def)
    then show ?thesis using Cons.IH [OF Cons.prems] False by (auto simp: x split: sum.splits)
  next
    case True
    have readers: "readers p stages (x # ss) k = stored p i k # readers p stages ss k" for k
      using True x by (simp add: readers_def)
    have read: "cells_read p ranges start i 0 n bytes known (read_bytes p ranges start i [start ..< start + n] bytes known)"
      using read_bytes_cells [of 0] Cons.prems by simp
    show ?thesis
    proof (cases "read_bytes p ranges start i [start ..< start + n] bytes known")
      case (Inl e)
      then show ?thesis using read True x readers by (auto simp: cells_read_def)
    next
      case (Inr r)
      obtain bytes' known' where r: "r = (bytes', known')" by (cases r)
      have len: "length bytes' = n" "length known' = n"
        and first: "\<And>d. d < n \<Longrightarrow> read_cell ranges (stored p i (start + d)) (bytes ! d, known ! d) = Some (bytes' ! d, known' ! d)"
        using read Inr r by (simp_all add: cells_read_def)
      have "read_cells ranges (readers p stages (x # ss) (start + d)) (bytes ! d, known ! d) =
          read_cells ranges (readers p stages ss (start + d)) (bytes' ! d, known' ! d)" if "d < n" for d
        using first [OF that] readers by simp
      then show ?thesis using Cons.IH [OF len] Inr r True x by (auto split: sum.splits)
    qed
  qed
qed

lemma read_cells_defined:
  "read_cells ranges xs (v, known) \<noteq> None \<longleftrightarrow>
     (\<exists>x. (known \<longrightarrow> x = v) \<and> (\<forall>r y. Some (r, y) \<in> set xs \<longrightarrow> r = ranges \<and> y = x))"
proof (induction xs arbitrary: v known)
  case (Cons x xs)
  show ?case
  proof (cases x)
    case None
    then show ?thesis using Cons by simp
  next
    case (Some z)
    obtain r y where z: "z = (r, y)" by (cases z)
    have "read_cells ranges (x # xs) (v, known) \<noteq> None \<longleftrightarrow>
        r = ranges \<and> (known \<longrightarrow> y = v) \<and> read_cells ranges xs (y, True) \<noteq> None" using Some z by auto
    also have "\<dots> \<longleftrightarrow> r = ranges \<and> (known \<longrightarrow> y = v) \<and>
        (\<exists>w. w = y \<and> (\<forall>r y. Some (r, y) \<in> set xs \<longrightarrow> r = ranges \<and> y = w))"
      by (simp only: Cons.IH simp_thms)
    also have "\<dots> \<longleftrightarrow> (\<exists>w. (known \<longrightarrow> w = v) \<and> (\<forall>r y. Some (r, y) \<in> set (x # xs) \<longrightarrow> r = ranges \<and> y = w))"
      using Some z by auto
    finally show ?thesis .
  qed
qed auto

lemma read_cells_Some:
  "read_cells ranges xs (v, known) = Some (x, k) \<Longrightarrow>
     x = (if known then v else case List.map_filter (map_option snd) xs of [] \<Rightarrow> v | y # _ \<Rightarrow> y)"
proof (induction xs arbitrary: v known)
  case (Cons a xs)
  then show ?case
    by (cases a) (auto simp: List.map_filter_simps split: if_splits dest!: Cons.IH)
qed (simp add: List.map_filter_simps)

section \<open>Windows between boundaries\<close>

lemma remdups_adj_ascend: "sorted xs \<Longrightarrow> sorted_wrt (<) (remdups_adj xs)" for xs :: "'a::linorder list"
  by (induction xs rule: remdups_adj.induct) (auto simp: less_le)

lemma boundaries_ascend: "sorted_wrt (<) (boundaries ranges)"
  unfolding boundaries_def by (simp add: remdups_adj_ascend)

lemma set_boundaries: "set (boundaries ranges) = {b. \<exists>r \<in> set ranges. b = pc_offset r \<or> b = pc_offset r + pc_size r}"
  by (auto simp: boundaries_def)

lemma window_gap:
  "sorted_wrt (<) bs \<Longrightarrow> (a, b) \<in> set (zip bs (tl bs)) \<Longrightarrow>
     a < b \<and> a \<in> set bs \<and> b \<in> set bs \<and> (\<forall>x \<in> set bs. x \<le> a \<or> b \<le> x)" for a b :: "'a::linorder"
proof (induction bs)
  case (Cons x bs)
  show ?case
  proof (cases bs)
    case (Cons y ys)
    consider "a = x" "b = y" | "(a, b) \<in> set (zip bs (tl bs))" using Cons.prems(2) Cons by auto
    then show ?thesis
    proof cases
      case 1
      then show ?thesis using Cons.prems(1) Cons by (auto simp: less_imp_le)
    next
      case 2
      then show ?thesis using Cons.IH Cons.prems(1) by (auto simp: less_imp_le)
    qed
  qed (use Cons in simp)
qed simp

lemma windows_cover:
  "sorted_wrt (<) (b # bs) \<Longrightarrow>
     concat (map (\<lambda>(a, b). filter P [unat a ..< unat b]) (zip (b # bs) bs)) =
     filter P [unat b ..< unat (last (b # bs))]" for b :: "'a::len word"
proof (induction bs arbitrary: b)
  case (Cons c bs)
  have le: "unat b \<le> unat c" "unat c \<le> unat (last (c # bs))"
    using Cons.prems by (auto simp: word_less_nat_alt less_imp_le)
  have "concat (map (\<lambda>(a, b). filter P [unat a ..< unat b]) (zip (c # bs) bs)) =
      filter P [unat c ..< unat (last (c # bs))]" using Cons by simp
  then show ?case using le upt_add_eq_append [OF le(1), of "unat (last (c # bs)) - unat c"] by simp
qed simp

text \<open>A range that covers part of a window covers all of it.\<close>

lemma window_stages_at:
  assumes ok: "list_all range_ok ranges" and w: "(a, b) \<in> set (zip (boundaries ranges) (tl (boundaries ranges)))"
    and k: "unat a \<le> k" "k < unat b"
  shows "window_stages ranges a b = stages_at ranges k"
proof -
  note gap = window_gap [OF boundaries_ascend w]
  have "pc_offset r \<le> a \<and> b \<le> pc_offset r + pc_size r \<longleftrightarrow>
      unat (pc_offset r) \<le> k \<and> k < unat (pc_offset r) + unat (pc_size r)" if r: "r \<in> set ranges" for r
  proof -
    have stop: "unat (pc_offset r + pc_size r) = unat (pc_offset r) + unat (pc_size r)"
      using ok r by (simp add: list_all_iff range_end)
    have "pc_offset r \<in> set (boundaries ranges)" "pc_offset r + pc_size r \<in> set (boundaries ranges)"
      using r by (auto simp: set_boundaries)
    with gap have "pc_offset r \<le> a \<or> b \<le> pc_offset r"
      and "pc_offset r + pc_size r \<le> a \<or> b \<le> pc_offset r + pc_size r" by blast+
    then show ?thesis using k stop by (auto simp: word_le_nat_alt)
  qed
  then show ?thesis unfolding window_stages_def stages_at_def by (intro foldl_cong) auto
qed

lemma foldl_union_contain:
  "s \<in> set all_stages \<Longrightarrow>
     stages_contain (foldl (\<lambda>st r. if P r then stages_union st (f r) else st) st rs) s \<longleftrightarrow>
     stages_contain st s \<or> (\<exists>r \<in> set rs. P r \<and> stages_contain (f r) s)"
  by (induction rs arbitrary: st) (auto simp only: foldl_Cons foldl_Nil union_contain list.set insert_iff empty_iff split: if_splits)

lemma stages_at_contain:
  assumes "s \<in> set all_stages"
  shows "stages_contain (stages_at (pl_push_constants l) k) s \<longleftrightarrow> declared l s k"
proof -
  have "\<not> stages_contain 0 s" using assms by (auto simp: stages_contain_def)
  then show ?thesis unfolding stages_at_def foldl_union_contain [OF assms] declared_def by blast
qed

definition byte_cell :: "push_constants \<Rightarrow> push_constant_range list \<Rightarrow> nat \<Rightarrow> (u8 \<times> bool) option" where
  "byte_cell p ranges k = read_cells ranges (readers p (stages_at ranges k) stage_slots k) (0, False)"

text \<open>The bytes a list of updates sets, with the stages and the value of each.\<close>

fun pushed :: "owned_command list \<Rightarrow> (nat \<times> shader_stages \<times> u8) list" where
  "pushed [] = []"
| "pushed (OwSetPushConstants stages offset data # cs) =
     map (\<lambda>d. (unat offset + d, stages, data ! d)) [0 ..< length data] @ pushed cs"
| "pushed (_ # cs) = pushed cs"

definition window_ok :: "push_constant_range list \<Rightarrow> u32 \<times> u32 \<Rightarrow> bool" where
  "window_ok ranges = (\<lambda>(a, b). a < b \<and> (\<forall>k. unat a \<le> k \<and> k < unat b \<longrightarrow> stages_at ranges k = window_stages ranges a b))"

definition window_bytes :: "push_constants \<Rightarrow> push_constant_range list \<Rightarrow> u32 \<times> u32 \<Rightarrow> (nat \<times> shader_stages \<times> u8) list" where
  "window_bytes p ranges = (\<lambda>(a, b). map (\<lambda>k. (k, stages_at ranges k, fst (the (byte_cell p ranges k))))
     (filter (\<lambda>k. stages_at ranges k \<noteq> 0) [unat a ..< unat b]))"

definition window_unread :: "push_constants \<Rightarrow> push_constant_range list \<Rightarrow> u32 \<times> u32 \<Rightarrow> bool" where
  "window_unread p ranges = (\<lambda>(a, b). \<exists>k. unat a \<le> k \<and> k < unat b \<and> stages_at ranges k \<noteq> 0 \<and> byte_cell p ranges k = None)"

definition window_command :: "push_constant_range list \<Rightarrow> owned_command \<Rightarrow> u32 \<times> u32 \<Rightarrow> bool" where
  "window_command ranges c = (\<lambda>(a, b). \<exists>data. c = OwSetPushConstants (window_stages ranges a b) a data \<and>
     window_stages ranges a b \<noteq> 0 \<and> length data = unat b - unat a)"

lemma window_read:
  assumes ok: "window_ok ranges (a, b)" and some: "window_stages ranges a b \<noteq> 0"
  shows "case read_stages p ranges (unat a) (unat b) (window_stages ranges a b) stage_slots
        (replicate (unat (b - a)) 0) (replicate (unat (b - a)) False) of
      Inl e \<Rightarrow> e = ErrorInitializationFailed \<and> window_unread p ranges (a, b)
    | Inr (bytes, known) \<Rightarrow> length bytes = unat b - unat a \<and> \<not> window_unread p ranges (a, b) \<and>
        map (\<lambda>d. (unat a + d, window_stages ranges a b, bytes ! d)) [0 ..< length bytes] = window_bytes p ranges (a, b)"
proof -
  define n where "n = unat (b - a)"
  have lt: "a < b" and at: "\<And>k. unat a \<le> k \<Longrightarrow> k < unat b \<Longrightarrow> stages_at ranges k = window_stages ranges a b"
    using ok by (auto simp: window_ok_def)
  have n: "unat a + n = unat b" using lt by (simp add: n_def unat_sub_if_size word_less_nat_alt)
  have cell: "read_cells ranges (readers p (window_stages ranges a b) stage_slots (unat a + d)) (0, False) = byte_cell p ranges (unat a + d)"
    if "d < n" for d
    using at [of "unat a + d"] that n by (simp add: byte_cell_def)
  have whole: "filter (\<lambda>k. stages_at ranges k \<noteq> 0) [unat a ..< unat b] = [unat a ..< unat b]"
    using at some by (auto simp: filter_id_conv)
  have "window_unread p ranges (a, b) \<longleftrightarrow> (\<exists>k. unat a \<le> k \<and> k < unat a + n \<and> byte_cell p ranges k = None)"
    unfolding window_unread_def prod.case n using at some by metis
  then have unread: "window_unread p ranges (a, b) \<longleftrightarrow> (\<exists>d < n. byte_cell p ranges (unat a + d) = None)"
    unfolding shifted_ex .
  note read = read_stages_cells [where bytes = "replicate n 0" and known = "replicate n False" and n = n and start = "unat a"
      and stages = "window_stages ranges a b" and ss = stage_slots and p = p and ranges = ranges, unfolded n, simplified]
  have bytes: "map (\<lambda>d. (unat a + d, window_stages ranges a b, bytes ! d)) [0 ..< n] = window_bytes p ranges (a, b)"
    if "\<And>d. d < n \<Longrightarrow> byte_cell p ranges (unat a + d) = Some (bytes ! d, known ! d)" for bytes known
    unfolding window_bytes_def prod.case whole using that at n by (intro nth_equalityI) auto
  show ?thesis
  proof (cases "read_stages p ranges (unat a) (unat b) (window_stages ranges a b) stage_slots (replicate n 0) (replicate n False)")
    case (Inl e)
    then show ?thesis unfolding n_def [symmetric] unread using read cell by auto
  next
    case (Inr r)
    obtain bs ks where r: "r = (bs, ks)" by (cases r)
    have "length bs = n" and cells: "\<And>d. d < n \<Longrightarrow> byte_cell p ranges (unat a + d) = Some (bs ! d, ks ! d)"
      using read cell Inr r by auto
    then show ?thesis unfolding n_def [symmetric] unread using Inr r bytes [OF cells] n by auto
  qed
qed

lemma snapshot_windows_spec:
  assumes "\<forall>w \<in> set ws. window_ok ranges w"
  shows "case snapshot_windows p ranges ws of
      Inl e \<Rightarrow> e = ErrorInitializationFailed \<and> (\<exists>w \<in> set ws. window_unread p ranges w)
    | Inr cs \<Rightarrow> (\<forall>w \<in> set ws. \<not> window_unread p ranges w) \<and> pushed cs = concat (map (window_bytes p ranges) ws) \<and>
        (\<forall>c \<in> set cs. \<exists>w \<in> set ws. window_command ranges c w)"
  using assms
proof (induction ws)
  case Nil
  then show ?case by simp
next
  case (Cons w ws)
  obtain a b where w: "w = (a, b)" by (cases w)
  have ok: "window_ok ranges (a, b)" using Cons.prems w by simp
  show ?case
  proof (cases "window_stages ranges a b = 0")
    case True
    then have "stages_at ranges k = 0" if "unat a \<le> k" "k < unat b" for k
      using ok that by (simp add: window_ok_def)
    then have "\<not> window_unread p ranges (a, b)" and "window_bytes p ranges (a, b) = []"
      by (auto simp: window_unread_def window_bytes_def)
    then show ?thesis using Cons True w by (auto simp: Let_def split: sum.splits)
  next
    case False
    note read = window_read [OF ok False, of p]
    show ?thesis
    proof (cases "read_stages p ranges (unat a) (unat b) (window_stages ranges a b) stage_slots
        (replicate (unat (b - a)) 0) (replicate (unat (b - a)) False)")
      case (Inl e)
      then show ?thesis using read False w by (auto simp: Let_def)
    next
      case (Inr r)
      obtain bs ks where r: "r = (bs, ks)" by (cases r)
      have mine: "\<not> window_unread p ranges (a, b)" "window_command ranges (OwSetPushConstants (window_stages ranges a b) a bs) (a, b)"
        "pushed (OwSetPushConstants (window_stages ranges a b) a bs # cs) = window_bytes p ranges (a, b) @ pushed cs" for cs
        using read Inr r False by (auto simp: window_command_def)
      have "snapshot_windows p ranges (w # ws) = and_then (snapshot_windows p ranges ws)
          (\<lambda>cs. Inr (OwSetPushConstants (window_stages ranges a b) a bs # cs))"
        using False Inr r w by (simp add: Let_def)
      then show ?thesis using Cons mine w by (cases "snapshot_windows p ranges ws") auto
    qed
  qed
qed

lemma filter_narrow:
  assumes "lo \<le> hi" "hi \<le> n" "\<And>k. P k \<Longrightarrow> lo \<le> k \<and> k < hi"
  shows "filter P [lo ..< hi] = filter P [0 ..< n]"
proof -
  have "[0 ..< n] = [0 ..< lo] @ [lo ..< hi] @ [hi ..< n]"
    using assms(1,2) by (metis le_add_diff_inverse order_trans upt_add_eq_append zero_le)
  moreover have "filter P [0 ..< lo] = []" "filter P [hi ..< n] = []" using assms(3) by (fastforce simp: filter_empty_conv)+
  ultimately show ?thesis by simp
qed

section \<open>What the layout allows and what was last written\<close>

definition ranges_declared :: "push_constant_range list \<Rightarrow> bool" where
  "ranges_declared rs \<longleftrightarrow> (\<forall>r \<in> set rs. \<exists>st offset sz. stages_valid st \<and> push_constant_range_new st offset sz = Inr r)"

definition agreed :: "push_call list \<Rightarrow> pipeline_layout \<Rightarrow> nat \<Rightarrow> bool" where
  "agreed calls l k \<longleftrightarrow> (\<exists>v. \<forall>i < 3. declared l (all_stages ! i) k \<longrightarrow>
     (\<forall>ranges y. last_write calls i k = Some (ranges, y) \<longrightarrow> ranges = pl_push_constants l \<and> y = v))"

definition pushed_byte :: "push_call list \<Rightarrow> pipeline_layout \<Rightarrow> nat \<Rightarrow> u8" where
  "pushed_byte calls l k =
     (case List.map_filter (map_option snd)
             (map (\<lambda>i. last_write calls i k) (filter (\<lambda>i. declared l (all_stages ! i) k) [0 ..< 3])) of
        [] \<Rightarrow> 0 | v # _ \<Rightarrow> v)"

lemma declared_ranges:
  assumes l: "with_push_constant_ranges base rs = Inr l" and rs: "ranges_declared rs"
  shows "push_layout_ok l" and "r \<in> set (pl_push_constants l) \<Longrightarrow> 4 dvd unat (pc_offset r) \<and> 4 dvd unat (pc_size r)"
proof -
  have "list_all range_ok rs" using rs range_new_ok by (fastforce simp: ranges_declared_def list_all_iff)
  then show "push_layout_ok l" using push_ranges_ok [OF l] by blast
  assume "r \<in> set (pl_push_constants l)"
  then have "r \<in> set rs" using l by (auto simp: with_push_constant_ranges_def split: if_splits)
  then obtain st offset sz where "push_constant_range_new st offset sz = Inr r" using rs by (auto simp: ranges_declared_def)
  then show "4 dvd unat (pc_offset r) \<and> 4 dvd unat (pc_size r)"
    by (auto simp: push_constant_range_new_def four_dvd split: if_splits option.splits)
qed

lemma stages_at_declared:
  assumes "push_layout_ok l"
  shows "stages_at (pl_push_constants l) k \<noteq> 0 \<longleftrightarrow> (\<exists>s \<in> set all_stages. declared l s k)"
proof
  have zero: "foldl (\<lambda>st r. if P r then stages_union st (f r) else st) st rs = st" if "\<forall>r \<in> set rs. \<not> P r"
    for P :: "push_constant_range \<Rightarrow> bool" and f st rs
    using that by (induction rs) auto
  assume "stages_at (pl_push_constants l) k \<noteq> 0"
  then obtain r where r: "r \<in> set (pl_push_constants l)"
    "unat (pc_offset r) \<le> k \<and> k < unat (pc_offset r) + unat (pc_size r)"
    unfolding stages_at_def
    using zero [of "pl_push_constants l" "\<lambda>r. unat (pc_offset r) \<le> k \<and> k < unat (pc_offset r) + unat (pc_size r)"]
    by blast
  then have "range_ok r" using assms by (simp add: push_layout_ok_def list_all_iff)
  then obtain s where "s \<in> set all_stages" "stages_contain (pc_stages r) s"
    using some_stage unfolding range_ok_def by blast
  then show "\<exists>s \<in> set all_stages. declared l s k" using r unfolding declared_def by blast
next
  assume "\<exists>s \<in> set all_stages. declared l s k"
  then obtain s where s: "s \<in> set all_stages" "stages_contain (stages_at (pl_push_constants l) k) s"
    using stages_at_contain by blast
  have "\<not> stages_contain 0 s" using s(1) by (auto simp: stages_contain_def)
  then show "stages_at (pl_push_constants l) k \<noteq> 0" using s(2) by auto
qed

lemma readers_last:
  assumes "k < 128"
  shows "readers (push_run calls) (stages_at (pl_push_constants l) k) stage_slots k =
    map (\<lambda>i. last_write calls i k) (filter (\<lambda>i. declared l (all_stages ! i) k) [0 ..< 3])"
proof -
  have slots: "stage_slots = map (\<lambda>i. (i, all_stages ! i)) [0 ..< 3]"
    by (simp add: stage_slots_def upt_rec)
  have stored: "stored (push_run calls) i k = last_write calls i k" if "i < 3" for i
    using push_run_spec that assms by blast
  have stages: "stages_contain (stages_at (pl_push_constants l) k) (all_stages ! i) \<longleftrightarrow> declared l (all_stages ! i) k" if "i < 3" for i
    using that by (intro stages_at_contain nth_mem) simp
  have "filter (\<lambda>i. stages_contain (stages_at (pl_push_constants l) k) (all_stages ! i)) [0 ..< 3] =
      filter (\<lambda>i. declared l (all_stages ! i) k) [0 ..< 3]"
    by (rule filter_cong [OF refl], rule stages) simp
  moreover have "map (\<lambda>i. stored (push_run calls) i k) (filter P [0 ..< 3]) =
      map (\<lambda>i. last_write calls i k) (filter P [0 ..< 3])" for P
    by (rule map_cong [OF refl], rule stored) simp
  ultimately show ?thesis unfolding readers_def slots by (simp add: filter_map comp_def)
qed

lemma byte_cell_spec:
  assumes "k < 128"
  shows "byte_cell (push_run calls) (pl_push_constants l) k \<noteq> None \<longleftrightarrow> agreed calls l k"
    and "byte_cell (push_run calls) (pl_push_constants l) k = Some (v, known) \<Longrightarrow> v = pushed_byte calls l k"
proof -
  show "byte_cell (push_run calls) (pl_push_constants l) k \<noteq> None \<longleftrightarrow> agreed calls l k"
    unfolding byte_cell_def readers_last [OF assms] read_cells_defined agreed_def
    by (auto simp: image_iff) metis+
  show "v = pushed_byte calls l k" if "byte_cell (push_run calls) (pl_push_constants l) k = Some (v, known)"
    using that read_cells_Some unfolding byte_cell_def readers_last [OF assms] pushed_byte_def by fastforce
qed

lemma windows_ok:
  assumes "push_layout_ok l" and "w \<in> set (zip (boundaries (pl_push_constants l)) (tl (boundaries (pl_push_constants l))))"
  shows "window_ok (pl_push_constants l) w"
proof (cases w)
  case (Pair a b)
  then show ?thesis
    using assms window_gap [OF boundaries_ascend] window_stages_at [of "pl_push_constants l" a b]
    by (fastforce simp: window_ok_def push_layout_ok_def)
qed

lemma boundary_bounds:
  assumes "push_layout_ok l" and "b \<in> set (boundaries (pl_push_constants l))"
  shows "unat b \<le> 128"
  using assms unfolding set_boundaries push_layout_ok_def list_all_iff
  by (auto simp: range_end) (auto simp: range_ok_def)

lemma ascending_last: "sorted_wrt (<) xs \<Longrightarrow> x \<in> set xs \<Longrightarrow> x \<le> last xs" for x :: "'a::linorder"
  by (induction xs) (auto simp: less_imp_le)

lemma windows_bytes:
  assumes ok: "push_layout_ok l" and ws: "ws = zip (boundaries (pl_push_constants l)) (tl (boundaries (pl_push_constants l)))"
  shows "concat (map (\<lambda>(a, b). filter (\<lambda>k. stages_at (pl_push_constants l) k \<noteq> 0) [unat a ..< unat b]) ws) =
     filter (\<lambda>k. stages_at (pl_push_constants l) k \<noteq> 0) [0 ..< 128]"
proof (cases "boundaries (pl_push_constants l)")
  case Nil
  then have "pl_push_constants l = []" using set_boundaries [of "pl_push_constants l"] by (cases "pl_push_constants l") auto
  then show ?thesis using ws Nil by (simp add: stages_at_def)
next
  case (Cons b bs)
  have ascend: "sorted_wrt (<) (b # bs)" using boundaries_ascend [of "pl_push_constants l"] Cons by simp
  have last_in: "last (b # bs) \<in> set (boundaries (pl_push_constants l))" using Cons by simp
  have first: "b \<le> x" and final: "x \<le> last (b # bs)" if "x \<in> set (boundaries (pl_push_constants l))" for x
    using that ascend ascending_last [OF ascend] unfolding Cons by (auto simp: less_imp_le simp del: last.simps)
  have "unat b \<le> k \<and> k < unat (last (b # bs))" if "stages_at (pl_push_constants l) k \<noteq> 0" for k
  proof -
    obtain r where r: "r \<in> set (pl_push_constants l)" "unat (pc_offset r) \<le> k" "k < unat (pc_offset r) + unat (pc_size r)"
      using \<open>stages_at _ k \<noteq> 0\<close> unfolding stages_at_declared [OF ok] declared_def by blast
    then have "unat (pc_offset r + pc_size r) = unat (pc_offset r) + unat (pc_size r)"
      using ok by (simp add: push_layout_ok_def list_all_iff range_end)
    moreover have "unat b \<le> unat (pc_offset r)" "unat (pc_offset r + pc_size r) \<le> unat (last (b # bs))"
      using first [of "pc_offset r"] final [of "pc_offset r + pc_size r"] r(1)
      unfolding set_boundaries word_le_nat_alt by blast+
    ultimately show ?thesis using r by linarith
  qed
  moreover have "unat b \<le> unat (last (b # bs))" using final [of b] Cons by (simp add: word_le_nat_alt)
  moreover have "unat (last (b # bs)) \<le> 128" using boundary_bounds [OF ok last_in] .
  ultimately have "filter (\<lambda>k. stages_at (pl_push_constants l) k \<noteq> 0) [unat b ..< unat (last (b # bs))] =
      filter (\<lambda>k. stages_at (pl_push_constants l) k \<noteq> 0) [0 ..< 128]" by (intro filter_narrow) auto
  then show ?thesis unfolding ws Cons list.sel windows_cover [OF ascend] .
qed

section \<open>Snapshots and updates are exact\<close>

lemma window_commands_valid:
  assumes ok: "push_layout_ok l"
    and whole: "\<And>r. r \<in> set (pl_push_constants l) \<Longrightarrow> 4 dvd unat (pc_offset r) \<and> 4 dvd unat (pc_size r)"
    and w: "w \<in> set (zip (boundaries (pl_push_constants l)) (tl (boundaries (pl_push_constants l))))"
    and c: "window_command (pl_push_constants l) c w"
  shows "\<exists>stages offset data. c = OwSetPushConstants stages offset data \<and>
     validate_push_constants l stages offset data = Inr ()"
proof -
  obtain a b where ab: "w = (a, b)" by (cases w)
  let ?stages = "window_stages (pl_push_constants l) a b"
  obtain data where data: "c = OwSetPushConstants ?stages a data" "?stages \<noteq> 0" "length data = unat b - unat a"
    using c ab by (auto simp: window_command_def)
  have gap: "a < b" "a \<in> set (boundaries (pl_push_constants l))" "b \<in> set (boundaries (pl_push_constants l))"
    using window_gap [OF boundaries_ascend w [unfolded ab]] by auto
  have fours: "4 dvd unat x" if "x \<in> set (boundaries (pl_push_constants l))" for x
    using that whole ok by (auto simp: set_boundaries push_layout_ok_def list_all_iff range_end)
  have len: "unat a + length data = unat b" using data(3) gap(1) by (simp add: word_less_nat_alt)
  have "update_matches l ?stages (unat a) (unat b)"
    unfolding update_matches_def
  proof (intro ballI allI impI)
    fix s k assume s: "s \<in> set all_stages" and k: "unat a \<le> k \<and> k < unat b"
    have "stages_at (pl_push_constants l) k = ?stages" using windows_ok [OF ok w] k by (simp add: ab window_ok_def)
    then show "declared l s k \<longleftrightarrow> stages_contain ?stages s" using stages_at_contain [OF s, of l k] by simp
  qed
  moreover have "data \<noteq> []" "4 dvd length data" "unat b \<le> 128"
    using len gap fours boundary_bounds [OF ok gap(3)] data(3) by (auto simp: word_less_nat_alt intro: dvd_diff_nat)
  ultimately have "validate_push_constants l ?stages a data = Inr ()"
    unfolding validate_push_spec [OF ok] len using data(2) fours gap(2) by simp
  then show ?thesis using data(1) by blast
qed

text \<open>
  C33. A snapshot of the incremental push constants is what the application last wrote, in the form
  the encoder accepts. For a layout made by the constructors and after any sequence of updates,
  failed ones included, \<open>PushConstants::snapshot\<close> gives an error exactly when some declared byte was
  last written under another layout's ranges or with different values for two of the stages that
  declare it. Otherwise its commands set every byte some stage declares exactly once, in ascending
  order, for exactly the stages that declare it, to the value last written or zero; and each command
  passes \<open>validate_push_constants\<close> of the layout.
\<close>

theorem snapshots_are_exact:
  assumes l: "with_push_constant_ranges base rs = Inr l" and rs: "ranges_declared rs"
  shows "case push_snapshot (push_run calls) l of
      Inl e \<Rightarrow> e = ErrorInitializationFailed \<and> (\<exists>k < 128. \<not> agreed calls l k)
    | Inr cs \<Rightarrow> (\<forall>k < 128. agreed calls l k) \<and>
        pushed cs = map (\<lambda>k. (k, stages_at (pl_push_constants l) k, pushed_byte calls l k))
          (filter (\<lambda>k. \<exists>s \<in> set all_stages. declared l s k) [0 ..< 128]) \<and>
        (\<forall>c \<in> set cs. \<exists>stages offset data. c = OwSetPushConstants stages offset data \<and>
           validate_push_constants l stages offset data = Inr ())"
proof -
  have ok: "push_layout_ok l" using declared_ranges(1) [OF l rs] .
  let ?p = "push_run calls" and ?rs = "pl_push_constants l"
  define ws where "ws = zip (boundaries ?rs) (tl (boundaries ?rs))"
  have windows: "\<forall>w \<in> set ws. window_ok ?rs w" using windows_ok [OF ok] unfolding ws_def by blast
  have inside: "k < 128" if "(a, b) \<in> set ws" "k < unat b" for a b k
    using boundary_bounds [OF ok, of b] window_gap [OF boundaries_ascend that(1) [unfolded ws_def]] that(2) by auto
  have snapshot: "push_snapshot ?p l = snapshot_windows ?p ?rs ws"
    by (simp add: push_snapshot_def Let_def ws_def)
  note run = snapshot_windows_spec [OF windows, of ?p, folded snapshot]
  show ?thesis
  proof (cases "push_snapshot ?p l")
    case (Inl e)
    then obtain a b where e: "e = ErrorInitializationFailed" and w: "(a, b) \<in> set ws" "window_unread ?p ?rs (a, b)"
      using run by auto
    then obtain k where "k < unat b" and none: "byte_cell ?p ?rs k = None" by (auto simp: window_unread_def)
    then have "k < 128" using inside w(1) by blast
    then have "\<not> agreed calls l k" using byte_cell_spec(1) none by blast
    then show ?thesis using Inl e \<open>k < 128\<close> by auto
  next
    case (Inr cs)
    with run have read: "\<forall>w \<in> set ws. \<not> window_unread ?p ?rs w"
      and cs: "pushed cs = concat (map (window_bytes ?p ?rs) ws)"
      and made: "\<forall>c \<in> set cs. \<exists>w \<in> set ws. window_command ?rs c w" by auto
    have cells: "byte_cell ?p ?rs k \<noteq> None" if "k < 128" "stages_at ?rs k \<noteq> 0" for k
    proof -
      have "k \<in> set (filter (\<lambda>k. stages_at ?rs k \<noteq> 0) [0 ..< 128])" using that by simp
      then obtain a b where w: "(a, b) \<in> set ws" "unat a \<le> k" "k < unat b"
        unfolding windows_bytes [OF ok ws_def, symmetric] by auto
      then have "\<not> window_unread ?p ?rs (a, b)" using read by blast
      then show ?thesis using w(2,3) that(2) unfolding window_unread_def prod.case by metis
    qed
    have "pushed cs = map (\<lambda>k. (k, stages_at ?rs k, fst (the (byte_cell ?p ?rs k))))
        (concat (map (\<lambda>(a, b). filter (\<lambda>k. stages_at ?rs k \<noteq> 0) [unat a ..< unat b]) ws))"
      unfolding cs by (induction ws) (auto simp: window_bytes_def)
    also have "\<dots> = map (\<lambda>k. (k, stages_at ?rs k, pushed_byte calls l k)) (filter (\<lambda>k. stages_at ?rs k \<noteq> 0) [0 ..< 128])"
      unfolding windows_bytes [OF ok ws_def] using cells byte_cell_spec(2) by fastforce
    finally have bytes: "pushed cs = map (\<lambda>k. (k, stages_at ?rs k, pushed_byte calls l k))
        (filter (\<lambda>k. \<exists>s \<in> set all_stages. declared l s k) [0 ..< 128])"
      unfolding stages_at_declared [OF ok] .
    have "agreed calls l k" if k: "k < 128" for k
    proof (cases "stages_at ?rs k = 0")
      case True
      then have "\<not> declared l (all_stages ! i) k" if "i < 3" for i
        using stages_at_declared [OF ok, of k] nth_mem [of i all_stages] that by auto
      then show ?thesis unfolding agreed_def by blast
    next
      case False
      then show ?thesis using cells [OF k] byte_cell_spec(1) [OF k] by blast
    qed
    moreover have "\<exists>stages offset data. c = OwSetPushConstants stages offset data \<and>
        validate_push_constants l stages offset data = Inr ()" if "c \<in> set cs" for c
      using made that window_commands_valid [OF ok declared_ranges(2) [OF l rs]] unfolding ws_def by blast
    ultimately show ?thesis using Inr bytes by simp
  qed
qed

definition push_ranges :: "push_constant_range list" where
  "push_ranges = [\<lparr>pc_stages = STAGE_VERTEX, pc_offset = 0, pc_size = 8\<rparr>,
     \<lparr>pc_stages = STAGE_FRAGMENT, pc_offset = 4, pc_size = 8\<rparr>]"

definition push_layout :: pipeline_layout where
  "push_layout = \<lparr>pl_bind_groups = [], pl_push_constants = push_ranges\<rparr>"

definition push_calls :: "push_call list" where
  "push_calls = [(push_layout, STAGE_VERTEX, 4, [9, 9, 9, 9]), (push_layout, STAGE_VERTEX OR STAGE_FRAGMENT, 4, [5, 6, 7, 8]),
     (push_layout, STAGE_VERTEX, 0, [1, 2, 3, 4])]"

definition push_commands :: "owned_command list" where
  "push_commands = [OwSetPushConstants STAGE_VERTEX 0 [1, 2, 3, 4],
     OwSetPushConstants (STAGE_VERTEX OR STAGE_FRAGMENT) 4 [5, 6, 7, 8], OwSetPushConstants STAGE_FRAGMENT 8 [0, 0, 0, 0]]"

lemma push_layout_made:
  "with_push_constant_ranges \<lparr>pl_bind_groups = [], pl_push_constants = []\<rparr> push_ranges = Inr push_layout"
  by code_simp

lemma push_ranges_declared: "ranges_declared push_ranges"
proof -
  have "push_constant_range_new STAGE_VERTEX 0 8 = Inr (push_ranges ! 0)" "stages_valid STAGE_VERTEX"
    "push_constant_range_new STAGE_FRAGMENT 4 8 = Inr (push_ranges ! 1)" "stages_valid STAGE_FRAGMENT"
    "push_ranges = [push_ranges ! 0, push_ranges ! 1]"
    by code_simp+
  then show ?thesis unfolding ranges_declared_def by (metis empty_iff list.set set_ConsD)
qed

lemma push_snapshot_made: "push_snapshot (push_run push_calls) push_layout = Inr push_commands"
  by code_simp

theorem snapshots_are_exact_witness:
  "agreed push_calls push_layout 7 \<and> pushed push_commands =
     map (\<lambda>k. (k, stages_at push_ranges k, pushed_byte push_calls push_layout k)) [0 ..< 12]"
proof -
  have "filter (\<lambda>k. \<exists>s \<in> set all_stages. declared push_layout s k) [0 ..< 128] = [0 ..< 12]"
    by code_simp
  then show ?thesis
    using snapshots_are_exact [OF push_layout_made push_ranges_declared, of push_calls]
    unfolding push_snapshot_made by (simp add: push_layout_def)
qed

text \<open>
  What an update reports: a change exactly when some byte it writes last held another value, was
  written under another layout's ranges or not at all. Without one the state is the same, and so are
  the snapshots of every layout.
\<close>

lemma updates_report_changes:
  assumes "push_update (push_run calls) l stages offset data = Inr (c, p')" and "stages_valid stages"
  shows "c \<longleftrightarrow> (\<exists>i < 3. \<exists>k < 128. writes (l, stages, offset, data) i k \<and>
      last_write calls i k \<noteq> Some (pl_push_constants l, data ! (k - unat offset)))"
    and "\<not> c \<Longrightarrow> p' = push_run calls"
proof -
  have held: "stored (push_run calls) i k = last_write calls i k" if "i < 3" "k < 128" for i k
    using push_run_spec that by blast
  note spec = push_update_spec [OF _ assms(1)]
  have ok: "push_ok (push_run calls)" using push_run_spec by blast
  show "c \<longleftrightarrow> (\<exists>i < 3. \<exists>k < 128. writes (l, stages, offset, data) i k \<and>
      last_write calls i k \<noteq> Some (pl_push_constants l, data ! (k - unat offset)))"
    using spec [OF ok] held by metis
  show "p' = push_run calls" if "\<not> c" using spec [OF ok] assms(2) that by blast
qed

end
