(* ===== verification/Spec2Isabelle.thy ===== *)
theory Spec2Isabelle
  imports Buffer_Source Buffer_Delta Buffer_Diff Packet_Stream Job_Scheduler Resource_Table Stream_Properties Index_Bounds Abi_Mirror Upload_Laws Push_Constants
begin

text \<open>
  A model of the portable core of SGFX, a graphics layer written in Rust, with the two parts of its
  Vulkan driver that rest on the core alone. Paths below are relative to \<^verbatim>\<open>src/crates/\<close>.

  \<^bold>\<open>The program.\<close> An application, or a frontend such as the Vulkan driver \<^verbatim>\<open>vulkan-sgfx\<close>, defines
  resources in a resource table and records commands with a command encoder
  (\<^verbatim>\<open>sgfx-core/src/ir\<close>). The encoder checks every call against the table and against the writes that
  earlier commands left unpublished, so that a finished stream can be executed without further
  checks. A backend executes the stream. When the backend is a library loaded at run time, tables and
  streams cross to it as 64-bit words (\<^verbatim>\<open>sgfx-core/src/ir/abi\<close>); there the table is rebuilt as a
  mirror. Backends share support code (\<^verbatim>\<open>sgfx-core/src/backend/support\<close>): buffer contents as base and
  overlays, deltas between uploads, batching of encoded packets and a scheduler of native submissions.

  \<^bold>\<open>Theories and sources.\<close>
  \<^item> \<open>Prelude\<close>: words, results and the question-mark operator, slices, list lemmas. \<open>Ir_Types\<close> and
    \<open>Viewport\<close>: \<^verbatim>\<open>ir/types.rs\<close>; an \<open>f32\<close> is its 32 bits, and sums round to nearest even.
  \<^item> \<open>Range_Index\<close>: \<^verbatim>\<open>support/ranges.rs\<close> (\<open>RangeIndex::insert\<close> is \<open>range_insert\<close>, the index a sorted list of
    segments). \<open>Buffer_Source\<close> and \<open>Buffer_Delta\<close>: \<^verbatim>\<open>support/buffers.rs\<close> (\<open>copy_range\<close>; \<open>intervals_include\<close>,
    \<open>include_range\<close>, \<open>merge_previous\<close>). \<open>Buffer_Diff\<close>: \<^verbatim>\<open>support/buffer_diff.rs\<close>.
  \<^item> \<open>Packet_Stream\<close>: \<^verbatim>\<open>support/packets.rs\<close>. \<open>Job_Scheduler\<close>: \<^verbatim>\<open>support/scheduler.rs\<close> over an arbitrary
    transport, a record of functions on a state of its own.
  \<^item> \<open>Resource_Desc\<close>, \<open>Pipeline_Desc\<close>, \<open>Shader\<close>, \<open>Binding_Desc\<close>, \<open>Render_Pass_Desc\<close>: the descriptors of
    \<^verbatim>\<open>ir/resource.rs\<close>, \<^verbatim>\<open>ir/texture_view.rs\<close>, \<^verbatim>\<open>ir/pipeline.rs\<close>, \<^verbatim>\<open>ir/shader.rs\<close>, \<^verbatim>\<open>ir/programmable.rs\<close>,
    \<^verbatim>\<open>ir/render_target.rs\<close>, \<^verbatim>\<open>ir/command.rs\<close> and \<^verbatim>\<open>support/passes.rs\<close>, one record per struct and one function per constructor or
    builder, with errors as values of \<open>error\<close>.
  \<^item> \<open>Slot_Table\<close> and \<open>Resource_Table\<close>: the generational slots and the eight categories of
    \<open>ResourceTable\<close> in \<^verbatim>\<open>ir/resource.rs\<close>, with definition, release and resolution.
  \<^item> \<open>Command_Encoder\<close> and \<open>Pass_Encoders\<close>: \<open>CommandEncoder\<close>, \<open>ComputePassEncoder\<close> and \<open>RenderPassEncoder\<close> of
    \<^verbatim>\<open>ir/command.rs\<close>, \<^verbatim>\<open>ir/command/programmable_commands.rs\<close>, one function per method, from a state to a
    result and a state. \<open>Encoder_Machine\<close> runs them in any order as a step relation.
    \<open>Command_Stream\<close> is the specification they are measured against: a replay of a finished stream
    that shares no state with the encoders.
  \<^item> \<open>Owned_Commands\<close>: \<^verbatim>\<open>ir/owned.rs\<close>, recordings that name resources by identity. \<open>Upload_Batches\<close>:
    \<^verbatim>\<open>vulkan-sgfx/src/upload_batches.rs\<close>, the cutting of a recording that paces texture uploads.
    \<open>Push_Constants\<close>: \<^verbatim>\<open>vulkan-sgfx/src/push_constants.rs\<close>, the incremental push constants of Vulkan turned
    into the whole updates that the encoder takes.
  \<^item> \<open>Index_Bounds\<close>: \<^verbatim>\<open>support/indices.rs\<close>, the cache of index extrema.
  \<^item> \<open>Abi_Codec\<close>, \<open>Abi_Values\<close>, \<open>Abi_Descriptors\<close>, \<open>Abi_Programs\<close>: \<^verbatim>\<open>ir/abi/codec.rs\<close>, a writer \<open>put_x\<close> and
    a reader \<open>get_x\<close> per type. \<open>Abi_Commands\<close>: \<^verbatim>\<open>ir/abi/commands.rs\<close>. \<open>Abi_Tables\<close>: \<^verbatim>\<open>ir/abi/resources.rs\<close>
    and \<^verbatim>\<open>ir/abi/mod.rs\<close>, snapshots and their application.

  \<^bold>\<open>Interfaces.\<close> \<open>byte_store\<close> (last write wins) is provided by \<open>range_insert\<close>; \<open>dirty_tracker\<close> by the interval
  list and by \<open>BufferUpdate\<close>; \<open>packet_sink\<close> by both ways to append; \<open>id_store\<close> by the slots of the table;
  \<open>codec\<close>, \<open>canonical_codec\<close> and \<open>row_codec\<close> by every writer and reader pair of the words. Each locale is
  interpreted in the theory of the component that provides it.

  \<^bold>\<open>What the lemmas show.\<close>
  \<^item> Support code: the index owns every byte by its last write and inserts are total and atomic;
    reading a range gives exactly the bytes; deltas account for every write and cover the aligned
    hulls; the changed range is complete and tight; packets keep bytes, order and arenas; jobs run and
    complete in order within the budgets.
  \<^item> Descriptors and table: constructors accept exactly the well-formed values, every sequence of
    builders keeps them so, identities are never used twice, live pipelines never lose their shader
    modules, and bind groups are accepted exactly when their resources fit.
  \<^item> Encoders: the invariant \<open>tracks\<close> of \<open>Encoder_Safety\<close> relates the state of the encoders to the replay
    of what they recorded. From it every finished stream is free of resource races, bracketed and in
    bounds; failed calls change nothing; validating and recording encoders take the same calls.
  \<^item> Recordings: a repeated setter may be left out of a stream, but every other command is performed
    under the bindings the recording asks for; validation reports what recording would; cutting into
    upload batches keeps what is written and performed; a snapshot of push constants sets every
    declared byte to what was last written.
  \<^item> Words: reading and writing are inverse and nothing else can be read; snapshots are current;
    a mirror follows its source; the scan before an import names exactly what is retired.

  \<^bold>\<open>Parameters, bounds and fuel.\<close> Whether memory can be reserved is an argument of every definition that
  reserves it. The transport of the scheduler, the backend's reader of index bytes and the memory
  behind an upload slice are arguments too. Limits are those of the code (65,536 commands, 32 bindings, 128 bytes
  of push constants and so on); an index or length of a slice is a natural number, with the limit of
  \<open>usize\<close> written out where the code checks it. No definition has fuel: every loop is a structural
  recursion or has a measure, so what is defined terminates.

  \<^bold>\<open>Conditions worth knowing.\<close> A job that is alone in the scheduler may exceed the budget of pending
  bytes. The encoder does not read index buffers, so of an indexed draw only the index range, the
  instances and the first vertex are checked. A mirror can follow a table only while no live texture is
  one-dimensional and no live bind group has a view of a released texture: the row of a texture does
  not hold its dimension, and the row of a view is read against the live texture
  (\<open>one_dimension_is_lost\<close>, \<open>released_view_is_unreadable\<close> in \<open>Abi_Mirror\<close>).

  \<^bold>\<open>Not modelled.\<close> The wgpu backend, the code generator for TGSI and the SPIR-V rewriting are calls
  into third-party crates. The virgl backend translates streams into the protocol of a
  kernel driver, whose effects are not in this repository; of it the packets and the
  scheduler are in the shared code that is modelled. The rest of the Vulkan driver works on raw pointers
  of a foreign interface and on window systems. The facade, the loader with its C layouts, the
  completion traits, benchmarks and scripts forward calls, lay out memory or measure. Concurrency
  appears as arbitrary interleavings of operations where a component is shared (scheduler, table and
  snapshots); locks and threads do not appear.
\<close>

end
